(* ===== verification/GR_Prelude.thy ===== *)
theory GR_Prelude
  imports Complex_Main "HOL-Library.AList" "HOL-Library.Multiset" "HOL-Library.Sublist"
begin

text \<open>
  Shared vocabulary of the development: Python exceptions as values, insertion-ordered
  dictionaries as association lists (\<open>AList.update\<close> overwrites in place or appends at the end,
  exactly as a Python \<open>dict\<close> does, \<open>AList.delete\<close> is \<open>dict.pop\<close>), the dynamic values a request's
  metadata can hold with Python's \<open>int(x)\<close> on them, floats with their three non-finite values,
  and the list and dictionary lemmas the component theories share.
\<close>

section \<open>Exceptions and results\<close>

datatype py_exc =
    ValueError string
  | KeyError string
  | MemoryError string
  | RuntimeError string
  | TypeError string
  | IndexError string
  | OverflowError string
  | OSError string
  | AttributeError string

type_synonym 'a py_result = "py_exc + 'a"

fun bind_res :: "'e + 'a \<Rightarrow> ('a \<Rightarrow> 'e + 'b) \<Rightarrow> 'e + 'b" where
  "bind_res (Inl e) f = Inl e"
| "bind_res (Inr x) f = f x"

lemma bind_res_Inr_iff [simp]:
  "bind_res r f = Inr y \<longleftrightarrow> (\<exists>x. r = Inr x \<and> f x = Inr y)"
  by (cases r) auto

lemma bind_res_Inl_iff:
  "bind_res r f = Inl e \<longleftrightarrow> r = Inl e \<or> (\<exists>x. r = Inr x \<and> f x = Inl e)"
  by (cases r) auto

text \<open>The value of a result known to be one.\<close>

fun is_ok :: "'e + 'a \<Rightarrow> bool" where
  "is_ok (Inl _) = False"
| "is_ok (Inr _) = True"

lemma is_ok_iff: "is_ok r \<longleftrightarrow> (\<exists>x. r = Inr x)"
  by (cases r) auto

text \<open>A list comprehension whose element expression may raise stops at the first exception.\<close>

fun map_res :: "('a \<Rightarrow> 'e + 'b) \<Rightarrow> 'a list \<Rightarrow> 'e + 'b list" where
  "map_res f [] = Inr []"
| "map_res f (x # xs) = bind_res (f x) (\<lambda>y. bind_res (map_res f xs) (\<lambda>ys. Inr (y # ys)))"

lemma map_res_total: "(\<And>x. x \<in> set xs \<Longrightarrow> f x = Inr (g x)) \<Longrightarrow> map_res f xs = Inr (map g xs)"
  by (induction xs) auto

lemma map_res_Inr: "map_res f xs = Inr ys \<Longrightarrow> list_all2 (\<lambda>x y. f x = Inr y) xs ys"
  by (induction xs arbitrary: ys) auto

lemma map_res_nth:
  "map_res f xs = Inr ys \<Longrightarrow> length ys = length xs \<and> (\<forall>i < length xs. f (xs ! i) = Inr (ys ! i))"
  using map_res_Inr [of f xs ys] by (auto simp: list_all2_conv_all_nth)

section \<open>Dictionaries\<close>

type_synonym ('k, 'v) dict = "('k \<times> 'v) list"

abbreviation dict_set :: "'k \<Rightarrow> 'v \<Rightarrow> ('k, 'v) dict \<Rightarrow> ('k, 'v) dict" where
  "dict_set \<equiv> AList.update"

abbreviation dict_pop :: "'k \<Rightarrow> ('k, 'v) dict \<Rightarrow> ('k, 'v) dict" where
  "dict_pop \<equiv> AList.delete"

abbreviation dict_keys :: "('k, 'v) dict \<Rightarrow> 'k list" where
  "dict_keys d \<equiv> map fst d"

abbreviation dict_values :: "('k, 'v) dict \<Rightarrow> 'v list" where
  "dict_values d \<equiv> map snd d"

abbreviation wf_dict :: "('k, 'v) dict \<Rightarrow> bool" where
  "wf_dict d \<equiv> distinct (map fst d)"

named_theorems dict_simps "how the dictionary operations act on lookups, keys and sizes"

lemmas dict_lookup [dict_simps] = AList.update_conv' AList.delete_conv'

lemma map_of_None_iff_keys: "map_of d k = None \<longleftrightarrow> k \<notin> set (dict_keys d)"
  by (simp add: map_of_eq_None_iff)

lemma map_of_Some_keys: "map_of d k = Some v \<Longrightarrow> k \<in> set (dict_keys d)"
  by (metis map_of_None_iff_keys option.distinct(1))

lemma key_in_dict_Some: "k \<in> set (dict_keys d) \<Longrightarrow> \<exists>v. map_of d k = Some v"
  by (metis map_of_None_iff_keys option.exhaust)

lemma dict_set_new: "k \<notin> set (dict_keys d) \<Longrightarrow> dict_set k v d = d @ [(k, v)]"
  by (induction d) auto

lemma dict_set_subset: "set (dict_set k v d) \<subseteq> insert (k, v) (set d)"
  by (induction d) auto

lemma dict_pop_subset: "set (dict_pop k d) \<subseteq> set d"
  by (simp add: AList.delete_eq)

lemma dict_set_keys_old: "k \<in> set (dict_keys d) \<Longrightarrow> dict_keys (dict_set k v d) = dict_keys d"
  by (induction d) auto

lemma dict_set_keys_set [dict_simps]: "set (dict_keys (dict_set k v d)) = insert k (set (dict_keys d))"
  by (induction d) auto

lemma dict_set_keys_image [dict_simps]: "fst ` set (dict_set k v d) = insert k (fst ` set d)"
  by (induction d) auto

lemma dict_pop_keys_image [dict_simps]: "fst ` set (dict_pop k d) = fst ` set d - {k}"
  by (induction d) auto

lemma wf_dict_set [dict_simps]: "wf_dict d \<Longrightarrow> wf_dict (dict_set k v d)"
  by (rule AList.distinct_update)

lemma wf_dict_pop [dict_simps]: "wf_dict d \<Longrightarrow> wf_dict (dict_pop k d)"
  by (rule AList.distinct_delete)

lemma dict_pop_keys [dict_simps]: "dict_keys (dict_pop k d) = removeAll k (dict_keys d)"
  by (rule AList.delete_keys)

lemma mset_dict_pop:
  "wf_dict d \<Longrightarrow> map_of d k = Some v \<Longrightarrow> mset d = add_mset (k, v) (mset (dict_pop k d))"
  by (induction d) (force split: if_splits)+

lemma mset_dict_set_new:
  "k \<notin> set (dict_keys d) \<Longrightarrow> mset (dict_set k v d) = add_mset (k, v) (mset d)"
  by (simp add: dict_set_new)

lemma dict_pop_set_new:
  "k \<notin> set (dict_keys d) \<Longrightarrow> dict_pop k (dict_set k v d) = d"
  by (simp add: AList.delete_update_same AList.delete_id)

lemma dict_pop_snoc_new: "k \<notin> set (dict_keys d) \<Longrightarrow> dict_pop k (d @ [(k, v)]) = d"
  by (metis dict_pop_set_new dict_set_new)

lemma lookup_snoc_new:
  "k \<notin> set (dict_keys d) \<Longrightarrow> map_of (d @ [(k, v)]) j = (if j = k then Some v else map_of d j)"
  using dict_set_new [of k d v] dict_lookup(1) [of k v d] by (metis fun_upd_apply)

lemma length_dict_pop:
  "wf_dict d \<Longrightarrow> map_of d k = Some v \<Longrightarrow> length d = Suc (length (dict_pop k d))"
  by (metis mset_dict_pop size_add_mset size_mset)

text \<open>A total over the values of a dictionary, as Python's \<open>sum(f(v) for v in d.values())\<close>.\<close>

definition dict_sum :: "('v \<Rightarrow> int) \<Rightarrow> ('k, 'v) dict \<Rightarrow> int" where
  "dict_sum f d = sum_list (map f (dict_values d))"

lemma dict_sum_Nil [simp]: "dict_sum f [] = 0"
  by (simp add: dict_sum_def)

lemma dict_sum_Cons [simp]: "dict_sum f ((k, v) # d) = f v + dict_sum f d"
  by (simp add: dict_sum_def)

lemma dict_sum_append [simp]: "dict_sum f (d @ d') = dict_sum f d + dict_sum f d'"
  by (simp add: dict_sum_def)

lemma dict_sum_mset: "dict_sum f d = (\<Sum>p\<in>#mset d. f (snd p))"
  by (induction d) auto

lemma dict_sum_pop:
  "wf_dict d \<Longrightarrow> map_of d k = Some v \<Longrightarrow> dict_sum f (dict_pop k d) = dict_sum f d - f v"
  by (simp add: dict_sum_mset mset_dict_pop)

lemma dict_sum_set_new:
  "k \<notin> set (dict_keys d) \<Longrightarrow> dict_sum f (dict_set k v d) = dict_sum f d + f v"
  by (simp add: dict_set_new)

lemma dict_sum_nonneg: "(\<And>v. v \<in> set (dict_values d) \<Longrightarrow> 0 \<le> f v) \<Longrightarrow> 0 \<le> dict_sum f d"
  unfolding dict_sum_def by (rule sum_list_nonneg) auto

lemma dict_sum_ge_member:
  "(\<And>v. v \<in> set (dict_values d) \<Longrightarrow> 0 \<le> f v) \<Longrightarrow> v \<in> set (dict_values d) \<Longrightarrow> f v \<le> dict_sum f d"
proof (induction d)
  case Nil
  then show ?case by simp
next
  case (Cons p d)
  obtain k w where p: "p = (k, w)" by (cases p)
  have nn: "0 \<le> dict_sum f d" using Cons.prems(1) by (intro dict_sum_nonneg) auto
  have w: "0 \<le> f w" using Cons.prems(1) p by simp
  show ?case
  proof (cases "v = w")
    case True
    then show ?thesis using nn p by simp
  next
    case False
    then have "f v \<le> dict_sum f d" using Cons p by auto
    then show ?thesis using w p by simp
  qed
qed

text \<open>\<open>OrderedDict.move_to_end\<close>: the entry keeps its value and becomes the last one.\<close>

definition move_to_end :: "'k \<Rightarrow> ('k, 'v) dict \<Rightarrow> ('k, 'v) dict" where
  "move_to_end k d = (case map_of d k of None \<Rightarrow> d | Some v \<Rightarrow> dict_pop k d @ [(k, v)])"

lemma move_to_end_lookup [dict_simps]:
  "wf_dict d \<Longrightarrow> map_of (move_to_end k d) = map_of d"
  by (rule ext) (auto simp: move_to_end_def map_add_def dict_lookup split: option.splits)

lemma mset_move_to_end: "wf_dict d \<Longrightarrow> mset (move_to_end k d) = mset d"
  by (simp add: move_to_end_def mset_dict_pop split: option.splits)

lemma wf_dict_mset: "mset d = mset d' \<Longrightarrow> wf_dict d = wf_dict d'"
  by (metis mset_eq_imp_distinct_iff mset_map)

lemma wf_move_to_end [dict_simps]: "wf_dict d \<Longrightarrow> wf_dict (move_to_end k d)"
  using wf_dict_mset mset_move_to_end by metis

lemma set_move_to_end: "wf_dict d \<Longrightarrow> set (move_to_end k d) = set d"
  using mset_move_to_end mset_eq_setD by metis

lemma length_move_to_end: "wf_dict d \<Longrightarrow> length (move_to_end k d) = length d"
  using mset_move_to_end mset_eq_length by metis

section \<open>Ranges and slices\<close>

text \<open>\<open>range(n)\<close> on Python integers: empty for \<open>n \<le> 0\<close>.\<close>

definition py_range :: "int \<Rightarrow> int list" where
  "py_range n = [0..n - 1]"

lemma set_py_range [simp]: "set (py_range n) = {0..<n}"
  by (auto simp: py_range_def)

lemma length_py_range [simp]: "length (py_range n) = nat n"
  by (simp add: py_range_def)

lemma nth_py_range [simp]: "i < nat n \<Longrightarrow> py_range n ! i = int i"
  by (simp add: py_range_def)

lemma distinct_py_range [simp]: "distinct (py_range n)"
  by (simp add: py_range_def)

lemma sorted_py_range [simp]: "sorted (py_range n)"
  by (simp add: py_range_def)

text \<open>\<open>xs[i]\<close>: a negative index counts from the end, an index outside raises.\<close>

definition py_get :: "'a list \<Rightarrow> int \<Rightarrow> 'a py_result" where
  "py_get xs i =
     (if 0 \<le> i \<and> nat i < length xs then Inr (xs ! nat i)
      else if i < 0 \<and> nat (- i) \<le> length xs then Inr (xs ! (length xs - nat (- i)))
      else Inl (IndexError ''list index out of range''))"

lemma py_get_in_range [simp]:
  "0 \<le> i \<Longrightarrow> i < int (length xs) \<Longrightarrow> py_get xs i = Inr (xs ! nat i)"
  by (auto simp: py_get_def)

text \<open>\<open>xs[:n]\<close> and \<open>xs[n:]\<close> for a bound that may be negative.\<close>

definition py_take :: "int \<Rightarrow> 'a list \<Rightarrow> 'a list" where
  "py_take n xs = take (nat (if n < 0 then int (length xs) + n else n)) xs"

definition py_drop :: "int \<Rightarrow> 'a list \<Rightarrow> 'a list" where
  "py_drop n xs = drop (nat (if n < 0 then int (length xs) + n else n)) xs"

lemma py_take_nonneg [simp]: "0 \<le> n \<Longrightarrow> py_take n xs = take (nat n) xs"
  by (simp add: py_take_def)

lemma py_drop_nonneg [simp]: "0 \<le> n \<Longrightarrow> py_drop n xs = drop (nat n) xs"
  by (simp add: py_drop_def)

lemma bex_set_nth: "(\<exists>x \<in> set xs. P x) \<longleftrightarrow> (\<exists>i < length xs. P (xs ! i))"
  using all_set_conv_all_nth [of xs "\<lambda>x. \<not> P x"] by blast

lemma set_concat_nth: "x \<in> set (concat xss) \<longleftrightarrow> (\<exists>j < length xss. x \<in> set (xss ! j))"
  by (simp only: set_concat UN_iff bex_set_nth)

lemma takeWhile_absent [simp]: "e \<notin> set xs \<Longrightarrow> takeWhile (\<lambda>x. x \<noteq> e) xs = xs"
  by (induction xs) auto

text \<open>A bounded history: \<open>del h[: len(h) - limit]\<close> when a positive limit is exceeded.\<close>

definition trim_history :: "int \<Rightarrow> 'a list \<Rightarrow> 'a list" where
  "trim_history limit h =
     (if 0 < limit \<and> limit < int (length h) then drop (length h - nat limit) h else h)"

lemma trim_history_length: "0 < limit \<Longrightarrow> int (length (trim_history limit h)) \<le> limit"
  by (auto simp: trim_history_def)

text \<open>\<open>{**d, k1: v1, ...}\<close>.\<close>

definition dict_update :: "('k, 'v) dict \<Rightarrow> ('k \<times> 'v) list \<Rightarrow> ('k, 'v) dict" where
  "dict_update d kvs = foldl (\<lambda>d (k, v). dict_set k v d) d kvs"

text \<open>Sequencing of stateful calls: an exception keeps the state reached so far.\<close>

definition bind_st ::
  "('e + 'a) \<times> 's \<Rightarrow> ('a \<Rightarrow> 's \<Rightarrow> ('e + 'b) \<times> 's) \<Rightarrow> ('e + 'b) \<times> 's" where
  "bind_st m f = (case m of (Inl e, s) \<Rightarrow> (Inl e, s) | (Inr x, s) \<Rightarrow> f x s)"

lemma bind_st_simps [simp]:
  "bind_st (Inl e, s) f = (Inl e, s)" "bind_st (Inr x, s) f = f x s"
  by (simp_all add: bind_st_def)

text \<open>\<open>str(n)\<close> of an integer.\<close>

fun decimal :: "nat \<Rightarrow> string" where
  "decimal n = (if n < 10 then [char_of (48 + n)] else decimal (n div 10) @ [char_of (48 + n mod 10)])"

declare decimal.simps [simp del]

definition str_int :: "int \<Rightarrow> string" where
  "str_int n = (if n < 0 then ''-'' @ decimal (nat (- n)) else decimal (nat n))"

section \<open>Dynamic values\<close>

text \<open>Floats are exact rationals with the three non-finite values of IEEE-754: arithmetic is not
  rounded.\<close>

datatype pyfloat = Fin rat | PosInf | NegInf | NaN

fun is_finite :: "pyfloat \<Rightarrow> bool" where
  "is_finite (Fin _) = True"
| "is_finite _ = False"

datatype pyval =
    PNone
  | PBool bool
  | PInt int
  | PFloat pyfloat
  | PStr string
  | PList "pyval list"
  | PDict "(string \<times> pyval) list"

text \<open>
  \<open>int(x)\<close>. A float truncates towards zero; a string is an optionally signed run of decimal
  digits, blanks around it allowed and single underscores between digits.
\<close>

definition digit_val :: "char \<Rightarrow> int option" where
  "digit_val c = (let n = int (of_char c) in if 48 \<le> n \<and> n \<le> 57 then Some (n - 48) else None)"

definition is_blank :: "char \<Rightarrow> bool" where
  "is_blank c = (let n = (of_char c :: nat) in n = 32 \<or> (9 \<le> n \<and> n \<le> 13))"

definition py_strip :: "string \<Rightarrow> string" where
  "py_strip s = rev (dropWhile is_blank (rev (dropWhile is_blank s)))"

fun parse_digits :: "int \<Rightarrow> string \<Rightarrow> int option" where
  "parse_digits acc [] = Some acc"
| "parse_digits acc (c # cs) =
     (case digit_val c of
        Some d \<Rightarrow> parse_digits (10 * acc + d) cs
      | None \<Rightarrow>
          (if c = CHR ''_'' then
             (case cs of
                [] \<Rightarrow> None
              | c' # cs' \<Rightarrow> (case digit_val c' of
                                Some d \<Rightarrow> parse_digits (10 * acc + d) cs'
                              | None \<Rightarrow> None))
           else None))"

definition parse_nat :: "string \<Rightarrow> int option" where
  "parse_nat s = (case s of [] \<Rightarrow> None
     | c # cs \<Rightarrow> (case digit_val c of Some d \<Rightarrow> parse_digits d cs | None \<Rightarrow> None))"

definition parse_int :: "string \<Rightarrow> int option" where
  "parse_int s =
     (case py_strip s of
        [] \<Rightarrow> None
      | c # cs \<Rightarrow>
          (if c = CHR ''-'' then map_option uminus (parse_nat cs)
           else if c = CHR ''+'' then parse_nat cs
           else parse_nat (c # cs)))"

definition rat_trunc :: "rat \<Rightarrow> int" where
  "rat_trunc q = (if q < 0 then \<lceil>q\<rceil> else \<lfloor>q\<rfloor>)"

fun py_int :: "pyval \<Rightarrow> int py_result" where
  "py_int (PInt n) = Inr n"
| "py_int (PBool b) = Inr (if b then 1 else 0)"
| "py_int (PFloat (Fin q)) = Inr (rat_trunc q)"
| "py_int (PFloat NaN) = Inl (ValueError ''cannot convert float NaN to integer'')"
| "py_int (PFloat _) = Inl (OverflowError ''cannot convert float infinity to integer'')"
| "py_int (PStr s) = (case parse_int s of Some n \<Rightarrow> Inr n
     | None \<Rightarrow> Inl (ValueError ''invalid literal for int() with base 10''))"
| "py_int _ = Inl (TypeError ''int() argument must be a string or a number'')"

fun is_bool :: "pyval \<Rightarrow> bool" where
  "is_bool (PBool _) = True"
| "is_bool _ = False"

end
