(* ===== verification/GR_Beam_Policy.thy ===== *)
theory GR_Beam_Policy
  imports GR_Prelude
begin

text \<open>
  The beam-width policies of \<open>gr_scheduler/beam_policy.py\<close>: a fixed width, a schedule indexed by
  beam depth, and a policy that shrinks the width when the scores concentrate near the best one.
  The constructors' \<open>__post_init__\<close> checks are the \<open>mk_\<close> functions; \<open>width_for_step\<close> and
  \<open>observe_scores\<close> dispatch on the policy as Python does.
\<close>

section \<open>Policies and their constructors\<close>

record ScoreMarginPolicy =
  max_beam_width :: int
  score_margin :: pyfloat
  min_beam_width :: int
  monotonic_shrink :: bool
  widths :: "(int, int) dict"

datatype beam_width_policy =
    FixedBeamPolicy int
  | ScheduledBeamPolicy "(int, int) dict"
  | ScoreMarginBeamPolicy ScoreMarginPolicy

definition mk_fixed_policy :: "int \<Rightarrow> beam_width_policy py_result" where
  "mk_fixed_policy beam_width =
     (if beam_width \<le> 0 then Inl (ValueError ''beam_width must be positive'')
      else Inr (FixedBeamPolicy beam_width))"

fun check_schedule :: "(int, int) dict \<Rightarrow> unit py_result" where
  "check_schedule [] = Inr ()"
| "check_schedule ((step, width) # rest) =
     (if step < 0 then Inl (ValueError ''schedule steps must be non-negative'')
      else if width \<le> 0 then Inl (ValueError ''beam widths must be positive'')
      else check_schedule rest)"

definition mk_scheduled_policy :: "(int, int) dict \<Rightarrow> beam_width_policy py_result" where
  "mk_scheduled_policy schedule =
     (if schedule = [] then Inl (ValueError ''schedule must not be empty'')
      else if 0 \<notin> set (dict_keys schedule) then Inl (ValueError ''schedule must include step 0'')
      else bind_res (check_schedule schedule) (\<lambda>_. Inr (ScheduledBeamPolicy schedule)))"

fun float_negative :: "pyfloat \<Rightarrow> bool" where
  "float_negative (Fin q) = (q < 0)"
| "float_negative NegInf = True"
| "float_negative _ = False"

definition mk_score_margin_policy ::
  "int \<Rightarrow> pyfloat \<Rightarrow> int \<Rightarrow> bool \<Rightarrow> (int, int) dict option \<Rightarrow> beam_width_policy py_result" where
  "mk_score_margin_policy max_w margin min_w shrink ws =
     (if max_w \<le> 0 then Inl (ValueError ''max_beam_width must be positive'')
      else if min_w \<le> 0 then Inl (ValueError ''min_beam_width must be positive'')
      else if min_w > max_w then Inl (ValueError ''min_beam_width must not exceed max_beam_width'')
      else if float_negative margin then Inl (ValueError ''score_margin must be non-negative'')
      else
        let ws' = (case ws of
                     None \<Rightarrow> [(0, max_w)]
                   | Some w \<Rightarrow> if 0 \<notin> set (dict_keys w) then dict_set 0 max_w w else w)
        in Inr (ScoreMarginBeamPolicy
             \<lparr>max_beam_width = max_w, score_margin = margin, min_beam_width = min_w,
              monotonic_shrink = shrink, widths = ws'\<rparr>))"

section \<open>Width lookup and score observation\<close>

definition known_steps :: "(int, int) dict \<Rightarrow> int \<Rightarrow> int list" where
  "known_steps d step = filter (\<lambda>s. s \<le> step) (dict_keys d)"

definition scheduled_width :: "(int, int) dict \<Rightarrow> int \<Rightarrow> int py_result" where
  "scheduled_width schedule step =
     (if step < 0 then Inl (ValueError ''step must be non-negative'')
      else case known_steps schedule step of
             [] \<Rightarrow> Inl (ValueError ''max() arg is an empty sequence'')
           | s # ss \<Rightarrow> (case map_of schedule (Max (set (s # ss))) of
                          Some w \<Rightarrow> Inr w
                        | None \<Rightarrow> Inl (KeyError ''schedule'')))"

definition margin_width :: "ScoreMarginPolicy \<Rightarrow> int \<Rightarrow> int py_result" where
  "margin_width p step =
     (if step < 0 then Inl (ValueError ''step must be non-negative'')
      else case known_steps (widths p) step of
             [] \<Rightarrow> Inr (max_beam_width p)
           | s # ss \<Rightarrow> (case map_of (widths p) (Max (set (s # ss))) of
                          Some w \<Rightarrow> Inr w
                        | None \<Rightarrow> Inl (KeyError ''widths'')))"

fun width_for_step :: "beam_width_policy \<Rightarrow> int \<Rightarrow> int py_result" where
  "width_for_step (FixedBeamPolicy w) step =
     (if step < 0 then Inl (ValueError ''step must be non-negative'') else Inr w)"
| "width_for_step (ScheduledBeamPolicy schedule) step = scheduled_width schedule step"
| "width_for_step (ScoreMarginBeamPolicy p) step = margin_width p step"

fun finite_values :: "pyfloat list \<Rightarrow> rat list" where
  "finite_values [] = []"
| "finite_values (Fin q # fs) = q # finite_values fs"
| "finite_values (_ # fs) = finite_values fs"

fun within_margin :: "rat \<Rightarrow> pyfloat \<Rightarrow> bool" where
  "within_margin d (Fin m) = (d \<le> m)"
| "within_margin d PosInf = True"
| "within_margin d _ = False"

definition margin_count :: "pyfloat \<Rightarrow> rat list \<Rightarrow> int" where
  "margin_count margin qs =
     int (length (filter (\<lambda>q. within_margin (Max (set qs) - q) margin) qs))"

definition margin_next_width :: "ScoreMarginPolicy \<Rightarrow> pyfloat list \<Rightarrow> int" where
  "margin_next_width p scores =
     (let qs = finite_values scores;
          raw = (if qs = [] then min_beam_width p else margin_count (score_margin p) qs)
      in max (min_beam_width p) (min (max_beam_width p) raw))"

definition margin_observe_scores ::
  "ScoreMarginPolicy \<Rightarrow> int \<Rightarrow> pyfloat list \<Rightarrow> (ScoreMarginPolicy \<times> int) py_result" where
  "margin_observe_scores p step scores =
     (if step < 0 then Inl (ValueError ''step must be non-negative'')
      else if scores = [] then Inl (ValueError ''scores must not be empty'')
      else
        let w = margin_next_width p scores
        in bind_res (if monotonic_shrink p
                     then bind_res (margin_width p step) (\<lambda>cur. Inr (min cur w))
                     else Inr w)
             (\<lambda>next_w. Inr (p\<lparr>widths := dict_set (step + 1) next_w (widths p)\<rparr>, next_w)))"

text \<open>Only the score-margin policy has an \<open>observe_scores\<close> method; the callers look the method up
  with \<open>getattr(policy, "observe_scores", None)\<close> and skip the others.\<close>

fun observe_policy_scores ::
  "beam_width_policy \<Rightarrow> int \<Rightarrow> pyfloat list \<Rightarrow> beam_width_policy py_result" where
  "observe_policy_scores (ScoreMarginBeamPolicy p) step scores =
     bind_res (margin_observe_scores p step scores) (\<lambda>(p', _). Inr (ScoreMarginBeamPolicy p'))"
| "observe_policy_scores pol step scores = Inr pol"

section \<open>Well-formed policies\<close>

text \<open>What the constructors guarantee, and the stronger form a validated request adds: every width
  the policy knows is at most the request's beam width.\<close>

fun wf_policy :: "beam_width_policy \<Rightarrow> bool" where
  "wf_policy (FixedBeamPolicy w) = (0 < w)"
| "wf_policy (ScheduledBeamPolicy d) =
     (0 \<in> set (dict_keys d) \<and> (\<forall>(s, w) \<in> set d. 0 \<le> s \<and> 0 < w))"
| "wf_policy (ScoreMarginBeamPolicy p) =
     (0 < min_beam_width p \<and> min_beam_width p \<le> max_beam_width p \<and> 0 \<in> set (dict_keys (widths p)))"

fun bounded_policy :: "int \<Rightarrow> beam_width_policy \<Rightarrow> bool" where
  "bounded_policy b (FixedBeamPolicy w) = (0 < w \<and> w \<le> b)"
| "bounded_policy b (ScheduledBeamPolicy d) =
     (0 \<in> set (dict_keys d) \<and> (\<forall>(s, w) \<in> set d. 0 < w \<and> w \<le> b))"
| "bounded_policy b (ScoreMarginBeamPolicy p) =
     (0 < min_beam_width p \<and> min_beam_width p \<le> max_beam_width p \<and> max_beam_width p \<le> b
      \<and> 0 \<in> set (dict_keys (widths p)) \<and> (\<forall>(s, w) \<in> set (widths p). 0 < w \<and> w \<le> b))"

lemma check_schedule_ok:
  "check_schedule d = Inr () \<longleftrightarrow> (\<forall>(s, w) \<in> set d. 0 \<le> s \<and> 0 < w)"
  by (induction d rule: check_schedule.induct) auto

lemma mk_fixed_wf: "mk_fixed_policy w = Inr p \<Longrightarrow> wf_policy p"
  by (auto simp: mk_fixed_policy_def split: if_splits)

lemma mk_scheduled_wf: "mk_scheduled_policy d = Inr p \<Longrightarrow> wf_policy p"
  by (auto simp: mk_scheduled_policy_def check_schedule_ok split: if_splits del: imageE)

lemma mk_score_margin_wf: "mk_score_margin_policy a m i b ws = Inr p \<Longrightarrow> wf_policy p"
  by (auto simp: mk_score_margin_policy_def Let_def dict_simps
      split: if_splits option.splits del: imageE)

text \<open>A lookup at a non-negative step always finds a known step, because step 0 is known.\<close>

lemma known_steps_lookup:
  assumes "0 \<in> set (dict_keys d)" and "0 \<le> step"
  shows "known_steps d step \<noteq> []"
    and "\<exists>w. map_of d (Max (set (known_steps d step))) = Some w
          \<and> (Max (set (known_steps d step)), w) \<in> set d"
proof -
  show ne: "known_steps d step \<noteq> []"
    using assms by (force simp: known_steps_def filter_empty_conv)
  have "Max (set (known_steps d step)) \<in> set (known_steps d step)"
    using ne by simp
  then have "Max (set (known_steps d step)) \<in> set (dict_keys d)"
    by (simp add: known_steps_def)
  then obtain w where "map_of d (Max (set (known_steps d step))) = Some w"
    by (blast dest: key_in_dict_Some)
  then show "\<exists>w. map_of d (Max (set (known_steps d step))) = Some w
          \<and> (Max (set (known_steps d step)), w) \<in> set d"
    by (blast dest: map_of_SomeD)
qed

lemma scheduled_width_eq:
  assumes "0 \<in> set (dict_keys d)" and "0 \<le> step"
  shows "\<exists>w. scheduled_width d step = Inr w \<and> (Max (set (known_steps d step)), w) \<in> set d"
  using known_steps_lookup [OF assms] assms(2)
  by (cases "known_steps d step") (auto simp: scheduled_width_def)

lemma margin_width_eq:
  assumes "0 \<in> set (dict_keys (widths p))" and "0 \<le> step"
  shows "\<exists>w. margin_width p step = Inr w \<and> (Max (set (known_steps (widths p) step)), w) \<in> set (widths p)"
  using known_steps_lookup [OF assms] assms(2)
  by (cases "known_steps (widths p) step") (auto simp: margin_width_def)

lemma bounded_width_for_step:
  assumes "bounded_policy b p" and "0 \<le> step"
  shows "\<exists>w. width_for_step p step = Inr w \<and> 0 < w \<and> w \<le> b"
proof (cases p)
  case (FixedBeamPolicy w)
  then show ?thesis using assms by auto
next
  case (ScheduledBeamPolicy d)
  then show ?thesis using assms scheduled_width_eq [of d step] by fastforce
next
  case (ScoreMarginBeamPolicy q)
  then show ?thesis using assms margin_width_eq [of q step] by fastforce
qed

lemma margin_next_width_bounds:
  assumes "0 < min_beam_width p" and "min_beam_width p \<le> max_beam_width p"
  shows "min_beam_width p \<le> margin_next_width p scores" and "margin_next_width p scores \<le> max_beam_width p"
  using assms by (auto simp: margin_next_width_def Let_def)

lemma margin_observe_bounded:
  assumes bp: "bounded_policy b (ScoreMarginBeamPolicy p)"
    and obs: "margin_observe_scores p step scores = Inr (p', w)"
  shows "bounded_policy b (ScoreMarginBeamPolicy p') \<and> 0 < w \<and> w \<le> b"
proof -
  from obs have st: "0 \<le> step" by (auto simp: margin_observe_scores_def split: if_splits)
  have nb: "0 < margin_next_width p scores" "margin_next_width p scores \<le> b"
    using bp margin_next_width_bounds [of p scores] by auto
  obtain c where c: "margin_width p step = Inr c" "0 < c" "c \<le> b"
    using bounded_width_for_step [OF bp st] by auto
  have p': "p' = p\<lparr>widths := dict_set (step + 1) w (widths p)\<rparr>" and w: "0 < w" "w \<le> b"
    using obs c nb by (auto simp: margin_observe_scores_def Let_def split: if_splits)
  have vals: "\<forall>(s, v) \<in> set (dict_set (step + 1) w (widths p)). 0 < v \<and> v \<le> b"
    using bp w dict_set_subset [of "step + 1" w "widths p"] by auto
  show ?thesis using bp w vals p' by (simp add: dict_simps)
qed

end
