(* ===== verification/GR_Tensor.thy ===== *)
theory GR_Tensor
  imports GR_Prelude
begin

text \<open>
  The part of torch that beam search uses. Tensors are a shape and their elements in row-major order;
  scores are exact floats ordered the way \<open>torch.topk\<close> orders them, with NaN above every number.
  \<open>topk\<close>, \<open>logsumexp\<close> and \<open>log_softmax\<close> are parameters, with what their documentation promises as the
  predicate \<open>torch_contract\<close>; \<open>ref_torch\<close> shows that it can be met. \<open>best k xs\<close>, the k largest elements in
  descending order, is the reference the selections are compared with.
\<close>

section \<open>Scores\<close>

fun float_rank :: "pyfloat \<Rightarrow> nat" where
  "float_rank NegInf = 0"
| "float_rank (Fin x) = 1"
| "float_rank PosInf = 2"
| "float_rank NaN = 3"

fun float_val :: "pyfloat \<Rightarrow> rat" where
  "float_val (Fin x) = x"
| "float_val _ = 0"

instantiation pyfloat :: linorder
begin

definition less_eq_pyfloat :: "pyfloat \<Rightarrow> pyfloat \<Rightarrow> bool" where
  "less_eq_pyfloat x y \<longleftrightarrow> float_rank x < float_rank y \<or> float_rank x = float_rank y \<and> float_val x \<le> float_val y"

definition less_pyfloat :: "pyfloat \<Rightarrow> pyfloat \<Rightarrow> bool" where
  "less_pyfloat x y \<longleftrightarrow> float_rank x < float_rank y \<or> float_rank x = float_rank y \<and> float_val x < float_val y"

instance
proof
  fix x y z :: pyfloat
  show "x < y \<longleftrightarrow> x \<le> y \<and> \<not> y \<le> x" by (auto simp: less_eq_pyfloat_def less_pyfloat_def)
  show "x \<le> x" by (simp add: less_eq_pyfloat_def)
  show "x \<le> y \<Longrightarrow> y \<le> z \<Longrightarrow> x \<le> z" by (auto simp: less_eq_pyfloat_def)
  show "x \<le> y \<Longrightarrow> y \<le> x \<Longrightarrow> x = y" by (cases x; cases y) (auto simp: less_eq_pyfloat_def)
  show "x \<le> y \<or> y \<le> x" by (auto simp: less_eq_pyfloat_def)
qed

end

text \<open>IEEE addition and subtraction, without rounding.\<close>

fun fadd :: "pyfloat \<Rightarrow> pyfloat \<Rightarrow> pyfloat" where
  "fadd (Fin x) (Fin y) = Fin (x + y)"
| "fadd NaN y = NaN"
| "fadd x NaN = NaN"
| "fadd PosInf NegInf = NaN"
| "fadd NegInf PosInf = NaN"
| "fadd PosInf y = PosInf"
| "fadd x PosInf = PosInf"
| "fadd NegInf y = NegInf"
| "fadd x NegInf = NegInf"

fun fneg :: "pyfloat \<Rightarrow> pyfloat" where
  "fneg (Fin x) = Fin (- x)"
| "fneg PosInf = NegInf"
| "fneg NegInf = PosInf"
| "fneg NaN = NaN"

definition fsub :: "pyfloat \<Rightarrow> pyfloat \<Rightarrow> pyfloat" where
  "fsub x y = fadd x (fneg y)"

lemma fadd_mono: "p \<noteq> PosInf \<Longrightarrow> x \<le> y \<Longrightarrow> fadd x p \<le> fadd y p"
  by (cases x; cases y; cases p) (auto simp: less_eq_pyfloat_def)

lemma fsub_mono: "l \<noteq> NegInf \<Longrightarrow> x \<le> y \<Longrightarrow> fsub x l \<le> fsub y l"
  unfolding fsub_def by (rule fadd_mono) (cases l; simp)

lemma is_finite_fadd [simp]: "is_finite (fadd x y) \<longleftrightarrow> is_finite x \<and> is_finite y"
  by (cases x; cases y) auto

lemma is_finite_fsub [simp]: "is_finite (fsub x y) \<longleftrightarrow> is_finite x \<and> is_finite y"
  unfolding fsub_def by (cases x; cases y) auto

section \<open>The k best elements\<close>

definition best :: "nat \<Rightarrow> 'a::linorder list \<Rightarrow> 'a list" where
  "best k xs = take k (rev (sort xs))"

lemma length_best [simp]: "length (best k xs) = min k (length xs)"
  by (simp add: best_def min.commute)

lemma best_split: "mset xs = mset (best k xs) + mset (drop k (rev (sort xs)))"
proof -
  have "mset (best k xs) + mset (drop k (rev (sort xs))) = mset (take k (rev (sort xs)) @ drop k (rev (sort xs)))"
    by (simp only: best_def mset_append)
  also have "\<dots> = mset xs" unfolding append_take_drop_id by simp
  finally show ?thesis by simp
qed

lemma sorted_rev_sort: "sorted_wrt (\<ge>) (rev (sort xs))"
  using sorted_sort [of xs] by (simp add: sorted_wrt_rev)

lemma best_sorted: "sorted_wrt (\<ge>) (best k xs)"
  unfolding best_def using sorted_rev_sort by (rule sorted_wrt_take)

lemma best_above_rest:
  assumes "x \<in> set (best k xs)" and "y \<in> set (drop k (rev (sort xs)))"
  shows "y \<le> x"
proof -
  have "sorted_wrt (\<ge>) (take k (rev (sort xs)) @ drop k (rev (sort xs)))"
    unfolding append_take_drop_id by (rule sorted_rev_sort)
  then show ?thesis using assms unfolding best_def sorted_wrt_append by blast
qed

text \<open>What makes a list the list of the k best elements.\<close>

lemma best_unique:
  assumes "sorted_wrt (\<ge>) l" and "mset xs = mset l + mset r" and "\<And>x y. x \<in> set l \<Longrightarrow> y \<in> set r \<Longrightarrow> y \<le> x"
    and "length l = min k (length xs)"
  shows "best k xs = l"
proof -
  let ?d = "l @ rev (sort r)"
  have "sorted_wrt (\<ge>) ?d" using assms(1,3) sorted_rev_sort [of r] by (auto simp: sorted_wrt_append)
  then have "sorted (rev ?d)" unfolding sorted_wrt_rev .
  moreover have "mset (rev ?d) = mset xs" using assms(2) by simp
  ultimately have s: "sort xs = rev ?d" by (intro properties_for_sort)
  show ?thesis
  proof (cases "k \<le> length xs")
    case True
    then show ?thesis using s assms(4) by (simp add: best_def)
  next
    case False
    have "length xs = length l + length r" using arg_cong [OF assms(2), of size] by (simp only: size_union size_mset)
    then have "r = []" using False assms(4) by simp
    then show ?thesis using s False assms(4) by (simp add: best_def)
  qed
qed

lemma best_mset: "mset xs = mset ys \<Longrightarrow> best k xs = best k ys"
  unfolding best_def by (metis sorted_list_of_multiset_mset)

lemma best_min: "best (min k (length xs)) xs = best k xs"
  by (simp add: best_def min_def)

lemma best_map:
  assumes "\<And>x y. x \<in> set xs \<Longrightarrow> y \<in> set xs \<Longrightarrow> x \<le> y \<Longrightarrow> f x \<le> f y"
  shows "best k (map f xs) = map f (best k xs)"
proof (rule best_unique)
  have sub: "set (best k xs) \<subseteq> set xs" "set (drop k (rev (sort xs))) \<subseteq> set xs"
    unfolding best_def by (auto dest: in_set_takeD in_set_dropD)
  show "sorted_wrt (\<ge>) (map f (best k xs))"
    unfolding sorted_wrt_map using best_sorted [of k xs]
    by (rule sorted_wrt_mono_rel [rotated]) (use sub(1) assms in blast)
  show "mset (map f xs) = mset (map f (best k xs)) + mset (map f (drop k (rev (sort xs))))"
    using arg_cong [OF best_split [of xs k], of "image_mset f"] by (simp only: mset_map image_mset_union)
  show "y \<le> x" if "x \<in> set (map f (best k xs))" "y \<in> set (map f (drop k (rev (sort xs))))" for x y
    using that sub assms best_above_rest [of _ k xs] by fastforce
qed simp

text \<open>Trimming a part of the candidates to its own k best does not change the k best.\<close>

lemma best_append: "best k (best k xs @ ys) = best k (xs @ ys)"
proof -
  let ?b = "best k xs" and ?D = "drop k (rev (sort xs))"
  let ?l = "best k (?b @ ys)" and ?r = "drop k (rev (sort (?b @ ys)))"
  have top: "y \<le> x" if "x \<in> set ?l" "y \<in> set ?D" for x y
  proof (rule ccontr)
    assume "\<not> y \<le> x"
    then have above: "x < z" if "z \<in> set ?b" for z using best_above_rest [OF that \<open>y \<in> set ?D\<close>] by simp
    have k: "length ?b = k" using \<open>y \<in> set ?D\<close> by (cases "k \<le> length xs") auto
    have "filter_mset (\<lambda>z. x < z) (mset ?b) = mset ?b" using above by (simp add: filter_mset_eq_conv)
    moreover have "filter_mset (\<lambda>z. x < z) (mset ?r) = {#}"
      using best_above_rest [OF that(1)] by (simp add: not_less)
    moreover have "mset ?b + mset ys = mset ?l + mset ?r" using best_split [of "?b @ ys" k] by simp
    ultimately have "mset ?b \<subseteq># filter_mset (\<lambda>z. x < z) (mset ?l)"
      by (metis filter_union_mset add.right_neutral mset_subset_eq_add_left)
    then have "k \<le> length (filter (\<lambda>z. x < z) ?l)" using k size_mset_mono by (metis mset_filter size_mset)
    moreover have "length (filter (\<lambda>z. x < z) ?l) < length ?l" using that(1) by (intro length_filter_less) auto
    ultimately show False by simp
  qed
  show ?thesis
  proof (rule best_unique [symmetric, OF best_sorted])
    have "mset (xs @ ys) = mset ?b + mset ?D + mset ys" using best_split [of xs k] by simp
    also have "\<dots> = mset ?l + mset (?r @ ?D)" using best_split [of "?b @ ys" k] by simp
    finally show "mset (xs @ ys) = mset ?l + mset (?r @ ?D)" .
    show "y \<le> x" if "x \<in> set ?l" "y \<in> set (?r @ ?D)" for x y
      using that best_above_rest [of x k "?b @ ys" y] top by auto
  qed auto
qed

lemma best_concat: "best k (concat (map (best k) xss)) = best k (concat xss)"
proof (induction xss)
  case (Cons xs xss)
  have "best k (concat (map (best k) (xs # xss))) = best k (concat (map (best k) xss) @ xs)"
    using best_append [of k xs "concat (map (best k) xss)"] best_mset [of "xs @ concat (map (best k) xss)" "concat (map (best k) xss) @ xs" k]
    by simp
  also have "\<dots> = best k (concat xss @ xs)"
    using best_append [of k "concat (map (best k) xss)" xs] best_append [of k "concat xss" xs] Cons.IH by simp
  finally show ?case using best_mset [of "concat xss @ xs" "concat (xs # xss)" k] by simp
qed simp

section \<open>Operations of torch\<close>

text \<open>\<open>topk xs k\<close> gives the indices; the values are the elements there.\<close>

record torch_ops =
  torch_topk :: "pyfloat list \<Rightarrow> nat \<Rightarrow> nat list"
  torch_logsumexp :: "pyfloat list \<Rightarrow> pyfloat"
  torch_log_softmax :: "pyfloat list \<Rightarrow> pyfloat list"

text \<open>The k largest elements, sorted in descending order; which of equal elements is left open.\<close>

definition topk_contract :: "torch_ops \<Rightarrow> bool" where
  "topk_contract T \<longleftrightarrow> (\<forall>xs k. k \<le> length xs \<longrightarrow>
     length (torch_topk T xs k) = k \<and> distinct (torch_topk T xs k) \<and> set (torch_topk T xs k) \<subseteq> {..<length xs}
     \<and> sorted_wrt (\<ge>) (map ((!) xs) (torch_topk T xs k))
     \<and> (\<forall>i \<in> set (torch_topk T xs k). \<forall>j \<in> {..<length xs} - set (torch_topk T xs k). xs ! j \<le> xs ! i))"

text \<open>\<open>logsumexp\<close> is minus infinity only when every element is, and finite when the elements are finite or
  minus infinity and one is finite; \<open>log_softmax\<close> subtracts it.\<close>

definition softmax_contract :: "torch_ops \<Rightarrow> bool" where
  "softmax_contract T \<longleftrightarrow> (\<forall>xs. torch_log_softmax T xs = map (\<lambda>x. fsub x (torch_logsumexp T xs)) xs
     \<and> (torch_logsumexp T xs = NegInf \<longleftrightarrow> set xs \<subseteq> {NegInf})
     \<and> (set xs \<subseteq> range Fin \<union> {NegInf} \<longrightarrow> set xs \<inter> range Fin \<noteq> {} \<longrightarrow> is_finite (torch_logsumexp T xs)))"

definition torch_contract :: "torch_ops \<Rightarrow> bool" where
  "torch_contract T \<longleftrightarrow> topk_contract T \<and> softmax_contract T"

lemma topkD:
  assumes "torch_contract T" and "k \<le> length xs"
  shows "length (torch_topk T xs k) = k" and "distinct (torch_topk T xs k)"
    and "\<And>i. i \<in> set (torch_topk T xs k) \<Longrightarrow> i < length xs"
    and "sorted_wrt (\<ge>) (map ((!) xs) (torch_topk T xs k))"
    and "\<And>i j. i \<in> set (torch_topk T xs k) \<Longrightarrow> j < length xs \<Longrightarrow> j \<notin> set (torch_topk T xs k) \<Longrightarrow> xs ! j \<le> xs ! i"
  using assms unfolding torch_contract_def topk_contract_def by blast+

lemma topk_best:
  assumes "torch_contract T" and "k \<le> length xs"
  shows "map ((!) xs) (torch_topk T xs k) = best k xs"
proof (rule best_unique [symmetric])
  let ?is = "torch_topk T xs k"
  note topk = topkD [OF assms]
  let ?js = "filter (\<lambda>j. j \<notin> set ?is) [0..<length xs]"
  have "mset [0..<length xs] = mset (filter (\<lambda>j. j \<in> set ?is) [0..<length xs]) + mset ?js"
    unfolding mset_filter by (rule multiset_partition)
  moreover have "mset (filter (\<lambda>j. j \<in> set ?is) [0..<length xs]) = mset ?is"
    using topk(2,3) by (subst set_eq_iff_mset_eq_distinct [symmetric]) auto
  ultimately have "image_mset ((!) xs) (mset [0..<length xs]) = image_mset ((!) xs) (mset ?is + mset ?js)" by simp
  then show "mset xs = mset (map ((!) xs) ?is) + mset (map ((!) xs) ?js)"
    by (simp only: image_mset_union flip: mset_map) (simp only: map_nth)
  show "y \<le> x" if "x \<in> set (map ((!) xs) ?is)" "y \<in> set (map ((!) xs) ?js)" for x y
    using that topk(5) by auto
qed (use topkD [OF assms] assms(2) in auto)

text \<open>An implementation of the operations that meets the contract.\<close>

definition ref_topk :: "pyfloat list \<Rightarrow> nat \<Rightarrow> nat list" where
  "ref_topk xs k = take k (rev (sort_key ((!) xs) [0..<length xs]))"

definition ref_logsumexp :: "pyfloat list \<Rightarrow> pyfloat" where
  "ref_logsumexp xs = foldr max xs NegInf"

definition ref_torch :: torch_ops where
  "ref_torch = \<lparr>torch_topk = ref_topk, torch_logsumexp = ref_logsumexp,
     torch_log_softmax = (\<lambda>xs. map (\<lambda>x. fsub x (ref_logsumexp xs)) xs)\<rparr>"

lemma ref_topk_contract: "topk_contract ref_torch"
  unfolding topk_contract_def
proof (intro allI impI)
  fix xs :: "pyfloat list" and k
  assume k: "k \<le> length xs"
  let ?s = "rev (sort_key ((!) xs) [0..<length xs])"
  have t: "torch_topk ref_torch xs k = take k ?s" by (simp add: ref_torch_def ref_topk_def)
  have d: "distinct ?s" and l: "length ?s = length xs" and set: "set ?s = {..<length xs}" by auto
  have "sorted_wrt (\<ge>) (map ((!) xs) ?s)"
    unfolding rev_map [symmetric] sorted_wrt_rev using sorted_sort_key [of "(!) xs" "[0..<length xs]"] by simp
  then have srt: "sorted_wrt (\<lambda>i j. xs ! j \<le> xs ! i) (take k ?s @ drop k ?s)" unfolding append_take_drop_id sorted_wrt_map .
  have "j \<in> set (drop k ?s)" if "j \<in> {..<length xs} - set (take k ?s)" for j
    using that set set_append [of "take k ?s" "drop k ?s"] unfolding append_take_drop_id by blast
  moreover have "sorted_wrt (\<ge>) (map ((!) xs) (take k ?s))" using srt unfolding sorted_wrt_append sorted_wrt_map by blast
  moreover have "set (take k ?s) \<subseteq> {..<length xs}" using set_take_subset [of k ?s] set by blast
  ultimately show "length (torch_topk ref_torch xs k) = k \<and> distinct (torch_topk ref_torch xs k)
      \<and> set (torch_topk ref_torch xs k) \<subseteq> {..<length xs} \<and> sorted_wrt (\<ge>) (map ((!) xs) (torch_topk ref_torch xs k))
      \<and> (\<forall>i \<in> set (torch_topk ref_torch xs k). \<forall>j \<in> {..<length xs} - set (torch_topk ref_torch xs k). xs ! j \<le> xs ! i)"
    using t k l distinct_take [OF d, of k] srt unfolding sorted_wrt_append by simp
qed

lemma ref_logsumexp_NegInf: "ref_logsumexp xs = NegInf \<longleftrightarrow> set xs \<subseteq> {NegInf}"
proof (induction xs)
  case (Cons x xs)
  then show ?case by (cases x; cases "ref_logsumexp xs") (auto simp: ref_logsumexp_def max_def less_eq_pyfloat_def)
qed (simp add: ref_logsumexp_def)

lemma ref_logsumexp_low: "set xs \<subseteq> range Fin \<union> {NegInf} \<Longrightarrow> ref_logsumexp xs \<in> range Fin \<union> {NegInf}"
  by (induction xs) (auto simp: ref_logsumexp_def max_def)

lemma ref_torch_contract: "torch_contract ref_torch"
proof -
  have "is_finite (ref_logsumexp xs)" if "set xs \<subseteq> range Fin \<union> {NegInf}" "set xs \<inter> range Fin \<noteq> {}" for xs
  proof -
    have "ref_logsumexp xs \<noteq> NegInf" using that(2) unfolding ref_logsumexp_NegInf by auto
    then show ?thesis using ref_logsumexp_low [OF that(1)] by auto
  qed
  then show ?thesis
    using ref_topk_contract unfolding torch_contract_def softmax_contract_def
    by (simp add: ref_torch_def ref_logsumexp_NegInf)
qed

section \<open>Tensors\<close>

record 'a tensor =
  tensor_shape :: "nat list"
  tensor_data :: "'a list"

definition wf_tensor :: "'a tensor \<Rightarrow> bool" where
  "wf_tensor t \<longleftrightarrow> length (tensor_data t) = prod_list (tensor_shape t)"

text \<open>The \<open>m\<close> rows of \<open>n\<close> elements of a row-major matrix.\<close>

definition split_rows :: "nat \<Rightarrow> nat \<Rightarrow> 'a list \<Rightarrow> 'a list list" where
  "split_rows m n xs = map (\<lambda>i. take n (drop (i * n) xs)) [0..<m]"

lemma length_split_rows [simp]: "length (split_rows m n xs) = m"
  by (simp add: split_rows_def)

lemma split_rows_nth: "i < m \<Longrightarrow> split_rows m n xs ! i = take n (drop (i * n) xs)"
  by (simp add: split_rows_def)

lemma length_split_row [simp]: "length xs = m * n \<Longrightarrow> i < m \<Longrightarrow> length (split_rows m n xs ! i) = n"
proof -
  assume "length xs = m * n" "i < m"
  then have "i * n + n \<le> length xs" using mult_le_mono1 [of "Suc i" m n] by simp
  then show ?thesis using \<open>i < m\<close> by (simp add: split_rows_nth)
qed

lemma split_rows_Suc: "split_rows (Suc m) n xs = take n xs # split_rows m n (drop n xs)"
  by (simp add: split_rows_def upt_rec [of 0] map_Suc_upt [symmetric] drop_drop add.commute del: upt_Suc)

lemma concat_split_rows: "length xs = m * n \<Longrightarrow> concat (split_rows m n xs) = xs"
  by (induction m arbitrary: xs) (simp_all add: split_rows_Suc, simp add: split_rows_def)

lemma row_length: "length xs = m * n \<Longrightarrow> row \<in> set (split_rows m n xs) \<Longrightarrow> length row = n"
  by (metis in_set_conv_nth length_split_row length_split_rows)

lemma split_rows_concat: "length rows = m \<Longrightarrow> \<forall>row \<in> set rows. length row = n \<Longrightarrow> split_rows m n (concat rows) = rows"
proof (induction rows arbitrary: m)
  case (Cons row rows)
  then show ?case by (cases m) (simp_all add: split_rows_Suc)
qed (simp add: split_rows_def)

lemma length_concat_rows: "\<forall>row \<in> set rows. length row = n \<Longrightarrow> length (concat rows) = length rows * n"
  by (induction rows) auto

text \<open>The element of a row-major matrix, and where an index lies.\<close>

lemma flat_index: "w < m \<Longrightarrow> v < n \<Longrightarrow> w * n + v < m * (n::nat)"
  using mult_le_mono1 [of "Suc w" m n] by simp

lemma flat_split: "i < m * n \<Longrightarrow> i div n < m \<and> i mod n < (n::nat)"
  by (metis less_mult_imp_div_less mod_less_divisor mult_0_right neq0_conv not_less0)

lemma concat_nth_flat:
  "\<forall>row \<in> set rows. length row = n \<Longrightarrow> w < length rows \<Longrightarrow> v < n \<Longrightarrow> concat rows ! (w * n + v) = rows ! w ! v"
proof (induction rows arbitrary: w)
  case (Cons row rows)
  then show ?case by (cases w) (simp_all add: nth_append)
qed simp

text \<open>\<open>expand_as\<close>: a dimension of size one is repeated.\<close>

fun expand_data :: "nat list \<Rightarrow> nat list \<Rightarrow> 'a list \<Rightarrow> 'a list" where
  "expand_data (s # ss) (t # ts) xs =
     (let rows = map (expand_data ss ts) (split_rows s (prod_list ss) xs)
      in concat (if s = t then rows else replicate t (concat rows)))"
| "expand_data _ _ xs = xs"

definition expand_to :: "nat list \<Rightarrow> nat list \<Rightarrow> 'a list \<Rightarrow> 'a list py_result" where
  "expand_to src target xs =
     (if list_all2 (\<lambda>s t. s = t \<or> s = 1) src target then Inr (expand_data src target xs)
      else Inl (RuntimeError ''the expanded size of the tensor must match the existing size''))"

end
