(* ===== verification/GR_Beam_Path.thy ===== *)
theory GR_Beam_Path
  imports GR_Tensor
begin

text \<open>
  Beam ancestry: \<open>BeamPath\<close> of \<open>gr_kv/beam_path.py\<close>, \<open>BatchedBeamPath\<close> of
  \<open>gr_kv/batched_beam_path.py\<close>, the ancestry walk of \<open>gr_runtime/batched_topk_indices.py\<close> and
  \<open>gr_runtime/beam_kv_compaction.py\<close>, and the traces \<open>gr_serving/beam_metadata.py\<close> reports.
  A path is a list of entries, one per decode step; entry \<open>i\<close> names for every beam its parent at
  step \<open>i - 1\<close>. Every walk from a beam back to the root indexes lists by parent ids and may raise
  \<open>IndexError\<close>; the invariant \<open>wf_path\<close> is what \<open>append\<close> maintains and what makes the walks total.
\<close>

section \<open>BeamPath\<close>

record BeamPathEntry =
  parent_beams :: "int list"
  token_ids :: "int list"
  scores :: "pyfloat list"

record BeamPath =
  max_decode_steps :: int
  path_beam_width :: int
  entries :: "BeamPathEntry list"

definition entry_width :: "BeamPathEntry \<Rightarrow> int" where
  "entry_width e = int (length (parent_beams e))"

definition steps_done :: "BeamPath \<Rightarrow> int" where
  "steps_done p = int (length (entries p))"

definition active_beam_width :: "BeamPath \<Rightarrow> int" where
  "active_beam_width p = (if entries p = [] then 1 else entry_width (last (entries p)))"

definition path_append ::
  "BeamPath \<Rightarrow> int list \<Rightarrow> int list \<Rightarrow> pyfloat list \<Rightarrow> BeamPath py_result" where
  "path_append p parents tokens score_values =
     (if steps_done p \<ge> max_decode_steps p
      then Inl (ValueError ''BeamPath already reached max_decode_steps'')
      else if parents = []
      then Inl (ValueError ''BeamPath step must contain at least one beam'')
      else if int (length parents) > path_beam_width p
      then Inl (ValueError ''beam width exceeds max_beam_width'')
      else if length tokens \<noteq> length parents \<or> length score_values \<noteq> length parents
      then Inl (ValueError ''parent_beams, token_ids, and scores must have equal length'')
      else if \<exists>parent \<in> set parents. parent < 0 \<or> parent \<ge> active_beam_width p
      then Inl (ValueError ''parent beam outside previous width'')
      else Inr (p\<lparr>entries := entries p @
                   [\<lparr>parent_beams = parents, token_ids = tokens, scores = score_values\<rparr>]\<rparr>))"

text \<open>The backward loop, from the newest entry to the oldest.\<close>

fun trace_loop :: "BeamPathEntry list \<Rightarrow> int \<Rightarrow> int list py_result" where
  "trace_loop [] beam = Inr []"
| "trace_loop (e # es) beam =
     bind_res (py_get (token_ids e) beam) (\<lambda>t.
     bind_res (py_get (parent_beams e) beam) (\<lambda>p.
     bind_res (trace_loop es p) (\<lambda>ts. Inr (t # ts))))"

definition token_trace :: "BeamPath \<Rightarrow> int \<Rightarrow> int option \<Rightarrow> int list py_result" where
  "token_trace p beam step_opt =
     (let step = (case step_opt of None \<Rightarrow> steps_done p - 1 | Some s \<Rightarrow> s)
      in if step < 0 \<or> step \<ge> steps_done p
         then Inl (ValueError ''step outside completed steps'')
         else if beam < 0 \<or> beam \<ge> entry_width (entries p ! nat step)
         then Inl (ValueError ''beam outside width'')
         else bind_res (trace_loop (rev (take (Suc (nat step)) (entries p))) beam)
                (\<lambda>tokens. Inr (rev tokens)))"

definition path_score :: "BeamPath \<Rightarrow> int \<Rightarrow> int option \<Rightarrow> pyfloat py_result" where
  "path_score p beam step_opt =
     (let step = (case step_opt of None \<Rightarrow> steps_done p - 1 | Some s \<Rightarrow> s)
      in if step < 0 \<or> step \<ge> steps_done p
         then Inl (ValueError ''step outside completed steps'')
         else py_get (scores (entries p ! nat step)) beam)"

section \<open>The invariant\<close>

fun wf_entries :: "int \<Rightarrow> int \<Rightarrow> BeamPathEntry list \<Rightarrow> bool" where
  "wf_entries w prev [] = True"
| "wf_entries w prev (e # es) =
     (parent_beams e \<noteq> [] \<and> entry_width e \<le> w
      \<and> length (token_ids e) = length (parent_beams e)
      \<and> length (scores e) = length (parent_beams e)
      \<and> (\<forall>p \<in> set (parent_beams e). 0 \<le> p \<and> p < prev)
      \<and> wf_entries w (entry_width e) es)"

definition wf_path :: "BeamPath \<Rightarrow> bool" where
  "wf_path p \<longleftrightarrow> wf_entries (path_beam_width p) 1 (entries p)
     \<and> steps_done p \<le> max 0 (max_decode_steps p)"

definition last_width :: "int \<Rightarrow> BeamPathEntry list \<Rightarrow> int" where
  "last_width prev es = (if es = [] then prev else entry_width (last es))"

lemma last_width_simps [simp]:
  "last_width prev [] = prev"
  "last_width prev (es @ [e]) = entry_width e"
  "last_width prev (e # es) = last_width (entry_width e) es"
  by (auto simp: last_width_def)

lemma active_beam_width_last: "active_beam_width p = last_width 1 (entries p)"
  by (simp add: active_beam_width_def last_width_def)

lemma wf_entries_snoc:
  "wf_entries w prev (es @ [e]) \<longleftrightarrow>
     wf_entries w prev es \<and> wf_entries w (last_width prev es) [e]"
  by (induction es arbitrary: prev) auto

lemma wf_entries_take: "wf_entries w prev es \<Longrightarrow> wf_entries w prev (take n es)"
  by (induction es arbitrary: prev n) (auto simp: take_Cons split: nat.splits)

lemma last_width_take:
  "n < length es \<Longrightarrow> last_width prev (take (Suc n) es) = entry_width (es ! n)"
  by (simp add: take_Suc_conv_app_nth)

lemma wf_entries_nth:
  "wf_entries w prev es \<Longrightarrow> i < length es \<Longrightarrow>
     parent_beams (es ! i) \<noteq> [] \<and> entry_width (es ! i) \<le> w
     \<and> length (token_ids (es ! i)) = length (parent_beams (es ! i))
     \<and> length (scores (es ! i)) = length (parent_beams (es ! i))
     \<and> (\<forall>p \<in> set (parent_beams (es ! i)). 0 \<le> p \<and> p < last_width prev (take i es))"
  by (induction es arbitrary: prev i) (auto simp: nth_Cons split: nat.splits)

lemma path_append_Inr:
  "path_append p ps ts ss = Inr p' \<longleftrightarrow>
     steps_done p < max_decode_steps p \<and> ps \<noteq> [] \<and> int (length ps) \<le> path_beam_width p
     \<and> length ts = length ps \<and> length ss = length ps
     \<and> (\<forall>q \<in> set ps. 0 \<le> q \<and> q < active_beam_width p)
     \<and> p' = p\<lparr>entries := entries p @ [\<lparr>parent_beams = ps, token_ids = ts, scores = ss\<rparr>]\<rparr>"
  by (auto simp: path_append_def not_le not_less)

lemma path_append_wf:
  "wf_path p \<Longrightarrow> path_append p ps ts ss = Inr p' \<Longrightarrow> wf_path p'"
  by (auto simp: path_append_Inr wf_path_def wf_entries_snoc active_beam_width_last
      entry_width_def steps_done_def)

section \<open>Hypotheses: what a path stands for\<close>

text \<open>
  The abstract content of a path is the list of its current hypotheses, the token sequence of every
  live beam. A step extends the sequence of each chosen parent by one token.
\<close>

definition extend_hyps :: "int list list \<Rightarrow> BeamPathEntry \<Rightarrow> int list list" where
  "extend_hyps hs e = map2 (\<lambda>p t. (hs ! nat p) @ [t]) (parent_beams e) (token_ids e)"

definition hyps :: "BeamPathEntry list \<Rightarrow> int list list" where
  "hyps es = foldl extend_hyps [[]] es"

lemma hyps_Nil [simp]: "hyps [] = [[]]"
  by (simp add: hyps_def)

lemma hyps_snoc: "hyps (es @ [e]) = extend_hyps (hyps es) e"
  by (simp add: hyps_def)

lemma length_hyps: "wf_entries w 1 es \<Longrightarrow> int (length (hyps es)) = last_width 1 es"
  by (induction es rule: rev_induct)
    (auto simp: hyps_snoc extend_hyps_def wf_entries_snoc entry_width_def)

lemma hyps_nth_snoc:
  assumes "wf_entries w 1 (es @ [e])" and "0 \<le> b" and "b < entry_width e"
  shows "hyps (es @ [e]) ! nat b = hyps es ! nat (parent_beams e ! nat b) @ [token_ids e ! nat b]"
  using assms by (auto simp: hyps_snoc extend_hyps_def wf_entries_snoc entry_width_def)

lemma parent_in_range:
  assumes "wf_entries w prev (es @ [e])" and "0 \<le> b" and "b < entry_width e"
  shows "0 \<le> parent_beams e ! nat b" and "parent_beams e ! nat b < last_width prev es"
  using assms by (auto simp: wf_entries_snoc entry_width_def)

lemma trace_loop_hyps:
  "wf_entries w 1 es \<Longrightarrow> 0 \<le> b \<Longrightarrow> b < last_width 1 es \<Longrightarrow>
     trace_loop (rev es) b = Inr (rev (hyps es ! nat b))"
proof (induction es arbitrary: b rule: rev_induct)
  case Nil
  then show ?case by simp
next
  case (snoc e es)
  have w: "wf_entries w 1 es" and we: "wf_entries w (last_width 1 es) [e]"
    using snoc.prems(1) by (simp_all only: wf_entries_snoc)
  have b: "0 \<le> b" "b < entry_width e" using snoc.prems by simp_all
  note par = parent_in_range [OF snoc.prems(1) b]
  have IH: "trace_loop (rev es) (parent_beams e ! nat b) = Inr (rev (hyps es ! nat (parent_beams e ! nat b)))"
    using snoc.IH [OF w] par by simp
  show ?case
    using we b IH by (simp add: hyps_nth_snoc [OF snoc.prems(1) b] entry_width_def)
qed

lemma token_trace_hyps:
  assumes "wf_path p" and "entries p \<noteq> []" and "0 \<le> b" and "b < active_beam_width p"
  shows "token_trace p b None = Inr (hyps (entries p) ! nat b)"
proof -
  obtain es e where ep: "entries p = es @ [e]" using assms(2) by (meson rev_exhaust)
  have n: "steps_done p - 1 = int (length es)" using ep by (simp add: steps_done_def)
  have t: "trace_loop (rev (entries p)) b = Inr (rev (hyps (entries p) ! nat b))"
    using assms by (intro trace_loop_hyps) (auto simp: wf_path_def active_beam_width_last)
  have w: "b < entry_width e" using assms(4) ep by (simp add: active_beam_width_def)
  show ?thesis using t n ep w assms(3) by (auto simp: token_trace_def steps_done_def)
qed

lemma hyps_length_nth:
  "wf_entries w 1 es \<Longrightarrow> 0 \<le> b \<Longrightarrow> b < last_width 1 es \<Longrightarrow> length (hyps es ! nat b) = length es"
proof (induction es arbitrary: b rule: rev_induct)
  case Nil
  then show ?case by simp
next
  case (snoc e es)
  have b: "0 \<le> b" "b < entry_width e" using snoc.prems by simp_all
  have "wf_entries w 1 es" using snoc.prems(1) by (simp only: wf_entries_snoc)
  then show ?case
    using snoc.IH parent_in_range [OF snoc.prems(1) b] hyps_nth_snoc [OF snoc.prems(1) b] by simp
qed

section \<open>BatchedBeamPath\<close>

record BatchedBeamSelection =
  sel_token_ids :: "int list list"
  sel_scores :: "pyfloat list list"
  sel_parent_beams :: "int list list"
  sel_token_ids_tensor :: "int tensor option"
  sel_scores_tensor :: "pyfloat tensor option"
  sel_parent_beams_tensor :: "int tensor option"

text \<open>\<open>int(tensor.shape[i])\<close>.\<close>

definition tensor_dim :: "'a tensor \<Rightarrow> nat \<Rightarrow> nat" where
  "tensor_dim t i = (if i < length (tensor_shape t) then tensor_shape t ! i else 0)"

definition sel_batch_size :: "BatchedBeamSelection \<Rightarrow> nat" where
  "sel_batch_size sel =
     (case (sel_token_ids sel, sel_token_ids_tensor sel) of
        ([], Some t) \<Rightarrow> tensor_dim t 0
      | (rows, _) \<Rightarrow> length rows)"

definition sel_beam_width :: "BatchedBeamSelection \<Rightarrow> nat" where
  "sel_beam_width sel =
     (case (sel_token_ids sel, sel_token_ids_tensor sel) of
        ([], Some t) \<Rightarrow> tensor_dim t 1
      | ([], None) \<Rightarrow> 0
      | (row # _, _) \<Rightarrow> length row)"

definition tensor_rows :: "'a tensor \<Rightarrow> 'a list list" where
  "tensor_rows t = split_rows (tensor_dim t 0) (tensor_dim t 1) (tensor_data t)"

definition materialize :: "BatchedBeamSelection \<Rightarrow> BatchedBeamSelection py_result" where
  "materialize sel =
     (if sel_token_ids sel \<noteq> [] \<and> sel_scores sel \<noteq> [] \<and> sel_parent_beams sel \<noteq> [] then Inr sel
      else case (sel_token_ids_tensor sel, sel_scores_tensor sel, sel_parent_beams_tensor sel) of
             (Some toks, Some scs, Some pars) \<Rightarrow>
               Inr (sel\<lparr>sel_token_ids := tensor_rows toks, sel_scores := tensor_rows scs, sel_parent_beams := tensor_rows pars\<rparr>)
           | _ \<Rightarrow> Inl (ValueError ''tensor-backed selection is missing tensor fields''))"

definition batched_create :: "int \<Rightarrow> int \<Rightarrow> int \<Rightarrow> BeamPath list py_result" where
  "batched_create batch_size steps width =
     (if batch_size \<le> 0 then Inl (ValueError ''batch_size must be positive'')
      else Inr (replicate (nat batch_size)
        \<lparr>max_decode_steps = steps, path_beam_width = width, entries = []\<rparr>))"

definition batched_steps_done :: "BeamPath list \<Rightarrow> int" where
  "batched_steps_done ps = (case ps of [] \<Rightarrow> 0 | p # _ \<Rightarrow> steps_done p)"

definition active_widths :: "BeamPath list \<Rightarrow> int list" where
  "active_widths ps = map active_beam_width ps"

text \<open>The loop appends path after path; an exception leaves the earlier paths extended.\<close>

fun batched_append_loop ::
  "BeamPath list \<Rightarrow> int list list \<Rightarrow> int list list \<Rightarrow> pyfloat list list
   \<Rightarrow> py_exc option \<times> BeamPath list" where
  "batched_append_loop (p # ps) (par # pars) (tok # toks) (sc # scs) =
     (case path_append p par tok sc of
        Inl e \<Rightarrow> (Some e, p # ps)
      | Inr p' \<Rightarrow> (let (r, ps') = batched_append_loop ps pars toks scs in (r, p' # ps')))"
| "batched_append_loop ps _ _ _ = (None, ps)"

definition batched_append ::
  "BeamPath list \<Rightarrow> BatchedBeamSelection \<Rightarrow> py_exc option \<times> BeamPath list" where
  "batched_append ps sel =
     (if sel_batch_size sel \<noteq> length ps
      then (Some (ValueError ''selection batch_size must match BatchedBeamPath''), ps)
      else batched_append_loop ps (sel_parent_beams sel) (sel_token_ids sel) (sel_scores sel))"

definition batched_token_trace ::
  "BeamPath list \<Rightarrow> int \<Rightarrow> int \<Rightarrow> int option \<Rightarrow> int list py_result" where
  "batched_token_trace ps batch_idx beam step =
     bind_res (py_get ps batch_idx) (\<lambda>p. token_trace p beam step)"

lemma batched_append_loop_ok:
  "batched_append_loop ps pars toks scs = (None, ps') \<Longrightarrow> length pars = length ps \<Longrightarrow>
   length toks = length ps \<Longrightarrow> length scs = length ps \<Longrightarrow>
   length ps' = length ps \<and>
   (\<forall>i < length ps. path_append (ps ! i) (pars ! i) (toks ! i) (scs ! i) = Inr (ps' ! i))"
proof (induction ps pars toks scs arbitrary: ps' rule: batched_append_loop.induct)
  case (1 p ps par pars tok toks sc scs)
  then obtain p' r where p': "path_append p par tok sc = Inr p'"
    and r: "batched_append_loop ps pars toks scs = (None, r)" "ps' = p' # r"
    by (auto split: sum.splits prod.splits)
  then show ?case using 1 by (auto simp: nth_Cons split: nat.splits)
qed auto

lemma batched_append_loop_wf:
  "batched_append_loop ps pars toks scs = (r, ps') \<Longrightarrow> \<forall>p \<in> set ps. wf_path p \<Longrightarrow> \<forall>p \<in> set ps'. wf_path p"
proof (induction ps pars toks scs arbitrary: ps' rule: batched_append_loop.induct)
  case (1 p ps par pars tok toks sc scs)
  then show ?case
    by (cases "path_append p par tok sc") (auto split: prod.splits dest: path_append_wf)
qed auto

section \<open>Ancestry and reported traces\<close>

text \<open>\<open>_beam_ancestry\<close>: the beam id a query beam occupied at every history step.\<close>

fun ancestry_loop :: "BeamPathEntry list \<Rightarrow> int \<Rightarrow> int list py_result" where
  "ancestry_loop [] current = Inr []"
| "ancestry_loop (e # es) current =
     (if current < 0 \<or> current \<ge> entry_width e
      then Inl (ValueError ''beam ancestry points outside active width'')
      else bind_res (py_get (parent_beams e) current) (\<lambda>p.
           bind_res (ancestry_loop es p) (\<lambda>as. Inr (current # as))))"

definition beam_ancestry :: "BeamPath \<Rightarrow> int \<Rightarrow> int \<Rightarrow> int list py_result" where
  "beam_ancestry p query_beam decode_nums =
     bind_res (py_get (entries p) (decode_nums - 1)) (\<lambda>e.
       if query_beam < 0 \<or> query_beam \<ge> entry_width e
       then Inl (ValueError ''query_beam outside active beam width'')
       else bind_res (ancestry_loop (rev (take (nat decode_nums) (entries p))) query_beam)
              (\<lambda>as. Inr (rev as)))"

text \<open>\<open>single_beam_result\<close>: tokens and scores of one beam, newest entry first.\<close>

fun result_loop :: "BeamPathEntry list \<Rightarrow> int \<Rightarrow> (int list \<times> pyfloat list) py_result" where
  "result_loop [] beam = Inr ([], [])"
| "result_loop (e # es) beam =
     bind_res (py_get (token_ids e) beam) (\<lambda>t.
     bind_res (py_get (scores e) beam) (\<lambda>s.
     bind_res (py_get (parent_beams e) beam) (\<lambda>p.
     bind_res (result_loop es p) (\<lambda>(ts, ss). Inr (t # ts, s # ss)))))"

record beam_result =
  output_ids :: "int list"
  finish_reason :: string
  sequence_score :: pyfloat

definition single_beam_result ::
  "BeamPath \<Rightarrow> int \<Rightarrow> string \<Rightarrow> int option \<Rightarrow> beam_result py_result" where
  "single_beam_result p beam stop_reason max_new_tokens =
     bind_res (result_loop (rev (entries p)) beam) (\<lambda>(ts, ss).
       Inr \<lparr>output_ids = (case max_new_tokens of None \<Rightarrow> rev ts | Some n \<Rightarrow> py_take n (rev ts)),
            finish_reason = stop_reason,
            sequence_score = (if ss = [] then Fin 0 else last (rev ss))\<rparr>)"

definition beam_results ::
  "BeamPath \<Rightarrow> int \<Rightarrow> string \<Rightarrow> int option \<Rightarrow> beam_result list py_result" where
  "beam_results p beam_width stop_reason max_new_tokens =
     map_res (\<lambda>beam. single_beam_result p beam stop_reason max_new_tokens) (py_range beam_width)"

lemma result_loop_hyps:
  "wf_entries w 1 es \<Longrightarrow> 0 \<le> b \<Longrightarrow> b < last_width 1 es \<Longrightarrow>
     \<exists>ss. result_loop (rev es) b = Inr (rev (hyps es ! nat b), ss) \<and> length ss = length es
        \<and> (es \<noteq> [] \<longrightarrow> hd ss = scores (last es) ! nat b)"
proof (induction es arbitrary: b rule: rev_induct)
  case Nil
  then show ?case by simp
next
  case (snoc e es)
  have w: "wf_entries w 1 es" and we: "wf_entries w (last_width 1 es) [e]"
    using snoc.prems(1) by (simp_all only: wf_entries_snoc)
  have b: "0 \<le> b" "b < entry_width e" using snoc.prems by simp_all
  note par = parent_in_range [OF snoc.prems(1) b]
  obtain ss where "result_loop (rev es) (parent_beams e ! nat b)
      = Inr (rev (hyps es ! nat (parent_beams e ! nat b)), ss)" "length ss = length es"
    using snoc.IH [OF w] par by blast
  then show ?case
    using we b by (simp add: hyps_nth_snoc [OF snoc.prems(1) b] entry_width_def)
qed

text \<open>The ancestry has one in-range beam per step, ends in the query beam and follows parents.\<close>

lemma ancestry_loop_ok:
  "wf_entries w prev es \<Longrightarrow> 0 \<le> b \<Longrightarrow> b < last_width prev es \<Longrightarrow>
     \<exists>as. ancestry_loop (rev es) b = Inr (rev as) \<and> length as = length es
       \<and> (es \<noteq> [] \<longrightarrow> last as = b)
       \<and> (\<forall>i < length es. 0 \<le> as ! i \<and> as ! i < entry_width (es ! i))
       \<and> (\<forall>i. Suc i < length es \<longrightarrow> as ! i = parent_beams (es ! Suc i) ! nat (as ! Suc i))"
proof (induction es arbitrary: b rule: rev_induct)
  case Nil
  then show ?case by simp
next
  case (snoc e es)
  have w: "wf_entries w prev es"
    using snoc.prems(1) by (simp only: wf_entries_snoc)
  have b: "0 \<le> b" "b < entry_width e" using snoc.prems by simp_all
  let ?p = "parent_beams e ! nat b"
  obtain as where as: "ancestry_loop (rev es) ?p = Inr (rev as)" "length as = length es"
    "es \<noteq> [] \<longrightarrow> last as = ?p"
    "\<forall>i < length es. 0 \<le> as ! i \<and> as ! i < entry_width (es ! i)"
    "\<forall>i. Suc i < length es \<longrightarrow> as ! i = parent_beams (es ! Suc i) ! nat (as ! Suc i)"
    using snoc.IH [OF w parent_in_range [OF snoc.prems(1) b]] by blast
  have loop: "ancestry_loop (rev (es @ [e])) b = Inr (rev (as @ [b]))"
    using as(1) b by (simp add: entry_width_def)
  have rng: "\<forall>i < length (es @ [e]). 0 \<le> (as @ [b]) ! i \<and> (as @ [b]) ! i < entry_width ((es @ [e]) ! i)"
    using as(2,4) b by (simp add: nth_append less_Suc_eq)
  have par: "(as @ [b]) ! i = parent_beams ((es @ [e]) ! Suc i) ! nat ((as @ [b]) ! Suc i)"
    if "Suc i < length (es @ [e])" for i
  proof (cases "Suc i < length es")
    case True
    then show ?thesis using as(2,5) by (simp add: nth_append)
  next
    case False
    then have i: "Suc i = length es" using that by simp
    then have "as ! i = ?p" using as(2,3) by (metis diff_Suc_1 last_conv_nth length_0_conv nat.distinct(1))
    then show ?thesis using as(2) i by (simp add: nth_append)
  qed
  show ?case using loop as(2) rng par by (intro exI [of _ "as @ [b]"]) auto
qed

section \<open>Properties\<close>

text \<open>A path of two steps: two beams of the prompt, then both continued from beam 1.\<close>

definition ex_path :: BeamPath where
  "ex_path = \<lparr>max_decode_steps = 3, path_beam_width = 2, entries =
     [\<lparr>parent_beams = [0, 0], token_ids = [5, 6], scores = [Fin 3, Fin 2]\<rparr>,
      \<lparr>parent_beams = [1, 1], token_ids = [7, 8], scores = [Fin 5, Fin 4]\<rparr>]\<rparr>"

text \<open>\<open>BeamPath.append\<close> keeps the path well formed, and after it every live beam's
  \<open>token_trace\<close> is the parent's previous trace followed by the beam's own token.\<close>

theorem append_extends_traces:
  assumes "wf_path p" and "path_append p ps ts ss = Inr p'" and "0 \<le> b" and "b < int (length ps)"
    and "entries p \<noteq> []"
  shows "wf_path p' \<and> active_beam_width p' = int (length ps) \<and>
    (\<exists>pre. token_trace p (ps ! nat b) None = Inr pre \<and> token_trace p' b None = Inr (pre @ [ts ! nat b]))"
proof -
  have wf': "wf_path p'" using assms(1,2) by (rule path_append_wf)
  note app = iffD1 [OF path_append_Inr assms(2)]
  let ?e = "\<lparr>parent_beams = ps, token_ids = ts, scores = ss\<rparr>"
  have ep: "entries p' = entries p @ [?e]" using app by simp
  have aw: "active_beam_width p' = int (length ps)"
    using ep by (simp add: active_beam_width_def entry_width_def)
  have par: "0 \<le> ps ! nat b" "ps ! nat b < active_beam_width p" using app assms(3,4) by auto
  have "token_trace p (ps ! nat b) None = Inr (hyps (entries p) ! nat (ps ! nat b))"
    using assms(1,5) par by (rule token_trace_hyps)
  moreover have "token_trace p' b None = Inr (hyps (entries p @ [?e]) ! nat b)"
    using token_trace_hyps [OF wf', of b] ep aw assms(3,4) by simp
  moreover have "hyps (entries p @ [?e]) ! nat b = hyps (entries p) ! nat (ps ! nat b) @ [ts ! nat b]"
    using hyps_nth_snoc [of "path_beam_width p" "entries p" ?e b] wf' ep app assms(3,4)
    by (simp add: wf_path_def entry_width_def)
  ultimately show ?thesis using wf' aw by simp
qed

theorem append_extends_traces_witness:
  "\<exists>pre. token_trace ex_path 1 None = Inr pre \<and>
     token_trace (ex_path\<lparr>entries := entries ex_path @
       [\<lparr>parent_beams = [1, 0], token_ids = [9, 4], scores = [Fin 1, Fin 0]\<rparr>]\<rparr>) 0 None = Inr (pre @ [9])"
  using append_extends_traces [of ex_path "[1, 0]" "[9, 4]" "[Fin 1, Fin 0]" "ex_path\<lparr>entries := entries ex_path @
       [\<lparr>parent_beams = [1, 0], token_ids = [9, 4], scores = [Fin 1, Fin 0]\<rparr>]\<rparr>" 0]
  by (simp add: wf_path_def ex_path_def entry_width_def steps_done_def path_append_def active_beam_width_def)

text \<open>the sequence a response reports for a beam (\<open>single_beam_result\<close>) is the beam's
  \<open>token_trace\<close>, cut to \<open>max_new_tokens\<close>, with the beam's latest cumulative score.\<close>

theorem single_beam_result_is_trace:
  assumes "wf_path p" and "entries p \<noteq> []" and "0 \<le> b" and "b < active_beam_width p"
  shows "\<exists>trace. token_trace p b None = Inr trace \<and>
    single_beam_result p b reason max_new =
      Inr \<lparr>output_ids = (case max_new of None \<Rightarrow> trace | Some n \<Rightarrow> py_take n trace),
           finish_reason = reason, sequence_score = scores (last (entries p)) ! nat b\<rparr>"
proof -
  obtain ss where "result_loop (rev (entries p)) b = Inr (rev (hyps (entries p) ! nat b), ss)"
    and "length ss = length (entries p)" and "hd ss = scores (last (entries p)) ! nat b"
    using result_loop_hyps [of "path_beam_width p" "entries p" b] assms
    by (auto simp: wf_path_def active_beam_width_last)
  moreover from this have "ss \<noteq> []" using assms(2) by auto
  ultimately show ?thesis
    using token_trace_hyps [OF assms] by (cases max_new) (simp_all add: single_beam_result_def last_rev)
qed

theorem single_beam_result_is_trace_witness:
  "\<exists>trace. token_trace ex_path 0 None = Inr trace \<and>
    single_beam_result ex_path 0 ''max_decode_steps'' (Some 1) =
      Inr \<lparr>output_ids = py_take 1 trace, finish_reason = ''max_decode_steps'',
           sequence_score = scores (last (entries ex_path)) ! nat 0\<rparr>"
  using single_beam_result_is_trace [of ex_path 0 "''max_decode_steps''" "Some 1"]
  by (simp add: wf_path_def ex_path_def entry_width_def steps_done_def active_beam_width_def)

end
