(* ===== verification/GR_Beam_KV.thy ===== *)
theory GR_Beam_KV
  imports GR_Beam_Path
begin

text \<open>
  Decode KV storage: the shape contract of \<open>gr_kv/layouts.py\<close>, \<open>gr_kv/beam_kv.py\<close> and
  \<open>gr_kv/context_kv.py\<close>, the index tensors the decode kernel gathers with
  (\<open>gr_runtime/batched_topk_indices.py\<close>) and the history compaction of
  \<open>gr_runtime/beam_kv_compaction.py\<close>. A KV tensor is its shape and a function from
  (layer, batch, step, beam) to the block stored there. The attention kernel is outside the
  repository: what the indices mean to it is the documented flattening
  \<open>decode_step * beam_width + beam\<close>, which \<open>flat_slot\<close> inverts.
\<close>

section \<open>Shapes\<close>

type_synonym shape = "int list"

definition normalize_shape :: "int list \<Rightarrow> shape py_result" where
  "normalize_shape dims =
     (if dims = [] then Inl (ValueError ''shape must not be empty'')
      else if \<exists>d \<in> set dims. d \<le> 0 then Inl (ValueError ''shape dimensions must be positive'')
      else Inr dims)"

record 'v BeamKV =
  kv_shape :: shape
  kv_key :: "int \<Rightarrow> int \<Rightarrow> int \<Rightarrow> int \<Rightarrow> 'v"
  kv_value :: "int \<Rightarrow> int \<Rightarrow> int \<Rightarrow> int \<Rightarrow> 'v"

definition mk_beam_kv ::
  "int list \<Rightarrow> int list \<Rightarrow> (int \<Rightarrow> int \<Rightarrow> int \<Rightarrow> int \<Rightarrow> 'v) \<Rightarrow> (int \<Rightarrow> int \<Rightarrow> int \<Rightarrow> int \<Rightarrow> 'v)
   \<Rightarrow> 'v BeamKV py_result" where
  "mk_beam_kv key_shape value_shape key val =
     bind_res (normalize_shape key_shape) (\<lambda>ks.
     bind_res (normalize_shape value_shape) (\<lambda>vs.
       if ks \<noteq> vs then Inl (ValueError ''BeamKV key/value shapes differ'')
       else if length ks \<noteq> 6 then Inl (ValueError ''BeamKV expects [layers, batch, max_decode_steps, max_beam_width, kv_heads, head_dim]'')
       else Inr \<lparr>kv_shape = ks, kv_key = key, kv_value = val\<rparr>))"

definition kv_num_layers :: "'v BeamKV \<Rightarrow> int" where "kv_num_layers kv = kv_shape kv ! 0"
definition kv_batch_size :: "'v BeamKV \<Rightarrow> int" where "kv_batch_size kv = kv_shape kv ! 1"
definition kv_max_decode_steps :: "'v BeamKV \<Rightarrow> int" where "kv_max_decode_steps kv = kv_shape kv ! 2"
definition kv_max_beam_width :: "'v BeamKV \<Rightarrow> int" where "kv_max_beam_width kv = kv_shape kv ! 3"
definition kv_num_kv_heads :: "'v BeamKV \<Rightarrow> int" where "kv_num_kv_heads kv = kv_shape kv ! 4"
definition kv_head_dim :: "'v BeamKV \<Rightarrow> int" where "kv_head_dim kv = kv_shape kv ! 5"

definition wf_beam_kv :: "'v BeamKV \<Rightarrow> bool" where
  "wf_beam_kv kv \<longleftrightarrow> length (kv_shape kv) = 6 \<and> (\<forall>d \<in> set (kv_shape kv). 0 < d)"

lemma mk_beam_kv_wf: "mk_beam_kv ks vs k v = Inr kv \<Longrightarrow> wf_beam_kv kv"
  by (auto simp: mk_beam_kv_def normalize_shape_def wf_beam_kv_def not_le split: if_splits)

definition flattened_beam_shape :: "'v BeamKV \<Rightarrow> shape" where
  "flattened_beam_shape kv =
     [kv_batch_size kv, kv_max_decode_steps kv * kv_max_beam_width kv,
      kv_num_kv_heads kv, kv_head_dim kv]"

record BeamStepWrite =
  write_step :: int
  write_beam_width :: int
  expected_step_shape :: shape
  flat_offset :: int

definition validate_step :: "'v BeamKV \<Rightarrow> int \<Rightarrow> int \<Rightarrow> BeamStepWrite py_result" where
  "validate_step kv step width =
     (if step < 0 \<or> step \<ge> kv_max_decode_steps kv then Inl (ValueError ''step outside range'')
      else if width \<le> 0 then Inl (ValueError ''active_beam_width must be positive'')
      else if width > kv_max_beam_width kv
      then Inl (ValueError ''active_beam_width exceeds max_beam_width'')
      else Inr \<lparr>write_step = step, write_beam_width = width,
        expected_step_shape = [kv_num_layers kv, kv_batch_size kv, width, kv_num_kv_heads kv, kv_head_dim kv],
        flat_offset = step * kv_max_beam_width kv\<rparr>)"

record BeamKVWrite =
  layer_idx :: int
  layer_write :: BeamStepWrite
  expected_layer_step_shape :: shape

text \<open>\<open>BeamKVWriter.validate_layer_step\<close>, on the shapes of \<open>k\<close> and \<open>v\<close>.\<close>

definition validate_layer_step ::
  "'v BeamKV \<Rightarrow> int \<Rightarrow> int \<Rightarrow> int \<Rightarrow> shape \<Rightarrow> shape \<Rightarrow> BeamKVWrite py_result" where
  "validate_layer_step kv layer step width k_shape v_shape =
     (if layer < 0 \<or> layer \<ge> kv_num_layers kv then Inl (ValueError ''layer_idx outside range'')
      else bind_res (validate_step kv step width) (\<lambda>w.
        let expected = [kv_batch_size kv, width, kv_num_kv_heads kv, kv_head_dim kv]
        in bind_res (normalize_shape k_shape) (\<lambda>ks.
           if ks \<noteq> expected then Inl (ValueError ''k step shape mismatch'')
           else bind_res (normalize_shape v_shape) (\<lambda>vs.
             if vs \<noteq> expected then Inl (ValueError ''v step shape mismatch'')
             else Inr \<lparr>layer_idx = layer, layer_write = w, expected_layer_step_shape = expected\<rparr>))))"

text \<open>\<open>key[layer_idx, :, step, :active_beam_width] = k\<close> and the same for \<open>value\<close>.\<close>

definition write_layer_step ::
  "'v BeamKV \<Rightarrow> int \<Rightarrow> int \<Rightarrow> int \<Rightarrow> shape \<Rightarrow> shape \<Rightarrow> (int \<Rightarrow> int \<Rightarrow> 'v) \<Rightarrow> (int \<Rightarrow> int \<Rightarrow> 'v)
   \<Rightarrow> ('v BeamKV \<times> BeamKVWrite) py_result" where
  "write_layer_step kv layer step width k_shape v_shape k v =
     bind_res (validate_layer_step kv layer step width k_shape v_shape) (\<lambda>w.
       let upd = (\<lambda>old new l b s q.
             if l = layer \<and> s = step \<and> 0 \<le> q \<and> q < width then new b q else old l b s q)
       in Inr (kv\<lparr>kv_key := upd (kv_key kv) k, kv_value := upd (kv_value kv) v\<rparr>, w))"

section \<open>Index tensors for the decode kernel\<close>

text \<open>The pattern of one request, \<open>decode_nums\<close> rows of \<open>beam_width\<close> flattened slots, from the
  ancestries of the query beams.\<close>

definition pattern_of :: "int \<Rightarrow> int \<Rightarrow> int list list \<Rightarrow> int list list" where
  "pattern_of decode_nums beam_width ancs =
     map (\<lambda>d. map (\<lambda>anc. d * beam_width + anc ! nat d) ancs) (py_range decode_nums)"

definition path_pattern :: "BeamPath \<Rightarrow> int \<Rightarrow> int \<Rightarrow> int list list py_result" where
  "path_pattern p decode_nums beam_width =
     bind_res (map_res (\<lambda>q. beam_ancestry p q decode_nums) (py_range beam_width))
       (\<lambda>ancs. Inr (pattern_of decode_nums beam_width ancs))"

text \<open>\<open>.view(B, 1, 1, D, W).expand(B, 1, Hq, D, W)\<close>: one copy of the pattern per query head.\<close>

definition expand_heads :: "int \<Rightarrow> int list list \<Rightarrow> int list list list list" where
  "expand_heads num_q_heads pat = [replicate (nat num_q_heads) pat]"

definition make_initial_topk_indices :: "int \<Rightarrow> int \<Rightarrow> int \<Rightarrow> int list list list list list" where
  "make_initial_topk_indices batch_size num_q_heads beam_width =
     replicate (nat batch_size) (expand_heads num_q_heads [py_range beam_width])"

definition make_batched_topk_indices ::
  "BeamPath list \<Rightarrow> int \<Rightarrow> int \<Rightarrow> int \<Rightarrow> int list list list list list py_result" where
  "make_batched_topk_indices paths num_q_heads decode_nums beam_width =
     (if num_q_heads \<le> 0 then Inl (ValueError ''num_q_heads must be positive'')
      else if decode_nums \<le> 0 then Inl (ValueError ''decode_nums must be positive'')
      else if beam_width \<le> 0 then Inl (ValueError ''beam_width must be positive'')
      else if batched_steps_done paths < decode_nums
      then Inl (ValueError ''BatchedBeamPath does not contain enough decode steps'')
      else if decode_nums = 1
      then Inr (make_initial_topk_indices (int (length paths)) num_q_heads beam_width)
      else bind_res (map_res (\<lambda>p. path_pattern p decode_nums beam_width) paths)
             (\<lambda>pats. Inr (map (expand_heads num_q_heads) pats)))"

definition make_compacted_batched_topk_indices ::
  "int \<Rightarrow> int \<Rightarrow> int \<Rightarrow> int \<Rightarrow> int list list list list list py_result" where
  "make_compacted_batched_topk_indices batch_size num_q_heads decode_nums beam_width =
     (if batch_size \<le> 0 then Inl (ValueError ''batch_size must be positive'')
      else if num_q_heads \<le> 0 then Inl (ValueError ''num_q_heads must be positive'')
      else if decode_nums \<le> 0 then Inl (ValueError ''decode_nums must be positive'')
      else if beam_width \<le> 0 then Inl (ValueError ''beam_width must be positive'')
      else Inr (replicate (nat batch_size) (expand_heads num_q_heads
             (map (\<lambda>d. map (\<lambda>q. d * beam_width + q) (py_range beam_width)) (py_range decode_nums)))))"

section \<open>History compaction\<close>

definition validate_compaction_args :: "BeamPath list \<Rightarrow> int \<Rightarrow> int \<Rightarrow> unit py_result" where
  "validate_compaction_args paths decode_nums active =
     (if decode_nums \<le> 0 then Inl (ValueError ''decode_nums must be positive'')
      else if active \<le> 0 then Inl (ValueError ''active_beam_width must be positive'')
      else if batched_steps_done paths < decode_nums
      then Inl (ValueError ''BatchedBeamPath does not contain enough decode steps'')
      else Inr ())"

text \<open>The nested search returns at the first ancestor outside the active width.\<close>

fun needs_loop :: "BeamPath \<Rightarrow> int \<Rightarrow> int \<Rightarrow> int list \<Rightarrow> bool py_result" where
  "needs_loop p decode_nums active [] = Inr False"
| "needs_loop p decode_nums active (q # qs) =
     bind_res (beam_ancestry p q decode_nums) (\<lambda>anc.
       if \<exists>b \<in> set (butlast anc). b \<ge> active then Inr True
       else needs_loop p decode_nums active qs)"

fun needs_paths_loop :: "BeamPath list \<Rightarrow> int \<Rightarrow> int \<Rightarrow> bool py_result" where
  "needs_paths_loop [] decode_nums active = Inr False"
| "needs_paths_loop (p # ps) decode_nums active =
     bind_res (needs_loop p decode_nums active (py_range active)) (\<lambda>r.
       if r then Inr True else needs_paths_loop ps decode_nums active)"

definition needs_batched_beam_kv_history_compaction ::
  "BeamPath list \<Rightarrow> int \<Rightarrow> int \<Rightarrow> bool py_result" where
  "needs_batched_beam_kv_history_compaction paths decode_nums active =
     bind_res (validate_compaction_args paths decode_nums active)
       (\<lambda>_. needs_paths_loop paths decode_nums active)"

text \<open>The writes of the compaction loops, in loop order: (batch, step, query beam, ancestor).\<close>

definition path_writes :: "int \<Rightarrow> BeamPath \<Rightarrow> int \<Rightarrow> int \<Rightarrow> (int \<times> int \<times> int \<times> int) list py_result" where
  "path_writes batch_idx p decode_nums active =
     bind_res (map_res (\<lambda>q. bind_res (beam_ancestry p q decode_nums) (\<lambda>anc.
                 Inr (map (\<lambda>s. (batch_idx, s, q, anc ! nat s)) (py_range (decode_nums - 1)))))
               (py_range active))
       (\<lambda>ws. Inr (concat ws))"

fun compaction_writes ::
  "int \<Rightarrow> BeamPath list \<Rightarrow> int \<Rightarrow> int \<Rightarrow> (int \<times> int \<times> int \<times> int) list py_result" where
  "compaction_writes i [] decode_nums active = Inr []"
| "compaction_writes i (p # ps) decode_nums active =
     bind_res (path_writes i p decode_nums active) (\<lambda>ws.
     bind_res (compaction_writes (i + 1) ps decode_nums active) (\<lambda>ws'. Inr (ws @ ws')))"

fun apply_writes ::
  "(int \<Rightarrow> int \<Rightarrow> int \<Rightarrow> int \<Rightarrow> 'v) \<Rightarrow> (int \<times> int \<times> int \<times> int) list
   \<Rightarrow> (int \<Rightarrow> int \<Rightarrow> int \<Rightarrow> int \<Rightarrow> 'v) \<Rightarrow> (int \<Rightarrow> int \<Rightarrow> int \<Rightarrow> int \<Rightarrow> 'v)" where
  "apply_writes src [] dst = dst"
| "apply_writes src ((b, s, q, a) # ws) dst =
     apply_writes src ws
       (\<lambda>l b' s' q'. if b' = b \<and> s' = s \<and> q' = q then src l b s a else dst l b' s' q')"

text \<open>\<open>new_empty\<close> leaves the fresh tensors' contents unspecified: \<open>fresh_k\<close>, \<open>fresh_v\<close>.\<close>

definition compact_batched_beam_kv_history ::
  "(int \<Rightarrow> int \<Rightarrow> int \<Rightarrow> int \<Rightarrow> 'v) \<Rightarrow> (int \<Rightarrow> int \<Rightarrow> int \<Rightarrow> int \<Rightarrow> 'v)
   \<Rightarrow> 'v BeamKV \<Rightarrow> BeamPath list \<Rightarrow> int \<Rightarrow> int \<Rightarrow> 'v BeamKV py_result" where
  "compact_batched_beam_kv_history fresh_k fresh_v kv paths decode_nums active =
     bind_res (validate_compaction_args paths decode_nums active) (\<lambda>_.
       if kv_batch_size kv \<noteq> int (length paths)
       then Inl (ValueError ''BeamKV batch size must match BatchedBeamPath'')
       else if decode_nums > kv_max_decode_steps kv
       then Inl (ValueError ''decode_nums exceeds BeamKV decode capacity'')
       else if active > kv_max_beam_width kv
       then Inl (ValueError ''active_beam_width exceeds BeamKV beam capacity'')
       else bind_res (compaction_writes 0 paths decode_nums active) (\<lambda>ws.
         Inr (kv\<lparr>kv_key := apply_writes (kv_key kv) ws fresh_k,
                 kv_value := apply_writes (kv_value kv) ws fresh_v\<rparr>)))"

section \<open>Ancestries of well-formed paths\<close>

lemma beam_ancestry_Inr:
  assumes wf: "wf_path p" and D: "0 < D" and anc: "beam_ancestry p q D = Inr as"
  shows "D \<le> steps_done p" and "0 \<le> q" and "q < entry_width (entries p ! nat (D - 1))"
    and "length as = nat D" and "as ! nat (D - 1) = q"
    and "\<And>i. i < nat D \<Longrightarrow> 0 \<le> as ! i \<and> as ! i < entry_width (entries p ! i)"
    and "\<And>i. Suc i < nat D \<Longrightarrow> as ! i = parent_beams (entries p ! Suc i) ! nat (as ! Suc i)"
proof -
  from anc obtain e where e: "py_get (entries p) (D - 1) = Inr e" and q: "0 \<le> q" "q < entry_width e"
    and loop: "ancestry_loop (rev (take (nat D) (entries p))) q = Inr (rev as)"
    by (auto simp: beam_ancestry_def not_le not_less rev_swap split: if_splits)
  from e D show Ds: "D \<le> steps_done p" by (auto simp: py_get_def steps_done_def Let_def split: if_splits)
  have len: "nat D \<le> length (entries p)" using Ds by (simp add: steps_done_def)
  from e D len have ee: "e = entries p ! nat (D - 1)" by simp
  show "0 \<le> q" "q < entry_width (entries p ! nat (D - 1))" using q ee by simp_all
  let ?es = "take (nat D) (entries p)"
  have w: "wf_entries (path_beam_width p) 1 ?es" using wf by (simp add: wf_path_def wf_entries_take)
  have "nat D = Suc (nat (D - 1))" using D by simp
  then have lw: "last_width 1 ?es = entry_width e"
    using last_width_take [of "nat (D - 1)" "entries p" 1] ee len D by simp
  have l: "length ?es = nat D" and ne: "?es \<noteq> []" using len D by auto
  obtain as' where as': "ancestry_loop (rev ?es) q = Inr (rev as')" "length as' = nat D" "last as' = q"
    "\<forall>i < nat D. 0 \<le> as' ! i \<and> as' ! i < entry_width (?es ! i)"
    "\<forall>i. Suc i < nat D \<longrightarrow> as' ! i = parent_beams (?es ! Suc i) ! nat (as' ! Suc i)"
    using ancestry_loop_ok [OF w q(1), unfolded lw, OF q(2)] l ne by metis
  have eq: "as' = as" using as'(1) loop by simp
  show "length as = nat D" using as'(2) eq by simp
  show "as ! nat (D - 1) = q"
    using as'(2,3) eq D by (metis last_conv_nth length_0_conv nat_diff_distrib nat_one_as_int
        zero_less_nat_eq less_irrefl zle_iff_zadd int_one_le_iff_zero_less zero_le_one)
  show "0 \<le> as ! i \<and> as ! i < entry_width (entries p ! i)" if "i < nat D" for i
    using as'(4) eq that by simp
  show "as ! i = parent_beams (entries p ! Suc i) ! nat (as ! Suc i)" if "Suc i < nat D" for i
    using as'(5) eq that by simp
qed

lemma beam_ancestry_total:
  assumes wf: "wf_path p" and D: "0 < D" "D \<le> steps_done p"
    and q: "0 \<le> q" "q < entry_width (entries p ! nat (D - 1))"
  shows "\<exists>as. beam_ancestry p q D = Inr as"
proof -
  have len: "nat D \<le> length (entries p)" using D by (simp add: steps_done_def)
  let ?es = "take (nat D) (entries p)"
  have w: "wf_entries (path_beam_width p) 1 ?es" using wf by (simp add: wf_path_def wf_entries_take)
  have sD: "nat D = Suc (nat (D - 1))" using D by simp
  have lw: "last_width 1 ?es = entry_width (entries p ! nat (D - 1))"
    unfolding sD by (rule last_width_take) (use len D in simp)
  obtain as' where "ancestry_loop (rev ?es) q = Inr (rev as')"
    using ancestry_loop_ok [OF w q(1), unfolded lw, OF q(2)] by blast
  then show ?thesis using D len q by (auto simp: beam_ancestry_def)
qed

section \<open>What the kernel reads\<close>

text \<open>The slot of a flattened history of width \<open>W\<close> and the block read through an index tensor.\<close>

definition flat_slot :: "int \<Rightarrow> int \<Rightarrow> int \<times> int" where
  "flat_slot W idx = (idx div W, idx mod W)"

definition kernel_read ::
  "int \<Rightarrow> int list list list list list \<Rightarrow> (int \<Rightarrow> int \<Rightarrow> int \<Rightarrow> int \<Rightarrow> 'v)
   \<Rightarrow> int \<Rightarrow> nat \<Rightarrow> nat \<Rightarrow> nat \<Rightarrow> nat \<Rightarrow> 'v" where
  "kernel_read W idx f l b h d q =
     (case flat_slot W (idx ! b ! 0 ! h ! d ! q) of (s, w) \<Rightarrow> f l (int b) s w)"

lemma flat_slot_encode: "0 \<le> a \<Longrightarrow> a < W \<Longrightarrow> flat_slot W (d * W + a) = (d, a)"
  by (simp add: flat_slot_def)

lemma needs_loop_False:
  "needs_loop p D active qs = Inr False \<Longrightarrow> q \<in> set qs \<Longrightarrow>
     \<exists>anc. beam_ancestry p q D = Inr anc \<and> (\<forall>b \<in> set (butlast anc). b < active)"
  by (induction qs) (auto simp: not_le split: if_splits)

lemma needs_paths_loop_False:
  "needs_paths_loop ps D active = Inr False \<Longrightarrow> p \<in> set ps \<Longrightarrow>
     needs_loop p D active (py_range active) = Inr False"
  by (induction ps) (auto split: if_splits)

lemma needs_compaction_False:
  assumes needs: "needs_batched_beam_kv_history_compaction paths D active = Inr False"
    and p: "p \<in> set paths" "wf_path p" and q: "0 \<le> q" "q < active"
  shows "\<exists>anc. beam_ancestry p q D = Inr anc \<and> (\<forall>d < nat D. 0 \<le> anc ! d \<and> anc ! d < active)"
proof -
  from needs have D: "0 < D" and loop: "needs_paths_loop paths D active = Inr False"
    by (auto simp: needs_batched_beam_kv_history_compaction_def validate_compaction_args_def split: if_splits)
  obtain anc where anc: "beam_ancestry p q D = Inr anc" and b: "\<forall>b \<in> set (butlast anc). b < active"
    using needs_loop_False [OF needs_paths_loop_False [OF loop p(1)]] q by auto
  note facts = beam_ancestry_Inr [OF p(2) D anc]
  have "0 \<le> anc ! d \<and> anc ! d < active" if d: "d < nat D" for d
  proof (cases "d = nat (D - 1)")
    case True
    then show ?thesis using facts(5) q by simp
  next
    case False
    then have "d < length (butlast anc)" using d facts(4) by simp
    then have "anc ! d \<in> set (butlast anc)" by (metis nth_butlast nth_mem)
    then show ?thesis using b facts(6) [OF d] by simp
  qed
  then show ?thesis using anc by blast
qed

lemma path_pattern_nth:
  assumes "path_pattern p D W = Inr pat" and "d < nat D" and "q < nat W"
  shows "\<exists>anc. beam_ancestry p (int q) D = Inr anc \<and> pat ! d ! q = int d * W + anc ! d"
proof -
  from assms(1) obtain ancs where a: "map_res (\<lambda>q. beam_ancestry p q D) (py_range W) = Inr ancs"
    and pat: "pat = pattern_of D W ancs" by (auto simp: path_pattern_def)
  from map_res_nth [OF a] assms(2,3) show ?thesis by (simp add: pat pattern_of_def)
qed

section \<open>Compaction\<close>

lemma apply_writes_miss:
  "(\<forall>a. (b, s, q, a) \<notin> set ws) \<Longrightarrow> apply_writes src ws dst l b s q = dst l b s q"
  by (induction src ws dst rule: apply_writes.induct) auto

lemma apply_writes_hit:
  "(b, s, q, a) \<in> set ws \<Longrightarrow> (\<forall>a'. (b, s, q, a') \<in> set ws \<longrightarrow> a' = a) \<Longrightarrow>
     apply_writes src ws dst l b s q = src l b s a"
proof (induction src ws dst rule: apply_writes.induct)
  case (1 src dst)
  then show ?case by simp
next
  case (2 src b' s' q' a' ws dst)
  show ?case
  proof (cases "(b, s, q, a) \<in> set ws")
    case True
    then have "apply_writes src ws (\<lambda>l b'' s'' q''. if b'' = b' \<and> s'' = s' \<and> q'' = q' then src l b' s' a'
        else dst l b'' s'' q'') l b s q = src l b s a"
      by (rule "2.IH") (use "2.prems"(2) in simp)
    then show ?thesis by simp
  next
    case False
    then have hd: "b' = b" "s' = s" "q' = q" "a' = a" using 2 by auto
    have "\<forall>a. (b, s, q, a) \<notin> set ws" using 2 False by auto
    then show ?thesis using hd by (simp add: apply_writes_miss)
  qed
qed

lemma path_writes_mem:
  assumes "path_writes i p D active = Inr ws"
  shows "(b, s, q, a) \<in> set ws \<longleftrightarrow> b = i \<and> 0 \<le> s \<and> s < D - 1 \<and> 0 \<le> q \<and> q < active
           \<and> (\<exists>anc. beam_ancestry p q D = Inr anc \<and> a = anc ! nat s)"
proof -
  let ?f = "\<lambda>q. bind_res (beam_ancestry p q D) (\<lambda>anc.
                 Inr (map (\<lambda>s. (i, s, q, anc ! nat s)) (py_range (D - 1))))"
  from assms obtain wss where wss: "map_res ?f (py_range active) = Inr wss" and ws: "ws = concat wss"
    by (auto simp: path_writes_def)
  note nth = map_res_nth [OF wss]
  have mem: "x \<in> set ws \<longleftrightarrow> (\<exists>j < nat active. x \<in> set (wss ! j))" for x
    using nth by (simp only: ws set_concat_nth length_py_range)
  have row: "\<exists>anc. beam_ancestry p (int j) D = Inr anc
      \<and> wss ! j = map (\<lambda>s. (i, s, int j, anc ! nat s)) (py_range (D - 1))" if "j < nat active" for j
    using nth that by auto
  show ?thesis
  proof
    assume "(b, s, q, a) \<in> set ws"
    then obtain j where "j < nat active" "(b, s, q, a) \<in> set (wss ! j)" using mem by blast
    then show "b = i \<and> 0 \<le> s \<and> s < D - 1 \<and> 0 \<le> q \<and> q < active
           \<and> (\<exists>anc. beam_ancestry p q D = Inr anc \<and> a = anc ! nat s)"
      using row [of j] by auto
  next
    assume r: "b = i \<and> 0 \<le> s \<and> s < D - 1 \<and> 0 \<le> q \<and> q < active
           \<and> (\<exists>anc. beam_ancestry p q D = Inr anc \<and> a = anc ! nat s)"
    then have "nat q < nat active" "int (nat q) = q" by auto
    then show "(b, s, q, a) \<in> set ws" using mem r row [of "nat q"] by (auto intro!: exI [of _ "nat q"])
  qed
qed

lemma compaction_writes_mem:
  "compaction_writes i ps D active = Inr ws \<Longrightarrow>
   (b, s, q, a) \<in> set ws \<longleftrightarrow> i \<le> b \<and> b < i + int (length ps) \<and> 0 \<le> s \<and> s < D - 1 \<and> 0 \<le> q \<and> q < active
     \<and> (\<exists>anc. beam_ancestry (ps ! nat (b - i)) q D = Inr anc \<and> a = anc ! nat s)"
proof (induction i ps D active arbitrary: ws rule: compaction_writes.induct)
  case (1 i D active)
  then show ?case by auto
next
  case (2 i p ps D active)
  then obtain ws1 ws2 where w1: "path_writes i p D active = Inr ws1"
    and w2: "compaction_writes (i + 1) ps D active = Inr ws2" and ws: "ws = ws1 @ ws2" by auto
  have IH: "(b, s, q, a) \<in> set ws2 \<longleftrightarrow> i + 1 \<le> b \<and> b < i + 1 + int (length ps) \<and> 0 \<le> s \<and> s < D - 1
     \<and> 0 \<le> q \<and> q < active \<and> (\<exists>anc. beam_ancestry (ps ! nat (b - (i + 1))) q D = Inr anc \<and> a = anc ! nat s)"
    using "2.IH" [OF w2] .
  have idx: "(p # ps) ! nat (b - i) = (if b = i then p else ps ! nat (b - (i + 1)))" if "i \<le> b"
  proof (cases "b = i")
    case False
    with that have "nat (b - i) = Suc (nat (b - (i + 1)))" by simp
    then show ?thesis using False by simp
  qed simp
  show ?case
    unfolding ws set_append Un_iff path_writes_mem [OF w1] IH
    using idx by (cases "b = i") auto
qed

section \<open>Properties\<close>

text \<open>when \<open>needs_batched_beam_kv_history_compaction\<close> answers no, the indices of
  \<open>make_batched_topk_indices\<close> make the kernel read, for every query beam and history step, the block
  that beam's ancestor wrote at that step.\<close>

theorem uncompacted_indices_read_ancestors:
  assumes wf: "\<forall>p \<in> set paths. wf_path p"
    and needs: "needs_batched_beam_kv_history_compaction paths D W = Inr False"
    and idx: "make_batched_topk_indices paths H D W = Inr idx"
    and i: "b < length paths" "h < nat H" "d < nat D" "q < nat W"
  shows "\<exists>anc. beam_ancestry (paths ! b) (int q) D = Inr anc
           \<and> kernel_read W idx f l b h d q = f l (int b) (int d) (anc ! d)"
proof -
  have p: "paths ! b \<in> set paths" "wf_path (paths ! b)" using wf i(1) by auto
  have qW: "int q < W" using i(4) by linarith
  obtain anc where anc: "beam_ancestry (paths ! b) (int q) D = Inr anc"
    and r: "\<forall>d < nat D. 0 \<le> anc ! d \<and> anc ! d < W"
    using needs_compaction_False [OF needs p, of "int q"] qW by auto
  have D: "0 < D" using i(3) by simp
  have "idx ! b ! 0 ! h ! d ! q = int d * W + anc ! d"
  proof (cases "D = 1")
    case True
    then have "anc ! 0 = int q" using beam_ancestry_Inr(5) [OF p(2) D anc] by simp
    then show ?thesis
      using idx True i by (auto simp: make_batched_topk_indices_def make_initial_topk_indices_def
          expand_heads_def split: if_splits)
  next
    case False
    then obtain pats where pats: "map_res (\<lambda>p. path_pattern p D W) paths = Inr pats"
      and e: "idx = map (expand_heads H) pats"
      using idx by (auto simp: make_batched_topk_indices_def split: if_splits)
    have "path_pattern (paths ! b) D W = Inr (pats ! b)" and "length pats = length paths"
      using map_res_nth [OF pats] i(1) by auto
    then show ?thesis using path_pattern_nth [of "paths ! b" D W "pats ! b" d q] i anc e
      by (auto simp: expand_heads_def)
  qed
  then show ?thesis using anc r i(3) by (auto simp: kernel_read_def flat_slot_encode)
qed

theorem uncompacted_indices_read_ancestors_witness:
  "\<exists>idx anc. make_batched_topk_indices [ex_path] 1 2 2 = Inr idx \<and> beam_ancestry ex_path 0 2 = Inr anc
     \<and> kernel_read 2 idx (\<lambda>l b s w. (l, b, s, w)) 7 0 0 0 0 = (7, 0, 0, anc ! 0)"
proof -
  have w: "\<forall>p \<in> set [ex_path]. wf_path p"
    by (simp add: ex_path_def wf_path_def entry_width_def steps_done_def)
  have n: "needs_batched_beam_kv_history_compaction [ex_path] 2 2 = Inr False" by code_simp
  have m: "make_batched_topk_indices [ex_path] 1 2 2 = Inr [[[[[1, 1], [2, 3]]]]]" by code_simp
  show ?thesis
    using uncompacted_indices_read_ancestors [OF w n m, of 0 0 0 0 "\<lambda>l b s w. (l, b, s, w)" 7] m by simp
qed

text \<open>C30: after \<open>compact_batched_beam_kv_history\<close>, the path-independent indices of
  \<open>make_compacted_batched_topk_indices\<close> make the kernel read the same ancestor blocks: slot \<open>q\<close> of
  every earlier step holds what the ancestor of query beam \<open>q\<close> wrote, for keys and for values.\<close>

theorem compacted_indices_read_ancestors:
  assumes kv': "compact_batched_beam_kv_history fk fv kv paths D W = Inr kv'"
    and idx: "make_compacted_batched_topk_indices (int (length paths)) H D W = Inr idx"
    and i: "b < length paths" "h < nat H" "d < nat (D - 1)" "q < nat W"
  shows "\<exists>anc. beam_ancestry (paths ! b) (int q) D = Inr anc
           \<and> kernel_read W idx (kv_key kv') l b h d q = kv_key kv l (int b) (int d) (anc ! d)
           \<and> kernel_read W idx (kv_value kv') l b h d q = kv_value kv l (int b) (int d) (anc ! d)"
proof -
  from kv' obtain ws where ws: "compaction_writes 0 paths D W = Inr ws"
    and k: "kv_key kv' = apply_writes (kv_key kv) ws fk" "kv_value kv' = apply_writes (kv_value kv) ws fv"
    by (auto simp: compact_batched_beam_kv_history_def split: if_splits)
  note mem = compaction_writes_mem [OF ws, of "int b" "int d" "int q"]
  have "\<exists>anc. beam_ancestry (paths ! b) (int q) D = Inr anc"
  proof -
    have "path_writes i p D W = Inr x \<Longrightarrow> \<exists>anc. beam_ancestry p (int q) D = Inr anc" for i p x
      using i(4) by (auto simp: path_writes_def dest!: map_res_nth) blast
    moreover have "compaction_writes j ps D W = Inr x \<Longrightarrow> p \<in> set ps \<Longrightarrow> \<exists>y z. path_writes y p D W = Inr z"
      for j ps x p by (induction j ps D W arbitrary: x rule: compaction_writes.induct) auto
    ultimately show ?thesis using ws i(1) by (metis nth_mem)
  qed
  then obtain anc where anc: "beam_ancestry (paths ! b) (int q) D = Inr anc" by blast
  have hit: "(int b, int d, int q, anc ! d) \<in> set ws"
    and uniq: "\<forall>a'. (int b, int d, int q, a') \<in> set ws \<longrightarrow> a' = anc ! d"
    using mem anc i by auto
  have "idx ! b ! 0 ! h ! d ! q = int d * W + int q"
    using idx i by (auto simp: make_compacted_batched_topk_indices_def expand_heads_def split: if_splits)
  then have slot: "flat_slot W (idx ! b ! 0 ! h ! d ! q) = (int d, int q)"
    using i(4) by (simp add: flat_slot_encode)
  show ?thesis
    using anc slot k apply_writes_hit [OF hit uniq] by (auto simp: kernel_read_def)
qed

definition ex_kv :: "(int \<times> int \<times> int \<times> int) BeamKV" where
  "ex_kv = \<lparr>kv_shape = [1, 1, 3, 2, 1, 1], kv_key = (\<lambda>l b s w. (l, b, s, w)),
     kv_value = (\<lambda>l b s w. (l, b, s, w))\<rparr>"

theorem compacted_indices_read_ancestors_witness:
  "\<exists>kv' idx anc. compact_batched_beam_kv_history (\<lambda>_ _ _ _. (0, 0, 0, 0)) (\<lambda>_ _ _ _. (0, 0, 0, 0))
       ex_kv [ex_path] 2 1 = Inr kv'
     \<and> make_compacted_batched_topk_indices 1 1 2 1 = Inr idx \<and> beam_ancestry ex_path 0 2 = Inr anc
     \<and> kernel_read 1 idx (kv_key kv') 7 0 0 0 0 = (7, 0, 0, anc ! 0) \<and> anc ! 0 = 1"
proof -
  have anc: "beam_ancestry ex_path 0 2 = Inr [1, 0]" by code_simp
  have idx: "make_compacted_batched_topk_indices (int (length [ex_path])) 1 2 1 = Inr [[[[[0], [1]]]]]"
    by code_simp
  obtain kv' where kv': "compact_batched_beam_kv_history (\<lambda>_ _ _ _. (0, 0, 0, 0)) (\<lambda>_ _ _ _. (0, 0, 0, 0))
       ex_kv [ex_path] 2 1 = Inr kv'"
    using anc by (auto simp: compact_batched_beam_kv_history_def validate_compaction_args_def ex_kv_def
        kv_batch_size_def kv_max_decode_steps_def kv_max_beam_width_def batched_steps_done_def steps_done_def
        ex_path_def path_writes_def py_range_def)
  show ?thesis
    using compacted_indices_read_ancestors [OF kv' idx, of 0 0 0 0 7] kv' idx anc
    by (simp add: ex_kv_def)
qed

end
