(* ===== verification/GR_Item_Constraints.thy ===== *)
theory GR_Item_Constraints
  imports GR_Beam_Path
begin

text \<open>
  Constrained decoding, \<open>gr_runtime/item_constraints.py\<close>: the validated item catalog, the token trie
  built from it, the mask provider that confines beams to catalog paths, and the versioned provider
  store. A trie node is its children dictionary, its terminal flag and its item ids. The provider's
  masks are boolean rows over the vocabulary.
\<close>

section \<open>Catalog\<close>

text \<open>Python's \<open>==\<close> on item ids identifies numbers across \<open>bool\<close>, \<open>int\<close> and \<open>float\<close>; \<open>canon\<close> picks one
  representative, so that two hashable values are equal as set members iff their representatives
  are.\<close>

fun canon :: "pyval \<Rightarrow> pyval" where
  "canon (PBool b) = PInt (if b then 1 else 0)"
| "canon (PFloat (Fin q)) = (if q = of_int \<lfloor>q\<rfloor> then PInt \<lfloor>q\<rfloor> else PFloat (Fin q))"
| "canon v = v"

fun hashable :: "pyval \<Rightarrow> bool" where
  "hashable (PList _) = False"
| "hashable (PDict _) = False"
| "hashable _ = True"

record SemanticItem =
  item_id :: pyval
  item_token_ids :: "int list"
  item_metadata :: "(string, pyval) dict"

type_synonym json_record = "(string, pyval) dict"

definition record_field :: "json_record \<Rightarrow> string \<Rightarrow> pyval py_result" where
  "record_field record name =
     (case map_of record name of
        None \<Rightarrow> Inl (ValueError ''missing required field'')
      | Some v \<Rightarrow> Inr v)"

text \<open>Only \<open>TypeError\<close> and \<open>ValueError\<close> of \<open>int(token)\<close> are translated; an overflow propagates.\<close>

definition coerce_token_id :: "int option \<Rightarrow> pyval \<Rightarrow> int py_result" where
  "coerce_token_id vocab_size token =
     (if is_bool token then Inl (ValueError ''token id must be an integer'')
      else case py_int token of
        Inl (TypeError _) \<Rightarrow> Inl (ValueError ''token id must be an integer'')
      | Inl (ValueError _) \<Rightarrow> Inl (ValueError ''token id must be an integer'')
      | Inl e \<Rightarrow> Inl e
      | Inr t \<Rightarrow>
          if t < 0 then Inl (ValueError ''token id must be non-negative'')
          else if (case vocab_size of None \<Rightarrow> False | Some v \<Rightarrow> t \<ge> v)
          then Inl (ValueError ''token id exceeds vocab_size'')
          else Inr t)"

definition coerce_token_ids :: "int option \<Rightarrow> pyval \<Rightarrow> int list py_result" where
  "coerce_token_ids vocab_size raw =
     bind_res (case raw of
                 PList ts \<Rightarrow> map_res (coerce_token_id vocab_size) ts
               | PDict d \<Rightarrow> map_res (coerce_token_id vocab_size) (map PStr (dict_keys d))
               | _ \<Rightarrow> Inl (ValueError ''token_ids must be a non-empty sequence''))
       (\<lambda>ts. if ts = [] then Inl (ValueError ''token_ids must be non-empty'') else Inr ts)"

definition record_metadata ::
  "json_record \<Rightarrow> string \<Rightarrow> string \<Rightarrow> string option \<Rightarrow> (string, pyval) dict py_result" where
  "record_metadata record id_field tokens_field meta_field =
     (case meta_field of
        None \<Rightarrow> Inr (filter (\<lambda>(k, _). k \<notin> {id_field, tokens_field}) record)
      | Some f \<Rightarrow>
          (case map_of record f of
             None \<Rightarrow> Inr []
           | Some (PDict d) \<Rightarrow> Inr d
           | Some _ \<Rightarrow> Inl (ValueError ''metadata field must be a JSON object'')))"

record catalog_options =
  item_id_field :: string
  token_ids_field :: string
  metadata_field :: "string option"
  opt_vocab_size :: "int option"
  allow_duplicate_item_ids :: bool
  allow_duplicate_token_paths :: bool

text \<open>\<open>seen_paths.get(token_ids)\<close> with the test \<open>is not None\<close>: a path whose item id is null counts as
  not seen.\<close>

definition seen_path_item :: "(int list, pyval) dict \<Rightarrow> int list \<Rightarrow> pyval option" where
  "seen_path_item seen ts = (case map_of seen ts of Some PNone \<Rightarrow> None | r \<Rightarrow> r)"

fun catalog_loop ::
  "catalog_options \<Rightarrow> json_record list \<Rightarrow> pyval list \<Rightarrow> (int list, pyval) dict \<Rightarrow> SemanticItem list
   \<Rightarrow> SemanticItem list py_result" where
  "catalog_loop opts [] ids paths items = Inr items"
| "catalog_loop opts (r # rs) ids paths items =
     bind_res (record_field r (item_id_field opts)) (\<lambda>iid.
     bind_res (record_field r (token_ids_field opts)) (\<lambda>raw.
     bind_res (coerce_token_ids (opt_vocab_size opts) raw) (\<lambda>ts.
       if \<not> allow_duplicate_item_ids opts \<and> \<not> hashable iid then Inl (TypeError ''unhashable type'')
       else if \<not> allow_duplicate_item_ids opts \<and> canon iid \<in> set ids
       then Inl (ValueError ''duplicate item_id'')
       else if seen_path_item paths ts \<noteq> None \<and> \<not> allow_duplicate_token_paths opts
       then Inl (ValueError ''duplicate semantic token path'')
       else if \<not> hashable iid then Inl (TypeError ''unhashable type'')
       else bind_res (record_metadata r (item_id_field opts) (token_ids_field opts) (metadata_field opts))
         (\<lambda>meta. catalog_loop opts rs (canon iid # ids) (dict_set ts iid paths)
            (items @ [\<lparr>item_id = iid, item_token_ids = ts, item_metadata = meta\<rparr>])))))"

definition from_records :: "catalog_options \<Rightarrow> json_record list \<Rightarrow> SemanticItem list py_result" where
  "from_records opts records =
     (if (case opt_vocab_size opts of None \<Rightarrow> False | Some v \<Rightarrow> v \<le> 0)
      then Inl (ValueError ''vocab_size must be positive when provided'')
      else bind_res (catalog_loop opts records [] [] [])
        (\<lambda>items. if items = [] then Inl (ValueError ''semantic item catalog must contain at least one item'')
                 else Inr items))"

text \<open>\<open>from_jsonl\<close>: \<open>json_loads\<close> is the JSON parser on one stripped line, \<open>None\<close> its decode error.\<close>

fun jsonl_records :: "(string \<Rightarrow> pyval option) \<Rightarrow> string list \<Rightarrow> json_record list py_result" where
  "jsonl_records json_loads [] = Inr []"
| "jsonl_records json_loads (line # lines) =
     (if py_strip line = [] then jsonl_records json_loads lines
      else case json_loads (py_strip line) of
        None \<Rightarrow> Inl (ValueError ''invalid JSON in semantic item catalog'')
      | Some (PDict r) \<Rightarrow> bind_res (jsonl_records json_loads lines) (\<lambda>rs. Inr (r # rs))
      | Some _ \<Rightarrow> Inl (ValueError ''semantic item catalog line must be a JSON object''))"

definition from_jsonl ::
  "(string \<Rightarrow> pyval option) \<Rightarrow> catalog_options \<Rightarrow> string list \<Rightarrow> SemanticItem list py_result" where
  "from_jsonl json_loads opts lines = bind_res (jsonl_records json_loads lines) (from_records opts)"

section \<open>Token trie\<close>

datatype trie_node = TrieNode (children: "(int \<times> trie_node) list") (terminal: bool) (node_item_ids: "pyval list")

definition empty_node :: trie_node where
  "empty_node = TrieNode [] False []"

fun insert_node :: "int list \<Rightarrow> pyval \<Rightarrow> trie_node \<Rightarrow> trie_node" where
  "insert_node [] iid (TrieNode cs t ids) =
     TrieNode cs True (if iid \<noteq> PNone \<and> canon iid \<notin> canon ` set ids then ids @ [iid] else ids)"
| "insert_node (x # xs) iid (TrieNode cs t ids) =
     TrieNode (dict_set x (insert_node xs iid
        (case map_of cs x of None \<Rightarrow> empty_node | Some c \<Rightarrow> c)) cs) t ids"

definition trie_insert :: "int list \<Rightarrow> pyval \<Rightarrow> trie_node \<Rightarrow> trie_node py_result" where
  "trie_insert sequence iid t0 =
     (if sequence = [] then Inl (ValueError ''cannot insert an empty item-token sequence'')
      else Inr (insert_node sequence iid t0))"

fun trie_from_items_loop :: "trie_node \<Rightarrow> (pyval \<times> int list) list \<Rightarrow> trie_node py_result" where
  "trie_from_items_loop t [] = Inr t"
| "trie_from_items_loop t ((iid, sequence) # rest) =
     bind_res (trie_insert sequence iid t) (\<lambda>t'. trie_from_items_loop t' rest)"

definition trie_from_items :: "(pyval \<times> int list) list \<Rightarrow> trie_node py_result" where
  "trie_from_items items = trie_from_items_loop empty_node items"

definition trie_from_sequences :: "int list list \<Rightarrow> trie_node py_result" where
  "trie_from_sequences sequences = trie_from_items_loop empty_node (map (\<lambda>s. (PNone, s)) sequences)"

definition catalog_trie :: "SemanticItem list \<Rightarrow> trie_node py_result" where
  "catalog_trie items = trie_from_items (map (\<lambda>i. (item_id i, item_token_ids i)) items)"

fun find_node :: "int list \<Rightarrow> trie_node \<Rightarrow> trie_node option" where
  "find_node [] node = Some node"
| "find_node (x # xs) (TrieNode cs t ids) =
     (case map_of cs x of None \<Rightarrow> None | Some c \<Rightarrow> find_node xs c)"

definition trie_allowed_next :: "trie_node \<Rightarrow> int list \<Rightarrow> int set" where
  "trie_allowed_next t0 pfx =
     (case find_node pfx t0 of None \<Rightarrow> {} | Some n \<Rightarrow> set (dict_keys (children n)))"

definition trie_is_terminal :: "trie_node \<Rightarrow> int list \<Rightarrow> bool" where
  "trie_is_terminal t0 pfx =
     (case find_node pfx t0 of None \<Rightarrow> False | Some n \<Rightarrow> terminal n)"

definition trie_item_ids :: "trie_node \<Rightarrow> int list \<Rightarrow> pyval list" where
  "trie_item_ids t0 pfx =
     (case find_node pfx t0 of
        None \<Rightarrow> []
      | Some n \<Rightarrow> if terminal n then node_item_ids n else [])"

section \<open>Mask provider\<close>

record TrieItemMaskProvider =
  trie :: trie_node
  vocab_size :: int
  eos_token_id :: "int option"
  allow_eos_for_terminal :: bool

definition mk_mask_provider ::
  "trie_node \<Rightarrow> int \<Rightarrow> int option \<Rightarrow> bool \<Rightarrow> TrieItemMaskProvider py_result" where
  "mk_mask_provider t vocab eos allow =
     (if vocab \<le> 0 then Inl (ValueError ''vocab_size must be positive'')
      else if (case eos of None \<Rightarrow> False | Some e \<Rightarrow> \<not> (0 \<le> e \<and> e < vocab))
      then Inl (ValueError ''eos_token_id must be within vocabulary'')
      else Inr \<lparr>trie = t, vocab_size = vocab, eos_token_id = eos, allow_eos_for_terminal = allow\<rparr>)"

definition catalog_provider ::
  "SemanticItem list \<Rightarrow> int \<Rightarrow> int option \<Rightarrow> bool \<Rightarrow> TrieItemMaskProvider py_result" where
  "catalog_provider items vocab eos allow =
     bind_res (catalog_trie items) (\<lambda>t. mk_mask_provider t vocab eos allow)"

definition provider_stop_token_ids :: "TrieItemMaskProvider \<Rightarrow> int list" where
  "provider_stop_token_ids p = (case eos_token_id p of None \<Rightarrow> [] | Some e \<Rightarrow> [e])"

definition semantic_prefix :: "TrieItemMaskProvider \<Rightarrow> int list \<Rightarrow> int list" where
  "semantic_prefix p values =
     (case eos_token_id p of
        None \<Rightarrow> values
      | Some e \<Rightarrow> if e \<notin> set values then values else takeWhile (\<lambda>t. t \<noteq> e) values)"

definition has_eos :: "TrieItemMaskProvider \<Rightarrow> int list \<Rightarrow> bool" where
  "has_eos p values = (case eos_token_id p of None \<Rightarrow> False | Some e \<Rightarrow> e \<in> set values)"

definition allowed_next :: "TrieItemMaskProvider \<Rightarrow> int list \<Rightarrow> int set" where
  "allowed_next p pfx =
     (let normalized = semantic_prefix p pfx
      in if has_eos p pfx then set (provider_stop_token_ids p)
         else let allowed = trie_allowed_next (trie p) normalized
              in case eos_token_id p of
                   None \<Rightarrow> allowed
                 | Some e \<Rightarrow> if allow_eos_for_terminal p \<and> trie_is_terminal (trie p) normalized
                             then insert e allowed else allowed)"

definition is_complete :: "TrieItemMaskProvider \<Rightarrow> int list \<Rightarrow> bool" where
  "is_complete p ts = trie_is_terminal (trie p) (semantic_prefix p ts)"

definition resolve_item_ids :: "TrieItemMaskProvider \<Rightarrow> int list \<Rightarrow> pyval list" where
  "resolve_item_ids p ts = trie_item_ids (trie p) (semantic_prefix p ts)"

text \<open>One mask row: the allowed tokens that are inside the vocabulary.\<close>

definition mask_row :: "TrieItemMaskProvider \<Rightarrow> int list \<Rightarrow> bool list" where
  "mask_row p pfx = map (\<lambda>t. t \<in> allowed_next p pfx) (py_range (vocab_size p))"

definition initial_mask :: "TrieItemMaskProvider \<Rightarrow> bool list" where
  "initial_mask p = mask_row p []"

definition step_mask :: "TrieItemMaskProvider \<Rightarrow> BeamPath \<Rightarrow> int list \<Rightarrow> bool list list py_result" where
  "step_mask p path logits_shape =
     (if steps_done path = 0 then Inl (ValueError ''beam_path must be initialized before step masks'')
      else case logits_shape of
        [b, width, _] \<Rightarrow>
          if b \<noteq> 1 then Inl (ValueError ''TrieItemMaskProvider currently supports batch_size=1'')
          else map_res (\<lambda>beam. bind_res (token_trace path beam None) (\<lambda>pfx. Inr (mask_row p pfx)))
                 (py_range width)
      | _ \<Rightarrow> Inl (ValueError ''decode logits must be shaped [B, W, vocab]''))"

record item_result =
  result_rank :: int
  result_token_ids :: "int list"
  result_semantic_ids :: "int list"
  result_complete :: bool
  result_item_ids :: "pyval list"
  result_item_id :: pyval

definition beam_item_results ::
  "TrieItemMaskProvider \<Rightarrow> BeamPath \<Rightarrow> int \<Rightarrow> item_result list py_result" where
  "beam_item_results p path beam_width =
     map_res (\<lambda>beam. bind_res (token_trace path beam None) (\<lambda>ts.
        let ids = resolve_item_ids p ts
        in Inr \<lparr>result_rank = beam, result_token_ids = ts, result_semantic_ids = semantic_prefix p ts,
                result_complete = is_complete p ts, result_item_ids = ids,
                result_item_id = (case ids of [i] \<Rightarrow> i | _ \<Rightarrow> PNone)\<rparr>))
       (py_range beam_width)"

section \<open>Provider store\<close>

text \<open>The lock makes every operation one step, so the store is a record passed through them.\<close>

datatype reload_event =
    SwapEvent string int int "(string, pyval) dict"
  | FailedEvent int string py_exc
  | RollbackEvent int int int "(string, pyval) dict"

record ProviderStore =
  store_provider :: TrieItemMaskProvider
  store_version :: int
  store_metadata :: "(string, pyval) dict"
  previous_provider :: "TrieItemMaskProvider option"
  previous_version :: "int option"
  previous_metadata :: "(string, pyval) dict option"
  reload_history :: "reload_event list"
  max_reload_history :: int

definition mk_store ::
  "TrieItemMaskProvider \<Rightarrow> int \<Rightarrow> (string, pyval) dict \<Rightarrow> int \<Rightarrow> ProviderStore" where
  "mk_store provider version metadata max_hist =
     \<lparr>store_provider = provider, store_version = version, store_metadata = metadata,
      previous_provider = None, previous_version = None, previous_metadata = None,
      reload_history = [], max_reload_history = max_hist\<rparr>"

definition record_reload_event :: "reload_event \<Rightarrow> ProviderStore \<Rightarrow> ProviderStore" where
  "record_reload_event e s =
     s\<lparr>reload_history := trim_history (max_reload_history s) (reload_history s @ [e])\<rparr>"

definition store_swap ::
  "TrieItemMaskProvider \<Rightarrow> (string, pyval) dict \<Rightarrow> string \<Rightarrow> ProviderStore \<Rightarrow> ProviderStore \<times> int" where
  "store_swap provider metadata operation s =
     (let s1 = s\<lparr>previous_provider := Some (store_provider s),
                 previous_version := Some (store_version s),
                 previous_metadata := Some (store_metadata s),
                 store_provider := provider,
                 store_version := store_version s + 1,
                 store_metadata := metadata\<rparr>;
          s2 = record_reload_event (SwapEvent operation (store_version s) (store_version s1) metadata) s1
      in (s2, store_version s1))"

text \<open>\<open>catalog.status()\<close> of a catalog loaded from \<open>source\<close>.\<close>

definition catalog_status :: "string \<Rightarrow> SemanticItem list \<Rightarrow> (string, pyval) dict" where
  "catalog_status source items =
     [(''source'', PStr source), (''item_count'', PInt (int (length items)))]"

text \<open>\<open>reload_jsonl\<close>: \<open>file\<close> is the opened file's lines, an exception when it cannot be read.\<close>

definition store_reload_jsonl ::
  "(string \<Rightarrow> pyval option) \<Rightarrow> string list py_result \<Rightarrow> catalog_options \<Rightarrow> string \<Rightarrow> int \<Rightarrow> int option \<Rightarrow> bool
   \<Rightarrow> ProviderStore \<Rightarrow> ProviderStore \<times> int py_result" where
  "store_reload_jsonl json_loads file opts path vocab eos allow s =
     (case bind_res file (\<lambda>lines. bind_res (from_jsonl json_loads (opts\<lparr>opt_vocab_size := Some vocab\<rparr>) lines)
             (\<lambda>items. bind_res (catalog_provider items vocab eos allow) (\<lambda>p. Inr (items, p)))) of
        Inl e \<Rightarrow> (record_reload_event (FailedEvent (store_version s) path e) s, Inl e)
      | Inr (items, p) \<Rightarrow>
          (case store_swap p (catalog_status path items) ''reload_jsonl'' s of (s', v) \<Rightarrow> (s', Inr v)))"

definition store_rollback :: "ProviderStore \<Rightarrow> ProviderStore \<times> int py_result" where
  "store_rollback s =
     (case (previous_provider s, previous_version s) of
        (Some pp, Some target) \<Rightarrow>
          (let s1 = s\<lparr>store_provider := pp,
                      store_version := store_version s + 1,
                      store_metadata := (case previous_metadata s of None \<Rightarrow> [] | Some m \<Rightarrow> m),
                      previous_provider := Some (store_provider s),
                      previous_version := Some (store_version s),
                      previous_metadata := Some (store_metadata s)\<rparr>;
               s2 = record_reload_event
                      (RollbackEvent (store_version s) target (store_version s1) (store_metadata s1)) s1
           in (s2, Inr (store_version s1)))
      | _ \<Rightarrow> (s, Inl (RuntimeError ''no previous catalog version available for rollback'')))"

section \<open>The trie as a set of paths\<close>

definition trie_paths :: "trie_node \<Rightarrow> int list set" where
  "trie_paths t = {p. trie_is_terminal t p}"

text \<open>No dead branch: below every node some terminal node can be reached.\<close>

definition live_trie :: "trie_node \<Rightarrow> bool" where
  "live_trie t \<longleftrightarrow> (\<forall>p n. p \<noteq> [] \<longrightarrow> find_node p t = Some n \<longrightarrow> (\<exists>q. trie_is_terminal n q))"

lemma find_node_empty [simp]: "find_node p empty_node = (if p = [] then Some empty_node else None)"
  by (cases p) (auto simp: empty_node_def)

lemma find_node_append:
  "find_node (p @ q) t = (case find_node p t of None \<Rightarrow> None | Some n \<Rightarrow> find_node q n)"
  by (induction p t rule: find_node.induct) (auto split: option.splits)

lemma is_terminal_append:
  "trie_is_terminal t (p @ q) = (case find_node p t of None \<Rightarrow> False | Some n \<Rightarrow> trie_is_terminal n q)"
  by (simp add: trie_is_terminal_def find_node_append split: option.splits)

lemma find_insert:
  "find_node p (insert_node s iid t) =
     (if prefix p s
      then Some (insert_node (drop (length p) s) iid (case find_node p t of None \<Rightarrow> empty_node | Some n \<Rightarrow> n))
      else find_node p t)"
proof (induction s iid t arbitrary: p rule: insert_node.induct)
  case (1 iid cs t ids)
  then show ?case by (cases p) auto
next
  case (2 x xs iid cs t ids)
  show ?case
  proof (cases p)
    case Nil
    then show ?thesis by simp
  next
    case (Cons y ys)
    then show ?thesis using 2 by (auto simp: dict_lookup split: option.splits)
  qed
qed

lemma terminal_insert: "terminal (insert_node s iid n) \<longleftrightarrow> s = [] \<or> terminal n"
  by (cases n; cases s) auto

lemma is_terminal_insert: "trie_is_terminal (insert_node s iid t) p \<longleftrightarrow> p = s \<or> trie_is_terminal t p"
  by (auto simp: trie_is_terminal_def find_insert terminal_insert empty_node_def prefix_def
      split: option.splits)

lemma live_empty: "live_trie empty_node"
  by (simp add: live_trie_def)

lemma live_insert: "live_trie t \<Longrightarrow> live_trie (insert_node s iid t)"
  unfolding live_trie_def
proof (intro allI impI)
  fix p n
  assume live: "\<forall>p n. p \<noteq> [] \<longrightarrow> find_node p t = Some n \<longrightarrow> (\<exists>q. trie_is_terminal n q)"
    and p: "p \<noteq> []" and n: "find_node p (insert_node s iid t) = Some n"
  show "\<exists>q. trie_is_terminal n q"
  proof (cases "prefix p s")
    case True
    then show ?thesis using n by (auto simp: find_insert is_terminal_insert)
  next
    case False
    then show ?thesis using n live p by (auto simp: find_insert)
  qed
qed

lemma allowed_next_live:
  assumes "live_trie t"
  shows "x \<in> trie_allowed_next t p \<longleftrightarrow> (\<exists>q. p @ x # q \<in> trie_paths t)"
proof -
  have step: "x \<in> fst ` set (children n) \<longleftrightarrow> (\<exists>c. find_node [x] n = Some c)" for n
    by (cases n) (auto split: option.splits simp: map_of_eq_None_iff dest!: map_of_SomeD intro: rev_image_eqI)
  have live: "find_node (p @ [x]) t = Some c \<Longrightarrow> \<exists>q. trie_is_terminal c q" for c
    using assms unfolding live_trie_def by blast
  have "(\<exists>q. trie_is_terminal t (p @ [x] @ q)) \<longleftrightarrow> (\<exists>c. find_node (p @ [x]) t = Some c)"
    using live is_terminal_append [of t "p @ [x]"] by (auto split: option.splits)
  then show ?thesis
    by (simp add: trie_allowed_next_def trie_paths_def step find_node_append split: option.splits)
qed

section \<open>The interface: an index of token paths\<close>

text \<open>A sequence is confined by \<open>allow\<close> when each token is allowed after the tokens before it.\<close>

definition confined :: "(int list \<Rightarrow> int set) \<Rightarrow> int list \<Rightarrow> bool" where
  "confined allow ts \<longleftrightarrow> (\<forall>i < length ts. ts ! i \<in> allow (take i ts))"

lemma confined_Nil [simp]: "confined allow []"
  by (simp add: confined_def)

lemma confined_snoc: "confined allow (ts @ [t]) \<longleftrightarrow> confined allow ts \<and> t \<in> allow ts"
  by (auto simp: confined_def nth_append less_Suc_eq all_conj_distrib)

text \<open>What constrained decoding relies on: the index is a set of paths, \<open>complete\<close> is membership and
  \<open>next_tokens\<close> are exactly the one-token continuations towards a path.\<close>

locale path_index =
  fixes invar :: "'t \<Rightarrow> bool"
    and paths :: "'t \<Rightarrow> int list set"
    and empty :: 't
    and add :: "int list \<Rightarrow> pyval \<Rightarrow> 't \<Rightarrow> 't"
    and next_tokens :: "'t \<Rightarrow> int list \<Rightarrow> int set"
    and complete :: "'t \<Rightarrow> int list \<Rightarrow> bool"
  assumes invar_empty: "invar empty"
    and paths_empty: "paths empty = {}"
    and invar_add: "invar t \<Longrightarrow> invar (add p iid t)"
    and paths_add: "invar t \<Longrightarrow> paths (add p iid t) = insert p (paths t)"
    and next_tokens_iff: "invar t \<Longrightarrow> x \<in> next_tokens t p \<longleftrightarrow> (\<exists>q. p @ x # q \<in> paths t)"
    and complete_iff: "invar t \<Longrightarrow> complete t p \<longleftrightarrow> p \<in> paths t"
begin

lemma paths_fold:
  "invar t \<Longrightarrow> invar (foldl (\<lambda>u (i, p). add p i u) t xs)
     \<and> paths (foldl (\<lambda>u (i, p). add p i u) t xs) = paths t \<union> snd ` set xs"
proof (induction xs arbitrary: t)
  case Nil
  then show ?case by simp
next
  case (Cons a xs)
  obtain i p where a: "a = (i, p)" by (cases a)
  show ?case
    using Cons.IH [OF invar_add [OF Cons.prems, of p i]] paths_add [OF Cons.prems, of p i] a by auto
qed

lemma confined_extends:
  "invar t \<Longrightarrow> confined (next_tokens t) ts \<Longrightarrow> ts \<noteq> [] \<Longrightarrow> \<exists>q. ts @ q \<in> paths t"
  by (cases ts rule: rev_cases) (auto simp: confined_snoc next_tokens_iff)

lemma path_confined: "invar t \<Longrightarrow> p \<in> paths t \<Longrightarrow> confined (next_tokens t) p"
  by (metis append_take_drop_id Cons_nth_drop_Suc confined_def next_tokens_iff)

lemma stuck_complete:
  assumes "invar t" and "confined (next_tokens t) ts" and "ts \<noteq> []" and "next_tokens t ts = {}"
  shows "complete t ts"
proof -
  obtain q where q: "ts @ q \<in> paths t" using confined_extends [OF assms(1-3)] by blast
  have "q = []" using q assms(4) next_tokens_iff [OF assms(1)] by (cases q) blast+
  then show ?thesis using q assms(1) complete_iff by simp
qed

end

interpretation item_trie: path_index live_trie trie_paths empty_node insert_node trie_allowed_next trie_is_terminal
proof (standard, goal_cases)
  case 1 show ?case by (rule live_empty)
next
  case 2 show ?case by (simp add: trie_paths_def trie_is_terminal_def) (simp add: empty_node_def)
next
  case (3 t p iid) then show ?case by (rule live_insert)
next
  case (4 t p iid) show ?case by (auto simp: trie_paths_def is_terminal_insert)
next
  case (5 t x p) then show ?case by (rule allowed_next_live)
next
  case (6 t p) show ?case by (simp add: trie_paths_def)
qed

lemma trie_from_items_loop_Inr:
  "trie_from_items_loop t items = Inr t' \<longleftrightarrow>
     (\<forall>x \<in> set items. snd x \<noteq> []) \<and> t' = foldl (\<lambda>u (i, p). insert_node p i u) t items"
  by (induction t items rule: trie_from_items_loop.induct) (auto simp: trie_insert_def)

lemma catalog_trie_paths:
  assumes "catalog_trie items = Inr t"
  shows "live_trie t" and "trie_paths t = item_token_ids ` set items" and "[] \<notin> trie_paths t"
proof -
  let ?xs = "map (\<lambda>i. (item_id i, item_token_ids i)) items"
  have t: "t = foldl (\<lambda>u (i, p). insert_node p i u) empty_node ?xs" and ne: "\<forall>x \<in> set ?xs. snd x \<noteq> []"
    using assms by (auto simp: catalog_trie_def trie_from_items_def trie_from_items_loop_Inr)
  have ps: "live_trie t \<and> trie_paths t = trie_paths empty_node \<union> snd ` set ?xs"
    unfolding t by (rule item_trie.paths_fold [OF item_trie.invar_empty])
  then show "live_trie t" and pt: "trie_paths t = item_token_ids ` set items"
    by (auto simp: item_trie.paths_empty image_image)
  show "[] \<notin> trie_paths t" using ne unfolding pt by auto
qed

section \<open>The provider confines beams to the catalog\<close>

definition eos_free :: "TrieItemMaskProvider \<Rightarrow> int list set \<Rightarrow> bool" where
  "eos_free p ps \<longleftrightarrow> (case eos_token_id p of None \<Rightarrow> True | Some e \<Rightarrow> \<forall>path \<in> ps. e \<notin> set path)"

lemma semantic_prefix_take:
  "semantic_prefix p ts = (case eos_token_id p of None \<Rightarrow> ts | Some e \<Rightarrow> takeWhile (\<lambda>t. t \<noteq> e) ts)"
  by (auto simp: semantic_prefix_def split: option.splits)

lemma semantic_prefix_no_eos [simp]: "\<not> has_eos p ts \<Longrightarrow> semantic_prefix p ts = ts"
  by (auto simp: semantic_prefix_def has_eos_def split: option.splits)

lemma semantic_prefix_snoc:
  "semantic_prefix p (ts @ [t]) =
     (if has_eos p ts \<or> eos_token_id p = Some t then semantic_prefix p ts else ts @ [t])"
  by (auto simp: semantic_prefix_take has_eos_def takeWhile_append split: option.splits)

lemma has_eos_snoc: "has_eos p (ts @ [t]) \<longleftrightarrow> has_eos p ts \<or> eos_token_id p = Some t"
  by (auto simp: has_eos_def split: option.splits)

text \<open>The tokens before the end-of-sequence token walk the trie, and that token is only ever
  produced after a complete path.\<close>

lemma confined_semantic_prefix:
  assumes live: "live_trie (trie p)" and free: "eos_free p (trie_paths (trie p))"
    and "confined (allowed_next p) ts"
  shows "confined (trie_allowed_next (trie p)) (semantic_prefix p ts)
    \<and> (has_eos p ts \<longrightarrow> is_complete p ts)"
  using assms(3)
proof (induction ts rule: rev_induct)
  case Nil
  then show ?case by (simp add: semantic_prefix_take has_eos_def split: option.splits)
next
  case (snoc t ts)
  have IH: "confined (trie_allowed_next (trie p)) (semantic_prefix p ts)"
    "has_eos p ts \<longrightarrow> is_complete p ts"
    using snoc by (simp_all add: confined_snoc)
  have t: "t \<in> allowed_next p ts" using snoc.prems by (simp add: confined_snoc)
  consider (over) "has_eos p ts" | (eos) "\<not> has_eos p ts" "eos_token_id p = Some t"
    | (tok) "\<not> has_eos p ts" "eos_token_id p \<noteq> Some t" by blast
  then show ?case
  proof cases
    case over
    then show ?thesis using IH by (simp add: semantic_prefix_snoc has_eos_snoc is_complete_def)
  next
    case eos
    have "t \<notin> trie_allowed_next (trie p) ts"
      using free eos by (auto simp: eos_free_def item_trie.next_tokens_iff [OF live])
    then have "is_complete p ts"
      using t eos by (auto simp: allowed_next_def is_complete_def Let_def split: if_splits)
    then show ?thesis using IH eos by (simp add: semantic_prefix_snoc is_complete_def)
  next
    case tok
    then have "t \<in> trie_allowed_next (trie p) ts"
      using t by (auto simp: allowed_next_def Let_def split: if_splits option.splits)
    then show ?thesis using IH tok by (simp add: semantic_prefix_snoc has_eos_snoc confined_snoc)
  qed
qed

lemma catalog_provider_fields:
  assumes "catalog_provider items vocab eos allow = Inr p"
  shows "live_trie (trie p)" and "trie_paths (trie p) = item_token_ids ` set items"
    and "[] \<notin> trie_paths (trie p)" and "eos_token_id p = eos" and "vocab_size p = vocab"
    and "0 < vocab"
  using assms catalog_trie_paths [of items]
  by (auto simp: catalog_provider_def mk_mask_provider_def split: if_splits)

section \<open>Masked beam search\<close>

text \<open>Beam search under the masks: the first selection takes tokens of \<open>initial_mask\<close>, every later one
  extends a live beam by a token its row of \<open>step_mask\<close> allows.\<close>

inductive masked_run :: "TrieItemMaskProvider \<Rightarrow> BeamPath \<Rightarrow> bool" where
  masked_start:
    "entries path = [] \<Longrightarrow> path_append path parents tokens scs = Inr path' \<Longrightarrow>
     \<forall>t \<in> set tokens. 0 \<le> t \<and> t < vocab_size p \<and> initial_mask p ! nat t \<Longrightarrow>
     masked_run p path'"
| masked_step:
    "masked_run p path \<Longrightarrow> step_mask p path [1, active_beam_width path, vocab_size p] = Inr rows \<Longrightarrow>
     path_append path parents tokens scs = Inr path' \<Longrightarrow>
     \<forall>(b, t) \<in> set (zip parents tokens). 0 \<le> t \<and> t < vocab_size p \<and> rows ! nat b ! nat t \<Longrightarrow>
     masked_run p path'"

lemma mask_row_nth:
  "0 \<le> t \<Longrightarrow> t < vocab_size p \<Longrightarrow> mask_row p ts ! nat t \<longleftrightarrow> t \<in> allowed_next p ts"
  by (simp add: mask_row_def)

lemma step_mask_rows:
  assumes "wf_path path" and "entries path \<noteq> []"
  shows "step_mask p path [1, active_beam_width path, v] = Inr (map (mask_row p) (hyps (entries path)))"
proof -
  let ?w = "active_beam_width path"
  have len: "int (length (hyps (entries path))) = ?w"
    using assms(1) length_hyps by (auto simp: wf_path_def active_beam_width_last)
  have "map_res (\<lambda>beam. bind_res (token_trace path beam None) (\<lambda>pfx. Inr (mask_row p pfx))) (py_range ?w)
     = Inr (map (\<lambda>b. mask_row p (hyps (entries path) ! nat b)) (py_range ?w))"
    by (rule map_res_total) (simp add: token_trace_hyps assms)
  moreover have "map (\<lambda>b. mask_row p (hyps (entries path) ! nat b)) (py_range ?w)
     = map (mask_row p) (hyps (entries path))"
    using len by (intro nth_equalityI) auto
  ultimately show ?thesis using assms(2) by (simp add: step_mask_def steps_done_def)
qed

lemma masked_run_confined:
  "masked_run p path \<Longrightarrow> wf_path path \<and> entries path \<noteq> [] \<and> (\<forall>h \<in> set (hyps (entries path)). confined (allowed_next p) h)"
proof (induction rule: masked_run.induct)
  case (masked_start path parents tokens scs path' p)
  have wf0: "wf_path path" using masked_start(1) by (simp add: wf_path_def steps_done_def)
  have wf: "wf_path path'" using path_append_wf [OF wf0 masked_start(2)] .
  have e: "entries path' = [\<lparr>parent_beams = parents, token_ids = tokens, scores = scs\<rparr>]"
    and par: "\<forall>q \<in> set parents. q = 0"
    using masked_start(1,2) by (auto simp: path_append_Inr active_beam_width_def)
  have hy: "hyps (entries path') = map2 (\<lambda>q t. [[]] ! nat q @ [t]) parents tokens"
    using e by (simp add: hyps_def extend_hyps_def)
  have "[[]] ! nat q @ [t] = [t]" if "(q, t) \<in> set (zip parents tokens)" for q t
    using bspec [OF par set_zip_leftD [OF that]] by simp
  then have "h \<in> set (hyps (entries path')) \<Longrightarrow> \<exists>t \<in> set tokens. h = [t]" for h
    unfolding hy by (auto dest: set_zip_rightD)
  then have "\<forall>h \<in> set (hyps (entries path')). confined (allowed_next p) h"
    using masked_start(3) by (fastforce simp: confined_def initial_mask_def mask_row_nth)
  then show ?case using wf e by simp
next
  case (masked_step p path rows parents tokens scs path')
  then have IH: "wf_path path" "entries path \<noteq> []"
    "\<forall>h \<in> set (hyps (entries path)). confined (allowed_next p) h" by auto
  have rows: "rows = map (mask_row p) (hyps (entries path))"
    using masked_step(2) step_mask_rows [OF IH(1,2)] by simp
  have len: "int (length (hyps (entries path))) = active_beam_width path"
    using IH(1) length_hyps by (auto simp: wf_path_def active_beam_width_last)
  have par: "\<forall>q \<in> set parents. 0 \<le> q \<and> q < int (length (hyps (entries path)))"
    and e: "entries path' = entries path @ [\<lparr>parent_beams = parents, token_ids = tokens, scores = scs\<rparr>]"
    using masked_step(3) len by (auto simp: path_append_Inr)
  have "confined (allowed_next p) (hyps (entries path) ! nat b @ [t])" if "(b, t) \<in> set (zip parents tokens)" for b t
  proof -
    have b: "nat b < length (hyps (entries path))" using par set_zip_leftD [OF that] by auto
    then have "t \<in> allowed_next p (hyps (entries path) ! nat b)"
      using masked_step(4) that rows by (fastforce simp: mask_row_nth)
    then show ?thesis using IH(3) b by (simp add: confined_snoc)
  qed
  then have "\<forall>h \<in> set (hyps (entries path')). confined (allowed_next p) h"
    unfolding e by (auto simp: hyps_snoc extend_hyps_def)
  then show ?case using path_append_wf [OF IH(1) masked_step(3)] e by simp
qed

section \<open>Accepted catalogs and item resolution\<close>

definition node_ids :: "trie_node \<Rightarrow> int list \<Rightarrow> pyval list" where
  "node_ids t p = (case find_node p t of None \<Rightarrow> [] | Some n \<Rightarrow> node_item_ids n)"

definition add_id :: "pyval \<Rightarrow> pyval list \<Rightarrow> pyval list" where
  "add_id iid ids = (if iid \<noteq> PNone \<and> canon iid \<notin> canon ` set ids then ids @ [iid] else ids)"

lemma node_ids_empty [simp]: "node_ids empty_node q = []"
  by (simp add: node_ids_def) (simp add: empty_node_def)

lemma node_ids_insert: "node_ids (insert_node s iid t) p = (if p = s then add_id iid (node_ids t p) else node_ids t p)"
proof -
  have here: "node_item_ids (insert_node q iid n) = (if q = [] then add_id iid (node_item_ids n) else node_item_ids n)" for q n
    by (cases n; cases q) (auto simp: add_id_def)
  show ?thesis
    by (auto simp: node_ids_def find_insert here empty_node_def prefix_def split: option.splits)
qed

lemma node_ids_fold:
  "node_ids (foldl (\<lambda>u (i, p). insert_node p i u) t xs) q
     = foldl (\<lambda>ids (i, p). if p = q then add_id i ids else ids) (node_ids t q) xs"
  by (induction xs arbitrary: t) (auto simp: node_ids_insert)

lemma fold_add_id:
  assumes "\<forall>(i, p) \<in> set xs. p = q \<longrightarrow> i = PNone \<or> i = v" and "v \<noteq> PNone" and "ids = [] \<or> ids = [v]"
  shows "foldl (\<lambda>ids (i, p). if p = q then add_id i ids else ids) ids xs
     = (if ids = [v] \<or> (v, q) \<in> set xs then [v] else [])"
  using assms
proof (induction xs arbitrary: ids)
  case Nil
  then show ?case by auto
next
  case (Cons a xs)
  obtain i p where a: "a = (i, p)" by (cases a)
  let ?ids = "if p = q then add_id i ids else ids"
  have "?ids = [] \<or> ?ids = [v]" and "?ids = [v] \<longleftrightarrow> ids = [v] \<or> (i, p) = (v, q)"
    using Cons.prems a by (auto simp: add_id_def split: if_splits)
  then show ?case using Cons a by auto
qed

text \<open>Two entries share a path only if the earlier one has a null id.\<close>

abbreviation path_clash_free :: "SemanticItem list \<Rightarrow> bool" where
  "path_clash_free items \<equiv>
     sorted_wrt (\<lambda>a b. item_token_ids a = item_token_ids b \<longrightarrow> item_id a = PNone) items"

lemma seen_path_item_set:
  "seen_path_item (dict_set ts iid paths) us =
     (if us = ts then if iid = PNone then None else Some iid else seen_path_item paths us)"
  by (auto simp: seen_path_item_def dict_lookup split: option.splits pyval.splits)

lemma catalog_loop_ConsE:
  assumes "catalog_loop opts (r # rs) ids paths items = Inr out"
  obtains iid raw ts meta where "coerce_token_ids (opt_vocab_size opts) raw = Inr ts" and "hashable iid"
    and "\<not> allow_duplicate_item_ids opts \<longrightarrow> canon iid \<notin> set ids"
    and "\<not> allow_duplicate_token_paths opts \<longrightarrow> seen_path_item paths ts = None"
    and "catalog_loop opts rs (canon iid # ids) (dict_set ts iid paths)
      (items @ [\<lparr>item_id = iid, item_token_ids = ts, item_metadata = meta\<rparr>]) = Inr out"
  using assms by (auto split: if_splits)

lemma catalog_loop_clash_free:
  assumes "catalog_loop opts rs ids paths items = Inr out" and "\<not> allow_duplicate_token_paths opts"
    and "path_clash_free items"
    and "\<forall>it \<in> set items. item_id it \<noteq> PNone \<longrightarrow> seen_path_item paths (item_token_ids it) \<noteq> None"
  shows "path_clash_free out"
  using assms
proof (induction rs arbitrary: ids paths items)
  case Nil
  then show ?case by simp
next
  case (Cons r rs)
  obtain iid raw ts meta where seen: "seen_path_item paths ts = None"
    and loop: "catalog_loop opts rs (canon iid # ids) (dict_set ts iid paths)
      (items @ [\<lparr>item_id = iid, item_token_ids = ts, item_metadata = meta\<rparr>]) = Inr out"
    using catalog_loop_ConsE [OF Cons.prems(1)] Cons.prems(2) by metis
  have "\<forall>it \<in> set items. item_token_ids it = ts \<longrightarrow> item_id it = PNone"
    using Cons.prems(4) seen by metis
  then show ?case
    using Cons.IH [OF loop Cons.prems(2)] Cons.prems(3,4)
    by (auto simp: sorted_wrt_append seen_path_item_set)
qed

lemma coerce_token_id_range:
  "coerce_token_id v x = Inr t \<Longrightarrow> 0 \<le> t \<and> (case v of None \<Rightarrow> True | Some n \<Rightarrow> t < n)"
  by (auto simp: coerce_token_id_def not_less not_le split: if_splits sum.splits py_exc.splits option.splits)

lemma map_res_all: "map_res f xs = Inr ys \<Longrightarrow> (\<And>x y. f x = Inr y \<Longrightarrow> P y) \<Longrightarrow> \<forall>y \<in> set ys. P y"
  by (induction xs arbitrary: ys) auto

lemma coerce_token_ids_range:
  assumes "coerce_token_ids v x = Inr ts"
  shows "ts \<noteq> [] \<and> (\<forall>t \<in> set ts. 0 \<le> t \<and> (case v of None \<Rightarrow> True | Some n \<Rightarrow> t < n))"
proof -
  have "ts \<noteq> [] \<and> (\<exists>xs. map_res (coerce_token_id v) xs = Inr ts)"
    using assms by (auto simp: coerce_token_ids_def split: pyval.splits if_splits)
  then obtain xs where ne: "ts \<noteq> []" and xs: "map_res (coerce_token_id v) xs = Inr ts" by blast
  show ?thesis
    using map_res_all [OF xs, of "\<lambda>t. 0 \<le> t \<and> (case v of None \<Rightarrow> True | Some n \<Rightarrow> t < n)"] ne
      coerce_token_id_range by blast
qed

lemma catalog_loop_items:
  assumes "catalog_loop opts rs ids paths items = Inr out"
    and "\<forall>it \<in> set items. item_token_ids it \<noteq> []
       \<and> (\<forall>t \<in> set (item_token_ids it). 0 \<le> t \<and> (case opt_vocab_size opts of None \<Rightarrow> True | Some n \<Rightarrow> t < n))"
    and "\<not> allow_duplicate_item_ids opts \<longrightarrow>
       distinct (map (canon \<circ> item_id) items) \<and> (\<forall>it \<in> set items. canon (item_id it) \<in> set ids)"
  shows "(\<forall>it \<in> set out. item_token_ids it \<noteq> []
       \<and> (\<forall>t \<in> set (item_token_ids it). 0 \<le> t \<and> (case opt_vocab_size opts of None \<Rightarrow> True | Some n \<Rightarrow> t < n)))
     \<and> (\<not> allow_duplicate_item_ids opts \<longrightarrow> distinct (map (canon \<circ> item_id) out))"
  using assms
proof (induction rs arbitrary: ids paths items)
  case Nil
  then show ?case by simp
next
  case (Cons r rs)
  obtain iid raw ts meta where ts: "coerce_token_ids (opt_vocab_size opts) raw = Inr ts"
    and new: "\<not> allow_duplicate_item_ids opts \<longrightarrow> canon iid \<notin> set ids"
    and loop: "catalog_loop opts rs (canon iid # ids) (dict_set ts iid paths)
      (items @ [\<lparr>item_id = iid, item_token_ids = ts, item_metadata = meta\<rparr>]) = Inr out"
    using catalog_loop_ConsE [OF Cons.prems(1)] by metis
  show ?case
    using Cons.prems(2,3) new coerce_token_ids_range [OF ts]
    by (intro Cons.IH [OF loop]) auto
qed

lemma from_records_items:
  assumes "from_records opts records = Inr items"
  shows "items \<noteq> []"
    and "\<forall>it \<in> set items. item_token_ids it \<noteq> []
       \<and> (\<forall>t \<in> set (item_token_ids it). 0 \<le> t \<and> (case opt_vocab_size opts of None \<Rightarrow> True | Some n \<Rightarrow> t < n))"
    and "\<not> allow_duplicate_item_ids opts \<Longrightarrow> distinct (map (canon \<circ> item_id) items)"
    and "\<not> allow_duplicate_token_paths opts \<Longrightarrow> path_clash_free items"
proof -
  have loop: "catalog_loop opts records [] [] [] = Inr items" and ne: "items \<noteq> []"
    using assms by (auto simp: from_records_def split: if_splits)
  show "items \<noteq> []" by (rule ne)
  note items = catalog_loop_items [OF loop, simplified]
  show "\<forall>it \<in> set items. item_token_ids it \<noteq> []
       \<and> (\<forall>t \<in> set (item_token_ids it). 0 \<le> t \<and> (case opt_vocab_size opts of None \<Rightarrow> True | Some n \<Rightarrow> t < n))"
    using items by blast
  show "\<not> allow_duplicate_item_ids opts \<Longrightarrow> distinct (map (canon \<circ> item_id) items)"
    using items by (simp add: o_def)
  show "\<not> allow_duplicate_token_paths opts \<Longrightarrow> path_clash_free items"
    using catalog_loop_clash_free [OF loop] by simp
qed

lemma clash_free_same_path:
  assumes "path_clash_free items" and "it \<in> set items" and "it' \<in> set items" and "item_id it \<noteq> PNone"
    and "item_token_ids it' = item_token_ids it"
  shows "item_id it' = PNone \<or> item_id it' = item_id it"
proof -
  obtain i j where i: "i < length items" "it = items ! i" and j: "j < length items" "it' = items ! j"
    using assms(2,3) by (metis in_set_conv_nth)
  consider "i = j" | "i < j" | "j < i" by linarith
  then show ?thesis
    using assms(1,4,5) i j by cases (auto dest: sorted_wrt_nth_less)
qed

section \<open>Properties\<close>

definition ex_opts :: catalog_options where
  "ex_opts = \<lparr>item_id_field = ''item_id'', token_ids_field = ''token_ids'', metadata_field = Some ''metadata'',
     opt_vocab_size = Some 10, allow_duplicate_item_ids = False, allow_duplicate_token_paths = False\<rparr>"

definition ex_records :: "json_record list" where
  "ex_records = [[(''item_id'', PStr ''a''), (''token_ids'', PList [PInt 1, PInt 2])],
                 [(''item_id'', PInt 7), (''token_ids'', PList [PInt 1, PStr ''3''])]]"

definition ex_items :: "SemanticItem list" where
  "ex_items = [\<lparr>item_id = PStr ''a'', item_token_ids = [1, 2], item_metadata = []\<rparr>,
               \<lparr>item_id = PInt 7, item_token_ids = [1, 3], item_metadata = []\<rparr>]"

definition ex_provider :: TrieItemMaskProvider where
  "ex_provider = \<lparr>trie = TrieNode [(1, TrieNode [(2, TrieNode [] True [PStr ''a'']), (3, TrieNode [] True [PInt 7])] False [])] False [],
     vocab_size = 10, eos_token_id = Some 9, allow_eos_for_terminal = True\<rparr>"

lemma ex_catalog:
  "from_records ex_opts ex_records = Inr ex_items" "catalog_provider ex_items 10 (Some 9) True = Inr ex_provider"
  by code_simp+

definition ex_run :: "int list \<Rightarrow> int list \<Rightarrow> BeamPath" where
  "ex_run ps ts = \<lparr>max_decode_steps = 3, path_beam_width = 2, entries =
     [\<lparr>parent_beams = [0], token_ids = [1], scores = [Fin 0]\<rparr>,
      \<lparr>parent_beams = ps, token_ids = ts, scores = [Fin 0, Fin 0]\<rparr>]\<rparr>"

lemma ex_masked_run: "masked_run ex_provider (ex_run [0, 0] [3, 2])"
proof -
  let ?p0 = "\<lparr>max_decode_steps = 3, path_beam_width = 2, entries = []\<rparr>"
  let ?p1 = "\<lparr>max_decode_steps = 3, path_beam_width = 2, entries =
     [\<lparr>parent_beams = [0], token_ids = [1], scores = [Fin 0]\<rparr>]\<rparr>"
  have a1: "path_append ?p0 [0] [1] [Fin 0] = Inr ?p1"
    and a2: "path_append ?p1 [0, 0] [3, 2] [Fin 0, Fin 0] = Inr (ex_run [0, 0] [3, 2])" by code_simp+
  have m1: "\<forall>t \<in> set [1]. 0 \<le> t \<and> t < vocab_size ex_provider \<and> initial_mask ex_provider ! nat t" by code_simp
  let ?rows = "[mask_row ex_provider [1]]"
  have m2: "step_mask ex_provider ?p1 [1, active_beam_width ?p1, vocab_size ex_provider] = Inr ?rows" by code_simp
  have m3: "\<forall>(b, t) \<in> set (zip [0, 0] [3, 2]). 0 \<le> t \<and> t < vocab_size ex_provider \<and> ?rows ! nat b ! nat t"
    by code_simp
  have "masked_run ex_provider ?p1" by (rule masked_start [OF _ a1 m1]) simp
  from masked_step [OF this m2 a2 m3] show ?thesis .
qed

text \<open>Every live beam of a masked run spells a prefix of a catalog path.\<close>

lemma masked_run_spells:
  assumes "catalog_provider items vocab eos allow = Inr p" and "eos_free p (item_token_ids ` set items)"
    and "masked_run p path" and "0 \<le> b" and "b < active_beam_width path" and "items \<noteq> []"
  shows "\<exists>ts. token_trace path b None = Inr ts
    \<and> (\<exists>it \<in> set items. prefix (semantic_prefix p ts) (item_token_ids it))
    \<and> (has_eos p ts \<longrightarrow> (\<exists>it \<in> set items. semantic_prefix p ts = item_token_ids it))"
proof -
  note cat = catalog_provider_fields [OF assms(1)]
  note run = masked_run_confined [OF assms(3)]
  let ?h = "hyps (entries path) ! nat b"
  have tr: "token_trace path b None = Inr ?h" using token_trace_hyps run assms(4,5) by blast
  have "nat b < length (hyps (entries path))"
    using run assms(4,5) length_hyps by (fastforce simp: wf_path_def active_beam_width_last)
  then have conf: "confined (allowed_next p) ?h" using run by simp
  note sem = confined_semantic_prefix [OF cat(1) assms(2) [folded cat(2)] conf]
  have "\<exists>it \<in> set items. prefix (semantic_prefix p ?h) (item_token_ids it)"
  proof (cases "semantic_prefix p ?h = []")
    case True
    then show ?thesis using assms(6) by (auto simp: neq_Nil_conv)
  next
    case False
    then obtain q where "semantic_prefix p ?h @ q \<in> item_token_ids ` set items"
      using item_trie.confined_extends [OF cat(1)] sem cat(2) by blast
    then show ?thesis by (metis imageE prefixI)
  qed
  moreover have "has_eos p ?h \<Longrightarrow> \<exists>it \<in> set items. semantic_prefix p ?h = item_token_ids it"
    using sem item_trie.complete_iff [OF cat(1)] cat(2) by (auto simp: is_complete_def)
  ultimately show ?thesis using tr by blast
qed





text \<open>a hot swap can be undone: \<open>rollback\<close> after \<open>swap\<close> serves the provider and the metadata from
  before the swap, under a version later than both, and a second rollback serves the swapped-in
  provider again; versions never go back and are never reused.\<close>

theorem rollback_undoes_swap:
  "case store_swap p m op s of (s1, v1) \<Rightarrow>
     (case store_rollback s1 of (s2, r2) \<Rightarrow>
        store_provider s2 = store_provider s \<and> store_metadata s2 = store_metadata s
        \<and> r2 = Inr (store_version s + 2) \<and> store_version s2 = store_version s + 2 \<and> v1 = store_version s + 1
        \<and> store_provider (fst (store_rollback s2)) = p \<and> store_metadata (fst (store_rollback s2)) = m
        \<and> store_version (fst (store_rollback s2)) = store_version s + 3)"
  by (simp add: store_swap_def store_rollback_def record_reload_event_def Let_def)

text \<open>C32: a catalog reload is all or nothing: if reading, parsing, validating or indexing the new
  catalog raises, the store keeps serving the old provider under the old version and only the
  bounded reload history grows; otherwise the new provider is served under the next version and it
  accepts exactly the paths of the file's records.\<close>

theorem reload_all_or_nothing:
  assumes "store_reload_jsonl json_loads file opts path vocab eos allow s = (s', r)"
    and "0 < max_reload_history s"
  shows "int (length (reload_history s')) \<le> max_reload_history s \<and>
    (case r of
       Inl e \<Rightarrow> store_provider s' = store_provider s \<and> store_version s' = store_version s
         \<and> store_metadata s' = store_metadata s \<and> previous_provider s' = previous_provider s
     | Inr v \<Rightarrow> v = store_version s + 1 \<and> store_version s' = v
         \<and> previous_provider s' = Some (store_provider s)
         \<and> (\<exists>lines items. file = Inr lines
              \<and> from_jsonl json_loads (opts\<lparr>opt_vocab_size := Some vocab\<rparr>) lines = Inr items
              \<and> trie_paths (trie (store_provider s')) = item_token_ids ` set items))"
proof -
  let ?r = "bind_res file (\<lambda>lines. bind_res (from_jsonl json_loads (opts\<lparr>opt_vocab_size := Some vocab\<rparr>) lines)
             (\<lambda>items. bind_res (catalog_provider items vocab eos allow) (\<lambda>p. Inr (items, p))))"
  show ?thesis
  proof (cases ?r)
    case (Inl e)
    then show ?thesis
      using assms trim_history_length [OF assms(2)]
      by (auto simp: store_reload_jsonl_def record_reload_event_def)
  next
    case (Inr ip)
    obtain items p where ip: "ip = (items, p)" by (cases ip)
    with Inr have "catalog_provider items vocab eos allow = Inr p" by auto
    then show ?thesis
      using Inr ip assms trim_history_length [OF assms(2)] catalog_provider_fields(2)
      by (auto simp: store_reload_jsonl_def store_swap_def record_reload_event_def Let_def)
  qed
qed

definition ex_store :: ProviderStore where
  "ex_store = mk_store ex_provider 1 [] 16"

theorem reload_all_or_nothing_witness:
  "store_version (fst (store_reload_jsonl (\<lambda>l. if l = ''x'' then Some (PDict (ex_records ! 0)) else None)
     (Inr ['' x '', '' '']) ex_opts ''cat'' 10 None True ex_store)) = 2
   \<and> store_provider (fst (store_reload_jsonl (\<lambda>l. None) (Inr [''y'']) ex_opts ''cat'' 10 None True ex_store)) = ex_provider"
proof -
  let ?a = "store_reload_jsonl (\<lambda>l. if l = ''x'' then Some (PDict (ex_records ! 0)) else None)
     (Inr ['' x '', '' '']) ex_opts ''cat'' 10 None True ex_store"
  let ?b = "store_reload_jsonl (\<lambda>l. None) (Inr [''y'']) ex_opts ''cat'' 10 None True ex_store"
  have h: "0 < max_reload_history ex_store" and v: "store_version ex_store + 1 = 2"
    and pr: "store_provider ex_store = ex_provider" by (simp_all add: ex_store_def mk_store_def)
  have ok: "is_ok (snd ?a)" "\<not> is_ok (snd ?b)" by code_simp+
  have "store_version (fst ?a) = store_version ex_store + 1"
    using reload_all_or_nothing [OF prod.collapse [symmetric] h] ok(1)
    by (fastforce simp: is_ok_iff split: sum.splits)
  moreover have "store_provider (fst ?b) = store_provider ex_store"
    using reload_all_or_nothing [OF prod.collapse [symmetric] h, of "\<lambda>l. None" "Inr [''y'']" ex_opts "''cat''" 10 None True] ok(2)
    by (auto simp: is_ok_iff split: sum.splits)
  ultimately show ?thesis using v pr by simp
qed

end
