(* ===== verification/GR_Memory.thy ===== *)
theory GR_Memory
  imports GR_Prelude "HOL-Library.List_Lexorder" "HOL-Library.Char_ord"
begin

text \<open>
  KV ownership, \<open>gr_serving/memory.py\<close>: the byte estimate, the metadata-only lease allocator, its
  paged subclass, and the dispatch between the two. The paged allocator extends the record of the
  lease allocator as its class extends the base class, so the \<open>super()\<close> calls are the base functions on
  the extended record. The locale \<open>lease_allocator\<close> is what a scheduler relies on; both allocators
  and their dispatch are instances.
\<close>

section \<open>Arithmetic and free runs\<close>

definition ceil_div :: "int \<Rightarrow> int \<Rightarrow> int" where
  "ceil_div value divisor = (if value \<le> 0 then 0 else (value + divisor - 1) div divisor)"

fun validate_positive_optional_limits :: "(string \<times> int option) list \<Rightarrow> unit py_result" where
  "validate_positive_optional_limits [] = Inr ()"
| "validate_positive_optional_limits ((name, v) # rest) =
     (case v of
        Some n \<Rightarrow> if n \<le> 0 then Inl (ValueError (name @ '' must be positive when set''))
                  else validate_positive_optional_limits rest
      | None \<Rightarrow> validate_positive_optional_limits rest)"

definition remaining_capacity :: "int option \<Rightarrow> int \<Rightarrow> int option" where
  "remaining_capacity capacity used = map_option (\<lambda>c. max 0 (c - used)) capacity"

definition utilization :: "int \<Rightarrow> int option \<Rightarrow> rat option" where
  "utilization used capacity =
     (case capacity of
        None \<Rightarrow> None
      | Some c \<Rightarrow> if c \<le> 0 then None else Some (of_int used / of_int c))"

definition ratio_of :: "int \<Rightarrow> int \<Rightarrow> rat option" where
  "ratio_of numerator denominator =
     (if denominator \<le> 0 then None else Some (of_int numerator / of_int denominator))"

fun free_runs_loop :: "int \<Rightarrow> int \<Rightarrow> int list \<Rightarrow> (int \<times> int) list" where
  "free_runs_loop start previous [] = [(start, previous)]"
| "free_runs_loop start previous (v # vs) =
     (if v = previous + 1 then free_runs_loop start v vs
      else (start, previous) # free_runs_loop v v vs)"

definition free_runs :: "int list \<Rightarrow> (int \<times> int) list" where
  "free_runs values =
     (case sort values of [] \<Rightarrow> [] | v # vs \<Rightarrow> free_runs_loop v v vs)"

definition largest_free_run :: "int list \<Rightarrow> int" where
  "largest_free_run values =
     (let runs = free_runs values
      in if runs = [] then 0 else Max (set (map (\<lambda>(s, e). e - s + 1) runs)))"

fun first_run_of :: "(int \<times> int) list \<Rightarrow> int \<Rightarrow> int option" where
  "first_run_of [] len = None"
| "first_run_of ((s, e) # rs) len = (if e - s + 1 \<ge> len then Some s else first_run_of rs len)"

definition first_free_run :: "int list \<Rightarrow> int \<Rightarrow> int option" where
  "first_free_run values len = first_run_of (free_runs values) len"

section \<open>Memory estimate\<close>

record GRKVMemoryEstimate =
  est_batch_size :: int
  est_num_layers :: int
  est_context_len :: int
  est_max_decode_steps :: int
  est_max_beam_width :: int
  est_num_kv_heads :: int
  est_head_dim :: int
  est_bytes_per_element :: int
  est_vocab_size :: "int option"
  est_active_beam_width :: int
  context_kv_bytes :: int
  beam_kv_bytes :: int
  dense_per_beam_context_kv_bytes :: int
  logits_workspace_bytes :: int
  topk_scores_workspace_bytes :: int

definition total_kv_bytes :: "GRKVMemoryEstimate \<Rightarrow> int" where
  "total_kv_bytes e = context_kv_bytes e + beam_kv_bytes e"

definition total_with_workspace_bytes :: "GRKVMemoryEstimate \<Rightarrow> int" where
  "total_with_workspace_bytes e =
     total_kv_bytes e + logits_workspace_bytes e + topk_scores_workspace_bytes e"

definition context_kv_sharing_savings_bytes :: "GRKVMemoryEstimate \<Rightarrow> int" where
  "context_kv_sharing_savings_bytes e =
     max 0 (dense_per_beam_context_kv_bytes e - context_kv_bytes e)"

fun check_positive :: "(string \<times> int) list \<Rightarrow> unit py_result" where
  "check_positive [] = Inr ()"
| "check_positive ((name, v) # rest) =
     (if v \<le> 0 then Inl (ValueError (name @ '' must be positive'')) else check_positive rest)"

definition estimate_gr_kv_memory ::
  "int \<Rightarrow> int \<Rightarrow> int \<Rightarrow> int \<Rightarrow> int \<Rightarrow> int \<Rightarrow> int \<Rightarrow> int \<Rightarrow> int option \<Rightarrow> int option
   \<Rightarrow> GRKVMemoryEstimate py_result" where
  "estimate_gr_kv_memory bs layers ctx steps width heads hdim bpe vocab active =
     bind_res (check_positive [(''batch_size'', bs), (''num_layers'', layers), (''context_len'', ctx),
         (''max_decode_steps'', steps), (''max_beam_width'', width), (''num_kv_heads'', heads),
         (''head_dim'', hdim), (''bytes_per_element'', bpe)]) (\<lambda>_.
       if (case vocab of None \<Rightarrow> False | Some v \<Rightarrow> v \<le> 0)
       then Inl (ValueError ''vocab_size must be positive when provided'')
       else
         let a = (case active of None \<Rightarrow> width | Some a \<Rightarrow> a)
         in if a \<le> 0 \<or> a > width
            then Inl (ValueError ''active_beam_width must be in (0, max_beam_width]'')
            else
              let unit_bytes = 2 * layers * heads * hdim * bpe
              in Inr \<lparr>est_batch_size = bs, est_num_layers = layers, est_context_len = ctx,
                      est_max_decode_steps = steps, est_max_beam_width = width,
                      est_num_kv_heads = heads, est_head_dim = hdim, est_bytes_per_element = bpe,
                      est_vocab_size = vocab, est_active_beam_width = a,
                      context_kv_bytes = bs * ctx * unit_bytes,
                      beam_kv_bytes = bs * steps * width * unit_bytes,
                      dense_per_beam_context_kv_bytes = bs * ctx * width * unit_bytes,
                      logits_workspace_bytes = (case vocab of None \<Rightarrow> 0 | Some v \<Rightarrow> bs * a * v * 4),
                      topk_scores_workspace_bytes = (case vocab of None \<Rightarrow> 0 | Some _ \<Rightarrow> bs * a * 4)\<rparr>)"

section \<open>Lease allocator\<close>

record GRKVLease =
  lease_request_id :: string
  lease_context_tokens :: int
  lease_beam_slots :: int
  lease_context_pages :: "int list"
  lease_beam_pages :: "int list"
  lease_context_page_size :: "int option"
  lease_beam_page_size :: "int option"

definition lease_metadata :: "GRKVLease \<Rightarrow> (string, pyval) dict" where
  "lease_metadata l =
     [(''request_id'', PStr (lease_request_id l)), (''context_tokens'', PInt (lease_context_tokens l)),
      (''beam_slots'', PInt (lease_beam_slots l))]
     @ (if lease_context_pages l = [] then [] else
        [(''context_pages'', PList (map PInt (lease_context_pages l))),
         (''context_page_size'', case lease_context_page_size l of None \<Rightarrow> PNone | Some n \<Rightarrow> PInt n),
         (''context_capacity_tokens'', PInt (int (length (lease_context_pages l))
            * (case lease_context_page_size l of None \<Rightarrow> 0 | Some n \<Rightarrow> n)))])
     @ (if lease_beam_pages l = [] then [] else
        [(''beam_pages'', PList (map PInt (lease_beam_pages l))),
         (''beam_page_size'', case lease_beam_page_size l of None \<Rightarrow> PNone | Some n \<Rightarrow> PInt n),
         (''beam_capacity_slots'', PInt (int (length (lease_beam_pages l))
            * (case lease_beam_page_size l of None \<Rightarrow> 0 | Some n \<Rightarrow> n)))])"

record GRKVLeaseAllocator =
  max_running_requests :: "int option"
  max_context_tokens :: "int option"
  max_beam_slots :: "int option"
  leases :: "(string, GRKVLease) dict"

definition lease_validate :: "'a GRKVLeaseAllocator_scheme \<Rightarrow> unit py_result" where
  "lease_validate a = validate_positive_optional_limits
     [(''max_running_requests'', max_running_requests a), (''max_context_tokens'', max_context_tokens a),
      (''max_beam_slots'', max_beam_slots a)]"

definition mk_lease_allocator ::
  "int option \<Rightarrow> int option \<Rightarrow> int option \<Rightarrow> GRKVLeaseAllocator py_result" where
  "mk_lease_allocator running ctx beams =
     (let a = \<lparr>max_running_requests = running, max_context_tokens = ctx, max_beam_slots = beams, leases = []\<rparr>
      in bind_res (lease_validate a) (\<lambda>_. Inr a))"

definition used_running :: "'a GRKVLeaseAllocator_scheme \<Rightarrow> int" where
  "used_running a = int (length (leases a))"

definition used_context_tokens :: "'a GRKVLeaseAllocator_scheme \<Rightarrow> int" where
  "used_context_tokens a = dict_sum lease_context_tokens (leases a)"

definition used_beam_slots :: "'a GRKVLeaseAllocator_scheme \<Rightarrow> int" where
  "used_beam_slots a = dict_sum lease_beam_slots (leases a)"

definition within_limit :: "int option \<Rightarrow> int \<Rightarrow> bool" where
  "within_limit limit n = (case limit of None \<Rightarrow> True | Some m \<Rightarrow> n \<le> m)"

definition lease_can_allocate ::
  "string \<Rightarrow> int \<Rightarrow> int \<Rightarrow> 'a GRKVLeaseAllocator_scheme \<Rightarrow> bool py_result" where
  "lease_can_allocate rid ctx beams a =
     bind_res (lease_validate a) (\<lambda>_. Inr (
       if rid \<in> set (dict_keys (leases a)) then True
       else if \<not> within_limit (max_running_requests a) (used_running a + 1) then False
       else if \<not> within_limit (max_context_tokens a) (used_context_tokens a + ctx) then False
       else if \<not> within_limit (max_beam_slots a) (used_beam_slots a + beams) then False
       else True))"

definition lease_allocate ::
  "string \<Rightarrow> int \<Rightarrow> int \<Rightarrow> GRKVLeaseAllocator \<Rightarrow> (GRKVLease \<times> GRKVLeaseAllocator) py_result" where
  "lease_allocate rid ctx beams a =
     (if rid \<in> set (dict_keys (leases a)) then Inl (ValueError ''request already has a KV lease'')
      else bind_res (lease_can_allocate rid ctx beams a) (\<lambda>ok.
        if \<not> ok then Inl (MemoryError ''insufficient KV capacity for request'')
        else
          let l = \<lparr>lease_request_id = rid, lease_context_tokens = ctx, lease_beam_slots = beams,
                   lease_context_pages = [], lease_beam_pages = [],
                   lease_context_page_size = None, lease_beam_page_size = None\<rparr>
          in Inr (l, a\<lparr>leases := dict_set rid l (leases a)\<rparr>)))"

definition lease_release ::
  "string \<Rightarrow> GRKVLeaseAllocator \<Rightarrow> GRKVLease option \<times> GRKVLeaseAllocator" where
  "lease_release rid a = (map_of (leases a) rid, a\<lparr>leases := dict_pop rid (leases a)\<rparr>)"

definition opt_int :: "int option \<Rightarrow> pyval" where
  "opt_int v = (case v of None \<Rightarrow> PNone | Some n \<Rightarrow> PInt n)"

definition opt_ratio :: "rat option \<Rightarrow> pyval" where
  "opt_ratio v = (case v of None \<Rightarrow> PNone | Some q \<Rightarrow> PFloat (Fin q))"

definition lease_usage :: "'a GRKVLeaseAllocator_scheme \<Rightarrow> (string, int) dict" where
  "lease_usage a = [(''running_requests'', used_running a), (''context_tokens'', used_context_tokens a),
     (''beam_slots'', used_beam_slots a)]"

definition lease_status :: "'a GRKVLeaseAllocator_scheme \<Rightarrow> (string, pyval) dict" where
  "lease_status a =
     [(''running_requests'', PInt (used_running a)),
      (''context_tokens'', PInt (used_context_tokens a)),
      (''beam_slots'', PInt (used_beam_slots a)),
      (''max_running_requests'', opt_int (max_running_requests a)),
      (''max_context_tokens'', opt_int (max_context_tokens a)),
      (''max_beam_slots'', opt_int (max_beam_slots a)),
      (''available_running_requests'', opt_int (remaining_capacity (max_running_requests a) (used_running a))),
      (''available_context_tokens'', opt_int (remaining_capacity (max_context_tokens a) (used_context_tokens a))),
      (''available_beam_slots'', opt_int (remaining_capacity (max_beam_slots a) (used_beam_slots a))),
      (''running_request_utilization'', opt_ratio (utilization (used_running a) (max_running_requests a))),
      (''context_token_utilization'', opt_ratio (utilization (used_context_tokens a) (max_context_tokens a))),
      (''beam_slot_utilization'', opt_ratio (utilization (used_beam_slots a) (max_beam_slots a))),
      (''lease_request_ids'', PList (map PStr (sort (dict_keys (leases a)))))]"

section \<open>Paged allocator\<close>

record GRPagedKVLeaseAllocator = GRKVLeaseAllocator +
  context_page_size :: int
  beam_page_size :: int
  max_context_pages :: "int option"
  max_beam_pages :: "int option"
  free_context_pages :: "int list"
  free_beam_pages :: "int list"
  max_used_context_pages :: int
  max_used_beam_pages :: int

definition initial_free :: "int option \<Rightarrow> int list" where
  "initial_free limit = (case limit of None \<Rightarrow> [] | Some n \<Rightarrow> py_range n)"

definition mk_paged_allocator ::
  "int option \<Rightarrow> int option \<Rightarrow> int option \<Rightarrow> int \<Rightarrow> int \<Rightarrow> int option \<Rightarrow> int option
   \<Rightarrow> GRPagedKVLeaseAllocator py_result" where
  "mk_paged_allocator running ctx beams cps bps mcp mbp =
     (let a = \<lparr>max_running_requests = running, max_context_tokens = ctx, max_beam_slots = beams, leases = [],
               context_page_size = cps, beam_page_size = bps, max_context_pages = mcp, max_beam_pages = mbp,
               free_context_pages = initial_free mcp, free_beam_pages = initial_free mbp,
               max_used_context_pages = 0, max_used_beam_pages = 0\<rparr>
      in bind_res (lease_validate a) (\<lambda>_.
         bind_res (check_positive [(''context_page_size'', cps), (''beam_page_size'', bps)]) (\<lambda>_.
         bind_res (validate_positive_optional_limits [(''max_context_pages'', mcp), (''max_beam_pages'', mbp)])
           (\<lambda>_. Inr a))))"

definition context_pages_needed :: "GRPagedKVLeaseAllocator \<Rightarrow> int \<Rightarrow> int" where
  "context_pages_needed a ctx = ceil_div ctx (context_page_size a)"

definition beam_pages_needed :: "GRPagedKVLeaseAllocator \<Rightarrow> int \<Rightarrow> int" where
  "beam_pages_needed a beams = ceil_div beams (beam_page_size a)"

definition take_pages :: "int list \<Rightarrow> int \<Rightarrow> int list \<times> int list" where
  "take_pages free n = (py_take n free, py_drop n free)"

definition used_context_pages :: "'a GRKVLeaseAllocator_scheme \<Rightarrow> int" where
  "used_context_pages a = dict_sum (\<lambda>l. int (length (lease_context_pages l))) (leases a)"

definition used_beam_pages :: "'a GRKVLeaseAllocator_scheme \<Rightarrow> int" where
  "used_beam_pages a = dict_sum (\<lambda>l. int (length (lease_beam_pages l))) (leases a)"

definition paged_can_allocate ::
  "string \<Rightarrow> int \<Rightarrow> int \<Rightarrow> GRPagedKVLeaseAllocator \<Rightarrow> bool py_result" where
  "paged_can_allocate rid ctx beams a =
     bind_res (lease_can_allocate rid ctx beams a) (\<lambda>ok. Inr (
       if \<not> ok then False
       else if rid \<in> set (dict_keys (leases a)) then True
       else context_pages_needed a ctx \<le> int (length (free_context_pages a))
            \<and> beam_pages_needed a beams \<le> int (length (free_beam_pages a))))"

definition paged_allocate ::
  "string \<Rightarrow> int \<Rightarrow> int \<Rightarrow> GRPagedKVLeaseAllocator
   \<Rightarrow> (GRKVLease \<times> GRPagedKVLeaseAllocator) py_result" where
  "paged_allocate rid ctx beams a =
     (if rid \<in> set (dict_keys (leases a)) then Inl (ValueError ''request already has a KV lease'')
      else bind_res (paged_can_allocate rid ctx beams a) (\<lambda>ok.
        if \<not> ok then Inl (MemoryError ''insufficient KV capacity for request'')
        else
          let (cpages, cfree) = take_pages (free_context_pages a) (context_pages_needed a ctx);
              (bpages, bfree) = take_pages (free_beam_pages a) (beam_pages_needed a beams);
              l = \<lparr>lease_request_id = rid, lease_context_tokens = ctx, lease_beam_slots = beams,
                   lease_context_pages = cpages, lease_beam_pages = bpages,
                   lease_context_page_size = Some (context_page_size a),
                   lease_beam_page_size = Some (beam_page_size a)\<rparr>;
              a1 = a\<lparr>free_context_pages := cfree, free_beam_pages := bfree, leases := dict_set rid l (leases a)\<rparr>
          in Inr (l, a1\<lparr>max_used_context_pages := max (max_used_context_pages a) (used_context_pages a1),
                        max_used_beam_pages := max (max_used_beam_pages a) (used_beam_pages a1)\<rparr>)))"

definition paged_release ::
  "string \<Rightarrow> GRPagedKVLeaseAllocator \<Rightarrow> GRKVLease option \<times> GRPagedKVLeaseAllocator" where
  "paged_release rid a =
     (case map_of (leases a) rid of
        None \<Rightarrow> (None, a)
      | Some l \<Rightarrow> (Some l, a\<lparr>leases := dict_pop rid (leases a),
                    free_context_pages := sort (free_context_pages a @ lease_context_pages l),
                    free_beam_pages := sort (free_beam_pages a @ lease_beam_pages l)\<rparr>))"

definition run_list :: "(int \<times> int) list \<Rightarrow> pyval" where
  "run_list rs = PList (map (\<lambda>(s, e). PList [PInt s, PInt e]) rs)"

definition paged_usage :: "GRPagedKVLeaseAllocator \<Rightarrow> (string, int) dict" where
  "paged_usage a = lease_usage a @
     [(''context_pages'', used_context_pages a), (''beam_pages'', used_beam_pages a)]"

definition paged_status :: "GRPagedKVLeaseAllocator \<Rightarrow> (string, pyval) dict" where
  "paged_status a = lease_status a @
     [(''context_page_size'', PInt (context_page_size a)),
      (''beam_page_size'', PInt (beam_page_size a)),
      (''max_context_pages'', opt_int (max_context_pages a)),
      (''max_beam_pages'', opt_int (max_beam_pages a)),
      (''max_used_context_pages'', PInt (max_used_context_pages a)),
      (''max_used_beam_pages'', PInt (max_used_beam_pages a)),
      (''free_context_pages'', PInt (int (length (free_context_pages a)))),
      (''free_beam_pages'', PInt (int (length (free_beam_pages a)))),
      (''available_context_pages'', PInt (int (length (free_context_pages a)))),
      (''available_beam_pages'', PInt (int (length (free_beam_pages a)))),
      (''context_page_capacity_tokens'', PInt (used_context_pages a * context_page_size a)),
      (''beam_page_capacity_slots'', PInt (used_beam_pages a * beam_page_size a)),
      (''context_internal_fragmentation_tokens'',
         PInt (max 0 (used_context_pages a * context_page_size a - used_context_tokens a))),
      (''beam_internal_fragmentation_slots'',
         PInt (max 0 (used_beam_pages a * beam_page_size a - used_beam_slots a))),
      (''context_free_page_runs'', run_list (free_runs (free_context_pages a))),
      (''beam_free_page_runs'', run_list (free_runs (free_beam_pages a))),
      (''largest_free_context_page_run'', PInt (largest_free_run (free_context_pages a))),
      (''largest_free_beam_page_run'', PInt (largest_free_run (free_beam_pages a))),
      (''context_page_utilization'', opt_ratio (utilization (used_context_pages a) (max_context_pages a))),
      (''beam_page_utilization'', opt_ratio (utilization (used_beam_pages a) (max_beam_pages a)))]"

section \<open>The allocator a scheduler holds\<close>

datatype kv_allocator =
    LeaseAllocator GRKVLeaseAllocator
  | PagedAllocator GRPagedKVLeaseAllocator

fun kv_leases :: "kv_allocator \<Rightarrow> (string, GRKVLease) dict" where
  "kv_leases (LeaseAllocator a) = leases a"
| "kv_leases (PagedAllocator a) = leases a"

fun kv_can_allocate :: "string \<Rightarrow> int \<Rightarrow> int \<Rightarrow> kv_allocator \<Rightarrow> bool py_result" where
  "kv_can_allocate rid ctx beams (LeaseAllocator a) = lease_can_allocate rid ctx beams a"
| "kv_can_allocate rid ctx beams (PagedAllocator a) = paged_can_allocate rid ctx beams a"

fun kv_allocate :: "string \<Rightarrow> int \<Rightarrow> int \<Rightarrow> kv_allocator \<Rightarrow> (GRKVLease \<times> kv_allocator) py_result" where
  "kv_allocate rid ctx beams (LeaseAllocator a) =
     bind_res (lease_allocate rid ctx beams a) (\<lambda>(l, a'). Inr (l, LeaseAllocator a'))"
| "kv_allocate rid ctx beams (PagedAllocator a) =
     bind_res (paged_allocate rid ctx beams a) (\<lambda>(l, a'). Inr (l, PagedAllocator a'))"

fun kv_release :: "string \<Rightarrow> kv_allocator \<Rightarrow> GRKVLease option \<times> kv_allocator" where
  "kv_release rid (LeaseAllocator a) = map_prod id LeaseAllocator (lease_release rid a)"
| "kv_release rid (PagedAllocator a) = map_prod id PagedAllocator (paged_release rid a)"

fun kv_usage :: "kv_allocator \<Rightarrow> (string, int) dict" where
  "kv_usage (LeaseAllocator a) = lease_usage a"
| "kv_usage (PagedAllocator a) = paged_usage a"

fun kv_status :: "kv_allocator \<Rightarrow> (string, pyval) dict" where
  "kv_status (LeaseAllocator a) = lease_status a"
| "kv_status (PagedAllocator a) = paged_status a"

section \<open>Invariants\<close>

named_theorems lease_defs "the limits and totals of an allocator"

definition lease_inv :: "'a GRKVLeaseAllocator_scheme \<Rightarrow> bool" where
  "lease_inv a \<longleftrightarrow> lease_validate a = Inr () \<and> wf_dict (leases a)
     \<and> (\<forall>(i, l) \<in> set (leases a). lease_request_id l = i \<and> 0 \<le> lease_context_tokens l \<and> 0 \<le> lease_beam_slots l)
     \<and> within_limit (max_running_requests a) (used_running a)
     \<and> within_limit (max_context_tokens a) (used_context_tokens a)
     \<and> within_limit (max_beam_slots a) (used_beam_slots a)"

declare used_running_def [lease_defs] used_context_tokens_def [lease_defs] used_beam_slots_def [lease_defs]

definition lease_fits :: "'a GRKVLeaseAllocator_scheme \<Rightarrow> int \<Rightarrow> int \<Rightarrow> bool" where
  "lease_fits a ctx beams \<longleftrightarrow> within_limit (max_running_requests a) 1
     \<and> within_limit (max_context_tokens a) ctx \<and> within_limit (max_beam_slots a) beams"

lemma limits_ok:
  "validate_positive_optional_limits ls = Inr () \<longleftrightarrow> (\<forall>(n, v) \<in> set ls. \<forall>m. v = Some m \<longrightarrow> 0 < m)"
  by (induction ls rule: validate_positive_optional_limits.induct) (auto split: option.splits)

lemma check_positive_ok: "check_positive ls = Inr () \<longleftrightarrow> (\<forall>(n, v) \<in> set ls. 0 < v)"
  by (induction ls rule: check_positive.induct) auto

lemma within_limit_mono: "within_limit m a \<Longrightarrow> b \<le> a \<Longrightarrow> within_limit m b"
  by (auto simp: within_limit_def split: option.splits)

lemma within_limit_zero: "(\<forall>m. limit = Some m \<longrightarrow> 0 < m) \<Longrightarrow> within_limit limit 0"
  by (cases limit) (auto simp: within_limit_def)

lemma lease_validate_ok:
  "lease_validate a = Inr () \<longleftrightarrow> (\<forall>m. max_running_requests a = Some m \<longrightarrow> 0 < m)
     \<and> (\<forall>m. max_context_tokens a = Some m \<longrightarrow> 0 < m) \<and> (\<forall>m. max_beam_slots a = Some m \<longrightarrow> 0 < m)"
  unfolding lease_validate_def limits_ok by auto

lemma lease_inv_empty:
  "lease_validate a = Inr () \<Longrightarrow> leases a = [] \<Longrightarrow> lease_inv a"
  by (simp add: lease_inv_def lease_defs lease_validate_ok within_limit_zero)

lemma lease_can_allocate_iff:
  "lease_inv a \<Longrightarrow> lease_can_allocate rid ctx beams a = Inr (rid \<in> set (dict_keys (leases a)) \<or>
     (within_limit (max_running_requests a) (used_running a + 1)
      \<and> within_limit (max_context_tokens a) (used_context_tokens a + ctx)
      \<and> within_limit (max_beam_slots a) (used_beam_slots a + beams)))"
  by (auto simp: lease_can_allocate_def lease_inv_def)

lemma lease_totals_nonneg:
  assumes "lease_inv a"
  shows "0 \<le> used_running a" and "0 \<le> used_context_tokens a" and "0 \<le> used_beam_slots a"
  using assms by (force simp: lease_inv_def lease_defs intro!: dict_sum_nonneg)+

text \<open>The invariant of an allocator with one more lease, and with one fewer.\<close>

lemma lease_inv_add:
  assumes "lease_inv a" and "rid \<notin> set (dict_keys (leases a))"
    and "lease_can_allocate rid ctx beams a = Inr True" and "0 \<le> ctx" and "0 \<le> beams"
    and "lease_request_id l = rid" and "lease_context_tokens l = ctx" and "lease_beam_slots l = beams"
    and "leases a' = leases a @ [(rid, l)]" and "max_running_requests a' = max_running_requests a"
    and "max_context_tokens a' = max_context_tokens a" and "max_beam_slots a' = max_beam_slots a"
  shows "lease_inv a'"
  using assms lease_can_allocate_iff [OF assms(1), of rid ctx beams]
  by (auto simp: lease_inv_def lease_defs lease_validate_ok add.commute)

lemma lease_inv_pop:
  assumes inv: "lease_inv a"
    and ls: "leases a' = dict_pop rid (leases a)" and lim: "max_running_requests a' = max_running_requests a"
    "max_context_tokens a' = max_context_tokens a" "max_beam_slots a' = max_beam_slots a"
  shows "lease_inv a'"
proof -
  have wf: "wf_dict (leases a)" using inv by (simp add: lease_inv_def)
  have "used_running a' \<le> used_running a \<and> used_context_tokens a' \<le> used_context_tokens a
     \<and> used_beam_slots a' \<le> used_beam_slots a"
  proof (cases "map_of (leases a) rid")
    case None
    then have "dict_pop rid (leases a) = leases a" by (simp add: map_of_None_iff_keys)
    then show ?thesis using ls by (simp add: lease_defs)
  next
    case (Some l)
    have "0 \<le> lease_context_tokens l" "0 \<le> lease_beam_slots l"
      using inv map_of_SomeD [OF Some] by (auto simp: lease_inv_def)
    then show ?thesis
      using ls dict_sum_pop [OF wf Some] length_dict_pop [OF wf Some] by (simp add: lease_defs)
  qed
  then have "within_limit (max_running_requests a') (used_running a')"
    "within_limit (max_context_tokens a') (used_context_tokens a')"
    "within_limit (max_beam_slots a') (used_beam_slots a')"
    using inv lim by (auto simp: lease_inv_def elim: within_limit_mono)
  moreover have "\<forall>(i, l) \<in> set (leases a'). lease_request_id l = i \<and> 0 \<le> lease_context_tokens l \<and> 0 \<le> lease_beam_slots l"
    using inv ls dict_pop_subset [of rid "leases a"] by (auto simp: lease_inv_def)
  moreover have "lease_validate a' = Inr () \<and> wf_dict (leases a')"
    using inv ls lim by (simp add: lease_inv_def lease_validate_ok wf_dict_pop)
  ultimately show ?thesis by (simp add: lease_inv_def)
qed

lemma lease_can_fits:
  assumes "lease_inv a" and "rid \<notin> set (dict_keys (leases a))" and "lease_can_allocate rid ctx beams a = Inr True"
  shows "lease_fits a ctx beams"
  using assms lease_can_allocate_iff [OF assms(1), of rid ctx beams] lease_totals_nonneg [OF assms(1)]
  by (auto simp: lease_fits_def elim: within_limit_mono)

section \<open>The interface a scheduler relies on\<close>

text \<open>\<open>fits\<close> says that a request fits the allocator when nothing else is leased.\<close>

locale lease_allocator =
  fixes inv :: "'a \<Rightarrow> bool"
    and leases_of :: "'a \<Rightarrow> (string, GRKVLease) dict"
    and fits :: "'a \<Rightarrow> int \<Rightarrow> int \<Rightarrow> bool"
    and can :: "string \<Rightarrow> int \<Rightarrow> int \<Rightarrow> 'a \<Rightarrow> bool py_result"
    and alloc :: "string \<Rightarrow> int \<Rightarrow> int \<Rightarrow> 'a \<Rightarrow> (GRKVLease \<times> 'a) py_result"
    and rel :: "string \<Rightarrow> 'a \<Rightarrow> GRKVLease option \<times> 'a"
  assumes wf_leases: "inv a \<Longrightarrow> wf_dict (leases_of a)"
    and lease_owner: "inv a \<Longrightarrow> (i, l) \<in> set (leases_of a) \<Longrightarrow> lease_request_id l = i"
    and can_returns: "inv a \<Longrightarrow> \<exists>b. can i c s a = Inr b"
    and can_empty: "inv a \<Longrightarrow> 0 \<le> c \<Longrightarrow> 0 \<le> s \<Longrightarrow> leases_of a = [] \<Longrightarrow> can i c s a = Inr (fits a c s)"
    and can_fits: "inv a \<Longrightarrow> 0 \<le> c \<Longrightarrow> 0 \<le> s \<Longrightarrow> i \<notin> set (dict_keys (leases_of a)) \<Longrightarrow>
      can i c s a = Inr True \<Longrightarrow> fits a c s"
    and alloc_duplicate: "i \<in> set (dict_keys (leases_of a)) \<Longrightarrow>
      alloc i c s a = Inl (ValueError ''request already has a KV lease'')"
    and alloc_refused: "i \<notin> set (dict_keys (leases_of a)) \<Longrightarrow> can i c s a = Inr False \<Longrightarrow>
      alloc i c s a = Inl (MemoryError ''insufficient KV capacity for request'')"
    and alloc_granted: "inv a \<Longrightarrow> 0 \<le> c \<Longrightarrow> 0 \<le> s \<Longrightarrow> i \<notin> set (dict_keys (leases_of a)) \<Longrightarrow>
      can i c s a = Inr True \<Longrightarrow>
      \<exists>l a'. alloc i c s a = Inr (l, a') \<and> inv a' \<and> leases_of a' = leases_of a @ [(i, l)] \<and> fits a' = fits a
        \<and> lease_context_tokens l = c \<and> lease_beam_slots l = s"
    and release_law: "inv a \<Longrightarrow> fst (rel i a) = map_of (leases_of a) i \<and> inv (snd (rel i a))
      \<and> leases_of (snd (rel i a)) = dict_pop i (leases_of a) \<and> fits (snd (rel i a)) = fits a"
begin

lemma alloc_Inr:
  assumes "inv a" and "0 \<le> c" and "0 \<le> s" and "alloc i c s a = Inr (l, a')"
  shows "i \<notin> set (dict_keys (leases_of a)) \<and> can i c s a = Inr True \<and> inv a' \<and> lease_request_id l = i
    \<and> leases_of a' = leases_of a @ [(i, l)] \<and> fits a' = fits a
    \<and> lease_context_tokens l = c \<and> lease_beam_slots l = s"
proof -
  obtain b where b: "can i c s a = Inr b" using can_returns [OF assms(1)] by blast
  have new: "i \<notin> set (dict_keys (leases_of a))" using assms(4) alloc_duplicate by force
  have True: "can i c s a = Inr True" using b alloc_refused [OF new, of c s] assms(4) by (cases b) auto
  then show ?thesis using alloc_granted [OF assms(1-3) new True] new assms(4) lease_owner [of a' i l] by auto
qed

lemma alloc_release:
  assumes "inv a" and "0 \<le> c" and "0 \<le> s" and "alloc i c s a = Inr (l, a')"
  shows "fst (rel i a') = Some l \<and> leases_of (snd (rel i a')) = leases_of a"
proof -
  note al = alloc_Inr [OF assms]
  then have "leases_of a' = dict_set i l (leases_of a)" by (simp add: dict_set_new)
  then show ?thesis
    using release_law [of a' i] al by (simp add: dict_lookup dict_pop_set_new)
qed

lemma release_all:
  "inv a \<Longrightarrow> set (dict_keys (leases_of a)) \<subseteq> set is \<Longrightarrow>
     inv (fold (\<lambda>i b. snd (rel i b)) is a) \<and> leases_of (fold (\<lambda>i b. snd (rel i b)) is a) = []"
proof (induction "is" arbitrary: a)
  case Nil
  then show ?case by simp
next
  case (Cons i "is")
  note r = release_law [OF Cons.prems(1), of i]
  have "set (dict_keys (leases_of (snd (rel i a)))) \<subseteq> set is"
    using Cons.prems(2) r by (auto simp: dict_pop_keys)
  then show ?case using Cons.IH r by simp
qed

end

section \<open>The plain allocator\<close>

interpretation plain: lease_allocator lease_inv leases lease_fits lease_can_allocate lease_allocate lease_release
proof (standard, goal_cases)
  case (1 a) then show ?case by (simp add: lease_inv_def)
next
  case (2 a i l) then show ?case by (auto simp: lease_inv_def)
next
  case (3 a i c s) then show ?case using lease_can_allocate_iff by blast
next
  case (4 a c s i) then show ?case by (simp add: lease_can_allocate_iff lease_fits_def lease_defs)
next
  case (5 a c s i) then show ?case using lease_can_fits by blast
next
  case (6 i a c s) then show ?case by (simp add: lease_allocate_def)
next
  case (7 i a c s) then show ?case by (simp add: lease_allocate_def)
next
  case (8 a c s i)
  let ?l = "\<lparr>lease_request_id = i, lease_context_tokens = c, lease_beam_slots = s,
     lease_context_pages = [], lease_beam_pages = [], lease_context_page_size = None, lease_beam_page_size = None\<rparr>"
  let ?a = "a\<lparr>leases := leases a @ [(i, ?l)]\<rparr>"
  have "lease_allocate i c s a = Inr (?l, ?a)" using 8 by (simp add: lease_allocate_def dict_set_new Let_def)
  moreover have "lease_inv ?a" using lease_inv_add [OF 8(1,4,5,2,3), of ?l ?a] by simp
  ultimately show ?case by (auto simp: lease_fits_def fun_eq_iff)
next
  case (9 a i)
  have "lease_inv (a\<lparr>leases := dict_pop i (leases a)\<rparr>)" by (rule lease_inv_pop [OF 9]) simp_all
  then show ?case by (auto simp: lease_release_def lease_fits_def fun_eq_iff)
qed

section \<open>Page ownership\<close>

definition pages_of :: "('l \<Rightarrow> int list) \<Rightarrow> (string, 'l) dict \<Rightarrow> int list" where
  "pages_of f d = concat (map f (dict_values d))"

text \<open>The free list is sorted, and the free pages with the leased ones are the pool, each once.\<close>

definition pages_partition :: "int option \<Rightarrow> int list \<Rightarrow> ('l \<Rightarrow> int list) \<Rightarrow> (string, 'l) dict \<Rightarrow> bool" where
  "pages_partition limit free f d \<longleftrightarrow>
     sorted free \<and> mset free + mset (pages_of f d) = mset (initial_free limit)"

lemma pages_of_mset: "mset (pages_of f d) = (\<Sum>p \<in># mset d. mset (f (snd p)))"
  by (induction d) (auto simp: pages_of_def)

lemma pages_partition_initial: "pages_partition limit (initial_free limit) f []"
  by (auto simp: pages_partition_def initial_free_def pages_of_def split: option.splits)

lemma pages_partition_range: "pages_partition (Some n) (py_range n) f []"
  using pages_partition_initial [of "Some n"] by (simp add: initial_free_def)

lemma pages_partition_take:
  assumes "pages_partition limit free f d" and "f l = take n free"
  shows "pages_partition limit (drop n free) f (d @ [(i, l)])"
proof -
  have "mset free = mset (take n free) + mset (drop n free)"
    by (metis append_take_drop_id mset_append)
  then show ?thesis
    using assms by (simp add: pages_partition_def pages_of_def sorted_wrt_drop ac_simps)
qed

lemma pages_partition_release:
  assumes "pages_partition limit free f d" and "wf_dict d" and "map_of d i = Some l"
  shows "pages_partition limit (sort (free @ f l)) f (dict_pop i d)"
  using assms mset_dict_pop [OF assms(2,3)] by (simp add: pages_partition_def pages_of_mset ac_simps)

lemma distinct_initial_free [simp]: "distinct (initial_free limit)"
  by (auto simp: initial_free_def split: option.splits)

lemma pages_partition_distinct:
  assumes "pages_partition limit free f d"
  shows "distinct (free @ pages_of f d)" and "set free \<union> set (pages_of f d) = set (initial_free limit)"
  using assms mset_eq_imp_distinct_iff [of "free @ pages_of f d" "initial_free limit"]
    mset_eq_setD [of "free @ pages_of f d" "initial_free limit"]
  by (simp_all add: pages_partition_def)

lemma pages_partition_length:
  "pages_partition limit free f d \<Longrightarrow>
     int (length free) + dict_sum (\<lambda>l. int (length (f l))) d = int (length (initial_free limit))"
proof -
  assume "pages_partition limit free f d"
  then have "length free + length (pages_of f d) = length (initial_free limit)"
    by (metis pages_partition_def size_mset size_union)
  moreover have "int (length (pages_of f d)) = dict_sum (\<lambda>l. int (length (f l))) d"
    by (induction d) (auto simp: pages_of_def)
  ultimately show ?thesis by linarith
qed

section \<open>The paged allocator\<close>

text \<open>Every lease holds exactly the pages its size needs, and the high-water marks bound the usage.\<close>

definition paged_inv :: "GRPagedKVLeaseAllocator \<Rightarrow> bool" where
  "paged_inv a \<longleftrightarrow> lease_inv a \<and> 0 < context_page_size a \<and> 0 < beam_page_size a
     \<and> pages_partition (max_context_pages a) (free_context_pages a) lease_context_pages (leases a)
     \<and> pages_partition (max_beam_pages a) (free_beam_pages a) lease_beam_pages (leases a)
     \<and> (\<forall>(i, l) \<in> set (leases a).
          int (length (lease_context_pages l)) = ceil_div (lease_context_tokens l) (context_page_size a)
          \<and> int (length (lease_beam_pages l)) = ceil_div (lease_beam_slots l) (beam_page_size a))
     \<and> used_context_pages a \<le> max_used_context_pages a \<and> used_beam_pages a \<le> max_used_beam_pages a"

definition paged_fits :: "GRPagedKVLeaseAllocator \<Rightarrow> int \<Rightarrow> int \<Rightarrow> bool" where
  "paged_fits a ctx beams \<longleftrightarrow> lease_fits a ctx beams
     \<and> context_pages_needed a ctx \<le> int (length (initial_free (max_context_pages a)))
     \<and> beam_pages_needed a beams \<le> int (length (initial_free (max_beam_pages a)))"

lemma ceil_div_nonneg: "0 < d \<Longrightarrow> 0 \<le> ceil_div v d"
  by (auto simp: ceil_div_def pos_imp_zdiv_nonneg_iff)

lemma ceil_div_covers: "0 < d \<Longrightarrow> v \<le> ceil_div v d * d"
proof -
  assume d: "0 < d"
  show ?thesis
  proof (cases "v \<le> 0")
    case True
    then show ?thesis by (simp add: ceil_div_def)
  next
    case False
    have "(v + d - 1) mod d < d" using d by simp
    then have "v \<le> (v + d - 1) div d * d" by (simp add: minus_mod_eq_div_mult [symmetric])
    then show ?thesis using False by (simp add: ceil_div_def)
  qed
qed

lemma ceil_div_least: "0 < d \<Longrightarrow> 0 < v \<Longrightarrow> (ceil_div v d - 1) * d < v"
proof -
  assume d: "0 < d" and v: "0 < v"
  have "(v + d - 1) div d * d \<le> v + d - 1"
    using pos_mod_sign [OF d, of "v + d - 1"] by (simp add: minus_mod_eq_div_mult [symmetric])
  then show ?thesis using v by (simp add: ceil_div_def algebra_simps)
qed

lemma paged_can_allocate_iff:
  assumes "paged_inv a"
  shows "paged_can_allocate rid ctx beams a = Inr (rid \<in> set (dict_keys (leases a)) \<or>
     (lease_can_allocate rid ctx beams a = Inr True
      \<and> context_pages_needed a ctx \<le> int (length (free_context_pages a))
      \<and> beam_pages_needed a beams \<le> int (length (free_beam_pages a))))"
  using assms lease_can_allocate_iff [of a rid ctx beams]
  by (auto simp: paged_can_allocate_def paged_inv_def)

lemma free_pages_bounded:
  assumes "paged_inv a"
  shows "length (free_context_pages a) \<le> length (initial_free (max_context_pages a))"
    and "length (free_beam_pages a) \<le> length (initial_free (max_beam_pages a))"
    and "leases a = [] \<Longrightarrow> length (free_context_pages a) = length (initial_free (max_context_pages a))"
    and "leases a = [] \<Longrightarrow> length (free_beam_pages a) = length (initial_free (max_beam_pages a))"
  using assms unfolding paged_inv_def pages_partition_def pages_of_def
  by (metis size_mset size_union le_add1 add.right_neutral list.map(1) concat.simps(1) mset.simps(1) size_empty)+

lemma mk_paged_inv: "mk_paged_allocator r c b cps bps mcp mbp = Inr a \<Longrightarrow> paged_inv a"
  by (auto simp: mk_paged_allocator_def Let_def paged_inv_def lease_inv_empty pages_partition_initial
      used_context_pages_def used_beam_pages_def split: if_splits)

lemma paged_allocate_granted:
  assumes inv: "paged_inv a" and nn: "0 \<le> ctx" "0 \<le> beams" and new: "rid \<notin> set (dict_keys (leases a))"
    and can: "paged_can_allocate rid ctx beams a = Inr True"
  shows "\<exists>l a'. paged_allocate rid ctx beams a = Inr (l, a') \<and> paged_inv a' \<and> leases a' = leases a @ [(rid, l)]
    \<and> paged_fits a' = paged_fits a \<and> lease_context_tokens l = ctx \<and> lease_beam_slots l = beams
    \<and> lease_context_pages l = take (nat (context_pages_needed a ctx)) (free_context_pages a)
    \<and> lease_beam_pages l = take (nat (beam_pages_needed a beams)) (free_beam_pages a)"
proof -
  have can': "lease_can_allocate rid ctx beams a = Inr True"
    "context_pages_needed a ctx \<le> int (length (free_context_pages a))"
    "beam_pages_needed a beams \<le> int (length (free_beam_pages a))"
    using can new paged_can_allocate_iff [OF inv] by auto
  have ps: "0 < context_page_size a" "0 < beam_page_size a" and li: "lease_inv a"
    using inv by (simp_all add: paged_inv_def)
  have cn: "0 \<le> context_pages_needed a ctx" and bn: "0 \<le> beam_pages_needed a beams"
    using ps by (simp_all add: context_pages_needed_def beam_pages_needed_def ceil_div_nonneg)
  let ?c = "nat (context_pages_needed a ctx)" and ?b = "nat (beam_pages_needed a beams)"
  define l where "l = \<lparr>lease_request_id = rid, lease_context_tokens = ctx, lease_beam_slots = beams,
     lease_context_pages = take ?c (free_context_pages a), lease_beam_pages = take ?b (free_beam_pages a),
     lease_context_page_size = Some (context_page_size a), lease_beam_page_size = Some (beam_page_size a)\<rparr>"
  define a1 where "a1 = a\<lparr>free_context_pages := drop ?c (free_context_pages a),
     free_beam_pages := drop ?b (free_beam_pages a), leases := leases a @ [(rid, l)]\<rparr>"
  define a2 where "a2 = a1\<lparr>max_used_context_pages := max (max_used_context_pages a) (used_context_pages a1),
     max_used_beam_pages := max (max_used_beam_pages a) (used_beam_pages a1)\<rparr>"
  have al: "paged_allocate rid ctx beams a = Inr (l, a2)"
    using new can cn bn
    by (simp add: paged_allocate_def take_pages_def Let_def dict_set_new l_def a1_def a2_def)
  have "lease_inv a2"
    by (rule lease_inv_add [OF li new can'(1) nn, of l]) (simp_all add: l_def a1_def a2_def)
  moreover have "pages_partition (max_context_pages a) (drop ?c (free_context_pages a)) lease_context_pages (leases a @ [(rid, l)])"
    "pages_partition (max_beam_pages a) (drop ?b (free_beam_pages a)) lease_beam_pages (leases a @ [(rid, l)])"
    using inv by (auto intro!: pages_partition_take simp: paged_inv_def l_def)
  moreover have "int (length (lease_context_pages l)) = ceil_div ctx (context_page_size a)"
    "int (length (lease_beam_pages l)) = ceil_div beams (beam_page_size a)"
    using can'(2,3) cn bn by (simp_all add: l_def context_pages_needed_def beam_pages_needed_def)
  ultimately have "paged_inv a2"
    using inv by (auto simp: paged_inv_def a2_def a1_def l_def used_context_pages_def used_beam_pages_def)
  moreover have "paged_fits a2 = paged_fits a"
    by (auto simp: fun_eq_iff paged_fits_def lease_fits_def a1_def a2_def context_pages_needed_def beam_pages_needed_def)
  ultimately show ?thesis using al by (auto simp: a1_def a2_def l_def)
qed

lemma paged_release_inv:
  assumes inv: "paged_inv a"
  shows "fst (paged_release rid a) = map_of (leases a) rid \<and> paged_inv (snd (paged_release rid a))
     \<and> leases (snd (paged_release rid a)) = dict_pop rid (leases a)
     \<and> paged_fits (snd (paged_release rid a)) = paged_fits a"
proof (cases "map_of (leases a) rid")
  case None
  then have "dict_pop rid (leases a) = leases a" by (simp add: map_of_None_iff_keys)
  then show ?thesis using inv None by (simp add: paged_release_def)
next
  case (Some l)
  let ?a = "snd (paged_release rid a)"
  have wf: "wf_dict (leases a)" using inv by (simp add: paged_inv_def lease_inv_def)
  have lv: "lease_inv ?a"
    by (rule lease_inv_pop [of a _ rid]) (use inv Some in \<open>simp_all add: paged_inv_def paged_release_def\<close>)
  have parts: "pages_partition (max_context_pages a) (free_context_pages ?a) lease_context_pages (dict_pop rid (leases a))"
    "pages_partition (max_beam_pages a) (free_beam_pages ?a) lease_beam_pages (dict_pop rid (leases a))"
    using inv Some wf by (auto simp: paged_inv_def paged_release_def intro!: pages_partition_release)
  have sums: "used_context_pages ?a \<le> used_context_pages a" "used_beam_pages ?a \<le> used_beam_pages a"
    using Some dict_sum_pop [OF wf Some] by (simp_all add: paged_release_def used_context_pages_def used_beam_pages_def)
  have "paged_inv ?a"
    using lv inv parts sums Some dict_pop_subset [of rid "leases a"]
    by (auto simp: paged_inv_def paged_release_def)
  then show ?thesis
    using Some by (auto simp: paged_release_def fun_eq_iff paged_fits_def lease_fits_def
        context_pages_needed_def beam_pages_needed_def)
qed

interpretation paged: lease_allocator paged_inv leases paged_fits paged_can_allocate paged_allocate paged_release
proof (standard, goal_cases)
  case (1 a) then show ?case by (simp add: paged_inv_def lease_inv_def)
next
  case (2 a i l) then show ?case by (auto simp: paged_inv_def lease_inv_def)
next
  case (3 a i c s) then show ?case using paged_can_allocate_iff by blast
next
  case (4 a c s i)
  then have "lease_can_allocate i c s a = Inr (lease_fits a c s)"
    by (simp add: paged_inv_def lease_can_allocate_iff lease_fits_def lease_defs)
  then show ?case using 4 free_pages_bounded(3,4) [of a] by (simp add: paged_can_allocate_iff paged_fits_def)
next
  case (5 a c s i)
  then have "lease_can_allocate i c s a = Inr True" "context_pages_needed a c \<le> int (length (free_context_pages a))"
    "beam_pages_needed a s \<le> int (length (free_beam_pages a))"
    by (auto simp: paged_can_allocate_iff)
  then show ?case
    using 5 free_pages_bounded(1,2) [of a] lease_can_fits [of a i c s] by (simp add: paged_fits_def paged_inv_def)
next
  case (6 i a c s) then show ?case by (simp add: paged_allocate_def)
next
  case (7 i a c s) then show ?case by (simp add: paged_allocate_def)
next
  case (8 a c s i) then show ?case using paged_allocate_granted [of a c s i] by blast
next
  case (9 a i) then show ?case by (rule paged_release_inv)
qed

section \<open>The dispatching allocator\<close>

fun kv_inv :: "kv_allocator \<Rightarrow> bool" where
  "kv_inv (LeaseAllocator a) = lease_inv a"
| "kv_inv (PagedAllocator a) = paged_inv a"

fun kv_fits :: "kv_allocator \<Rightarrow> int \<Rightarrow> int \<Rightarrow> bool" where
  "kv_fits (LeaseAllocator a) = lease_fits a"
| "kv_fits (PagedAllocator a) = paged_fits a"

interpretation kv: lease_allocator kv_inv kv_leases kv_fits kv_can_allocate kv_allocate kv_release
proof (standard, goal_cases)
  case (1 a) then show ?case by (cases a) (auto simp: plain.wf_leases paged.wf_leases)
next
  case (2 a i l) then show ?case by (cases a) (auto dest: plain.lease_owner paged.lease_owner)
next
  case (3 a i c s) then show ?case by (cases a) (auto simp: plain.can_returns paged.can_returns)
next
  case (4 a c s i) then show ?case by (cases a) (auto simp: plain.can_empty paged.can_empty)
next
  case (5 a c s i) then show ?case
    by (cases a) (simp_all add: plain.can_fits [of _ c s i] paged.can_fits [of _ c s i])
next
  case (6 i a c s) then show ?case by (cases a) (simp_all add: plain.alloc_duplicate paged.alloc_duplicate)
next
  case (7 i a c s) then show ?case by (cases a) (simp_all add: plain.alloc_refused paged.alloc_refused)
next
  case (8 a c s i)
  show ?case
  proof (cases a)
    case (LeaseAllocator b)
    then show ?thesis using 8 plain.alloc_granted [of b c s i] by fastforce
  next
    case (PagedAllocator b)
    then show ?thesis using 8 paged.alloc_granted [of b c s i] by fastforce
  qed
next
  case (9 a i) then show ?case
    by (cases a) (simp_all add: plain.release_law paged.release_law)
qed

section \<open>Free runs\<close>

text \<open>Runs are non-empty, ascend and are separated by at least one missing value.\<close>

fun separated :: "(int \<times> int) list \<Rightarrow> bool" where
  "separated [] = True"
| "separated [(s, e)] = (s \<le> e)"
| "separated ((s, e) # (s', e') # rs) = (s \<le> e \<and> e + 1 < s' \<and> separated ((s', e') # rs))"

definition run_union :: "(int \<times> int) list \<Rightarrow> int set" where
  "run_union rs = (\<Union>(s, e) \<in> set rs. {s..e})"

lemma run_union_simps [simp]: "run_union [] = {}" "run_union ((s, e) # rs) = {s..e} \<union> run_union rs"
  by (auto simp: run_union_def)

lemma separated_tail: "separated ((s, e) # rs) \<Longrightarrow> s \<le> e \<and> separated rs \<and> (\<forall>x \<in> run_union rs. e + 1 < x)"
proof (induction rs arbitrary: s e)
  case Nil
  then show ?case by simp
next
  case (Cons r rs)
  obtain s' e' where r: "r = (s', e')" by (cases r)
  then show ?case using Cons.IH [of s' e'] Cons.prems by fastforce
qed

lemma free_runs_loop_spec:
  assumes "start \<le> previous" and "sorted_wrt (<) (previous # vs)"
  shows "separated (free_runs_loop start previous vs)
     \<and> run_union (free_runs_loop start previous vs) = {start..previous} \<union> set vs
     \<and> fst (hd (free_runs_loop start previous vs)) = start \<and> free_runs_loop start previous vs \<noteq> []"
  using assms
proof (induction vs arbitrary: start previous)
  case Nil
  then show ?case by simp
next
  case (Cons v vs)
  show ?case
  proof (cases "v = previous + 1")
    case True
    then show ?thesis using Cons.IH [of start v] Cons.prems by auto
  next
    case False
    note IH = Cons.IH [of v v]
    have v: "previous + 1 < v" "sorted_wrt (<) (v # vs)" using False Cons.prems(2) by auto
    obtain e rs where rs: "free_runs_loop v v vs = (v, e) # rs"
      using IH v(2) by (cases "free_runs_loop v v vs") auto
    have "{start..previous} \<union> ({v..v} \<union> set vs) = {start..previous} \<union> set (v # vs)" by auto
    then show ?thesis using False IH v rs Cons.prems(1) by auto
  qed
qed

lemma free_runs_spec:
  assumes "distinct values"
  shows "separated (free_runs values) \<and> run_union (free_runs values) = set values"
proof (cases "sort values")
  case Nil
  then have "values = []" by (metis set_sort set_empty)
  then show ?thesis by (simp add: free_runs_def)
next
  case (Cons v vs)
  have "sorted_wrt (<) (v # vs)"
    using assms Cons by (metis strict_sorted_iff distinct_sort sorted_sort)
  then show ?thesis
    using free_runs_loop_spec [of v v vs] Cons set_sort [of "\<lambda>x. x" "values"] by (auto simp: free_runs_def)
qed

lemma interval_in_runs:
  assumes "separated ((s, e) # rs)" and "0 < len" and "{t..<t + len} \<subseteq> {s..e} \<union> run_union rs"
  shows "{t..<t + len} \<subseteq> {s..e} \<or> {t..<t + len} \<subseteq> run_union rs"
proof (cases "t \<le> e")
  case True
  have tail: "\<forall>x \<in> run_union rs. e + 1 < x" using separated_tail [OF assms(1)] by blast
  have "x \<le> e" if x: "x \<in> {t..<t + len}" for x
  proof (rule ccontr)
    assume "\<not> x \<le> e"
    then have "e + 1 \<in> {t..<t + len}" using x True by auto
    then have "e + 1 \<in> run_union rs" using assms(3) by auto
    then show False using tail by auto
  qed
  then have "{t..<t + len} \<subseteq> {s..e}" using assms(3) tail by fastforce
  then show ?thesis ..
next
  case False
  then have "{t..<t + len} \<subseteq> run_union rs" using assms(3) by fastforce
  then show ?thesis ..
qed

lemma first_run_of_spec:
  assumes "separated rs" and "0 < len"
  shows "(case first_run_of rs len of
            Some s \<Rightarrow> {s..<s + len} \<subseteq> run_union rs \<and> (\<forall>t. {t..<t + len} \<subseteq> run_union rs \<longrightarrow> s \<le> t)
          | None \<Rightarrow> \<forall>t. \<not> {t..<t + len} \<subseteq> run_union rs)"
  using assms
proof (induction rs)
  case Nil
  then show ?case by auto
next
  case (Cons r rs)
  obtain s e where r: "r = (s, e)" by (cases r)
  note tail = separated_tail [OF Cons.prems(1) [unfolded r]]
  note dich = interval_in_runs [OF Cons.prems(1) [unfolded r] Cons.prems(2)]
  have inr: "t \<in> {s..e} \<or> t \<in> run_union rs" if "{t..<t + len} \<subseteq> run_union (r # rs)" for t
    using that Cons.prems(2) r by fastforce
  show ?case
  proof (cases "e - s + 1 \<ge> len")
    case True
    have "s \<le> t" if "{t..<t + len} \<subseteq> run_union (r # rs)" for t
      using inr [OF that] tail by (metis atLeastAtMost_iff dual_order.trans less_imp_le zle_add1_eq_le zless_add1_eq)
    moreover have "{s..<s + len} \<subseteq> run_union (r # rs)" using True r by auto
    ultimately show ?thesis using True r by simp
  next
    case False
    have no: "\<not> {t..<t + len} \<subseteq> {s..e}" for t
    proof
      assume sub: "{t..<t + len} \<subseteq> {s..e}"
      have "t \<in> {s..e}" "t + len - 1 \<in> {s..e}" by (rule subsetD [OF sub], use Cons.prems(2) in simp)+
      then show False using False by auto
    qed
    have "{t..<t + len} \<subseteq> run_union (r # rs) \<longleftrightarrow> {t..<t + len} \<subseteq> run_union rs" for t
      using dich [of t] no [of t] r by auto
    then show ?thesis using False r Cons.IH tail Cons.prems(2) by (cases "first_run_of rs len") auto
  qed
qed

section \<open>Properties\<close>

text \<open>Any sequence of calls on a paged allocator; a call that raises leaves it unchanged.\<close>

datatype kv_op = AllocateOp string int int | ReleaseOp string

fun paged_step :: "kv_op \<Rightarrow> GRPagedKVLeaseAllocator \<Rightarrow> GRPagedKVLeaseAllocator" where
  "paged_step (AllocateOp rid ctx beams) a =
     (case paged_allocate rid ctx beams a of Inl _ \<Rightarrow> a | Inr (_, a') \<Rightarrow> a')"
| "paged_step (ReleaseOp rid) a = snd (paged_release rid a)"

fun op_ok :: "kv_op \<Rightarrow> bool" where
  "op_ok (AllocateOp rid ctx beams) = (0 \<le> ctx \<and> 0 \<le> beams)"
| "op_ok (ReleaseOp rid) = True"

lemma paged_step_keeps:
  assumes "paged_inv a" and "op_ok op"
  shows "paged_inv (paged_step op a) \<and> max_context_pages (paged_step op a) = max_context_pages a
    \<and> max_beam_pages (paged_step op a) = max_beam_pages a"
proof (cases op)
  case (AllocateOp rid ctx beams)
  have "max_context_pages a' = max_context_pages a \<and> max_beam_pages a' = max_beam_pages a"
    if "paged_allocate rid ctx beams a = Inr (l, a')" for l a'
    using that by (auto simp: paged_allocate_def Let_def take_pages_def split: if_splits)
  then show ?thesis
    using assms AllocateOp paged.alloc_Inr [of a ctx beams rid]
    by (cases "paged_allocate rid ctx beams a") auto
next
  case (ReleaseOp rid)
  have "max_context_pages (snd (paged_release rid a)) = max_context_pages a
     \<and> max_beam_pages (snd (paged_release rid a)) = max_beam_pages a"
    by (auto simp: paged_release_def split: option.splits)
  then show ?thesis using assms ReleaseOp paged.release_law by simp
qed

lemma paged_run_keeps:
  "paged_inv a \<Longrightarrow> \<forall>op \<in> set ops. op_ok op \<Longrightarrow>
     paged_inv (fold paged_step ops a) \<and> max_context_pages (fold paged_step ops a) = max_context_pages a
     \<and> max_beam_pages (fold paged_step ops a) = max_beam_pages a"
proof (induction ops arbitrary: a)
  case Nil
  then show ?case by simp
next
  case (Cons op ops)
  then show ?case using paged_step_keeps [of a op] by simp
qed

text \<open>C27: after any sequence of allocate and release calls, successful or not, no context page and no
  beam page of a paged allocator is lost or has two owners: the free pages and the pages of the
  leases are together exactly the pool, each once.\<close>

theorem paged_pages_conserved:
  assumes "mk_paged_allocator running ctx beams cps bps (Some ncp) (Some nbp) = Inr a0"
    and "\<forall>op \<in> set ops. op_ok op" and "a = fold paged_step ops a0"
  shows "distinct (free_context_pages a @ pages_of lease_context_pages (leases a))
    \<and> set (free_context_pages a) \<union> set (pages_of lease_context_pages (leases a)) = {0..<ncp}
    \<and> distinct (free_beam_pages a @ pages_of lease_beam_pages (leases a))
    \<and> set (free_beam_pages a) \<union> set (pages_of lease_beam_pages (leases a)) = {0..<nbp}"
proof -
  have m: "max_context_pages a0 = Some ncp" "max_beam_pages a0 = Some nbp"
    using assms(1) by (auto simp: mk_paged_allocator_def Let_def simp del: check_positive.simps validate_positive_optional_limits.simps)
  note run = paged_run_keeps [OF mk_paged_inv [OF assms(1)] assms(2), folded assms(3)]
  have "pages_partition (Some ncp) (free_context_pages a) lease_context_pages (leases a)"
    "pages_partition (Some nbp) (free_beam_pages a) lease_beam_pages (leases a)"
    using run m by (auto simp: paged_inv_def)
  from pages_partition_distinct [OF this(1)] pages_partition_distinct [OF this(2)]
  show ?thesis by (simp add: initial_free_def)
qed

definition ex_paged :: GRPagedKVLeaseAllocator where
  "ex_paged = \<lparr>max_running_requests = Some 3, max_context_tokens = None, max_beam_slots = Some 12, leases = [],
     context_page_size = 4, beam_page_size = 2, max_context_pages = Some 5, max_beam_pages = Some 6,
     free_context_pages = [0, 1, 2, 3, 4], free_beam_pages = [0, 1, 2, 3, 4, 5],
     max_used_context_pages = 0, max_used_beam_pages = 0\<rparr>"

definition ex_ops :: "kv_op list" where
  "ex_ops = [AllocateOp ''a'' 9 4, AllocateOp ''b'' 5 3, ReleaseOp ''a'', AllocateOp ''c'' 30 1, AllocateOp ''d'' 4 4]"

lemma ex_paged_made: "mk_paged_allocator (Some 3) None (Some 12) 4 2 (Some 5) (Some 6) = Inr ex_paged"
  by code_simp

theorem paged_pages_conserved_witness:
  "distinct (free_context_pages (fold paged_step ex_ops ex_paged)
      @ pages_of lease_context_pages (leases (fold paged_step ex_ops ex_paged)))
   \<and> dict_keys (leases (fold paged_step ex_ops ex_paged)) = [''b'', ''d'']"
proof -
  have "\<forall>op \<in> set ex_ops. op_ok op" by code_simp
  from paged_pages_conserved [OF ex_paged_made this refl] show ?thesis
    by (intro conjI) (simp, code_simp)
qed

text \<open>C28: the budgets hold and the pages suffice: after any sequence of calls the leases together stay
  within the three limits, and every lease holds the least number of pages that covers its tokens
  and its beam slots.\<close>

theorem paged_leases_within_budget:
  assumes "mk_paged_allocator running ctx beams cps bps ncp nbp = Inr a0"
    and "\<forall>op \<in> set ops. op_ok op" and "a = fold paged_step ops a0"
  shows "within_limit (max_running_requests a) (int (length (leases a)))
    \<and> within_limit (max_context_tokens a) (used_context_tokens a)
    \<and> within_limit (max_beam_slots a) (used_beam_slots a)
    \<and> (\<forall>(i, l) \<in> set (leases a).
         lease_context_tokens l \<le> int (length (lease_context_pages l)) * context_page_size a
         \<and> (0 < lease_context_tokens l \<longrightarrow>
             (int (length (lease_context_pages l)) - 1) * context_page_size a < lease_context_tokens l)
         \<and> lease_beam_slots l \<le> int (length (lease_beam_pages l)) * beam_page_size a
         \<and> (0 < lease_beam_slots l \<longrightarrow>
             (int (length (lease_beam_pages l)) - 1) * beam_page_size a < lease_beam_slots l))"
proof -
  have "paged_inv a" using paged_run_keeps [OF mk_paged_inv [OF assms(1)] assms(2)] assms(3) by simp
  then show ?thesis
    by (auto simp: paged_inv_def lease_inv_def used_running_def ceil_div_covers ceil_div_least)
qed

theorem paged_leases_within_budget_witness:
  "used_beam_slots (fold paged_step ex_ops ex_paged) = 7
   \<and> within_limit (max_beam_slots (fold paged_step ex_ops ex_paged)) (used_beam_slots (fold paged_step ex_ops ex_paged))"
proof -
  have "\<forall>op \<in> set ex_ops. op_ok op" by code_simp
  from paged_leases_within_budget [OF ex_paged_made this refl] show ?thesis
    by (intro conjI) (code_simp, simp)
qed

text \<open>releasing a lease right after its allocation restores the paged allocator exactly (leases,
  both free lists in their order), apart from the high-water marks.\<close>

theorem paged_allocate_release_identity:
  assumes "paged_inv a" and "0 \<le> ctx" and "0 \<le> beams" and "paged_allocate rid ctx beams a = Inr (l, a')"
  shows "fst (paged_release rid a') = Some l
    \<and> (snd (paged_release rid a'))\<lparr>max_used_context_pages := max_used_context_pages a,
         max_used_beam_pages := max_used_beam_pages a\<rparr> = a"
proof -
  have new: "rid \<notin> set (dict_keys (leases a))"
    and can: "paged_can_allocate rid ctx beams a = Inr True"
    using paged.alloc_Inr [OF assms] by auto
  have n: "0 \<le> context_pages_needed a ctx" "0 \<le> beam_pages_needed a beams"
    using assms(1) by (simp_all add: paged_inv_def context_pages_needed_def beam_pages_needed_def ceil_div_nonneg)
  have sorted: "sorted (free_context_pages a)" "sorted (free_beam_pages a)"
    using assms(1) by (simp_all add: paged_inv_def pages_partition_def)
  have resort: "sort (drop k xs @ take k xs) = xs" if "sorted xs" for k and xs :: "int list"
    by (rule properties_for_sort [OF _ that]) (metis add.commute append_take_drop_id mset_append)
  have lk: "map_of (leases a) rid = None" using new by (simp add: map_of_eq_None_iff)
  show ?thesis
    using assms(4) new can n lk sorted resort
    by (cases a) (auto simp: paged_allocate_def paged_release_def take_pages_def Let_def dict_set_new
        map_add_def dict_pop_snoc_new)
qed

theorem paged_allocate_release_identity_witness:
  "\<exists>l a'. paged_allocate ''x'' 7 3 ex_paged = Inr (l, a') \<and> lease_context_pages l = [0, 1]
     \<and> (snd (paged_release ''x'' a'))\<lparr>max_used_context_pages := 0, max_used_beam_pages := 0\<rparr> = ex_paged"
proof -
  have inv: "paged_inv ex_paged" by (rule mk_paged_inv [OF ex_paged_made])
  have "case paged_allocate ''x'' 7 3 ex_paged of Inl _ \<Rightarrow> False | Inr (l, a') \<Rightarrow> lease_context_pages l = [0, 1]"
    by code_simp
  then obtain l a' where a: "paged_allocate ''x'' 7 3 ex_paged = Inr (l, a')" "lease_context_pages l = [0, 1]"
    by (auto split: sum.splits)
  show ?thesis
    using paged_allocate_release_identity [OF inv _ _ a(1)] a by (simp add: ex_paged_def)
qed

text \<open>\<open>_first_free_run\<close> returns the smallest start of a block of \<open>length\<close> adjacent free values, and
  nothing only if there is no such block.\<close>

theorem first_free_run_least:
  assumes "distinct values" and "0 < len"
  shows "case first_free_run values len of
      Some s \<Rightarrow> {s..<s + len} \<subseteq> set values \<and> (\<forall>t. {t..<t + len} \<subseteq> set values \<longrightarrow> s \<le> t)
    | None \<Rightarrow> \<forall>t. \<not> {t..<t + len} \<subseteq> set values"
  using first_run_of_spec [of "free_runs values" len] free_runs_spec [OF assms(1)] assms(2)
  by (cases "first_free_run values len") (simp_all add: first_free_run_def)

theorem first_free_run_least_witness:
  "first_free_run [7, 0, 4, 5, 2] 2 = Some 4 \<and> {4..<4 + 2} \<subseteq> set [7, 0, 4, 5, 2::int]"
proof -
  have r: "first_free_run [7, 0, 4, 5, 2] 2 = Some 4" by code_simp
  show ?thesis using first_free_run_least [of "[7, 0, 4, 5, 2]" 2] r by simp
qed

text \<open>Sharing the context KV between beams saves exactly \<open>max_beam_width - 1\<close> copies of it, so the
  reported saving is never negative, and the total counts every part once.\<close>

theorem estimate_sharing_savings:
  assumes "estimate_gr_kv_memory bs layers ctx steps width heads hdim bpe vocab active = Inr e"
  shows "context_kv_sharing_savings_bytes e = (width - 1) * context_kv_bytes e
    \<and> 0 < context_kv_bytes e \<and> 0 < beam_kv_bytes e
    \<and> context_kv_bytes e * steps * width = beam_kv_bytes e * ctx
    \<and> total_with_workspace_bytes e \<ge> context_kv_bytes e + beam_kv_bytes e"
proof -
  have "check_positive [(''batch_size'', bs), (''num_layers'', layers), (''context_len'', ctx),
         (''max_decode_steps'', steps), (''max_beam_width'', width), (''num_kv_heads'', heads),
         (''head_dim'', hdim), (''bytes_per_element'', bpe)] = Inr ()"
    using assms by (simp add: estimate_gr_kv_memory_def del: check_positive.simps)
  then have pos: "0 < bs" "0 < layers" "0 < ctx" "0 < steps" "0 < width" "0 < heads" "0 < hdim" "0 < bpe"
    unfolding check_positive_ok by simp_all
  define u where "u = 2 * layers * heads * hdim * bpe"
  have u: "0 < u" using pos by (simp add: u_def)
  have e: "context_kv_bytes e = bs * ctx * u" "beam_kv_bytes e = bs * steps * width * u"
    "dense_per_beam_context_kv_bytes e = bs * ctx * width * u" "0 \<le> logits_workspace_bytes e"
    "0 \<le> topk_scores_workspace_bytes e"
    using assms pos by (auto simp: estimate_gr_kv_memory_def Let_def u_def split: if_splits option.splits)
  have "bs * ctx * u \<le> bs * ctx * width * u"
    using pos u mult_left_mono [of 1 width "bs * ctx * u"] by (simp add: ac_simps)
  then have "context_kv_sharing_savings_bytes e = (width - 1) * context_kv_bytes e"
    using e by (simp add: context_kv_sharing_savings_bytes_def algebra_simps)
  then show ?thesis
    using e pos u by (simp add: total_with_workspace_bytes_def total_kv_bytes_def)
qed

theorem estimate_sharing_savings_witness:
  "\<exists>e. estimate_gr_kv_memory 2 28 1000 3 8 4 128 2 (Some 1000) None = Inr e
     \<and> context_kv_sharing_savings_bytes e = (8 - 1) * context_kv_bytes e"
proof -
  have "is_ok (estimate_gr_kv_memory 2 28 1000 3 8 4 128 2 (Some 1000) None)" by code_simp
  then obtain e where e: "estimate_gr_kv_memory 2 28 1000 3 8 4 128 2 (Some 1000) None = Inr e"
    by (auto simp: is_ok_iff)
  show ?thesis using e estimate_sharing_savings [OF e] by blast
qed

end
