(* ===== verification/GR_Pools.thy ===== *)
theory GR_Pools
  imports GR_Memory
begin

text \<open>
  The dense BeamKV and ContextKV slot pools of \<open>gr_serving/memory.py\<close>. A pool's tensors are their
  shapes; a leased view is its slot and shape. A request owns one batch slot of the pool's tensor, or a
  batch of requests a run of adjacent slots.
\<close>

section \<open>Dense slot pools\<close>

text \<open>A pool lease of the BeamKV pool, and of the ContextKV pool with its context length.\<close>

record GRBeamKVPoolLease =
  pool_request_id :: string
  pool_slot :: int
  pool_view_shape :: "int list"

record GRContextKVPoolLease = GRBeamKVPoolLease +
  pool_context_len :: int

record 'l dense_pool =
  pool_shape :: "int list"
  free_slots :: "int list"
  pool_leases :: "(string, 'l) dict"
  max_used_slots :: int
  allocation_count :: int
  release_count :: int

definition mk_dense_pool :: "nat \<Rightarrow> int list \<Rightarrow> int list \<Rightarrow> 'l dense_pool py_result" where
  "mk_dense_pool rank key_shape value_shape =
     (if key_shape \<noteq> value_shape then Inl (ValueError ''pool key/value shapes differ'')
      else if length key_shape \<noteq> rank then Inl (ValueError ''pool expects a shape of the given rank'')
      else Inr \<lparr>pool_shape = key_shape, free_slots = py_range (key_shape ! 1), pool_leases = [],
                max_used_slots = 0, allocation_count = 0, release_count = 0\<rparr>)"

definition mk_beam_pool :: "int list \<Rightarrow> int list \<Rightarrow> GRBeamKVPoolLease dense_pool py_result" where
  "mk_beam_pool = mk_dense_pool 6"

definition mk_context_pool :: "int list \<Rightarrow> int list \<Rightarrow> GRContextKVPoolLease dense_pool py_result" where
  "mk_context_pool = mk_dense_pool 5"

definition beam_pool_like_context ::
  "int list \<Rightarrow> int \<Rightarrow> int \<Rightarrow> int \<Rightarrow> GRBeamKVPoolLease dense_pool py_result" where
  "beam_pool_like_context context_shape max_requests steps width =
     (if max_requests \<le> 0 then Inl (ValueError ''max_requests must be positive'')
      else if steps \<le> 0 then Inl (ValueError ''max_decode_steps must be positive'')
      else if width \<le> 0 then Inl (ValueError ''max_beam_width must be positive'')
      else let shape = [context_shape ! 0, max_requests, steps, width, context_shape ! 3, context_shape ! 4]
           in mk_beam_pool shape shape)"

definition pool_capacity :: "'l dense_pool \<Rightarrow> int" where
  "pool_capacity p = pool_shape p ! 1"

definition pool_max_context_len :: "'l dense_pool \<Rightarrow> int" where
  "pool_max_context_len p = pool_shape p ! 2"

text \<open>The length of the slice \<open>[a:b]\<close> of an axis of length \<open>n\<close>, for bounds that are not negative.\<close>

definition slice_len :: "int \<Rightarrow> int \<Rightarrow> int \<Rightarrow> int" where
  "slice_len n a b = max 0 (min b n - min a n)"

definition beam_view_shape :: "int list \<Rightarrow> int \<Rightarrow> int list" where
  "beam_view_shape shape slot = shape[1 := slice_len (shape ! 1) slot (slot + 1)]"

definition context_view_shape :: "int list \<Rightarrow> int \<Rightarrow> int \<Rightarrow> int list" where
  "context_view_shape shape slot len =
     shape[1 := slice_len (shape ! 1) slot (slot + 1), 2 := slice_len (shape ! 2) 0 len]"

text \<open>The \<open>BeamKV\<close> and \<open>ContextKV\<close> constructors reject a view with an axis of length zero.\<close>

definition check_view :: "int list \<Rightarrow> unit py_result" where
  "check_view shape =
     (if \<exists>d \<in> set shape. d \<le> 0 then Inl (ValueError ''shape dimensions must be positive'') else Inr ())"

definition record_leases :: "(string \<times> 'l) list \<Rightarrow> 'l dense_pool \<Rightarrow> 'l dense_pool" where
  "record_leases ls p =
     (let p1 = p\<lparr>pool_leases := foldl (\<lambda>d (rid, l). dict_set rid l d) (pool_leases p) ls,
                 allocation_count := allocation_count p + int (length ls)\<rparr>
      in p1\<lparr>max_used_slots := max (max_used_slots p) (int (length (pool_leases p1)))\<rparr>)"

definition beam_pool_can_allocate :: "string \<Rightarrow> 'l dense_pool \<Rightarrow> bool" where
  "beam_pool_can_allocate rid p \<longleftrightarrow> rid \<in> set (dict_keys (pool_leases p)) \<or> free_slots p \<noteq> []"

definition beam_pool_allocate ::
  "string \<Rightarrow> GRBeamKVPoolLease dense_pool
   \<Rightarrow> GRBeamKVPoolLease py_result \<times> GRBeamKVPoolLease dense_pool" where
  "beam_pool_allocate rid p =
     (if rid \<in> set (dict_keys (pool_leases p))
      then (Inl (ValueError ''request already has a BeamKV pool lease''), p)
      else case free_slots p of
        [] \<Rightarrow> (Inl (MemoryError ''no BeamKV pool slots available for request''), p)
      | slot # rest \<Rightarrow>
          (let p1 = p\<lparr>free_slots := rest\<rparr>; view = beam_view_shape (pool_shape p) slot
           in case check_view view of
                Inl e \<Rightarrow> (Inl e, p1)
              | Inr _ \<Rightarrow>
                  (let l = \<lparr>pool_request_id = rid, pool_slot = slot, pool_view_shape = view\<rparr>
                   in (Inr l, record_leases [(rid, l)] p1))))"

definition context_pool_can_allocate :: "string \<Rightarrow> int \<Rightarrow> 'l dense_pool \<Rightarrow> bool" where
  "context_pool_can_allocate rid len p \<longleftrightarrow>
     rid \<in> set (dict_keys (pool_leases p)) \<or> (free_slots p \<noteq> [] \<and> len \<le> pool_max_context_len p)"

definition context_pool_allocate ::
  "string \<Rightarrow> int \<Rightarrow> GRContextKVPoolLease dense_pool
   \<Rightarrow> GRContextKVPoolLease py_result \<times> GRContextKVPoolLease dense_pool" where
  "context_pool_allocate rid len p =
     (if rid \<in> set (dict_keys (pool_leases p))
      then (Inl (ValueError ''request already has a ContextKV pool lease''), p)
      else if len \<le> 0 \<or> len > pool_max_context_len p
      then (Inl (ValueError ''context_len must be in (0, max_context_len]''), p)
      else case free_slots p of
        [] \<Rightarrow> (Inl (MemoryError ''no ContextKV pool slots available for request''), p)
      | slot # rest \<Rightarrow>
          (let p1 = p\<lparr>free_slots := rest\<rparr>; view = context_view_shape (pool_shape p) slot len
           in case check_view view of
                Inl e \<Rightarrow> (Inl e, p1)
              | Inr _ \<Rightarrow>
                  (let l = \<lparr>pool_request_id = rid, pool_slot = slot, pool_view_shape = view, pool_context_len = len\<rparr>
                   in (Inr l, record_leases [(rid, l)] p1))))"

definition context_pool_allocate_batch ::
  "string list \<Rightarrow> int \<Rightarrow> GRContextKVPoolLease dense_pool
   \<Rightarrow> GRContextKVPoolLease list option py_result \<times> GRContextKVPoolLease dense_pool" where
  "context_pool_allocate_batch rids len p =
     (if rids = [] then (Inr (Some []), p)
      else if \<exists>rid \<in> set rids. rid \<in> set (dict_keys (pool_leases p))
      then (Inl (ValueError ''request already has a ContextKV pool lease''), p)
      else if len \<le> 0 \<or> len > pool_max_context_len p
      then (Inl (ValueError ''context_len must be in (0, max_context_len]''), p)
      else case first_free_run (free_slots p) (int (length rids)) of
        None \<Rightarrow> (Inr None, p)
      | Some start \<Rightarrow>
          (let slots = map (\<lambda>i. start + i) (py_range (int (length rids)));
               p1 = p\<lparr>free_slots := fold remove1 slots (free_slots p)\<rparr>
           in case map_res (\<lambda>slot. check_view (context_view_shape (pool_shape p) slot len)) slots of
                Inl e \<Rightarrow> (Inl e, p1)
              | Inr _ \<Rightarrow>
                  (let ls = map (\<lambda>(rid, slot). \<lparr>pool_request_id = rid, pool_slot = slot,
                              pool_view_shape = context_view_shape (pool_shape p) slot len,
                              pool_context_len = len\<rparr>) (zip rids slots)
                   in (Inr (Some ls), record_leases (map (\<lambda>l. (pool_request_id l, l)) ls) p1))))"

definition release_slot_lease ::
  "string \<Rightarrow> ('a GRBeamKVPoolLease_scheme) dense_pool
   \<Rightarrow> 'a GRBeamKVPoolLease_scheme option \<times> ('a GRBeamKVPoolLease_scheme) dense_pool" where
  "release_slot_lease rid p =
     (case map_of (pool_leases p) rid of
        None \<Rightarrow> (None, p)
      | Some l \<Rightarrow> (Some l, p\<lparr>pool_leases := dict_pop rid (pool_leases p),
                    free_slots := sort (free_slots p @ [pool_slot l])\<rparr>))"

definition pool_release ::
  "string \<Rightarrow> ('a GRBeamKVPoolLease_scheme) dense_pool
   \<Rightarrow> 'a GRBeamKVPoolLease_scheme option \<times> ('a GRBeamKVPoolLease_scheme) dense_pool" where
  "pool_release rid p =
     (case release_slot_lease rid p of
        (None, p') \<Rightarrow> (None, p')
      | (Some l, p') \<Rightarrow> (Some l, p'\<lparr>release_count := release_count p' + 1\<rparr>))"

definition beam_pool_status :: "'l dense_pool \<Rightarrow> (string, pyval) dict" where
  "beam_pool_status p =
     (let cap = pool_capacity p; used = int (length (pool_leases p)) in
     [(''beam_kv_pool_capacity'', PInt cap),
      (''beam_kv_pool_used'', PInt used),
      (''beam_kv_pool_free'', PInt (int (length (free_slots p)))),
      (''beam_kv_pool_slot_shape'', PList (map PInt (pool_shape p))),
      (''beam_kv_pool_slot_allocation_policy'', PStr ''lowest_free_slot''),
      (''beam_kv_pool_release_policy'', PStr ''immediate_reuse''),
      (''beam_kv_pool_allocation_count'', PInt (allocation_count p)),
      (''beam_kv_pool_release_count'', PInt (release_count p)),
      (''beam_kv_pool_max_used'', PInt (max_used_slots p)),
      (''beam_kv_pool_utilization'', opt_ratio (utilization used (Some cap))),
      (''beam_kv_pool_high_watermark_utilization'', opt_ratio (utilization (max_used_slots p) (Some cap))),
      (''free_slot_runs'', run_list (free_runs (free_slots p))),
      (''lease_request_ids'', PList (map PStr (sort (dict_keys (pool_leases p)))))])"

definition context_pool_status :: "'l dense_pool \<Rightarrow> (string, pyval) dict" where
  "context_pool_status p =
     (let cap = pool_capacity p; used = int (length (pool_leases p)) in
     [(''context_kv_pool_capacity'', PInt cap),
      (''context_kv_pool_used'', PInt used),
      (''context_kv_pool_free'', PInt (int (length (free_slots p)))),
      (''context_kv_pool_slot_shape'', PList (map PInt (pool_shape p))),
      (''context_kv_pool_allocation_count'', PInt (allocation_count p)),
      (''context_kv_pool_release_count'', PInt (release_count p)),
      (''context_kv_pool_max_used'', PInt (max_used_slots p)),
      (''context_kv_pool_utilization'', opt_ratio (utilization used (Some cap))),
      (''context_kv_pool_high_watermark_utilization'', opt_ratio (utilization (max_used_slots p) (Some cap))),
      (''lease_request_ids'', PList (map PStr (sort (dict_keys (pool_leases p)))))])"

section \<open>Invariant\<close>

definition pool_inv :: "('a GRBeamKVPoolLease_scheme) dense_pool \<Rightarrow> bool" where
  "pool_inv p \<longleftrightarrow> 2 < length (pool_shape p) \<and> (\<forall>d \<in> set (pool_shape p). 0 < d)
     \<and> wf_dict (pool_leases p) \<and> (\<forall>(i, l) \<in> set (pool_leases p). pool_request_id l = i)
     \<and> pages_partition (Some (pool_capacity p)) (free_slots p) (\<lambda>l. [pool_slot l]) (pool_leases p)
     \<and> allocation_count p - release_count p = int (length (pool_leases p))
     \<and> int (length (pool_leases p)) \<le> max_used_slots p \<and> max_used_slots p \<le> pool_capacity p"

lemma mk_dense_pool_inv:
  assumes "mk_dense_pool rank ks vs = Inr p" and "\<forall>d \<in> set ks. 0 < d" and "2 < rank"
  shows "pool_inv p \<and> pool_shape p = ks"
proof -
  have "p = \<lparr>pool_shape = ks, free_slots = py_range (ks ! 1), pool_leases = [],
     max_used_slots = 0, allocation_count = 0, release_count = 0\<rparr>" and len: "length ks = rank"
    using assms(1) by (auto simp: mk_dense_pool_def split: if_splits)
  moreover have "0 \<le> ks ! 1" using assms(2,3) len by (simp add: less_imp_le)
  ultimately show ?thesis
    using assms(2,3) by (simp add: pool_inv_def pool_capacity_def pages_partition_range)
qed

lemma foldl_dict_set_new:
  assumes "distinct (map fst ls)" and "set (map fst ls) \<inter> set (dict_keys d) = {}"
  shows "foldl (\<lambda>d (rid, l). dict_set rid l d) d ls = d @ ls"
  using assms
proof (induction ls arbitrary: d)
  case Nil
  then show ?case by simp
next
  case (Cons x ls)
  obtain i l where x: "x = (i, l)" by (cases x)
  then have "i \<notin> set (dict_keys d)" using Cons.prems(2) by simp
  then have "dict_set i l d = d @ [(i, l)]" by (rule dict_set_new)
  moreover have "foldl (\<lambda>d (rid, l). dict_set rid l d) (d @ [(i, l)]) ls = (d @ [(i, l)]) @ ls"
    by (rule Cons.IH) (use Cons.prems x in auto)
  ultimately show ?case using x by simp
qed

lemma slots_within_capacity:
  assumes "pages_partition (Some n) free (\<lambda>l. [pool_slot l]) d" and "0 \<le> n"
  shows "int (length free) + int (length d) = n"
proof -
  have "dict_sum (\<lambda>l. int (length [pool_slot l])) d = int (length d)" by (induction d) auto
  then show ?thesis using pages_partition_length [OF assms(1)] assms(2) by (simp add: initial_free_def)
qed

lemma record_leases_inv:
  assumes inv: "pool_inv p" and new: "distinct (map fst ls)" "set (map fst ls) \<inter> set (dict_keys (pool_leases p)) = {}"
    and own: "\<forall>(i, l) \<in> set ls. pool_request_id l = i"
    and free: "sorted free" "mset (free_slots p) = mset free + mset (map (pool_slot \<circ> snd) ls)"
  shows "pool_inv (record_leases ls (p\<lparr>free_slots := free\<rparr>))"
    and "pool_leases (record_leases ls (p\<lparr>free_slots := free\<rparr>)) = pool_leases p @ ls"
proof -
  have ls: "foldl (\<lambda>d (rid, l). dict_set rid l d) (pool_leases p) ls = pool_leases p @ ls"
    by (rule foldl_dict_set_new [OF new])
  then show lv: "pool_leases (record_leases ls (p\<lparr>free_slots := free\<rparr>)) = pool_leases p @ ls"
    by (simp add: record_leases_def Let_def)
  have "pages_of (\<lambda>l. [pool_slot l]) (pool_leases p @ ls)
      = pages_of (\<lambda>l. [pool_slot l]) (pool_leases p) @ map (pool_slot \<circ> snd) ls"
    by (induction ls) (auto simp: pages_of_def)
  then have part: "pages_partition (Some (pool_capacity p)) free (\<lambda>l. [pool_slot l]) (pool_leases p @ ls)"
    using inv free by (simp add: pool_inv_def pages_partition_def ac_simps)
  have "0 < pool_capacity p" using inv by (auto simp: pool_inv_def pool_capacity_def)
  then have "int (length (pool_leases p @ ls)) \<le> pool_capacity p"
    using slots_within_capacity [OF part] by linarith
  then show "pool_inv (record_leases ls (p\<lparr>free_slots := free\<rparr>))"
    using inv new own part ls
    by (auto simp: pool_inv_def record_leases_def Let_def pool_capacity_def)
qed

lemma view_ok:
  assumes "pool_inv p" and "s \<in> set (free_slots p)"
  shows "0 \<le> s" and "s < pool_capacity p" and "slice_len (pool_capacity p) s (s + 1) = 1"
    and "check_view (beam_view_shape (pool_shape p) s) = Inr ()"
    and "0 < len \<Longrightarrow> check_view (context_view_shape (pool_shape p) s len) = Inr ()"
proof -
  have part: "pages_partition (Some (pool_capacity p)) (free_slots p) (\<lambda>l. [pool_slot l]) (pool_leases p)"
    using assms(1) by (simp add: pool_inv_def)
  have "s \<in> set (initial_free (Some (pool_capacity p)))"
    using pages_partition_distinct(2) [OF part] assms(2) by blast
  then show s: "0 \<le> s" "s < pool_capacity p" by (simp_all add: initial_free_def)
  then show sl: "slice_len (pool_capacity p) s (s + 1) = 1" by (simp add: slice_len_def)
  have pos: "\<forall>d \<in> set (pool_shape p). 0 < d" and len2: "2 < length (pool_shape p)"
    using assms(1) by (simp_all add: pool_inv_def)
  have upd: "\<forall>d \<in> set (xs[k := v]). 0 < d" if "\<forall>d \<in> set xs. 0 < d" "0 < v" for xs :: "int list" and k v
    using that set_update_subset_insert [of xs k v] by blast
  have "\<forall>d \<in> set (beam_view_shape (pool_shape p) s). 0 < d"
    unfolding beam_view_shape_def by (rule upd [OF pos]) (use sl in \<open>simp add: pool_capacity_def\<close>)
  then show "check_view (beam_view_shape (pool_shape p) s) = Inr ()" by (auto simp: check_view_def)
  assume "0 < len"
  moreover have "0 < pool_shape p ! 2" using pos len2 by simp
  ultimately have "\<forall>d \<in> set (context_view_shape (pool_shape p) s len). 0 < d"
    unfolding context_view_shape_def
    by (intro upd pos) (use sl in \<open>simp_all add: pool_capacity_def slice_len_def\<close>)
  then show "check_view (context_view_shape (pool_shape p) s len) = Inr ()" by (auto simp: check_view_def)
qed

lemma free_head_least: "pool_inv p \<Longrightarrow> free_slots p = s # rest \<Longrightarrow> s = Min (set (free_slots p))"
  by (auto simp: pool_inv_def pages_partition_def intro!: Min_eqI [symmetric])

section \<open>Operations keep the invariant\<close>

lemma beam_pool_allocate_cases:
  assumes "pool_inv p"
  shows "pool_inv (snd (beam_pool_allocate rid p))
    \<and> (case fst (beam_pool_allocate rid p) of
         Inl e \<Rightarrow> snd (beam_pool_allocate rid p) = p
       | Inr l \<Rightarrow> pool_request_id l = rid \<and> free_slots p = pool_slot l # free_slots (snd (beam_pool_allocate rid p))
           \<and> pool_leases (snd (beam_pool_allocate rid p)) = pool_leases p @ [(rid, l)])"
proof (cases "rid \<in> set (dict_keys (pool_leases p)) \<or> free_slots p = []")
  case True
  then show ?thesis using assms by (auto simp: beam_pool_allocate_def del: imageE)
next
  case False
  then obtain s rest where f: "free_slots p = s # rest" by (auto simp: neq_Nil_conv)
  let ?l = "\<lparr>pool_request_id = rid, pool_slot = s, pool_view_shape = beam_view_shape (pool_shape p) s\<rparr>"
  have al: "beam_pool_allocate rid p = (Inr ?l, record_leases [(rid, ?l)] (p\<lparr>free_slots := rest\<rparr>))"
    using False f view_ok(4) [OF assms, of s] by (simp add: beam_pool_allocate_def Let_def)
  have "sorted rest" using assms f by (simp add: pool_inv_def pages_partition_def)
  note rl = record_leases_inv [OF assms, of "[(rid, ?l)]" rest]
  show ?thesis
    using rl \<open>sorted rest\<close> False f al by (auto simp: record_leases_def Let_def del: imageE)
qed

lemma context_pool_allocate_cases:
  assumes "pool_inv p"
  shows "pool_inv (snd (context_pool_allocate rid len p))
    \<and> (case fst (context_pool_allocate rid len p) of
         Inl e \<Rightarrow> snd (context_pool_allocate rid len p) = p
       | Inr l \<Rightarrow> pool_request_id l = rid \<and> pool_context_len l = len
           \<and> free_slots p = pool_slot l # free_slots (snd (context_pool_allocate rid len p))
           \<and> pool_leases (snd (context_pool_allocate rid len p)) = pool_leases p @ [(rid, l)])"
proof (cases "rid \<in> set (dict_keys (pool_leases p)) \<or> free_slots p = [] \<or> len \<le> 0 \<or> len > pool_max_context_len p")
  case True
  then show ?thesis using assms by (auto simp: context_pool_allocate_def del: imageE)
next
  case False
  then obtain s rest where f: "free_slots p = s # rest" by (auto simp: neq_Nil_conv)
  let ?l = "\<lparr>pool_request_id = rid, pool_slot = s, pool_view_shape = context_view_shape (pool_shape p) s len,
     pool_context_len = len\<rparr>"
  have al: "context_pool_allocate rid len p = (Inr ?l, record_leases [(rid, ?l)] (p\<lparr>free_slots := rest\<rparr>))"
    using False f view_ok(5) [OF assms, of s len] by (simp add: context_pool_allocate_def Let_def)
  have "sorted rest" using assms f by (simp add: pool_inv_def pages_partition_def)
  note rl = record_leases_inv [OF assms, of "[(rid, ?l)]" rest]
  show ?thesis
    using rl \<open>sorted rest\<close> False f al by (auto simp: record_leases_def Let_def del: imageE)
qed

lemma pool_release_cases:
  assumes "pool_inv p"
  shows "pool_inv (snd (pool_release rid p)) \<and> fst (pool_release rid p) = map_of (pool_leases p) rid
    \<and> pool_leases (snd (pool_release rid p)) = dict_pop rid (pool_leases p)"
proof (cases "map_of (pool_leases p) rid")
  case None
  then have "dict_pop rid (pool_leases p) = pool_leases p" by (simp add: map_of_None_iff_keys)
  then show ?thesis using assms None by (simp add: pool_release_def release_slot_lease_def)
next
  case (Some l)
  have wf: "wf_dict (pool_leases p)" using assms by (simp add: pool_inv_def)
  let ?p = "p\<lparr>pool_leases := dict_pop rid (pool_leases p), free_slots := sort (free_slots p @ [pool_slot l]),
     release_count := release_count p + 1\<rparr>"
  have r: "pool_release rid p = (Some l, ?p)" using Some by (simp add: pool_release_def release_slot_lease_def)
  have "pages_partition (Some (pool_capacity p)) (sort (free_slots p @ [pool_slot l])) (\<lambda>l. [pool_slot l])
      (dict_pop rid (pool_leases p))"
    using pages_partition_release [OF _ wf Some, of "Some (pool_capacity p)" "free_slots p" "\<lambda>l. [pool_slot l]"] assms
    by (simp add: pool_inv_def)
  moreover have "\<forall>(i, l) \<in> set (dict_pop rid (pool_leases p)). pool_request_id l = i"
    using assms dict_pop_subset [of rid "pool_leases p"] by (auto simp: pool_inv_def)
  ultimately have "pool_inv ?p"
    using assms length_dict_pop [OF wf Some] wf_dict_pop [OF wf] by (auto simp: pool_inv_def pool_capacity_def)
  then show ?thesis using r Some by simp
qed

lemma fold_remove1:
  assumes "distinct ss" and "set ss \<subseteq> set free" and "sorted free" and "distinct free"
  shows "mset free = mset (fold remove1 ss free) + mset ss \<and> sorted (fold remove1 ss free)"
  using assms
proof (induction ss arbitrary: free)
  case Nil
  then show ?case by simp
next
  case (Cons s ss)
  have "mset (remove1 s free) = mset (fold remove1 ss (remove1 s free)) + mset ss \<and> sorted (fold remove1 ss (remove1 s free))"
  proof (rule Cons.IH)
    show "distinct ss" "sorted (remove1 s free)" "distinct (remove1 s free)"
      using Cons.prems by (simp_all add: sorted_remove1)
    show "set ss \<subseteq> set (remove1 s free)" using Cons.prems(1,2) set_remove1_eq [OF Cons.prems(4), of s] by auto
  qed
  moreover have "mset free = add_mset s (mset (remove1 s free))" using Cons.prems(2) by simp
  ultimately show ?case by (metis add_mset_add_single fold_simps(2) mset.simps(2) union_mset_add_mset_right)
qed

lemma batch_slots: "set (map (\<lambda>i. start + i) (py_range n)) = {start..<start + n}"
proof
  show "set (map (\<lambda>i. start + i) (py_range n)) \<subseteq> {start..<start + n}" by auto
  show "{start..<start + n} \<subseteq> set (map (\<lambda>i. start + i) (py_range n))"
  proof
    fix x
    assume "x \<in> {start..<start + n}"
    then have "x = start + (x - start)" and "x - start \<in> {0..<n}" by auto
    then show "x \<in> set (map (\<lambda>i. start + i) (py_range n))" by (metis image_eqI set_map set_py_range)
  qed
qed

lemma allocate_batch_granted:
  assumes inv: "pool_inv p" and rids: "rids \<noteq> []" "distinct rids" "set rids \<inter> set (dict_keys (pool_leases p)) = {}"
    and len: "0 < len" "len \<le> pool_max_context_len p"
    and run: "first_free_run (free_slots p) (int (length rids)) = Some start"
  shows "\<exists>ls p'. context_pool_allocate_batch rids len p = (Inr (Some ls), p') \<and> pool_inv p'
     \<and> pool_leases p' = pool_leases p @ zip rids ls \<and> map pool_request_id ls = rids
     \<and> map pool_slot ls = map (\<lambda>i. start + i) (py_range (int (length rids)))
     \<and> {start..<start + int (length rids)} \<subseteq> set (free_slots p)"
proof -
  let ?n = "int (length rids)"
  define slots where "slots = map (\<lambda>i. start + i) (py_range ?n)"
  define ls where "ls = map (\<lambda>(rid, slot). \<lparr>pool_request_id = rid, pool_slot = slot,
     pool_view_shape = context_view_shape (pool_shape p) slot len, pool_context_len = len\<rparr>) (zip rids slots)"
  have part: "pages_partition (Some (pool_capacity p)) (free_slots p) (\<lambda>l. [pool_slot l]) (pool_leases p)"
    using inv by (simp add: pool_inv_def)
  have df: "distinct (free_slots p)" and sf: "sorted (free_slots p)"
    using pages_partition_distinct(1) [OF part] part by (simp_all add: pages_partition_def)
  have sub: "{start..<start + ?n} \<subseteq> set (free_slots p)"
    using first_run_of_spec [of "free_runs (free_slots p)" ?n] free_runs_spec [OF df] run rids(1)
    by (simp add: first_free_run_def)
  then have subs: "set slots \<subseteq> set (free_slots p)" unfolding slots_def batch_slots .
  have ds: "distinct slots" by (simp add: slots_def distinct_map inj_on_def)
  have lens: "length slots = length rids" by (simp add: slots_def)
  have checks: "map_res (\<lambda>slot. check_view (context_view_shape (pool_shape p) slot len)) slots
      = Inr (map (\<lambda>_. ()) slots)"
    by (rule map_res_total) (use view_ok(5) [OF inv _ len(1)] subs in blast)
  have ids: "map pool_request_id ls = rids" and sl: "map pool_slot ls = slots" and ll: "length ls = length rids"
    using lens by (simp_all add: ls_def comp_def case_prod_beta list_eq_iff_nth_eq)
  have pairs: "map (\<lambda>l. (pool_request_id l, l)) ls = zip rids ls"
    using ids ll by (auto simp: list_eq_iff_nth_eq)
  have al: "context_pool_allocate_batch rids len p =
     (Inr (Some ls), record_leases (zip rids ls) (p\<lparr>free_slots := fold remove1 slots (free_slots p)\<rparr>))"
    using rids len run checks pairs
    by (auto simp: context_pool_allocate_batch_def Let_def slots_def [symmetric] ls_def [symmetric] disjoint_iff)
  note fr = fold_remove1 [OF ds subs sf df]
  have zfst: "map fst (zip rids ls) = rids" and zs: "map (pool_slot \<circ> snd) (zip rids ls) = slots"
    using ll sl by (simp_all add: map_map [symmetric] del: map_map)
  have own: "\<forall>(i, l) \<in> set (zip rids ls). pool_request_id l = i"
    unfolding pairs [symmetric] by auto
  have "pool_inv (record_leases (zip rids ls) (p\<lparr>free_slots := fold remove1 slots (free_slots p)\<rparr>))"
    "pool_leases (record_leases (zip rids ls) (p\<lparr>free_slots := fold remove1 slots (free_slots p)\<rparr>))
       = pool_leases p @ zip rids ls"
    using record_leases_inv [OF inv _ _ own, of "fold remove1 slots (free_slots p)"] rids fr
    unfolding zfst zs by simp_all
  then show ?thesis using al ids sl sub by (auto simp: slots_def)
qed

lemma allocate_batch_inv:
  assumes inv: "pool_inv p" and "distinct rids"
  shows "pool_inv (snd (context_pool_allocate_batch rids len p))"
proof (cases "rids \<noteq> [] \<and> set rids \<inter> set (dict_keys (pool_leases p)) = {} \<and> 0 < len \<and> len \<le> pool_max_context_len p
     \<and> (\<exists>start. first_free_run (free_slots p) (int (length rids)) = Some start)")
  case True
  then obtain start where "first_free_run (free_slots p) (int (length rids)) = Some start" by blast
  from allocate_batch_granted [OF inv _ assms(2) _ _ _ this] True show ?thesis by fastforce
next
  case False
  have "snd (context_pool_allocate_batch rids len p) = p"
  proof (cases "first_free_run (free_slots p) (int (length rids))")
    case None
    then show ?thesis by (simp add: context_pool_allocate_batch_def)
  next
    case (Some start)
    then have "rids = [] \<or> \<not> set rids \<inter> set (dict_keys (pool_leases p)) = {} \<or> len \<le> 0 \<or> pool_max_context_len p < len"
      using False by (meson not_le)
    then show ?thesis by (auto simp: context_pool_allocate_batch_def disjoint_iff simp del: set_map)
  qed
  then show ?thesis using inv by simp
qed

section \<open>Properties\<close>

datatype pool_op =
    PoolAllocate string int
  | PoolAllocateBatch "string list" int
  | PoolRelease string

fun pool_step :: "pool_op \<Rightarrow> GRContextKVPoolLease dense_pool \<Rightarrow> GRContextKVPoolLease dense_pool" where
  "pool_step (PoolAllocate rid len) p = snd (context_pool_allocate rid len p)"
| "pool_step (PoolAllocateBatch rids len) p = snd (context_pool_allocate_batch rids len p)"
| "pool_step (PoolRelease rid) p = snd (pool_release rid p)"

fun pool_op_ok :: "pool_op \<Rightarrow> bool" where
  "pool_op_ok (PoolAllocateBatch rids len) = distinct rids"
| "pool_op_ok _ = True"

lemma record_leases_shape [simp]: "pool_shape (record_leases ls p) = pool_shape p"
  by (simp add: record_leases_def Let_def)

lemma pool_step_keeps:
  assumes "pool_inv p" and "pool_op_ok op"
  shows "pool_inv (pool_step op p) \<and> pool_shape (pool_step op p) = pool_shape p"
proof (cases op)
  case (PoolAllocate rid len)
  then show ?thesis
    using context_pool_allocate_cases [OF assms(1), of rid len]
    by (auto simp: context_pool_allocate_def Let_def split: list.splits sum.splits)
next
  case (PoolAllocateBatch rids len)
  then show ?thesis
    using allocate_batch_inv [OF assms(1), of rids len] assms(2)
    by (auto simp: context_pool_allocate_batch_def Let_def split: option.splits sum.splits)
next
  case (PoolRelease rid)
  then show ?thesis
    using pool_release_cases [OF assms(1), of rid]
    by (auto simp: pool_release_def release_slot_lease_def split: option.splits)
qed

lemma pool_run_keeps:
  "pool_inv p \<Longrightarrow> \<forall>op \<in> set ops. pool_op_ok op \<Longrightarrow>
     pool_inv (fold pool_step ops p) \<and> pool_shape (fold pool_step ops p) = pool_shape p"
proof (induction ops arbitrary: p)
  case Nil
  then show ?case by simp
next
  case (Cons op ops)
  then show ?case using pool_step_keeps [of p op] by simp
qed

text \<open>C33: after any sequence of single allocations, batch allocations of distinct ids and releases,
  successful or not, no slot of a context pool is lost or shared: free and leased slots together are
  exactly the pool's slots, each once, and the counters account for the leases.\<close>

theorem pool_slots_conserved:
  assumes "mk_context_pool ks vs = Inr p0" and "\<forall>d \<in> set ks. 0 < d"
    and "\<forall>op \<in> set ops. pool_op_ok op" and "p = fold pool_step ops p0"
  shows "distinct (free_slots p @ map (pool_slot \<circ> snd) (pool_leases p))
    \<and> set (free_slots p) \<union> set (map (pool_slot \<circ> snd) (pool_leases p)) = {0..<pool_capacity p0}
    \<and> allocation_count p - release_count p = int (length (pool_leases p))
    \<and> int (length (pool_leases p)) \<le> max_used_slots p \<and> max_used_slots p \<le> pool_capacity p0"
proof -
  have "pool_inv p0" using mk_dense_pool_inv [of 5 ks vs p0] assms(1,2) by (simp add: mk_context_pool_def)
  note run = pool_run_keeps [OF this assms(3), folded assms(4)]
  have cap: "pool_capacity p = pool_capacity p0" using run by (simp add: pool_capacity_def)
  have part: "pages_partition (Some (pool_capacity p0)) (free_slots p) (\<lambda>l. [pool_slot l]) (pool_leases p)"
    using run unfolding pool_inv_def cap by blast
  have "pages_of (\<lambda>l. [pool_slot l]) d = map (pool_slot \<circ> snd) d" for d :: "(string, GRContextKVPoolLease) dict"
    by (induction d) (auto simp: pages_of_def)
  then show ?thesis
    using pages_partition_distinct [OF part] run cap by (simp add: initial_free_def pool_inv_def)
qed

definition ex_pool :: "GRContextKVPoolLease dense_pool" where
  "ex_pool = \<lparr>pool_shape = [2, 4, 16, 1, 8], free_slots = [0, 1, 2, 3], pool_leases = [],
     max_used_slots = 0, allocation_count = 0, release_count = 0\<rparr>"

definition ex_pool_ops :: "pool_op list" where
  "ex_pool_ops = [PoolAllocate ''a'' 3, PoolAllocateBatch [''b'', ''c''] 16, PoolRelease ''b'', PoolAllocateBatch [''d'', ''e''] 4]"

lemma ex_pool_made: "mk_context_pool [2, 4, 16, 1, 8] [2, 4, 16, 1, 8] = Inr ex_pool"
  by code_simp

theorem pool_slots_conserved_witness:
  "distinct (free_slots (fold pool_step ex_pool_ops ex_pool)
      @ map (pool_slot \<circ> snd) (pool_leases (fold pool_step ex_pool_ops ex_pool)))
   \<and> free_slots (fold pool_step ex_pool_ops ex_pool) = [1, 3]"
proof -
  have "\<forall>d \<in> set [2, 4, 16, 1, 8]. 0 < (d::int)" and "\<forall>op \<in> set ex_pool_ops. pool_op_ok op" by code_simp+
  from pool_slots_conserved [OF ex_pool_made this refl] show ?thesis
    by (intro conjI) (simp, code_simp)
qed

text \<open>C34: a batch allocation is contiguous and all or nothing: it leases to the requests, in order, the
  lowest block of adjacent free slots that is long enough, and declines, changing nothing, exactly
  when there is no such block.\<close>

theorem allocate_batch_contiguous:
  assumes "pool_inv p" and "rids \<noteq> []" and "distinct rids"
    and "set rids \<inter> set (dict_keys (pool_leases p)) = {}"
    and "0 < len" and "len \<le> pool_max_context_len p"
  shows "(\<exists>ls p' start. context_pool_allocate_batch rids len p = (Inr (Some ls), p')
        \<and> map pool_request_id ls = rids \<and> map pool_slot ls = map (\<lambda>i. start + i) (py_range (int (length rids)))
        \<and> {start..<start + int (length rids)} \<subseteq> set (free_slots p)
        \<and> (\<forall>t. {t..<t + int (length rids)} \<subseteq> set (free_slots p) \<longrightarrow> start \<le> t)
        \<and> pool_leases p' = pool_leases p @ zip rids ls)
     \<or> (context_pool_allocate_batch rids len p = (Inr None, p)
        \<and> (\<forall>t. \<not> {t..<t + int (length rids)} \<subseteq> set (free_slots p)))"
proof -
  let ?n = "int (length rids)"
  have df: "distinct (free_slots p)"
    using assms(1) pages_partition_distinct(1) by (fastforce simp: pool_inv_def)
  note spec = first_run_of_spec [of "free_runs (free_slots p)" ?n] free_runs_spec [OF df]
  show ?thesis
  proof (cases "first_free_run (free_slots p) ?n")
    case None
    then have "context_pool_allocate_batch rids len p = (Inr None, p)"
      using assms by (auto simp: context_pool_allocate_batch_def disjoint_iff simp del: set_map)
    then show ?thesis using None spec assms(2) by (simp add: first_free_run_def)
  next
    case (Some start)
    have "\<forall>t. {t..<t + ?n} \<subseteq> set (free_slots p) \<longrightarrow> start \<le> t"
      using Some spec assms(2) by (simp add: first_free_run_def)
    then show ?thesis using allocate_batch_granted [OF assms Some] by blast
  qed
qed

theorem allocate_batch_contiguous_witness:
  "\<exists>ls p'. context_pool_allocate_batch [''x'', ''y''] 5 ex_pool = (Inr (Some ls), p')
     \<and> map pool_request_id ls = [''x'', ''y'']"
proof -
  have inv: "pool_inv ex_pool"
    using mk_dense_pool_inv [of 5 "[2, 4, 16, 1, 8]" "[2, 4, 16, 1, 8]" ex_pool] ex_pool_made
    by (simp add: mk_context_pool_def)
  have free: "{0..<0 + int (length [''x'', ''y''])} \<subseteq> set (free_slots ex_pool)" by (auto simp: ex_pool_def)
  show ?thesis
    using allocate_batch_contiguous [OF inv, of "[''x'', ''y'']" 5] free
    by (fastforce simp: ex_pool_def pool_max_context_len_def)
qed

text \<open>The BeamKV pool serves the lowest free slot and the slot comes back: a successful allocation
  takes the minimum of the free slots, and releasing it restores leases and free slots exactly.\<close>

theorem beam_pool_lowest_free_slot:
  assumes "pool_inv p" and "beam_pool_allocate rid p = (Inr l, p')"
  shows "pool_slot l = Min (set (free_slots p)) \<and> pool_slot l \<notin> pool_slot ` snd ` set (pool_leases p)
    \<and> fst (pool_release rid p') = Some l
    \<and> free_slots (snd (pool_release rid p')) = free_slots p
    \<and> pool_leases (snd (pool_release rid p')) = pool_leases p"
proof -
  note al = beam_pool_allocate_cases [OF assms(1), of rid, unfolded assms(2), simplified]
  have new: "rid \<notin> set (dict_keys (pool_leases p))" using assms(2) by (cases "rid \<in> set (dict_keys (pool_leases p))") (simp_all add: beam_pool_allocate_def)
  have part: "pages_partition (Some (pool_capacity p)) (free_slots p) (\<lambda>l. [pool_slot l]) (pool_leases p)"
    using assms(1) by (simp add: pool_inv_def)
  have po: "pages_of (\<lambda>l. [pool_slot l]) d = map (pool_slot \<circ> snd) d" for d :: "(string, GRBeamKVPoolLease) dict"
    by (induction d) (auto simp: pages_of_def)
  have sf: "sorted (free_slots p)" using part by (simp add: pages_partition_def)
  have mf: "map_of (pool_leases p') rid = Some l"
    using al new by (simp add: map_add_def map_of_eq_None_iff [THEN iffD2])
  have "pool_slot l \<notin> pool_slot ` snd ` set (pool_leases p)"
    using pages_partition_distinct(1) [OF part] al po by (auto simp: image_image)
  moreover have "sort (free_slots p' @ [pool_slot l]) = free_slots p"
    by (rule properties_for_sort [OF _ sf]) (use al in simp)
  ultimately show ?thesis
    using free_head_least [OF assms(1), of "pool_slot l"] al mf new
    by (simp add: pool_release_def release_slot_lease_def dict_pop_snoc_new)
qed

theorem beam_pool_lowest_free_slot_witness:
  "\<exists>p l p'. mk_beam_pool [2, 2, 3, 4, 1, 8] [2, 2, 3, 4, 1, 8] = Inr p \<and> beam_pool_allocate ''a'' p = (Inr l, p')
     \<and> pool_slot l = Min (set (free_slots p)) \<and> free_slots (snd (pool_release ''a'' p')) = free_slots p"
proof -
  let ?s = "[2, 2, 3, 4, 1, 8] :: int list"
  have "case mk_beam_pool ?s ?s of Inl _ \<Rightarrow> False | Inr p \<Rightarrow> is_ok (fst (beam_pool_allocate ''a'' p))" by code_simp
  then obtain p where p: "mk_beam_pool ?s ?s = Inr p" and ok: "is_ok (fst (beam_pool_allocate ''a'' p))"
    by (auto split: sum.splits)
  obtain l p' where al: "beam_pool_allocate ''a'' p = (Inr l, p')"
    using ok by (metis is_ok_iff prod.collapse)
  have "pool_inv p" using mk_dense_pool_inv [of 6 ?s ?s p] p by (simp add: mk_beam_pool_def)
  from beam_pool_lowest_free_slot [OF this al] show ?thesis using p al by blast
qed

end
