(* ===== verification/GR_Request.thy ===== *)
theory GR_Request
  imports GR_Beam_Policy GR_Item_Constraints
begin

text \<open>
  Serving requests: \<open>GRServingRequest\<close> and its validation (\<open>gr_serving/request.py\<close>), the payload field
  readers of \<open>gr_serving/payload.py\<close>, and the request helpers of \<open>gr_serving/continuous.py\<close> that the
  scheduler sizes requests with. \<open>input_ids\<close> is either absent, a plain value without a \<open>shape\<close>
  attribute, such as a list, or a tensor with its shape. A logits processor is kept as whether it can be called.
\<close>

section \<open>Requests\<close>

datatype input_ids = IdsNone | IdsValue pyval | IdsTensor "nat list"

record GRServingRequest =
  request_id :: string
  req_input_ids :: input_ids
  req_max_decode_steps :: int
  req_beam_width :: int
  req_metadata :: "(string, pyval) dict"
  item_mask_provider :: "TrieItemMaskProvider option"
  beam_width_policy :: "beam_width_policy option"
  stop_token_ids :: "int list"
  logits_processor_callable :: "bool list"

record GRServingResponse =
  resp_request_id :: string
  resp_token_ids :: "int list"
  resp_scores :: "pyfloat list"
  resp_metadata :: "(string, pyval) dict"

definition validate_policy_width :: "int \<Rightarrow> int \<Rightarrow> unit py_result" where
  "validate_policy_width width request_beam_width =
     (if width \<le> 0 \<or> width > request_beam_width
      then Inl (ValueError ''beam_width_policy produced width outside request beam_width'')
      else Inr ())"

text \<open>The attributes \<open>max_beam_width\<close>, \<open>schedule\<close> and \<open>widths\<close> that \<open>getattr\<close> finds on each policy.\<close>

fun policy_max_beam_width :: "beam_width_policy \<Rightarrow> int option" where
  "policy_max_beam_width (ScoreMarginBeamPolicy p) = Some (max_beam_width p)"
| "policy_max_beam_width _ = None"

fun policy_schedule :: "beam_width_policy \<Rightarrow> (int, int) dict" where
  "policy_schedule (ScheduledBeamPolicy d) = d"
| "policy_schedule _ = []"

fun policy_widths :: "beam_width_policy \<Rightarrow> (int, int) dict" where
  "policy_widths (ScoreMarginBeamPolicy p) = widths p"
| "policy_widths _ = []"

definition validate_beam_width_policy :: "beam_width_policy option \<Rightarrow> int \<Rightarrow> unit py_result" where
  "validate_beam_width_policy policy request_beam_width =
     (case policy of
        None \<Rightarrow> Inr ()
      | Some p \<Rightarrow>
          bind_res (width_for_step p 0) (\<lambda>initial.
          bind_res (validate_policy_width initial request_beam_width) (\<lambda>_.
          if (case policy_max_beam_width p of None \<Rightarrow> False | Some m \<Rightarrow> m > request_beam_width)
          then Inl (ValueError ''beam_width_policy max_beam_width exceeds request beam_width'')
          else
            bind_res (map_res (\<lambda>w. validate_policy_width w request_beam_width) (dict_values (policy_schedule p))) (\<lambda>_.
            bind_res (map_res (\<lambda>w. validate_policy_width w request_beam_width) (dict_values (policy_widths p))) (\<lambda>_.
              Inr ())))))"

text \<open>\<open>metadata.get("timeout_ticks")\<close> read as the request validation and the scheduler read it.\<close>

definition timeout_value :: "(string, pyval) dict \<Rightarrow> int option py_result" where
  "timeout_value metadata =
     (case map_of metadata ''timeout_ticks'' of
        None \<Rightarrow> Inr None
      | Some PNone \<Rightarrow> Inr None
      | Some v \<Rightarrow>
          if is_bool v then Inl (ValueError ''timeout_ticks must be an integer'')
          else bind_res (py_int v) (\<lambda>n.
            if n < 0 then Inl (ValueError ''timeout_ticks must be non-negative'') else Inr (Some n)))"

definition request_timeout_ticks :: "GRServingRequest \<Rightarrow> int option py_result" where
  "request_timeout_ticks r = timeout_value (req_metadata r)"

definition validate_request :: "GRServingRequest \<Rightarrow> unit py_result" where
  "validate_request r =
     (if request_id r = [] then Inl (ValueError ''request_id must be non-empty'')
      else if req_max_decode_steps r \<le> 0 then Inl (ValueError ''max_decode_steps must be positive'')
      else if req_beam_width r \<le> 0 then Inl (ValueError ''beam_width must be positive'')
      else if req_input_ids r = IdsNone then Inl (ValueError ''input_ids must be provided'')
      else if \<exists>t \<in> set (stop_token_ids r). t < 0
      then Inl (ValueError ''stop_token_ids must be non-negative'')
      else if \<not> list_all id (logits_processor_callable r)
      then Inl (ValueError ''logits_processors must be callable or define process_logits'')
      else bind_res (timeout_value (req_metadata r)) (\<lambda>_.
        validate_beam_width_policy (beam_width_policy r) (req_beam_width r)))"

definition request_context_tokens :: "GRServingRequest \<Rightarrow> int" where
  "request_context_tokens r =
     (case req_input_ids r of
        IdsTensor shape \<Rightarrow> if shape = [] then 1 else int (last shape)
      | _ \<Rightarrow> 1)"

definition request_beam_slots :: "GRServingRequest \<Rightarrow> int" where
  "request_beam_slots r = req_max_decode_steps r * req_beam_width r"

definition policy_width_for_step :: "GRServingRequest \<Rightarrow> int \<Rightarrow> int \<Rightarrow> int py_result" where
  "policy_width_for_step r step fallback =
     bind_res (case beam_width_policy r of None \<Rightarrow> Inr fallback | Some p \<Rightarrow> width_for_step p step) (\<lambda>width.
       if width \<le> 0 \<or> width > req_beam_width r
       then Inl (ValueError ''beam_width_policy produced width outside request beam_width'')
       else Inr width)"

section \<open>Payload fields\<close>

definition required_field :: "(string, pyval) dict \<Rightarrow> string \<Rightarrow> pyval py_result" where
  "required_field payload name =
     (case map_of payload name of
        None \<Rightarrow> Inl (ValueError ''missing required field'')
      | Some v \<Rightarrow> Inr v)"

definition required_str :: "(string, pyval) dict \<Rightarrow> string \<Rightarrow> string py_result" where
  "required_str payload name =
     bind_res (required_field payload name) (\<lambda>v.
       case v of
         PStr s \<Rightarrow> if s = [] then Inl (ValueError ''field must be a non-empty string'') else Inr s
       | _ \<Rightarrow> Inl (ValueError ''field must be a non-empty string''))"

definition required_int :: "(string, pyval) dict \<Rightarrow> string \<Rightarrow> int py_result" where
  "required_int payload name =
     bind_res (required_field payload name) (\<lambda>v.
       if is_bool v then Inl (ValueError ''field must be an integer'') else py_int v)"

definition optional_int :: "(string, pyval) dict \<Rightarrow> string \<Rightarrow> int option py_result" where
  "optional_int payload name =
     (case map_of payload name of
        None \<Rightarrow> Inr None
      | Some PNone \<Rightarrow> Inr None
      | Some v \<Rightarrow> if is_bool v then Inl (ValueError ''field must be an integer'')
                  else bind_res (py_int v) (\<lambda>n. Inr (Some n)))"

definition payload_list :: "(string, pyval) dict \<Rightarrow> string \<Rightarrow> (string, pyval) dict list py_result" where
  "payload_list payload name =
     bind_res (required_field payload name) (\<lambda>v.
       case v of
         PList vs \<Rightarrow> map_res (\<lambda>x. case x of PDict d \<Rightarrow> Inr d
                       | _ \<Rightarrow> Inl (ValueError ''field must contain JSON objects'')) vs
       | _ \<Rightarrow> Inl (ValueError ''field must be a list''))"

section \<open>What validation guarantees\<close>

lemma request_context_tokens_nonneg [simp]: "0 \<le> request_context_tokens r"
  by (simp add: request_context_tokens_def split: input_ids.splits)

lemma validate_policy_width_ok: "validate_policy_width w b = Inr () \<longleftrightarrow> 0 < w \<and> w \<le> b"
  by (auto simp: validate_policy_width_def)

lemma map_res_unit: "(\<exists>ys. map_res f xs = Inr ys) \<longleftrightarrow> (\<forall>x \<in> set xs. \<exists>y. f x = Inr y)"
  by (induction xs) auto

lemma validated_policy_bounded:
  assumes "validate_beam_width_policy (Some p) b = Inr ()" and "wf_policy p"
  shows "bounded_policy b p"
proof -
  have sch: "\<forall>w \<in> snd ` set (policy_schedule p). 0 < w \<and> w \<le> b"
    and wid: "\<forall>w \<in> snd ` set (policy_widths p). 0 < w \<and> w \<le> b"
    and mx: "\<forall>m. policy_max_beam_width p = Some m \<longrightarrow> m \<le> b"
    and ini: "\<exists>w. width_for_step p 0 = Inr w \<and> 0 < w \<and> w \<le> b"
    using assms(1) map_res_unit [of "\<lambda>w. validate_policy_width w b" "dict_values (policy_schedule p)"]
      map_res_unit [of "\<lambda>w. validate_policy_width w b" "dict_values (policy_widths p)"]
    by (auto simp: validate_beam_width_policy_def validate_policy_width_ok not_less split: if_splits option.splits)
  show ?thesis
  proof (cases p)
    case (FixedBeamPolicy w)
    then show ?thesis using ini by simp
  next
    case (ScheduledBeamPolicy d)
    then show ?thesis using sch assms(2) by (auto del: imageE)
  next
    case (ScoreMarginBeamPolicy q)
    then show ?thesis using wid mx assms(2) by (auto del: imageE)
  qed
qed

text \<open>A request whose policy object came out of its constructor.\<close>

definition constructed_policy :: "GRServingRequest \<Rightarrow> bool" where
  "constructed_policy r \<longleftrightarrow> (case beam_width_policy r of None \<Rightarrow> True | Some p \<Rightarrow> wf_policy p)"

definition valid_request :: "GRServingRequest \<Rightarrow> bool" where
  "valid_request r \<longleftrightarrow> validate_request r = Inr () \<and> constructed_policy r"

lemma valid_request_fields:
  assumes "valid_request r"
  shows "request_id r \<noteq> []" and "0 < req_max_decode_steps r" and "0 < req_beam_width r"
    and "validate_request r = Inr ()" and "\<exists>t. request_timeout_ticks r = Inr t"
    and "case beam_width_policy r of None \<Rightarrow> True | Some p \<Rightarrow> bounded_policy (req_beam_width r) p"
proof -
  show v: "validate_request r = Inr ()" using assms by (simp add: valid_request_def)
  show "request_id r \<noteq> []" "0 < req_max_decode_steps r" "0 < req_beam_width r"
    and "\<exists>t. request_timeout_ticks r = Inr t"
    using v by (auto simp: validate_request_def request_timeout_ticks_def split: if_splits)
  have "validate_beam_width_policy (beam_width_policy r) (req_beam_width r) = Inr ()"
    using v by (auto simp: validate_request_def split: if_splits)
  then show "case beam_width_policy r of None \<Rightarrow> True | Some p \<Rightarrow> bounded_policy (req_beam_width r) p"
    using assms validated_policy_bounded by (auto simp: valid_request_def constructed_policy_def split: option.splits)
qed

lemma request_beam_slots_nonneg: "valid_request r \<Longrightarrow> 0 \<le> request_beam_slots r"
  using valid_request_fields(2,3) by (simp add: request_beam_slots_def less_imp_le)

lemma valid_policy_width:
  assumes "valid_request r" and "0 \<le> step" and "0 < fallback" and "fallback \<le> req_beam_width r"
  shows "\<exists>w. policy_width_for_step r step fallback = Inr w \<and> 0 < w \<and> w \<le> req_beam_width r"
proof (cases "beam_width_policy r")
  case None
  then show ?thesis using assms(3,4) by (simp add: policy_width_for_step_def)
next
  case (Some p)
  then have "bounded_policy (req_beam_width r) p" using valid_request_fields(6) [OF assms(1)] by simp
  then obtain w where "width_for_step p step = Inr w" "0 < w" "w \<le> req_beam_width r"
    using bounded_width_for_step [OF _ assms(2)] by blast
  then have "policy_width_for_step r step fallback = Inr w"
    using Some unfolding policy_width_for_step_def by simp
  then show ?thesis using \<open>0 < w\<close> \<open>w \<le> req_beam_width r\<close> by blast
qed

section \<open>Properties\<close>

text \<open>C26: validation makes beam widths safe: for a validated request whose policy was built by its
  constructor, the width looked up at every decode step is an integer between 1 and the request's
  beam width; the lookup never raises.\<close>

theorem validated_request_widths_in_range:
  assumes "validate_request r = Inr ()" and "constructed_policy r"
    and "0 \<le> step" and "0 < fallback" and "fallback \<le> req_beam_width r"
  shows "\<exists>w. policy_width_for_step r step fallback = Inr w \<and> 0 < w \<and> w \<le> req_beam_width r"
  using valid_policy_width [of r step fallback] assms by (simp add: valid_request_def)

definition ex_margin_policy :: ScoreMarginPolicy where
  "ex_margin_policy = \<lparr>max_beam_width = 4, score_margin = Fin 2, min_beam_width = 1, monotonic_shrink = True,
     widths = [(0, 4), (2, 3)]\<rparr>"

definition ex_request :: "string \<Rightarrow> nat \<Rightarrow> GRServingRequest" where
  "ex_request rid n = \<lparr>request_id = rid, req_input_ids = IdsTensor [1, n], req_max_decode_steps = 3,
     req_beam_width = 4, req_metadata = [(''timeout_ticks'', PInt 5)], item_mask_provider = None,
     beam_width_policy = Some (ScoreMarginBeamPolicy ex_margin_policy), stop_token_ids = [2],
     logits_processor_callable = [True]\<rparr>"

lemma ex_request_valid: "valid_request (ex_request ''r1'' 7)"
  by code_simp

theorem validated_request_widths_in_range_witness:
  "\<exists>w. policy_width_for_step (ex_request ''r1'' 7) 9 4 = Inr w \<and> 0 < w \<and> w \<le> req_beam_width (ex_request ''r1'' 7)"
  using ex_request_valid
  by (intro validated_request_widths_in_range) (simp_all add: valid_request_def ex_request_def)

text \<open>Observing scores keeps a score-margin policy safe: the next width it chooses is between 1
  and the request's beam width, and every later lookup at a non-negative step still is.\<close>

theorem observed_scores_keep_widths_in_range:
  assumes "bounded_policy b (ScoreMarginBeamPolicy p)" and "margin_observe_scores p step score_values = Inr (p', w)"
    and "0 \<le> later"
  shows "0 < w \<and> w \<le> b
    \<and> (\<exists>w'. width_for_step (ScoreMarginBeamPolicy p') later = Inr w' \<and> 0 < w' \<and> w' \<le> b)"
  using margin_observe_bounded [OF assms(1,2)] bounded_width_for_step assms(3) by blast

theorem observed_scores_keep_widths_in_range_witness:
  "\<exists>p' w. margin_observe_scores ex_margin_policy 1 [Fin 9, Fin 8, NegInf, Fin 3] = Inr (p', w) \<and> w = 2
     \<and> (\<exists>w'. width_for_step (ScoreMarginBeamPolicy p') 7 = Inr w' \<and> 0 < w' \<and> w' \<le> 4)"
proof -
  let ?o = "margin_observe_scores ex_margin_policy 1 [Fin 9, Fin 8, NegInf, Fin 3]"
  have b: "bounded_policy 4 (ScoreMarginBeamPolicy ex_margin_policy)" by code_simp
  have "case ?o of Inl _ \<Rightarrow> False | Inr (p', w) \<Rightarrow> w = 2" by code_simp
  then obtain p' w where o: "?o = Inr (p', w)" "w = 2" by (auto split: sum.splits)
  show ?thesis using observed_scores_keep_widths_in_range [OF b o(1), of 7] o by auto
qed

end
