(* ===== verification/GR_Queue.thy ===== *)
theory GR_Queue
  imports GR_Request
begin

text \<open>
  The request queue and the synchronous scheduler: \<open>GRRequestQueue\<close> and \<open>SyncGRScheduler\<close> of
  \<open>gr_serving/queue.py\<close>, batch assembly of \<open>gr_serving/batch.py\<close>. The queue is the list of its
  requests, oldest first. The locale \<open>request_queue\<close> is the interface both schedulers use. The
  serving engine is a parameter of the scheduler: a batch of requests to responses or an exception.
\<close>

section \<open>Queue\<close>

type_synonym queue = "GRServingRequest list"

definition queue_submit :: "GRServingRequest \<Rightarrow> queue \<Rightarrow> queue py_result" where
  "queue_submit r q = bind_res (validate_request r) (\<lambda>_. Inr (q @ [r]))"

fun queue_pop :: "queue \<Rightarrow> GRServingRequest option \<times> queue" where
  "queue_pop [] = (None, [])"
| "queue_pop (r # q) = (Some r, q)"

definition queue_push_front :: "GRServingRequest \<Rightarrow> queue \<Rightarrow> queue py_result" where
  "queue_push_front r q = bind_res (validate_request r) (\<lambda>_. Inr (r # q))"

fun queue_remove :: "string \<Rightarrow> queue \<Rightarrow> GRServingRequest option \<times> queue" where
  "queue_remove rid [] = (None, [])"
| "queue_remove rid (r # q) =
     (if request_id r = rid then (Some r, q)
      else case queue_remove rid q of (x, q') \<Rightarrow> (x, r # q'))"

definition queue_request_ids :: "queue \<Rightarrow> string list" where
  "queue_request_ids q = map request_id q"

section \<open>Batches\<close>

definition input_shape :: "GRServingRequest \<Rightarrow> nat list option" where
  "input_shape r = (case req_input_ids r of IdsTensor s \<Rightarrow> Some s | _ \<Rightarrow> None)"

definition compatible_for_tensor_batch :: "GRServingRequest list \<Rightarrow> bool" where
  "compatible_for_tensor_batch rs =
     (case rs of
        [] \<Rightarrow> False
      | first # _ \<Rightarrow>
          (\<forall>r \<in> set rs. req_max_decode_steps r = req_max_decode_steps first
             \<and> req_beam_width r = req_beam_width first
             \<and> beam_width_policy r = None \<and> input_shape r = input_shape first)
          \<and> beam_width_policy first = None)"

record batch_metadata =
  batch_size :: int
  batch_max_decode_steps :: "int option"
  batch_beam_width :: "int option"
  batch_input_shapes :: "nat list option list"
  tensor_batch_compatible :: bool

definition request_batch_metadata :: "GRServingRequest list \<Rightarrow> batch_metadata" where
  "request_batch_metadata rs =
     \<lparr>batch_size = int (length rs),
      batch_max_decode_steps = (case rs of [] \<Rightarrow> None | r # _ \<Rightarrow> Some (req_max_decode_steps r)),
      batch_beam_width = (case rs of [] \<Rightarrow> None | r # _ \<Rightarrow> Some (req_beam_width r)),
      batch_input_shapes = map input_shape rs,
      tensor_batch_compatible = compatible_for_tensor_batch rs\<rparr>"

record SchedulerPolicy =
  max_batch_size :: int
  max_wait_ms :: pyfloat

definition mk_scheduler_policy :: "int \<Rightarrow> pyfloat \<Rightarrow> SchedulerPolicy py_result" where
  "mk_scheduler_policy n wait =
     (if n \<le> 0 then Inl (ValueError ''max_batch_size must be positive'')
      else if float_negative wait then Inl (ValueError ''max_wait_ms must be non-negative'')
      else Inr \<lparr>max_batch_size = n, max_wait_ms = wait\<rparr>)"

fun assemble_loop :: "nat \<Rightarrow> queue \<Rightarrow> GRServingRequest list \<Rightarrow> GRServingRequest list \<times> queue" where
  "assemble_loop 0 q rs = (rs, q)"
| "assemble_loop (Suc n) q rs =
     (case queue_pop q of
        (None, q') \<Rightarrow> (rs, q')
      | (Some r, q') \<Rightarrow> assemble_loop n q' (rs @ [r]))"

definition assemble :: "SchedulerPolicy \<Rightarrow> queue \<Rightarrow> GRServingRequest list option \<times> queue" where
  "assemble pol q =
     (case assemble_loop (nat (max_batch_size pol)) q [] of
        (rs, q') \<Rightarrow> (if rs = [] then None else Some rs, q'))"

section \<open>Synchronous scheduler\<close>

record SyncGRScheduler =
  sync_policy :: SchedulerPolicy
  waiting :: queue
  running :: "(string, GRServingRequest) dict"
  sync_finished :: "(string, GRServingResponse) dict"
  sync_submitted_requests :: int
  processed_requests :: int
  assembled_batches :: int
  batch_history :: "batch_metadata list"

definition mk_sync_scheduler :: "SchedulerPolicy \<Rightarrow> SyncGRScheduler" where
  "mk_sync_scheduler pol = \<lparr>sync_policy = pol, waiting = [], running = [], sync_finished = [],
     sync_submitted_requests = 0, processed_requests = 0, assembled_batches = 0, batch_history = []\<rparr>"

definition sync_submit :: "GRServingRequest \<Rightarrow> SyncGRScheduler \<Rightarrow> py_exc option \<times> SyncGRScheduler" where
  "sync_submit r s =
     (case queue_submit r (waiting s) of
        Inl e \<Rightarrow> (Some e, s)
      | Inr q \<Rightarrow> (None, s\<lparr>waiting := q, sync_submitted_requests := sync_submitted_requests s + 1\<rparr>))"

type_synonym engine = "GRServingRequest list \<Rightarrow> GRServingResponse list py_result"

definition enter_batch :: "GRServingRequest list \<Rightarrow> SyncGRScheduler \<Rightarrow> SyncGRScheduler" where
  "enter_batch rs s =
     s\<lparr>assembled_batches := assembled_batches s + 1,
       batch_history := batch_history s @ [request_batch_metadata rs],
       running := foldl (\<lambda>d r. dict_set (request_id r) r d) (running s) rs\<rparr>"

definition leave_batch :: "GRServingRequest list \<Rightarrow> SyncGRScheduler \<Rightarrow> SyncGRScheduler" where
  "leave_batch rs s = s\<lparr>running := foldl (\<lambda>d r. dict_pop (request_id r) d) (running s) rs\<rparr>"

definition store_responses :: "GRServingResponse list \<Rightarrow> SyncGRScheduler \<Rightarrow> SyncGRScheduler" where
  "store_responses resps s =
     s\<lparr>sync_finished := foldl (\<lambda>d r. dict_set (resp_request_id r) r d) (sync_finished s) resps,
       processed_requests := processed_requests s + int (length resps)\<rparr>"

text \<open>The \<open>while True\<close> loop, one batch per turn; \<open>fuel\<close> bounds the turns, \<open>None\<close> is running out of it.\<close>

fun sync_run_loop ::
  "engine \<Rightarrow> nat \<Rightarrow> GRServingResponse list \<Rightarrow> SyncGRScheduler
   \<Rightarrow> (GRServingResponse list py_result \<times> SyncGRScheduler) option" where
  "sync_run_loop eng 0 acc s = None"
| "sync_run_loop eng (Suc fuel) acc s =
     (case assemble (sync_policy s) (waiting s) of
        (None, q) \<Rightarrow> Some (Inr acc, s\<lparr>waiting := q\<rparr>)
      | (Some rs, q) \<Rightarrow>
          (let s1 = enter_batch rs (s\<lparr>waiting := q\<rparr>)
           in case eng rs of
                Inl e \<Rightarrow> Some (Inl e, leave_batch rs s1)
              | Inr resps \<Rightarrow>
                  sync_run_loop eng fuel (acc @ resps) (leave_batch rs (store_responses resps s1))))"

definition sync_run_until_empty ::
  "engine \<Rightarrow> SyncGRScheduler \<Rightarrow> (GRServingResponse list py_result \<times> SyncGRScheduler) option" where
  "sync_run_until_empty eng s = sync_run_loop eng (Suc (length (waiting s))) [] s"

definition avg_batch_size :: "SyncGRScheduler \<Rightarrow> rat" where
  "avg_batch_size s =
     (if batch_history s = [] then 0
      else of_int (sum_list (map batch_size (batch_history s))) / of_nat (length (batch_history s)))"

definition sync_status :: "SyncGRScheduler \<Rightarrow> (string, pyval) dict" where
  "sync_status s =
     [(''waiting'', PInt (int (length (waiting s)))), (''running'', PInt (int (length (running s)))),
      (''finished'', PInt (int (length (sync_finished s)))),
      (''submitted_requests'', PInt (sync_submitted_requests s)), (''processed_requests'', PInt (processed_requests s)),
      (''assembled_batches'', PInt (assembled_batches s)), (''max_batch_size'', PInt (max_batch_size (sync_policy s))),
      (''avg_batch_size'', PFloat (Fin (avg_batch_size s)))]"

text \<open>The elapsed time \<open>total_scheduler_ms\<close> is a reading of the clock and an argument.\<close>

definition sync_metrics :: "pyfloat \<Rightarrow> SyncGRScheduler \<Rightarrow> (string, pyval) dict" where
  "sync_metrics total_ms s =
     [(''queue_size'', PInt (int (length (waiting s)))), (''waiting_requests'', PInt (int (length (waiting s)))),
      (''running_requests'', PInt (int (length (running s)))), (''finished_requests'', PInt (int (length (sync_finished s)))),
      (''submitted_requests'', PInt (sync_submitted_requests s)), (''processed_requests'', PInt (processed_requests s)),
      (''assembled_batches'', PInt (assembled_batches s)), (''max_batch_size'', PInt (max_batch_size (sync_policy s))),
      (''avg_batch_size'', PFloat (Fin (avg_batch_size s))), (''total_scheduler_ms'', PFloat total_ms)]"

section \<open>The queue interface\<close>

locale request_queue =
  fixes invar :: "'q \<Rightarrow> bool"
    and content :: "'q \<Rightarrow> GRServingRequest list"
    and submit :: "GRServingRequest \<Rightarrow> 'q \<Rightarrow> 'q py_result"
    and pop :: "'q \<Rightarrow> GRServingRequest option \<times> 'q"
    and push_front :: "GRServingRequest \<Rightarrow> 'q \<Rightarrow> 'q py_result"
    and remove :: "string \<Rightarrow> 'q \<Rightarrow> GRServingRequest option \<times> 'q"
  assumes submit_valid: "invar q \<Longrightarrow> validate_request r = Inr () \<Longrightarrow>
      \<exists>q'. submit r q = Inr q' \<and> invar q' \<and> content q' = content q @ [r]"
    and submit_invalid: "validate_request r = Inl e \<Longrightarrow> submit r q = Inl e"
    and pop_Nil: "invar q \<Longrightarrow> content q = [] \<Longrightarrow> fst (pop q) = None \<and> content (snd (pop q)) = []"
    and pop_Cons: "invar q \<Longrightarrow> content q = r # rs \<Longrightarrow> fst (pop q) = Some r \<and> content (snd (pop q)) = rs"
    and invar_pop: "invar q \<Longrightarrow> invar (snd (pop q))"
    and push_front_valid: "invar q \<Longrightarrow> validate_request r = Inr () \<Longrightarrow>
      \<exists>q'. push_front r q = Inr q' \<and> invar q' \<and> content q' = r # content q"
    and remove_law: "invar q \<Longrightarrow> distinct (map request_id (content q)) \<Longrightarrow>
      fst (remove rid q) = find (\<lambda>r. request_id r = rid) (content q)
      \<and> content (snd (remove rid q)) = filter (\<lambda>r. request_id r \<noteq> rid) (content q) \<and> invar (snd (remove rid q))"
begin

lemma pop_push_front:
  assumes "invar q" and "content q = r # rs" and "validate_request r = Inr ()"
  shows "\<exists>q'. push_front r (snd (pop q)) = Inr q' \<and> content q' = content q"
  using push_front_valid [OF invar_pop [OF assms(1)] assms(3)] pop_Cons [OF assms(1,2)] assms(2) by auto

text \<open>First in, first out: popping everything gives the submissions in order.\<close>

lemma drain_order:
  assumes "invar q" and "n \<le> length (content q)"
  shows "invar (((\<lambda>p. snd (pop p)) ^^ n) q) \<and> content (((\<lambda>p. snd (pop p)) ^^ n) q) = drop n (content q)"
  using assms(2)
proof (induction n)
  case 0
  then show ?case using assms(1) by simp
next
  case (Suc n)
  let ?q = "((\<lambda>p. snd (pop p)) ^^ n) q"
  have q: "invar ?q" "content ?q = drop n (content q)" using Suc by simp_all
  moreover have "drop n (content q) = content q ! n # drop (Suc n) (content q)"
    using Suc.prems by (simp add: Cons_nth_drop_Suc)
  ultimately show ?case using pop_Cons [of ?q] invar_pop [of ?q] by simp
qed

end

lemma queue_remove_eq:
  "distinct (map request_id q) \<Longrightarrow>
     queue_remove rid q = (find (\<lambda>r. request_id r = rid) q, filter (\<lambda>r. request_id r \<noteq> rid) q)"
proof (induction rid q rule: queue_remove.induct)
  case (1 rid)
  then show ?case by simp
next
  case (2 rid r q)
  show ?case
  proof (cases "request_id r = rid")
    case True
    then have "filter (\<lambda>r. request_id r \<noteq> rid) q = q"
      using "2.prems" by (simp add: filter_id_conv image_iff) metis
    then show ?thesis using True by simp
  next
    case False
    then show ?thesis using 2 by simp
  qed
qed

interpretation fifo: request_queue "\<lambda>_. True" "\<lambda>q. q" queue_submit queue_pop queue_push_front queue_remove
proof (standard, goal_cases)
  case (1 q r) then show ?case by (simp add: queue_submit_def)
next
  case (2 r e q) then show ?case by (simp add: queue_submit_def)
next
  case (3 q) then show ?case by simp
next
  case (4 q r rs) then show ?case by simp
next
  case (5 q) then show ?case by simp
next
  case (6 q r) then show ?case by (simp add: queue_push_front_def)
next
  case (7 q rid) then show ?case by (simp add: queue_remove_eq)
qed

section \<open>Assembly and the synchronous run\<close>

lemma assemble_loop_eq: "assemble_loop n q rs = (rs @ take n q, drop n q)"
proof (induction n q rs rule: assemble_loop.induct)
  case (1 q rs)
  then show ?case by simp
next
  case (2 n q rs)
  then show ?case by (cases q) auto
qed

lemma assemble_eq:
  "0 < max_batch_size pol \<Longrightarrow> assemble pol q =
     (if q = [] then (None, []) else (Some (take (nat (max_batch_size pol)) q), drop (nat (max_batch_size pol)) q))"
  by (auto simp: assemble_def assemble_loop_eq)

text \<open>The batches a run forms: consecutive blocks of the queue.\<close>

function blocks :: "nat \<Rightarrow> 'a list \<Rightarrow> 'a list list" where
  "blocks n xs = (if n = 0 \<or> xs = [] then [] else take n xs # blocks n (drop n xs))"
  by pat_completeness auto
termination by (relation "measure (\<lambda>(n, xs). length xs)") auto

declare blocks.simps [simp del]

lemma blocks_Nil [simp]: "blocks n [] = []"
  by (subst blocks.simps) simp

lemma blocks_step: "0 < n \<Longrightarrow> xs \<noteq> [] \<Longrightarrow> blocks n xs = take n xs # blocks n (drop n xs)"
  by (subst blocks.simps) simp

lemma concat_blocks: "0 < n \<Longrightarrow> concat (blocks n xs) = xs"
proof (induction n xs rule: blocks.induct)
  case (1 n xs)
  then show ?case by (cases "xs = []") (auto simp: blocks_step)
qed

lemma blocks_size: "b \<in> set (blocks n xs) \<Longrightarrow> b \<noteq> [] \<and> length b \<le> n"
proof (induction n xs rule: blocks.induct)
  case (1 n xs)
  then show ?case by (subst (asm) blocks.simps) (auto split: if_splits)
qed

lemma pop_running:
  fixes rs :: "GRServingRequest list"
  shows "foldl (\<lambda>d r. dict_pop (request_id r) d) (foldl (\<lambda>d r. dict_set (request_id r) r d) [] rs) rs = []"
proof -
  have sub: "fst ` set (foldl (\<lambda>d r. dict_set (request_id r) r d) d rs) = fst ` set d \<union> request_id ` set rs"
    for d :: "(string, GRServingRequest) dict"
    by (induction rs arbitrary: d) (simp_all add: dict_set_keys_image)
  have "fst ` set (foldl (\<lambda>d r. dict_pop (request_id r) d) d xs) = fst ` set d - request_id ` set xs"
    for d :: "(string, GRServingRequest) dict" and xs
    by (induction xs arbitrary: d) (simp_all add: dict_pop_keys_image, blast)
  from this [of "foldl (\<lambda>d r. dict_set (request_id r) r d) [] rs" rs]
  have "fst ` set (foldl (\<lambda>d r. dict_pop (request_id r) d) (foldl (\<lambda>d r. dict_set (request_id r) r d) [] rs) rs) = {}"
    unfolding sub by simp
  then show ?thesis by (simp only: image_is_empty set_empty)
qed

lemma batch_bookkeeping [simp]:
  "sync_policy (enter_batch rs s) = sync_policy s" "waiting (enter_batch rs s) = waiting s"
  "sync_policy (leave_batch rs s) = sync_policy s" "waiting (leave_batch rs s) = waiting s"
  "sync_policy (store_responses xs s) = sync_policy s" "waiting (store_responses xs s) = waiting s"
  "processed_requests (enter_batch rs s) = processed_requests s"
  "processed_requests (leave_batch rs s) = processed_requests s"
  "running s = [] \<Longrightarrow> running (leave_batch rs (store_responses xs (enter_batch rs s))) = []"
  "running s = [] \<Longrightarrow> running (leave_batch rs (enter_batch rs s)) = []"
  by (simp_all add: enter_batch_def leave_batch_def store_responses_def pop_running)

lemma sync_run_loop_ok:
  assumes "0 < max_batch_size (sync_policy s)" and "running s = []"
    and "\<forall>b \<in> set (blocks (nat (max_batch_size (sync_policy s))) (waiting s)). eng b = Inr (g b)"
    and "length (waiting s) < fuel"
  shows "\<exists>s'. sync_run_loop eng fuel acc s =
       Some (Inr (acc @ concat (map g (blocks (nat (max_batch_size (sync_policy s))) (waiting s)))), s')
     \<and> waiting s' = [] \<and> running s' = []
     \<and> processed_requests s' = processed_requests s
         + int (length (concat (map g (blocks (nat (max_batch_size (sync_policy s))) (waiting s)))))"
  using assms
proof (induction fuel arbitrary: s acc)
  case 0
  from 0(4) show ?case by simp
next
  case (Suc fuel)
  let ?n = "nat (max_batch_size (sync_policy s))"
  have n: "0 < ?n" using Suc.prems(1) by simp
  show ?case
  proof (cases "waiting s = []")
    case True
    then show ?thesis using Suc.prems by (simp add: assemble_eq)
  next
    case False
    let ?b = "take ?n (waiting s)"
    let ?s = "leave_batch ?b (store_responses (g ?b) (enter_batch ?b (s\<lparr>waiting := drop ?n (waiting s)\<rparr>)))"
    have bl: "blocks ?n (waiting s) = ?b # blocks ?n (drop ?n (waiting s))" using n False by (rule blocks_step)
    then have eb: "eng ?b = Inr (g ?b)" using Suc.prems(3) by simp
    have step: "sync_run_loop eng (Suc fuel) acc s = sync_run_loop eng fuel (acc @ g ?b) ?s"
      using False Suc.prems(1) eb by (simp add: assemble_eq Let_def)
    have "0 < length (waiting s)" using False by simp
    then have shorter: "length (waiting s) - ?n < fuel" using Suc.prems(4) n by linarith
    have IH: "\<exists>s'. sync_run_loop eng fuel (acc @ g ?b) ?s =
         Some (Inr ((acc @ g ?b) @ concat (map g (blocks ?n (drop ?n (waiting s))))), s')
       \<and> waiting s' = [] \<and> running s' = []
       \<and> processed_requests s' = processed_requests ?s + int (length (concat (map g (blocks ?n (drop ?n (waiting s))))))"
      using Suc.IH [of ?s "acc @ g ?b"] Suc.prems(1-3) bl shorter by simp
    have "processed_requests ?s = processed_requests s + int (length (g ?b))"
      by (simp add: store_responses_def)
    then show ?thesis using IH step bl by auto
  qed
qed

section \<open>Properties\<close>

text \<open>a synchronous run drains the queue: when the engine answers every batch, \<open>run_until_empty\<close>
  ends, returns the answers of the consecutive blocks of at most \<open>max_batch_size\<close> requests in
  submission order, and leaves nothing waiting or running.\<close>

theorem sync_run_drains_in_order:
  assumes "0 < max_batch_size (sync_policy s)" and "running s = []"
    and "\<forall>b \<in> set (blocks (nat (max_batch_size (sync_policy s))) (waiting s)). eng b = Inr (g b)"
  shows "concat (blocks (nat (max_batch_size (sync_policy s))) (waiting s)) = waiting s
    \<and> (\<exists>s'. sync_run_until_empty eng s =
         Some (Inr (concat (map g (blocks (nat (max_batch_size (sync_policy s))) (waiting s)))), s')
       \<and> waiting s' = [] \<and> running s' = [])"
  using concat_blocks [of "nat (max_batch_size (sync_policy s))" "waiting s"]
    sync_run_loop_ok [OF assms, of "Suc (length (waiting s))" "[]"] assms(1)
  by (auto simp: sync_run_until_empty_def)

definition ex_sync :: SyncGRScheduler where
  "ex_sync = (mk_sync_scheduler \<lparr>max_batch_size = 2, max_wait_ms = Fin 0\<rparr>)
     \<lparr>waiting := [ex_request ''a'' 3, ex_request ''b'' 4, ex_request ''c'' 5]\<rparr>"

definition ex_engine :: engine where
  "ex_engine rs = Inr (map (\<lambda>r. \<lparr>resp_request_id = request_id r, resp_token_ids = [1], resp_scores = [Fin 0], resp_metadata = []\<rparr>) rs)"

theorem sync_run_drains_in_order_witness:
  "\<exists>resps s'. sync_run_until_empty ex_engine ex_sync = Some (Inr resps, s') \<and> waiting s' = []"
proof -
  let ?g = "\<lambda>rs. map (\<lambda>r. \<lparr>resp_request_id = request_id r, resp_token_ids = [1], resp_scores = [Fin 0], resp_metadata = []\<rparr>) rs"
  have "0 < max_batch_size (sync_policy ex_sync)" "running ex_sync = []"
    by (simp_all add: ex_sync_def mk_sync_scheduler_def)
  moreover have "\<forall>b \<in> set (blocks (nat (max_batch_size (sync_policy ex_sync))) (waiting ex_sync)). ex_engine b = Inr (?g b)"
    by (simp add: ex_engine_def)
  ultimately show ?thesis using sync_run_drains_in_order [of ex_sync ex_engine ?g] by blast
qed

end
