(* ===== verification/GR_Continuous.thy ===== *)
theory GR_Continuous
  imports GR_Memory GR_Queue "HOL-Library.Product_Lexorder"
begin

text \<open>
  The continuous-batching scheduler, \<open>GRContinuousScheduler\<close> of \<open>gr_serving/continuous.py\<close>. The
  request states live in one store, the dictionary \<open>states\<close>; the dictionary \<open>decoding\<close> holds the same
  objects and is kept as its ordered list of ids. Every operation returns its result or exception
  together with the state it leaves, so what an exception leaves behind is part of the model. The
  executors a tick may be given are arguments. Fields only the executor uses (generation,
  token buffers, pool leases) are not part of the state.
\<close>

section \<open>State\<close>

datatype request_stage = WaitingPrefill | Decoding | Finished

record GRContinuousBatchingPolicy =
  max_prefill_batch_size :: int
  max_decode_batch_size :: int
  pol_max_running_requests :: "int option"
  pol_max_context_tokens :: "int option"
  pol_max_beam_slots :: "int option"
  max_finished_requests :: "int option"

definition memory_budget_allocator :: "GRContinuousBatchingPolicy \<Rightarrow> GRKVLeaseAllocator py_result" where
  "memory_budget_allocator pol =
     mk_lease_allocator (pol_max_running_requests pol) (pol_max_context_tokens pol) (pol_max_beam_slots pol)"

definition mk_batching_policy ::
  "int \<Rightarrow> int \<Rightarrow> int option \<Rightarrow> int option \<Rightarrow> int option \<Rightarrow> int option
   \<Rightarrow> GRContinuousBatchingPolicy py_result" where
  "mk_batching_policy prefill decode nrun ctx beams fin =
     (let pol = \<lparr>max_prefill_batch_size = prefill, max_decode_batch_size = decode,
                 pol_max_running_requests = nrun, pol_max_context_tokens = ctx,
                 pol_max_beam_slots = beams, max_finished_requests = fin\<rparr>
      in if prefill \<le> 0 then Inl (ValueError ''max_prefill_batch_size must be positive'')
         else if decode \<le> 0 then Inl (ValueError ''max_decode_batch_size must be positive'')
         else if (case fin of None \<Rightarrow> False | Some n \<Rightarrow> n \<le> 0)
         then Inl (ValueError ''max_finished_requests must be positive when set'')
         else bind_res (memory_budget_allocator pol) (\<lambda>_. Inr pol))"

record GRContinuousRequestState =
  st_request :: GRServingRequest
  st_stage :: request_stage
  current_decode_step :: int
  submitted_tick :: int
  admitted_tick :: "int option"
  finished_tick :: "int option"
  stop_reason :: "string option"
  kv_lease :: "GRKVLease option"
  st_active_beam_width :: "int option"

definition new_request_state :: "GRServingRequest \<Rightarrow> int \<Rightarrow> GRContinuousRequestState" where
  "new_request_state r tick = \<lparr>st_request = r, st_stage = WaitingPrefill, current_decode_step = 0,
     submitted_tick = tick, admitted_tick = None, finished_tick = None, stop_reason = None,
     kv_lease = None, st_active_beam_width = None\<rparr>"

text \<open>\<open>active_beam_width or request.beam_width\<close>.\<close>

definition state_beam_width :: "GRContinuousRequestState \<Rightarrow> int" where
  "state_beam_width st =
     (case st_active_beam_width st of
        None \<Rightarrow> req_beam_width (st_request st)
      | Some w \<Rightarrow> if w = 0 then req_beam_width (st_request st) else w)"

definition remaining_decode_steps :: "GRContinuousRequestState \<Rightarrow> int" where
  "remaining_decode_steps st = max 0 (req_max_decode_steps (st_request st) - current_decode_step st)"

record GRContinuousDecodeBatch =
  batch_step :: int
  dbatch_beam_width :: int
  next_beam_width :: int
  batch_context_len :: int
  batch_request_ids :: "string list"

record GRContinuousTickResult =
  tick_no :: int
  prefill_request_ids :: "string list"
  decode_batches :: "GRContinuousDecodeBatch list"
  finished_request_ids :: "string list"
  tick_memory_usage :: "(string, int) dict"

record kv_event =
  event_type :: string
  event_tick :: int
  event_request_id :: string
  event_context_tokens :: int
  event_beam_slots :: int

record GRContinuousScheduler =
  policy :: GRContinuousBatchingPolicy
  waiting_prefill :: queue
  decoding :: "string list"
  finished :: "(string, GRServingResponse) dict"
  states :: "(string, GRContinuousRequestState) dict"
  kv_alloc :: kv_allocator
  tick_count :: int
  submitted_requests :: int
  succeeded_requests :: int
  cancelled_requests :: int
  failed_requests :: int
  timed_out_requests :: int
  evicted_finished_requests :: int
  admitted_prefill_batches :: int
  planned_decode_batches :: int
  tick_history :: "GRContinuousTickResult list"
  kv_events :: "kv_event list"
  max_kv_events :: int

definition mk_scheduler ::
  "GRContinuousBatchingPolicy \<Rightarrow> kv_allocator option \<Rightarrow> int \<Rightarrow> GRContinuousScheduler py_result" where
  "mk_scheduler pol alloc max_events =
     bind_res (case alloc of
                 Some a \<Rightarrow> Inr a
               | None \<Rightarrow> bind_res (memory_budget_allocator pol) (\<lambda>a. Inr (LeaseAllocator a)))
       (\<lambda>a. Inr \<lparr>policy = pol, waiting_prefill = [], decoding = [], finished = [], states = [],
          kv_alloc = a, tick_count = 0, submitted_requests = 0, succeeded_requests = 0,
          cancelled_requests = 0, failed_requests = 0, timed_out_requests = 0,
          evicted_finished_requests = 0, admitted_prefill_batches = 0, planned_decode_batches = 0,
          tick_history = [], kv_events = [], max_kv_events = max_events\<rparr>)"

type_synonym sched = GRContinuousScheduler
type_synonym 'a op_result = "'a py_result \<times> GRContinuousScheduler"

definition set_state :: "string \<Rightarrow> GRContinuousRequestState \<Rightarrow> sched \<Rightarrow> sched" where
  "set_state rid st s = s\<lparr>states := dict_set rid st (states s)\<rparr>"

section \<open>KV leases\<close>

definition record_kv_event :: "string \<Rightarrow> GRKVLease \<Rightarrow> string \<Rightarrow> sched \<Rightarrow> sched" where
  "record_kv_event kind l rid s =
     s\<lparr>kv_events := trim_history (max_kv_events s) (kv_events s @
         [\<lparr>event_type = kind, event_tick = tick_count s, event_request_id = rid,
           event_context_tokens = lease_context_tokens l, event_beam_slots = lease_beam_slots l\<rparr>])\<rparr>"

definition can_allocate_kv :: "GRServingRequest \<Rightarrow> sched \<Rightarrow> bool py_result" where
  "can_allocate_kv r s =
     kv_can_allocate (request_id r) (request_context_tokens r) (request_beam_slots r) (kv_alloc s)"

definition allocate_kv_lease :: "GRServingRequest \<Rightarrow> sched \<Rightarrow> GRKVLease op_result" where
  "allocate_kv_lease r s =
     (case kv_allocate (request_id r) (request_context_tokens r) (request_beam_slots r) (kv_alloc s) of
        Inl e \<Rightarrow> (Inl e, s)
      | Inr (l, a) \<Rightarrow> (Inr l, record_kv_event ''allocate'' l (request_id r) (s\<lparr>kv_alloc := a\<rparr>)))"

text \<open>\<open>_release_kv_lease\<close> of a state: the state without its lease, and the scheduler.\<close>

definition release_kv_lease ::
  "GRContinuousRequestState \<Rightarrow> sched \<Rightarrow> GRContinuousRequestState \<times> sched" where
  "release_kv_lease st s =
     (case kv_lease st of
        None \<Rightarrow> (st, s)
      | Some _ \<Rightarrow>
          (let rid = request_id (st_request st);
               s' = (case kv_release rid (kv_alloc s) of
                       (None, a) \<Rightarrow> s\<lparr>kv_alloc := a\<rparr>
                     | (Some l, a) \<Rightarrow> record_kv_event ''release'' l rid (s\<lparr>kv_alloc := a\<rparr>))
           in (st\<lparr>kv_lease := None\<rparr>, s')))"

definition memory_usage :: "sched \<Rightarrow> (string, int) dict" where
  "memory_usage s = kv_usage (kv_alloc s)"

text \<open>The entry \<open>running_requests\<close> of the usage.\<close>

definition memory_usage_running :: "sched \<Rightarrow> int" where
  "memory_usage_running s = int (length (kv_leases (kv_alloc s)))"

lemma memory_usage_running_entry: "map_of (memory_usage s) ''running_requests'' = Some (memory_usage_running s)"
  by (cases "kv_alloc s")
    (simp_all add: memory_usage_def memory_usage_running_def lease_usage_def paged_usage_def used_running_def)

definition kv_health_orphaned :: "sched \<Rightarrow> string list" where
  "kv_health_orphaned s = sort (filter (\<lambda>i. i \<notin> set (decoding s)) (dict_keys (kv_leases (kv_alloc s))))"

definition kv_health_missing :: "sched \<Rightarrow> string list" where
  "kv_health_missing s = sort (filter (\<lambda>i. i \<notin> set (dict_keys (kv_leases (kv_alloc s)))) (decoding s))"

definition kv_leak_detected :: "sched \<Rightarrow> bool" where
  "kv_leak_detected s \<longleftrightarrow> kv_health_orphaned s \<noteq> [] \<or> kv_health_missing s \<noteq> []"

section \<open>Finished responses\<close>

fun evict_loop :: "int \<Rightarrow> (string, GRServingResponse) dict \<Rightarrow> int \<Rightarrow> (string, GRServingResponse) dict \<times> int" where
  "evict_loop m [] evicted = ([], evicted)"
| "evict_loop m (x # d) evicted =
     (if int (length (x # d)) > m then evict_loop m d (evicted + 1) else (x # d, evicted))"

definition enforce_finished_retention :: "sched \<Rightarrow> sched" where
  "enforce_finished_retention s =
     (case max_finished_requests (policy s) of
        None \<Rightarrow> s
      | Some m \<Rightarrow> (case evict_loop m (finished s) (evicted_finished_requests s) of
                     (d, n) \<Rightarrow> s\<lparr>finished := d, evicted_finished_requests := n\<rparr>))"

definition store_finished_response :: "GRServingResponse \<Rightarrow> sched \<Rightarrow> sched" where
  "store_finished_response resp s =
     enforce_finished_retention (s\<lparr>finished := dict_set (resp_request_id resp) resp (finished s)\<rparr>)"

text \<open>What \<open>cancel\<close> and \<open>_fail_state\<close> do before they mark the state: leave the queue, or the decode
  set with its lease.\<close>

definition detach_state :: "GRContinuousRequestState \<Rightarrow> sched \<Rightarrow> GRContinuousRequestState \<times> sched" where
  "detach_state st s =
     (let rid = request_id (st_request st)
      in case st_stage st of
           WaitingPrefill \<Rightarrow> (st, s\<lparr>waiting_prefill := snd (queue_remove rid (waiting_prefill s))\<rparr>)
         | Decoding \<Rightarrow> release_kv_lease st (s\<lparr>decoding := removeAll rid (decoding s)\<rparr>)
         | Finished \<Rightarrow> (st, s))"

definition mark_finished :: "string \<Rightarrow> GRContinuousRequestState \<Rightarrow> sched \<Rightarrow> GRContinuousRequestState \<times> sched" where
  "mark_finished reason st s =
     (case detach_state st s of
        (st1, s1) \<Rightarrow>
          (let st2 = st1\<lparr>st_stage := Finished, finished_tick := Some (tick_count s1), stop_reason := Some reason\<rparr>
           in (st2, set_state (request_id (st_request st)) st2 s1)))"

definition opt_tick :: "int option \<Rightarrow> pyval" where
  "opt_tick t = (case t of None \<Rightarrow> PNone | Some n \<Rightarrow> PInt n)"

section \<open>Submit, cancel, fail\<close>

definition submit :: "GRServingRequest \<Rightarrow> sched \<Rightarrow> unit op_result" where
  "submit r s =
     (case validate_request r of
        Inl e \<Rightarrow> (Inl e, s)
      | Inr _ \<Rightarrow>
          if request_id r \<in> set (dict_keys (states s)) then (Inl (ValueError ''duplicate request_id''), s)
          else
            let s1 = set_state (request_id r) (new_request_state r (tick_count s)) s
            in case queue_submit r (waiting_prefill s1) of
                 Inl e \<Rightarrow> (Inl e, s1)
               | Inr q \<Rightarrow> (Inr (), s1\<lparr>waiting_prefill := q, submitted_requests := submitted_requests s + 1\<rparr>))"

definition cancel :: "string \<Rightarrow> string \<Rightarrow> sched \<Rightarrow> GRServingResponse op_result" where
  "cancel rid reason s =
     (if reason = [] then (Inl (ValueError ''cancel reason must be non-empty''), s)
      else case map_of (finished s) rid of
        Some resp \<Rightarrow> (Inr resp, s)
      | None \<Rightarrow>
          (case map_of (states s) rid of
             None \<Rightarrow> (Inl (KeyError ''unknown request_id''), s)
           | Some st \<Rightarrow>
               (case mark_finished reason st s of
                  (st1, s1) \<Rightarrow>
                    (let resp = \<lparr>resp_request_id = rid, resp_token_ids = [], resp_scores = [],
                           resp_metadata =
                             [(''continuous_batching'', PBool True), (''cancelled'', PBool True),
                              (''decode_steps'', PInt (current_decode_step st1)), (''stop_reason'', PStr reason),
                              (''admitted_tick'', opt_tick (admitted_tick st1)),
                              (''finished_tick'', opt_tick (finished_tick st1))]\<rparr>;
                         s2 = store_finished_response resp s1
                     in (Inr resp, s2\<lparr>cancelled_requests := cancelled_requests s2 + 1\<rparr>)))))"

datatype error_info = ErrorText string | ErrorExc py_exc

fun exc_type_name :: "py_exc \<Rightarrow> string" where
  "exc_type_name (ValueError _) = ''ValueError''"
| "exc_type_name (KeyError _) = ''KeyError''"
| "exc_type_name (MemoryError _) = ''MemoryError''"
| "exc_type_name (RuntimeError _) = ''RuntimeError''"
| "exc_type_name (TypeError _) = ''TypeError''"
| "exc_type_name (IndexError _) = ''IndexError''"
| "exc_type_name (OverflowError _) = ''OverflowError''"
| "exc_type_name (OSError _) = ''OSError''"
| "exc_type_name (AttributeError _) = ''AttributeError''"

fun exc_message :: "py_exc \<Rightarrow> string" where
  "exc_message (ValueError m) = m"
| "exc_message (KeyError m) = m"
| "exc_message (MemoryError m) = m"
| "exc_message (RuntimeError m) = m"
| "exc_message (TypeError m) = m"
| "exc_message (IndexError m) = m"
| "exc_message (OverflowError m) = m"
| "exc_message (OSError m) = m"
| "exc_message (AttributeError m) = m"

fun error_metadata :: "error_info option \<Rightarrow> (string \<times> pyval) list" where
  "error_metadata None = []"
| "error_metadata (Some (ErrorText m)) = [(''error_type'', PStr ''Error''), (''error_message'', PStr m)]"
| "error_metadata (Some (ErrorExc e)) =
     [(''error_type'', PStr (exc_type_name e)), (''error_message'', PStr (exc_message e))]"

definition fail_state ::
  "string \<Rightarrow> error_info option \<Rightarrow> GRContinuousRequestState \<Rightarrow> sched \<Rightarrow> GRServingResponse op_result" where
  "fail_state reason error st s =
     (case mark_finished reason st s of
        (st1, s1) \<Rightarrow>
          (case request_timeout_ticks (st_request st1) of
             Inl e \<Rightarrow> (Inl e, s1)
           | Inr timeout \<Rightarrow>
               (let meta = dict_update (req_metadata (st_request st1))
                      ([(''continuous_batching'', PBool True), (''failed'', PBool True),
                        (''decode_steps'', PInt (current_decode_step st1)), (''stop_reason'', PStr reason),
                        (''submitted_tick'', PInt (submitted_tick st1)),
                        (''admitted_tick'', opt_tick (admitted_tick st1)),
                        (''finished_tick'', opt_tick (finished_tick st1))]
                       @ (case timeout of None \<Rightarrow> [] | Some t \<Rightarrow> [(''timeout_ticks'', PInt t)])
                       @ error_metadata error);
                    resp = \<lparr>resp_request_id = request_id (st_request st1), resp_token_ids = [], resp_scores = [],
                            resp_metadata = meta\<rparr>;
                    s2 = store_finished_response resp s1;
                    s3 = s2\<lparr>failed_requests := failed_requests s2 + 1\<rparr>
                in (Inr resp,
                    if reason \<in> {''request_timeout'', ''timeout''}
                    then s3\<lparr>timed_out_requests := timed_out_requests s3 + 1\<rparr> else s3))))"

definition fail :: "string \<Rightarrow> string \<Rightarrow> error_info option \<Rightarrow> sched \<Rightarrow> GRServingResponse op_result" where
  "fail rid reason error s =
     (if reason = [] then (Inl (ValueError ''failure reason must be non-empty''), s)
      else case map_of (finished s) rid of
        Some resp \<Rightarrow> (Inr resp, s)
      | None \<Rightarrow>
          (case map_of (states s) rid of
             None \<Rightarrow> (Inl (KeyError ''unknown request_id''), s)
           | Some st \<Rightarrow> fail_state reason error st s))"

fun fail_each :: "string list \<Rightarrow> string \<Rightarrow> error_info option \<Rightarrow> sched \<Rightarrow> string list op_result" where
  "fail_each [] reason error s = (Inr [], s)"
| "fail_each (rid # rids) reason error s =
     bind_st (fail rid reason error s) (\<lambda>resp s1.
     bind_st (fail_each rids reason error s1) (\<lambda>ids s2. (Inr (resp_request_id resp # ids), s2)))"

text \<open>The decoding ids are read after the waiting ones have been failed.\<close>

definition fail_unfinished :: "string \<Rightarrow> error_info option \<Rightarrow> sched \<Rightarrow> string list op_result" where
  "fail_unfinished reason error s =
     bind_st (fail_each (queue_request_ids (waiting_prefill s)) reason error s) (\<lambda>a s1.
     bind_st (fail_each (decoding s1) reason error s1) (\<lambda>b s2. (Inr (a @ b), s2)))"

fun fail_request_ids ::
  "string list \<Rightarrow> string \<Rightarrow> error_info option \<Rightarrow> sched \<Rightarrow> string list op_result" where
  "fail_request_ids [] reason error s = (Inr [], s)"
| "fail_request_ids (rid # rids) reason error s =
     (case map_of (states s) rid of
        None \<Rightarrow> fail_request_ids rids reason error s
      | Some st \<Rightarrow>
          if st_stage st = Finished then fail_request_ids rids reason error s
          else bind_st (fail_state reason error st s) (\<lambda>resp s1.
               bind_st (fail_request_ids rids reason error s1) (\<lambda>ids s2.
                 (Inr (resp_request_id resp # ids), s2))))"

fun timeout_loop :: "string list \<Rightarrow> sched \<Rightarrow> string list op_result" where
  "timeout_loop [] s = (Inr [], s)"
| "timeout_loop (rid # rids) s =
     (case map_of (states s) rid of
        None \<Rightarrow> timeout_loop rids s
      | Some st \<Rightarrow>
          if st_stage st = Finished then timeout_loop rids s
          else case request_timeout_ticks (st_request st) of
            Inl e \<Rightarrow> (Inl e, s)
          | Inr None \<Rightarrow> timeout_loop rids s
          | Inr (Some t) \<Rightarrow>
              if tick_count s - submitted_tick st > t
              then bind_st (fail_state ''request_timeout'' (Some (ErrorText (''request exceeded timeout_ticks='' @ str_int t))) st s)
                     (\<lambda>resp s1. bind_st (timeout_loop rids s1) (\<lambda>ids s2. (Inr (resp_request_id resp # ids), s2)))
              else timeout_loop rids s)"

definition fail_timed_out_requests :: "sched \<Rightarrow> string list op_result" where
  "fail_timed_out_requests s = timeout_loop (dict_keys (states s)) s"

section \<open>Admission\<close>

definition decoding_add :: "string \<Rightarrow> string list \<Rightarrow> string list" where
  "decoding_add rid ids = (if rid \<in> set ids then ids else ids @ [rid])"

text \<open>One admitted request: lease, first width, stage.\<close>

definition admit_request :: "GRServingRequest \<Rightarrow> sched \<Rightarrow> unit op_result" where
  "admit_request r s =
     (case map_of (states s) (request_id r) of
        None \<Rightarrow> (Inl (KeyError (request_id r)), s)
      | Some st \<Rightarrow>
          bind_st (allocate_kv_lease r s) (\<lambda>l s1.
            let st1 = st\<lparr>kv_lease := Some l\<rparr>; s2 = set_state (request_id r) st1 s1
            in case policy_width_for_step r 0 (req_beam_width r) of
                 Inl e \<Rightarrow> (Inl e, s2)
               | Inr w \<Rightarrow>
                   (let st2 = st1\<lparr>st_active_beam_width := Some w, st_stage := Decoding,
                                  admitted_tick := Some (tick_count s2)\<rparr>
                    in (Inr (), (set_state (request_id r) st2 s2)
                          \<lparr>decoding := decoding_add (request_id r) (decoding s2)\<rparr>))))"

text \<open>The loop over the queue: the admitted ids and the deferred requests.\<close>

fun admit_loop ::
  "queue \<Rightarrow> string list \<Rightarrow> sched \<Rightarrow> (string list \<times> GRServingRequest list) op_result" where
  "admit_loop [] admitted s = (Inr (admitted, []), s)"
| "admit_loop (r # q) admitted s =
     (if \<not> int (length admitted) < max_prefill_batch_size (policy s) then (Inr (admitted, []), s)
      else
        let s1 = s\<lparr>waiting_prefill := q\<rparr>
        in case can_allocate_kv r s1 of
             Inl e \<Rightarrow> (Inl e, s1)
           | Inr ok \<Rightarrow>
               if \<not> ok then
                 (if memory_usage_running s1 = 0 \<and> admitted = []
                  then (Inl (ValueError ''request exceeds continuous batching memory budget''), s1)
                  else (Inr (admitted, [r]), s1))
               else bind_st (admit_request r s1) (\<lambda>_ s2. admit_loop q (admitted @ [request_id r]) s2))"

fun push_front_all :: "GRServingRequest list \<Rightarrow> sched \<Rightarrow> unit op_result" where
  "push_front_all [] s = (Inr (), s)"
| "push_front_all (r # rs) s =
     (case queue_push_front r (waiting_prefill s) of
        Inl e \<Rightarrow> (Inl e, s)
      | Inr q \<Rightarrow> push_front_all rs (s\<lparr>waiting_prefill := q\<rparr>))"

definition admit_prefill_batch :: "sched \<Rightarrow> string list op_result" where
  "admit_prefill_batch s =
     bind_st (admit_loop (waiting_prefill s) [] s) (\<lambda>(admitted, deferred) s1.
     bind_st (push_front_all (rev deferred) s1) (\<lambda>_ s2.
       (Inr admitted,
        if admitted = [] then s2
        else s2\<lparr>admitted_prefill_batches := admitted_prefill_batches s2 + 1\<rparr>)))"

section \<open>Decode planning\<close>

type_synonym group_key = "int \<times> int \<times> int \<times> int"

definition chunks :: "'a list \<Rightarrow> int \<Rightarrow> 'a list list" where
  "chunks xs n = blocks (nat n) xs"

definition plan_key :: "GRContinuousRequestState \<Rightarrow> group_key py_result" where
  "plan_key st =
     bind_res (policy_width_for_step (st_request st) (current_decode_step st + 1) (state_beam_width st)) (\<lambda>w.
       Inr (current_decode_step st, state_beam_width st, w, request_context_tokens (st_request st)))"

definition group_add :: "group_key \<Rightarrow> string \<Rightarrow> (group_key, string list) dict \<Rightarrow> (group_key, string list) dict" where
  "group_add k rid groups =
     dict_set k ((case map_of groups k of None \<Rightarrow> [] | Some ids \<Rightarrow> ids) @ [rid]) groups"

fun group_loop ::
  "(string, GRContinuousRequestState) dict \<Rightarrow> string list \<Rightarrow> (group_key, string list) dict
   \<Rightarrow> (group_key, string list) dict py_result" where
  "group_loop sts [] groups = Inr groups"
| "group_loop sts (rid # rids) groups =
     (case map_of sts rid of
        None \<Rightarrow> Inl (KeyError rid)
      | Some st \<Rightarrow> bind_res (plan_key st) (\<lambda>k. group_loop sts rids (group_add k rid groups)))"

definition batches_of_group :: "int \<Rightarrow> group_key \<times> string list \<Rightarrow> GRContinuousDecodeBatch list" where
  "batches_of_group n g =
     (case g of ((step, width, next_width, ctx), ids) \<Rightarrow>
        map (\<lambda>chunk. \<lparr>batch_step = step, dbatch_beam_width = width, next_beam_width = next_width,
               batch_context_len = ctx, batch_request_ids = chunk\<rparr>) (chunks ids n))"

definition plan_decode_batches :: "sched \<Rightarrow> GRContinuousDecodeBatch list op_result" where
  "plan_decode_batches s =
     (case group_loop (states s) (decoding s) [] of
        Inl e \<Rightarrow> (Inl e, s)
      | Inr groups \<Rightarrow>
          (let batches = concat (map (batches_of_group (max_decode_batch_size (policy s))) (sort_key fst groups))
           in (Inr batches, s\<lparr>planned_decode_batches := planned_decode_batches s + int (length batches)\<rparr>)))"

section \<open>Decode advancement\<close>

definition advance_request :: "string \<Rightarrow> int \<Rightarrow> sched \<Rightarrow> bool \<times> sched" where
  "advance_request rid next_width s =
     (if rid \<notin> set (decoding s) then (False, s)
      else case map_of (states s) rid of
        None \<Rightarrow> (False, s)
      | Some st \<Rightarrow>
          (let st1 = st\<lparr>current_decode_step := current_decode_step st + 1\<rparr>
           in if current_decode_step st1 \<ge> req_max_decode_steps (st_request st1)
              then
                let st2 = st1\<lparr>st_stage := Finished, finished_tick := Some (tick_count s),
                              stop_reason := Some ''max_decode_steps''\<rparr>;
                    (st3, s1) = release_kv_lease st2 (s\<lparr>decoding := removeAll rid (decoding s)\<rparr>);
                    s2 = set_state rid st3 s1;
                    resp = \<lparr>resp_request_id = rid, resp_token_ids = [], resp_scores = [],
                      resp_metadata = dict_update (req_metadata (st_request st3))
                        [(''continuous_batching'', PBool True), (''decode_steps'', PInt (current_decode_step st3)),
                         (''stop_reason'', PStr ''max_decode_steps''), (''submitted_tick'', PInt (submitted_tick st3)),
                         (''admitted_tick'', opt_tick (admitted_tick st3)),
                         (''finished_tick'', opt_tick (finished_tick st3))]\<rparr>;
                    s3 = store_finished_response resp s2
                in (True, s3\<lparr>succeeded_requests := succeeded_requests s3 + 1\<rparr>)
              else (False, set_state rid (st1\<lparr>st_active_beam_width := Some next_width\<rparr>) s)))"

fun advance_ids :: "string list \<Rightarrow> int \<Rightarrow> sched \<Rightarrow> string list \<times> sched" where
  "advance_ids [] next_width s = ([], s)"
| "advance_ids (rid # rids) next_width s =
     (case advance_request rid next_width s of
        (fin, s1) \<Rightarrow> (case advance_ids rids next_width s1 of
                        (ids, s2) \<Rightarrow> (if fin then rid # ids else ids, s2)))"

fun advance_decode_batches :: "GRContinuousDecodeBatch list \<Rightarrow> sched \<Rightarrow> string list \<times> sched" where
  "advance_decode_batches [] s = ([], s)"
| "advance_decode_batches (b # bs) s =
     (case advance_ids (batch_request_ids b) (next_beam_width b) s of
        (a, s1) \<Rightarrow> (case advance_decode_batches bs s1 of (c, s2) \<Rightarrow> (a @ c, s2)))"

section \<open>Tick and run\<close>

type_synonym prefill_executor = "string list \<Rightarrow> sched \<Rightarrow> unit op_result"
type_synonym decode_executor = "GRContinuousDecodeBatch list \<Rightarrow> sched \<Rightarrow> string list op_result"

definition default_decode :: decode_executor where
  "default_decode batches s = (case advance_decode_batches batches s of (ids, s') \<Rightarrow> (Inr ids, s'))"

definition finish_tick ::
  "string list \<Rightarrow> GRContinuousDecodeBatch list \<Rightarrow> string list \<Rightarrow> sched \<Rightarrow> GRContinuousTickResult op_result" where
  "finish_tick prefill batches fin s =
     (let result = \<lparr>tick_no = tick_count s, prefill_request_ids = prefill, decode_batches = batches,
            finished_request_ids = fin, tick_memory_usage = memory_usage s\<rparr>
      in (Inr result, s\<lparr>tick_history := tick_history s @ [result]\<rparr>))"

definition tick_decode ::
  "decode_executor \<Rightarrow> string list \<Rightarrow> string list \<Rightarrow> sched \<Rightarrow> GRContinuousTickResult op_result" where
  "tick_decode decode timed_out prefill s =
     bind_st (plan_decode_batches s) (\<lambda>batches s1.
       case decode batches s1 of
         (Inr fin, s2) \<Rightarrow> finish_tick prefill batches (timed_out @ fin) s2
       | (Inl e, s2) \<Rightarrow>
           bind_st (fail_request_ids (concat (map batch_request_ids batches)) ''decode_failed'' (Some (ErrorExc e)) s2)
             (\<lambda>fin s3. finish_tick prefill batches (timed_out @ fin) s3))"

definition tick :: "prefill_executor option \<Rightarrow> decode_executor \<Rightarrow> sched \<Rightarrow> GRContinuousTickResult op_result" where
  "tick prefill_exec decode_exec s =
     bind_st (fail_timed_out_requests (s\<lparr>tick_count := tick_count s + 1\<rparr>)) (\<lambda>timed_out s1.
     bind_st (admit_prefill_batch s1) (\<lambda>prefill s2.
       case prefill_exec of
         None \<Rightarrow> tick_decode decode_exec timed_out prefill s2
       | Some ex \<Rightarrow>
           (case ex prefill s2 of
              (Inr _, s3) \<Rightarrow> tick_decode decode_exec timed_out prefill s3
            | (Inl e, s3) \<Rightarrow>
                bind_st (fail_request_ids prefill ''prefill_failed'' (Some (ErrorExc e)) s3)
                  (\<lambda>failed s4. finish_tick prefill [] (timed_out @ failed) s4))))"

text \<open>\<open>run_until_empty\<close>, whose ticks have no executors; \<open>fuel\<close> bounds the turns, \<open>None\<close> is running out of it.\<close>

fun run_loop :: "nat \<Rightarrow> int \<Rightarrow> int option \<Rightarrow> bool \<Rightarrow> sched \<Rightarrow> unit op_result option" where
  "run_loop 0 ticks max_ticks timeout_unfinished s = None"
| "run_loop (Suc fuel) ticks max_ticks timeout_unfinished s =
     (if waiting_prefill s = [] \<and> decoding s = [] then Some (Inr (), s)
      else if (case max_ticks of None \<Rightarrow> False | Some m \<Rightarrow> ticks \<ge> m)
      then Some (if timeout_unfinished
                 then bind_st (fail_unfinished ''timeout'' None s) (\<lambda>_ s1. (Inr (), s1))
                 else (Inr (), s))
      else case tick None default_decode s of
             (Inl e, s1) \<Rightarrow> Some (Inl e, s1)
           | (Inr _, s1) \<Rightarrow> run_loop fuel (ticks + 1) max_ticks timeout_unfinished s1)"

definition run_until_empty ::
  "nat \<Rightarrow> int option \<Rightarrow> bool \<Rightarrow> sched \<Rightarrow> GRServingResponse list op_result option" where
  "run_until_empty fuel max_ticks timeout_unfinished s =
     map_option (\<lambda>r. bind_st r (\<lambda>_ s1. (Inr (dict_values (finished s1)), s1)))
       (run_loop fuel 0 max_ticks timeout_unfinished s)"

section \<open>The memory budget recomputed\<close>

text \<open>\<open>GRMemoryBudget.usage\<close> and \<open>can_admit\<close> replay the decoding states into a fresh allocator.\<close>

fun budget_replay ::
  "GRContinuousRequestState list \<Rightarrow> GRKVLeaseAllocator \<Rightarrow> GRKVLeaseAllocator py_result" where
  "budget_replay [] a = Inr a"
| "budget_replay (st # sts) a =
     (if st_stage st = Decoding then
        bind_res (lease_allocate (request_id (st_request st)) (request_context_tokens (st_request st))
            (request_beam_slots (st_request st)) a) (\<lambda>(_, a'). budget_replay sts a')
      else budget_replay sts a)"

definition budget_usage ::
  "GRContinuousBatchingPolicy \<Rightarrow> GRContinuousRequestState list \<Rightarrow> (string, int) dict py_result" where
  "budget_usage pol sts =
     bind_res (memory_budget_allocator pol) (\<lambda>a. bind_res (budget_replay sts a) (\<lambda>a'. Inr (lease_usage a')))"

definition budget_can_admit ::
  "GRContinuousBatchingPolicy \<Rightarrow> GRContinuousRequestState list \<Rightarrow> GRServingRequest \<Rightarrow> bool py_result" where
  "budget_can_admit pol sts r =
     bind_res (memory_budget_allocator pol) (\<lambda>a. bind_res (budget_replay sts a) (\<lambda>a'.
       lease_can_allocate (request_id r) (request_context_tokens r) (request_beam_slots r) a'))"

section \<open>Status and metrics\<close>

definition decode_batch_metadata :: "GRContinuousDecodeBatch \<Rightarrow> (string, pyval) dict" where
  "decode_batch_metadata b =
     [(''step'', PInt (batch_step b)), (''beam_width'', PInt (dbatch_beam_width b)),
      (''active_beam_width'', PInt (dbatch_beam_width b)), (''next_beam_width'', PInt (next_beam_width b)),
      (''context_len'', PInt (batch_context_len b)), (''size'', PInt (int (length (batch_request_ids b)))),
      (''request_ids'', PList (map PStr (batch_request_ids b))),
      (''group_key'', PDict [(''step'', PInt (batch_step b)), (''active_beam_width'', PInt (dbatch_beam_width b)),
         (''next_beam_width'', PInt (next_beam_width b)), (''context_len'', PInt (batch_context_len b))])]"

definition int_dict :: "(string, int) dict \<Rightarrow> (string, pyval) dict" where
  "int_dict d = map (\<lambda>(k, n). (k, PInt n)) d"

text \<open>\<open>tick_history\<close> holds these dictionaries; the model keeps the results they are made of.\<close>

definition tick_metadata :: "GRContinuousTickResult \<Rightarrow> (string, pyval) dict" where
  "tick_metadata t =
     [(''tick'', PInt (tick_no t)), (''prefill_request_ids'', PList (map PStr (prefill_request_ids t))),
      (''decode_batches'', PList (map (\<lambda>b. PDict (decode_batch_metadata b)) (decode_batches t))),
      (''finished_request_ids'', PList (map PStr (finished_request_ids t))),
      (''memory_usage'', PDict (int_dict (tick_memory_usage t)))]"

definition kv_health_status :: "sched \<Rightarrow> (string, pyval) dict" where
  "kv_health_status s =
     [(''kv_allocator_leak_detected'', PBool (kv_leak_detected s)),
      (''kv_allocator_orphaned_leases'', PList (map PStr (kv_health_orphaned s))),
      (''kv_allocator_missing_leases'', PList (map PStr (kv_health_missing s))),
      (''kv_allocator_orphaned_lease_count'', PInt (int (length (kv_health_orphaned s)))),
      (''kv_allocator_missing_lease_count'', PInt (int (length (kv_health_missing s))))]"

definition kv_event_dict :: "kv_event \<Rightarrow> (string, pyval) dict" where
  "kv_event_dict e =
     [(''type'', PStr (event_type e)), (''tick'', PInt (event_tick e)), (''request_id'', PStr (event_request_id e)),
      (''context_tokens'', PInt (event_context_tokens e)), (''beam_slots'', PInt (event_beam_slots e))]"

definition mean :: "int list \<Rightarrow> rat" where
  "mean ns = (if ns = [] then 0 else of_int (sum_list ns) / of_nat (length ns))"

definition avg_prefill_batch_size :: "sched \<Rightarrow> rat" where
  "avg_prefill_batch_size s =
     mean (filter (\<lambda>n. n \<noteq> 0) (map (\<lambda>t. int (length (prefill_request_ids t))) (tick_history s)))"

definition avg_decode_batch_size :: "sched \<Rightarrow> rat" where
  "avg_decode_batch_size s =
     mean (map (\<lambda>b. int (length (batch_request_ids b))) (concat (map decode_batches (tick_history s))))"

definition scheduler_counters :: "sched \<Rightarrow> (string, pyval) dict" where
  "scheduler_counters s = int_dict
     [(''submitted_requests'', submitted_requests s), (''succeeded_requests'', succeeded_requests s),
      (''cancelled_requests'', cancelled_requests s), (''failed_requests'', failed_requests s),
      (''timed_out_requests'', timed_out_requests s), (''evicted_finished_requests'', evicted_finished_requests s),
      (''admitted_prefill_batches'', admitted_prefill_batches s),
      (''planned_decode_batches'', planned_decode_batches s), (''ticks'', tick_count s)]"

definition scheduler_status :: "sched \<Rightarrow> (string, pyval) dict" where
  "scheduler_status s =
     [(''waiting_prefill'', PInt (int (length (waiting_prefill s)))), (''decoding'', PInt (int (length (decoding s)))),
      (''finished'', PInt (int (length (finished s)))),
      (''retained_finished_requests'', PInt (int (length (finished s))))]
     @ scheduler_counters s
     @ [(''policy'', PDict
          [(''max_prefill_batch_size'', PInt (max_prefill_batch_size (policy s))),
           (''max_decode_batch_size'', PInt (max_decode_batch_size (policy s))),
           (''max_running_requests'', opt_int (pol_max_running_requests (policy s))),
           (''max_context_tokens'', opt_int (pol_max_context_tokens (policy s))),
           (''max_beam_slots'', opt_int (pol_max_beam_slots (policy s))),
           (''max_finished_requests'', opt_int (max_finished_requests (policy s))),
           (''decode_batch_grouping'', PStr ''step,active_beam_width,next_beam_width,context_len'')]),
        (''memory_usage'', PDict (int_dict (memory_usage s))),
        (''kv_allocator'', PDict (kv_status (kv_alloc s))),
        (''kv_health'', PDict (kv_health_status s)),
        (''kv_events'', PList (map (\<lambda>e. PDict (kv_event_dict e)) (kv_events s)))]"

definition metric_name :: "string \<Rightarrow> string \<Rightarrow> string" where
  "metric_name pre name =
     (if take (length pre + 1) name = pre @ ''_'' then name else pre @ ''_'' @ name)"

fun numeric_metric :: "pyval \<Rightarrow> pyval option" where
  "numeric_metric (PBool b) = Some (PInt (if b then 1 else 0))"
| "numeric_metric (PInt n) = Some (PInt n)"
| "numeric_metric (PFloat x) = Some (PFloat x)"
| "numeric_metric _ = None"

fun numeric_status_metrics :: "string \<Rightarrow> (string, pyval) dict \<Rightarrow> (string, pyval) dict \<Rightarrow> (string, pyval) dict" where
  "numeric_status_metrics pre [] acc = acc"
| "numeric_status_metrics pre ((name, v) # d) acc =
     numeric_status_metrics pre d
       (case numeric_metric v of None \<Rightarrow> acc | Some m \<Rightarrow> dict_set (metric_name pre name) m acc)"

definition scheduler_metrics :: "sched \<Rightarrow> (string, pyval) dict" where
  "scheduler_metrics s =
     (let w = int (length (waiting_prefill s)); d = int (length (decoding s)); f = int (length (finished s));
          base = int_dict [(''waiting_prefill_requests'', w), (''decoding_requests'', d), (''active_requests'', w + d),
                   (''finished_requests'', f), (''retained_finished_requests'', f)]
                 @ scheduler_counters s
                 @ [(''kv_events_recorded'', PInt (int (length (kv_events s)))),
                    (''avg_prefill_batch_size'', PFloat (Fin (avg_prefill_batch_size s))),
                    (''avg_decode_batch_size'', PFloat (Fin (avg_decode_batch_size s)))];
          m0 = dict_update base (map (\<lambda>(k, n). (''kv_'' @ k, PInt n)) (memory_usage s));
          m1 = dict_update m0 (numeric_status_metrics ''kv_allocator'' (kv_status (kv_alloc s)) [])
      in dict_update m1 (numeric_status_metrics ''kv_health'' (kv_health_status s) []))"

end
