(* ===== verification/GR_Continuous_Inv.thy ===== *)
theory GR_Continuous_Inv
  imports GR_Continuous
begin

text \<open>
  The invariant of the continuous scheduler and its preservation by every operation. The invariant
  speaks about the policy, the queue, the decode set, the request states, the allocator and the tick
  count (\<open>core_inv\<close>); all other fields are bookkeeping. Its heart is that the ids holding a KV lease
  are, in order, the ids being decoded.
\<close>

section \<open>The invariant\<close>

text \<open>A request stays the valid one that was submitted; only the prompt of a finished request may be dropped.\<close>

definition request_ok :: "GRContinuousRequestState \<Rightarrow> bool" where
  "request_ok st \<longleftrightarrow> (\<exists>ids. valid_request ((st_request st)\<lparr>req_input_ids := ids\<rparr>))
     \<and> (st_stage st \<noteq> Finished \<longrightarrow> valid_request (st_request st))"

definition state_ok :: "string list \<Rightarrow> kv_allocator \<Rightarrow> int \<Rightarrow> string \<Rightarrow> GRContinuousRequestState \<Rightarrow> bool" where
  "state_ok dec al t i st \<longleftrightarrow> request_id (st_request st) = i \<and> request_ok st
     \<and> submitted_tick st \<le> t \<and> (st_stage st = Decoding \<longleftrightarrow> i \<in> set dec)
     \<and> kv_lease st = map_of (kv_leases al) i
     \<and> (\<forall>l. kv_lease st = Some l \<longrightarrow> lease_context_tokens l = request_context_tokens (st_request st)
            \<and> lease_beam_slots l = request_beam_slots (st_request st))
     \<and> 0 \<le> current_decode_step st \<and> current_decode_step st \<le> req_max_decode_steps (st_request st)
     \<and> (st_stage st = WaitingPrefill \<longrightarrow> current_decode_step st = 0)
     \<and> (st_stage st = Decoding \<longrightarrow> current_decode_step st < req_max_decode_steps (st_request st)
          \<and> (\<exists>w. st_active_beam_width st = Some w \<and> 0 < w \<and> w \<le> req_beam_width (st_request st)))"

lemma valid_request_ok: "valid_request (st_request st) \<Longrightarrow> request_ok st"
  unfolding request_ok_def by (intro conjI exI [of _ "req_input_ids (st_request st)"]) simp_all

lemma request_ok_cong: "st_request st' = st_request st \<Longrightarrow> st_stage st' = st_stage st \<Longrightarrow> request_ok st' = request_ok st"
  by (simp add: request_ok_def)

lemma request_ok_updates [simp]:
  "request_ok (st\<lparr>current_decode_step := n\<rparr>) = request_ok st" "request_ok (st\<lparr>st_active_beam_width := w\<rparr>) = request_ok st"
  "request_ok (st\<lparr>kv_lease := l\<rparr>) = request_ok st" "request_ok (st\<lparr>admitted_tick := t\<rparr>) = request_ok st"
  by (rule request_ok_cong; simp)+

lemma request_ok_decoding [simp]: "request_ok (st\<lparr>st_stage := Decoding\<rparr>) = valid_request (st_request st)"
  using valid_request_ok [of "st\<lparr>st_stage := Decoding\<rparr>"] by (auto simp: request_ok_def)

lemma request_okD:
  assumes "request_ok st"
  shows "st_stage st \<noteq> Finished \<Longrightarrow> valid_request (st_request st)"
    and "\<exists>t. request_timeout_ticks (st_request st) = Inr t"
    and "st_request st' = st_request st \<Longrightarrow> st_stage st' = Finished \<Longrightarrow> request_ok st'"
proof -
  obtain ids where "valid_request ((st_request st)\<lparr>req_input_ids := ids\<rparr>)" using assms by (auto simp: request_ok_def)
  then show "\<exists>t. request_timeout_ticks (st_request st) = Inr t"
    using valid_request_fields(5) by (fastforce simp: request_timeout_ticks_def)
qed (use assms in \<open>simp_all add: request_ok_def\<close>)

lemma state_ok_valid: "state_ok dec al t i st \<Longrightarrow> st_stage st \<noteq> Finished \<Longrightarrow> valid_request (st_request st)"
  by (simp add: state_ok_def request_ok_def)

lemma state_ok_timeout: "state_ok dec al t i st \<Longrightarrow> \<exists>t. request_timeout_ticks (st_request st) = Inr t"
  using request_okD(2) by (simp add: state_ok_def)

definition queued :: "(string, GRContinuousRequestState) dict \<Rightarrow> GRServingRequest \<Rightarrow> bool" where
  "queued sts r \<longleftrightarrow> (\<exists>st. map_of sts (request_id r) = Some st \<and> st_request st = r \<and> st_stage st = WaitingPrefill)"

definition core_inv ::
  "GRContinuousBatchingPolicy \<Rightarrow> queue \<Rightarrow> string list \<Rightarrow> (string, GRContinuousRequestState) dict
   \<Rightarrow> kv_allocator \<Rightarrow> int \<Rightarrow> bool" where
  "core_inv pol q dec sts al t \<longleftrightarrow>
     0 < max_prefill_batch_size pol \<and> 0 < max_decode_batch_size pol
     \<and> kv_inv al \<and> wf_dict sts \<and> dict_keys (kv_leases al) = dec \<and> set dec \<subseteq> set (dict_keys sts)
     \<and> (\<forall>i st. map_of sts i = Some st \<longrightarrow> state_ok dec al t i st)
     \<and> distinct (map request_id q)
     \<and> (\<forall>r \<in> set q. queued sts r)"

definition sched_inv :: "sched \<Rightarrow> bool" where
  "sched_inv s \<longleftrightarrow> core_inv (policy s) (waiting_prefill s) (decoding s) (states s) (kv_alloc s) (tick_count s)"

lemma core_invD:
  assumes "core_inv pol q dec sts al t"
  shows "kv_inv al" and "wf_dict sts" and "dict_keys (kv_leases al) = dec" and "distinct dec"
    and "set dec \<subseteq> set (dict_keys sts)" and "distinct (map request_id q)"
    and "0 < max_prefill_batch_size pol" and "0 < max_decode_batch_size pol"
    and "\<And>i st. map_of sts i = Some st \<Longrightarrow> state_ok dec al t i st"
    and "\<And>r. r \<in> set q \<Longrightarrow> queued sts r"
  using assms kv.wf_leases [of al] unfolding core_inv_def by blast+

lemma core_inv_decoding:
  assumes "core_inv pol q dec sts al t" and "i \<in> set dec"
  shows "\<exists>st. map_of sts i = Some st \<and> st_stage st = Decoding \<and> state_ok dec al t i st"
proof -
  have "i \<in> set (dict_keys sts)" using core_invD(5) [OF assms(1)] assms(2) by blast
  then obtain st where st: "map_of sts i = Some st" by (blast dest: key_in_dict_Some)
  then show ?thesis using core_invD(9) [OF assms(1) st] assms(2) by (auto simp: state_ok_def)
qed

lemma kv_release_absent: "i \<notin> set (dict_keys (kv_leases al)) \<Longrightarrow> snd (kv_release i al) = al"
proof (cases al)
  case (LeaseAllocator a)
  assume "i \<notin> set (dict_keys (kv_leases al))"
  then show ?thesis using LeaseAllocator by (simp add: lease_release_def)
next
  case (PagedAllocator a)
  assume "i \<notin> set (dict_keys (kv_leases al))"
  then have "map_of (leases a) i = None" using PagedAllocator unfolding map_of_None_iff_keys by simp
  then show ?thesis using PagedAllocator by (simp add: paged_release_def)
qed

lemma lease_after_release:
  "kv_inv al \<Longrightarrow> map_of (kv_leases (snd (kv_release i al))) j = (if j = i then None else map_of (kv_leases al) j)"
  using kv.release_law [of al i] by (simp add: dict_lookup)

section \<open>Changes of the core\<close>

text \<open>A request leaves the queue or the decode set and gives its lease back.\<close>

lemma core_finish:
  assumes inv: "core_inv pol q dec sts al t" and st: "map_of sts i = Some st"
    and st': "st_request st' = st_request st" "submitted_tick st' = submitted_tick st"
      "st_stage st' = Finished" "kv_lease st' = None"
      "0 \<le> current_decode_step st'" "current_decode_step st' \<le> req_max_decode_steps (st_request st')"
  shows "core_inv pol (filter (\<lambda>r. request_id r \<noteq> i) q) (removeAll i dec) (dict_set i st' sts)
     (snd (kv_release i al)) t"
proof -
  note D = core_invD [OF inv]
  note rel = kv.release_law [OF D(1), of i]
  have ok: "state_ok dec al t i st" by (rule D(9) [OF st])
  have keys: "set (removeAll i dec) \<subseteq> set (dict_keys (dict_set i st' sts))"
    using D(5) unfolding dict_set_keys_set by auto
  have "state_ok (removeAll i dec) (snd (kv_release i al)) t j stj" if "map_of (dict_set i st' sts) j = Some stj" for j stj
  proof (cases "j = i")
    case True
    then show ?thesis
      using that ok st' request_okD(3) [of st st'] lease_after_release [OF D(1), of i i] by (auto simp: state_ok_def dict_lookup)
  next
    case False
    then have "state_ok dec al t j stj" using that D(9) by (simp add: dict_lookup)
    then show ?thesis using False lease_after_release [OF D(1), of i j] by (auto simp: state_ok_def)
  qed
  moreover have "queued (dict_set i st' sts) r"
    if "r \<in> set (filter (\<lambda>r. request_id r \<noteq> i) q)" for r
    using that D(10) [of r] by (auto simp: queued_def dict_lookup)
  moreover have "distinct (map request_id (filter (\<lambda>r. request_id r \<noteq> i) q))"
    using D(6) by (simp add: distinct_map_filter)
  moreover have "dict_keys (kv_leases (snd (kv_release i al))) = removeAll i dec"
    using rel D(3) by (simp add: dict_pop_keys)
  ultimately show ?thesis
    using D(2,7,8) keys rel unfolding core_inv_def by (simp add: wf_dict_set)
qed

lemma core_admit:
  assumes inv: "core_inv pol (r # q) dec sts al t" and st: "map_of sts (request_id r) = Some st"
    and al: "kv_allocate (request_id r) (request_context_tokens r) (request_beam_slots r) al = Inr (l, al')"
    and w: "0 < w" "w \<le> req_beam_width r"
  shows "core_inv pol q (dec @ [request_id r])
     (dict_set (request_id r) (st\<lparr>kv_lease := Some l, st_active_beam_width := Some w, st_stage := Decoding,
        admitted_tick := Some n\<rparr>) sts) al' t"
proof -
  note D = core_invD [OF inv]
  let ?i = "request_id r"
  obtain st0 where "map_of sts ?i = Some st0" "st_request st0 = r" "st_stage st0 = WaitingPrefill"
    using D(10) [of r] by (auto simp: queued_def)
  then have sr: "st_request st = r" and stage: "st_stage st = WaitingPrefill" using st by auto
  have ok: "state_ok dec al t ?i st" by (rule D(9) [OF st])
  have vr: "valid_request r" using state_ok_valid [OF ok] sr stage by simp
  note al' = kv.alloc_Inr [OF D(1) request_context_tokens_nonneg request_beam_slots_nonneg [OF vr] al]
  have new: "?i \<notin> set dec" using al' D(3) by simp
  let ?st = "st\<lparr>kv_lease := Some l, st_active_beam_width := Some w, st_stage := Decoding, admitted_tick := Some n\<rparr>"
  have lk: "map_of (kv_leases al') j = (if j = ?i then Some l else map_of (kv_leases al) j)" for j
    using al' lookup_snoc_new [of ?i "kv_leases al" l j] by simp
  have "state_ok (dec @ [?i]) al' t j stj" if "map_of (dict_set ?i ?st sts) j = Some stj" for j stj
  proof (cases "j = ?i")
    case True
    then show ?thesis
      using that ok sr stage w vr lk [of ?i] al' valid_request_fields(2) [OF vr]
      by (auto simp: state_ok_def dict_lookup)
  next
    case False
    then have "state_ok dec al t j stj" using that D(9) by (simp add: dict_lookup)
    then show ?thesis using False lk [of j] by (auto simp: state_ok_def)
  qed
  moreover have "queued (dict_set ?i ?st sts) x"
    if "x \<in> set q" for x
  proof -
    have "request_id x \<in> request_id ` set q" using that by (rule imageI)
    then have "request_id x \<noteq> ?i" using D(6) by auto
    then show ?thesis using that D(10) [of x] by (simp add: queued_def dict_lookup)
  qed
  moreover have "set (dec @ [?i]) \<subseteq> set (dict_keys (dict_set ?i ?st sts))"
    using D(5) unfolding dict_set_keys_set by auto
  moreover have "dict_keys (kv_leases al') = dec @ [?i]" using al' D(3) by simp
  ultimately show ?thesis
    using D(2,6,7,8) al' unfolding core_inv_def by (simp add: wf_dict_set)
qed

lemma core_drop_head: "core_inv pol (r # q) dec sts al t \<Longrightarrow> core_inv pol q dec sts al t"
  by (auto simp: core_inv_def)

lemma state_ok_later: "state_ok dec al t i st \<Longrightarrow> t \<le> t' \<Longrightarrow> state_ok dec al t' i st"
  unfolding state_ok_def using order_trans [of "submitted_tick st" t t'] by blast

lemma core_later: "core_inv pol q dec sts al t \<Longrightarrow> t \<le> t' \<Longrightarrow> core_inv pol q dec sts al t'"
  unfolding core_inv_def using state_ok_later by blast

lemma core_submit:
  assumes inv: "core_inv pol q dec sts al t" and new: "request_id r \<notin> set (dict_keys sts)" and vr: "valid_request r"
  shows "core_inv pol (q @ [r]) dec (dict_set (request_id r) (new_request_state r t) sts) al t"
proof -
  note D = core_invD [OF inv]
  let ?i = "request_id r" and ?st = "new_request_state r t"
  have nd: "?i \<notin> set dec" using D(5) new by blast
  have nl: "map_of (kv_leases al) ?i = None" using nd D(3) by (metis map_of_None_iff_keys)
  have "state_ok dec al t j stj" if "map_of (dict_set ?i ?st sts) j = Some stj" for j stj
    using that D(9) [of j stj] nd nl vr valid_request_fields(2) [OF vr] valid_request_ok [of ?st]
    by (cases "j = ?i") (auto simp: dict_lookup state_ok_def new_request_state_def)
  moreover have "queued (dict_set ?i ?st sts) x"
    if "x \<in> set (q @ [r])" for x
  proof (cases "x \<in> set q")
    case True
    then obtain sx where sx: "map_of sts (request_id x) = Some sx" "st_request sx = x" "st_stage sx = WaitingPrefill"
      using D(10) [OF True] by (auto simp: queued_def)
    then have "request_id x \<noteq> ?i" using new by (metis map_of_Some_keys)
    then show ?thesis using sx by (simp add: queued_def dict_lookup)
  next
    case False
    then show ?thesis using that by (simp add: queued_def dict_lookup new_request_state_def)
  qed
  moreover have "?i \<notin> set (map request_id q)"
  proof
    assume "?i \<in> set (map request_id q)"
    then obtain x where "x \<in> set q" "request_id x = ?i" by auto
    then show False using D(10) [of x] new by (metis queued_def map_of_Some_keys)
  qed
  moreover have "set dec \<subseteq> set (dict_keys (dict_set ?i ?st sts))"
    using D(5) unfolding dict_set_keys_set by auto
  ultimately show ?thesis
    using D(1,2,3,6,7,8) unfolding core_inv_def by (simp add: wf_dict_set)
qed

lemma core_advance:
  assumes inv: "core_inv pol q dec sts al t" and st: "map_of sts i = Some st" and dec: "i \<in> set dec"
    and step: "current_decode_step st + 1 < req_max_decode_steps (st_request st)"
    and w: "0 < w" "w \<le> req_beam_width (st_request st)"
  shows "core_inv pol q dec (dict_set i (st\<lparr>current_decode_step := current_decode_step st + 1,
     st_active_beam_width := Some w\<rparr>) sts) al t"
proof -
  note D = core_invD [OF inv]
  let ?st = "st\<lparr>current_decode_step := current_decode_step st + 1, st_active_beam_width := Some w\<rparr>"
  have ok: "state_ok dec al t i st" by (rule D(9) [OF st])
  have "state_ok dec al t j stj" if "map_of (dict_set i ?st sts) j = Some stj" for j stj
    using that D(9) [of j stj] ok step w dec
    by (cases "j = i") (auto simp: dict_lookup state_ok_def)
  moreover have "queued (dict_set i ?st sts) x"
    if xq: "x \<in> set q" for x
  proof -
    obtain sx where sx: "map_of sts (request_id x) = Some sx" "st_request sx = x" "st_stage sx = WaitingPrefill"
      using D(10) [OF xq] by (auto simp: queued_def)
    have "st_stage st = Decoding" using ok dec by (simp add: state_ok_def)
    then have "request_id x \<noteq> i" using sx st by auto
    then show ?thesis using sx by (simp add: queued_def dict_lookup)
  qed
  moreover have "set dec \<subseteq> set (dict_keys (dict_set i ?st sts))"
    using D(5) unfolding dict_set_keys_set by auto
  ultimately show ?thesis
    using D(1,2,3,6,7,8) unfolding core_inv_def by (simp add: wf_dict_set)
qed

section \<open>Bookkeeping does not touch the core\<close>

lemma retention_core [simp]:
  "policy (enforce_finished_retention s) = policy s" "waiting_prefill (enforce_finished_retention s) = waiting_prefill s"
  "decoding (enforce_finished_retention s) = decoding s" "states (enforce_finished_retention s) = states s"
  "kv_alloc (enforce_finished_retention s) = kv_alloc s" "tick_count (enforce_finished_retention s) = tick_count s"
  by (simp_all add: enforce_finished_retention_def split: option.splits prod.splits)

lemma store_core [simp]:
  "policy (store_finished_response r s) = policy s" "waiting_prefill (store_finished_response r s) = waiting_prefill s"
  "decoding (store_finished_response r s) = decoding s" "states (store_finished_response r s) = states s"
  "kv_alloc (store_finished_response r s) = kv_alloc s" "tick_count (store_finished_response r s) = tick_count s"
  by (simp_all add: store_finished_response_def)

lemma event_core [simp]:
  "policy (record_kv_event k l i s) = policy s" "waiting_prefill (record_kv_event k l i s) = waiting_prefill s"
  "decoding (record_kv_event k l i s) = decoding s" "states (record_kv_event k l i s) = states s"
  "kv_alloc (record_kv_event k l i s) = kv_alloc s" "tick_count (record_kv_event k l i s) = tick_count s"
  by (simp_all add: record_kv_event_def)

lemma set_state_core [simp]:
  "policy (set_state i st s) = policy s" "waiting_prefill (set_state i st s) = waiting_prefill s"
  "decoding (set_state i st s) = decoding s" "states (set_state i st s) = dict_set i st (states s)"
  "kv_alloc (set_state i st s) = kv_alloc s" "tick_count (set_state i st s) = tick_count s"
  by (simp_all add: set_state_def)

lemma sched_inv_store [simp]: "sched_inv (store_finished_response r s) = sched_inv s"
  by (simp add: sched_inv_def)

lemma release_kv_lease_core:
  "release_kv_lease st s = (st', s') \<Longrightarrow>
     policy s' = policy s \<and> waiting_prefill s' = waiting_prefill s \<and> decoding s' = decoding s
     \<and> states s' = states s \<and> tick_count s' = tick_count s \<and> st' = st\<lparr>kv_lease := None\<rparr>
     \<and> kv_alloc s' = (if kv_lease st = None then kv_alloc s else snd (kv_release (request_id (st_request st)) (kv_alloc s)))"
  by (cases "kv_lease st") (auto simp: release_kv_lease_def Let_def split: prod.splits option.splits)

section \<open>Leaving the scheduler\<close>

text \<open>All three ways a request leaves have the same effect on the core.\<close>

lemma mark_finished_core:
  assumes inv: "sched_inv s" and st: "map_of (states s) i = Some st"
    and m: "mark_finished reason st s = (st', s')"
  shows "policy s' = policy s \<and> waiting_prefill s' = filter (\<lambda>r. request_id r \<noteq> i) (waiting_prefill s)
    \<and> decoding s' = removeAll i (decoding s) \<and> states s' = dict_set i st' (states s)
    \<and> kv_alloc s' = snd (kv_release i (kv_alloc s)) \<and> tick_count s' = tick_count s
    \<and> st' = st\<lparr>kv_lease := None, st_stage := Finished, finished_tick := Some (tick_count s), stop_reason := Some reason\<rparr>
    \<and> sched_inv s'"
proof -
  note core = inv [unfolded sched_inv_def]
  note D = core_invD [OF core]
  have ok: "state_ok (decoding s) (kv_alloc s) (tick_count s) i st" by (rule D(9) [OF st])
  have rid: "request_id (st_request st) = i" using ok by (simp add: state_ok_def)
  have notw: "filter (\<lambda>r. request_id r \<noteq> i) (waiting_prefill s) = waiting_prefill s" if "st_stage st \<noteq> WaitingPrefill"
    unfolding filter_id_conv
  proof
    fix r
    assume "r \<in> set (waiting_prefill s)"
    then show "request_id r \<noteq> i" using D(10) [of r] st that by (auto simp: queued_def)
  qed
  have eq: "policy s' = policy s \<and> waiting_prefill s' = filter (\<lambda>r. request_id r \<noteq> i) (waiting_prefill s)
    \<and> decoding s' = removeAll i (decoding s) \<and> states s' = dict_set i st' (states s)
    \<and> kv_alloc s' = snd (kv_release i (kv_alloc s)) \<and> tick_count s' = tick_count s
    \<and> st' = st\<lparr>kv_lease := None, st_stage := Finished, finished_tick := Some (tick_count s), stop_reason := Some reason\<rparr>"
  proof (cases "st_stage st = Decoding")
    case True
    then have "i \<in> set (dict_keys (kv_leases (kv_alloc s)))" using ok D(3) by (simp add: state_ok_def)
    then obtain l where "kv_lease st = Some l" using ok key_in_dict_Some by (fastforce simp: state_ok_def)
    then show ?thesis
      using m True notw rid
      by (cases "release_kv_lease st (s\<lparr>decoding := removeAll i (decoding s)\<rparr>)")
        (auto simp: mark_finished_def detach_state_def Let_def dest!: release_kv_lease_core)
  next
    case False
    then have nd: "i \<notin> set (decoding s)" using ok by (simp add: state_ok_def)
    then have nl: "i \<notin> set (dict_keys (kv_leases (kv_alloc s)))" using D(3) by simp
    have "kv_lease st = None" using ok nl unfolding state_ok_def map_of_None_iff_keys [symmetric] by simp
    then have "st\<lparr>kv_lease := None\<rparr> = st" by simp
    then show ?thesis
      using m False nd notw rid kv_release_absent [OF nl] queue_remove_eq [OF D(6), of i]
      by (cases "st_stage st") (auto simp: mark_finished_def detach_state_def Let_def)
  qed
  moreover have "sched_inv s'"
    using core_finish [OF core st, of st'] eq ok by (simp add: sched_inv_def state_ok_def)
  ultimately show ?thesis by blast
qed

lemma fail_state_core:
  assumes inv: "sched_inv s" and st: "map_of (states s) i = Some st"
  shows "\<exists>resp s'. fail_state reason err st s = (Inr resp, s') \<and> resp_request_id resp = i \<and> sched_inv s'
    \<and> policy s' = policy s \<and> waiting_prefill s' = filter (\<lambda>r. request_id r \<noteq> i) (waiting_prefill s)
    \<and> decoding s' = removeAll i (decoding s) \<and> tick_count s' = tick_count s
    \<and> kv_fits (kv_alloc s') = kv_fits (kv_alloc s)
    \<and> states s' = dict_set i (st\<lparr>kv_lease := None, st_stage := Finished, finished_tick := Some (tick_count s), stop_reason := Some reason\<rparr>) (states s)"
proof -
  obtain st' s1 where m: "mark_finished reason st s = (st', s1)" by (cases "mark_finished reason st s")
  note mc = mark_finished_core [OF inv st m]
  have ok: "state_ok (decoding s) (kv_alloc s) (tick_count s) i st"
    using core_invD(9) [OF inv [unfolded sched_inv_def] st] .
  then obtain t where t: "request_timeout_ticks (st_request st) = Inr t" using state_ok_timeout by blast
  have fit: "kv_fits (snd (kv_release i (kv_alloc s))) = kv_fits (kv_alloc s)"
    using kv.release_law [OF core_invD(1) [OF inv [unfolded sched_inv_def]], of i] by blast
  show ?thesis
    using mc m t ok fit
    by (auto simp: fail_state_def Let_def state_ok_def sched_inv_def)
qed

lemma cancel_inv: "sched_inv s \<Longrightarrow> sched_inv (snd (cancel i reason s))"
proof -
  assume inv: "sched_inv s"
  show ?thesis
  proof (cases "map_of (states s) i")
    case None
    then show ?thesis using inv by (auto simp: cancel_def split: option.splits)
  next
    case (Some st)
    obtain st' s1 where m: "mark_finished reason st s = (st', s1)" by (cases "mark_finished reason st s")
    then have "sched_inv s1" using mark_finished_core [OF inv Some] by blast
    then show ?thesis using inv Some m by (auto simp: cancel_def Let_def sched_inv_def split: option.splits)
  qed
qed

lemma fail_inv: "sched_inv s \<Longrightarrow> sched_inv (snd (fail i reason err s))"
proof -
  assume inv: "sched_inv s"
  show ?thesis
  proof (cases "map_of (states s) i")
    case None
    then show ?thesis using inv by (auto simp: fail_def split: option.splits)
  next
    case (Some st)
    obtain resp s' where "fail_state reason err st s = (Inr resp, s')" "sched_inv s'"
      using fail_state_core [OF inv Some] by blast
    then show ?thesis using inv Some by (auto simp: fail_def split: option.splits)
  qed
qed

lemma bind_st_inv:
  assumes "sched_inv (snd m)" and "\<And>x s. sched_inv s \<Longrightarrow> sched_inv (snd (f x s))"
  shows "sched_inv (snd (bind_st m f))"
  using assms by (cases m; cases "fst m") auto

lemma fail_each_inv: "sched_inv s \<Longrightarrow> sched_inv (snd (fail_each ids reason err s))"
proof (induction ids arbitrary: s)
  case Nil
  then show ?case by simp
next
  case (Cons i ids)
  show ?case
    unfolding fail_each.simps
    by (rule bind_st_inv [OF fail_inv [OF Cons.prems]], rule bind_st_inv [OF Cons.IH]) simp_all
qed

lemma fail_unfinished_inv: "sched_inv s \<Longrightarrow> sched_inv (snd (fail_unfinished reason err s))"
  unfolding fail_unfinished_def
  by (rule bind_st_inv [OF fail_each_inv], assumption, rule bind_st_inv [OF fail_each_inv]) simp_all

section \<open>Failing sets of requests\<close>

text \<open>Some requests are finished, the rest of the core stays as it was.\<close>

definition shrinks :: "sched \<Rightarrow> sched \<Rightarrow> (string \<Rightarrow> bool) \<Rightarrow> bool" where
  "shrinks s s' keep \<longleftrightarrow> sched_inv s' \<and> policy s' = policy s \<and> tick_count s' = tick_count s
     \<and> waiting_prefill s' = filter (\<lambda>r. keep (request_id r)) (waiting_prefill s)
     \<and> decoding s' = filter keep (decoding s)
     \<and> dict_keys (states s') = dict_keys (states s) \<and> kv_fits (kv_alloc s') = kv_fits (kv_alloc s)
     \<and> (\<forall>i. keep i \<longrightarrow> map_of (states s') i = map_of (states s) i)
     \<and> (\<forall>i st. map_of (states s') i = Some st \<longrightarrow> \<not> keep i \<longrightarrow> st_stage st = Finished)"

lemma shrinks_refl: "sched_inv s \<Longrightarrow> shrinks s s (\<lambda>_. True)"
  by (simp add: shrinks_def)

lemma shrinksD:
  assumes "shrinks s s' keep"
  shows "sched_inv s'" and "policy s' = policy s" and "tick_count s' = tick_count s"
    and "waiting_prefill s' = filter (\<lambda>r. keep (request_id r)) (waiting_prefill s)"
    and "decoding s' = filter keep (decoding s)" and "dict_keys (states s') = dict_keys (states s)"
    and "kv_fits (kv_alloc s') = kv_fits (kv_alloc s)"
    and "keep i \<Longrightarrow> map_of (states s') i = map_of (states s) i"
    and "map_of (states s') i = Some st \<Longrightarrow> \<not> keep i \<Longrightarrow> st_stage st = Finished"
    and "map_of (states s) i = None \<Longrightarrow> map_of (states s') i = None"
  using assms unfolding shrinks_def map_of_None_iff_keys by simp_all

lemma shrinks_trans:
  assumes "shrinks s s1 p" and "shrinks s1 s2 q"
  shows "shrinks s s2 (\<lambda>i. p i \<and> q i)"
proof -
  have fin: "st_stage st = Finished" if m: "map_of (states s2) i = Some st" and n: "\<not> (p i \<and> q i)" for i st
  proof (cases "q i")
    case True
    then have "map_of (states s1) i = Some st" using m assms(2) by (simp add: shrinks_def)
    then show ?thesis using n True assms(1) unfolding shrinks_def by blast
  next
    case False
    then show ?thesis using m assms(2) unfolding shrinks_def by blast
  qed
  show ?thesis
    using assms fin by (auto simp: shrinks_def conj_commute)
qed

lemma fail_state_shrinks:
  assumes "sched_inv s" and "map_of (states s) i = Some st"
  shows "\<exists>resp s'. fail_state reason err st s = (Inr resp, s') \<and> resp_request_id resp = i
    \<and> shrinks s s' (\<lambda>j. j \<noteq> i)"
proof -
  obtain resp s' where f: "fail_state reason err st s = (Inr resp, s')" "resp_request_id resp = i" "sched_inv s'"
    "policy s' = policy s" "waiting_prefill s' = filter (\<lambda>r. request_id r \<noteq> i) (waiting_prefill s)"
    "decoding s' = removeAll i (decoding s)" "tick_count s' = tick_count s" "kv_fits (kv_alloc s') = kv_fits (kv_alloc s)"
    "states s' = dict_set i (st\<lparr>kv_lease := None, st_stage := Finished, finished_tick := Some (tick_count s), stop_reason := Some reason\<rparr>) (states s)"
    using fail_state_core [OF assms] by blast
  have "dict_keys (states s') = dict_keys (states s)"
    unfolding f(9) by (rule dict_set_keys_old) (rule map_of_Some_keys [OF assms(2)])
  then have "shrinks s s' (\<lambda>j. j \<noteq> i)"
    using f by (auto simp: shrinks_def dict_lookup removeAll_filter_not_eq eq_commute)
  then show ?thesis using f(1,2) by blast
qed

lemma fail_request_ids_shrinks:
  "sched_inv s \<Longrightarrow> \<exists>ids s' keep. fail_request_ids rids reason err s = (Inr ids, s') \<and> shrinks s s' keep
     \<and> (\<forall>i. \<not> keep i \<longrightarrow> i \<in> set rids)
     \<and> (\<forall>i st. i \<in> set rids \<longrightarrow> map_of (states s') i = Some st \<longrightarrow> st_stage st = Finished)"
proof (induction rids arbitrary: s)
  case Nil
  then show ?case using shrinks_refl [of s] by fastforce
next
  case (Cons i rids)
  consider (none) "map_of (states s) i = None"
    | (fin) st where "map_of (states s) i = Some st" "st_stage st = Finished"
    | (live) st where "map_of (states s) i = Some st" "st_stage st \<noteq> Finished"
    by (cases "map_of (states s) i") auto
  then show ?case
  proof cases
    case none
    obtain ids s' keep where r: "fail_request_ids rids reason err s = (Inr ids, s')" "shrinks s s' keep"
      "\<forall>i. \<not> keep i \<longrightarrow> i \<in> set rids" "\<forall>i st. i \<in> set rids \<longrightarrow> map_of (states s') i = Some st \<longrightarrow> st_stage st = Finished"
      using Cons.IH [OF Cons.prems] by blast
    have "map_of (states s') i = None"
      using shrinksD(10) [OF r(2) none] .
    then show ?thesis using none r by fastforce
  next
    case (fin st)
    obtain ids s' keep where r: "fail_request_ids rids reason err s = (Inr ids, s')" "shrinks s s' keep"
      "\<forall>i. \<not> keep i \<longrightarrow> i \<in> set rids" "\<forall>i st. i \<in> set rids \<longrightarrow> map_of (states s') i = Some st \<longrightarrow> st_stage st = Finished"
      using Cons.IH [OF Cons.prems] by blast
    have "\<forall>st. map_of (states s') i = Some st \<longrightarrow> st_stage st = Finished"
    proof (intro allI impI)
      fix st'
      assume m: "map_of (states s') i = Some st'"
      show "st_stage st' = Finished"
      proof (cases "keep i")
        case True
        then have "map_of (states s') i = map_of (states s) i" using r(2) by (simp add: shrinks_def)
        then show ?thesis using fin m by simp
      next
        case False
        then show ?thesis using r(3,4) m by blast
      qed
    qed
    then show ?thesis using fin r by fastforce
  next
    case (live st)
    obtain resp s1 where f: "fail_state reason err st s = (Inr resp, s1)" "shrinks s s1 (\<lambda>j. j \<noteq> i)"
      using fail_state_shrinks [OF Cons.prems live(1)] by blast
    then have "sched_inv s1" by (simp add: shrinks_def)
    then obtain ids s' keep where r: "fail_request_ids rids reason err s1 = (Inr ids, s')" "shrinks s1 s' keep"
      "\<forall>i. \<not> keep i \<longrightarrow> i \<in> set rids" "\<forall>i st. i \<in> set rids \<longrightarrow> map_of (states s') i = Some st \<longrightarrow> st_stage st = Finished"
      using Cons.IH by blast
    have tr: "shrinks s s' (\<lambda>j. j \<noteq> i \<and> keep j)" by (rule shrinks_trans [OF f(2) r(2)])
    then have "\<forall>st. map_of (states s') i = Some st \<longrightarrow> st_stage st = Finished"
      unfolding shrinks_def by blast
    moreover have "fail_request_ids (i # rids) reason err s = (Inr (resp_request_id resp # ids), s')"
      using live f(1) r(1) by simp
    ultimately show ?thesis using tr r(3,4) by (intro exI [of _ "resp_request_id resp # ids"] exI [of _ s'] exI [of _ "\<lambda>j. j \<noteq> i \<and> keep j"]) auto
  qed
qed

text \<open>A live request past its deadline.\<close>

definition overdue :: "int \<Rightarrow> GRContinuousRequestState \<Rightarrow> bool" where
  "overdue t st \<longleftrightarrow> (\<exists>n. request_timeout_ticks (st_request st) = Inr (Some n) \<and> t - submitted_tick st > n)"

lemma timeout_loop_shrinks:
  "sched_inv s \<Longrightarrow> \<exists>ids s' keep. timeout_loop rids s = (Inr ids, s') \<and> shrinks s s' keep
     \<and> (\<forall>i st. i \<in> set rids \<longrightarrow> map_of (states s') i = Some st \<longrightarrow> st_stage st \<noteq> Finished \<longrightarrow> \<not> overdue (tick_count s) st)
     \<and> (\<forall>i st. \<not> keep i \<longrightarrow> map_of (states s) i = Some st \<longrightarrow> overdue (tick_count s) st)"
proof (induction rids arbitrary: s)
  case Nil
  then show ?case using shrinks_refl [of s] by fastforce
next
  case (Cons i rids)
  have skip: ?case if eq: "timeout_loop (i # rids) s = timeout_loop rids s"
    and quiet: "\<And>st. map_of (states s) i = Some st \<Longrightarrow> st_stage st = Finished \<or> \<not> overdue (tick_count s) st"
  proof -
    obtain ids s' keep where r: "timeout_loop rids s = (Inr ids, s')" "shrinks s s' keep"
      "\<forall>i st. i \<in> set rids \<longrightarrow> map_of (states s') i = Some st \<longrightarrow> st_stage st \<noteq> Finished \<longrightarrow> \<not> overdue (tick_count s) st"
      "\<forall>i st. \<not> keep i \<longrightarrow> map_of (states s) i = Some st \<longrightarrow> overdue (tick_count s) st"
      using Cons.IH [OF Cons.prems] by blast
    have "st_stage st \<noteq> Finished \<longrightarrow> \<not> overdue (tick_count s) st" if "map_of (states s') i = Some st" for st
      using that quiet [of st] shrinksD(8,9) [OF r(2), of i] by (cases "keep i") auto
    then show ?thesis using eq r by (intro exI [of _ ids] exI [of _ s'] exI [of _ keep]) auto
  qed
  show ?case
  proof (cases "map_of (states s) i")
    case None
    then show ?thesis by (intro skip) simp_all
  next
    case (Some st)
    have "state_ok (decoding s) (kv_alloc s) (tick_count s) i st"
      using core_invD(9) [OF Cons.prems [unfolded sched_inv_def] Some] .
    then obtain t where t: "request_timeout_ticks (st_request st) = Inr t" using state_ok_timeout by blast
    show ?thesis
    proof (cases "st_stage st \<noteq> Finished \<and> overdue (tick_count s) st")
      case False
      then show ?thesis using Some t by (intro skip) (auto simp: overdue_def split: option.splits)
    next
      case True
      then obtain n where n: "request_timeout_ticks (st_request st) = Inr (Some n)" "tick_count s - submitted_tick st > n"
        by (auto simp: overdue_def)
      let ?err = "Some (ErrorText (''request exceeded timeout_ticks='' @ str_int n))"
      obtain resp s1 where f: "fail_state ''request_timeout'' ?err st s = (Inr resp, s1)" "shrinks s s1 (\<lambda>j. j \<noteq> i)"
        using fail_state_shrinks [OF Cons.prems Some] by blast
      then have s1: "sched_inv s1" "tick_count s1 = tick_count s" by (simp_all add: shrinks_def)
      obtain ids s' keep where r: "timeout_loop rids s1 = (Inr ids, s')" "shrinks s1 s' keep"
        "\<forall>i st. i \<in> set rids \<longrightarrow> map_of (states s') i = Some st \<longrightarrow> st_stage st \<noteq> Finished \<longrightarrow> \<not> overdue (tick_count s) st"
        "\<forall>i st. \<not> keep i \<longrightarrow> map_of (states s1) i = Some st \<longrightarrow> overdue (tick_count s) st"
        using Cons.IH [OF s1(1)] s1(2) by auto
      have tr: "shrinks s s' (\<lambda>j. j \<noteq> i \<and> keep j)" by (rule shrinks_trans [OF f(2) r(2)])
      have "timeout_loop (i # rids) s = (Inr (resp_request_id resp # ids), s')"
        using Some True n f(1) r(1) by simp
      moreover have "\<forall>st. map_of (states s') i = Some st \<longrightarrow> st_stage st = Finished"
        using tr unfolding shrinks_def by blast
      moreover have "\<forall>j sj. \<not> (j \<noteq> i \<and> keep j) \<longrightarrow> map_of (states s) j = Some sj \<longrightarrow> overdue (tick_count s) sj"
      proof (intro allI impI)
        fix j sj
        assume j: "\<not> (j \<noteq> i \<and> keep j)" and sj: "map_of (states s) j = Some sj"
        show "overdue (tick_count s) sj"
        proof (cases "j = i")
          case True
          then show ?thesis using sj Some \<open>st_stage st \<noteq> Finished \<and> overdue (tick_count s) st\<close> by simp
        next
          case False
          then have "map_of (states s1) j = Some sj" using f(2) sj by (simp add: shrinks_def)
          then show ?thesis using j False r(4) by blast
        qed
      qed
      ultimately show ?thesis
        using tr r(3) by (intro exI [of _ "resp_request_id resp # ids"] exI [of _ s'] exI [of _ "\<lambda>j. j \<noteq> i \<and> keep j"]) auto
    qed
  qed
qed

section \<open>Admission\<close>

text \<open>What is left to do: decode steps of the queued requests and of the ones being decoded.\<close>

definition remaining_of :: "sched \<Rightarrow> string \<Rightarrow> nat" where
  "remaining_of s i = (case map_of (states s) i of None \<Rightarrow> 0 | Some st \<Rightarrow> nat (remaining_decode_steps st))"

definition work :: "sched \<Rightarrow> nat" where
  "work s = sum_list (map (\<lambda>r. nat (req_max_decode_steps r)) (waiting_prefill s)) + sum_list (map (remaining_of s) (decoding s))"

lemma admit_request_ok:
  assumes inv: "core_inv (policy s) (r # waiting_prefill s) (decoding s) (states s) (kv_alloc s) (tick_count s)"
    and can: "can_allocate_kv r s = Inr True"
  shows "\<exists>s'. admit_request r s = (Inr (), s') \<and> sched_inv s' \<and> policy s' = policy s \<and> tick_count s' = tick_count s
    \<and> waiting_prefill s' = waiting_prefill s \<and> decoding s' = decoding s @ [request_id r]
    \<and> dict_keys (states s') = dict_keys (states s) \<and> kv_fits (kv_alloc s') = kv_fits (kv_alloc s)
    \<and> (\<exists>st l al w. map_of (states s) (request_id r) = Some st
        \<and> kv_allocate (request_id r) (request_context_tokens r) (request_beam_slots r) (kv_alloc s) = Inr (l, al)
        \<and> states s' = dict_set (request_id r) (st\<lparr>kv_lease := Some l, st_active_beam_width := Some w,
            st_stage := Decoding, admitted_tick := Some (tick_count s)\<rparr>) (states s) \<and> kv_alloc s' = al)"
proof -
  note D = core_invD [OF inv]
  let ?i = "request_id r"
  obtain st where st: "map_of (states s) ?i = Some st" "st_request st = r" "st_stage st = WaitingPrefill"
    using D(10) [of r] by (auto simp: queued_def)
  have ok: "state_ok (decoding s) (kv_alloc s) (tick_count s) ?i st" by (rule D(9) [OF st(1)])
  have vr: "valid_request r" and nd: "?i \<notin> set (decoding s)" using ok st state_ok_valid [OF ok] by (simp_all add: state_ok_def)
  have new: "?i \<notin> set (dict_keys (kv_leases (kv_alloc s)))" using nd D(3) by simp
  obtain l al where al: "kv_allocate ?i (request_context_tokens r) (request_beam_slots r) (kv_alloc s) = Inr (l, al)"
    using kv.alloc_granted [OF D(1) request_context_tokens_nonneg [of r] request_beam_slots_nonneg [OF vr] new] can
    unfolding can_allocate_kv_def by blast
  obtain w where w: "policy_width_for_step r 0 (req_beam_width r) = Inr w" "0 < w" "w \<le> req_beam_width r"
    using valid_policy_width [OF vr, of 0 "req_beam_width r"] valid_request_fields(3) [OF vr] by auto
  note ca = core_admit [OF inv st(1) al w(2,3), of "tick_count s"]
  have keys: "dict_keys (dict_set ?i x (states s)) = dict_keys (states s)" for x
    by (rule dict_set_keys_old) (rule map_of_Some_keys [OF st(1)])
  have fit: "kv_fits al = kv_fits (kv_alloc s)"
    using kv.alloc_Inr [OF D(1) request_context_tokens_nonneg [of r] request_beam_slots_nonneg [OF vr] al] by blast
  show ?thesis
    using st al w ca nd fit
    by (auto simp: admit_request_def allocate_kv_lease_def Let_def sched_inv_def decoding_add_def keys intro!: exI)
qed

lemma dict_set_twice: "dict_set k v (dict_set k u d) = dict_set k v d"
  by (induction d) auto

lemma work_admit:
  assumes "core_inv (policy s) (r # waiting_prefill s) (decoding s) (states s) (kv_alloc s) (tick_count s)"
    and "admit_request r s = (Inr (), s')" and "can_allocate_kv r s = Inr True"
  shows "work s' = work (s\<lparr>waiting_prefill := r # waiting_prefill s\<rparr>)"
proof -
  note D = core_invD [OF assms(1)]
  obtain st l w where st: "map_of (states s) (request_id r) = Some st"
    and s': "waiting_prefill s' = waiting_prefill s" "decoding s' = decoding s @ [request_id r]"
      "states s' = dict_set (request_id r) (st\<lparr>kv_lease := Some l, st_active_beam_width := Some w,
            st_stage := Decoding, admitted_tick := Some (tick_count s)\<rparr>) (states s)"
    using admit_request_ok [OF assms(1,3)] assms(2) by auto
  obtain st0 where q: "map_of (states s) (request_id r) = Some st0" "st_request st0 = r" "st_stage st0 = WaitingPrefill"
    using D(10) [of r] by (auto simp: queued_def)
  have ok: "state_ok (decoding s) (kv_alloc s) (tick_count s) (request_id r) st0" by (rule D(9) [OF q(1)])
  have "st = st0" using st q by simp
  then have z: "current_decode_step st = 0" "st_request st = r" "0 < req_max_decode_steps r" "request_id r \<notin> set (decoding s)"
    using ok q valid_request_fields(2) [of r] state_ok_valid [OF ok] by (auto simp: state_ok_def)
  have "sum_list (map (remaining_of s') (decoding s)) = sum_list (map (remaining_of s) (decoding s))"
    using s'(3) z(4) by (intro arg_cong [where f = sum_list] map_cong refl) (auto simp: remaining_of_def dict_lookup)
  moreover have "remaining_of s' (request_id r) = nat (req_max_decode_steps r)"
    using s'(3) z by (simp add: remaining_of_def dict_lookup remaining_decode_steps_def)
  moreover have "remaining_of (s\<lparr>waiting_prefill := r # waiting_prefill s\<rparr>) = remaining_of s"
    by (auto simp: remaining_of_def)
  ultimately show ?thesis using s' by (simp add: work_def)
qed

text \<open>What admission may change of the request states: those of the admitted ids, and of them
  neither the request nor the tick it was submitted at.\<close>

definition admits ::
  "string set \<Rightarrow> (string, GRContinuousRequestState) dict \<Rightarrow> (string, GRContinuousRequestState) dict \<Rightarrow> bool" where
  "admits ids sts sts' \<longleftrightarrow> (\<forall>j. j \<notin> ids \<longrightarrow> map_of sts' j = map_of sts j)
     \<and> (\<forall>j st'. map_of sts' j = Some st' \<longrightarrow>
          (\<exists>st. map_of sts j = Some st \<and> st_request st' = st_request st \<and> submitted_tick st' = submitted_tick st))"

lemma admits_refl [simp]: "admits ids sts sts"
  by (simp add: admits_def)

lemma admits_trans: "admits A sts sts1 \<Longrightarrow> admits B sts1 sts2 \<Longrightarrow> admits (A \<union> B) sts sts2"
  unfolding admits_def by (metis UnCI)

lemma admits_set:
  "map_of sts i = Some st \<Longrightarrow> st_request st' = st_request st \<Longrightarrow> submitted_tick st' = submitted_tick st \<Longrightarrow>
     admits {i} sts (dict_set i st' sts)"
  by (auto simp: admits_def dict_lookup)

text \<open>The loop admits a prefix of the queue and leaves the rest in order.\<close>

lemma admit_loop_spec:
  assumes "sched_inv s" and "waiting_prefill s = q"
  shows "case admit_loop q admitted s of
      (Inl e, s') \<Rightarrow> sched_inv s' \<and> decoding s' = decoding s \<and> admitted = [] \<and> decoding s = [] \<and> q \<noteq> []
        \<and> can_allocate_kv (hd q) s = Inr False \<and> waiting_prefill s' = tl q
    | (Inr (ids, deferred), s') \<Rightarrow>
        (\<exists>k. ids = admitted @ map request_id (take k q) \<and> deferred @ waiting_prefill s' = drop k q
           \<and> decoding s' = decoding s @ map request_id (take k q) \<and> length deferred \<le> 1
           \<and> sched_inv (s'\<lparr>waiting_prefill := drop k q\<rparr>) \<and> policy s' = policy s \<and> tick_count s' = tick_count s
           \<and> work (s'\<lparr>waiting_prefill := drop k q\<rparr>) = work s \<and> dict_keys (states s') = dict_keys (states s)
           \<and> kv_fits (kv_alloc s') = kv_fits (kv_alloc s)
           \<and> admits (request_id ` set (take k q)) (states s) (states s')
           \<and> (q \<noteq> [] \<longrightarrow> int (length admitted) < max_prefill_batch_size (policy s) \<longrightarrow> k = 0 \<longrightarrow>
                can_allocate_kv (hd q) s = Inr False \<and> (admitted \<noteq> [] \<or> decoding s \<noteq> []))
           \<and> (int (length admitted) \<le> max_prefill_batch_size (policy s) \<longrightarrow>
                int (length ids) \<le> max_prefill_batch_size (policy s)))"
  using assms
proof (induction q arbitrary: admitted s)
  case Nil
  have same: "s\<lparr>waiting_prefill := []\<rparr> = s" using Nil.prems(2) by (cases s) simp
  show ?case using Nil.prems by (simp add: same)
next
  case (Cons r q)
  have same: "s\<lparr>waiting_prefill := r # q\<rparr> = s" using Cons.prems(2) by (cases s) simp
  let ?s1 = "s\<lparr>waiting_prefill := q\<rparr>"
  have core: "core_inv (policy ?s1) (r # waiting_prefill ?s1) (decoding ?s1) (states ?s1) (kv_alloc ?s1) (tick_count ?s1)"
    using Cons.prems by (simp add: sched_inv_def)
  have inv1: "sched_inv ?s1" using core_drop_head [OF core] by (simp add: sched_inv_def)
  have can1: "can_allocate_kv r ?s1 = can_allocate_kv r s" by (simp add: can_allocate_kv_def)
  obtain b where b: "can_allocate_kv r s = Inr b"
    using kv.can_returns [OF core_invD(1) [OF core], of "request_id r" "request_context_tokens r" "request_beam_slots r"]
    by (auto simp: can_allocate_kv_def)
  have dec0: "memory_usage_running ?s1 = 0 \<longleftrightarrow> decoding s = []"
    using core_invD(3) [OF core] by (auto simp: memory_usage_running_def)
  consider (full) "\<not> int (length admitted) < max_prefill_batch_size (policy s)"
    | (refused) "int (length admitted) < max_prefill_batch_size (policy s)" "\<not> b"
    | (granted) "int (length admitted) < max_prefill_batch_size (policy s)" "b" by blast
  then show ?case
  proof cases
    case full
    then have "admit_loop (r # q) admitted s = (Inr (admitted, []), s)" by simp
    then show ?thesis using Cons.prems full by (simp add: exI [of _ 0] same)
  next
    case refused
    then show ?thesis
      using Cons.prems b can1 dec0 inv1
      by (cases "decoding s = [] \<and> admitted = []") (auto simp: Let_def same intro!: exI [of _ "0::nat"])
  next
    case granted
    then obtain s2 where s2: "admit_request r ?s1 = (Inr (), s2)" "sched_inv s2" "policy s2 = policy s" "tick_count s2 = tick_count s"
      "waiting_prefill s2 = q" "decoding s2 = decoding s @ [request_id r]" "dict_keys (states s2) = dict_keys (states s)"
      "kv_fits (kv_alloc s2) = kv_fits (kv_alloc s)" "admits {request_id r} (states s) (states s2)"
      using admit_request_ok [OF core] b can1 admits_set by fastforce
    have w2: "work s2 = work s"
      using work_admit [OF core s2(1)] b granted can1 same by simp
    have step: "admit_loop (r # q) admitted s = admit_loop q (admitted @ [request_id r]) s2"
      using granted b can1 s2(1) by (simp add: Let_def)
    show ?thesis
    proof (cases "admit_loop q (admitted @ [request_id r]) s2")
      case (Pair res s')
      show ?thesis
      proof (cases res)
        case (Inl e)
        then show ?thesis using Cons.IH [OF s2(2,5), of "admitted @ [request_id r]"] Pair by simp
      next
        case (Inr pr)
        obtain ids deferred where pr: "pr = (ids, deferred)" by (cases pr)
        obtain k where k: "ids = (admitted @ [request_id r]) @ map request_id (take k q)" "deferred @ waiting_prefill s' = drop k q"
          "decoding s' = decoding s2 @ map request_id (take k q)" "length deferred \<le> 1"
          "sched_inv (s'\<lparr>waiting_prefill := drop k q\<rparr>)" "policy s' = policy s2" "tick_count s' = tick_count s2"
          "work (s'\<lparr>waiting_prefill := drop k q\<rparr>) = work s2" "dict_keys (states s') = dict_keys (states s2)" "kv_fits (kv_alloc s') = kv_fits (kv_alloc s2)"
          "admits (request_id ` set (take k q)) (states s2) (states s')"
          "int (length (admitted @ [request_id r])) \<le> max_prefill_batch_size (policy s2) \<longrightarrow> int (length ids) \<le> max_prefill_batch_size (policy s2)"
          using Cons.IH [OF s2(2,5), of "admitted @ [request_id r]"] Pair Inr pr by auto
        have "admits (request_id ` set (take (Suc k) (r # q))) (states s) (states s')"
          using admits_trans [OF s2(9) k(11)] by simp
        then show ?thesis
          unfolding step Pair Inr pr prod.case sum.case
          by (intro exI [of _ "Suc k"]) (use k s2(3,4,6,7,8) w2 granted(1) in simp)
      qed
    qed
  qed
qed

lemma push_front_all_ok:
  assumes "length ds \<le> 1" and "\<forall>r \<in> set ds. validate_request r = Inr ()"
  shows "push_front_all (rev ds) s = (Inr (), s\<lparr>waiting_prefill := ds @ waiting_prefill s\<rparr>)"
  using assms by (cases ds) (auto simp: queue_push_front_def)

lemma sched_inv_bookkeeping [simp]:
  "sched_inv (s\<lparr>admitted_prefill_batches := n\<rparr>) = sched_inv s"
  "sched_inv (s\<lparr>planned_decode_batches := n\<rparr>) = sched_inv s"
  "sched_inv (s\<lparr>tick_history := h\<rparr>) = sched_inv s"
  "sched_inv (s\<lparr>succeeded_requests := n\<rparr>) = sched_inv s"
  by (simp_all add: sched_inv_def)

lemma remaining_bookkeeping [simp]:
  "remaining_of (s\<lparr>admitted_prefill_batches := n\<rparr>) = remaining_of s"
  "remaining_of (s\<lparr>planned_decode_batches := n\<rparr>) = remaining_of s"
  "remaining_of (s\<lparr>tick_history := h\<rparr>) = remaining_of s"
  "remaining_of (s\<lparr>tick_count := n\<rparr>) = remaining_of s"
  by (simp_all add: remaining_of_def fun_eq_iff)

lemma work_bookkeeping [simp]:
  "work (s\<lparr>admitted_prefill_batches := n\<rparr>) = work s"
  "work (s\<lparr>planned_decode_batches := n\<rparr>) = work s"
  "work (s\<lparr>tick_history := h\<rparr>) = work s"
  "work (s\<lparr>tick_count := n\<rparr>) = work s"
  by (simp_all add: work_def)

text \<open>Admission takes a prefix of the queue; it raises only when nothing is decoding and the request at
  the head does not fit, which is then gone from the queue.\<close>

lemma admit_prefill_batch_spec:
  assumes "sched_inv s"
  shows "case admit_prefill_batch s of
      (Inl e, s') \<Rightarrow> sched_inv s' \<and> decoding s = [] \<and> decoding s' = [] \<and> waiting_prefill s \<noteq> []
        \<and> can_allocate_kv (hd (waiting_prefill s)) s = Inr False \<and> waiting_prefill s' = tl (waiting_prefill s)
    | (Inr ids, s') \<Rightarrow>
        (\<exists>k. ids = map request_id (take k (waiting_prefill s)) \<and> waiting_prefill s' = drop k (waiting_prefill s)
           \<and> decoding s' = decoding s @ ids \<and> sched_inv s' \<and> policy s' = policy s \<and> tick_count s' = tick_count s
           \<and> work s' = work s \<and> dict_keys (states s') = dict_keys (states s)
           \<and> kv_fits (kv_alloc s') = kv_fits (kv_alloc s) \<and> admits (set ids) (states s) (states s')
           \<and> (waiting_prefill s \<noteq> [] \<longrightarrow> decoding s = [] \<longrightarrow> 0 < k)
           \<and> int (length ids) \<le> max_prefill_batch_size (policy s))"
proof (cases "admit_loop (waiting_prefill s) [] s")
  case (Pair res s1)
  note spec = admit_loop_spec [OF assms refl, of "[]", unfolded Pair]
  have pos: "0 < max_prefill_batch_size (policy s)" using core_invD(7) [OF assms [unfolded sched_inv_def]] .
  show ?thesis
  proof (cases res)
    case (Inl e)
    then show ?thesis using spec Pair by (simp add: admit_prefill_batch_def)
  next
    case (Inr pr)
    obtain ids ds where pr: "pr = (ids, ds)" by (cases pr)
    obtain k where k: "ids = map request_id (take k (waiting_prefill s))" "ds @ waiting_prefill s1 = drop k (waiting_prefill s)"
      "decoding s1 = decoding s @ map request_id (take k (waiting_prefill s))" "length ds \<le> 1"
      "sched_inv (s1\<lparr>waiting_prefill := drop k (waiting_prefill s)\<rparr>)" "policy s1 = policy s" "tick_count s1 = tick_count s"
      "work (s1\<lparr>waiting_prefill := drop k (waiting_prefill s)\<rparr>) = work s" "dict_keys (states s1) = dict_keys (states s)"
      "kv_fits (kv_alloc s1) = kv_fits (kv_alloc s)" "admits (request_id ` set (take k (waiting_prefill s))) (states s) (states s1)"
      "waiting_prefill s \<noteq> [] \<longrightarrow> k = 0 \<longrightarrow> decoding s \<noteq> []"
      "int (length ids) \<le> max_prefill_batch_size (policy s)"
      using spec Inr pr pos by auto
    let ?s2 = "s1\<lparr>waiting_prefill := drop k (waiting_prefill s)\<rparr>"
    have "\<forall>r \<in> set ds. validate_request r = Inr ()"
    proof
      fix r
      assume "r \<in> set ds"
      then have "r \<in> set (waiting_prefill ?s2)" using k(2) by (metis in_set_conv_decomp append_assoc append_Cons UnI1 set_append GRContinuousScheduler.select_convs(2) GRContinuousScheduler.surjective GRContinuousScheduler.update_convs(2))
      then have "queued (states ?s2) r" using core_invD(10) [OF k(5) [unfolded sched_inv_def]] by blast
      then obtain st where "map_of (states ?s2) (request_id r) = Some st" "st_request st = r" "st_stage st = WaitingPrefill"
        by (auto simp: queued_def)
      then have "valid_request r" using core_invD(9) [OF k(5) [unfolded sched_inv_def], of "request_id r" st] state_ok_valid by fastforce
      then show "validate_request r = Inr ()" by (rule valid_request_fields(4))
    qed
    note pf = push_front_all_ok [OF k(4) this, of s1]
    have "admit_prefill_batch s = (Inr ids, if ids = [] then ?s2 else ?s2\<lparr>admitted_prefill_batches := admitted_prefill_batches ?s2 + 1\<rparr>)"
      using Pair Inr pr pf k(2) by (simp add: admit_prefill_batch_def)
    then show ?thesis using k by (auto intro!: exI [of _ k])
  qed
qed

section \<open>Planning\<close>

definition groups_ok ::
  "(string, GRContinuousRequestState) dict \<Rightarrow> (group_key, string list) dict \<Rightarrow> string list \<Rightarrow> bool" where
  "groups_ok sts groups ids \<longleftrightarrow> wf_dict groups \<and> mset (concat (dict_values groups)) = mset ids
     \<and> (\<forall>(k, js) \<in> set groups. \<forall>i \<in> set js. \<exists>st. map_of sts i = Some st \<and> plan_key st = Inr k)"

lemma concat_dict_set:
  "wf_dict groups \<Longrightarrow>
     mset (concat (dict_values (dict_set k ((case map_of groups k of None \<Rightarrow> [] | Some ids \<Rightarrow> ids) @ [i]) groups)))
     = add_mset i (mset (concat (dict_values groups)))"
proof (induction groups)
  case Nil
  then show ?case by simp
next
  case (Cons x groups)
  then show ?case by (cases x) auto
qed

lemma group_add_ok:
  assumes "groups_ok sts groups ids" and "map_of sts i = Some st" and "plan_key st = Inr k"
  shows "groups_ok sts (group_add k i groups) (ids @ [i])"
proof -
  let ?old = "case map_of groups k of None \<Rightarrow> [] | Some ids \<Rightarrow> ids"
  have wf: "wf_dict groups" using assms(1) by (simp add: groups_ok_def)
  have old: "\<forall>j \<in> set ?old. \<exists>st. map_of sts j = Some st \<and> plan_key st = Inr k"
  proof (cases "map_of groups k")
    case None
    then show ?thesis by simp
  next
    case (Some js)
    then show ?thesis using assms(1) map_of_SomeD [OF Some] by (fastforce simp: groups_ok_def)
  qed
  have "\<exists>st. map_of sts j = Some st \<and> plan_key st = Inr k'"
    if "(k', js) \<in> set (group_add k i groups)" "j \<in> set js" for k' js j
  proof (cases "(k', js) \<in> set groups")
    case True
    then show ?thesis using assms(1) that(2) by (fastforce simp: groups_ok_def)
  next
    case False
    then have "k' = k" "js = ?old @ [i]"
      using that(1) dict_set_subset [of k "?old @ [i]" groups] by (auto simp: group_add_def)
    then show ?thesis using that(2) old assms(2,3) by auto
  qed
  moreover have "mset (concat (dict_values (group_add k i groups))) = mset (ids @ [i])"
    using concat_dict_set [OF wf, of k i] assms(1) by (simp add: group_add_def groups_ok_def)
  ultimately show ?thesis using wf by (fastforce simp: groups_ok_def group_add_def wf_dict_set)
qed

lemma group_loop_ok:
  assumes "\<forall>i \<in> set rids. \<exists>st k. map_of sts i = Some st \<and> plan_key st = Inr k" and "groups_ok sts groups ids"
  shows "\<exists>groups'. group_loop sts rids groups = Inr groups' \<and> groups_ok sts groups' (ids @ rids)"
  using assms
proof (induction rids arbitrary: groups ids)
  case Nil
  then show ?case by simp
next
  case (Cons i rids)
  obtain st k where st: "map_of sts i = Some st" "plan_key st = Inr k" using Cons.prems(1) by auto
  from Cons.IH [OF _ group_add_ok [OF Cons.prems(2) st]] Cons.prems(1) st show ?case by auto
qed

lemma plan_key_ok:
  assumes "state_ok dec al t i st" and "st_stage st = Decoding"
  shows "\<exists>w. plan_key st = Inr (current_decode_step st, state_beam_width st, w, request_context_tokens (st_request st))
     \<and> 0 < w \<and> w \<le> req_beam_width (st_request st)"
proof -
  obtain w0 where w0: "st_active_beam_width st = Some w0" "0 < w0" "w0 \<le> req_beam_width (st_request st)"
    using assms by (auto simp: state_ok_def)
  then have "state_beam_width st = w0" by (simp add: state_beam_width_def)
  then obtain w where "policy_width_for_step (st_request st) (current_decode_step st + 1) (state_beam_width st) = Inr w"
    "0 < w" "w \<le> req_beam_width (st_request st)"
    using valid_policy_width [of "st_request st" "current_decode_step st + 1" w0] assms w0 state_ok_valid [OF assms(1)]
    by (auto simp: state_ok_def)
  then show ?thesis by (auto simp: plan_key_def)
qed

lemma batches_of_group_ids:
  "0 < n \<Longrightarrow> concat (map batch_request_ids (batches_of_group n g)) = snd g"
  by (cases g) (auto simp: batches_of_group_def chunks_def comp_def concat_blocks split: prod.splits)

text \<open>The batches of one tick: every decoding request in exactly one batch, batches not empty and not
  too large, and the requests of a batch alike.\<close>

lemma plan_spec:
  assumes inv: "sched_inv s"
  shows "\<exists>bs. plan_decode_batches s = (Inr bs, s\<lparr>planned_decode_batches := planned_decode_batches s + int (length bs)\<rparr>)
    \<and> mset (concat (map batch_request_ids bs)) = mset (decoding s)
    \<and> (\<forall>b \<in> set bs. batch_request_ids b \<noteq> [] \<and> int (length (batch_request_ids b)) \<le> max_decode_batch_size (policy s)
         \<and> (\<forall>i \<in> set (batch_request_ids b). \<exists>st. map_of (states s) i = Some st
              \<and> plan_key st = Inr (batch_step b, dbatch_beam_width b, next_beam_width b, batch_context_len b)))"
proof -
  note core = inv [unfolded sched_inv_def]
  let ?n = "max_decode_batch_size (policy s)"
  have n: "0 < ?n" using core_invD(8) [OF core] .
  have "\<forall>i \<in> set (decoding s). \<exists>st k. map_of (states s) i = Some st \<and> plan_key st = Inr k"
    using core_inv_decoding [OF core] plan_key_ok by blast
  moreover have "groups_ok (states s) [] []" by (simp add: groups_ok_def)
  ultimately obtain groups where g: "group_loop (states s) (decoding s) [] = Inr groups" "groups_ok (states s) groups (decoding s)"
    using group_loop_ok by fastforce
  define gs where "gs = sort_key fst groups"
  define bs where "bs = concat (map (batches_of_group ?n) gs)"
  have plan: "plan_decode_batches s = (Inr bs, s\<lparr>planned_decode_batches := planned_decode_batches s + int (length bs)\<rparr>)"
    using g(1) by (simp add: plan_decode_batches_def bs_def gs_def Let_def)
  have "concat (map batch_request_ids bs) = concat (dict_values gs)"
    unfolding bs_def by (induction gs) (simp_all add: batches_of_group_ids [OF n])
  moreover have "mset (concat (dict_values gs)) = mset (concat (dict_values groups))"
  proof -
    have "mset (map snd gs) = mset (map snd groups)" by (simp add: gs_def)
    then show ?thesis by (metis mset_concat mset_map sum_mset_sum_list)
  qed
  ultimately have parts: "mset (concat (map batch_request_ids bs)) = mset (decoding s)"
    using g(2) by (simp add: groups_ok_def)
  have "batch_request_ids b \<noteq> [] \<and> int (length (batch_request_ids b)) \<le> ?n
         \<and> (\<forall>i \<in> set (batch_request_ids b). \<exists>st. map_of (states s) i = Some st
              \<and> plan_key st = Inr (batch_step b, dbatch_beam_width b, next_beam_width b, batch_context_len b))"
    if bin: "b \<in> set bs" for b
  proof -
    obtain g where gg: "g \<in> set groups" "b \<in> set (batches_of_group ?n g)"
      using bin by (auto simp: bs_def gs_def)
    obtain step w nw ctx ids where geq: "g = ((step, w, nw, ctx), ids)" by (metis prod.exhaust)
    have grp: "((step, w, nw, ctx), ids) \<in> set groups" and b: "b \<in> set (batches_of_group ?n ((step, w, nw, ctx), ids))"
      using gg geq by simp_all
    obtain chunk where c: "chunk \<in> set (blocks (nat ?n) ids)"
      and bb: "b = \<lparr>batch_step = step, dbatch_beam_width = w, next_beam_width = nw, batch_context_len = ctx, batch_request_ids = chunk\<rparr>"
      using b by (auto simp: batches_of_group_def chunks_def)
    have "set chunk \<subseteq> set ids" using c concat_blocks [of "nat ?n" ids] n by (metis UN_upper set_concat zero_less_nat_eq)
    moreover have "\<forall>i \<in> set ids. \<exists>st. map_of (states s) i = Some st \<and> plan_key st = Inr (step, w, nw, ctx)"
      using g(2) grp by (fastforce simp: groups_ok_def)
    ultimately show ?thesis using blocks_size [OF c] n bb by auto
  qed
  then show ?thesis using plan parts by blast
qed

end
