(* ===== verification/GR_Continuous_Tick.thy ===== *)
theory GR_Continuous_Tick
  imports GR_Continuous_Inv
begin

text \<open>
  Decode advancement, the tick and the run of the continuous scheduler: a tick keeps the invariant
  whatever its executors do within their contract (locale \<open>tick_executors\<close>), and a tick with the
  default executor brings the remaining work down, so \<open>run_until_empty\<close> ends.
\<close>

section \<open>Advancing one request\<close>

definition last_step :: "GRContinuousRequestState \<Rightarrow> bool" where
  "last_step st \<longleftrightarrow> current_decode_step st + 1 \<ge> req_max_decode_steps (st_request st)"

text \<open>What one decode step does to the state of a request.\<close>

definition stepped :: "GRContinuousRequestState \<Rightarrow> GRContinuousRequestState \<Rightarrow> bool" where
  "stepped st st' \<longleftrightarrow> st_request st' = st_request st \<and> submitted_tick st' = submitted_tick st
     \<and> admitted_tick st' = admitted_tick st \<and> current_decode_step st' = current_decode_step st + 1
     \<and> st_stage st' = (if last_step st then Finished else Decoding)"

lemma advance_request_spec:
  assumes inv: "sched_inv s" and dec: "i \<in> set (decoding s)" and st: "map_of (states s) i = Some st"
    and w: "0 < w" "w \<le> req_beam_width (st_request st)"
  shows "\<exists>s' st'. advance_request i w s = (last_step st, s') \<and> sched_inv s' \<and> policy s' = policy s
    \<and> tick_count s' = tick_count s \<and> waiting_prefill s' = waiting_prefill s
    \<and> decoding s' = (if last_step st then removeAll i (decoding s) else decoding s)
    \<and> states s' = dict_set i st' (states s) \<and> stepped st st'
    \<and> kv_fits (kv_alloc s') = kv_fits (kv_alloc s)"
proof -
  note core = inv [unfolded sched_inv_def]
  note D = core_invD [OF core]
  have ok: "state_ok (decoding s) (kv_alloc s) (tick_count s) i st" by (rule D(9) [OF st])
  have stage: "st_stage st = Decoding" and rid: "request_id (st_request st) = i"
    using ok dec by (simp_all add: state_ok_def)
  show ?thesis
  proof (cases "last_step st")
    case False
    let ?st = "st\<lparr>current_decode_step := current_decode_step st + 1, st_active_beam_width := Some w\<rparr>"
    have "advance_request i w s = (False, set_state i ?st s)"
      using dec st False by (simp add: advance_request_def last_step_def Let_def)
    moreover have "sched_inv (set_state i ?st s)"
      using core_advance [OF core st dec _ w] False by (simp add: sched_inv_def last_step_def)
    ultimately show ?thesis using False stage
      by (intro exI [of _ "set_state i ?st s"] exI [of _ ?st]) (simp add: stepped_def)
  next
    case True
    let ?st2 = "st\<lparr>current_decode_step := current_decode_step st + 1, st_stage := Finished,
      finished_tick := Some (tick_count s), stop_reason := Some ''max_decode_steps''\<rparr>"
    obtain st3 s1 where r: "release_kv_lease ?st2 (s\<lparr>decoding := removeAll i (decoding s)\<rparr>) = (st3, s1)"
      by (cases "release_kv_lease ?st2 (s\<lparr>decoding := removeAll i (decoding s)\<rparr>)")
    note rc = release_kv_lease_core [OF r]
    have "i \<in> set (dict_keys (kv_leases (kv_alloc s)))" using dec D(3) by simp
    then obtain l where "kv_lease st = Some l" using ok key_in_dict_Some by (fastforce simp: state_ok_def)
    then have al: "kv_alloc s1 = snd (kv_release i (kv_alloc s))" using rc rid by simp
    have st3: "st3 = ?st2\<lparr>kv_lease := None\<rparr>" using rc by blast
    have notq: "filter (\<lambda>r. request_id r \<noteq> i) (waiting_prefill s) = waiting_prefill s"
      unfolding filter_id_conv
    proof
      fix r
      assume "r \<in> set (waiting_prefill s)"
      then show "request_id r \<noteq> i" using D(10) [of r] st stage by (auto simp: queued_def)
    qed
    have upper: "current_decode_step st < req_max_decode_steps (st_request st)" and lower: "0 \<le> current_decode_step st"
      using ok stage by (simp_all add: state_ok_def)
    have core': "core_inv (policy s) (waiting_prefill s) (removeAll i (decoding s)) (dict_set i st3 (states s)) (kv_alloc s1) (tick_count s)"
      using core_finish [OF core st, of st3] upper lower notq al st3 by simp
    obtain s' where s': "advance_request i w s = (True, s')" "policy s' = policy s" "tick_count s' = tick_count s"
      "waiting_prefill s' = waiting_prefill s" "decoding s' = removeAll i (decoding s)"
      "states s' = dict_set i st3 (states s)" "kv_alloc s' = kv_alloc s1"
      using dec st True r rc by (auto simp: advance_request_def last_step_def Let_def)
    have "sched_inv s'" using core' s' by (simp add: sched_inv_def)
    moreover have "stepped st st3" using True st3 by (simp add: stepped_def)
    moreover have "kv_fits (kv_alloc s') = kv_fits (kv_alloc s)"
      using kv.release_law [OF D(1), of i] al s'(7) by simp
    ultimately show ?thesis using s' True by auto
  qed
qed

section \<open>Advancing the batches of a tick\<close>

fun advance_pairs :: "(string \<times> int) list \<Rightarrow> sched \<Rightarrow> string list \<times> sched" where
  "advance_pairs [] s = ([], s)"
| "advance_pairs ((rid, w) # ps) s =
     (case advance_request rid w s of
        (fin, s1) \<Rightarrow> (case advance_pairs ps s1 of (ids, s2) \<Rightarrow> (if fin then rid # ids else ids, s2)))"

lemma advance_pairs_append:
  "advance_pairs (ps @ qs) s =
     (case advance_pairs ps s of (a, s1) \<Rightarrow> (case advance_pairs qs s1 of (b, s2) \<Rightarrow> (a @ b, s2)))"
  by (induction ps s rule: advance_pairs.induct) (auto split: prod.splits)

lemma advance_ids_pairs: "advance_ids ids w s = advance_pairs (map (\<lambda>i. (i, w)) ids) s"
  by (induction ids w s rule: advance_ids.induct) (auto split: prod.splits)

definition batch_pairs :: "GRContinuousDecodeBatch list \<Rightarrow> (string \<times> int) list" where
  "batch_pairs bs = concat (map (\<lambda>b. map (\<lambda>i. (i, next_beam_width b)) (batch_request_ids b)) bs)"

lemma batch_pairs_fst [simp]: "map fst (batch_pairs bs) = concat (map batch_request_ids bs)"
  by (induction bs) (simp_all add: batch_pairs_def comp_def)

lemma advance_batches_pairs: "advance_decode_batches bs s = advance_pairs (batch_pairs bs) s"
proof (induction bs arbitrary: s)
  case Nil
  then show ?case by (simp add: batch_pairs_def)
next
  case (Cons b bs)
  have "batch_pairs (b # bs) = map (\<lambda>i. (i, next_beam_width b)) (batch_request_ids b) @ batch_pairs bs"
    by (simp add: batch_pairs_def)
  then show ?case using Cons.IH by (auto simp: advance_ids_pairs advance_pairs_append split: prod.splits)
qed

definition width_ok :: "(string, GRContinuousRequestState) dict \<Rightarrow> string \<times> int \<Rightarrow> bool" where
  "width_ok sts p \<longleftrightarrow>
     (\<exists>st. map_of sts (fst p) = Some st \<and> 0 < snd p \<and> snd p \<le> req_beam_width (st_request st))"

definition ends_at :: "(string, GRContinuousRequestState) dict \<Rightarrow> string \<Rightarrow> bool" where
  "ends_at sts i \<longleftrightarrow> (\<exists>st. map_of sts i = Some st \<and> last_step st)"

lemma advance_pairs_spec:
  assumes "sched_inv s" and "distinct (map fst ps)" and "set (map fst ps) \<subseteq> set (decoding s)"
    and "\<forall>p \<in> set ps. width_ok (states s) p"
  shows "\<exists>s'. advance_pairs ps s = (filter (ends_at (states s)) (map fst ps), s') \<and> sched_inv s'
    \<and> policy s' = policy s \<and> tick_count s' = tick_count s \<and> waiting_prefill s' = waiting_prefill s
    \<and> decoding s' = filter (\<lambda>i. i \<in> set (map fst ps) \<longrightarrow> \<not> ends_at (states s) i) (decoding s)
    \<and> dict_keys (states s') = dict_keys (states s) \<and> kv_fits (kv_alloc s') = kv_fits (kv_alloc s)
    \<and> (\<forall>j. j \<notin> set (map fst ps) \<longrightarrow> map_of (states s') j = map_of (states s) j)
    \<and> (\<forall>j st. j \<in> set (map fst ps) \<longrightarrow> map_of (states s) j = Some st \<longrightarrow>
         (\<exists>st'. map_of (states s') j = Some st' \<and> stepped st st'))"
  using assms
proof (induction ps arbitrary: s)
  case Nil
  then show ?case by simp
next
  case (Cons p ps)
  obtain i w where p: "p = (i, w)" by (cases p)
  obtain st where st: "map_of (states s) i = Some st" and w: "0 < w" "w \<le> req_beam_width (st_request st)"
    using Cons.prems(4) p by (auto simp: width_ok_def)
  have dec: "i \<in> set (decoding s)" using Cons.prems(3) p by simp
  obtain s1 st1 where a: "advance_request i w s = (last_step st, s1)" "sched_inv s1" "policy s1 = policy s"
    "tick_count s1 = tick_count s" "waiting_prefill s1 = waiting_prefill s"
    "decoding s1 = (if last_step st then removeAll i (decoding s) else decoding s)"
    "states s1 = dict_set i st1 (states s)" "stepped st st1" "kv_fits (kv_alloc s1) = kv_fits (kv_alloc s)"
    using advance_request_spec [OF Cons.prems(1) dec st w] by blast
  have new: "i \<notin> set (map fst ps)" and dist: "distinct (map fst ps)" using Cons.prems(2) p by simp_all
  have lk: "map_of (states s1) j = (if j = i then Some st1 else map_of (states s) j)" for j
    using a(7) by (auto simp: dict_lookup)
  have sub: "set (map fst ps) \<subseteq> set (decoding s1)" using Cons.prems(3) p new a(6) by auto
  have same: "map_of (states s1) j = map_of (states s) j" if "j \<in> set (map fst ps)" for j
    using that new lk by metis
  have ends: "ends_at (states s1) j = ends_at (states s) j" if "j \<in> set (map fst ps)" for j
    using same [OF that] by (simp add: ends_at_def)
  have wid: "\<forall>p \<in> set ps. width_ok (states s1) p"
    using Cons.prems(4) same by (auto simp: width_ok_def)
  obtain s' where r: "advance_pairs ps s1 = (filter (ends_at (states s1)) (map fst ps), s')" "sched_inv s'"
    "policy s' = policy s1" "tick_count s' = tick_count s1" "waiting_prefill s' = waiting_prefill s1"
    "decoding s' = filter (\<lambda>i. i \<in> set (map fst ps) \<longrightarrow> \<not> ends_at (states s1) i) (decoding s1)"
    "dict_keys (states s') = dict_keys (states s1)" "kv_fits (kv_alloc s') = kv_fits (kv_alloc s1)"
    "\<forall>j. j \<notin> set (map fst ps) \<longrightarrow> map_of (states s') j = map_of (states s1) j"
    "\<forall>j st. j \<in> set (map fst ps) \<longrightarrow> map_of (states s1) j = Some st \<longrightarrow>
         (\<exists>st'. map_of (states s') j = Some st' \<and> stepped st st')"
    using Cons.IH [OF a(2) dist sub wid] by blast
  have ei: "ends_at (states s) i = last_step st" using st by (simp add: ends_at_def)
  have res: "filter (ends_at (states s1)) (map fst ps) = filter (ends_at (states s)) (map fst ps)"
    by (rule filter_cong [OF refl]) (rule ends)
  have call: "advance_pairs (p # ps) s = (filter (ends_at (states s)) (map fst (p # ps)), s')"
    using a(1) r(1) res ei p by simp
  have decs: "decoding s' = filter (\<lambda>j. j \<in> set (map fst (p # ps)) \<longrightarrow> \<not> ends_at (states s) j) (decoding s)"
  proof -
    have "decoding s1 = filter (\<lambda>j. j = i \<longrightarrow> \<not> last_step st) (decoding s)"
      using a(6) by (auto simp: removeAll_filter_not_eq intro!: filter_cong)
    then show ?thesis
      unfolding r(6) filter_filter using ends ei p by (auto intro!: filter_cong)
  qed
  have keys: "dict_keys (states s') = dict_keys (states s)"
    unfolding r(7) a(7) by (rule dict_set_keys_old) (rule map_of_Some_keys [OF st])
  have others: "map_of (states s') j = map_of (states s) j" if "j \<notin> set (map fst (p # ps))" for j
    using that r(9) lk p by auto
  have these: "\<exists>st'. map_of (states s') j = Some st' \<and> stepped sj st'"
    if "j \<in> set (map fst (p # ps))" and sj: "map_of (states s) j = Some sj" for j sj
  proof (cases "j = i")
    case True
    then show ?thesis using r(9) new lk sj st a(8) by auto
  next
    case False
    then have "j \<in> set (map fst ps)" using that p by auto
    then show ?thesis using r(10) same sj by metis
  qed
  show ?case
    using call r(2,3,4,5,8) a(3,4,5,9) decs keys others these by (intro exI [of _ s']) simp
qed


section \<open>The default decode executor\<close>

text \<open>The batches a tick hands to its decode executor: each decoding request at most once, with a
  next width its request allows.\<close>

definition planned :: "sched \<Rightarrow> GRContinuousDecodeBatch list \<Rightarrow> bool" where
  "planned s bs \<longleftrightarrow> distinct (concat (map batch_request_ids bs))
     \<and> set (concat (map batch_request_ids bs)) \<subseteq> set (decoding s) \<and> (\<forall>p \<in> set (batch_pairs bs). width_ok (states s) p)"

lemma plan_planned:
  assumes inv: "sched_inv s" and plan: "plan_decode_batches s = (Inr bs, s1)"
  shows "sched_inv s1 \<and> planned s1 bs \<and> mset (concat (map batch_request_ids bs)) = mset (decoding s)
     \<and> s1 = s\<lparr>planned_decode_batches := planned_decode_batches s + int (length bs)\<rparr>"
proof -
  note core = inv [unfolded sched_inv_def]
  have s1: "s1 = s\<lparr>planned_decode_batches := planned_decode_batches s + int (length bs)\<rparr>"
    and parts: "mset (concat (map batch_request_ids bs)) = mset (decoding s)"
    and keys: "\<And>b i. b \<in> set bs \<Longrightarrow> i \<in> set (batch_request_ids b) \<Longrightarrow> \<exists>st. map_of (states s) i = Some st
       \<and> plan_key st = Inr (batch_step b, dbatch_beam_width b, next_beam_width b, batch_context_len b)"
    using plan_spec [OF inv] plan by auto
  have dist: "distinct (concat (map batch_request_ids bs))"
    using core_invD(4) [OF core] mset_eq_imp_distinct_iff [OF parts] by simp
  have sub: "set (concat (map batch_request_ids bs)) = set (decoding s)" using mset_eq_setD [OF parts] .
  have "width_ok (states s) p" if pin: "p \<in> set (batch_pairs bs)" for p
  proof -
    obtain b where b: "b \<in> set bs" "fst p \<in> set (batch_request_ids b)" "snd p = next_beam_width b"
      using pin by (auto simp: batch_pairs_def)
    obtain st where st: "map_of (states s) (fst p) = Some st"
      "plan_key st = Inr (batch_step b, dbatch_beam_width b, next_beam_width b, batch_context_len b)"
      using keys [OF b(1,2)] by blast
    have "fst p \<in> set (decoding s)" using b(1,2) sub by auto
    have "state_ok (decoding s) (kv_alloc s) (tick_count s) (fst p) st" "st_stage st = Decoding"
      using core_inv_decoding [OF core \<open>fst p \<in> set (decoding s)\<close>] st(1) by simp_all
    then show ?thesis using plan_key_ok st b(3) by (fastforce simp: width_ok_def)
  qed
  then show ?thesis using s1 parts dist sub inv by (simp add: planned_def)
qed

lemma default_decode_spec:
  assumes "sched_inv s" and "planned s bs"
  shows "\<exists>s'. default_decode bs s = (Inr (filter (ends_at (states s)) (concat (map batch_request_ids bs))), s')
    \<and> sched_inv s' \<and> policy s' = policy s \<and> tick_count s' = tick_count s \<and> waiting_prefill s' = waiting_prefill s
    \<and> decoding s' = filter (\<lambda>i. i \<in> set (concat (map batch_request_ids bs)) \<longrightarrow> \<not> ends_at (states s) i) (decoding s)
    \<and> dict_keys (states s') = dict_keys (states s) \<and> kv_fits (kv_alloc s') = kv_fits (kv_alloc s)
    \<and> (\<forall>j. j \<notin> set (concat (map batch_request_ids bs)) \<longrightarrow> map_of (states s') j = map_of (states s) j)
    \<and> (\<forall>j st. j \<in> set (concat (map batch_request_ids bs)) \<longrightarrow> map_of (states s) j = Some st \<longrightarrow>
         (\<exists>st'. map_of (states s') j = Some st' \<and> stepped st st'))"
proof -
  obtain s' where "advance_pairs (batch_pairs bs) s = (filter (ends_at (states s)) (map fst (batch_pairs bs)), s')"
    and rest: "sched_inv s' \<and> policy s' = policy s \<and> tick_count s' = tick_count s \<and> waiting_prefill s' = waiting_prefill s
    \<and> decoding s' = filter (\<lambda>i. i \<in> set (map fst (batch_pairs bs)) \<longrightarrow> \<not> ends_at (states s) i) (decoding s)
    \<and> dict_keys (states s') = dict_keys (states s) \<and> kv_fits (kv_alloc s') = kv_fits (kv_alloc s)
    \<and> (\<forall>j. j \<notin> set (map fst (batch_pairs bs)) \<longrightarrow> map_of (states s') j = map_of (states s) j)
    \<and> (\<forall>j st. j \<in> set (map fst (batch_pairs bs)) \<longrightarrow> map_of (states s) j = Some st \<longrightarrow>
         (\<exists>st'. map_of (states s') j = Some st' \<and> stepped st st'))"
    using advance_pairs_spec [OF assms(1), of "batch_pairs bs"] assms(2) by (auto simp: planned_def simp del: set_map set_concat)
  then show ?thesis unfolding default_decode_def advance_batches_pairs batch_pairs_fst by auto
qed

lemma work_advance:
  assumes inv: "sched_inv s" and waiting: "waiting_prefill s' = waiting_prefill s"
    and dec: "decoding s' = filter (\<lambda>i. \<not> ends_at (states s) i) (decoding s)"
    and stepped: "\<And>j st. j \<in> set (decoding s) \<Longrightarrow> map_of (states s) j = Some st \<Longrightarrow>
         \<exists>st'. map_of (states s') j = Some st' \<and> stepped st st'"
  shows "work s = work s' + length (decoding s)"
proof -
  note core = inv [unfolded sched_inv_def]
  have one: "remaining_of s i = (if ends_at (states s) i then 1 else remaining_of s' i + 1)" if i: "i \<in> set (decoding s)" for i
  proof -
    obtain st where st: "map_of (states s) i = Some st" "st_stage st = Decoding"
        "state_ok (decoding s) (kv_alloc s) (tick_count s) i st"
      using core_inv_decoding [OF core i] by blast
    obtain st' where st': "map_of (states s') i = Some st'" "stepped st st'" using stepped [OF i st(1)] by blast
    then show ?thesis
      using st by (auto simp: remaining_of_def ends_at_def stepped_def last_step_def remaining_decode_steps_def state_ok_def)
  qed
  have "sum_list (map (remaining_of s) ds) = sum_list (map (remaining_of s') (filter (\<lambda>i. \<not> ends_at (states s) i) ds)) + length ds"
    if "set ds \<subseteq> set (decoding s)" for ds
    using that by (induction ds) (auto simp: one)
  from this [of "decoding s"] show ?thesis using waiting dec by (simp add: work_def)
qed


section \<open>A tick\<close>

lemma sched_inv_later: "sched_inv s \<Longrightarrow> sched_inv (s\<lparr>tick_count := tick_count s + 1\<rparr>)"
  using core_later [of _ _ _ _ _ "tick_count s" "tick_count s + 1"] by (simp add: sched_inv_def)

lemma submit_inv:
  assumes inv: "sched_inv s" and c: "constructed_policy r"
  shows "sched_inv (snd (submit r s))"
proof (cases "validate_request r")
  case (Inl e)
  then show ?thesis using inv by (simp add: submit_def)
next
  case (Inr u)
  then have v: "validate_request r = Inr ()" by simp
  then have vr: "valid_request r" using c by (simp add: valid_request_def)
  show ?thesis
  proof (cases "request_id r \<in> set (dict_keys (states s))")
    case True
    then show ?thesis using inv v by (simp add: submit_def)
  next
    case False
    then show ?thesis
      using core_submit [OF inv [unfolded sched_inv_def] False vr] v
      by (simp add: submit_def Let_def queue_submit_def sched_inv_def)
  qed
qed

lemma finish_tick_inv [simp]: "sched_inv (snd (finish_tick p bs fin s)) = sched_inv s"
  by (simp add: finish_tick_def Let_def)

text \<open>The timeouts of a tick.\<close>

lemma timeouts_spec:
  assumes "sched_inv s"
  shows "\<exists>ids s' keep. fail_timed_out_requests s = (Inr ids, s') \<and> shrinks s s' keep
     \<and> (\<forall>i st. map_of (states s') i = Some st \<longrightarrow> st_stage st \<noteq> Finished \<longrightarrow> \<not> overdue (tick_count s) st)
     \<and> (\<forall>i st. \<not> keep i \<longrightarrow> map_of (states s) i = Some st \<longrightarrow> overdue (tick_count s) st)"
proof -
  obtain ids s' keep where t: "timeout_loop (dict_keys (states s)) s = (Inr ids, s')" "shrinks s s' keep"
    "\<forall>i st. i \<in> set (dict_keys (states s)) \<longrightarrow> map_of (states s') i = Some st \<longrightarrow> st_stage st \<noteq> Finished \<longrightarrow> \<not> overdue (tick_count s) st"
    "\<forall>i st. \<not> keep i \<longrightarrow> map_of (states s) i = Some st \<longrightarrow> overdue (tick_count s) st"
    using timeout_loop_shrinks [OF assms, of "dict_keys (states s)"] by blast
  have "i \<in> set (dict_keys (states s))" if "map_of (states s') i = Some st" for i st
    using map_of_Some_keys [OF that] shrinksD(6) [OF t(2)] by simp
  then show ?thesis using t unfolding fail_timed_out_requests_def by blast
qed

text \<open>Executors a tick may be given: whatever they do, they keep the scheduler's invariant.\<close>

locale tick_executors =
  fixes prefill :: "prefill_executor option" and decode :: decode_executor
  assumes prefill_inv: "prefill = Some ex \<Longrightarrow> sched_inv s \<Longrightarrow> set ids \<subseteq> set (decoding s) \<Longrightarrow> sched_inv (snd (ex ids s))"
    and decode_inv: "sched_inv s \<Longrightarrow> planned s bs \<Longrightarrow> sched_inv (snd (decode bs s))"
begin

lemma tick_decode_inv:
  assumes inv: "sched_inv s"
  shows "sched_inv (snd (tick_decode decode timed_out ids s))"
proof -
  obtain bs s1 where plan: "plan_decode_batches s = (Inr bs, s1)" using plan_spec [OF inv] by blast
  note pp = plan_planned [OF inv plan]
  obtain res s2 where d: "decode bs s1 = (res, s2)" by (cases "decode bs s1")
  have inv1: "sched_inv s1" and pl: "planned s1 bs" using pp by blast+
  have inv2: "sched_inv s2" using decode_inv [OF inv1 pl] d by simp
  show ?thesis
  proof (cases res)
    case (Inr fin)
    then show ?thesis using plan d inv2 by (simp add: tick_decode_def)
  next
    case (Inl e)
    obtain failed s3 keep where f: "fail_request_ids (concat (map batch_request_ids bs)) ''decode_failed'' (Some (ErrorExc e)) s2 = (Inr failed, s3)"
      "shrinks s2 s3 keep"
      using fail_request_ids_shrinks [OF inv2] by blast
    then show ?thesis using plan d Inl shrinksD(1) [OF f(2)] by (simp add: tick_decode_def)
  qed
qed

lemma tick_inv:
  assumes inv: "sched_inv s"
  shows "sched_inv (snd (tick prefill decode s))"
proof -
  let ?s0 = "s\<lparr>tick_count := tick_count s + 1\<rparr>"
  obtain ids s1 keep where t: "fail_timed_out_requests ?s0 = (Inr ids, s1)" "shrinks ?s0 s1 keep"
    using timeouts_spec [OF sched_inv_later [OF inv]] by blast
  have inv1: "sched_inv s1" by (rule shrinksD(1) [OF t(2)])
  obtain res s2 where a: "admit_prefill_batch s1 = (res, s2)" by (cases "admit_prefill_batch s1")
  show ?thesis
  proof (cases res)
    case (Inl e)
    then show ?thesis using admit_prefill_batch_spec [OF inv1] t(1) a by (simp add: tick_def)
  next
    case (Inr admitted)
    then have inv2: "sched_inv s2" and sub: "set admitted \<subseteq> set (decoding s2)" using admit_prefill_batch_spec [OF inv1] a by auto
    show ?thesis
    proof (cases prefill)
      case None
      then show ?thesis using t(1) a Inr tick_decode_inv [OF inv2] by (simp add: tick_def)
    next
      case (Some ex)
      obtain res' s3 where x: "ex admitted s2 = (res', s3)" by (cases "ex admitted s2")
      have inv3: "sched_inv s3" using prefill_inv [OF Some inv2 sub] x by simp
      show ?thesis
      proof (cases res')
        case (Inr u)
        then show ?thesis using t(1) a \<open>res = Inr admitted\<close> Some x tick_decode_inv [OF inv3] by (simp add: tick_def)
      next
        case (Inl e)
        obtain failed s4 keep' where f: "fail_request_ids admitted ''prefill_failed'' (Some (ErrorExc e)) s3 = (Inr failed, s4)"
          "shrinks s3 s4 keep'"
          using fail_request_ids_shrinks [OF inv3] by blast
        then show ?thesis
          using t(1) a \<open>res = Inr admitted\<close> Some x Inl shrinksD(1) [OF f(2)] by (simp add: tick_def)
      qed
    qed
  qed
qed

end

interpretation default_exec: tick_executors None default_decode
proof
  fix s bs
  assume "sched_inv s" and "planned s bs"
  then show "sched_inv (snd (default_decode bs s))" using default_decode_spec [of s bs] by auto
qed simp


section \<open>Ticks bring the work down\<close>

lemma remaining_pos:
  assumes "sched_inv s" and "i \<in> set (decoding s)"
  shows "0 < remaining_of s i"
  using core_inv_decoding [OF assms(1) [unfolded sched_inv_def] assms(2)]
  by (auto simp: remaining_of_def state_ok_def remaining_decode_steps_def)

lemma waiting_pos:
  assumes "sched_inv s" and "r \<in> set (waiting_prefill s)"
  shows "valid_request r"
proof -
  have "queued (states s) r" by (rule core_invD(10) [OF assms(1) [unfolded sched_inv_def] assms(2)])
  then obtain st where "map_of (states s) (request_id r) = Some st" "st_request st = r" "st_stage st = WaitingPrefill"
    by (auto simp: queued_def)
  then show ?thesis using core_invD(9) [OF assms(1) [unfolded sched_inv_def], of "request_id r" st] state_ok_valid by fastforce
qed

lemma work_zero:
  assumes "sched_inv s"
  shows "work s = 0 \<longleftrightarrow> waiting_prefill s = [] \<and> decoding s = []"
proof
  assume "work s = 0"
  then have z: "\<forall>r \<in> set (waiting_prefill s). nat (req_max_decode_steps r) = 0" "\<forall>i \<in> set (decoding s). remaining_of s i = 0"
    by (auto simp: work_def)
  have "set (decoding s) = {}" using z(2) remaining_pos [OF assms] by fastforce
  moreover have "r \<notin> set (waiting_prefill s)" for r
    using z(1) waiting_pos [OF assms, of r] valid_request_fields(2) [of r] by auto
  ultimately show "waiting_prefill s = [] \<and> decoding s = []" by (metis list.set_intros(1) neq_Nil_conv set_empty)
qed (simp add: work_def)

lemma sum_list_filter_le: "sum_list (map f (filter P xs)) \<le> (sum_list (map f xs) :: nat)"
  by (induction xs) auto

lemma shrinks_work:
  assumes "shrinks s s' keep"
  shows "work s' \<le> work s"
proof -
  have "sum_list (map (remaining_of s') (filter keep (decoding s))) = sum_list (map (remaining_of s) (filter keep (decoding s)))"
    using shrinksD(8) [OF assms] by (intro arg_cong [where f = sum_list] map_cong refl) (simp add: remaining_of_def)
  then show ?thesis
    using shrinksD(4,5) [OF assms] sum_list_filter_le [of "remaining_of s" keep "decoding s"]
      sum_list_filter_le [of "\<lambda>r. nat (req_max_decode_steps r)" "\<lambda>r. keep (request_id r)" "waiting_prefill s"]
    by (simp add: work_def)
qed

text \<open>Decoding with the default executor: every decoding request makes its step.\<close>

lemma tick_decode_default:
  assumes inv: "sched_inv s"
  shows "\<exists>res s'. tick_decode default_decode timed_out ids s = (Inr res, s') \<and> sched_inv s'
    \<and> policy s' = policy s \<and> waiting_prefill s' = waiting_prefill s \<and> tick_count s' = tick_count s
    \<and> kv_fits (kv_alloc s') = kv_fits (kv_alloc s) \<and> prefill_request_ids res = ids
    \<and> decoding s' = filter (\<lambda>i. \<not> ends_at (states s) i) (decoding s)
    \<and> (\<forall>j. j \<notin> set (decoding s) \<longrightarrow> map_of (states s') j = map_of (states s) j)
    \<and> (\<forall>j st. j \<in> set (decoding s) \<longrightarrow> map_of (states s) j = Some st \<longrightarrow>
         (\<exists>st'. map_of (states s') j = Some st' \<and> stepped st st'))
    \<and> work s = work s' + length (decoding s)"
proof -
  obtain bs s1 where plan: "plan_decode_batches s = (Inr bs, s1)" using plan_spec [OF inv] by blast
  note pp = plan_planned [OF inv plan]
  have inv1: "sched_inv s1" and pl: "planned s1 bs" and s1: "s1 = s\<lparr>planned_decode_batches := planned_decode_batches s + int (length bs)\<rparr>"
    and ms: "mset (concat (map batch_request_ids bs)) = mset (decoding s)" using pp by blast+
  note ids = mset_eq_setD [OF ms]
  obtain fin s2 where d: "default_decode bs s1 = (Inr fin, s2)" "sched_inv s2" "policy s2 = policy s1" "tick_count s2 = tick_count s1"
    "waiting_prefill s2 = waiting_prefill s1"
    "decoding s2 = filter (\<lambda>i. i \<in> set (decoding s) \<longrightarrow> \<not> ends_at (states s1) i) (decoding s1)"
    "kv_fits (kv_alloc s2) = kv_fits (kv_alloc s1)"
    "\<forall>j. j \<notin> set (decoding s) \<longrightarrow> map_of (states s2) j = map_of (states s1) j"
    "\<forall>j st. j \<in> set (decoding s) \<longrightarrow> map_of (states s1) j = Some st \<longrightarrow>
         (\<exists>st'. map_of (states s2) j = Some st' \<and> stepped st st')"
    using default_decode_spec [OF inv1 pl, unfolded ids] by blast
  have dec: "decoding s2 = filter (\<lambda>i. \<not> ends_at (states s) i) (decoding s)"
    using d(6) s1 by (auto intro: filter_cong)
  have w: "work s = work s2 + length (decoding s)"
    by (rule work_advance [OF inv]) (use d(5,9) s1 dec in auto)
  show ?thesis
    using plan d s1 dec w
    by (simp add: tick_decode_def finish_tick_def Let_def)
qed

text \<open>Every request still waiting is in the queue. Only an admission that raises breaks this: the
  request that does not fit has left the queue by then.\<close>

definition tracked :: "sched \<Rightarrow> bool" where
  "tracked s \<longleftrightarrow> (\<forall>(i, st) \<in> set (states s). st_stage st = WaitingPrefill \<longrightarrow> i \<in> set (map request_id (waiting_prefill s)))"

lemma tracked_lookup:
  "sched_inv s \<Longrightarrow> tracked s \<longleftrightarrow> (\<forall>i st. map_of (states s) i = Some st \<longrightarrow> st_stage st = WaitingPrefill \<longrightarrow>
     i \<in> set (map request_id (waiting_prefill s)))"
  using core_invD(2) [of "policy s" "waiting_prefill s" "decoding s" "states s" "kv_alloc s" "tick_count s"]
  unfolding tracked_def sched_inv_def by auto

lemma shrinks_tracked:
  assumes "sched_inv s" and "shrinks s s' keep" and "tracked s"
  shows "tracked s'"
  unfolding tracked_lookup [OF shrinksD(1) [OF assms(2)]]
proof (intro allI impI)
  fix i st
  assume st: "map_of (states s') i = Some st" "st_stage st = WaitingPrefill"
  then have k: "keep i" using shrinksD(9) [OF assms(2), of i st] by auto
  then have "i \<in> set (map request_id (waiting_prefill s))"
    using st shrinksD(8) [OF assms(2), of i] assms(3) tracked_lookup [OF assms(1)] by auto
  then show "i \<in> set (map request_id (waiting_prefill s'))" using k shrinksD(4) [OF assms(2)] by auto
qed

lemma decoding_stage:
  "sched_inv s \<Longrightarrow> i \<in> set (decoding s) \<Longrightarrow> map_of (states s) i = Some st \<Longrightarrow> st_stage st = Decoding"
  using core_inv_decoding unfolding sched_inv_def by fastforce

text \<open>The states \<open>s1\<close> after the timeouts, \<open>s2\<close> after admission and \<open>s3\<close> after the decode step of one tick.\<close>

lemma tick_tracked:
  assumes inv: "sched_inv s" and t: "shrinks (s\<lparr>tick_count := tick_count s + 1\<rparr>) s1 keep"
    and q: "waiting_prefill s2 = drop k (waiting_prefill s1)"
    and dec: "decoding s2 = decoding s1 @ map request_id (take k (waiting_prefill s1))"
    and inv2: "sched_inv s2" and ad: "admits (set admitted) (states s1) (states s2)"
    and admitted: "admitted = map request_id (take k (waiting_prefill s1))"
    and inv3: "sched_inv s3" and q3: "waiting_prefill s3 = waiting_prefill s2"
    and same: "\<forall>j. j \<notin> set (decoding s2) \<longrightarrow> map_of (states s3) j = map_of (states s2) j"
    and step: "\<forall>j st. j \<in> set (decoding s2) \<longrightarrow> map_of (states s2) j = Some st \<longrightarrow>
         (\<exists>st'. map_of (states s3) j = Some st' \<and> stepped st st')"
  shows "tracked s \<longrightarrow> tracked s3"
proof
  assume "tracked s"
  then have "tracked (s\<lparr>tick_count := tick_count s + 1\<rparr>)" by (simp add: tracked_def)
  then have t1: "tracked s1" by (rule shrinks_tracked [OF sched_inv_later [OF inv] t])
  show "tracked s3"
    unfolding tracked_lookup [OF inv3]
  proof (intro allI impI)
    fix i st
    assume st: "map_of (states s3) i = Some st" "st_stage st = WaitingPrefill"
    have nd: "i \<notin> set (decoding s2)"
    proof
      assume d: "i \<in> set (decoding s2)"
      then obtain st2 where "map_of (states s2) i = Some st2"
        using core_inv_decoding [OF inv2 [unfolded sched_inv_def]] by blast
      then have "stepped st2 st" using step d st(1) by auto
      then show False using st(2) by (simp add: stepped_def split: if_splits)
    qed
    then have "map_of (states s1) i = Some st" using same st(1) ad dec admitted by (auto simp: admits_def)
    then have "i \<in> request_id ` set (waiting_prefill s1)" using t1 st(2) tracked_lookup [OF shrinksD(1) [OF t]] by auto
    moreover have "set (waiting_prefill s1) = set (take k (waiting_prefill s1)) \<union> set (drop k (waiting_prefill s1))"
      by (metis append_take_drop_id set_append)
    moreover have "i \<notin> request_id ` set (take k (waiting_prefill s1))" using nd dec by simp
    ultimately show "i \<in> set (map request_id (waiting_prefill s3))" using q q3 by auto
  qed
qed

lemma tick_timeouts:
  assumes quiet: "\<forall>i st. map_of (states s1) i = Some st \<longrightarrow> st_stage st \<noteq> Finished \<longrightarrow> \<not> overdue t st"
    and inv1: "sched_inv s1" and inv2: "sched_inv s2" and ad: "admits (set admitted) (states s1) (states s2)"
    and admitted: "admitted = map request_id (take k (waiting_prefill s1))"
    and same: "\<forall>j. j \<notin> set (decoding s2) \<longrightarrow> map_of (states s3) j = map_of (states s2) j"
    and step: "\<forall>j st. j \<in> set (decoding s2) \<longrightarrow> map_of (states s2) j = Some st \<longrightarrow>
         (\<exists>st'. map_of (states s3) j = Some st' \<and> stepped st st')"
  shows "\<forall>i st. map_of (states s3) i = Some st \<longrightarrow> st_stage st \<noteq> Finished \<longrightarrow> \<not> overdue t st"
proof -
  have two: "\<not> overdue t st" if st: "map_of (states s2) i = Some st" "st_stage st \<noteq> Finished" for i st
  proof (cases "i \<in> set admitted")
    case False
    then show ?thesis using st ad quiet by (auto simp: admits_def)
  next
    case True
    then obtain r where "r \<in> set (waiting_prefill s1)" "i = request_id r" using admitted set_take_subset by fastforce
    then obtain st1 where st1: "map_of (states s1) i = Some st1" "st_stage st1 = WaitingPrefill"
      using core_invD(10) [OF inv1 [unfolded sched_inv_def]] by (auto simp: queued_def)
    then have "\<not> overdue t st1" using quiet by auto
    then show ?thesis using st1 ad st(1) by (fastforce simp: admits_def overdue_def)
  qed
  show ?thesis
  proof (intro allI impI)
    fix i st
    assume st: "map_of (states s3) i = Some st" "st_stage st \<noteq> Finished"
    show "\<not> overdue t st"
    proof (cases "i \<in> set (decoding s2)")
      case False
      then show ?thesis using same st two by auto
    next
      case True
      obtain st2 where st2: "map_of (states s2) i = Some st2" "st_stage st2 = Decoding"
        using core_inv_decoding [OF inv2 [unfolded sched_inv_def] True] by blast
      then have "stepped st2 st" using step True st(1) by auto
      then show ?thesis using two [OF st2(1)] st2(2) by (simp add: stepped_def overdue_def)
    qed
  qed
qed

lemma tick_steps:
  assumes t: "shrinks (s\<lparr>tick_count := tick_count s + 1\<rparr>) s1 keep"
    and only: "\<forall>i st. \<not> keep i \<longrightarrow> map_of (states s) i = Some st \<longrightarrow> overdue t st"
    and dec: "decoding s2 = decoding s1 @ map request_id (take k (waiting_prefill s1))"
    and inv2: "sched_inv s2" and ad: "admits (set admitted) (states s1) (states s2)"
    and admitted: "admitted = map request_id (take k (waiting_prefill s1))"
    and step: "\<forall>j st. j \<in> set (decoding s2) \<longrightarrow> map_of (states s2) j = Some st \<longrightarrow>
         (\<exists>st'. map_of (states s3) j = Some st' \<and> stepped st st')"
  shows "\<forall>i st. i \<in> set (decoding s) \<longrightarrow> map_of (states s) i = Some st \<longrightarrow> \<not> overdue t st \<longrightarrow>
     (\<exists>st'. map_of (states s3) i = Some st' \<and> stepped st st')"
proof (intro allI impI)
  fix i st
  assume i: "i \<in> set (decoding s)" "map_of (states s) i = Some st" "\<not> overdue t st"
  then have "keep i" using only by blast
  then have d1: "i \<in> set (decoding s1)" "map_of (states s1) i = Some st" using shrinksD(5,8) [OF t] i by auto
  have "distinct (decoding s2)" using core_invD(4) [OF inv2 [unfolded sched_inv_def]] .
  then have "i \<notin> set admitted" using d1(1) dec admitted by auto
  then have "map_of (states s2) i = Some st" using ad d1(2) by (simp add: admits_def)
  then show "\<exists>st'. map_of (states s3) i = Some st' \<and> stepped st st'" using step d1(1) dec by simp
qed

text \<open>A whole tick with the default executor.\<close>

lemma tick_default:
  assumes inv: "sched_inv s"
  shows "case tick None default_decode s of
      (Inl e, s') \<Rightarrow> sched_inv s' \<and> (\<exists>r \<in> set (waiting_prefill s).
        \<not> kv_fits (kv_alloc s) (request_context_tokens r) (request_beam_slots r))
    | (Inr res, s') \<Rightarrow> sched_inv s' \<and> kv_fits (kv_alloc s') = kv_fits (kv_alloc s)
        \<and> set (waiting_prefill s') \<subseteq> set (waiting_prefill s)
        \<and> (work s \<noteq> 0 \<longrightarrow> work s' < work s) \<and> tick_count s' = tick_count s + 1 \<and> policy s' = policy s
        \<and> (tracked s \<longrightarrow> tracked s')
        \<and> (\<forall>i st. map_of (states s') i = Some st \<longrightarrow> st_stage st \<noteq> Finished \<longrightarrow> \<not> overdue (tick_count s') st)
        \<and> (\<forall>i st. i \<in> set (decoding s) \<longrightarrow> map_of (states s) i = Some st \<longrightarrow> \<not> overdue (tick_count s + 1) st \<longrightarrow>
             (\<exists>st'. map_of (states s') i = Some st' \<and> stepped st st'))"
proof -
  let ?s0 = "s\<lparr>tick_count := tick_count s + 1\<rparr>"
  obtain ids s1 keep where t: "fail_timed_out_requests ?s0 = (Inr ids, s1)" "shrinks ?s0 s1 keep"
    "\<forall>i st. map_of (states s1) i = Some st \<longrightarrow> st_stage st \<noteq> Finished \<longrightarrow> \<not> overdue (tick_count s + 1) st"
    "\<forall>i st. \<not> keep i \<longrightarrow> map_of (states s) i = Some st \<longrightarrow> overdue (tick_count s + 1) st"
    using timeouts_spec [OF sched_inv_later [OF inv]] by auto
  note S = shrinksD [OF t(2)]
  have w1: "work s1 \<le> work s" using shrinks_work [OF t(2)] by simp
  obtain res s2 where a: "admit_prefill_batch s1 = (res, s2)" by (cases "admit_prefill_batch s1")
  note ad = admit_prefill_batch_spec [OF S(1), unfolded a]
  show ?thesis
  proof (cases res)
    case (Inl e)
    then have h: "sched_inv s2" "decoding s1 = []" "waiting_prefill s1 \<noteq> []" "can_allocate_kv (hd (waiting_prefill s1)) s1 = Inr False"
      using ad by simp_all
    let ?r = "hd (waiting_prefill s1)"
    have r: "?r \<in> set (waiting_prefill s1)" using h(3) by simp
    have core1: "kv_inv (kv_alloc s1)" "kv_leases (kv_alloc s1) = []"
      using core_invD(1,3) [OF S(1) [unfolded sched_inv_def]] h(2) by auto
    have "\<not> kv_fits (kv_alloc s1) (request_context_tokens ?r) (request_beam_slots ?r)"
      using kv.can_empty [OF core1(1) request_context_tokens_nonneg [of ?r] request_beam_slots_nonneg [OF waiting_pos [OF S(1) r]] core1(2), of "request_id ?r"] h(4)
      by (simp add: can_allocate_kv_def)
    moreover have "?r \<in> set (waiting_prefill s)" using r S(4) by auto
    ultimately show ?thesis using t(1) a Inl h(1) S(7) by (auto simp: tick_def)
  next
    case (Inr admitted)
    then obtain k where k: "waiting_prefill s2 = drop k (waiting_prefill s1)" "decoding s2 = decoding s1 @ map request_id (take k (waiting_prefill s1))"
      "sched_inv s2" "work s2 = work s1" "waiting_prefill s1 \<noteq> [] \<longrightarrow> decoding s1 = [] \<longrightarrow> 0 < k"
      "kv_fits (kv_alloc s2) = kv_fits (kv_alloc s1)" "admits (set admitted) (states s1) (states s2)"
      "admitted = map request_id (take k (waiting_prefill s1))" "tick_count s2 = tick_count s1" "policy s2 = policy s1"
      using ad by auto
    obtain result s3 where d: "tick_decode default_decode ids admitted s2 = (Inr result, s3)" "sched_inv s3"
      "waiting_prefill s3 = waiting_prefill s2" "kv_fits (kv_alloc s3) = kv_fits (kv_alloc s2)"
      "work s2 = work s3 + length (decoding s2)" "policy s3 = policy s2" "tick_count s3 = tick_count s2"
      "\<forall>j. j \<notin> set (decoding s2) \<longrightarrow> map_of (states s3) j = map_of (states s2) j"
      "\<forall>j st. j \<in> set (decoding s2) \<longrightarrow> map_of (states s2) j = Some st \<longrightarrow>
         (\<exists>st'. map_of (states s3) j = Some st' \<and> stepped st st')"
      using tick_decode_default [OF k(3)] by blast
    have "work s3 < work s" if "work s \<noteq> 0"
    proof (cases "waiting_prefill s1 = [] \<and> decoding s1 = []")
      case True
      then have "work s1 = 0" using work_zero [OF S(1)] by simp
      then show ?thesis using that k(4) d(5) by simp
    next
      case False
      then have "0 < length (decoding s2)" using k(2,5) by auto
      then show ?thesis using w1 k(4) d(5) by linarith
    qed
    moreover have "set (waiting_prefill s3) \<subseteq> set (waiting_prefill s)"
      using d(3) k(1) S(4) set_drop_subset [of k "waiting_prefill s1"] by auto
    moreover note tick_tracked [OF inv t(2) k(1,2,3,7,8) d(2,3,8,9)]
      tick_timeouts [OF t(3) S(1) k(3,7,8) d(8,9)] tick_steps [OF t(2,4) k(2,3,7,8) d(9)]
    ultimately show ?thesis using t(1) a Inr d(1,2,4,6,7) k(6,9,10) S(2,3,7) by (simp add: tick_def)
  qed
qed


section \<open>Reachable states\<close>

text \<open>The states a scheduler can be in: from construction over an allocator without leases, by any
  sequence of client calls and of ticks with executors that keep their contract. An executor may also
  drop the prompt of a finished request and add to the metadata of the responses.\<close>

inductive reachable :: "sched \<Rightarrow> bool" where
  construct: "mk_batching_policy a b c d e f = Inr pol \<Longrightarrow> mk_scheduler pol alloc n = Inr s \<Longrightarrow>
     (\<forall>al. alloc = Some al \<longrightarrow> kv_inv al \<and> kv_leases al = []) \<Longrightarrow> reachable s"
| submit: "reachable s \<Longrightarrow> constructed_policy r \<Longrightarrow> reachable (snd (submit r s))"
| cancel: "reachable s \<Longrightarrow> reachable (snd (cancel rid reason s))"
| fail: "reachable s \<Longrightarrow> reachable (snd (fail rid reason err s))"
| fail_unfinished: "reachable s \<Longrightarrow> reachable (snd (fail_unfinished reason err s))"
| tick: "reachable s \<Longrightarrow> tick_executors prefill decode \<Longrightarrow> reachable (snd (tick prefill decode s))"
| drop_prompt: "reachable s \<Longrightarrow> map_of (states s) i = Some st \<Longrightarrow> st_stage st = Finished \<Longrightarrow>
     reachable (set_state i (st\<lparr>st_request := (st_request st)\<lparr>req_input_ids := IdsNone\<rparr>\<rparr>) s)"
| annotate: "reachable s \<Longrightarrow> dict_keys d = dict_keys (finished s) \<Longrightarrow> reachable (s\<lparr>finished := d\<rparr>)"

lemma fresh_lease_allocator: "mk_lease_allocator nr ctx beams = Inr a \<Longrightarrow> kv_inv (LeaseAllocator a) \<and> kv_leases (LeaseAllocator a) = []"
  by (auto simp: mk_lease_allocator_def lease_inv_def lease_defs lease_validate_def Let_def within_limit_def split: if_splits option.splits)

lemma construct_inv:
  assumes "mk_batching_policy a b c d e f = Inr pol" and "mk_scheduler pol alloc n = Inr s"
    and "\<forall>al. alloc = Some al \<longrightarrow> kv_inv al \<and> kv_leases al = []"
  shows "sched_inv s"
proof -
  have "0 < max_prefill_batch_size pol" "0 < max_decode_batch_size pol"
    using assms(1) by (auto simp: mk_batching_policy_def Let_def split: if_splits)
  moreover have "kv_inv (kv_alloc s) \<and> kv_leases (kv_alloc s) = []"
    using assms(2,3) fresh_lease_allocator
    by (cases alloc) (auto simp: mk_scheduler_def memory_budget_allocator_def)
  ultimately show ?thesis
    using assms(2) by (auto simp: mk_scheduler_def sched_inv_def core_inv_def split: option.splits)
qed

lemma core_drop_prompt:
  assumes inv: "core_inv pol q dec sts al t" and st: "map_of sts i = Some st" and fin: "st_stage st = Finished"
  shows "core_inv pol q dec (dict_set i (st\<lparr>st_request := (st_request st)\<lparr>req_input_ids := ids\<rparr>\<rparr>) sts) al t"
proof -
  note D = core_invD [OF inv]
  let ?st = "st\<lparr>st_request := (st_request st)\<lparr>req_input_ids := ids\<rparr>\<rparr>"
  have ok: "state_ok dec al t i st" by (rule D(9) [OF st])
  then have "i \<notin> set dec" using fin by (simp add: state_ok_def)
  then have "map_of (kv_leases al) i = None" using D(3) map_of_None_iff_keys by metis
  moreover have "request_ok ?st" using ok fin by (simp add: state_ok_def request_ok_def)
  ultimately have "state_ok dec al t i ?st" using ok fin by (simp add: state_ok_def)
  then have "state_ok dec al t j stj" if "map_of (dict_set i ?st sts) j = Some stj" for j stj
    using that D(9) [of j stj] by (cases "j = i") (auto simp: dict_lookup)
  moreover have "queued (dict_set i ?st sts) x" if "x \<in> set q" for x
    using D(10) [OF that] st fin by (auto simp: queued_def dict_lookup)
  moreover have "set dec \<subseteq> set (dict_keys (dict_set i ?st sts))"
    using D(5) unfolding dict_set_keys_set by auto
  ultimately show ?thesis
    using D(1,2,3,6,7,8) unfolding core_inv_def by (simp add: wf_dict_set)
qed

lemma drop_prompt_inv:
  "sched_inv s \<Longrightarrow> map_of (states s) i = Some st \<Longrightarrow> st_stage st = Finished \<Longrightarrow>
     sched_inv (set_state i (st\<lparr>st_request := (st_request st)\<lparr>req_input_ids := IdsNone\<rparr>\<rparr>) s)"
  using core_drop_prompt by (simp add: sched_inv_def)

lemma reachable_inv: "reachable s \<Longrightarrow> sched_inv s"
proof (induction rule: reachable.induct)
  case (construct a b c d e f pol alloc n s)
  then show ?case by (rule construct_inv)
next
  case (tick s prefill decode)
  then show ?case by (blast intro: tick_executors.tick_inv)
next
  case (annotate s d)
  then show ?case by (simp add: sched_inv_def)
qed (blast intro: submit_inv cancel_inv fail_inv fail_unfinished_inv drop_prompt_inv)+

section \<open>The run\<close>

lemma run_loop_ends:
  assumes "sched_inv s" and "work s < fuel"
  shows "\<exists>r s'. run_loop fuel ticks None tu s = Some (r, s') \<and> sched_inv s'
    \<and> (case r of Inr _ \<Rightarrow> waiting_prefill s' = [] \<and> decoding s' = [] \<and> (tracked s \<longrightarrow> tracked s')
        | Inl e \<Rightarrow> \<exists>q \<in> set (waiting_prefill s).
            \<not> kv_fits (kv_alloc s) (request_context_tokens q) (request_beam_slots q))"
  using assms
proof (induction fuel arbitrary: s ticks)
  case 0
  then show ?case by simp
next
  case (Suc fuel)
  show ?case
  proof (cases "waiting_prefill s = [] \<and> decoding s = []")
    case True
    then show ?thesis using Suc.prems by simp
  next
    case False
    then have w: "work s \<noteq> 0" using work_zero [OF Suc.prems(1)] by simp
    obtain res s1 where t: "tick None default_decode s = (res, s1)" by (cases "tick None default_decode s")
    note T = tick_default [OF Suc.prems(1), unfolded t]
    show ?thesis
    proof (cases res)
      case (Inl e)
      then show ?thesis using T t False by auto
    next
      case (Inr result)
      then have T': "sched_inv s1" "kv_fits (kv_alloc s1) = kv_fits (kv_alloc s)" "set (waiting_prefill s1) \<subseteq> set (waiting_prefill s)"
        "work s1 < work s" "tracked s \<longrightarrow> tracked s1" using T w by auto
      then have "work s1 < fuel" using Suc.prems(2) by simp
      then obtain r s' where "run_loop fuel (ticks + 1) None tu s1 = Some (r, s')" "sched_inv s'"
        "case r of Inr _ \<Rightarrow> waiting_prefill s' = [] \<and> decoding s' = [] \<and> (tracked s1 \<longrightarrow> tracked s')
          | Inl e \<Rightarrow> \<exists>q \<in> set (waiting_prefill s1). \<not> kv_fits (kv_alloc s1) (request_context_tokens q) (request_beam_slots q)"
        using Suc.IH [OF T'(1)] by blast
      moreover have "run_loop (Suc fuel) ticks None tu s = run_loop fuel (ticks + 1) None tu s1"
        using False t Inr by auto
      ultimately show ?thesis using T'(2,3,5) by (auto split: sum.splits)
    qed
  qed
qed

text \<open>A run whose queued requests fit on their own empties the scheduler.\<close>

lemma run_until_empty_drains:
  assumes "sched_inv s" and "tracked s" and "work s < fuel"
    and "\<And>r. r \<in> set (waiting_prefill s) \<Longrightarrow> kv_fits (kv_alloc s) (request_context_tokens r) (request_beam_slots r)"
  shows "\<exists>resps s'. run_until_empty fuel None timeout_unfinished s = Some (Inr resps, s')
    \<and> waiting_prefill s' = [] \<and> decoding s' = [] \<and> kv_leases (kv_alloc s') = []
    \<and> (\<forall>(i, st) \<in> set (states s'). st_stage st = Finished)"
proof -
  obtain r s' where run: "run_loop fuel 0 None timeout_unfinished s = Some (r, s')" "sched_inv s'"
    and r: "case r of Inr _ \<Rightarrow> waiting_prefill s' = [] \<and> decoding s' = [] \<and> (tracked s \<longrightarrow> tracked s')
        | Inl e \<Rightarrow> \<exists>q \<in> set (waiting_prefill s).
            \<not> kv_fits (kv_alloc s) (request_context_tokens q) (request_beam_slots q)"
    using run_loop_ends [OF assms(1,3)] by blast
  have ok: "r = Inr ()" using r assms(4) by (cases r) auto
  then have e: "waiting_prefill s' = []" "decoding s' = []" "tracked s'" using r assms(2) by simp_all
  note D = core_invD [OF run(2) [unfolded sched_inv_def]]
  have "st_stage st = Finished" if st: "(i, st) \<in> set (states s')" for i st
  proof -
    have "state_ok (decoding s') (kv_alloc s') (tick_count s') i st" using st D(2,9) by simp
    then have "st_stage st \<noteq> Decoding" using e(2) by (simp add: state_ok_def)
    moreover have "st_stage st \<noteq> WaitingPrefill" using e(1,3) st by (auto simp: tracked_def)
    ultimately show ?thesis by (cases "st_stage st") auto
  qed
  moreover have "kv_leases (kv_alloc s') = []" using D(3) e(2) by simp
  moreover have "run_until_empty fuel None timeout_unfinished s = Some (Inr (dict_values (finished s')), s')"
    using run(1) ok by (simp add: run_until_empty_def)
  ultimately show ?thesis using e by auto
qed

end
