(* ===== verification/GR_Prefix_Cache.thy ===== *)
theory GR_Prefix_Cache
  imports GR_Prelude
begin

text \<open>
  The prompt prefix cache, \<open>GRPromptPrefixCache\<close> of \<open>gr_serving/prefix_cache.py\<close>: an ordered dictionary
  of cached prefills (least recently used first) and a radix tree over their page-aligned tokens. The
  cached prefill is a type parameter. The fields \<open>last_access_time\<close> and \<open>lock_ref\<close> of a tree node are
  written and never read; they are left out.
\<close>

section \<open>Namespaces and tokens\<close>

text \<open>An \<open>extra_key\<close> as the client gives it. Any value that is neither a scalar nor a tuple is kept
  with the text \<open>json.dumps\<close> (or \<open>repr\<close>) makes of it. Floats are finite.\<close>

datatype extra_key =
    EKNone
  | EKStr string
  | EKInt int
  | EKFloat rat
  | EKBool bool
  | EKBytes "nat list"
  | EKTuple "extra_key list"
  | EKOther string

text \<open>The namespace it stands for in dictionary keys: Python compares \<open>1\<close>, \<open>1.0\<close> and \<open>True\<close> as equal.\<close>

datatype ns_key = NSNone | NSStr string | NSNum rat | NSBytes "nat list" | NSTuple "ns_key list"

fun normalize_extra_key :: "extra_key \<Rightarrow> ns_key" where
  "normalize_extra_key EKNone = NSNone"
| "normalize_extra_key (EKStr t) = NSStr t"
| "normalize_extra_key (EKInt n) = NSNum (of_int n)"
| "normalize_extra_key (EKFloat x) = NSNum x"
| "normalize_extra_key (EKBool b) = NSNum (if b then 1 else 0)"
| "normalize_extra_key (EKBytes bs) = NSBytes bs"
| "normalize_extra_key (EKTuple ks) = NSTuple (map normalize_extra_key ks)"
| "normalize_extra_key (EKOther text) = NSStr text"

text \<open>Input ids after \<open>tolist\<close>: one number, a flat list, or a list of rows.\<close>

datatype ids_value = IdsScalar int | IdsFlat "int list" | IdsRows "int list list"

fun input_ids_to_token_tuple :: "ids_value \<Rightarrow> int list py_result" where
  "input_ids_to_token_tuple (IdsScalar n) = Inr [n]"
| "input_ids_to_token_tuple (IdsFlat ns) = Inr ns"
| "input_ids_to_token_tuple (IdsRows rows) =
     (case rows of
        [] \<Rightarrow> Inr []
      | row # rest \<Rightarrow>
          if rest \<noteq> [] then Inl (ValueError ''prefix cache expects one request per cached prefill entry'')
          else Inr row)"

definition page_aligned_tokens :: "int list \<Rightarrow> int \<Rightarrow> int list" where
  "page_aligned_tokens tokens page =
     (if page \<le> 1 then tokens else take (nat (int (length tokens) div page * page)) tokens)"

text \<open>The key of a child: the namespace, which only the children of the root have, and the first token
  or page. Python leaves a namespace \<open>None\<close> out of the key.\<close>

type_synonym child_key = "ns_key \<times> int list"

definition child_lookup_key :: "int list \<Rightarrow> ns_key \<Rightarrow> int \<Rightarrow> child_key" where
  "child_lookup_key rest extra page = (extra, take (if page \<le> 1 then 1 else nat page) rest)"

fun common_len :: "int list \<Rightarrow> int list \<Rightarrow> nat" where
  "common_len (x # xs) (y # ys) = (if x = y then Suc (common_len xs ys) else 0)"
| "common_len _ _ = 0"

definition common_prefix_len :: "int list \<Rightarrow> int list \<Rightarrow> int \<Rightarrow> nat" where
  "common_prefix_len rest segment page =
     (let common = common_len rest segment
      in if page > 1 then nat (int common div page * page) else common)"

section \<open>Entries and the radix tree\<close>

record 'p prefix_entry =
  entry_key :: "ns_key \<times> int list"
  entry_extra :: ns_key
  entry_tokens :: "int list"
  entry_tree_tokens :: "int list"
  entry_prefill :: 'p

datatype 'p prefix_node =
  PrefixNode (node_key: "int list") (node_children: "(child_key \<times> 'p prefix_node) list")
    (node_source: "'p prefix_entry option")

definition empty_prefix_node :: "'p prefix_node" where
  "empty_prefix_node = PrefixNode [] [] None"

definition leaf_node :: "int list \<Rightarrow> 'p prefix_entry \<Rightarrow> 'p prefix_node" where
  "leaf_node key e = PrefixNode key [] (Some e)"

text \<open>The branch of \<open>_insert_entry\<close> that splits a child after \<open>common\<close> tokens.\<close>

definition split_child ::
  "int \<Rightarrow> 'p prefix_entry \<Rightarrow> int list \<Rightarrow> nat \<Rightarrow> 'p prefix_node \<Rightarrow> 'p prefix_node" where
  "split_child page e rest common child =
     (let lower = PrefixNode (drop common (node_key child)) (node_children child) (node_source child);
          children = [(child_lookup_key (node_key lower) NSNone page, lower)]
      in if drop common rest = []
         then PrefixNode (take common (node_key child)) children (Some e)
         else PrefixNode (take common (node_key child))
                (dict_set (child_lookup_key (drop common rest) NSNone page) (leaf_node (drop common rest) e) children)
                (node_source child))"

lemma map_of_child_size:
  "map_of d k = Some c \<Longrightarrow> size c < Suc (size_list (size_prod (\<lambda>_. 0) size) d + n)"
  by (induction d) (auto split: if_splits)

text \<open>The loop of \<open>_insert_entry\<close>, going down the tree; \<open>rest\<close> is \<open>tokens[position:]\<close>.\<close>

function insert_at :: "int \<Rightarrow> 'p prefix_entry \<Rightarrow> ns_key \<Rightarrow> int list \<Rightarrow> 'p prefix_node \<Rightarrow> 'p prefix_node py_result" where
  "insert_at page e extra rest (PrefixNode key children src) =
     (if rest = [] then Inr (PrefixNode key children (Some e))
      else
        let k = child_lookup_key rest extra page
        in case map_of children k of
             None \<Rightarrow> Inr (PrefixNode key (dict_set k (leaf_node rest e) children) src)
           | Some child \<Rightarrow>
               let common = common_prefix_len rest (node_key child) page
               in if common = length (node_key child)
                  then bind_res (insert_at page e NSNone (drop common rest) child) (\<lambda>child'.
                         Inr (PrefixNode key (dict_set k child' children) src))
                  else if common = 0 then Inl (RuntimeError ''prefix cache radix child key collision'')
                  else Inr (PrefixNode key (dict_set k (split_child page e rest common child) children) src))"
  by pat_completeness auto
termination
  by (relation "measure (\<lambda>(_, _, _, _, n). size n)") (auto dest: map_of_child_size)

text \<open>The loop of \<open>match\<close>; \<open>best\<close> is the best entry so far and its length.\<close>

function walk ::
  "int \<Rightarrow> ns_key \<Rightarrow> int list \<Rightarrow> nat \<Rightarrow> ('p prefix_entry \<times> nat) option \<Rightarrow> 'p prefix_node \<Rightarrow> ('p prefix_entry \<times> nat) option" where
  "walk page extra rest position best (PrefixNode key children src) =
     (if rest = [] then best
      else case map_of children (child_lookup_key rest extra page) of
             None \<Rightarrow> best
           | Some child \<Rightarrow>
               let common = common_prefix_len rest (node_key child) page
               in if common = 0 then best
                  else
                    let best' = (case node_source child of None \<Rightarrow> best | Some e \<Rightarrow> Some (e, position + common))
                    in if common < length (node_key child) then best'
                       else walk page NSNone (drop common rest) (position + common) best' child)"
  by pat_completeness auto
termination
  by (relation "measure (\<lambda>(_, _, _, _, _, n). size n)") (auto dest: map_of_child_size)

fun count_nodes :: "'p prefix_node \<Rightarrow> int" where
  "count_nodes (PrefixNode key children src) = 1 + sum_list (map (\<lambda>c. count_nodes (snd c)) children)"

section \<open>The cache\<close>

record 'p prefix_cache =
  cache_max_entries :: "int option"
  cache_max_tokens :: "int option"
  page_size :: int
  cache_entries :: "(ns_key \<times> int list, 'p prefix_entry) dict"
  cache_root :: "'p prefix_node"
  insertions :: int
  evictions :: int
  evicted_tokens :: int
  skipped_insertions :: int
  rebuilds :: int
  total_tokens :: int
  total_tree_tokens :: int

definition check_cache_limits :: "int option \<Rightarrow> int option \<Rightarrow> int \<Rightarrow> unit py_result" where
  "check_cache_limits entries tokens page =
     (if (case entries of None \<Rightarrow> False | Some n \<Rightarrow> n < 0) then Inl (ValueError ''max_entries must be non-negative or None'')
      else if (case tokens of None \<Rightarrow> False | Some n \<Rightarrow> n < 0) then Inl (ValueError ''max_tokens must be non-negative or None'')
      else if page \<le> 0 then Inl (ValueError ''page_size must be positive'')
      else Inr ())"

definition mk_prefix_cache :: "int option \<Rightarrow> int option \<Rightarrow> int \<Rightarrow> 'p prefix_cache py_result" where
  "mk_prefix_cache entries tokens page =
     bind_res (check_cache_limits entries tokens page) (\<lambda>_.
       Inr \<lparr>cache_max_entries = entries, cache_max_tokens = tokens, page_size = page, cache_entries = [],
            cache_root = empty_prefix_node, insertions = 0, evictions = 0, evicted_tokens = 0, skipped_insertions = 0,
            rebuilds = 0, total_tokens = 0, total_tree_tokens = 0\<rparr>)"

definition cache_clear :: "'p prefix_cache \<Rightarrow> 'p prefix_cache" where
  "cache_clear c = c\<lparr>cache_entries := [], cache_root := empty_prefix_node, total_tokens := 0, total_tree_tokens := 0,
     rebuilds := rebuilds c + 1\<rparr>"

definition subtract_entry :: "'p prefix_entry \<Rightarrow> 'p prefix_cache \<Rightarrow> 'p prefix_cache" where
  "subtract_entry e c = c\<lparr>total_tokens := total_tokens c - int (length (entry_tokens e)),
     total_tree_tokens := total_tree_tokens c - int (length (entry_tree_tokens e)),
     evicted_tokens := evicted_tokens c + int (length (entry_tokens e)), evictions := evictions c + 1\<rparr>"

text \<open>The two loops of \<open>_enforce_capacity\<close>; \<open>popitem\<close> of an empty dictionary raises. The counter tells
  whether anything was evicted.\<close>

fun evict_over_entries ::
  "(ns_key \<times> int list, 'p prefix_entry) dict \<Rightarrow> 'p prefix_cache \<Rightarrow> 'p prefix_cache py_result" where
  "evict_over_entries [] c =
     (case cache_max_entries c of
        Some m \<Rightarrow> if 0 > m then Inl (KeyError ''dictionary is empty'') else Inr (c\<lparr>cache_entries := []\<rparr>)
      | None \<Rightarrow> Inr (c\<lparr>cache_entries := []\<rparr>))"
| "evict_over_entries ((k, e) # d) c =
     (case cache_max_entries c of
        Some m \<Rightarrow> if int (length ((k, e) # d)) > m then evict_over_entries d (subtract_entry e c)
                   else Inr (c\<lparr>cache_entries := (k, e) # d\<rparr>)
      | None \<Rightarrow> Inr (c\<lparr>cache_entries := (k, e) # d\<rparr>))"

fun evict_over_tokens ::
  "(ns_key \<times> int list, 'p prefix_entry) dict \<Rightarrow> 'p prefix_cache \<Rightarrow> 'p prefix_cache py_result" where
  "evict_over_tokens [] c =
     (case cache_max_tokens c of
        Some m \<Rightarrow> if total_tokens c > m then Inl (KeyError ''dictionary is empty'') else Inr (c\<lparr>cache_entries := []\<rparr>)
      | None \<Rightarrow> Inr (c\<lparr>cache_entries := []\<rparr>))"
| "evict_over_tokens ((k, e) # d) c =
     (case cache_max_tokens c of
        Some m \<Rightarrow> if total_tokens c > m then evict_over_tokens d (subtract_entry e c)
                   else Inr (c\<lparr>cache_entries := (k, e) # d\<rparr>)
      | None \<Rightarrow> Inr (c\<lparr>cache_entries := (k, e) # d\<rparr>))"

definition enforce_capacity :: "'p prefix_cache \<Rightarrow> (bool \<times> 'p prefix_cache) py_result" where
  "enforce_capacity c =
     bind_res (evict_over_entries (cache_entries c) c) (\<lambda>c1.
     bind_res (evict_over_tokens (cache_entries c1) c1) (\<lambda>c2.
       Inr (evictions c2 \<noteq> evictions c, c2)))"

definition realign_entry :: "int \<Rightarrow> 'p prefix_entry \<Rightarrow> 'p prefix_entry" where
  "realign_entry page e = e\<lparr>entry_tree_tokens := page_aligned_tokens (entry_tokens e) page\<rparr>"

definition recompute_tree_tokens :: "'p prefix_cache \<Rightarrow> 'p prefix_cache" where
  "recompute_tree_tokens c =
     (let d = map (\<lambda>(k, e). (k, (realign_entry (page_size c) e)\<lparr>entry_key := k\<rparr>)) (cache_entries c)
      in c\<lparr>cache_entries := d, total_tree_tokens := dict_sum (\<lambda>e. int (length (entry_tree_tokens e))) d\<rparr>)"

fun build_tree :: "int \<Rightarrow> 'p prefix_entry list \<Rightarrow> 'p prefix_node \<Rightarrow> 'p prefix_node py_result" where
  "build_tree page [] tree = Inr tree"
| "build_tree page (e # es) tree =
     (if entry_tree_tokens e \<noteq> []
      then bind_res (insert_at page e (entry_extra e) (entry_tree_tokens e) tree) (build_tree page es)
      else build_tree page es tree)"

definition rebuild_tree :: "'p prefix_cache \<Rightarrow> 'p prefix_cache py_result" where
  "rebuild_tree c =
     bind_res (build_tree (page_size c) (dict_values (cache_entries c)) empty_prefix_node) (\<lambda>tree.
       Inr (c\<lparr>cache_root := tree, rebuilds := rebuilds c + 1\<rparr>))"

definition cache_configure :: "int option \<Rightarrow> int option \<Rightarrow> int \<Rightarrow> 'p prefix_cache \<Rightarrow> 'p prefix_cache py_result" where
  "cache_configure entries tokens page c =
     bind_res (check_cache_limits entries tokens page) (\<lambda>_.
       let c1 = c\<lparr>cache_max_entries := entries, cache_max_tokens := tokens, page_size := page\<rparr>
       in if page \<noteq> page_size c then rebuild_tree (recompute_tree_tokens c1)
          else bind_res (enforce_capacity c1) (\<lambda>(evicted, c2). if evicted then rebuild_tree c2 else Inr c2))"

definition set_max_entries :: "int option \<Rightarrow> 'p prefix_cache \<Rightarrow> 'p prefix_cache py_result" where
  "set_max_entries entries c = cache_configure entries (cache_max_tokens c) (page_size c) c"

definition cache_insert ::
  "ids_value \<Rightarrow> 'p \<Rightarrow> extra_key \<Rightarrow> 'p prefix_cache \<Rightarrow> (bool \<times> 'p prefix_cache) py_result" where
  "cache_insert input_ids prefill extra c =
     (if cache_max_entries c = Some 0 \<or> cache_max_tokens c = Some 0
      then Inr (False, c\<lparr>skipped_insertions := skipped_insertions c + 1\<rparr>)
      else bind_res (input_ids_to_token_tuple input_ids) (\<lambda>tokens.
        if tokens = [] \<or> (case cache_max_tokens c of None \<Rightarrow> False | Some m \<Rightarrow> int (length tokens) > m)
        then Inr (False, c\<lparr>skipped_insertions := skipped_insertions c + 1\<rparr>)
        else
          let ns = normalize_extra_key extra; key = (ns, tokens);
              prev_tokens = (case map_of (cache_entries c) key of None \<Rightarrow> 0 | Some e \<Rightarrow> int (length (entry_tokens e)));
              prev_tree = (case map_of (cache_entries c) key of None \<Rightarrow> 0 | Some e \<Rightarrow> int (length (entry_tree_tokens e)));
              e = \<lparr>entry_key = key, entry_extra = ns, entry_tokens = tokens,
                   entry_tree_tokens = page_aligned_tokens tokens (page_size c), entry_prefill = prefill\<rparr>;
              c1 = c\<lparr>cache_entries := move_to_end key (dict_set key e (cache_entries c)),
                     total_tokens := total_tokens c - prev_tokens + int (length tokens),
                     total_tree_tokens := total_tree_tokens c - prev_tree + int (length (entry_tree_tokens e)),
                     insertions := insertions c + 1\<rparr>
          in bind_res (enforce_capacity c1) (\<lambda>(_, c2).
             bind_res (rebuild_tree c2) (\<lambda>c3. Inr (True, c3)))))"

record 'p prefix_match =
  match_len :: nat
  match_prefill :: 'p
  match_exact :: bool
  match_source_token_count :: nat

definition cache_match ::
  "ids_value \<Rightarrow> extra_key \<Rightarrow> 'p prefix_cache \<Rightarrow> ('p prefix_match option \<times> 'p prefix_cache) py_result" where
  "cache_match input_ids extra c =
     bind_res (input_ids_to_token_tuple input_ids) (\<lambda>tokens.
       if tokens = [] \<or> cache_entries c = [] then Inr (None, c)
       else
         let ns = normalize_extra_key extra
         in case map_of (cache_entries c) (ns, tokens) of
              Some e \<Rightarrow>
                Inr (Some \<lparr>match_len = length tokens, match_prefill = entry_prefill e, match_exact = True,
                           match_source_token_count = length tokens\<rparr>,
                     c\<lparr>cache_entries := move_to_end (entry_key e) (cache_entries c)\<rparr>)
            | None \<Rightarrow>
                let tree_tokens = page_aligned_tokens tokens (page_size c)
                in if tree_tokens = [] then Inr (None, c)
                   else case walk (page_size c) ns tree_tokens 0 None (cache_root c) of
                          None \<Rightarrow> Inr (None, c)
                        | Some (e, n) \<Rightarrow>
                            if n = 0 then Inr (None, c)
                            else Inr (Some \<lparr>match_len = n, match_prefill = entry_prefill e, match_exact = False,
                                            match_source_token_count = length (entry_tokens e)\<rparr>,
                                      c\<lparr>cache_entries := move_to_end (entry_key e) (cache_entries c)\<rparr>))"

definition cache_status :: "'p prefix_cache \<Rightarrow> (string, int option) dict" where
  "cache_status c =
     [(''entries'', Some (int (length (cache_entries c)))), (''max_entries'', cache_max_entries c),
      (''max_tokens'', cache_max_tokens c), (''page_size'', Some (page_size c)), (''insertions'', Some (insertions c)),
      (''evictions'', Some (evictions c)), (''evicted_tokens'', Some (evicted_tokens c)),
      (''skipped_insertions'', Some (skipped_insertions c)), (''rebuilds'', Some (rebuilds c)),
      (''nodes'', Some (count_nodes (cache_root c))), (''tokens'', Some (total_tokens c)),
      (''tree_tokens'', Some (total_tree_tokens c))]"

end
