(* ===== verification/GR_Prefix_Match.thy ===== *)
theory GR_Prefix_Match
  imports GR_Prefix_Cache "HOL-Library.Sublist"
begin

text \<open>
  The radix tree of the prefix cache implements longest-prefix lookup. \<open>walk_len\<close> is the length the
  walk of \<open>match\<close> reaches; inserting an entry turns it into the maximum of its old value and the
  page-aligned common prefix with the new entry. So a tree built from a list of entries answers with
  \<open>longest_match\<close>, which looks at every entry, and the entry it returns has the prefix it claims.
\<close>

section \<open>Page-aligned common prefixes\<close>

lemma common_len_le: "common_len xs ys \<le> length xs" "common_len xs ys \<le> length ys"
  by (induction xs ys rule: common_len.induct) auto

lemma common_len_ge:
  "n \<le> length xs \<Longrightarrow> n \<le> length ys \<Longrightarrow> n \<le> common_len xs ys \<longleftrightarrow> take n xs = take n ys"
proof (induction xs ys arbitrary: n rule: common_len.induct)
  case (1 x xs y ys)
  then show ?case by (cases n) auto
qed auto

lemma common_len_append [simp]: "common_len (p @ xs) (p @ ys) = length p + common_len xs ys"
  by (induction p) auto

lemma common_len_extend: "common_len xs ys < length ys \<Longrightarrow> common_len xs (ys @ zs) = common_len xs ys"
  by (induction xs ys rule: common_len.induct) auto

definition alcp :: "nat \<Rightarrow> int list \<Rightarrow> int list \<Rightarrow> nat" where
  "alcp P xs ys = common_len xs ys div P * P"

lemma common_prefix_len_eq: "0 < page \<Longrightarrow> common_prefix_len xs ys page = alcp (nat page) xs ys"
proof -
  assume "0 < page"
  then obtain P where "page = int P" "0 < P" by (metis nat_0_le nat_less_le of_nat_0_less_iff order_less_le zero_less_imp_eq_int)
  then show ?thesis by (auto simp: common_prefix_len_def alcp_def Let_def nat_mult_distrib simp flip: zdiv_int)
qed

lemma child_lookup_key_eq: "0 < page \<Longrightarrow> child_lookup_key xs x page = (x, take (nat page) xs)"
  by (cases "page = 1") (auto simp: child_lookup_key_def)

lemma page_aligned_eq: "0 < page \<Longrightarrow> page_aligned_tokens xs page = take (length xs div nat page * nat page) xs"
proof -
  assume "0 < page"
  then obtain P where "page = int P" "0 < P" by (metis nat_0_le nat_less_le of_nat_0_less_iff order_less_le zero_less_imp_eq_int)
  then show ?thesis by (auto simp: page_aligned_tokens_def nat_mult_distrib simp flip: zdiv_int)
qed

lemma alcp_le: "alcp P xs ys \<le> length xs" "alcp P xs ys \<le> length ys"
  using common_len_le [of xs ys] div_times_less_eq_dividend [of "common_len xs ys" P]
  unfolding alcp_def by linarith+

lemma alcp_dvd: "P dvd alcp P xs ys"
  by (simp add: alcp_def)

lemma alcp_take: "take (alcp P xs ys) xs = take (alcp P xs ys) ys"
  using common_len_ge [of "alcp P xs ys" xs ys] alcp_le [of P xs ys]
  by (simp add: alcp_def)

lemma alcp_ge:
  assumes "P dvd n" and "n \<le> length xs" and "n \<le> length ys"
  shows "n \<le> alcp P xs ys \<longleftrightarrow> take n xs = take n ys"
proof -
  have "n \<le> common_len xs ys div P * P \<longleftrightarrow> n \<le> common_len xs ys"
    using assms(1) by (metis div_le_mono div_times_less_eq_dividend dvd_div_mult_self mult_le_mono1 order_trans)
  then show ?thesis using common_len_ge [OF assms(2,3)] by (simp add: alcp_def)
qed

lemma alcp_Nil [simp]: "alcp P [] ys = 0" "alcp P xs [] = 0"
  using alcp_le [of P "[]" ys] alcp_le [of P xs "[]"] by simp_all

lemma alcp_append: "0 < P \<Longrightarrow> P dvd length p \<Longrightarrow> alcp P (p @ xs) (p @ ys) = length p + alcp P xs ys"
  by (auto simp: alcp_def elim!: dvdE simp: algebra_simps)

lemma alcp_extend:
  assumes "0 < P" and "P dvd length ys" and "alcp P xs ys < length ys"
  shows "alcp P xs (ys @ zs) = alcp P xs ys"
proof -
  have "common_len xs ys \<noteq> length ys" using assms by (auto simp: alcp_def)
  then have "common_len xs ys < length ys" using common_len_le(2) [of xs ys] by simp
  then show ?thesis by (simp add: alcp_def common_len_extend)
qed

lemma alcp_full: "alcp P xs ys = length ys \<Longrightarrow> xs = ys @ drop (length ys) xs"
  using alcp_take [of P xs ys] by (metis append_take_drop_id order_refl take_all)

lemma aligned_nonempty: "P dvd length xs \<Longrightarrow> xs \<noteq> [] \<Longrightarrow> P \<le> length xs"
  by (simp add: dvd_imp_le)

lemma alcp_pos:
  assumes "0 < P" and "P dvd length xs" and "xs \<noteq> []" and "P dvd length ys" and "ys \<noteq> []"
  shows "0 < alcp P xs ys \<longleftrightarrow> take P xs = take P ys"
proof -
  have "0 < alcp P xs ys \<longleftrightarrow> P \<le> alcp P xs ys" using alcp_dvd [of P xs ys] assms(1) dvd_imp_le by auto
  then show ?thesis using alcp_ge [of P P xs ys] aligned_nonempty [OF assms(2,3)] aligned_nonempty [OF assms(4,5)] by simp
qed

section \<open>Walking the tree\<close>

text \<open>Nodes whose keys are non-empty, whole pages, and found under their own first page.\<close>

inductive wf_node :: "nat \<Rightarrow> 'p prefix_node \<Rightarrow> bool" for P where
  "(\<And>k c. map_of children k = Some c \<Longrightarrow>
      node_key c \<noteq> [] \<and> P dvd length (node_key c) \<and> snd k = take P (node_key c) \<and> wf_node P c) \<Longrightarrow>
   wf_node P (PrefixNode key children src)"

inductive_simps wf_node_iff: "wf_node P (PrefixNode key children src)"

lemma wf_child:
  assumes "wf_node P n" and "map_of (node_children n) k = Some c"
  shows "node_key c \<noteq> []" and "P dvd length (node_key c)" and "snd k = take P (node_key c)" and "wf_node P c"
proof -
  have "node_key c \<noteq> [] \<and> P dvd length (node_key c) \<and> snd k = take P (node_key c) \<and> wf_node P c"
    using assms(1)
  proof cases
    case (1 children key src)
    then show ?thesis using 1(2) [of k c] assms(2) by simp
  qed
  then show "node_key c \<noteq> []" "P dvd length (node_key c)" "snd k = take P (node_key c)" "wf_node P c" by blast+
qed

text \<open>The length a walk reaches.\<close>

function walk_len :: "nat \<Rightarrow> ns_key \<Rightarrow> int list \<Rightarrow> 'p prefix_node \<Rightarrow> nat" where
  "walk_len P x q (PrefixNode key children src) =
     (if q = [] then 0
      else case map_of children (x, take P q) of
             None \<Rightarrow> 0
           | Some c \<Rightarrow>
               let m = alcp P q (node_key c)
               in if m < length (node_key c) then m else m + walk_len P NSNone (drop m q) c)"
  by pat_completeness auto
termination
  by (relation "measure (\<lambda>(_, _, _, n). size n)") (auto dest: map_of_child_size)

declare walk_len.simps [simp del]

lemma walk_len_Nil [simp]: "walk_len P x [] n = 0"
  by (cases n) (simp add: walk_len.simps)

lemma walk_len_none: "map_of (node_children n) (x, take P q) = None \<Longrightarrow> walk_len P x q n = 0"
  by (cases n) (simp add: walk_len.simps)

lemma walk_len_some:
  "q \<noteq> [] \<Longrightarrow> map_of (node_children n) (x, take P q) = Some c \<Longrightarrow>
     walk_len P x q n =
       (if alcp P q (node_key c) < length (node_key c) then alcp P q (node_key c)
        else length (node_key c) + walk_len P NSNone (drop (length (node_key c)) q) c)"
  using alcp_le(2) [of P q "node_key c"] by (cases n) (auto simp: walk_len.simps Let_def)

lemma walk_len_cong:
  "map_of (node_children n') (x, take P q) = map_of (node_children n) (x, take P q) \<Longrightarrow> walk_len P x q n' = walk_len P x q n"
  by (cases n; cases n') (auto simp: walk_len.simps)

lemma walk_len_leaf [simp]: "walk_len P x q (leaf_node t e) = 0"
  by (simp add: leaf_node_def walk_len.simps)

section \<open>Insertion\<close>

text \<open>How one child answers: \<open>child_len P q c\<close> is what it adds for a query that starts with its page.\<close>

definition child_len :: "nat \<Rightarrow> int list \<Rightarrow> 'p prefix_node \<Rightarrow> nat" where
  "child_len P q c =
     (if alcp P q (node_key c) < length (node_key c) then alcp P q (node_key c)
      else length (node_key c) + walk_len P NSNone (drop (length (node_key c)) q) c)"

lemma child_len_leaf: "child_len P q (leaf_node t e) = alcp P q t"
  using alcp_le(2) [of P q t] by (auto simp: child_len_def leaf_node_def walk_len.simps)

text \<open>Replacing the child under the key of \<open>t\<close> by one that also answers for \<open>t\<close>.\<close>

lemma insert_child_len:
  assumes P: "0 < P" and t: "P dvd length t" "t \<noteq> []" and q: "P dvd length q"
    and n': "node_children n' = dict_set (x, take P t) c' (node_children n)"
    and c': "q \<noteq> [] \<Longrightarrow> take P q = take P t \<Longrightarrow> child_len P q c' = max (walk_len P x q n) (alcp P q t)"
  shows "walk_len P y q n' = (if y = x then max (walk_len P y q n) (alcp P q t) else walk_len P y q n)"
proof (cases "q = [] \<or> y \<noteq> x \<or> take P q \<noteq> take P t")
  case True
  show ?thesis
  proof (cases "q = []")
    case True
    then show ?thesis by simp
  next
    case False
    then have "(y, take P q) \<noteq> (x, take P t)" using True by auto
    then have "walk_len P y q n' = walk_len P y q n"
      by (intro walk_len_cong) (auto simp: n' dict_lookup)
    moreover have "y = x \<Longrightarrow> alcp P q t = 0" using True False alcp_pos [OF P q _ t] by auto
    ultimately show ?thesis by simp
  qed
next
  case False
  then have q': "q \<noteq> []" "y = x" "take P q = take P t" by auto
  then have "walk_len P y q n' = child_len P q c'"
    using walk_len_some [of q n' y P c'] by (simp add: n' dict_lookup child_len_def)
  then show ?thesis using c' q' by simp
qed

lemma child_len_descend:
  assumes P: "0 < P" and key: "P dvd length key" and t: "t = key @ t'" and q: "P dvd length q"
    and c: "node_key c = key" "node_key c' = key"
    and IH: "\<And>r. P dvd length r \<Longrightarrow> walk_len P NSNone r c' = max (walk_len P NSNone r c) (alcp P r t')"
  shows "child_len P q c' = max (child_len P q c) (alcp P q t)"
proof (cases "alcp P q key < length key")
  case True
  then show ?thesis using alcp_extend [OF P key True, of t'] by (simp add: child_len_def c t)
next
  case False
  then have "alcp P q key = length key" using alcp_le(2) [of P q key] by simp
  then obtain r where r: "q = key @ r" using alcp_full by blast
  then have "P dvd length r" using q key by (simp add: dvd_add_right_iff)
  then show ?thesis using False IH [of r] alcp_append [OF P key, of r t'] by (simp add: child_len_def c t r)
qed

lemma split_child_len:
  assumes P: "0 < P" "P = nat page" and key: "P dvd length (node_key c)" "node_key c \<noteq> []"
    and t: "P dvd length t" and m: "m = alcp P t (node_key c)" "0 < m" "m < length (node_key c)"
    and q: "P dvd length q"
  shows "child_len P q (split_child page e t m c) = max (child_len P q c) (alcp P q t)"
proof -
  have page: "0 < page" using P by simp
  define p s t' where "p = take m (node_key c)" and "s = drop m (node_key c)" and "t' = drop m t"
  have keyp: "node_key c = p @ s" by (simp add: p_def s_def)
  have tp: "t = p @ t'" using alcp_take [of P t "node_key c"] m(1) by (metis append_take_drop_id p_def t'_def)
  have lp: "length p = m" using m(3) by (simp add: p_def)
  have dp: "P dvd length p" using alcp_dvd [of P t "node_key c"] m(1) lp by simp
  have "s \<noteq> []" using m(3) by (simp add: s_def)
  moreover have "P dvd length s" using key(1) dvd_add_right_iff [OF dp, of "length s"] by (simp add: keyp)
  ultimately have ds: "P dvd length s" "s \<noteq> []" by simp_all
  have dt: "P dvd length t'" using t dp tp by (simp add: dvd_add_right_iff)
  let ?lower = "PrefixNode s (node_children c) (node_source c)"
  have no: "alcp P t' s = 0"
  proof -
    have "m = length p + alcp P t' s" using m(1) alcp_append [OF P(1) dp, of t' s] keyp tp by simp
    then show ?thesis using lp by simp
  qed
  define n where "n = split_child page e t m c"
  have kn: "node_key n = p" by (simp add: n_def split_child_def Let_def p_def)
  have lower: "child_len P r ?lower = (if alcp P r s < length s then alcp P r s else length s + walk_len P NSNone (drop (length s) r) c)" for r
    by (cases c) (simp add: child_len_def walk_len.simps)
  have old: "child_len P (p @ r) c = length p + child_len P r ?lower" if "P dvd length r" for r
    using alcp_append [OF P(1) dp, of r s] by (simp add: child_len_def [of P "p @ r"] keyp lower)
  have walk: "walk_len P NSNone r n = max (if r \<noteq> [] \<and> take P r = take P s then child_len P r ?lower else 0) (alcp P r t')"
    if r: "P dvd length r" for r
  proof (cases "r = []")
    case True
    then show ?thesis by simp
  next
    case False
    have ch: "map_of (node_children n) (NSNone, take P r) =
        (if t' \<noteq> [] \<and> take P r = take P t' then Some (leaf_node t' e) else if take P r = take P s then Some ?lower else None)"
      by (auto simp: n_def split_child_def Let_def child_lookup_key_eq [OF page] P(2) s_def t'_def dict_lookup)
    have ts: "t' \<noteq> [] \<Longrightarrow> take P t' \<noteq> take P s" using no alcp_pos [OF P(1) dt _ ds] by auto
    have low: "child_len P r ?lower = walk_len P NSNone r n" if "map_of (node_children n) (NSNone, take P r) = Some ?lower"
      using walk_len_some [OF False that] by (simp add: child_len_def)
    have new: "walk_len P NSNone r n = alcp P r t'" if "map_of (node_children n) (NSNone, take P r) = Some (leaf_node t' e)"
      using walk_len_some [OF False that] child_len_leaf [of P r t' e] by (simp add: child_len_def)
    have zero: "alcp P r t' = 0" if "t' = [] \<or> take P r \<noteq> take P t'"
      using that alcp_pos [OF P(1) r False dt] by (cases "t' = []") auto
    consider (new) "t' \<noteq> []" "take P r = take P t'" | (low) "t' = [] \<or> take P r \<noteq> take P t'" "take P r = take P s"
      | (none) "t' = [] \<or> take P r \<noteq> take P t'" "take P r \<noteq> take P s" by blast
    then show ?thesis
    proof cases
      case new
      then show ?thesis using ch ts \<open>map_of (node_children n) (NSNone, take P r) = Some (leaf_node t' e) \<Longrightarrow> walk_len P NSNone r n = alcp P r t'\<close> by auto
    next
      case low
      then show ?thesis using ch zero False \<open>map_of (node_children n) (NSNone, take P r) = Some ?lower \<Longrightarrow> child_len P r ?lower = walk_len P NSNone r n\<close> by auto
    next
      case none
      then have "map_of (node_children n) (NSNone, take P r) = None" using ch by auto
      then show ?thesis using none zero by (simp add: walk_len_none)
    qed
  qed
  show ?thesis
  proof (cases "alcp P q p < length p")
    case True
    then have "alcp P q (p @ s) = alcp P q p" "alcp P q (p @ t') = alcp P q p" using alcp_extend [OF P(1) dp True] by auto
    then have "child_len P q n = max (child_len P q c) (alcp P q t)" using True by (simp add: child_len_def kn keyp tp)
    then show ?thesis by (simp add: n_def)
  next
    case False
    then have "alcp P q p = length p" using alcp_le(2) [of P q p] by simp
    then obtain r where r: "q = p @ r" using alcp_full by blast
    then have dr: "P dvd length r" using q dp by (simp add: dvd_add_right_iff)
    have lowz: "child_len P r ?lower = 0" if "r = [] \<or> take P r \<noteq> take P s"
    proof -
      have "alcp P r s = 0" using that alcp_pos [OF P(1) dr _ ds] by (cases "r = []") auto
      then show ?thesis using ds(2) by (simp add: lower)
    qed
    have "child_len P q n = length p + walk_len P NSNone r n" using False by (simp add: child_len_def kn r)
    also have "\<dots> = length p + max (child_len P r ?lower) (alcp P r t')" using walk [OF dr] lowz by auto
    also have "\<dots> = max (child_len P q c) (alcp P q t)" using old [OF dr] alcp_append [OF P(1) dp, of r t'] by (simp add: r tp)
    finally show ?thesis by (simp add: n_def)
  qed
qed


text \<open>Inserting keeps the tree well formed, never raises, and adds the new entry to what walks find.\<close>

lemma split_child_wf:
  assumes "0 < P" "P = nat page" and key: "P dvd length (node_key c)"
    and t: "P dvd length t" "wf_node P c" and m: "m = alcp P t (node_key c)" "0 < m" "m < length (node_key c)"
  shows "node_key (split_child page e t m c) = take m (node_key c) \<and> wf_node P (split_child page e t m c)"
proof -
  have page: "0 < page" using assms(1,2) by simp
  have dm: "P dvd m" using alcp_dvd m(1) by simp
  have ls: "P dvd length (drop m (node_key c))" using key dm m(3) by (simp add: dvd_diff_nat)
  have lt: "P dvd length (drop m t)" using t(1) dm by (simp add: dvd_diff_nat)
  have low: "wf_node P (PrefixNode (drop m (node_key c)) (node_children c) (node_source c))"
    using t(2) wf_child [OF t(2)] by (auto intro!: wf_node.intros)
  have leaf: "wf_node P (leaf_node k e)" for k by (auto simp: leaf_node_def intro!: wf_node.intros)
  have "drop m (node_key c) \<noteq> []" using m(3) by simp
  then show ?thesis
    using low leaf ls lt
    by (auto simp: split_child_def Let_def child_lookup_key_eq [OF page] assms(2) dict_lookup leaf_node_def
        split: if_splits intro!: wf_node.intros)
qed

lemma insert_at_spec:
  assumes "0 < page" and "wf_node (nat page) n" and "nat page dvd length t"
  shows "\<exists>n'. insert_at page e x t n = Inr n' \<and> wf_node (nat page) n' \<and> node_key n' = node_key n
    \<and> (\<forall>y q. nat page dvd length q \<longrightarrow> walk_len (nat page) y q n' =
         (if y = x then max (walk_len (nat page) y q n) (alcp (nat page) q t) else walk_len (nat page) y q n))"
  using assms
proof (induction page e x t n rule: insert_at.induct)
  case (1 page e x t key children src)
  let ?P = "nat page" and ?n = "PrefixNode key children src"
  have P: "0 < ?P" using "1.prems"(1) by simp
  note look = child_lookup_key_eq [OF "1.prems"(1)] and com = common_prefix_len_eq [OF "1.prems"(1)]
  have wf: "\<And>k c. map_of children k = Some c \<Longrightarrow>
      node_key c \<noteq> [] \<and> ?P dvd length (node_key c) \<and> snd k = take ?P (node_key c) \<and> wf_node ?P c"
    using wf_child [OF "1.prems"(2)] by simp
  show ?case
  proof (cases "t = []")
    case True
    have "walk_len ?P y q (PrefixNode key children (Some e)) = walk_len ?P y q ?n" for y q by (rule walk_len_cong) simp
    moreover have "wf_node ?P (PrefixNode key children (Some e))" using wf by (auto intro!: wf_node.intros)
    ultimately show ?thesis using True by simp
  next
    case False
    let ?k = "(x, take ?P t)"
    have finish: ?thesis
      if ins: "insert_at page e x t ?n = Inr (PrefixNode key (dict_set ?k c' children) src)"
        and c': "node_key c' \<noteq> []" "?P dvd length (node_key c')" "take ?P t = take ?P (node_key c')" "wf_node ?P c'"
        and len: "\<And>q. ?P dvd length q \<Longrightarrow> q \<noteq> [] \<Longrightarrow> take ?P q = take ?P t \<Longrightarrow> child_len ?P q c' = max (walk_len ?P x q ?n) (alcp ?P q t)"
      for c'
    proof -
      let ?n' = "PrefixNode key (dict_set ?k c' children) src"
      have "walk_len ?P y q ?n' = (if y = x then max (walk_len ?P y q ?n) (alcp ?P q t) else walk_len ?P y q ?n)"
        if "?P dvd length q" for y q
        by (rule insert_child_len [OF P "1.prems"(3) False that, of ?n' x c' ?n]) (use len [OF that] in auto)
      moreover have "wf_node ?P ?n'" using wf c' by (auto simp: dict_lookup split: if_splits intro!: wf_node.intros)
      ultimately show ?thesis using ins by simp
    qed
    show ?thesis
    proof (cases "map_of children ?k")
      case None
      have "walk_len ?P x q ?n = 0" if "take ?P q = take ?P t" for q
        using that None by (intro walk_len_none) simp
      then show ?thesis
        using False None "1.prems"(3)
        by (intro finish [of "leaf_node t e"]) (auto simp: look leaf_node_def child_len_leaf [unfolded leaf_node_def] intro!: wf_node.intros)
    next
      case (Some c)
      note c = wf [OF Some]
      have old: "walk_len ?P x q ?n = child_len ?P q c" if "q \<noteq> []" "take ?P q = take ?P t" for q
        using walk_len_some [of q ?n x ?P c] that Some by (simp add: child_len_def)
      let ?m = "alcp ?P t (node_key c)"
      have pos: "0 < ?m" using alcp_pos [OF P "1.prems"(3) False] c by simp
      show ?thesis
      proof (cases "?m = length (node_key c)")
        case True
        define t' where "t' = drop (length (node_key c)) t"
        have t: "t = node_key c @ t'" using alcp_full [OF True] by (simp add: t'_def)
        have dt: "?P dvd length t'" using "1.prems"(3) c t by (metis dvd_add_right_iff length_append)
        obtain c' where c': "insert_at page e NSNone t' c = Inr c'" "wf_node ?P c'" "node_key c' = node_key c"
          "\<And>r. ?P dvd length r \<Longrightarrow> walk_len ?P NSNone r c' = max (walk_len ?P NSNone r c) (alcp ?P r t')"
          using "1.IH" [OF False, of ?k c ?m] Some True "1.prems"(1) c dt by (auto simp: look com t'_def)
        have ins: "insert_at page e x t ?n = Inr (PrefixNode key (dict_set ?k c' children) src)"
          using False Some True c'(1) by (simp add: look com t'_def)
        show ?thesis
          using c c' t
          by (intro finish [OF ins]) (auto simp: old child_len_descend [OF P _ t _ refl c'(3) c'(4)])
      next
        case neq: False
        then have less: "?m < length (node_key c)" using alcp_le(2) [of ?P t "node_key c"] by simp
        let ?c' = "split_child page e t ?m c"
        have ins: "insert_at page e x t ?n = Inr (PrefixNode key (dict_set ?k ?c' children) src)"
          using False Some neq pos by (simp add: look com Let_def)
        note sw = split_child_wf [OF P refl _ "1.prems"(3) _ refl pos less, of e]
        have tk: "take ?P (take ?m (node_key c)) = take ?P (node_key c)"
          using pos alcp_dvd [of ?P t "node_key c"] by (simp add: min_absorb1 dvd_imp_le)
        show ?thesis
          using c sw tk less pos alcp_dvd [of ?P t "node_key c"] Some
          by (intro finish [OF ins]) (auto simp: old min_absorb2 split_child_len [OF P refl _ _ "1.prems"(3) refl pos less])
      qed
    qed
  qed
qed


section \<open>Sources\<close>

text \<open>Every node below the root names an entry of its namespace that starts with the node's path.\<close>

inductive sub_ok :: "'p prefix_entry set \<Rightarrow> int list \<Rightarrow> 'p prefix_node \<Rightarrow> bool" for E where
  "e \<in> E \<Longrightarrow> prefix (path @ key) (entry_tree_tokens e) \<Longrightarrow>
   (\<And>s c. map_of children (NSNone, s) = Some c \<Longrightarrow> sub_ok E (path @ key) c) \<Longrightarrow>
   sub_ok E path (PrefixNode key children (Some e))"

definition children_ok :: "'p prefix_entry set \<Rightarrow> ns_key \<Rightarrow> int list \<Rightarrow> 'p prefix_node \<Rightarrow> bool" where
  "children_ok E x path n \<longleftrightarrow> (\<forall>s c. map_of (node_children n) (x, s) = Some c \<longrightarrow> sub_ok E path c)"

lemma sub_ok_iff:
  "sub_ok E path n \<longleftrightarrow> (\<exists>e \<in> E. node_source n = Some e \<and> prefix (path @ node_key n) (entry_tree_tokens e))
     \<and> children_ok E NSNone (path @ node_key n) n"
proof (cases n)
  case (PrefixNode key children src)
  show ?thesis
  proof
    assume "sub_ok E path n"
    then show "(\<exists>e \<in> E. node_source n = Some e \<and> prefix (path @ node_key n) (entry_tree_tokens e))
        \<and> children_ok E NSNone (path @ node_key n) n"
      by cases (auto simp: children_ok_def)
  next
    assume "(\<exists>e \<in> E. node_source n = Some e \<and> prefix (path @ node_key n) (entry_tree_tokens e))
        \<and> children_ok E NSNone (path @ node_key n) n"
    then show "sub_ok E path n" using PrefixNode by (auto simp: children_ok_def intro: sub_ok.intros)
  qed
qed

lemma sub_ok_mono: "sub_ok E path n \<Longrightarrow> E \<subseteq> E' \<Longrightarrow> sub_ok E' path n"
proof (induction rule: sub_ok.induct)
  case (1 e path key children)
  then show ?case by (intro sub_ok.intros) auto
qed

lemma children_ok_mono: "children_ok E x path n \<Longrightarrow> E \<subseteq> E' \<Longrightarrow> children_ok E' x path n"
  by (auto simp: children_ok_def dest: sub_ok_mono)

lemma leaf_ok: "e \<in> E \<Longrightarrow> entry_tree_tokens e = path @ t \<Longrightarrow> sub_ok E path (leaf_node t e)"
  unfolding sub_ok_iff [of E path "leaf_node t e"] by (simp add: children_ok_def leaf_node_def)

lemma split_child_ok:
  assumes ok: "sub_ok E path c" and e: "e \<in> E" "entry_tree_tokens e = path @ t"
    and m: "take m t = take m (node_key c)" "m < length (node_key c)" "m \<le> length t"
  shows "sub_ok E path (split_child page e t m c)"
proof -
  obtain e0 where e0: "e0 \<in> E" "node_source c = Some e0" "prefix (path @ node_key c) (entry_tree_tokens e0)"
    and ch: "children_ok E NSNone (path @ node_key c) c"
    using ok unfolding sub_ok_iff by auto
  let ?low = "PrefixNode (drop m (node_key c)) (node_children c) (node_source c)"
  let ?p = "take m (node_key c)"
  have low: "sub_ok E (path @ ?p) ?low"
    unfolding sub_ok_iff [of E "path @ ?p" ?low] using e0 ch by (auto simp: children_ok_def)
  have t: "t = ?p @ drop m t" using m(1) by (metis append_take_drop_id)
  then have leaf: "sub_ok E (path @ ?p) (leaf_node (drop m t) e)" using e by (intro leaf_ok) auto
  have pre: "prefix (path @ ?p) (entry_tree_tokens e0)" "prefix (path @ ?p) (entry_tree_tokens e)"
  proof -
    have "path @ node_key c = (path @ ?p) @ drop m (node_key c)" by simp
    then show "prefix (path @ ?p) (entry_tree_tokens e0)" using e0(3) append_prefixD by metis
    have "entry_tree_tokens e = (path @ ?p) @ drop m t" using e(2) t by simp
    then show "prefix (path @ ?p) (entry_tree_tokens e)" by (simp only: prefixI)
  qed
  show ?thesis
    using low leaf pre e(1) e0(1,2)
    unfolding sub_ok_iff [of E path "split_child page e t m c"]
    by (auto simp: children_ok_def split_child_def Let_def dict_lookup split: if_splits)
qed

lemma insert_at_ok:
  assumes "0 < page" and "insert_at page e x t n = Inr n'" and "children_ok E x path n"
    and "e \<in> E" and "entry_tree_tokens e = path @ t"
  shows "children_ok E x path n' \<and> node_source n' = (if t = [] then Some e else node_source n) \<and> node_key n' = node_key n
    \<and> (\<forall>y s. y \<noteq> x \<longrightarrow> map_of (node_children n') (y, s) = map_of (node_children n) (y, s))"
  using assms
proof (induction page e x t n arbitrary: n' path rule: insert_at.induct)
  case (1 page e x t key children src)
  note look = child_lookup_key_eq [OF "1.prems"(1)] and com = common_prefix_len_eq [OF "1.prems"(1)]
  let ?k = "(x, take (nat page) t)"
  have upd: ?case if "t \<noteq> []" "n' = PrefixNode key (dict_set ?k c' children) src" "sub_ok E path c'" for c'
    using that "1.prems"(3) by (auto simp: children_ok_def dict_lookup split: if_splits)
  show ?case
  proof (cases "t = []")
    case True
    then show ?thesis using "1.prems" by (auto simp: children_ok_def)
  next
    case False
    show ?thesis
    proof (cases "map_of children ?k")
      case None
      then have "n' = PrefixNode key (dict_set ?k (leaf_node t e) children) src" using "1.prems"(2) False by (simp add: look)
      then show ?thesis using False leaf_ok [OF "1.prems"(4,5)] by (intro upd) auto
    next
      case (Some c)
      have c: "sub_ok E path c" using "1.prems"(3) Some by (simp add: children_ok_def)
      let ?m = "alcp (nat page) t (node_key c)"
      show ?thesis
      proof (cases "?m = length (node_key c)")
        case True
        obtain c' where c': "insert_at page e NSNone (drop ?m t) c = Inr c'" "n' = PrefixNode key (dict_set ?k c' children) src"
          using "1.prems"(2) False Some True by (auto simp: look com)
        have t: "t = node_key c @ drop ?m t" using alcp_full [OF True] True by simp
        then have te: "entry_tree_tokens e = (path @ node_key c) @ drop ?m t" using "1.prems"(5) by simp
        have cc: "children_ok E NSNone (path @ node_key c) c" using c by (simp add: sub_ok_iff)
        have r: "children_ok E NSNone (path @ node_key c) c' \<and> node_source c' = (if drop ?m t = [] then Some e else node_source c) \<and> node_key c' = node_key c"
          using "1.IH" [OF False, of ?k c ?m c' "path @ node_key c"] Some True "1.prems"(1,4) c'(1) te cc
          by (auto simp: look com)
        have "prefix (path @ node_key c) (entry_tree_tokens e)" using te by (simp add: prefix_def)
        then have "sub_ok E path c'" using r c "1.prems"(4) unfolding sub_ok_iff [of E path c] sub_ok_iff [of E path c'] by (auto split: if_splits)
        then show ?thesis using False c'(2) by (intro upd) auto
      next
        case neq: False
        then have less: "?m < length (node_key c)" using alcp_le(2) [of "nat page" t "node_key c"] by simp
        then have "n' = PrefixNode key (dict_set ?k (split_child page e t ?m c) children) src"
          using "1.prems"(2) False Some neq by (auto simp: look com Let_def split: if_splits)
        then show ?thesis
          using False split_child_ok [OF c "1.prems"(4,5) alcp_take less alcp_le(1)] by (intro upd) auto
      qed
    qed
  qed
qed

section \<open>The walk\<close>

lemma walk_spec:
  assumes "0 < page" and "wf_node (nat page) n" and "children_ok E x path n" and "nat page dvd length q"
  shows "(walk_len (nat page) x q n = 0 \<and> walk page x q pos best n = best)
    \<or> (\<exists>e \<in> E. 0 < walk_len (nat page) x q n \<and> walk page x q pos best n = Some (e, pos + walk_len (nat page) x q n)
         \<and> prefix (path @ take (walk_len (nat page) x q n) q) (entry_tree_tokens e))"
  using assms
proof (induction page x q pos best n arbitrary: path rule: walk.induct)
  case (1 page x q pos best key children src)
  let ?P = "nat page" and ?n = "PrefixNode key children src"
  have P: "0 < ?P" using "1.prems"(1) by simp
  note look = child_lookup_key_eq [OF "1.prems"(1)] and com = common_prefix_len_eq [OF "1.prems"(1)]
  show ?case
  proof (cases "q = [] \<or> map_of children (x, take ?P q) = None")
    case True
    then show ?thesis by (auto simp: look walk_len_none)
  next
    case False
    then obtain c where q: "q \<noteq> []" and c: "map_of children (x, take ?P q) = Some c" by auto
    note wf = wf_child [OF "1.prems"(2), simplified, OF c]
    have ok: "sub_ok E path c" using "1.prems"(3) c by (simp add: children_ok_def)
    then obtain e where e: "e \<in> E" "node_source c = Some e" "prefix (path @ node_key c) (entry_tree_tokens e)"
      and ch: "children_ok E NSNone (path @ node_key c) c" by (auto simp: sub_ok_iff)
    let ?m = "alcp ?P q (node_key c)"
    have pos: "0 < ?m" using alcp_pos [OF P "1.prems"(4) q wf(2,1)] wf(3) by simp
    show ?thesis
    proof (cases "?m < length (node_key c)")
      case True
      then have l: "walk_len ?P x q ?n = ?m" using walk_len_some [of q ?n x ?P c] q c by simp
      have "prefix (path @ take ?m q) (path @ node_key c)" using alcp_take [of ?P q "node_key c"] by (metis same_prefix_prefix take_is_prefix)
      then have "prefix (path @ take ?m q) (entry_tree_tokens e)" using e(3) prefix_order.trans by blast
      then show ?thesis using q c e pos True l by (auto simp: look com Let_def)
    next
      case False
      then have full: "?m = length (node_key c)" using alcp_le(2) [of ?P q "node_key c"] by simp
      define r where "r = drop (length (node_key c)) q"
      have qr: "q = node_key c @ r" using alcp_full [OF full] by (simp add: r_def)
      have dr: "?P dvd length r" using "1.prems"(4) wf(2) qr by (metis dvd_add_right_iff length_append)
      have l: "walk_len ?P x q ?n = length (node_key c) + walk_len ?P NSNone r c"
        using walk_len_some [of q ?n x ?P c] q c False by (simp add: r_def)
      have w: "walk page x q pos best ?n = walk page NSNone r (pos + length (node_key c)) (Some (e, pos + length (node_key c))) c"
        using q c e(2) pos full by (simp add: look com Let_def r_def)
      have IH: "(walk_len ?P NSNone r c = 0 \<and> walk page NSNone r (pos + ?m) (Some (e, pos + ?m)) c = Some (e, pos + ?m))
        \<or> (\<exists>e' \<in> E. 0 < walk_len ?P NSNone r c
             \<and> walk page NSNone r (pos + ?m) (Some (e, pos + ?m)) c = Some (e', pos + ?m + walk_len ?P NSNone r c)
             \<and> prefix ((path @ node_key c) @ take (walk_len ?P NSNone r c) r) (entry_tree_tokens e'))"
        using "1.IH" [of c ?m "Some (e, pos + ?m)" "path @ node_key c"] q c pos False "1.prems"(1) wf(4) ch dr e(2) full
        by (simp add: look com Let_def r_def)
      then show ?thesis
      proof
        assume z: "walk_len ?P NSNone r c = 0 \<and> walk page NSNone r (pos + ?m) (Some (e, pos + ?m)) c = Some (e, pos + ?m)"
        then show ?thesis using l w full e qr pos by auto
      next
        assume "\<exists>e' \<in> E. 0 < walk_len ?P NSNone r c
             \<and> walk page NSNone r (pos + ?m) (Some (e, pos + ?m)) c = Some (e', pos + ?m + walk_len ?P NSNone r c)
             \<and> prefix ((path @ node_key c) @ take (walk_len ?P NSNone r c) r) (entry_tree_tokens e')"
        then obtain e' where "e' \<in> E" "0 < walk_len ?P NSNone r c"
          "walk page NSNone r (pos + ?m) (Some (e, pos + ?m)) c = Some (e', pos + ?m + walk_len ?P NSNone r c)"
          "prefix (path @ node_key c @ take (walk_len ?P NSNone r c) r) (entry_tree_tokens e')"
          by auto
        moreover have "take (walk_len ?P x q ?n) q = node_key c @ take (walk_len ?P NSNone r c) r" unfolding l by (subst qr) simp
        ultimately show ?thesis using l w full by (auto simp: add.assoc)
      qed
    qed
  qed
qed


end
