(* ===== verification/GR_Prefix_Props.thy ===== *)
theory GR_Prefix_Props
  imports GR_Prefix_Match
begin

text \<open>
  The invariant of the prefix cache and its properties: lookup is longest page-aligned prefix within
  the namespace, an inserted prompt is found again, and the cache evicts the oldest entries, as few
  as its limits ask for.
\<close>

section \<open>Building the tree\<close>

text \<open>The specification of a lookup: the longest page-aligned common prefix with any entry of the
  namespace.\<close>

definition longest_match :: "nat \<Rightarrow> 'p prefix_entry list \<Rightarrow> ns_key \<Rightarrow> int list \<Rightarrow> nat" where
  "longest_match P es x q =
     foldr (\<lambda>e m. if entry_extra e = x then max (alcp P q (entry_tree_tokens e)) m else m) es 0"

lemma longest_match_snoc:
  "longest_match P (es @ [e]) x q =
     (if entry_extra e = x then max (longest_match P es x q) (alcp P q (entry_tree_tokens e)) else longest_match P es x q)"
  by (induction es) (auto simp: longest_match_def)

lemma longest_match_ge: "e \<in> set es \<Longrightarrow> entry_extra e = x \<Longrightarrow> alcp P q (entry_tree_tokens e) \<le> longest_match P es x q"
  by (induction es) (auto simp: longest_match_def)

lemma longest_match_attained:
  "longest_match P es x q = 0 \<or> (\<exists>e \<in> set es. entry_extra e = x \<and> longest_match P es x q = alcp P q (entry_tree_tokens e))"
proof (induction es)
  case Nil
  then show ?case by (simp add: longest_match_def)
next
  case (Cons e es)
  have "longest_match P (e # es) x q =
      (if entry_extra e = x then max (alcp P q (entry_tree_tokens e)) (longest_match P es x q) else longest_match P es x q)"
    by (simp add: longest_match_def)
  then show ?case using Cons by (auto simp: max_def)
qed

lemma longest_match_set:
  assumes "set es = set es'"
  shows "longest_match P es x q = longest_match P es' x q"
  using longest_match_attained [of P es x q] longest_match_attained [of P es' x q]
    longest_match_ge [of _ es x P q] longest_match_ge [of _ es' x P q] assms
  by (metis le_antisym le_zero_eq zero_le)

definition tree_ok :: "nat \<Rightarrow> 'p prefix_entry list \<Rightarrow> 'p prefix_node \<Rightarrow> bool" where
  "tree_ok P es n \<longleftrightarrow> wf_node P n \<and> (\<forall>x q. P dvd length q \<longrightarrow> walk_len P x q n = longest_match P es x q)
     \<and> (\<forall>x. children_ok {e \<in> set es. entry_extra e = x} x [] n)"

lemma tree_ok_empty: "tree_ok P [] empty_prefix_node"
  by (auto simp: tree_ok_def empty_prefix_node_def longest_match_def children_ok_def walk_len.simps intro!: wf_node.intros)

lemma tree_ok_set: "tree_ok P es n \<Longrightarrow> set es = set es' \<Longrightarrow> tree_ok P es' n"
  using longest_match_set [of es es'] by (simp add: tree_ok_def)

lemma tree_ok_insert:
  assumes "0 < page" and ok: "tree_ok (nat page) es n" and al: "nat page dvd length (entry_tree_tokens e)"
    and ne: "entry_tree_tokens e \<noteq> []"
  shows "\<exists>n'. insert_at page e (entry_extra e) (entry_tree_tokens e) n = Inr n' \<and> tree_ok (nat page) (es @ [e]) n'"
proof -
  let ?x = "entry_extra e" and ?t = "entry_tree_tokens e" and ?P = "nat page"
  obtain n' where n': "insert_at page e ?x ?t n = Inr n'" "wf_node ?P n'"
    "\<And>y q. ?P dvd length q \<Longrightarrow> walk_len ?P y q n' = (if y = ?x then max (walk_len ?P y q n) (alcp ?P q ?t) else walk_len ?P y q n)"
    using insert_at_spec [OF assms(1) _ al, of n e ?x] ok unfolding tree_ok_def by blast
  have "children_ok {d \<in> set (es @ [e]). entry_extra d = ?x} ?x [] n"
    using ok by (auto simp: tree_ok_def intro: children_ok_mono)
  then have I: "children_ok {d \<in> set (es @ [e]). entry_extra d = ?x} ?x [] n'"
    "\<And>y s. y \<noteq> ?x \<Longrightarrow> map_of (node_children n') (y, s) = map_of (node_children n) (y, s)"
    using insert_at_ok [OF assms(1) n'(1), of "{d \<in> set (es @ [e]). entry_extra d = ?x}" "[]"] by auto
  have "children_ok {d \<in> set (es @ [e]). entry_extra d = y} y [] n'" for y
  proof (cases "y = ?x")
    case False
    have "children_ok {d \<in> set (es @ [e]). entry_extra d = y} y [] n"
      using ok by (auto simp: tree_ok_def intro: children_ok_mono)
    then show ?thesis using I(2) [OF False] by (simp add: children_ok_def)
  qed (use I(1) in simp)
  then show ?thesis using n' ok by (simp add: tree_ok_def longest_match_snoc)
qed

lemma build_tree_ok:
  assumes "0 < page" and "tree_ok (nat page) ds n" and "\<forall>e \<in> set es. nat page dvd length (entry_tree_tokens e)"
  shows "\<exists>n'. build_tree page es n = Inr n' \<and> tree_ok (nat page) (ds @ es) n'"
  using assms(2,3)
proof (induction es arbitrary: ds n)
  case Nil
  then show ?case by simp
next
  case (Cons e es)
  show ?case
  proof (cases "entry_tree_tokens e = []")
    case True
    have "children_ok {d \<in> set (ds @ [e]). entry_extra d = x} x [] n" for x
      using Cons.prems(1) by (auto simp: tree_ok_def intro: children_ok_mono)
    then have "tree_ok (nat page) (ds @ [e]) n"
      using Cons.prems(1) True by (simp add: tree_ok_def longest_match_snoc)
    then show ?thesis using Cons.IH [of "ds @ [e]" n] Cons.prems(2) True by simp
  next
    case False
    obtain n1 where n1: "insert_at page e (entry_extra e) (entry_tree_tokens e) n = Inr n1" "tree_ok (nat page) (ds @ [e]) n1"
      using tree_ok_insert [OF assms(1) Cons.prems(1) _ False] Cons.prems(2) by auto
    then show ?thesis using Cons.IH [OF n1(2)] Cons.prems(2) False by simp
  qed
qed

section \<open>The invariant\<close>

definition token_sum :: "('k, 'p prefix_entry) dict \<Rightarrow> int" where
  "token_sum d = dict_sum (\<lambda>e. int (length (entry_tokens e))) d"

definition tree_token_sum :: "('k, 'p prefix_entry) dict \<Rightarrow> int" where
  "tree_token_sum d = dict_sum (\<lambda>e. int (length (entry_tree_tokens e))) d"

definition entry_ok :: "int \<Rightarrow> (ns_key \<times> int list) \<times> 'p prefix_entry \<Rightarrow> bool" where
  "entry_ok page p \<longleftrightarrow> entry_key (snd p) = fst p \<and> fst p = (entry_extra (snd p), entry_tokens (snd p))
     \<and> entry_tokens (snd p) \<noteq> [] \<and> entry_tree_tokens (snd p) = page_aligned_tokens (entry_tokens (snd p)) page"

definition entries_ok :: "'p prefix_cache \<Rightarrow> bool" where
  "entries_ok c \<longleftrightarrow> check_cache_limits (cache_max_entries c) (cache_max_tokens c) (page_size c) = Inr ()
     \<and> wf_dict (cache_entries c) \<and> (\<forall>p \<in> set (cache_entries c). entry_ok (page_size c) p)
     \<and> total_tokens c = token_sum (cache_entries c) \<and> total_tree_tokens c = tree_token_sum (cache_entries c)"

definition cache_inv :: "'p prefix_cache \<Rightarrow> bool" where
  "cache_inv c \<longleftrightarrow> entries_ok c \<and> tree_ok (nat (page_size c)) (dict_values (cache_entries c)) (cache_root c)"

lemma check_limits_ok:
  "check_cache_limits en tk page = Inr () \<longleftrightarrow> 0 < page \<and> (\<forall>m. en = Some m \<longrightarrow> 0 \<le> m) \<and> (\<forall>m. tk = Some m \<longrightarrow> 0 \<le> m)"
  by (auto simp: check_cache_limits_def split: option.splits)

lemma aligned_dvd: "0 < page \<Longrightarrow> nat page dvd length (page_aligned_tokens xs page)"
  by (simp add: page_aligned_eq min_absorb2)

lemma rebuild_ok:
  assumes "entries_ok c"
  shows "\<exists>c'. rebuild_tree c = Inr c' \<and> cache_inv c' \<and> cache_entries c' = cache_entries c \<and> total_tokens c' = total_tokens c
    \<and> cache_max_entries c' = cache_max_entries c \<and> cache_max_tokens c' = cache_max_tokens c \<and> page_size c' = page_size c
    \<and> evictions c' = evictions c"
proof -
  have page: "0 < page_size c" using assms by (simp add: entries_ok_def check_limits_ok)
  have "\<forall>e \<in> set (dict_values (cache_entries c)). nat (page_size c) dvd length (entry_tree_tokens e)"
    using assms aligned_dvd [OF page] by (auto simp: entries_ok_def entry_ok_def)
  then obtain n where n: "build_tree (page_size c) (dict_values (cache_entries c)) empty_prefix_node = Inr n"
    "tree_ok (nat (page_size c)) (dict_values (cache_entries c)) n"
    using build_tree_ok [OF page tree_ok_empty] by fastforce
  then show ?thesis using assms by (simp add: rebuild_tree_def cache_inv_def entries_ok_def)
qed

section \<open>Eviction\<close>

lemma token_sum_Cons [simp]: "token_sum ((k, e) # d) = int (length (entry_tokens e)) + token_sum d"
  and token_sum_Nil [simp]: "token_sum [] = 0"
  and tree_token_sum_Cons [simp]: "tree_token_sum ((k, e) # d) = int (length (entry_tree_tokens e)) + tree_token_sum d"
  and tree_token_sum_Nil [simp]: "tree_token_sum [] = 0"
  by (simp_all add: token_sum_def tree_token_sum_def)

text \<open>What an eviction loop leaves: the cache without its oldest \<open>k\<close> entries.\<close>

definition dropped :: "nat \<Rightarrow> ('k, 'p prefix_entry) dict \<Rightarrow> 'p prefix_cache \<Rightarrow> 'p prefix_cache \<Rightarrow> bool" where
  "dropped k d c c' \<longleftrightarrow> k \<le> length d \<and> total_tokens c' = token_sum (drop k d) \<and> total_tree_tokens c' = tree_token_sum (drop k d)
     \<and> evictions c' = evictions c + int k \<and> cache_max_entries c' = cache_max_entries c
     \<and> cache_max_tokens c' = cache_max_tokens c \<and> page_size c' = page_size c \<and> cache_root c' = cache_root c
     \<and> (k = 0 \<longrightarrow> c' = c\<lparr>cache_entries := cache_entries c'\<rparr>)"

lemma evict_over_entries_spec:
  assumes "total_tokens c = token_sum d" and "total_tree_tokens c = tree_token_sum d"
    and "\<forall>m. cache_max_entries c = Some m \<longrightarrow> 0 \<le> m"
  shows "\<exists>c' k. evict_over_entries d c = Inr c' \<and> cache_entries c' = drop k d \<and> dropped k d c c'
    \<and> (case cache_max_entries c of None \<Rightarrow> k = 0
        | Some m \<Rightarrow> int (length (drop k d)) \<le> m \<and> (\<forall>j < k. m < int (length (drop j d))))"
  using assms
proof (induction d c rule: evict_over_entries.induct)
  case (1 c)
  then show ?case by (auto simp: dropped_def split: option.splits intro!: exI [of _ 0])
next
  case (2 k e d c)
  show ?case
  proof (cases "\<exists>m. cache_max_entries c = Some m \<and> int (length ((k, e) # d)) > m")
    case False
    then show ?thesis using "2.prems" by (auto simp: dropped_def split: option.splits intro!: exI [of _ 0])
  next
    case True
    then obtain m where m: "cache_max_entries c = Some m" "int (length ((k, e) # d)) > m" by blast
    obtain c' j where c': "evict_over_entries d (subtract_entry e c) = Inr c'" "cache_entries c' = drop j d"
      "dropped j d (subtract_entry e c) c'" "int (length (drop j d)) \<le> m" "\<forall>i < j. m < int (length (drop i d))"
      using "2.IH" [OF m] "2.prems" m(1) by (auto simp: subtract_entry_def)
    have "\<forall>i < Suc j. m < int (length (drop i ((k, e) # d)))"
    proof (intro allI impI)
      fix i
      assume "i < Suc j"
      then show "m < int (length (drop i ((k, e) # d)))" using c'(5) m(2) by (cases i) auto
    qed
    then show ?thesis
      using m c' by (intro exI [of _ c'] exI [of _ "Suc j"]) (auto simp: dropped_def subtract_entry_def)
  qed
qed

lemma evict_over_tokens_spec:
  assumes "total_tokens c = token_sum d" and "total_tree_tokens c = tree_token_sum d"
    and "\<forall>m. cache_max_tokens c = Some m \<longrightarrow> 0 \<le> m"
  shows "\<exists>c' k. evict_over_tokens d c = Inr c' \<and> cache_entries c' = drop k d \<and> dropped k d c c'
    \<and> (case cache_max_tokens c of None \<Rightarrow> k = 0
        | Some m \<Rightarrow> token_sum (drop k d) \<le> m \<and> (\<forall>j < k. m < token_sum (drop j d)))"
  using assms
proof (induction d c rule: evict_over_tokens.induct)
  case (1 c)
  then show ?case by (auto simp: dropped_def split: option.splits intro!: exI [of _ 0])
next
  case (2 k e d c)
  show ?case
  proof (cases "\<exists>m. cache_max_tokens c = Some m \<and> total_tokens c > m")
    case False
    then show ?thesis using "2.prems" by (auto simp: dropped_def not_less split: option.splits intro!: exI [of _ 0])
  next
    case True
    then obtain m where m: "cache_max_tokens c = Some m" "total_tokens c > m" by blast
    obtain c' j where c': "evict_over_tokens d (subtract_entry e c) = Inr c'" "cache_entries c' = drop j d"
      "dropped j d (subtract_entry e c) c'" "token_sum (drop j d) \<le> m" "\<forall>i < j. m < token_sum (drop i d)"
      using "2.IH" [OF m] "2.prems" m(1) by (auto simp: subtract_entry_def)
    have "\<forall>i < Suc j. m < token_sum (drop i ((k, e) # d))"
    proof (intro allI impI)
      fix i
      assume "i < Suc j"
      then show "m < token_sum (drop i ((k, e) # d))" using c'(5) m(2) "2.prems"(1) by (cases i) auto
    qed
    then show ?thesis
      using m c' by (intro exI [of _ c'] exI [of _ "Suc j"]) (auto simp: dropped_def subtract_entry_def)
  qed
qed

definition capacity_ok :: "'p prefix_cache \<Rightarrow> bool" where
  "capacity_ok c \<longleftrightarrow> (case cache_max_entries c of None \<Rightarrow> True | Some m \<Rightarrow> int (length (cache_entries c)) \<le> m)
     \<and> (case cache_max_tokens c of None \<Rightarrow> True | Some m \<Rightarrow> token_sum (cache_entries c) \<le> m)"

lemma capacity_ok_cong:
  "cache_entries c' = cache_entries c \<Longrightarrow> cache_max_entries c' = cache_max_entries c \<Longrightarrow>
   cache_max_tokens c' = cache_max_tokens c \<Longrightarrow> capacity_ok c \<Longrightarrow> capacity_ok c'"
  by (simp add: capacity_ok_def split: option.splits)

text \<open>A cache over one of its limits.\<close>

definition over_capacity :: "'p prefix_cache \<Rightarrow> ('k, 'p prefix_entry) dict \<Rightarrow> bool" where
  "over_capacity c d \<longleftrightarrow> (\<exists>m. cache_max_entries c = Some m \<and> m < int (length d))
     \<or> (\<exists>m. cache_max_tokens c = Some m \<and> m < token_sum d)"

lemma entries_ok_drop:
  assumes "entries_ok c" and "dropped k (cache_entries c) c c'" and "cache_entries c' = drop k (cache_entries c)"
  shows "entries_ok c'"
proof -
  have "wf_dict (drop k (cache_entries c))" using assms(1) by (simp add: entries_ok_def drop_map [symmetric])
  then show ?thesis
    using assms set_drop_subset [of k "cache_entries c"] by (auto simp: entries_ok_def dropped_def)
qed

lemma enforce_capacity_spec:
  assumes ok: "entries_ok c"
  shows "\<exists>b c' k. enforce_capacity c = Inr (b, c') \<and> cache_entries c' = drop k (cache_entries c) \<and> entries_ok c' \<and> capacity_ok c'
    \<and> (\<forall>j < k. over_capacity c (drop j (cache_entries c))) \<and> (\<not> b \<longrightarrow> c' = c) \<and> cache_root c' = cache_root c
    \<and> cache_max_entries c' = cache_max_entries c \<and> cache_max_tokens c' = cache_max_tokens c \<and> page_size c' = page_size c
    \<and> evictions c' = evictions c + int k \<and> k \<le> length (cache_entries c)"
proof -
  have lim: "\<forall>m. cache_max_entries c = Some m \<longrightarrow> 0 \<le> m" "\<forall>m. cache_max_tokens c = Some m \<longrightarrow> 0 \<le> m"
    and tot: "total_tokens c = token_sum (cache_entries c)" "total_tree_tokens c = tree_token_sum (cache_entries c)"
    using ok by (auto simp: entries_ok_def check_limits_ok)
  obtain c1 k1 where e1: "evict_over_entries (cache_entries c) c = Inr c1" "cache_entries c1 = drop k1 (cache_entries c)"
    "dropped k1 (cache_entries c) c c1"
    "case cache_max_entries c of None \<Rightarrow> k1 = 0
        | Some m \<Rightarrow> int (length (drop k1 (cache_entries c))) \<le> m \<and> (\<forall>j < k1. m < int (length (drop j (cache_entries c))))"
    using evict_over_entries_spec [OF tot lim(1)] by blast
  have ok1: "entries_ok c1" by (rule entries_ok_drop [OF ok e1(3,2)])
  have same1: "cache_max_entries c1 = cache_max_entries c" "cache_max_tokens c1 = cache_max_tokens c" "page_size c1 = page_size c"
    "cache_root c1 = cache_root c" "evictions c1 = evictions c + int k1" "k1 \<le> length (cache_entries c)"
    using e1(3) by (simp_all add: dropped_def)
  obtain c2 k2 where e2: "evict_over_tokens (cache_entries c1) c1 = Inr c2" "cache_entries c2 = drop k2 (cache_entries c1)"
    "dropped k2 (cache_entries c1) c1 c2"
    "case cache_max_tokens c1 of None \<Rightarrow> k2 = 0
        | Some m \<Rightarrow> token_sum (drop k2 (cache_entries c1)) \<le> m \<and> (\<forall>j < k2. m < token_sum (drop j (cache_entries c1)))"
    using evict_over_tokens_spec [of c1 "cache_entries c1"] ok1 lim(2) same1(2) by (auto simp: entries_ok_def)
  have ok2: "entries_ok c2" by (rule entries_ok_drop [OF ok1 e2(3,2)])
  have over: "over_capacity c (drop j (cache_entries c))" if "j < k1 + k2" for j
  proof (cases "j < k1")
    case True
    then show ?thesis using e1(4) by (auto simp: over_capacity_def split: option.splits)
  next
    case False
    then have "j - k1 < k2" "drop j (cache_entries c) = drop (j - k1) (cache_entries c1)" using that e1(2) by simp_all
    then show ?thesis using e2(4) same1(2) by (auto simp: over_capacity_def split: option.splits)
  qed
  have cap: "capacity_ok c2"
    using e1(2,4) e2(2,3,4) same1 by (auto simp: capacity_ok_def dropped_def split: option.splits)
  have unchanged: "c2 = c" if "evictions c2 = evictions c"
  proof -
    have "k1 = 0" "k2 = 0" using that e2(3) same1(5) by (auto simp: dropped_def)
    then show ?thesis using e1(2,3) e2(2,3) by (simp add: dropped_def)
  qed
  have "cache_entries c2 = drop (k1 + k2) (cache_entries c)" using e1(2) e2(2) by (simp add: add.commute)
  moreover have "enforce_capacity c = Inr (evictions c2 \<noteq> evictions c, c2)" using e1(1) e2(1) by (simp add: enforce_capacity_def)
  moreover have "k1 + k2 \<le> length (cache_entries c)" using e2(3) e1(2) same1(6) by (auto simp: dropped_def)
  ultimately show ?thesis
    using over cap unchanged ok2 same1 e2(3)
    by (intro exI [of _ "evictions c2 \<noteq> evictions c"] exI [of _ c2] exI [of _ "k1 + k2"]) (auto simp: dropped_def)
qed

section \<open>Operations keep the invariant\<close>

lemma token_sum_mset: "mset d = mset d' \<Longrightarrow> token_sum d = token_sum d' \<and> tree_token_sum d = tree_token_sum d'"
  by (simp add: token_sum_def tree_token_sum_def dict_sum_mset)

lemma entries_ok_move:
  assumes "entries_ok c"
  shows "entries_ok (c\<lparr>cache_entries := move_to_end k (cache_entries c)\<rparr>)"
proof -
  have wf: "wf_dict (cache_entries c)" using assms by (simp add: entries_ok_def)
  show ?thesis
    using assms set_move_to_end [OF wf, of k] token_sum_mset [OF mset_move_to_end [OF wf, of k]] wf_move_to_end [OF wf, of k]
    by (simp add: entries_ok_def)
qed

lemma cache_inv_move:
  assumes "cache_inv c"
  shows "cache_inv (c\<lparr>cache_entries := move_to_end k (cache_entries c)\<rparr>)"
proof -
  have wf: "wf_dict (cache_entries c)" using assms by (simp add: cache_inv_def entries_ok_def)
  have "set (dict_values (cache_entries c)) = set (dict_values (move_to_end k (cache_entries c)))"
    using set_move_to_end [OF wf, of k] by simp
  note same = this
  have "tree_ok (nat (page_size c)) (dict_values (move_to_end k (cache_entries c))) (cache_root c)"
    by (rule tree_ok_set [OF _ same]) (use assms in \<open>simp add: cache_inv_def\<close>)
  then show ?thesis using assms entries_ok_move [of c k] by (simp add: cache_inv_def)
qed

text \<open>The entry an insertion makes, and the cache before it enforces its limits.\<close>

definition new_entry :: "ns_key \<Rightarrow> int list \<Rightarrow> 'p \<Rightarrow> 'p prefix_cache \<Rightarrow> 'p prefix_entry" where
  "new_entry ns tokens prefill c = \<lparr>entry_key = (ns, tokens), entry_extra = ns, entry_tokens = tokens,
     entry_tree_tokens = page_aligned_tokens tokens (page_size c), entry_prefill = prefill\<rparr>"

definition with_entry :: "'p prefix_entry \<Rightarrow> 'p prefix_cache \<Rightarrow> 'p prefix_cache" where
  "with_entry e c = c\<lparr>cache_entries := dict_pop (entry_key e) (cache_entries c) @ [(entry_key e, e)],
     total_tokens := token_sum (dict_pop (entry_key e) (cache_entries c)) + int (length (entry_tokens e)),
     total_tree_tokens := tree_token_sum (dict_pop (entry_key e) (cache_entries c)) + int (length (entry_tree_tokens e)),
     insertions := insertions c + 1\<rparr>"

lemma dict_sum_pop_eq: "wf_dict d \<Longrightarrow> dict_sum f (dict_pop k d) = dict_sum f d - (case map_of d k of None \<Rightarrow> 0 | Some v \<Rightarrow> f v)"
proof (cases "map_of d k")
  case None
  assume "wf_dict d"
  have "k \<notin> fst ` set d" using None by (simp add: map_of_eq_None_iff)
  then have "dict_pop k d = d" by (rule delete_id)
  then show ?thesis using None by simp
next
  case (Some v)
  assume "wf_dict d"
  then show ?thesis using dict_sum_pop [OF _ Some, of f] Some by simp
qed

lemma move_set_eq: "wf_dict d \<Longrightarrow> move_to_end k (dict_set k v d) = dict_pop k d @ [(k, v)]"
proof -
  assume "wf_dict d"
  have "dict_pop k (dict_set k v d) = dict_pop k d" by (induction d) auto
  then show ?thesis by (simp add: move_to_end_def dict_lookup)
qed

lemma cache_insert_eq:
  assumes ok: "entries_ok c" and go: "cache_max_entries c \<noteq> Some 0" "cache_max_tokens c \<noteq> Some 0"
    and ids: "input_ids_to_token_tuple ids = Inr tokens" "tokens \<noteq> []"
      "\<forall>m. cache_max_tokens c = Some m \<longrightarrow> int (length tokens) \<le> m"
  shows "cache_insert ids prefill extra c =
     bind_res (enforce_capacity (with_entry (new_entry (normalize_extra_key extra) tokens prefill c) c)) (\<lambda>(_, c2).
       bind_res (rebuild_tree c2) (\<lambda>c3. Inr (True, c3)))"
proof -
  have wf: "wf_dict (cache_entries c)" and tot: "total_tokens c = token_sum (cache_entries c)"
    "total_tree_tokens c = tree_token_sum (cache_entries c)" using ok by (simp_all add: entries_ok_def)
  show ?thesis
    using go ids tot
    by (auto simp: cache_insert_def Let_def with_entry_def new_entry_def move_set_eq [OF wf] token_sum_def tree_token_sum_def
        dict_sum_pop_eq [OF wf] split: option.splits)
qed

lemma with_entry_ok:
  assumes ok: "entries_ok c" and e: "entry_ok (page_size c) (entry_key e, e)"
  shows "entries_ok (with_entry e c)"
proof -
  have wf: "wf_dict (cache_entries c)" using ok by (simp add: entries_ok_def)
  let ?d = "dict_pop (entry_key e) (cache_entries c)"
  have "entry_key e \<notin> set (dict_keys ?d)" by (simp add: dict_pop_keys del: set_map)
  then have "wf_dict (?d @ [(entry_key e, e)])" using wf_dict_pop [OF wf, of "entry_key e"] by simp
  then show ?thesis
    using ok e dict_pop_subset [of "entry_key e" "cache_entries c"]
    by (auto simp: entries_ok_def with_entry_def token_sum_def tree_token_sum_def)
qed

lemma cache_insert_spec:
  assumes ok: "entries_ok c" and go: "cache_max_entries c \<noteq> Some 0" "cache_max_tokens c \<noteq> Some 0"
    and ids: "input_ids_to_token_tuple ids = Inr tokens" "tokens \<noteq> []"
      "\<forall>m. cache_max_tokens c = Some m \<longrightarrow> int (length tokens) \<le> m"
  shows "\<exists>c' k. cache_insert ids prefill extra c = Inr (True, c') \<and> cache_inv c' \<and> capacity_ok c'
    \<and> cache_entries c' = drop k (dict_pop (normalize_extra_key extra, tokens) (cache_entries c))
        @ [((normalize_extra_key extra, tokens), new_entry (normalize_extra_key extra) tokens prefill c)]
    \<and> k \<le> length (dict_pop (normalize_extra_key extra, tokens) (cache_entries c))
    \<and> evictions c' = evictions c + int k
    \<and> cache_max_entries c' = cache_max_entries c \<and> cache_max_tokens c' = cache_max_tokens c \<and> page_size c' = page_size c
    \<and> (\<forall>j < k. over_capacity c (drop j (dict_pop (normalize_extra_key extra, tokens) (cache_entries c))
        @ [((normalize_extra_key extra, tokens), new_entry (normalize_extra_key extra) tokens prefill c)]))"
proof -
  let ?ns = "normalize_extra_key extra"
  let ?e = "new_entry ?ns tokens prefill c" and ?d = "dict_pop (?ns, tokens) (cache_entries c)"
  let ?c1 = "with_entry ?e c"
  have key: "entry_key ?e = (?ns, tokens)" by (simp add: new_entry_def)
  have ents: "cache_entries ?c1 = ?d @ [((?ns, tokens), ?e)]" by (simp add: with_entry_def key)
  have same: "cache_max_entries ?c1 = cache_max_entries c" "cache_max_tokens ?c1 = cache_max_tokens c"
    "page_size ?c1 = page_size c" "evictions ?c1 = evictions c" by (simp_all add: with_entry_def)
  have ok1: "entries_ok ?c1" using ids(2) by (intro with_entry_ok [OF ok]) (simp add: entry_ok_def new_entry_def)
  obtain b c2 k where c2: "enforce_capacity ?c1 = Inr (b, c2)" "cache_entries c2 = drop k (?d @ [((?ns, tokens), ?e)])"
    "entries_ok c2" "capacity_ok c2" "\<forall>j < k. over_capacity ?c1 (drop j (?d @ [((?ns, tokens), ?e)]))"
    "cache_max_entries c2 = cache_max_entries c" "cache_max_tokens c2 = cache_max_tokens c" "page_size c2 = page_size c"
    "evictions c2 = evictions c + int k"
    using enforce_capacity_spec [OF ok1] unfolding ents same by blast
  have k: "k \<le> length ?d"
  proof (rule ccontr)
    assume "\<not> k \<le> length ?d"
    then have "over_capacity ?c1 [((?ns, tokens), ?e)]" using c2(5) [rule_format, of "length ?d"] by simp
    moreover have "\<forall>m. cache_max_entries c = Some m \<longrightarrow> 0 < m"
      using go(1) ok by (auto simp: entries_ok_def check_limits_ok order_less_le)
    moreover have "entry_tokens ?e = tokens" by (simp add: new_entry_def)
    ultimately show False using ids(3) by (auto simp: over_capacity_def same)
  qed
  obtain c3 where c3: "rebuild_tree c2 = Inr c3" "cache_inv c3" "cache_entries c3 = cache_entries c2"
    "cache_max_entries c3 = cache_max_entries c2" "cache_max_tokens c3 = cache_max_tokens c2" "page_size c3 = page_size c2"
    "evictions c3 = evictions c2"
    using rebuild_ok [OF c2(3)] by blast
  have "cache_insert ids prefill extra c = Inr (True, c3)"
    using cache_insert_eq [OF ok go ids] c2(1) c3(1) by simp
  moreover have "\<forall>j < k. over_capacity c (drop j ?d @ [((?ns, tokens), ?e)])"
    using c2(5) k same(1,2) by (simp add: over_capacity_def)
  moreover have "capacity_ok c3" by (rule capacity_ok_cong [OF c3(3,4,5) c2(4)])
  ultimately show ?thesis using c2 c3 k by (intro exI [of _ c3] exI [of _ k]) simp
qed


lemma realign_ok:
  assumes "entries_ok c" and "check_cache_limits en tk page = Inr ()"
  shows "entries_ok (recompute_tree_tokens (c\<lparr>cache_max_entries := en, cache_max_tokens := tk, page_size := page\<rparr>))"
proof -
  let ?f = "\<lambda>(k, e). (k, (realign_entry page e)\<lparr>entry_key := k\<rparr>)"
  let ?d = "map ?f (cache_entries c)"
  have "dict_keys ?d = dict_keys (cache_entries c)" by (simp add: comp_def case_prod_unfold)
  then have wf: "wf_dict ?d" using assms(1) by (simp only: entries_ok_def)
  have sum: "token_sum (map ?f d) = token_sum d" for d :: "(ns_key \<times> int list, 'a prefix_entry) dict"
    by (induction d) (auto simp: realign_entry_def)
  have each: "\<forall>p \<in> set ?d. entry_ok page p"
    using assms(1) by (auto simp: entries_ok_def entry_ok_def realign_entry_def)
  have "recompute_tree_tokens (c\<lparr>cache_max_entries := en, cache_max_tokens := tk, page_size := page\<rparr>) =
      c\<lparr>cache_max_entries := en, cache_max_tokens := tk, page_size := page, cache_entries := ?d, total_tree_tokens := tree_token_sum ?d\<rparr>"
    by (simp add: recompute_tree_tokens_def tree_token_sum_def Let_def)
  then show ?thesis
    using assms wf each sum [of "cache_entries c"] unfolding entries_ok_def by (simp del: set_map)
qed

lemma configure_inv:
  assumes "cache_inv c"
  shows "case cache_configure en tk page c of Inl e \<Rightarrow> True | Inr c' \<Rightarrow> cache_inv c' \<and> (page = page_size c \<longrightarrow> capacity_ok c')"
proof (cases "check_cache_limits en tk page = Inr ()")
  case False
  then have "\<exists>e. check_cache_limits en tk page = Inl e" by (cases "check_cache_limits en tk page") auto
  then show ?thesis by (auto simp: cache_configure_def)
next
  case True
  have ok: "entries_ok c" using assms by (simp add: cache_inv_def)
  let ?c1 = "c\<lparr>cache_max_entries := en, cache_max_tokens := tk, page_size := page\<rparr>"
  show ?thesis
  proof (cases "page = page_size c")
    case False
    obtain c' where "rebuild_tree (recompute_tree_tokens ?c1) = Inr c'" "cache_inv c'"
      using rebuild_ok [OF realign_ok [OF ok True]] by blast
    then show ?thesis using True False by (simp add: cache_configure_def Let_def)
  next
    case page: True
    have ok1: "entries_ok ?c1" using ok True page by (simp add: entries_ok_def)
    obtain b c2 where c2: "enforce_capacity ?c1 = Inr (b, c2)" "entries_ok c2" "capacity_ok c2" "\<not> b \<longrightarrow> c2 = ?c1"
      using enforce_capacity_spec [OF ok1] by blast
    obtain c3 where c3: "rebuild_tree c2 = Inr c3" "cache_inv c3" "cache_entries c3 = cache_entries c2"
      "cache_max_entries c3 = cache_max_entries c2" "cache_max_tokens c3 = cache_max_tokens c2"
      using rebuild_ok [OF c2(2)] by blast
    have "cache_inv ?c1" using assms ok1 page by (simp add: cache_inv_def)
    then show ?thesis
      using True page c2 c3 capacity_ok_cong [OF c3(3,4,5) c2(3)] by (cases b) (auto simp: cache_configure_def Let_def)
  qed
qed

lemma insert_inv:
  assumes "cache_inv c"
  shows "case cache_insert ids prefill extra c of Inl e \<Rightarrow> True | Inr (b, c') \<Rightarrow> cache_inv c' \<and> (b \<longrightarrow> capacity_ok c')"
proof -
  have ok: "entries_ok c" using assms by (simp add: cache_inv_def)
  have skip: "cache_inv (c\<lparr>skipped_insertions := n\<rparr>)" for n using assms by (simp add: cache_inv_def entries_ok_def)
  show ?thesis
  proof (cases "cache_max_entries c = Some 0 \<or> cache_max_tokens c = Some 0")
    case True
    then show ?thesis using skip by (simp add: cache_insert_def)
  next
    case go: False
    show ?thesis
    proof (cases "input_ids_to_token_tuple ids")
      case (Inl e)
      then show ?thesis using go by (simp add: cache_insert_def)
    next
      case (Inr tokens)
      show ?thesis
      proof (cases "tokens = [] \<or> (case cache_max_tokens c of None \<Rightarrow> False | Some m \<Rightarrow> int (length tokens) > m)")
        case True
        then show ?thesis using go Inr skip by (simp add: cache_insert_def)
      next
        case False
        then have "tokens \<noteq> []" "\<forall>m. cache_max_tokens c = Some m \<longrightarrow> int (length tokens) \<le> m" by auto
        then obtain c' where "cache_insert ids prefill extra c = Inr (True, c')" "cache_inv c'" "capacity_ok c'"
          using cache_insert_spec [OF ok _ _ Inr] go by blast
        then show ?thesis by simp
      qed
    qed
  qed
qed

lemma walk_root:
  assumes "cache_inv c" and that: "nat (page_size c) dvd length q"
  shows "(longest_match (nat (page_size c)) (dict_values (cache_entries c)) x q = 0 \<and> walk (page_size c) x q 0 None (cache_root c) = None)
    \<or> (\<exists>e \<in> set (dict_values (cache_entries c)). entry_extra e = x
         \<and> 0 < longest_match (nat (page_size c)) (dict_values (cache_entries c)) x q
         \<and> walk (page_size c) x q 0 None (cache_root c) = Some (e, longest_match (nat (page_size c)) (dict_values (cache_entries c)) x q)
         \<and> prefix (take (longest_match (nat (page_size c)) (dict_values (cache_entries c)) x q) q) (entry_tree_tokens e))"
proof -
  have page: "0 < page_size c" using assms by (simp add: cache_inv_def entries_ok_def check_limits_ok)
  have t: "wf_node (nat (page_size c)) (cache_root c)"
    "children_ok {e \<in> set (dict_values (cache_entries c)). entry_extra e = x} x [] (cache_root c)"
    "walk_len (nat (page_size c)) x q (cache_root c) = longest_match (nat (page_size c)) (dict_values (cache_entries c)) x q"
    using assms that by (simp_all add: cache_inv_def tree_ok_def)
  show ?thesis using walk_spec [OF page t(1,2) that, of 0 None] by (simp add: t(3)) blast
qed

lemma match_inv:
  assumes "cache_inv c"
  shows "case cache_match ids extra c of Inl e \<Rightarrow> True | Inr (m, c') \<Rightarrow> cache_inv c'"
proof (cases "input_ids_to_token_tuple ids")
  case (Inl e)
  then show ?thesis by (simp add: cache_match_def)
next
  case (Inr tokens)
  then show ?thesis
    using assms cache_inv_move [OF assms]
    by (auto simp: cache_match_def Let_def split: sum.splits option.splits prod.splits if_splits)
qed

section \<open>Reachable caches\<close>

inductive cache_reachable :: "'p prefix_cache \<Rightarrow> bool" where
  construct: "mk_prefix_cache en tk page = Inr c \<Longrightarrow> cache_reachable c"
| insert: "cache_reachable c \<Longrightarrow> cache_insert ids prefill extra c = Inr (b, c') \<Longrightarrow> cache_reachable c'"
| lookup: "cache_reachable c \<Longrightarrow> cache_match ids extra c = Inr (m, c') \<Longrightarrow> cache_reachable c'"
| configure: "cache_reachable c \<Longrightarrow> cache_configure en tk page c = Inr c' \<Longrightarrow> cache_reachable c'"
| clear: "cache_reachable c \<Longrightarrow> cache_reachable (cache_clear c)"

lemma cache_reachable_inv: "cache_reachable c \<Longrightarrow> cache_inv c"
proof (induction rule: cache_reachable.induct)
  case (construct en tk page c)
  then show ?case
    by (cases "check_cache_limits en tk page") (auto simp: mk_prefix_cache_def cache_inv_def entries_ok_def tree_ok_empty)
next
  case (insert c ids prefill extra b c')
  then show ?case using insert_inv [OF insert.IH, of ids prefill extra] by simp
next
  case (lookup c ids extra m c')
  then show ?case using match_inv [OF lookup.IH, of ids extra] by simp
next
  case (configure c en tk page c')
  then show ?case using configure_inv [OF configure.IH, where en = en and tk = tk and page = page] by simp
next
  case (clear c)
  then show ?case by (simp add: cache_clear_def cache_inv_def entries_ok_def tree_ok_empty)
qed


section \<open>Examples\<close>

text \<open>Pages of two tokens, at most three entries and twelve tokens; three prompts, one of them in a
  namespace of its own.\<close>

definition ex_cache :: "nat prefix_cache" where
  "ex_cache =
     (case mk_prefix_cache (Some 3) (Some 12) 2 of Inr c0 \<Rightarrow>
      case cache_insert (IdsFlat [1, 2, 3, 4]) 10 EKNone c0 of Inr (_, c1) \<Rightarrow>
      case cache_insert (IdsRows [[1, 2, 5, 6, 7]]) 20 EKNone c1 of Inr (_, c2) \<Rightarrow>
      case cache_insert (IdsFlat [1, 2, 3]) 30 (EKStr ''tenant'') c2 of Inr (_, c3) \<Rightarrow> c3)"

lemma ex_cache_reachable: "cache_reachable ex_cache"
proof -
  have total: "is_ok (mk_prefix_cache (Some 3) (Some 12) 2 :: nat prefix_cache py_result)
      \<and> (case mk_prefix_cache (Some 3) (Some 12) 2 :: nat prefix_cache py_result of Inr c0 \<Rightarrow>
           is_ok (cache_insert (IdsFlat [1, 2, 3, 4]) 10 EKNone c0)
           \<and> (case cache_insert (IdsFlat [1, 2, 3, 4]) 10 EKNone c0 of Inr (_, c1) \<Rightarrow>
                is_ok (cache_insert (IdsRows [[1, 2, 5, 6, 7]]) 20 EKNone c1)
                \<and> (case cache_insert (IdsRows [[1, 2, 5, 6, 7]]) 20 EKNone c1 of Inr (_, c2) \<Rightarrow>
                     is_ok (cache_insert (IdsFlat [1, 2, 3]) 30 (EKStr ''tenant'') c2))))"
    by code_simp
  obtain c0 :: "nat prefix_cache" where c0: "mk_prefix_cache (Some 3) (Some 12) 2 = Inr c0"
    using total by (auto simp: is_ok_iff)
  obtain b1 c1 where c1: "cache_insert (IdsFlat [1, 2, 3, 4]) 10 EKNone c0 = Inr (b1, c1)"
    using total c0 by (auto simp: is_ok_iff)
  obtain b2 c2 where c2: "cache_insert (IdsRows [[1, 2, 5, 6, 7]]) 20 EKNone c1 = Inr (b2, c2)"
    using total c0 c1 by (auto simp: is_ok_iff)
  obtain b3 c3 where c3: "cache_insert (IdsFlat [1, 2, 3]) 30 (EKStr ''tenant'') c2 = Inr (b3, c3)"
    using total c0 c1 c2 by (auto simp: is_ok_iff)
  have "ex_cache = c3" using c0 c1 c2 c3 by (simp add: ex_cache_def)
  then show ?thesis using cache_reachable.construct [OF c0] c1 c2 c3 by (blast intro: cache_reachable.insert)
qed

section \<open>Properties\<close>

text \<open>C35: lookup refines the search through all entries: for a prompt that is not cached itself, \<open>match\<close>
  finds something exactly when some entry of the prompt's namespace shares at least one page with it;
  the length it reports is the longest page-aligned prefix the prompt shares with any entry of that
  namespace, the prefill it returns belongs to an entry of that namespace whose first so many tokens
  are those of the prompt, and all that changes is that this entry becomes the most recent one.\<close>

theorem match_refines_longest_prefix:
  assumes "cache_reachable c" and "input_ids_to_token_tuple ids = Inr tokens" and "tokens \<noteq> []"
    and "map_of (cache_entries c) (normalize_extra_key extra, tokens) = None"
    and "L = longest_match (nat (page_size c)) (dict_values (cache_entries c)) (normalize_extra_key extra)
               (page_aligned_tokens tokens (page_size c))"
  shows "if L = 0 then cache_match ids extra c = Inr (None, c)
    else \<exists>e \<in> set (dict_values (cache_entries c)). entry_extra e = normalize_extra_key extra
      \<and> take L (entry_tokens e) = take L tokens \<and> L \<le> length tokens
      \<and> cache_match ids extra c =
          Inr (Some \<lparr>match_len = L, match_prefill = entry_prefill e, match_exact = False,
                     match_source_token_count = length (entry_tokens e)\<rparr>,
               c\<lparr>cache_entries := move_to_end (entry_key e) (cache_entries c)\<rparr>)"
proof -
  note inv = cache_reachable_inv [OF assms(1)]
  let ?q = "page_aligned_tokens tokens (page_size c)" and ?x = "normalize_extra_key extra"
  have page: "0 < page_size c" using inv by (simp add: cache_inv_def entries_ok_def check_limits_ok)
  have W: "(L = 0 \<and> walk (page_size c) ?x ?q 0 None (cache_root c) = None)
    \<or> (\<exists>e \<in> set (dict_values (cache_entries c)). entry_extra e = ?x \<and> 0 < L
         \<and> walk (page_size c) ?x ?q 0 None (cache_root c) = Some (e, L) \<and> prefix (take L ?q) (entry_tree_tokens e))"
    unfolding assms(5) by (rule walk_root [OF inv aligned_dvd [OF page]])
  show ?thesis
  proof (cases "L = 0")
    case True
    then have "walk (page_size c) ?x ?q 0 None (cache_root c) = None" using W by blast
    then show ?thesis using True assms(2,3,4) by (simp add: cache_match_def Let_def)
  next
    case False
    then obtain e where e: "e \<in> set (dict_values (cache_entries c))" "entry_extra e = ?x"
      "walk (page_size c) ?x ?q 0 None (cache_root c) = Some (e, L)" "prefix (take L ?q) (entry_tree_tokens e)"
      using W by blast
    have Lq: "L \<le> length ?q"
      using longest_match_attained [of "nat (page_size c)" "dict_values (cache_entries c)" ?x ?q] alcp_le(1) assms(5) by fastforce
    have qt: "take n ?q = take n tokens" if "n \<le> length ?q" for n
      using that by (simp add: page_aligned_eq [OF page] min_absorb1)
    have et: "entry_tree_tokens e = page_aligned_tokens (entry_tokens e) (page_size c)"
      using e(1) inv by (auto simp: cache_inv_def entries_ok_def entry_ok_def)
    then have pt: "prefix (entry_tree_tokens e) (entry_tokens e)" by (simp add: page_aligned_eq [OF page] take_is_prefix)
    have "prefix (take L tokens) (entry_tokens e)" using prefix_order.trans [OF e(4) pt] qt [OF Lq] by simp
    moreover have "L \<le> length tokens" by (rule order_trans [OF Lq]) (simp add: page_aligned_eq [OF page])
    ultimately have "take L (entry_tokens e) = take L tokens" by (auto simp: prefix_def)
    moreover have "?q \<noteq> []" using Lq False by auto
    moreover have "cache_entries c \<noteq> []" using e(1) by auto
    ultimately show ?thesis
      using False e \<open>L \<le> length tokens\<close> assms(2,3,4) by (auto simp: cache_match_def Let_def)
  qed
qed

theorem match_refines_longest_prefix_witness:
  "\<exists>e \<in> set (dict_values (cache_entries ex_cache)). take 2 (entry_tokens e) = [1, 2]
     \<and> cache_match (IdsFlat [1, 2, 3, 9]) EKNone ex_cache =
         Inr (Some \<lparr>match_len = 2, match_prefill = entry_prefill e, match_exact = False,
                    match_source_token_count = length (entry_tokens e)\<rparr>,
              ex_cache\<lparr>cache_entries := move_to_end (entry_key e) (cache_entries ex_cache)\<rparr>)"
proof -
  have "longest_match (nat (page_size ex_cache)) (dict_values (cache_entries ex_cache)) (normalize_extra_key EKNone)
        (page_aligned_tokens [1, 2, 3, 9] (page_size ex_cache)) = 2
      \<and> map_of (cache_entries ex_cache) (normalize_extra_key EKNone, [1, 2, 3, 9]) = None"
    by code_simp
  then show ?thesis
    using match_refines_longest_prefix [OF ex_cache_reachable, of "IdsFlat [1, 2, 3, 9]" "[1, 2, 3, 9]" EKNone 2] by auto
qed

text \<open>C36: what was inserted is found: after an insertion that was not skipped, looking up the same
  prompt in an equal namespace is an exact hit of the full length on the inserted prefill.\<close>

theorem insert_then_match_is_exact:
  assumes "cache_reachable c" and "cache_insert ids prefill extra c = Inr (True, c')"
    and "input_ids_to_token_tuple ids' = input_ids_to_token_tuple ids"
    and "normalize_extra_key extra' = normalize_extra_key extra"
  shows "\<exists>tokens c''. input_ids_to_token_tuple ids = Inr tokens
    \<and> cache_match ids' extra' c' = Inr (Some \<lparr>match_len = length tokens, match_prefill = prefill, match_exact = True,
         match_source_token_count = length tokens\<rparr>, c'')"
proof -
  have ok: "entries_ok c" using cache_reachable_inv [OF assms(1)] by (simp add: cache_inv_def)
  have go: "cache_max_entries c \<noteq> Some 0" "cache_max_tokens c \<noteq> Some 0"
    using assms(2) by (auto simp: cache_insert_def split: if_splits)
  obtain tokens where tokens: "input_ids_to_token_tuple ids = Inr tokens"
    using assms(2) go by (cases "input_ids_to_token_tuple ids") (auto simp: cache_insert_def)
  then have t: "tokens \<noteq> []" "\<forall>m. cache_max_tokens c = Some m \<longrightarrow> int (length tokens) \<le> m"
    using assms(2) go by (auto simp: cache_insert_def not_less split: if_splits option.splits)
  obtain k where ents: "cache_entries c' = drop k (dict_pop (normalize_extra_key extra, tokens) (cache_entries c))
        @ [((normalize_extra_key extra, tokens), new_entry (normalize_extra_key extra) tokens prefill c)]" and inv': "cache_inv c'"
    using cache_insert_spec [OF ok go tokens t, of prefill extra] assms(2) by auto
  have wf: "wf_dict (cache_entries c')" using inv' by (simp add: cache_inv_def entries_ok_def)
  have "((normalize_extra_key extra, tokens), new_entry (normalize_extra_key extra) tokens prefill c) \<in> set (cache_entries c')"
    unfolding ents by simp
  then have "map_of (cache_entries c') (normalize_extra_key extra, tokens) = Some (new_entry (normalize_extra_key extra) tokens prefill c)"
    by (rule map_of_is_SomeI [OF wf])
  then show ?thesis
    using tokens t(1) ents assms(3,4) by (simp add: cache_match_def new_entry_def Let_def)
qed

theorem insert_then_match_is_exact_witness:
  "\<exists>c' c''. cache_insert (IdsFlat [8, 9]) 40 (EKInt 1) ex_cache = Inr (True, c')
     \<and> cache_match (IdsRows [[8, 9]]) (EKBool True) c' = Inr (Some \<lparr>match_len = 2, match_prefill = 40, match_exact = True,
         match_source_token_count = 2\<rparr>, c'')"
proof -
  have "case cache_insert (IdsFlat [8, 9]) 40 (EKInt 1) ex_cache of Inl _ \<Rightarrow> False | Inr (b, _) \<Rightarrow> b" by code_simp
  then obtain c' where "cache_insert (IdsFlat [8, 9]) 40 (EKInt 1) ex_cache = Inr (True, c')" by (auto split: sum.splits)
  then show ?thesis
    using insert_then_match_is_exact [OF ex_cache_reachable, of "IdsFlat [8, 9]" 40 "EKInt 1" c' "IdsRows [[8, 9]]" "EKBool True"]
    by auto
qed

text \<open>C37: an insertion that is not skipped leaves the cache within both limits with exact token totals,
  and evicts the least recently used entries, no more of them than the limits ask for: one fewer
  would have been over a limit.\<close>

theorem insert_evicts_oldest_and_fewest:
  assumes "cache_reachable c" and "cache_insert ids prefill extra c = Inr (True, c')"
    and "input_ids_to_token_tuple ids = Inr tokens"
  shows "\<exists>k old. old = dict_pop (normalize_extra_key extra, tokens) (cache_entries c)
      @ [((normalize_extra_key extra, tokens), new_entry (normalize_extra_key extra) tokens prefill c)]
    \<and> cache_entries c' = drop k old \<and> evictions c' = evictions c + int k
    \<and> \<not> over_capacity c (cache_entries c') \<and> (\<forall>j < k. over_capacity c (drop j old))
    \<and> total_tokens c' = token_sum (cache_entries c') \<and> total_tree_tokens c' = tree_token_sum (cache_entries c')"
proof -
  let ?old = "dict_pop (normalize_extra_key extra, tokens) (cache_entries c)
      @ [((normalize_extra_key extra, tokens), new_entry (normalize_extra_key extra) tokens prefill c)]"
  have ok: "entries_ok c" using cache_reachable_inv [OF assms(1)] by (simp add: cache_inv_def)
  have go: "cache_max_entries c \<noteq> Some 0" "cache_max_tokens c \<noteq> Some 0"
    using assms(2) by (auto simp: cache_insert_def split: if_splits)
  have t: "tokens \<noteq> []" "\<forall>m. cache_max_tokens c = Some m \<longrightarrow> int (length tokens) \<le> m"
    using assms(2,3) go by (auto simp: cache_insert_def not_less split: if_splits option.splits)
  obtain k where k: "cache_inv c'" "capacity_ok c'" "cache_entries c' = drop k (dict_pop (normalize_extra_key extra, tokens) (cache_entries c))
        @ [((normalize_extra_key extra, tokens), new_entry (normalize_extra_key extra) tokens prefill c)]"
      "k \<le> length (dict_pop (normalize_extra_key extra, tokens) (cache_entries c))" "evictions c' = evictions c + int k"
      "cache_max_entries c' = cache_max_entries c" "cache_max_tokens c' = cache_max_tokens c"
      "\<forall>j < k. over_capacity c (drop j (dict_pop (normalize_extra_key extra, tokens) (cache_entries c))
        @ [((normalize_extra_key extra, tokens), new_entry (normalize_extra_key extra) tokens prefill c)])"
    using cache_insert_spec [OF ok go assms(3) t, of prefill extra] assms(2) by auto
  have "\<not> over_capacity c (cache_entries c')"
    using k(2,6,7) by (auto simp: capacity_ok_def over_capacity_def not_less split: option.splits)
  moreover have "cache_entries c' = drop k ?old" "\<forall>j < k. over_capacity c (drop j ?old)" using k(3,4,8) by simp_all
  ultimately show ?thesis using k(1,5) by (auto simp: cache_inv_def entries_ok_def)
qed

theorem insert_evicts_oldest_and_fewest_witness:
  "\<exists>c'. cache_insert (IdsFlat [8, 9]) 40 (EKInt 1) ex_cache = Inr (True, c') \<and> \<not> over_capacity ex_cache (cache_entries c')
     \<and> total_tokens c' = token_sum (cache_entries c')"
proof -
  have "case cache_insert (IdsFlat [8, 9]) 40 (EKInt 1) ex_cache of Inl _ \<Rightarrow> False | Inr (b, _) \<Rightarrow> b" by code_simp
  then obtain c' where c': "cache_insert (IdsFlat [8, 9]) 40 (EKInt 1) ex_cache = Inr (True, c')" by (auto split: sum.splits)
  show ?thesis using insert_evicts_oldest_and_fewest [OF ex_cache_reachable c', of "[8, 9]"] c' by auto
qed


end
