(* ===== verification/GR_Api.thy ===== *)
theory GR_Api
  imports GR_Continuous_Props
begin

text \<open>
  The in-process serving facade, \<open>GRInProcessServingFacade\<close> of \<open>gr_serving/api.py\<close>, over the continuous
  scheduler as its executor and over the item-catalog store. A method returns its result or exception
  together with the facade it leaves.
\<close>

section \<open>The facade\<close>

record serving_facade =
  fac_scheduler :: sched
  fac_store :: "ProviderStore option"
  accepting_requests :: bool

type_synonym 'a facade_result = "'a py_result \<times> serving_facade"

definition prepare_request :: "serving_facade \<Rightarrow> GRServingRequest \<Rightarrow> GRServingRequest" where
  "prepare_request f r =
     (case (item_mask_provider r, fac_store f) of
        (None, Some store) \<Rightarrow> r\<lparr>item_mask_provider := Some (store_provider store)\<rparr>
      | _ \<Rightarrow> r)"

definition ensure_request_ids_available :: "string list \<Rightarrow> serving_facade \<Rightarrow> unit py_result" where
  "ensure_request_ids_available ids f =
     (if filter (\<lambda>i. i \<in> set (dict_keys (states (fac_scheduler f)))) ids \<noteq> []
      then Inl (RuntimeError ''duplicate request_id'') else Inr ())"

fun ensure_unique_request_ids :: "string list \<Rightarrow> string list \<Rightarrow> unit py_result" where
  "ensure_unique_request_ids [] seen = Inr ()"
| "ensure_unique_request_ids (i # ids) seen =
     (if i \<in> set seen then Inl (RuntimeError ''duplicate request_id in batch'')
      else ensure_unique_request_ids ids (i # seen))"

definition executor_submit :: "GRServingRequest \<Rightarrow> serving_facade \<Rightarrow> unit facade_result" where
  "executor_submit r f = (case submit r (fac_scheduler f) of (res, s) \<Rightarrow> (res, f\<lparr>fac_scheduler := s\<rparr>))"

definition facade_submit :: "GRServingRequest \<Rightarrow> serving_facade \<Rightarrow> string facade_result" where
  "facade_submit r f =
     (if \<not> accepting_requests f then (Inl (RuntimeError ''serving facade is draining; rejecting new request''), f)
      else
        let prepared = prepare_request f r
        in case bind_res (validate_request prepared) (\<lambda>_. ensure_request_ids_available [request_id prepared] f) of
             Inl e \<Rightarrow> (Inl e, f)
           | Inr _ \<Rightarrow> bind_st (executor_submit prepared f) (\<lambda>_ f1. (Inr (request_id prepared), f1)))"

fun submit_each :: "GRServingRequest list \<Rightarrow> serving_facade \<Rightarrow> unit facade_result" where
  "submit_each [] f = (Inr (), f)"
| "submit_each (r # rs) f = bind_st (executor_submit r f) (\<lambda>_ f1. submit_each rs f1)"

definition facade_submit_many :: "GRServingRequest list \<Rightarrow> serving_facade \<Rightarrow> string list facade_result" where
  "facade_submit_many rs f =
     (if \<not> accepting_requests f then (Inl (RuntimeError ''serving facade is draining; rejecting new requests''), f)
      else
        let prepared = map (prepare_request f) rs; ids = map request_id prepared
        in case bind_res (map_res validate_request prepared) (\<lambda>_.
                bind_res (ensure_unique_request_ids ids []) (\<lambda>_. ensure_request_ids_available ids f)) of
             Inl e \<Rightarrow> (Inl e, f)
           | Inr _ \<Rightarrow> bind_st (submit_each prepared f) (\<lambda>_ f1. (Inr ids, f1)))"

definition facade_tick :: "serving_facade \<Rightarrow> GRContinuousTickResult facade_result" where
  "facade_tick f = (case tick None default_decode (fac_scheduler f) of (res, s) \<Rightarrow> (res, f\<lparr>fac_scheduler := s\<rparr>))"

text \<open>The run of the executor, with the fuel of its loop.\<close>

definition run_until_idle :: "nat \<Rightarrow> int option \<Rightarrow> bool \<Rightarrow> serving_facade \<Rightarrow> GRServingResponse list facade_result option" where
  "run_until_idle fuel max_ticks timeout_unfinished f =
     map_option (\<lambda>(res, s). (res, f\<lparr>fac_scheduler := s\<rparr>))
       (run_until_empty fuel max_ticks timeout_unfinished (fac_scheduler f))"

definition poll :: "string \<Rightarrow> serving_facade \<Rightarrow> GRServingResponse option" where
  "poll rid f = map_of (finished (fac_scheduler f)) rid"

definition require_result :: "string \<Rightarrow> serving_facade \<Rightarrow> GRServingResponse py_result" where
  "require_result rid f =
     (case poll rid f of None \<Rightarrow> Inl (KeyError ''request has not finished'') | Some r \<Rightarrow> Inr r)"

definition facade_cancel :: "string \<Rightarrow> string \<Rightarrow> serving_facade \<Rightarrow> GRServingResponse facade_result" where
  "facade_cancel rid reason f =
     (case cancel rid reason (fac_scheduler f) of (res, s) \<Rightarrow> (res, f\<lparr>fac_scheduler := s\<rparr>))"

section \<open>Status\<close>

fun stage_name :: "request_stage \<Rightarrow> string" where
  "stage_name WaitingPrefill = ''waiting_prefill''"
| "stage_name Decoding = ''decoding''"
| "stage_name Finished = ''finished''"

fun policy_type_name :: "beam_width_policy \<Rightarrow> string" where
  "policy_type_name (FixedBeamPolicy w) = ''FixedBeamPolicy''"
| "policy_type_name (ScheduledBeamPolicy d) = ''ScheduledBeamPolicy''"
| "policy_type_name (ScoreMarginBeamPolicy p) = ''ScoreMarginBeamPolicy''"

text \<open>A dictionary from steps to widths, as the list of its items.\<close>

definition width_items :: "(int, int) dict \<Rightarrow> pyval" where
  "width_items d = PList (map (\<lambda>(k, w). PList [PInt k, PInt w]) d)"

definition beam_width_policy_payload :: "beam_width_policy option \<Rightarrow> pyval" where
  "beam_width_policy_payload pol =
     (case pol of
        None \<Rightarrow> PNone
      | Some p \<Rightarrow> PDict [(''type'', PStr (policy_type_name p)), (''widths'', width_items (policy_widths p)),
                         (''schedule'', width_items (policy_schedule p))])"

definition opt_str :: "string option \<Rightarrow> pyval" where
  "opt_str v = (case v of None \<Rightarrow> PNone | Some t \<Rightarrow> PStr t)"

definition request_status_payload ::
  "GRContinuousRequestState \<Rightarrow> bool \<Rightarrow> int \<Rightarrow> (string, pyval) dict py_result" where
  "request_status_payload st result_available current_tick =
     (let r = st_request st;
          timeout = (case map_of (req_metadata r) ''timeout_ticks'' of None \<Rightarrow> PNone | Some v \<Rightarrow> v);
          until = (case finished_tick st of None \<Rightarrow> current_tick | Some t \<Rightarrow> t)
      in bind_res (if timeout = PNone then Inr PNone
                   else bind_res (py_int timeout) (\<lambda>n. Inr (PInt (submitted_tick st + n)))) (\<lambda>deadline.
         Inr [(''request_id'', PStr (request_id r)), (''stage'', PStr (stage_name (st_stage st))),
              (''ready'', PBool (st_stage st = Finished)), (''result_available'', PBool result_available),
              (''current_decode_step'', PInt (current_decode_step st)),
              (''remaining_decode_steps'', PInt (remaining_decode_steps st)),
              (''max_decode_steps'', PInt (req_max_decode_steps r)), (''beam_width'', PInt (req_beam_width r)),
              (''active_beam_width'', PInt (state_beam_width st)), (''submitted_tick'', PInt (submitted_tick st)),
              (''admitted_tick'', opt_tick (admitted_tick st)), (''finished_tick'', opt_tick (finished_tick st)),
              (''age_ticks'', PInt (max 0 (current_tick - submitted_tick st))),
              (''elapsed_ticks'', PInt (max 0 (until - submitted_tick st))),
              (''timeout_ticks'', timeout), (''deadline_tick'', deadline), (''stop_reason'', opt_str (stop_reason st)),
              (''has_item_constraints'', PBool (item_mask_provider r \<noteq> None)),
              (''beam_width_policy'', beam_width_policy_payload (beam_width_policy r))]))"

definition request_status :: "string \<Rightarrow> serving_facade \<Rightarrow> (string, pyval) dict py_result" where
  "request_status rid f =
     (let s = fac_scheduler f
      in case map_of (states s) rid of
           None \<Rightarrow> Inl (KeyError ''unknown request_id'')
         | Some st \<Rightarrow> request_status_payload st (rid \<in> set (dict_keys (finished s))) (tick_count s))"

definition request_statuses :: "serving_facade \<Rightarrow> (string, pyval) dict list py_result" where
  "request_statuses f =
     (let s = fac_scheduler f
      in map_res (\<lambda>(rid, st). request_status_payload st (rid \<in> set (dict_keys (finished s))) (tick_count s)) (states s))"

definition status_int :: "(string, pyval) dict \<Rightarrow> string \<Rightarrow> int" where
  "status_int d key =
     (case map_of d key of
        Some (PInt n) \<Rightarrow> n
      | Some (PBool b) \<Rightarrow> (if b then 1 else 0)
      | _ \<Rightarrow> 0)"

definition status_work_count :: "(string, pyval) dict \<Rightarrow> int" where
  "status_work_count d =
     sum_list (map (status_int d) [''waiting_prefill'', ''decoding'', ''waiting'', ''running''])"

definition lifecycle_from_status :: "serving_facade \<Rightarrow> (string, pyval) dict \<Rightarrow> (string, pyval) dict" where
  "lifecycle_from_status f status =
     (let in_flight = status_work_count status
      in [(''accepting_requests'', PBool (accepting_requests f)), (''draining'', PBool (\<not> accepting_requests f)),
          (''idle'', PBool (in_flight = 0)), (''in_flight_requests'', PInt in_flight)])"

definition lifecycle_status :: "serving_facade \<Rightarrow> (string, pyval) dict" where
  "lifecycle_status f = lifecycle_from_status f (scheduler_status (fac_scheduler f))"

fun reload_event_dict :: "reload_event \<Rightarrow> (string, pyval) dict" where
  "reload_event_dict (SwapEvent op prev v meta) =
     dict_update [(''operation'', PStr op), (''status'', PStr ''succeeded''), (''previous_version'', PInt prev), (''version'', PInt v)] meta"
| "reload_event_dict (FailedEvent v path e) =
     [(''operation'', PStr ''reload_jsonl''), (''status'', PStr ''failed''), (''version'', PInt v), (''source'', PStr path),
      (''error_type'', PStr (exc_type_name e)), (''error_message'', PStr (exc_message e))]"
| "reload_event_dict (RollbackEvent from target v meta) =
     dict_update [(''operation'', PStr ''rollback''), (''status'', PStr ''succeeded''), (''rolled_back_from_version'', PInt from),
      (''rolled_back_to_version'', PInt target), (''version'', PInt v)] meta"

definition store_status :: "ProviderStore \<Rightarrow> (string, pyval) dict" where
  "store_status s =
     (let history = map (\<lambda>e. PDict (reload_event_dict e)) (reload_history s)
      in dict_update [(''version'', PInt (store_version s)), (''previous_version'', opt_int (previous_version s)),
           (''reload_history'', PList history), (''last_reload'', if history = [] then PNone else last history)]
           (store_metadata s))"

definition facade_status :: "serving_facade \<Rightarrow> (string, pyval) dict" where
  "facade_status f =
     (let status = scheduler_status (fac_scheduler f);
          with_lifecycle = dict_set ''lifecycle'' (PDict (lifecycle_from_status f status)) status
      in case fac_store f of
           None \<Rightarrow> with_lifecycle
         | Some store \<Rightarrow> dict_set ''item_constraints'' (PDict (store_status store)) with_lifecycle)"

definition facade_metrics :: "serving_facade \<Rightarrow> (string, pyval) dict" where
  "facade_metrics f = scheduler_metrics (fac_scheduler f)"

definition facade_catalog_status :: "serving_facade \<Rightarrow> (string, pyval) dict option" where
  "facade_catalog_status f = map_option store_status (fac_store f)"

section \<open>Draining, shutdown, catalog\<close>

definition drain :: "serving_facade \<Rightarrow> (string, pyval) dict \<times> serving_facade" where
  "drain f = (let f1 = f\<lparr>accepting_requests := False\<rparr> in (lifecycle_status f1, f1))"

record shutdown_result =
  shutdown_lifecycle :: "(string, pyval) dict"
  shutdown_responses :: "GRServingResponse list"
  shutdown_status :: "(string, pyval) dict"

definition shutdown :: "nat \<Rightarrow> int option \<Rightarrow> bool \<Rightarrow> serving_facade \<Rightarrow> shutdown_result facade_result option" where
  "shutdown fuel max_ticks timeout_unfinished f =
     map_option (\<lambda>r. bind_st r (\<lambda>resps f2.
         (Inr \<lparr>shutdown_lifecycle = lifecycle_status f2, shutdown_responses = resps, shutdown_status = facade_status f2\<rparr>, f2)))
       (run_until_idle fuel max_ticks timeout_unfinished (snd (drain f)))"

definition facade_reload_jsonl ::
  "(string \<Rightarrow> pyval option) \<Rightarrow> string list py_result \<Rightarrow> catalog_options \<Rightarrow> string \<Rightarrow> int \<Rightarrow> int option \<Rightarrow> bool
   \<Rightarrow> serving_facade \<Rightarrow> int facade_result" where
  "facade_reload_jsonl json_loads file opts path vocab eos allow f =
     (case fac_store f of
        None \<Rightarrow> (Inl (RuntimeError ''item_mask_provider_store is not configured''), f)
      | Some store \<Rightarrow>
          (case store_reload_jsonl json_loads file opts path vocab eos allow store of
             (store', res) \<Rightarrow> (res, f\<lparr>fac_store := Some store'\<rparr>)))"

definition facade_rollback :: "serving_facade \<Rightarrow> int facade_result" where
  "facade_rollback f =
     (case fac_store f of
        None \<Rightarrow> (Inl (RuntimeError ''item_mask_provider_store is not configured''), f)
      | Some store \<Rightarrow> (case store_rollback store of (store', res) \<Rightarrow> (res, f\<lparr>fac_store := Some store'\<rparr>)))"

section \<open>Batches are submitted as a whole\<close>

lemma ensure_unique_ok: "ensure_unique_request_ids ids seen = Inr () \<longleftrightarrow> distinct ids \<and> set ids \<inter> set seen = {}"
  by (induction ids seen rule: ensure_unique_request_ids.induct) auto

lemma ensure_available_ok:
  "ensure_request_ids_available ids f = Inr () \<longleftrightarrow> (\<forall>i \<in> set ids. i \<notin> set (dict_keys (states (fac_scheduler f))))"
  by (auto simp: ensure_request_ids_available_def filter_empty_conv)

lemma prepare_request_id [simp]: "request_id (prepare_request f r) = request_id r"
  by (simp add: prepare_request_def split: option.splits)

definition queued_after :: "GRServingRequest list \<Rightarrow> sched \<Rightarrow> sched" where
  "queued_after rs s =
     s\<lparr>waiting_prefill := waiting_prefill s @ rs,
       states := states s @ map (\<lambda>r. (request_id r, new_request_state r (tick_count s))) rs,
       submitted_requests := submitted_requests s + int (length rs)\<rparr>"

lemma submit_fresh:
  assumes "validate_request r = Inr ()" and "request_id r \<notin> set (dict_keys (states s))"
  shows "submit r s = (Inr (), queued_after [r] s)"
  using assms dict_set_new [OF assms(2)]
  by (simp add: submit_def queue_submit_def set_state_def queued_after_def Let_def)

lemma submit_each_fresh:
  assumes "\<forall>r \<in> set rs. validate_request r = Inr ()" and "distinct (map request_id rs)"
    and "\<forall>r \<in> set rs. request_id r \<notin> set (dict_keys (states (fac_scheduler f)))"
  shows "submit_each rs f = (Inr (), f\<lparr>fac_scheduler := queued_after rs (fac_scheduler f)\<rparr>)"
  using assms
proof (induction rs arbitrary: f)
  case Nil
  then show ?case by (simp add: queued_after_def)
next
  case (Cons r rs)
  let ?f1 = "f\<lparr>fac_scheduler := queued_after [r] (fac_scheduler f)\<rparr>"
  have step: "executor_submit r f = (Inr (), ?f1)"
    using submit_fresh [of r "fac_scheduler f"] Cons.prems by (simp add: executor_submit_def)
  have "request_id x \<noteq> request_id r" if "x \<in> set rs" for x
    using Cons.prems(2) imageI [OF that, of request_id] by auto
  then have "\<forall>x \<in> set rs. request_id x \<notin> set (dict_keys (states (fac_scheduler ?f1)))"
    using Cons.prems(3) by (auto simp: queued_after_def)
  then have "submit_each rs ?f1 = (Inr (), ?f1\<lparr>fac_scheduler := queued_after rs (fac_scheduler ?f1)\<rparr>)"
    using Cons.IH [of ?f1] Cons.prems by simp
  moreover have "queued_after rs (queued_after [r] s) = queued_after (r # rs) s" for s by (simp add: queued_after_def)
  ultimately show ?case using step by simp
qed

text \<open>The checks of a batch, in one predicate.\<close>

definition batch_acceptable :: "GRServingRequest list \<Rightarrow> serving_facade \<Rightarrow> bool" where
  "batch_acceptable rs f \<longleftrightarrow> accepting_requests f \<and> (\<forall>r \<in> set rs. validate_request (prepare_request f r) = Inr ())
     \<and> distinct (map request_id rs) \<and> (\<forall>r \<in> set rs. request_id r \<notin> set (dict_keys (states (fac_scheduler f))))"

lemma map_res_validate:
  "(\<exists>us. map_res validate_request rs = Inr us) \<longleftrightarrow> (\<forall>r \<in> set rs. validate_request r = Inr ())"
  by (induction rs) (auto split: sum.splits)

lemma submit_many_cases:
  "if batch_acceptable rs f
   then facade_submit_many rs f =
     (Inr (map request_id rs), f\<lparr>fac_scheduler := queued_after (map (prepare_request f) rs) (fac_scheduler f)\<rparr>)
   else \<exists>e. facade_submit_many rs f = (Inl e, f)"
proof (cases "batch_acceptable rs f")
  case True
  let ?ps = "map (prepare_request f) rs"
  have valid: "\<forall>p \<in> set ?ps. validate_request p = Inr ()" and ids: "distinct (map request_id ?ps)"
    and fresh: "\<forall>p \<in> set ?ps. request_id p \<notin> set (dict_keys (states (fac_scheduler f)))"
    using True by (auto simp: batch_acceptable_def comp_def)
  obtain us where "map_res validate_request ?ps = Inr us" using valid map_res_validate by blast
  moreover have "ensure_unique_request_ids (map request_id ?ps) [] = Inr ()" unfolding ensure_unique_ok using ids by simp
  moreover have "ensure_request_ids_available (map request_id ?ps) f = Inr ()" unfolding ensure_available_ok using fresh by simp
  ultimately show ?thesis
    using True submit_each_fresh [OF valid ids fresh]
    by (simp add: facade_submit_many_def Let_def batch_acceptable_def comp_def)
next
  case False
  then have "\<not> accepting_requests f \<or> \<not> (\<exists>us. map_res validate_request (map (prepare_request f) rs) = Inr us)
     \<or> ensure_unique_request_ids (map request_id rs) [] \<noteq> Inr () \<or> ensure_request_ids_available (map request_id rs) f \<noteq> Inr ()"
    unfolding map_res_validate ensure_unique_ok ensure_available_ok by (auto simp: batch_acceptable_def)
  then show ?thesis using False by (auto simp: facade_submit_many_def Let_def comp_def split: sum.splits)
qed

text \<open>C38: a batch is submitted as a whole or not at all. \<open>submit_many\<close> succeeds exactly when the facade
  accepts requests, every request is valid once it carries the catalog snapshot, no id occurs twice
  in the batch and none is known to the scheduler; then it returns the ids in order and the queue is
  the old one followed by the batch. In every other case it raises and changes nothing, so no prefix
  of a refused batch is left behind.\<close>

theorem submit_many_all_or_nothing:
  "if batch_acceptable rs f
   then facade_submit_many rs f =
     (Inr (map request_id rs), f\<lparr>fac_scheduler := queued_after (map (prepare_request f) rs) (fac_scheduler f)\<rparr>)
   else \<exists>e. facade_submit_many rs f = (Inl e, f)"
  by (rule submit_many_cases)

section \<open>Draining\<close>

lemma lifecycle_counts:
  "lifecycle_status f =
     (let n = int (length (waiting_prefill (fac_scheduler f))) + int (length (decoding (fac_scheduler f)))
      in [(''accepting_requests'', PBool (accepting_requests f)), (''draining'', PBool (\<not> accepting_requests f)),
          (''idle'', PBool (n = 0)), (''in_flight_requests'', PInt n)])"
  by (simp add: lifecycle_status_def lifecycle_from_status_def status_work_count_def status_int_def scheduler_status_def
      scheduler_counters_def int_dict_def Let_def)


definition ex_facade :: serving_facade where
  "ex_facade = \<lparr>fac_scheduler = ex_queued, fac_store = None, accepting_requests = True\<rparr>"


end
