(* ===== verification/GR_Beam_Search.thy ===== *)
theory GR_Beam_Search
  imports GR_Beam_Path
begin

text \<open>
  Beam selection: \<open>gr_runtime/beam_search.py\<close> for one request and \<open>gr_runtime/batched_beam_search.py\<close> for
  a batch, over the torch operations as parameters. A selection keeps the \<open>beam_width\<close> best
  continuations of all beams together. The theorems: a selection is sound and optimal, the two-stage
  selection of the batched code agrees with the one-stage selection of the single-request code, and
  the clamp to the number of unmasked candidates makes the mask error unreachable.
\<close>

section \<open>Selections for one request\<close>

record BeamSelection =
  bs_token_ids :: "int list"
  bs_scores :: "pyfloat list"
  bs_parent_beams :: "int list"

definition selection_width :: "BeamSelection \<Rightarrow> nat" where
  "selection_width sel = length (bs_token_ids sel)"

definition validate_score_mode :: "string \<Rightarrow> unit py_result" where
  "validate_score_mode mode =
     (if mode \<in> {''raw_logits'', ''logprob''} then Inr ()
      else Inl (ValueError ''score_mode must be raw_logits or logprob''))"

text \<open>\<open>logits[:, -1, :]\<close> of prefill logits, or the logits themselves, as batch size, vocabulary size and
  elements.\<close>

definition last_scores :: "pyfloat tensor \<Rightarrow> (nat \<times> nat \<times> pyfloat list) py_result" where
  "last_scores logits =
     (case tensor_shape logits of
        [b, s, v] \<Rightarrow>
          if s = 0 then Inl (IndexError ''index -1 is out of bounds for dimension 1 with size 0'')
          else Inr (b, v, concat (map (\<lambda>i. take v (drop ((i * s + (s - 1)) * v) (tensor_data logits))) [0..<b]))
      | [b, v] \<Rightarrow> Inr (b, v, tensor_data logits)
      | _ \<Rightarrow> Inl (ValueError ''logits expects [B, S, V] or [B, V]''))"

definition masked_fill :: "bool list \<Rightarrow> pyfloat list \<Rightarrow> pyfloat list" where
  "masked_fill allowed xs = map2 (\<lambda>a x. if a then x else NegInf) allowed xs"

text \<open>The scores of a row in the given mode.\<close>

definition row_scores :: "torch_ops \<Rightarrow> string \<Rightarrow> pyfloat list \<Rightarrow> pyfloat list" where
  "row_scores T mode row = (if mode = ''logprob'' then torch_log_softmax T row else row)"

definition shape_error :: py_exc where
  "shape_error = ValueError ''item_mask shape must match scores''"

definition initial_item_mask :: "nat \<Rightarrow> bool tensor option \<Rightarrow> bool list option py_result" where
  "initial_item_mask v item_mask =
     (case item_mask of
        None \<Rightarrow> Inr None
      | Some m \<Rightarrow>
          let shape = (if length (tensor_shape m) = 1 then 1 # tensor_shape m else tensor_shape m)
          in if shape \<noteq> [1, v] then Inl shape_error else Inr (Some (tensor_data m)))"

definition mask_fill :: "bool list option \<Rightarrow> pyfloat list \<Rightarrow> pyfloat list" where
  "mask_fill allowed xs = (case allowed of None \<Rightarrow> xs | Some m \<Rightarrow> masked_fill m xs)"

definition select_initial_topk ::
  "torch_ops \<Rightarrow> pyfloat tensor \<Rightarrow> int \<Rightarrow> bool tensor option \<Rightarrow> string \<Rightarrow> BeamSelection py_result" where
  "select_initial_topk T logits beam_width item_mask mode =
     (if beam_width \<le> 0 then Inl (ValueError ''beam_width must be positive'')
      else
        bind_res (validate_score_mode mode) (\<lambda>_.
        bind_res (last_scores logits) (\<lambda>(b, v, xs).
          if b \<noteq> 1 then Inl (ValueError ''initial beam selection currently supports batch_size=1'')
          else if beam_width > int v then Inl (ValueError ''beam_width exceeds vocabulary size'')
          else
            bind_res (initial_item_mask v item_mask) (\<lambda>mask.
              let scores = row_scores T mode (mask_fill mask xs);
                  indices = torch_topk T scores (nat beam_width); vals = map ((!) scores) indices
              in if mask \<noteq> None \<and> \<not> list_all is_finite vals
                 then Inl (ValueError ''item_mask leaves fewer valid tokens than beam_width'')
                 else Inr \<lparr>bs_token_ids = map int indices, bs_scores = vals, bs_parent_beams = map (\<lambda>_. 0) indices\<rparr>))))"

text \<open>The mask of a decode step over \<open>[W, V]\<close>; a vector holds for every beam.\<close>

definition next_item_mask :: "nat \<Rightarrow> nat \<Rightarrow> bool tensor option \<Rightarrow> bool list option py_result" where
  "next_item_mask w v item_mask =
     (case item_mask of
        None \<Rightarrow> Inr None
      | Some m \<Rightarrow>
          (case tensor_shape m of
             [n] \<Rightarrow> bind_res (expand_to [1, n] [w, v] (tensor_data m)) (\<lambda>d. Inr (Some d))
           | shape \<Rightarrow> if shape \<noteq> [w, v] then Inl shape_error else Inr (Some (tensor_data m))))"

text \<open>\<open>scores + prev[:, None]\<close>.\<close>

definition add_prev :: "pyfloat list list \<Rightarrow> pyfloat list \<Rightarrow> pyfloat list list" where
  "add_prev rows prev = map2 (\<lambda>row p. map (\<lambda>x. fadd x p) row) rows prev"

definition next_scores :: "torch_ops \<Rightarrow> string \<Rightarrow> nat \<Rightarrow> nat \<Rightarrow> bool list option \<Rightarrow> pyfloat list \<Rightarrow> pyfloat list \<Rightarrow> pyfloat list" where
  "next_scores T mode w v allowed logits prev =
     concat (add_prev (map (row_scores T mode) (split_rows w v (mask_fill allowed logits))) prev)"

definition select_next_topk ::
  "torch_ops \<Rightarrow> pyfloat tensor \<Rightarrow> pyfloat list \<Rightarrow> int \<Rightarrow> bool tensor option \<Rightarrow> string \<Rightarrow> BeamSelection py_result" where
  "select_next_topk T logits previous_scores beam_width item_mask mode =
     (if beam_width \<le> 0 then Inl (ValueError ''beam_width must be positive'')
      else
        bind_res (validate_score_mode mode) (\<lambda>_.
          case tensor_shape logits of
            [b, w, v] \<Rightarrow>
              if b \<noteq> 1 then Inl (ValueError ''next beam selection currently supports batch_size=1'')
              else if w \<noteq> length previous_scores then Inl (ValueError ''logits beam width does not match previous_scores'')
              else if beam_width > int (w * v) then Inl (ValueError ''beam_width exceeds candidate count'')
              else
                bind_res (next_item_mask w v item_mask) (\<lambda>mask.
                  let flat = next_scores T mode w v mask (tensor_data logits) previous_scores;
                      indices = torch_topk T flat (nat beam_width); vals = map ((!) flat) indices
                  in if mask \<noteq> None \<and> \<not> list_all is_finite vals
                     then Inl (ValueError ''item_mask leaves fewer valid candidates than beam_width'')
                     else Inr \<lparr>bs_token_ids = map (\<lambda>i. int (i mod v)) indices, bs_scores = vals,
                               bs_parent_beams = map (\<lambda>i. int (i div v)) indices\<rparr>)
          | _ \<Rightarrow> Inl (ValueError ''logits expects [B, W, V]'')))"

definition valid_item_mask_candidates :: "bool tensor \<Rightarrow> int" where
  "valid_item_mask_candidates m = int (length (filter id (tensor_data m)))"

definition item_mask_limited_beam_width :: "int \<Rightarrow> bool tensor option \<Rightarrow> int py_result" where
  "item_mask_limited_beam_width beam_width item_mask =
     (if beam_width \<le> 0 then Inl (ValueError ''beam_width must be positive'')
      else case item_mask of
             None \<Rightarrow> Inr beam_width
           | Some m \<Rightarrow>
               let n = valid_item_mask_candidates m
               in if n \<le> 0 then Inl (ValueError ''item_mask leaves no valid candidates'') else Inr (min beam_width n))"

section \<open>Selections for a batch\<close>

definition batched_initial_mask :: "nat \<Rightarrow> nat \<Rightarrow> bool tensor option \<Rightarrow> bool list option py_result" where
  "batched_initial_mask b v item_mask =
     (case item_mask of
        None \<Rightarrow> Inr None
      | Some m \<Rightarrow>
          (case tensor_shape m of
             [n] \<Rightarrow> bind_res (expand_to [1, n] [b, v] (tensor_data m)) (\<lambda>d. Inr (Some d))
           | shape \<Rightarrow> if shape \<noteq> [b, v] then Inl shape_error else Inr (Some (tensor_data m))))"

text \<open>A selection whose rows are in Python tuples only.\<close>

definition tuple_selection :: "int list list \<Rightarrow> pyfloat list list \<Rightarrow> int list list \<Rightarrow> BatchedBeamSelection" where
  "tuple_selection toks scs pars = \<lparr>sel_token_ids = toks, sel_scores = scs, sel_parent_beams = pars,
     sel_token_ids_tensor = None, sel_scores_tensor = None, sel_parent_beams_tensor = None\<rparr>"

definition select_initial_topk_batched ::
  "torch_ops \<Rightarrow> pyfloat tensor \<Rightarrow> int \<Rightarrow> bool tensor option \<Rightarrow> string \<Rightarrow> BatchedBeamSelection py_result" where
  "select_initial_topk_batched T logits beam_width item_mask mode =
     (if beam_width \<le> 0 then Inl (ValueError ''beam_width must be positive'')
      else
        bind_res (validate_score_mode mode) (\<lambda>_.
        bind_res (last_scores logits) (\<lambda>(b, v, xs).
          if beam_width > int v then Inl (ValueError ''beam_width exceeds vocabulary size'')
          else
            bind_res (batched_initial_mask b v item_mask) (\<lambda>mask.
              let rows = map (row_scores T mode) (split_rows b v (mask_fill mask xs));
                  indices = map (\<lambda>row. torch_topk T row (nat beam_width)) rows;
                  vals = map2 (\<lambda>row is. map ((!) row) is) rows indices
              in if mask \<noteq> None \<and> \<not> list_all (list_all is_finite) vals
                 then Inl (ValueError ''item_mask leaves fewer valid tokens than beam_width'')
                 else Inr (tuple_selection (map (map int) indices) vals (map (map (\<lambda>_. 0)) indices))))))"

definition batched_next_mask :: "nat \<Rightarrow> nat \<Rightarrow> nat \<Rightarrow> bool tensor option \<Rightarrow> bool list option py_result" where
  "batched_next_mask b w v item_mask =
     (case item_mask of
        None \<Rightarrow> Inr None
      | Some m \<Rightarrow>
          (case tensor_shape m of
             [mb, mv] \<Rightarrow> bind_res (expand_to [mb, 1, mv] [b, w, v] (tensor_data m)) (\<lambda>d. Inr (Some d))
           | shape \<Rightarrow> if shape \<noteq> [b, w, v] then Inl shape_error else Inr (Some (tensor_data m))))"

text \<open>The previous scores as a matrix \<open>[B, W]\<close>: the tensor if there is one, otherwise the tuples, of
  which torch makes a matrix only when they have equal lengths.\<close>

definition previous_matrix ::
  "nat \<Rightarrow> nat \<Rightarrow> pyfloat list list option \<Rightarrow> pyfloat tensor option \<Rightarrow> pyfloat list list py_result" where
  "previous_matrix b w previous_scores previous_scores_tensor =
     (case (previous_scores_tensor, previous_scores) of
        (Some t, _) \<Rightarrow>
          if tensor_shape t \<noteq> [b, w] then Inl (ValueError ''previous_scores must be shaped (batch_size, previous_width)'')
          else Inr (split_rows b w (tensor_data t))
      | (None, Some rows) \<Rightarrow>
          if rows = [] \<or> length rows \<noteq> b \<or> (\<exists>row \<in> set rows. length row \<noteq> w)
          then Inl (ValueError ''previous_scores must be shaped (batch_size, previous_width)'')
          else Inr rows
      | (None, None) \<Rightarrow> Inl (ValueError ''previous_scores or previous_scores_tensor must be provided''))"

text \<open>One request of the batch: the \<open>local_k\<close> best tokens of every beam, and the best of these.\<close>

definition local_topk :: "torch_ops \<Rightarrow> string \<Rightarrow> nat \<Rightarrow> pyfloat list \<Rightarrow> pyfloat list \<times> nat list" where
  "local_topk T mode local_k row =
     (let ids = torch_topk T row local_k; vals = map ((!) row) ids
      in (if mode = ''logprob'' then map (\<lambda>x. fsub x (torch_logsumexp T row)) vals else vals, ids))"

record row_selection =
  row_tokens :: "nat list"
  row_values :: "pyfloat list"
  row_parents :: "nat list"

definition select_row ::
  "torch_ops \<Rightarrow> string \<Rightarrow> nat \<Rightarrow> nat \<Rightarrow> pyfloat list list \<Rightarrow> pyfloat list \<Rightarrow> row_selection" where
  "select_row T mode k local_k rows prev =
     (let locals = map (local_topk T mode local_k) rows;
          flat = concat (add_prev (map fst locals) prev); ids = concat (map snd locals);
          indices = torch_topk T flat k
      in \<lparr>row_tokens = map ((!) ids) indices, row_values = map ((!) flat) indices,
          row_parents = map (\<lambda>i. i div local_k) indices\<rparr>)"

definition select_next_topk_batched ::
  "torch_ops \<Rightarrow> pyfloat tensor \<Rightarrow> pyfloat list list option \<Rightarrow> pyfloat tensor option \<Rightarrow> int \<Rightarrow> bool tensor option
   \<Rightarrow> string \<Rightarrow> bool \<Rightarrow> bool \<Rightarrow> BatchedBeamSelection py_result" where
  "select_next_topk_batched T logits previous_scores previous_scores_tensor beam_width item_mask mode materialized validate_finite =
     (if beam_width \<le> 0 then Inl (ValueError ''beam_width must be positive'')
      else
        bind_res (validate_score_mode mode) (\<lambda>_.
          case tensor_shape logits of
            [b, w, v] \<Rightarrow>
              if previous_scores = None \<and> previous_scores_tensor = None
              then Inl (ValueError ''previous_scores or previous_scores_tensor must be provided'')
              else if (case previous_scores of None \<Rightarrow> False | Some rows \<Rightarrow> b \<noteq> length rows)
              then Inl (ValueError ''previous_scores batch size must match logits'')
              else if beam_width > int (w * v) then Inl (ValueError ''beam_width exceeds candidate count'')
              else
                bind_res (batched_next_mask b w v item_mask) (\<lambda>mask.
                bind_res (previous_matrix b w previous_scores previous_scores_tensor) (\<lambda>prev.
                  let k = nat beam_width; local_k = min k v;
                      blocks = split_rows b (w * v) (mask_fill mask (tensor_data logits));
                      sels = map2 (\<lambda>block p. select_row T mode k local_k (split_rows w v block) p) blocks prev;
                      toks = map (\<lambda>s. map int (row_tokens s)) sels; scs = map row_values sels;
                      pars = map (\<lambda>s. map int (row_parents s)) sels
                  in if validate_finite \<and> mask \<noteq> None \<and> \<not> list_all (list_all is_finite) scs
                     then Inl (ValueError ''item_mask leaves fewer valid candidates than beam_width'')
                     else Inr \<lparr>sel_token_ids = (if materialized then toks else []), sel_scores = (if materialized then scs else []),
                               sel_parent_beams = (if materialized then pars else []),
                               sel_token_ids_tensor = Some \<lparr>tensor_shape = [b, k], tensor_data = concat toks\<rparr>,
                               sel_scores_tensor = Some \<lparr>tensor_shape = [b, k], tensor_data = concat scs\<rparr>,
                               sel_parent_beams_tensor = Some \<lparr>tensor_shape = [b, k], tensor_data = concat pars\<rparr>\<rparr>))
          | _ \<Rightarrow> Inl (ValueError ''logits expects [B, W, V]'')))"

text \<open>The rows whose valid candidates are counted; a reduction over no row raises.\<close>

definition mask_count_rows :: "bool tensor \<Rightarrow> bool list list py_result" where
  "mask_count_rows m =
     (case tensor_shape m of
        [] \<Rightarrow> Inl (IndexError ''tuple index out of range'')
      | [n] \<Rightarrow> Inr [tensor_data m]
      | n # ns \<Rightarrow>
          if n * prod_list ns = 0 then Inl (RuntimeError ''cannot reduce an empty tensor'')
          else Inr (split_rows n (prod_list ns) (tensor_data m)))"

definition batched_item_mask_limited_beam_width :: "int \<Rightarrow> bool tensor option \<Rightarrow> int py_result" where
  "batched_item_mask_limited_beam_width beam_width item_mask =
     (if beam_width \<le> 0 then Inl (ValueError ''beam_width must be positive'')
      else case item_mask of
             None \<Rightarrow> Inr beam_width
           | Some m \<Rightarrow>
               bind_res (mask_count_rows m) (\<lambda>rows.
                 let n = Min (set (map (\<lambda>row. int (length (filter id row))) rows))
                 in if n \<le> 0 then Inl (ValueError ''item_mask leaves no valid candidates'')
                    else Inr (min beam_width n)))"

section \<open>The candidates\<close>

lemma length_masked_fill [simp]: "length m = length xs \<Longrightarrow> length (masked_fill m xs) = length xs"
  by (simp add: masked_fill_def)

lemma masked_fill_nth: "i < length m \<Longrightarrow> i < length xs \<Longrightarrow> masked_fill m xs ! i = (if m ! i then xs ! i else NegInf)"
  by (simp add: masked_fill_def)

text \<open>A mask that fits \<open>n\<close> candidates.\<close>

definition mask_fits :: "nat \<Rightarrow> bool list option \<Rightarrow> bool" where
  "mask_fits n allowed \<longleftrightarrow> (\<forall>m. allowed = Some m \<longrightarrow> length m = n)"

definition allows :: "bool list option \<Rightarrow> nat \<Rightarrow> bool" where
  "allows allowed i \<longleftrightarrow> (\<forall>m. allowed = Some m \<longrightarrow> m ! i)"

lemma length_mask_fill [simp]: "mask_fits (length xs) allowed \<Longrightarrow> length (mask_fill allowed xs) = length xs"
  by (cases allowed) (simp_all add: mask_fill_def mask_fits_def)

lemma mask_fill_nth:
  "mask_fits (length xs) allowed \<Longrightarrow> i < length xs \<Longrightarrow>
   mask_fill allowed xs ! i = (if allows allowed i then xs ! i else NegInf)"
  by (cases allowed) (simp_all add: mask_fill_def mask_fits_def allows_def masked_fill_nth)

lemma softmaxD:
  assumes "torch_contract T"
  shows "torch_log_softmax T xs = map (\<lambda>x. fsub x (torch_logsumexp T xs)) xs"
    and "torch_logsumexp T xs = NegInf \<longleftrightarrow> set xs \<subseteq> {NegInf}"
    and "set xs \<subseteq> range Fin \<union> {NegInf} \<Longrightarrow> set xs \<inter> range Fin \<noteq> {} \<Longrightarrow> is_finite (torch_logsumexp T xs)"
  using assms unfolding torch_contract_def softmax_contract_def by blast+

text \<open>How a mode turns the logit of a row into its score.\<close>

definition mode_score :: "torch_ops \<Rightarrow> string \<Rightarrow> pyfloat list \<Rightarrow> pyfloat \<Rightarrow> pyfloat" where
  "mode_score T mode row x = (if mode = ''logprob'' then fsub x (torch_logsumexp T row) else x)"

lemma row_scores_map: "torch_contract T \<Longrightarrow> row_scores T mode row = map (mode_score T mode row) row"
  by (simp add: row_scores_def mode_score_def softmaxD(1) map_idI)

lemma mode_score_mono:
  assumes "torch_contract T" and "x \<in> set row" and "y \<in> set row" and "x \<le> y"
  shows "mode_score T mode row x \<le> mode_score T mode row y"
proof (cases "torch_logsumexp T row = NegInf")
  case True
  then have "x = y" using softmaxD(2) [OF assms(1), of row] assms(2,3) by auto
  then show ?thesis by simp
next
  case False
  then show ?thesis using assms(4) by (simp add: mode_score_def fsub_mono)
qed

lemma mode_score_finite: "is_finite (mode_score T mode row x) \<Longrightarrow> is_finite x"
  by (simp add: mode_score_def split: if_splits)

text \<open>The score of extending beam \<open>i\<close> by token \<open>j\<close>.\<close>

definition candidate ::
  "torch_ops \<Rightarrow> string \<Rightarrow> nat \<Rightarrow> nat \<Rightarrow> bool list option \<Rightarrow> pyfloat list \<Rightarrow> pyfloat list \<Rightarrow> nat \<Rightarrow> nat \<Rightarrow> pyfloat" where
  "candidate T mode w v allowed logits prev i j =
     (let row = split_rows w v (mask_fill allowed logits) ! i in fadd (mode_score T mode row (row ! j)) (prev ! i))"

lemma add_prev_nth: "i < length rows \<Longrightarrow> i < length prev \<Longrightarrow> add_prev rows prev ! i = map (\<lambda>x. fadd x (prev ! i)) (rows ! i)"
  by (simp add: add_prev_def)

lemma next_scores_rows:
  assumes "torch_contract T" and "length logits = w * v" and "mask_fits (w * v) allowed" and "length prev = w"
  shows "add_prev (map (row_scores T mode) (split_rows w v (mask_fill allowed logits))) prev
       = map (\<lambda>i. map (candidate T mode w v allowed logits prev i) [0..<v]) [0..<w]"
proof (rule nth_equalityI)
  show "length (add_prev (map (row_scores T mode) (split_rows w v (mask_fill allowed logits))) prev)
      = length (map (\<lambda>i. map (candidate T mode w v allowed logits prev i) [0..<v]) [0..<w])"
    using assms(4) by (simp add: add_prev_def)
  fix i
  assume "i < length (add_prev (map (row_scores T mode) (split_rows w v (mask_fill allowed logits))) prev)"
  then have i: "i < w" using assms(4) by (simp add: add_prev_def)
  have len: "length (mask_fill allowed logits) = w * v" using assms(2,3) by simp
  have rl: "length (split_rows w v (mask_fill allowed logits) ! i) = v" using length_split_row [OF len i] .
  show "add_prev (map (row_scores T mode) (split_rows w v (mask_fill allowed logits))) prev ! i
      = map (\<lambda>i. map (candidate T mode w v allowed logits prev i) [0..<v]) [0..<w] ! i"
    using i rl assms(1,4) by (intro nth_equalityI) (simp_all add: add_prev_nth row_scores_map candidate_def Let_def)
qed

lemma next_scores_flat:
  assumes "torch_contract T" and "length logits = w * v" and "mask_fits (w * v) allowed" and "length prev = w"
  shows "length (next_scores T mode w v allowed logits prev) = w * v"
    and "i < w * v \<Longrightarrow> next_scores T mode w v allowed logits prev ! i
       = candidate T mode w v allowed logits prev (i div v) (i mod v)"
proof -
  let ?rows = "map (\<lambda>i. map (candidate T mode w v allowed logits prev i) [0..<v]) [0..<w]"
  have ns: "next_scores T mode w v allowed logits prev = concat ?rows"
    by (simp only: next_scores_def next_scores_rows [OF assms])
  show "length (next_scores T mode w v allowed logits prev) = w * v"
    unfolding ns by (simp add: length_concat comp_def sum_list_triv)
  assume i: "i < w * v"
  then have dm: "i div v < w" "i mod v < v" using flat_split [OF i] by auto
  have "concat ?rows ! (i div v * v + i mod v) = ?rows ! (i div v) ! (i mod v)"
    using dm by (intro concat_nth_flat) auto
  then show "next_scores T mode w v allowed logits prev ! i = candidate T mode w v allowed logits prev (i div v) (i mod v)"
    unfolding ns using dm by simp
qed

lemma candidate_allowed:
  assumes "length logits = w * v" and "mask_fits (w * v) allowed" and "i < w" and "j < v"
    and "is_finite (candidate T mode w v allowed logits prev i j)"
  shows "allows allowed (i * v + j)" and "is_finite (logits ! (i * v + j))"
proof -
  have ij: "i * v + j < w * v" using assms(3,4) by (rule flat_index)
  have "split_rows w v (mask_fill allowed logits) ! i ! j = mask_fill allowed logits ! (i * v + j)"
    using assms ij by (simp add: split_rows_nth)
  then have "is_finite (mask_fill allowed logits ! (i * v + j))"
    using assms(5) mode_score_finite by (fastforce simp: candidate_def Let_def)
  then show "allows allowed (i * v + j)" "is_finite (logits ! (i * v + j))"
    using mask_fill_nth [of logits allowed "i * v + j"] assms(1,2) ij by (simp_all split: if_splits)
qed

lemma length_expand_data:
  "list_all2 (\<lambda>s t. s = t \<or> s = 1) src target \<Longrightarrow> length xs = prod_list src \<Longrightarrow> length (expand_data src target xs) = prod_list target"
proof (induction src target arbitrary: xs rule: list_all2_induct)
  case (Cons s ss t ts)
  have r: "length row = prod_list ss" if "row \<in> set (split_rows s (prod_list ss) xs)" for row
    using row_length [OF _ that] Cons.prems by simp
  then have e: "\<forall>row \<in> set (map (expand_data ss ts) (split_rows s (prod_list ss) xs)). length row = prod_list ts"
    using Cons.IH by auto
  then have "length (concat (map (expand_data ss ts) (split_rows s (prod_list ss) xs))) = s * prod_list ts"
    by (simp only: length_concat_rows length_map length_split_rows)
  then show ?case using Cons.hyps(1) by (auto simp: Let_def length_concat comp_def sum_list_replicate)
qed simp

definition wf_mask :: "bool tensor option \<Rightarrow> bool" where
  "wf_mask item_mask \<longleftrightarrow> (\<forall>m. item_mask = Some m \<longrightarrow> wf_tensor m)"

lemma expand_to_length:
  "expand_to src target xs = Inr d \<Longrightarrow> length xs = prod_list src \<Longrightarrow> length d = prod_list target"
  by (auto simp: expand_to_def length_expand_data split: if_splits)

lemma next_item_mask_fits:
  assumes "next_item_mask w v item_mask = Inr allowed" and "wf_mask item_mask"
  shows "mask_fits (w * v) allowed" and "allowed = None \<longleftrightarrow> item_mask = None"
proof -
  have "mask_fits (w * v) allowed \<and> (allowed = None \<longleftrightarrow> item_mask = None)"
  proof (cases item_mask)
    case (Some m)
    then have l: "length (tensor_data m) = prod_list (tensor_shape m)" using assms(2) by (simp add: wf_mask_def wf_tensor_def)
    show ?thesis
    proof (cases "\<exists>n. tensor_shape m = [n]")
      case True
      then obtain n where n: "tensor_shape m = [n]" by blast
      then obtain d where d: "expand_to [1, n] [w, v] (tensor_data m) = Inr d" "allowed = Some d"
        using assms(1) Some by (auto simp: next_item_mask_def)
      then show ?thesis using expand_to_length [OF d(1)] l n Some by (simp add: mask_fits_def)
    next
      case False
      then have "tensor_shape m = [w, v] \<and> allowed = Some (tensor_data m)"
        using assms(1) Some by (auto simp: next_item_mask_def split: list.splits if_splits)
      then show ?thesis using l Some by (simp add: mask_fits_def)
    qed
  qed (use assms in \<open>auto simp: next_item_mask_def mask_fits_def\<close>)
  then show "mask_fits (w * v) allowed" and "allowed = None \<longleftrightarrow> item_mask = None" by blast+
qed

section \<open>Selections are sound and optimal\<close>

text \<open>The arguments of a decode step that pass every check but the one on the masked scores.\<close>

definition next_args_ok :: "pyfloat tensor \<Rightarrow> nat \<Rightarrow> nat \<Rightarrow> pyfloat list \<Rightarrow> int \<Rightarrow> string \<Rightarrow> bool" where
  "next_args_ok logits w v prev k mode \<longleftrightarrow> tensor_shape logits = [1, w, v] \<and> wf_tensor logits \<and> length prev = w
     \<and> 0 < k \<and> k \<le> int (w * v) \<and> mode \<in> {''raw_logits'', ''logprob''}"

lemma select_next_Inr:
  assumes "select_next_topk T logits prev k item_mask mode = Inr sel" and "wf_tensor logits"
  obtains w v allowed where "next_args_ok logits w v prev k mode" and "next_item_mask w v item_mask = Inr allowed"
    and "allowed \<noteq> None \<Longrightarrow> list_all is_finite (bs_scores sel)"
    and "bs_scores sel = map ((!) (next_scores T mode w v allowed (tensor_data logits) prev))
           (torch_topk T (next_scores T mode w v allowed (tensor_data logits) prev) (nat k))"
    and "bs_parent_beams sel = map (\<lambda>i. int (i div v)) (torch_topk T (next_scores T mode w v allowed (tensor_data logits) prev) (nat k))"
    and "bs_token_ids sel = map (\<lambda>i. int (i mod v)) (torch_topk T (next_scores T mode w v allowed (tensor_data logits) prev) (nat k))"
  using assms
  by (auto simp: select_next_topk_def validate_score_mode_def next_args_ok_def Let_def
      split: if_splits list.splits sum.splits)

lemma mod_div_inj: "i div v = j div v \<Longrightarrow> i mod v = j mod v \<Longrightarrow> i = (j::nat)"
  by (metis div_mult_mod_eq)

lemma select_next_best:
  assumes "torch_contract T" and "wf_tensor logits" and "wf_mask item_mask"
    and "select_next_topk T logits prev k item_mask mode = Inr sel"
    and "tensor_shape logits = [1, w, v]" and "next_item_mask w v item_mask = Inr allowed"
    and "pairs = zip (bs_parent_beams sel) (bs_token_ids sel)"
    and "score = (\<lambda>(p, t). candidate T mode w v allowed (tensor_data logits) prev (nat p) (nat t))"
  shows "length pairs = nat k \<and> distinct pairs \<and> set pairs \<subseteq> {0..<int w} \<times> {0..<int v}
    \<and> bs_scores sel = map score pairs \<and> sorted_wrt (\<ge>) (bs_scores sel)
    \<and> (\<forall>c \<in> {0..<int w} \<times> {0..<int v} - set pairs. \<forall>d \<in> set pairs. score c \<le> score d)
    \<and> (item_mask \<noteq> None \<longrightarrow> (\<forall>(p, t) \<in> set pairs. is_finite (score (p, t)) \<and> allows allowed (nat p * v + nat t)))"
proof -
  let ?flat = "next_scores T mode w v allowed (tensor_data logits) prev"
  let ?is = "torch_topk T ?flat (nat k)" and ?pair = "\<lambda>i. (int (i div v), int (i mod v))"
  note fits = next_item_mask_fits [OF assms(6,3)]
  have ok: "next_args_ok logits w v prev k mode" and fin: "allowed \<noteq> None \<Longrightarrow> list_all is_finite (bs_scores sel)"
    and sc: "bs_scores sel = map ((!) ?flat) ?is" and par: "bs_parent_beams sel = map (\<lambda>i. int (i div v)) ?is"
    and tok: "bs_token_ids sel = map (\<lambda>i. int (i mod v)) ?is"
    by (rule select_next_Inr [OF assms(4,2)]; simp add: next_args_ok_def assms(5,6))+
  have len: "length (tensor_data logits) = w * v" "length prev = w"
    using ok assms(5) by (simp_all add: next_args_ok_def wf_tensor_def)
  note flat = next_scores_flat [OF assms(1) len(1) fits(1) len(2)]
  have k: "nat k \<le> length ?flat" using ok flat(1) by (simp add: next_args_ok_def nat_le_iff)
  note topk = topkD [OF assms(1) k]
  have pairs: "pairs = map ?pair ?is" unfolding assms(7) par tok by (simp add: zip_map1 zip_map2 zip_same_conv_map)
  have score: "score (?pair i) = ?flat ! i" if "i < w * v" for i using flat(2) [OF that] assms(8) by simp
  have lt: "i < w * v" if "i \<in> set ?is" for i using topk(3) [OF that] flat(1) by simp
  have "?pair i \<in> {0..<int w} \<times> {0..<int v}" if "i \<in> set ?is" for i using flat_split [OF lt [OF that]] by simp
  then have range: "set pairs \<subseteq> {0..<int w} \<times> {0..<int v}" unfolding pairs by auto
  have "distinct pairs" unfolding pairs using topk(2) by (auto simp: distinct_map inj_on_def intro: mod_div_inj)
  moreover have "bs_scores sel = map score pairs" unfolding sc pairs using score lt by simp
  moreover have "sorted_wrt (\<ge>) (bs_scores sel)" using topk(4) sc by simp
  moreover have "score c \<le> score d" if c: "c \<in> {0..<int w} \<times> {0..<int v} - set pairs" and d: "d \<in> set pairs" for c d
  proof -
    obtain p t where pt: "c = (int p, int t)" "p < w" "t < v"
      using c by (auto simp: image_iff elim!: nonneg_int_cases)
    let ?j = "p * v + t"
    have j: "?j < w * v" and cj: "c = ?pair ?j" using pt flat_index by auto
    obtain i where i: "i \<in> set ?is" "d = ?pair i" using d pairs by auto
    have "?j \<notin> set ?is" using c cj pairs by auto
    then show ?thesis using topk(5) [OF i(1)] j flat(1) cj i(2) score [OF j] score [OF lt [OF i(1)]] by simp
  qed
  moreover have "is_finite (score (p, t)) \<and> allows allowed (nat p * v + nat t)"
    if "item_mask \<noteq> None" and pt: "(p, t) \<in> set pairs" for p t
  proof -
    have "is_finite (score (p, t))"
      using fin fits(2) that \<open>bs_scores sel = map score pairs\<close> by (auto simp: list_all_iff)
    moreover have "nat p < w" and "nat t < v" using subsetD [OF range pt] by auto
    ultimately show ?thesis using candidate_allowed(1) [OF len(1) fits(1)] assms(8) by auto
  qed
  moreover have "length pairs = nat k" using pairs topk(1) by simp
  ultimately show ?thesis using range by blast
qed

text \<open>C10: a decode selection is sound and optimal. It holds exactly \<open>beam_width\<close> different continuations
  (parent beam, token), each in range, with its true cumulative score: the token's logit, or its
  log-probability, plus the parent's score. Scores fall, no continuation left out beats one that was
  kept, and under an item mask only allowed continuations with finite scores are kept.\<close>

theorem select_next_keeps_the_best:
  assumes "torch_contract T" and "wf_tensor logits" and "wf_mask item_mask"
    and "select_next_topk T logits prev k item_mask mode = Inr sel"
    and "tensor_shape logits = [1, w, v]" and "next_item_mask w v item_mask = Inr allowed"
    and "pairs = zip (bs_parent_beams sel) (bs_token_ids sel)"
    and "score = (\<lambda>(p, t). candidate T mode w v allowed (tensor_data logits) prev (nat p) (nat t))"
  shows "length pairs = nat k \<and> distinct pairs \<and> set pairs \<subseteq> {0..<int w} \<times> {0..<int v}
    \<and> bs_scores sel = map score pairs \<and> sorted_wrt (\<ge>) (bs_scores sel)
    \<and> (\<forall>c \<in> {0..<int w} \<times> {0..<int v} - set pairs. \<forall>d \<in> set pairs. score c \<le> score d)
    \<and> (item_mask \<noteq> None \<longrightarrow> (\<forall>(p, t) \<in> set pairs. is_finite (score (p, t)) \<and> allows allowed (nat p * v + nat t)))"
  using select_next_best [OF assms] .

section \<open>The clamp to the unmasked candidates\<close>

text \<open>Enough finite scores fill the selection with finite scores.\<close>

lemma best_finite:
  assumes "set xs \<subseteq> range Fin \<union> {NegInf}" and "k \<le> length (filter is_finite xs)"
  shows "list_all is_finite (best k xs)"
proof (rule ccontr)
  assume "\<not> list_all is_finite (best k xs)"
  then obtain x where x: "x \<in> set (best k xs)" "\<not> is_finite x" by (auto simp: list_all_iff)
  have sub: "set (best k xs) \<subseteq> set xs" "set (drop k (rev (sort xs))) \<subseteq> set xs"
    unfolding best_def by (auto dest: in_set_takeD in_set_dropD)
  then have "x = NegInf" using x assms(1) by auto
  then have "y = NegInf" if "y \<in> set (drop k (rev (sort xs)))" for y
    using best_above_rest [OF x(1) that] by (cases y) (simp_all add: less_eq_pyfloat_def)
  then have "filter_mset is_finite (mset (drop k (rev (sort xs)))) = {#}" by fastforce
  then have "filter_mset is_finite (mset xs) = filter_mset is_finite (mset (best k xs))"
    using arg_cong [OF best_split [of xs k], of "filter_mset is_finite"] by simp
  then have "length (filter is_finite xs) = length (filter is_finite (best k xs))" by (metis mset_filter size_mset)
  moreover have "length (filter is_finite (best k xs)) < length (best k xs)" using x by (intro length_filter_less) auto
  ultimately show False using assms(2) by simp
qed

lemma candidate_masked:
  assumes "torch_contract T" and "length logits = w * v" and "mask_fits (w * v) allowed" and "length prev = w"
    and "set logits \<subseteq> range Fin" and "set prev \<subseteq> range Fin" and "i < w" and "j < v"
    and "mode = ''logprob'' \<Longrightarrow> \<exists>t < v. allows allowed (i * v + t)"
  shows "if allows allowed (i * v + j) then is_finite (candidate T mode w v allowed logits prev i j)
         else candidate T mode w v allowed logits prev i j = NegInf"
proof -
  let ?row = "split_rows w v (mask_fill allowed logits) ! i"
  have elem: "?row ! t = (if allows allowed (i * v + t) then logits ! (i * v + t) else NegInf)" if "t < v" for t
    using that assms(2,3,7) flat_index [OF assms(7) that] by (simp add: split_rows_nth mask_fill_nth)
  have fin: "logits ! (i * v + t) \<in> range Fin" if "t < v" for t
    using assms(2,5) flat_index [OF assms(7) that] by (metis nth_mem subsetD)
  have len: "length ?row = v" using assms(2,3,7) by simp
  have sub: "set ?row \<subseteq> range Fin \<union> {NegInf}" using elem fin len by (fastforce simp: in_set_conv_nth)
  have lse: "is_finite (torch_logsumexp T ?row)" if lp: "mode = ''logprob''"
  proof -
    obtain t where "t < v" "allows allowed (i * v + t)" using assms(9) [OF lp] by blast
    then have "?row ! t \<in> set ?row" and "?row ! t \<in> range Fin" using elem [of t] fin [of t] len by (metis nth_mem, simp)
    then show ?thesis using softmaxD(3) [OF assms(1) sub] by blast
  qed
  have "prev ! i \<in> range Fin" using assms(4,6,7) by (metis nth_mem subsetD)
  then obtain p where p: "prev ! i = Fin p" by blast
  have NegInf_sub: "is_finite l \<Longrightarrow> fsub NegInf l = NegInf" for l by (cases l) (simp_all add: fsub_def)
  show ?thesis
  proof (cases "allows allowed (i * v + j)")
    case True
    obtain q where "logits ! (i * v + j) = Fin q" using fin [OF assms(8)] by blast
    then show ?thesis using True elem [OF assms(8)] lse p by (simp add: candidate_def mode_score_def Let_def)
  next
    case False
    then show ?thesis using elem [OF assms(8)] lse p NegInf_sub by (simp add: candidate_def mode_score_def Let_def)
  qed
qed

text \<open>A selection no wider than the number of allowed candidates, all of them finite, is finite.\<close>

lemma finite_selection:
  assumes "torch_contract T" and "length flat = length m" and "k \<le> length (filter id m)"
    and val: "\<And>i. i < length m \<Longrightarrow> if m ! i then is_finite (flat ! i) else flat ! i = NegInf"
  shows "k \<le> length flat" and "list_all is_finite (map ((!) flat) (torch_topk T flat k))"
proof -
  show k: "k \<le> length flat" using le_trans [OF assms(3) length_filter_le] assms(2) by simp
  have "is_finite (flat ! i) = m ! i" if "i < length m" for i using val [OF that] by (cases "m ! i") simp_all
  then have "map is_finite flat = m" using assms(2) by (intro nth_equalityI) simp_all
  then have "length (filter is_finite flat) = length (filter id m)"
    using arg_cong [OF filter_map [of id is_finite flat], of length] by simp
  moreover have "set flat \<subseteq> range Fin \<union> {NegInf}"
  proof
    fix x assume "x \<in> set flat"
    then obtain i where "i < length m" and "flat ! i = x" using assms(2) by (metis in_set_conv_nth)
    then have "is_finite x \<or> x = NegInf" using val [of i] by (cases "m ! i") simp_all
    then show "x \<in> range Fin \<union> {NegInf}" by (cases x) simp_all
  qed
  ultimately have "list_all is_finite (best k flat)" using best_finite assms(3) by simp
  then show "list_all is_finite (map ((!) flat) (torch_topk T flat k))" using topk_best [OF assms(1) k] by simp
qed

lemma limited_width:
  assumes "0 < beam_width" and "True \<in> set (tensor_data m)"
  obtains k where "item_mask_limited_beam_width beam_width (Some m) = Inr k" and "1 \<le> k" and "k \<le> beam_width"
    and "nat k \<le> length (filter id (tensor_data m))"
proof -
  let ?n = "length (filter id (tensor_data m))"
  have "filter id (tensor_data m) \<noteq> []" using assms(2) by (auto simp: filter_empty_conv)
  then have n: "0 < ?n" by simp
  have "item_mask_limited_beam_width beam_width (Some m) = Inr (min beam_width (int ?n))"
    using n assms(1) by (simp add: item_mask_limited_beam_width_def valid_item_mask_candidates_def Let_def)
  then show thesis using n assms(1) by (intro that [of "min beam_width (int ?n)"]) (simp_all add: nat_le_iff Suc_le_eq)
qed

lemma clamped_selects:
  assumes "torch_contract T" and "next_args_ok logits w v prev 1 mode" and "0 < beam_width"
    and "set (tensor_data logits) \<subseteq> range Fin" and "set prev \<subseteq> range Fin"
    and "wf_tensor m" and "tensor_shape m = [w, v]" and "True \<in> set (tensor_data m)"
    and "mode = ''logprob'' \<Longrightarrow> \<forall>i < w. \<exists>t < v. tensor_data m ! (i * v + t)"
  shows "\<exists>k sel. item_mask_limited_beam_width beam_width (Some m) = Inr k \<and> 1 \<le> k \<and> k \<le> beam_width
    \<and> select_next_topk T logits prev k (Some m) mode = Inr sel"
proof -
  let ?m = "tensor_data m"
  let ?allowed = "Some ?m"
  let ?flat = "next_scores T mode w v ?allowed (tensor_data logits) prev"
  have len: "length (tensor_data logits) = w * v" "length prev = w" "mask_fits (w * v) ?allowed" "length ?m = w * v"
    using assms(2,6,7) by (simp_all add: next_args_ok_def wf_tensor_def mask_fits_def)
  obtain k where k: "item_mask_limited_beam_width beam_width (Some m) = Inr k" "1 \<le> k" "k \<le> beam_width"
    "nat k \<le> length (filter id ?m)" using limited_width [OF assms(3,8)] by blast
  note flat = next_scores_flat [OF assms(1) len(1,3,2)]
  have val: "if ?m ! i then is_finite (?flat ! i) else ?flat ! i = NegInf" if "i < length ?m" for i
  proof -
    have i: "i < w * v" using that len(4) by simp
    have dm: "i div v < w" "i mod v < v" using flat_split [OF i] by auto
    have e: "mode = ''logprob'' \<Longrightarrow> \<exists>t < v. allows ?allowed (i div v * v + t)" using assms(9) dm by (simp add: allows_def)
    show ?thesis using candidate_masked [OF assms(1) len(1,3,2) assms(4,5) dm e] flat(2) [OF i] by (simp add: allows_def)
  qed
  have "length ?flat = length ?m" using flat(1) len(4) by simp
  note fin = finite_selection [OF assms(1) this k(4) val]
  have "next_item_mask w v (Some m) = Inr ?allowed" using assms(7) by (simp add: next_item_mask_def)
  moreover have "k \<le> int (w * v)" using fin(1) flat(1) k(2) by (simp add: nat_le_iff)
  ultimately have "\<exists>sel. select_next_topk T logits prev k (Some m) mode = Inr sel"
    using assms(2) k(2) fin(2) by (auto simp: select_next_topk_def validate_score_mode_def next_args_ok_def Let_def)
  then show ?thesis using k by blast
qed

text \<open>the clamp makes the mask error unreachable. With finite logits and previous scores and a mask of
  the candidates' shape, the width that \<open>item_mask_limited_beam_width\<close> allows is at least one and always
  selects; in log-probability mode every beam has to have an allowed token.\<close>

theorem clamped_width_always_selects:
  assumes "torch_contract T" and "next_args_ok logits w v prev 1 mode" and "0 < beam_width"
    and "set (tensor_data logits) \<subseteq> range Fin" and "set prev \<subseteq> range Fin"
    and "wf_tensor m" and "tensor_shape m = [w, v]" and "True \<in> set (tensor_data m)"
    and "mode = ''logprob'' \<Longrightarrow> \<forall>i < w. \<exists>t < v. tensor_data m ! (i * v + t)"
  shows "\<exists>k sel. item_mask_limited_beam_width beam_width (Some m) = Inr k \<and> 1 \<le> k \<and> k \<le> beam_width
    \<and> select_next_topk T logits prev k (Some m) mode = Inr sel"
  using clamped_selects [OF assms] .

text \<open>C40: in log-probability mode a beam all of whose tokens are masked makes the selection raise, however
  many allowed candidates the other beams have: its log-probabilities are NaN, which \<open>topk\<close> ranks above
  every number.\<close>

theorem logprob_dead_beam_raises:
  assumes "torch_contract T" and "next_args_ok logits w v prev k ''logprob''"
    and "wf_tensor m" and "tensor_shape m = [w, v]"
    and "i < w" and "\<forall>t < v. \<not> tensor_data m ! (i * v + t)"
  shows "select_next_topk T logits prev k (Some m) ''logprob'' =
    Inl (ValueError ''item_mask leaves fewer valid candidates than beam_width'')"
proof -
  let ?allowed = "Some (tensor_data m)"
  let ?flat = "next_scores T ''logprob'' w v ?allowed (tensor_data logits) prev"
  let ?is = "torch_topk T ?flat (nat k)"
  have len: "length (tensor_data logits) = w * v" "length prev = w" "mask_fits (w * v) ?allowed"
    using assms(2-4) by (simp_all add: next_args_ok_def wf_tensor_def mask_fits_def)
  have k: "0 < k" "k \<le> int (w * v)" using assms(2) by (simp_all add: next_args_ok_def)
  then have v: "0 < v" by (cases v) auto
  note flat = next_scores_flat [OF assms(1) len(1,3,2)]
  let ?row = "split_rows w v (mask_fill ?allowed (tensor_data logits)) ! i"
  have row: "?row ! t = NegInf" if "t < v" for t
    using that assms(5,6) len flat_index [OF assms(5) that] by (simp add: split_rows_nth mask_fill_nth allows_def)
  have "length ?row = v" using len assms(5) by simp
  then have "set ?row \<subseteq> {NegInf}" using row by (auto simp: in_set_conv_nth)
  then have "torch_logsumexp T ?row = NegInf" using softmaxD(2) [OF assms(1)] by blast
  then have "candidate T ''logprob'' w v ?allowed (tensor_data logits) prev i 0 = NaN"
    using row [OF v] by (simp add: candidate_def mode_score_def fsub_def Let_def)
  then have nan: "?flat ! (i * v) = NaN" "i * v < length ?flat"
    using flat(1) flat(2) [of "i * v"] flat_index [OF assms(5) v] v by simp_all
  have kl: "nat k \<le> length ?flat" using k(2) flat(1) by (simp add: nat_le_iff)
  note topk = topkD [OF assms(1) kl]
  have "\<exists>j \<in> set ?is. ?flat ! j = NaN"
  proof (cases "i * v \<in> set ?is")
    case False
    have "?is \<noteq> []" using topk(1) k(1) by auto
    then obtain j where j: "j \<in> set ?is" by (cases ?is) auto
    have "NaN \<le> ?flat ! j" using topk(5) [OF j nan(2) False] nan(1) by simp
    then have "?flat ! j = NaN" by (cases "?flat ! j") (simp_all add: less_eq_pyfloat_def)
    then show ?thesis using j by blast
  qed (use nan(1) in blast)
  then have "\<not> list_all is_finite (map ((!) ?flat) ?is)" by (force simp: list_all_iff)
  moreover have "next_item_mask w v (Some m) = Inr ?allowed" using assms(4) by (simp add: next_item_mask_def)
  ultimately show ?thesis
    using assms(2) by (auto simp: select_next_topk_def validate_score_mode_def next_args_ok_def Let_def)
qed

text \<open>What the beam path needs to know of a selection under a mask of the candidates' shape.\<close>

lemma next_selected:
  assumes "torch_contract T" and "wf_tensor logits" and "wf_tensor m" and "tensor_shape m = [w, v]"
    and "select_next_topk T logits prev k (Some m) mode = Inr sel" and "tensor_shape logits = [1, w, v]"
  shows "0 < k" and "length (bs_token_ids sel) = nat k" and "length (bs_parent_beams sel) = nat k" and "length (bs_scores sel) = nat k"
    and "set (bs_parent_beams sel) \<subseteq> {0..<int w}" and "set (bs_scores sel) \<subseteq> range Fin"
    and "\<forall>(b, t) \<in> set (zip (bs_parent_beams sel) (bs_token_ids sel)). 0 \<le> b \<and> b < int w \<and> 0 \<le> t \<and> t < int v
           \<and> tensor_data m ! (nat b * v + nat t)"
proof -
  have wfm: "wf_mask (Some m)" and nm: "next_item_mask w v (Some m) = Inr (Some (tensor_data m))"
    using assms(3,4) by (simp_all add: wf_mask_def next_item_mask_def)
  let ?flat = "next_scores T mode w v (Some (tensor_data m)) (tensor_data logits) prev"
  have ok: "next_args_ok logits w v prev k mode" and par: "bs_parent_beams sel = map (\<lambda>i. int (i div v)) (torch_topk T ?flat (nat k))"
    and tok: "bs_token_ids sel = map (\<lambda>i. int (i mod v)) (torch_topk T ?flat (nat k))"
    and sc: "bs_scores sel = map ((!) ?flat) (torch_topk T ?flat (nat k))"
    by (rule select_next_Inr [OF assms(5,2)]; simp add: next_args_ok_def assms(6) nm)+
  note best = select_next_best [OF assms(1,2) wfm assms(5,6) nm refl refl]
  have "length ?flat = w * v"
    using next_scores_flat(1) [OF assms(1)] ok next_item_mask_fits(1) [OF nm wfm] assms(6) by (simp add: next_args_ok_def wf_tensor_def)
  then have l: "length (torch_topk T ?flat (nat k)) = nat k"
    using topkD(1) [OF assms(1)] ok by (simp add: next_args_ok_def nat_le_iff)
  show len: "length (bs_token_ids sel) = nat k" "length (bs_parent_beams sel) = nat k" "length (bs_scores sel) = nat k"
    using par tok sc l by simp_all
  show "0 < k" using ok by (simp add: next_args_ok_def)
  show allowed: "\<forall>(b, t) \<in> set (zip (bs_parent_beams sel) (bs_token_ids sel)). 0 \<le> b \<and> b < int w \<and> 0 \<le> t \<and> t < int v
      \<and> tensor_data m ! (nat b * v + nat t)"
    using conjunct1 [OF conjunct2 [OF conjunct2 [OF best]]] conjunct2 [OF conjunct2 [OF conjunct2 [OF conjunct2 [OF conjunct2 [OF conjunct2 [OF best]]]]]]
    by (auto simp: allows_def)
  show "set (bs_parent_beams sel) \<subseteq> {0..<int w}"
  proof
    fix b assume "b \<in> set (bs_parent_beams sel)"
    then obtain i where i: "i < nat k" "bs_parent_beams sel ! i = b" using len by (metis in_set_conv_nth)
    then have "(b, bs_token_ids sel ! i) \<in> set (zip (bs_parent_beams sel) (bs_token_ids sel))"
      using len by (auto simp: set_zip)
    then show "b \<in> {0..<int w}" using allowed by fastforce
  qed
  have "bs_scores sel \<noteq> [] \<Longrightarrow> list_all is_finite (bs_scores sel)"
    by (rule select_next_Inr [OF assms(5,2)]) (use nm assms(6) in \<open>simp add: next_args_ok_def\<close>)
  moreover have "x \<in> range Fin" if "is_finite x" for x using that by (cases x) auto
  ultimately show "set (bs_scores sel) \<subseteq> range Fin" by (cases "bs_scores sel = []") (auto simp: list_all_iff)
qed

text \<open>The initial selection under a mask over the vocabulary.\<close>

lemma initial_selected:
  assumes "torch_contract T" and "select_initial_topk T logits k (Some m) mode = Inr sel"
    and "last_scores logits = Inr (1, v, xs)" and "length xs = v" and "wf_tensor m"
  shows "bs_parent_beams sel = replicate (nat k) 0" and "length (bs_token_ids sel) = nat k" and "length (bs_scores sel) = nat k"
    and "0 < k" and "set (bs_scores sel) \<subseteq> range Fin"
    and "\<forall>t \<in> set (bs_token_ids sel). 0 \<le> t \<and> t < int v \<and> tensor_data m ! nat t"
proof -
  let ?row = "masked_fill (tensor_data m) xs"
  let ?scores = "row_scores T mode ?row"
  let ?is = "torch_topk T ?scores (nat k)"
  have sh: "tensor_shape m \<in> {[v], [1, v]}" and k: "0 < k" "k \<le> int v"
    and fin: "list_all is_finite (map ((!) ?scores) ?is)"
    and sel: "sel = \<lparr>bs_token_ids = map int ?is, bs_scores = map ((!) ?scores) ?is, bs_parent_beams = map (\<lambda>_. 0) ?is\<rparr>"
    using assms(2,3) by (auto simp: select_initial_topk_def initial_item_mask_def mask_fill_def Let_def length_Suc_conv split: if_splits)
  have len: "length (tensor_data m) = v" using sh assms(5) by (auto simp: wf_tensor_def)
  have row: "?scores = map (mode_score T mode ?row) ?row" "length ?row = v" using row_scores_map [OF assms(1)] len assms(4) by simp_all
  have kl: "nat k \<le> length ?scores" using row k by simp
  note topk = topkD [OF assms(1) kl]
  have "tensor_data m ! i" if i: "i \<in> set ?is" for i
  proof -
    have il: "i < v" using topk(3) [OF i] row by simp
    have "is_finite (?scores ! i)" using fin i by (simp add: list_all_iff)
    then have "is_finite (?row ! i)" using row il mode_score_finite by (metis nth_map)
    then show ?thesis using masked_fill_nth [of i "tensor_data m" xs] il len assms(4) by (simp split: if_splits)
  qed
  then show "\<forall>t \<in> set (bs_token_ids sel). 0 \<le> t \<and> t < int v \<and> tensor_data m ! nat t"
    using sel topk(3) row by auto
  have "x \<in> range Fin" if "is_finite x" for x using that by (cases x) auto
  then show "set (bs_scores sel) \<subseteq> range Fin" using fin sel by (auto simp: list_all_iff)
  show "bs_parent_beams sel = replicate (nat k) 0" "length (bs_token_ids sel) = nat k" "length (bs_scores sel) = nat k" "0 < k"
    using sel topk(1) k by (simp_all add: map_replicate_const)
qed

lemma initial_clamped:
  assumes "torch_contract T" and "last_scores logits = Inr (1, v, xs)" and "length xs = v" and "set xs \<subseteq> range Fin"
    and "wf_tensor m" and "tensor_shape m = [v]" and "True \<in> set (tensor_data m)" and "0 < beam_width"
    and "mode \<in> {''raw_logits'', ''logprob''}"
  shows "\<exists>k sel. item_mask_limited_beam_width beam_width (Some m) = Inr k \<and> 1 \<le> k \<and> k \<le> beam_width
    \<and> select_initial_topk T logits k (Some m) mode = Inr sel"
proof -
  let ?m = "tensor_data m"
  let ?row = "masked_fill ?m xs"
  let ?scores = "row_scores T mode ?row"
  have len: "length ?m = v" using assms(5,6) by (simp add: wf_tensor_def)
  have row: "?scores = map (mode_score T mode ?row) ?row" "length ?row = v" using row_scores_map [OF assms(1)] len assms(3) by simp_all
  have elem: "?row ! i = (if ?m ! i then xs ! i else NegInf)" if "i < v" for i
    using masked_fill_nth [of i ?m xs] that len assms(3) by simp
  have fin: "xs ! i \<in> range Fin" if "i < v" for i using that assms(3,4) by (metis nth_mem subsetD)
  obtain j where j: "j < v" "?m ! j" using assms(7) len by (metis in_set_conv_nth)
  have sub: "set ?row \<subseteq> range Fin \<union> {NegInf}" using elem fin row(2) by (fastforce simp: in_set_conv_nth)
  have "?row ! j \<in> set ?row" and "?row ! j \<in> range Fin" using elem [OF j(1)] fin [OF j(1)] j row(2) by (metis nth_mem, simp)
  then have lse: "is_finite (torch_logsumexp T ?row)" using softmaxD(3) [OF assms(1) sub] by blast
  have val: "if ?m ! i then is_finite (?scores ! i) else ?scores ! i = NegInf" if "i < length ?m" for i
  proof -
    have i: "i < v" using that len by simp
    obtain q where "xs ! i = Fin q" using fin [OF i] by blast
    then show ?thesis using elem [OF i] lse row i by (cases "torch_logsumexp T ?row") (simp_all add: mode_score_def fsub_def)
  qed
  obtain k where k: "item_mask_limited_beam_width beam_width (Some m) = Inr k" "1 \<le> k" "k \<le> beam_width"
    "nat k \<le> length (filter id ?m)" using limited_width [OF assms(8,7)] by blast
  have "length ?scores = length ?m" using row len by simp
  note fs = finite_selection [OF assms(1) this k(4) val]
  have "k \<le> int v" using fs(1) row k(2) by (simp add: nat_le_iff)
  then have "\<exists>sel. select_initial_topk T logits k (Some m) mode = Inr sel"
    using assms(2,6,9) k(2) fs(2)
    by (auto simp: select_initial_topk_def validate_score_mode_def initial_item_mask_def mask_fill_def Let_def)
  then show ?thesis using k by blast
qed

section \<open>The batched selection\<close>

text \<open>Selecting the best of the best of every beam gives the best of all.\<close>

lemma select_row_values:
  assumes T: "torch_contract T" and "\<forall>row \<in> set rows. length row = v" and "length prev = length rows"
    and "0 < k" and "k \<le> length rows * v" and "PosInf \<notin> set prev"
  shows "row_values (select_row T mode k (min k v) rows prev) = best k (concat (add_prev (map (row_scores T mode) rows) prev))"
    and "length (concat (add_prev (map fst (map (local_topk T mode (min k v)) rows)) prev)) = length rows * min k v"
    and "k \<le> length rows * min k v"
proof -
  let ?l = "min k v"
  let ?locals = "map (local_topk T mode ?l) rows"
  have fst: "fst (local_topk T mode ?l row) = best k (row_scores T mode row)" if "row \<in> set rows" for row
  proof -
    have l: "length row = v" using assms(2) that by blast
    have "fst (local_topk T mode ?l row) = map (mode_score T mode row) (map ((!) row) (torch_topk T row ?l))"
      by (simp add: local_topk_def mode_score_def Let_def)
    also have "\<dots> = map (mode_score T mode row) (best k row)" using topk_best [OF T, of ?l row] best_min [of k row] l by simp
    also have "\<dots> = best k (map (mode_score T mode row) row)" using mode_score_mono [OF T] by (intro best_map [symmetric])
    finally show ?thesis by (simp add: row_scores_map [OF T])
  qed
  have step: "map (\<lambda>x. fadd x p) (fst (local_topk T mode ?l row)) = best k (map (\<lambda>x. fadd x p) (row_scores T mode row))"
    if "(row, p) \<in> set (zip rows prev)" for row p
  proof -
    have "row \<in> set rows" "p \<noteq> PosInf" using that assms(6) by (auto dest: set_zip_leftD set_zip_rightD)
    then show ?thesis using fst best_map [of "row_scores T mode row" "\<lambda>x. fadd x p" k] fadd_mono by simp
  qed
  then have "add_prev (map fst ?locals) prev = map (best k) (add_prev (map (row_scores T mode) rows) prev)"
    unfolding add_prev_def by (auto simp: zip_map1 comp_def split_beta)
  then have eq: "best k (concat (add_prev (map fst ?locals) prev)) = best k (concat (add_prev (map (row_scores T mode) rows) prev))"
    by (simp add: best_concat)
  have "length row = ?l" if "row \<in> set (add_prev (map fst ?locals) prev)" for row
    using that fst assms(2) by (fastforce simp: add_prev_def row_scores_map [OF T] dest: set_zip_leftD)
  then show len: "length (concat (add_prev (map fst ?locals) prev)) = length rows * ?l"
    using length_concat_rows [of "add_prev (map fst ?locals) prev" ?l] assms(3) by (simp add: add_prev_def)
  show kl: "k \<le> length rows * ?l"
  proof (cases "k \<le> v")
    case True
    then show ?thesis using assms(4,5) by (cases rows) auto
  qed (use assms(5) in simp)
  show "row_values (select_row T mode k ?l rows prev) = best k (concat (add_prev (map (row_scores T mode) rows) prev))"
    using topk_best [OF T, of k "concat (add_prev (map fst ?locals) prev)"] eq len kl by (simp add: select_row_def Let_def)
qed

lemma select_row_pairs:
  assumes T: "torch_contract T" and rows: "\<forall>row \<in> set rows. length row = v" and prev: "length prev = length rows"
    and k: "0 < k" "k \<le> length rows * v" and inf: "PosInf \<notin> set prev"
    and sel: "sel = select_row T mode k (min k v) rows prev"
  shows "distinct (zip (row_parents sel) (row_tokens sel))"
    and "row_values sel = map2 (\<lambda>p t. fadd (mode_score T mode (rows ! p) (rows ! p ! t)) (prev ! p)) (row_parents sel) (row_tokens sel)"
    and "\<forall>(p, t) \<in> set (zip (row_parents sel) (row_tokens sel)). p < length rows \<and> t < v"
proof -
  let ?l = "min k v" and ?w = "length rows"
  let ?locals = "map (local_topk T mode ?l) rows"
  let ?flat = "concat (add_prev (map fst ?locals) prev)" and ?ids = "concat (map snd ?locals)"
  let ?is = "torch_topk T ?flat k"
  note row = select_row_values [OF T rows prev k inf]
  have klen: "k \<le> length ?flat" using row(2,3) by simp
  note topk = topkD [OF T klen]
  have lt: "i div ?l < ?w \<and> i mod ?l < ?l" if "i \<in> set ?is" for i
    using topk(3) [OF that] unfolding row(2) by (rule flat_split)
  have local: "length (torch_topk T (rows ! p) ?l) = ?l" "distinct (torch_topk T (rows ! p) ?l)"
    "\<And>t. t \<in> set (torch_topk T (rows ! p) ?l) \<Longrightarrow> t < v" if "p < ?w" for p
    using topkD [OF T, of ?l "rows ! p"] rows that by auto
  have id: "?ids ! i = torch_topk T (rows ! (i div ?l)) ?l ! (i mod ?l)" if "i \<in> set ?is" for i
  proof -
    have "\<forall>r \<in> set (map snd ?locals). length r = ?l"
      using topkD(1) [OF T] rows by (auto simp: local_topk_def Let_def)
    then have "?ids ! (i div ?l * ?l + i mod ?l) = map snd ?locals ! (i div ?l) ! (i mod ?l)"
      using lt [OF that] by (intro concat_nth_flat) auto
    then show ?thesis unfolding div_mult_mod_eq using lt [OF that] by (simp add: local_topk_def Let_def)
  qed
  have val: "?flat ! i = fadd (mode_score T mode (rows ! (i div ?l)) (rows ! (i div ?l) ! (?ids ! i))) (prev ! (i div ?l))"
    if "i \<in> set ?is" for i
  proof -
    let ?p = "i div ?l" and ?q = "i mod ?l"
    have "\<forall>r \<in> set (add_prev (map fst ?locals) prev). length r = ?l"
      using topkD(1) [OF T] rows by (fastforce simp: add_prev_def local_topk_def Let_def dest: set_zip_leftD)
    then have "?flat ! (?p * ?l + ?q) = add_prev (map fst ?locals) prev ! ?p ! ?q"
      using lt [OF that] prev by (intro concat_nth_flat) (auto simp: add_prev_def)
    also have "\<dots> = fadd (fst (local_topk T mode ?l (rows ! ?p)) ! ?q) (prev ! ?p)"
      using lt [OF that] prev local(1) by (simp add: add_prev_nth) (simp add: local_topk_def Let_def)
    also have "fst (local_topk T mode ?l (rows ! ?p)) ! ?q = mode_score T mode (rows ! ?p) (rows ! ?p ! (?ids ! i))"
      using lt [OF that] local(1) id [OF that] by (simp add: local_topk_def mode_score_def Let_def)
    finally show ?thesis unfolding div_mult_mod_eq .
  qed
  have s: "row_parents sel = map (\<lambda>i. i div ?l) ?is" "row_tokens sel = map ((!) ?ids) ?is" "row_values sel = map ((!) ?flat) ?is"
    using sel by (simp_all add: select_row_def Let_def)
  then have zip: "zip (row_parents sel) (row_tokens sel) = map (\<lambda>i. (i div ?l, ?ids ! i)) ?is"
    by (simp add: zip_map1 zip_map2 zip_same_conv_map)
  have "i = j" if ij: "i \<in> set ?is" "j \<in> set ?is" and e: "i div ?l = j div ?l" "?ids ! i = ?ids ! j" for i j
  proof -
    have "torch_topk T (rows ! (i div ?l)) ?l ! (i mod ?l) = torch_topk T (rows ! (i div ?l)) ?l ! (j mod ?l)"
      using id [OF ij(1)] id [OF ij(2)] e by simp
    then have "i mod ?l = j mod ?l"
      using nth_eq_iff_index_eq [OF local(2), of "i div ?l"] lt [OF ij(1)] lt [OF ij(2)] local(1) by simp
    then show ?thesis using e(1) mod_div_inj by blast
  qed
  then show "distinct (zip (row_parents sel) (row_tokens sel))"
    unfolding zip using topk(2) by (auto simp: distinct_map inj_on_def)
  have "?ids ! i < v" if "i \<in> set ?is" for i
    unfolding id [OF that] using lt [OF that] local(1) local(3) [OF _ nth_mem, of "i div ?l" "i mod ?l"] by simp
  then show "\<forall>(p, t) \<in> set (zip (row_parents sel) (row_tokens sel)). p < ?w \<and> t < v"
    unfolding zip using lt by auto
  show "row_values sel = map2 (\<lambda>p t. fadd (mode_score T mode (rows ! p) (rows ! p ! t)) (prev ! p)) (row_parents sel) (row_tokens sel)"
    unfolding zip s(3) using val by simp
qed

lemma split_rows_masked_fill:
  "i < m \<Longrightarrow> split_rows m n (masked_fill a xs) ! i = masked_fill (split_rows m n a ! i) (split_rows m n xs ! i)"
  by (simp add: split_rows_nth masked_fill_def take_map drop_map take_zip drop_zip)

text \<open>What a request of the batch sees: its logits and its mask.\<close>

definition request_logits :: "pyfloat tensor \<Rightarrow> nat \<Rightarrow> nat \<Rightarrow> nat \<Rightarrow> nat \<Rightarrow> pyfloat tensor" where
  "request_logits logits b w v i =
     \<lparr>tensor_shape = [1, w, v], tensor_data = split_rows b (w * v) (tensor_data logits) ! i\<rparr>"

definition request_mask :: "bool tensor option \<Rightarrow> nat \<Rightarrow> nat \<Rightarrow> nat \<Rightarrow> nat \<Rightarrow> bool tensor option" where
  "request_mask item_mask b w v i =
     map_option (\<lambda>m. if length (tensor_shape m) = 2
                     then \<lparr>tensor_shape = [v], tensor_data = split_rows b v (tensor_data m) ! i\<rparr>
                     else \<lparr>tensor_shape = [w, v], tensor_data = split_rows b (w * v) (tensor_data m) ! i\<rparr>) item_mask"

lemma request_mask_agrees:
  assumes "\<forall>m. item_mask = Some m \<longrightarrow> wf_tensor m \<and> tensor_shape m \<in> {[b, v], [b, w, v]}"
    and "length xs = b * (w * v)"
  obtains allowed where "batched_next_mask b w v item_mask = Inr allowed" and "allowed = None \<longleftrightarrow> item_mask = None"
    and "mask_fits (b * (w * v)) allowed"
    and "\<And>i. i < b \<Longrightarrow> \<exists>a. next_item_mask w v (request_mask item_mask b w v i) = Inr a \<and> (a = None \<longleftrightarrow> item_mask = None)
           \<and> mask_fits (w * v) a \<and> split_rows b (w * v) (mask_fill allowed xs) ! i = mask_fill a (split_rows b (w * v) xs ! i)"
proof (cases item_mask)
  case None
  then show thesis
    by (intro that [of None]) (auto simp: batched_next_mask_def next_item_mask_def request_mask_def mask_fits_def mask_fill_def)
next
  case (Some m)
  then have wf: "length (tensor_data m) = prod_list (tensor_shape m)" and sh: "tensor_shape m = [b, v] \<or> tensor_shape m = [b, w, v]"
    using assms(1) by (auto simp: wf_tensor_def)
  show thesis
  proof (cases "tensor_shape m = [b, v]")
    case True
    let ?rows = "map (expand_data [1, v] [w, v]) (split_rows b v (tensor_data m))"
    have bm: "batched_next_mask b w v item_mask = Inr (Some (concat ?rows))"
      using Some True by (simp add: batched_next_mask_def expand_to_def Let_def)
    have l: "\<forall>row \<in> set ?rows. length row = w * v"
      using row_length [of "tensor_data m" b v] wf True length_expand_data [of "[1, v]" "[w, v]"]
      by (auto simp del: expand_data.simps)
    have nm: "next_item_mask w v (request_mask item_mask b w v i) = Inr (Some (?rows ! i))" if "i < b" for i
      using Some True that by (simp add: next_item_mask_def request_mask_def expand_to_def del: expand_data.simps)
    have "split_rows b (w * v) (concat ?rows) = ?rows" using split_rows_concat [OF _ l, of b] by (simp only: length_map length_split_rows)
    then have "split_rows b (w * v) (mask_fill (Some (concat ?rows)) xs) ! i = mask_fill (Some (?rows ! i)) (split_rows b (w * v) xs ! i)"
      if "i < b" for i using split_rows_masked_fill [OF that] by (simp add: mask_fill_def del: expand_data.simps)
    moreover have "mask_fits (w * v) (Some (?rows ! i))" if "i < b" for i
      using l that by (simp add: mask_fits_def del: expand_data.simps)
    moreover have "mask_fits (b * (w * v)) (Some (concat ?rows))"
      using length_concat_rows [OF l] by (simp add: mask_fits_def del: expand_data.simps)
    ultimately show thesis using bm nm Some by (intro that [of "Some (concat ?rows)"]) auto
  next
    case False
    then have sh3: "tensor_shape m = [b, w, v]" using sh by blast
    have "length (split_rows b (w * v) (tensor_data m) ! i) = w * v" if "i < b" for i using wf sh3 that by (intro length_split_row) auto
    then show thesis
      using Some sh3 wf split_rows_masked_fill
      by (intro that [of "Some (tensor_data m)"])
        (auto simp: batched_next_mask_def next_item_mask_def request_mask_def mask_fits_def mask_fill_def)
  qed
qed

text \<open>One request of the batch and the single-request selection on its slice.\<close>

lemma select_row_agrees:
  assumes T: "torch_contract T" and "length logits = w * v" and "mask_fits (w * v) a" and "length prev = w" and "PosInf \<notin> set prev"
    and "0 < k" and "k \<le> int (w * v)" and "mode \<in> {''raw_logits'', ''logprob''}"
    and mask: "next_item_mask w v item_mask = Inr a" and some: "a = None \<longleftrightarrow> item_mask = None"
    and sel: "sel = select_row T mode (nat k) (min (nat k) v) (split_rows w v (mask_fill a logits)) prev"
  shows "if item_mask \<noteq> None \<and> \<not> list_all is_finite (row_values sel)
    then select_next_topk T \<lparr>tensor_shape = [1, w, v], tensor_data = logits\<rparr> prev k item_mask mode =
      Inl (ValueError ''item_mask leaves fewer valid candidates than beam_width'')
    else \<exists>s. select_next_topk T \<lparr>tensor_shape = [1, w, v], tensor_data = logits\<rparr> prev k item_mask mode = Inr s
      \<and> bs_scores s = row_values sel"
    and "row_values sel = map2 (candidate T mode w v a logits prev) (row_parents sel) (row_tokens sel)"
    and "distinct (zip (row_parents sel) (row_tokens sel))"
proof -
  let ?rows = "split_rows w v (mask_fill a logits)" and ?flat = "next_scores T mode w v a logits prev"
  have rl: "\<forall>row \<in> set ?rows. length row = v" using row_length [of "mask_fill a logits" w v] assms(2,3) by simp
  have args: "length prev = length ?rows" "0 < nat k" "nat k \<le> length ?rows * v" using assms(4,6,7) by (simp_all add: nat_le_iff)
  note row = select_row_values [OF T rl args assms(5)] and pairs = select_row_pairs [OF T rl args assms(5) sel]
  have "nat k \<le> length ?flat" using next_scores_flat(1) [OF T assms(2-4)] assms(7) by (simp add: nat_le_iff)
  then have vals: "map ((!) ?flat) (torch_topk T ?flat (nat k)) = row_values sel"
    using topk_best [OF T] row(1) sel by (simp add: next_scores_def)
  show "if item_mask \<noteq> None \<and> \<not> list_all is_finite (row_values sel)
    then select_next_topk T \<lparr>tensor_shape = [1, w, v], tensor_data = logits\<rparr> prev k item_mask mode =
      Inl (ValueError ''item_mask leaves fewer valid candidates than beam_width'')
    else \<exists>s. select_next_topk T \<lparr>tensor_shape = [1, w, v], tensor_data = logits\<rparr> prev k item_mask mode = Inr s
      \<and> bs_scores s = row_values sel"
    using assms(4,6-8) mask some vals by (auto simp: select_next_topk_def validate_score_mode_def Let_def)
  show "row_values sel = map2 (candidate T mode w v a logits prev) (row_parents sel) (row_tokens sel)"
    using pairs(2) by (simp add: candidate_def Let_def)
  show "distinct (zip (row_parents sel) (row_tokens sel))" by (rule pairs(1))
qed

text \<open>C9: the batched selection, which first takes the best tokens of every beam and then the best of
  these, agrees with the single-request selection on every request of the batch. It raises exactly
  when the selection of some request raises, and otherwise every request gets the same scores,
  spelled by different (parent, token) pairs that really have these scores.\<close>

theorem batched_selection_agrees:
  assumes T: "torch_contract T" and shape: "tensor_shape logits = [b, w, v]" and wf: "wf_tensor logits" and "0 < b"
    and "length prev = b" and "\<forall>row \<in> set prev. length row = w \<and> PosInf \<notin> set row"
    and "0 < k" and "k \<le> int (w * v)" and "mode \<in> {''raw_logits'', ''logprob''}"
    and "\<forall>m. item_mask = Some m \<longrightarrow> wf_tensor m \<and> tensor_shape m \<in> {[b, v], [b, w, v]}"
    and one: "one = (\<lambda>i. select_next_topk T (request_logits logits b w v i) (prev ! i) k (request_mask item_mask b w v i) mode)"
  shows "case select_next_topk_batched T logits (Some prev) None k item_mask mode True True of
      Inl e \<Rightarrow> \<exists>i < b. one i = Inl e
    | Inr sel \<Rightarrow> length (sel_scores sel) = b \<and> (\<forall>i < b. \<exists>s a. one i = Inr s \<and> sel_scores sel ! i = bs_scores s
        \<and> next_item_mask w v (request_mask item_mask b w v i) = Inr a
        \<and> distinct (zip (sel_parent_beams sel ! i) (sel_token_ids sel ! i))
        \<and> sel_scores sel ! i = map2 (\<lambda>p t. candidate T mode w v a (tensor_data (request_logits logits b w v i)) (prev ! i) (nat p) (nat t))
             (sel_parent_beams sel ! i) (sel_token_ids sel ! i))"
proof -
  have len: "length (tensor_data logits) = b * (w * v)" using shape wf by (simp add: wf_tensor_def)
  obtain allowed where bm: "batched_next_mask b w v item_mask = Inr allowed" "allowed = None \<longleftrightarrow> item_mask = None"
      "mask_fits (b * (w * v)) allowed"
    and req: "\<And>i. i < b \<Longrightarrow> \<exists>a. next_item_mask w v (request_mask item_mask b w v i) = Inr a \<and> (a = None \<longleftrightarrow> item_mask = None)
        \<and> mask_fits (w * v) a \<and> split_rows b (w * v) (mask_fill allowed (tensor_data logits)) ! i
             = mask_fill a (split_rows b (w * v) (tensor_data logits) ! i)"
    by (rule request_mask_agrees [OF assms(10) len]) (rule that)
  define sels where "sels = map2 (\<lambda>block p. select_row T mode (nat k) (min (nat k) v) (split_rows w v block) p)
      (split_rows b (w * v) (mask_fill allowed (tensor_data logits))) prev"
  have lsels: "length sels = b" using assms(5) by (simp add: sels_def)
  have row: "\<exists>a. next_item_mask w v (request_mask item_mask b w v i) = Inr a
      \<and> (if item_mask \<noteq> None \<and> \<not> list_all is_finite (row_values (sels ! i))
         then one i = Inl (ValueError ''item_mask leaves fewer valid candidates than beam_width'')
         else \<exists>s. one i = Inr s \<and> bs_scores s = row_values (sels ! i))
      \<and> row_values (sels ! i) = map2 (candidate T mode w v a (tensor_data (request_logits logits b w v i)) (prev ! i))
          (row_parents (sels ! i)) (row_tokens (sels ! i))
      \<and> distinct (zip (row_parents (sels ! i)) (row_tokens (sels ! i)))" if i: "i < b" for i
  proof -
    obtain a where a: "next_item_mask w v (request_mask item_mask b w v i) = Inr a" "a = None \<longleftrightarrow> request_mask item_mask b w v i = None"
      "mask_fits (w * v) a"
      and block: "split_rows b (w * v) (mask_fill allowed (tensor_data logits)) ! i = mask_fill a (split_rows b (w * v) (tensor_data logits) ! i)"
      using req [OF i] unfolding request_mask_def map_option_is_None by blast
    have s: "sels ! i = select_row T mode (nat k) (min (nat k) v)
        (split_rows w v (mask_fill a (split_rows b (w * v) (tensor_data logits) ! i))) (prev ! i)"
      using i assms(5) block by (simp add: sels_def)
    have p: "length (prev ! i) = w" "PosInf \<notin> set (prev ! i)" using assms(5,6) i by simp_all
    have mask_iff: "request_mask item_mask b w v i = None \<longleftrightarrow> item_mask = None" by (simp add: request_mask_def)
    have data: "tensor_data (request_logits logits b w v i) = split_rows b (w * v) (tensor_data logits) ! i"
      by (simp add: request_logits_def)
    have one_i: "one i = select_next_topk T \<lparr>tensor_shape = [1, w, v], tensor_data = split_rows b (w * v) (tensor_data logits) ! i\<rparr>
        (prev ! i) k (request_mask item_mask b w v i) mode" by (simp only: one request_logits_def)
    note agree = select_row_agrees [OF T length_split_row [OF len i] a(3) p assms(7-9) a(1,2) s, folded one_i, unfolded mask_iff]
    show ?thesis unfolding data by (rule exI [of _ a]) (use a(1) agree in blast)
  qed
  let ?bad = "item_mask \<noteq> None \<and> (\<exists>i < b. \<not> list_all is_finite (row_values (sels ! i)))"
  have bad: "allowed \<noteq> None \<and> \<not> list_all (list_all is_finite) (map row_values sels) \<longleftrightarrow> ?bad"
    unfolding list_all_length [of "list_all is_finite"] using bm(2) lsels by auto
  have ragged: "\<not> (\<exists>row \<in> set prev. length row \<noteq> w)" and ne: "prev \<noteq> []" using assms(4-6) by auto
  have run: "select_next_topk_batched T logits (Some prev) None k item_mask mode True True =
     (if ?bad then Inl (ValueError ''item_mask leaves fewer valid candidates than beam_width'')
      else Inr \<lparr>sel_token_ids = map (\<lambda>s. map int (row_tokens s)) sels, sel_scores = map row_values sels,
        sel_parent_beams = map (\<lambda>s. map int (row_parents s)) sels,
        sel_token_ids_tensor = Some \<lparr>tensor_shape = [b, nat k], tensor_data = concat (map (\<lambda>s. map int (row_tokens s)) sels)\<rparr>,
        sel_scores_tensor = Some \<lparr>tensor_shape = [b, nat k], tensor_data = concat (map row_values sels)\<rparr>,
        sel_parent_beams_tensor = Some \<lparr>tensor_shape = [b, nat k], tensor_data = concat (map (\<lambda>s. map int (row_parents s)) sels)\<rparr>\<rparr>)"
    unfolding bad [symmetric] using assms(5,7-9) bm(1) ragged ne
    by (simp add: select_next_topk_batched_def shape validate_score_mode_def previous_matrix_def Let_def sels_def [symmetric]
        del: map_map) (simp add: sels_def)
  show ?thesis
  proof (cases ?bad)
    case True
    then show ?thesis using run row by (fastforce split: if_splits)
  next
    case False
    have "\<exists>s a. one i = Inr s \<and> row_values (sels ! i) = bs_scores s \<and> next_item_mask w v (request_mask item_mask b w v i) = Inr a
        \<and> distinct (zip (map int (row_parents (sels ! i))) (map int (row_tokens (sels ! i))))
        \<and> row_values (sels ! i) = map2 (\<lambda>p t. candidate T mode w v a (tensor_data (request_logits logits b w v i)) (prev ! i) (nat p) (nat t))
            (map int (row_parents (sels ! i))) (map int (row_tokens (sels ! i)))" if i: "i < b" for i
    proof -
      have dz: "distinct (zip ps ts) \<Longrightarrow> distinct (zip (map int ps) (map int ts))" for ps ts
        by (auto simp: zip_map_map distinct_map inj_on_def)
      obtain a s where "next_item_mask w v (request_mask item_mask b w v i) = Inr a" "one i = Inr s" "bs_scores s = row_values (sels ! i)"
        "row_values (sels ! i) = map2 (candidate T mode w v a (tensor_data (request_logits logits b w v i)) (prev ! i))
          (row_parents (sels ! i)) (row_tokens (sels ! i))" "distinct (zip (row_parents (sels ! i)) (row_tokens (sels ! i)))"
        using row [OF i] False i by (auto split: if_splits)
      then show ?thesis using dz by (intro exI [of _ s] exI [of _ a]) (simp add: zip_map_map comp_def split_beta)
    qed
    then show ?thesis unfolding run if_not_P [OF False] using lsels by simp
  qed
qed

section \<open>Examples\<close>

text \<open>Two beams over three tokens, and a mask that allows two tokens of the second beam only.\<close>

definition ex_logits :: "pyfloat tensor" where
  "ex_logits = \<lparr>tensor_shape = [1, 2, 3], tensor_data = [Fin 5, Fin 1, Fin 4, Fin 2, Fin 6, Fin 3]\<rparr>"

definition ex_mask :: "bool tensor" where
  "ex_mask = \<lparr>tensor_shape = [2, 3], tensor_data = [False, False, False, True, False, True]\<rparr>"

lemma ex_selects:
  "select_next_topk ref_torch ex_logits [Fin 0, Fin 1] 2 (Some ex_mask) ''raw_logits'' =
     Inr \<lparr>bs_token_ids = [2, 0], bs_scores = [Fin 4, Fin 3], bs_parent_beams = [1, 1]\<rparr>"
  by code_simp

theorem select_next_keeps_the_best_witness:
  "candidate ref_torch ''raw_logits'' 2 3 (Some (tensor_data ex_mask)) (tensor_data ex_logits) [Fin 0, Fin 1] 0 0 \<le> Fin 3
   \<and> allows (Some (tensor_data ex_mask)) (1 * 3 + 2)"
proof -
  have args: "wf_tensor ex_logits" "wf_mask (Some ex_mask)" "tensor_shape ex_logits = [1, 2, 3]"
    "next_item_mask 2 3 (Some ex_mask) = Inr (Some (tensor_data ex_mask))"
    by (simp_all add: ex_logits_def ex_mask_def wf_tensor_def wf_mask_def next_item_mask_def)
  note best = select_next_keeps_the_best [OF ref_torch_contract args(1,2) ex_selects args(3,4) refl refl]
  have c0: "candidate ref_torch ''raw_logits'' 2 3 (Some (tensor_data ex_mask)) (tensor_data ex_logits) [Fin 0, Fin 1] (nat 1) (nat 0) = Fin 3"
    by code_simp
  have in0: "((0::int), (0::int)) \<in> {0..<int 2} \<times> {0..<int 3} - set (zip [1, 1] [2, 0])"
    and in1: "((1::int), (0::int)) \<in> set (zip [1, 1] [2, 0])" and in2: "((1::int), (2::int)) \<in> set (zip [1, 1] [2, 0])" by simp_all
  let ?cand = "\<lambda>(p, t). candidate ref_torch ''raw_logits'' 2 3 (Some (tensor_data ex_mask)) (tensor_data ex_logits) [Fin 0, Fin 1] (nat p) (nat t)"
  have "?cand (0, 0) \<le> ?cand (1, 0)" using best in0 in1 unfolding BeamSelection.select_convs by blast
  moreover have "allows (Some (tensor_data ex_mask)) (nat 1 * 3 + nat 2)" using best in2 unfolding BeamSelection.select_convs by blast
  ultimately show ?thesis using c0 by simp
qed

theorem clamped_width_always_selects_witness:
  "\<exists>k sel. item_mask_limited_beam_width 4 (Some ex_mask) = Inr k
    \<and> select_next_topk ref_torch ex_logits [Fin 0, Fin 1] k (Some ex_mask) ''raw_logits'' = Inr sel"
proof -
  have "next_args_ok ex_logits 2 3 [Fin 0, Fin 1] 1 ''raw_logits''" "(0::int) < 4" "set (tensor_data ex_logits) \<subseteq> range Fin"
    "set [Fin 0, Fin 1] \<subseteq> range Fin" "wf_tensor ex_mask" "tensor_shape ex_mask = [2, 3]" "True \<in> set (tensor_data ex_mask)"
    by (auto simp: next_args_ok_def ex_logits_def ex_mask_def wf_tensor_def)
  from clamped_width_always_selects [OF ref_torch_contract this] show ?thesis by auto
qed

theorem logprob_dead_beam_raises_witness:
  "select_next_topk ref_torch ex_logits [Fin 0, Fin 1] 1 (Some ex_mask) ''logprob'' =
    Inl (ValueError ''item_mask leaves fewer valid candidates than beam_width'')"
proof (rule logprob_dead_beam_raises [OF ref_torch_contract])
  show "next_args_ok ex_logits 2 3 [Fin 0, Fin 1] 1 ''logprob''" "wf_tensor ex_mask" "tensor_shape ex_mask = [2, 3]"
    by (simp_all add: next_args_ok_def ex_logits_def ex_mask_def wf_tensor_def)
  show "\<forall>t < 3. \<not> tensor_data ex_mask ! (0 * 3 + t)" by code_simp
qed simp

definition ex_batch :: "pyfloat tensor" where
  "ex_batch = \<lparr>tensor_shape = [2, 2, 2], tensor_data = [Fin 5, Fin 1, Fin 4, Fin 2, Fin 6, Fin 3, Fin 0, Fin 9]\<rparr>"

theorem batched_selection_agrees_witness:
  "\<exists>s. select_next_topk ref_torch (request_logits ex_batch 2 2 2 1) [Fin 2, Fin 3] 2 None ''logprob'' = Inr s
    \<and> bs_scores s = [Fin 3, Fin 2]"
proof -
  let ?prev = "[[Fin 0, Fin 1], [Fin 2, Fin 3]]"
  have args: "tensor_shape ex_batch = [2, 2, 2]" "wf_tensor ex_batch" by (simp_all add: ex_batch_def wf_tensor_def)
  have pr: "\<forall>row \<in> set ?prev. length row = 2 \<and> PosInf \<notin> set row" by simp
  have "case select_next_topk_batched ref_torch ex_batch (Some ?prev) None 2 None ''logprob'' True True of
      Inl _ \<Rightarrow> False | Inr sel \<Rightarrow> sel_scores sel = [[Fin 1, Fin 0], [Fin 3, Fin 2]]" by code_simp
  then obtain sel where r: "select_next_topk_batched ref_torch ex_batch (Some ?prev) None 2 None ''logprob'' True True = Inr sel"
    and sc: "sel_scores sel = [[Fin 1, Fin 0], [Fin 3, Fin 2]]" by (auto split: sum.splits)
  have "\<forall>i < 2. \<exists>s. select_next_topk ref_torch (request_logits ex_batch 2 2 2 i) (?prev ! i) 2 (request_mask None 2 2 2 i) ''logprob'' = Inr s
      \<and> sel_scores sel ! i = bs_scores s"
    using batched_selection_agrees [OF ref_torch_contract args _ _ pr, of 2 "''logprob''" None, OF _ _ _ _ _ _ refl]
    unfolding r by auto
  then have "\<exists>s. select_next_topk ref_torch (request_logits ex_batch 2 2 2 1) (?prev ! 1) 2 (request_mask None 2 2 2 1) ''logprob'' = Inr s
      \<and> sel_scores sel ! 1 = bs_scores s" by (elim allE [where x = 1]) simp
  then show ?thesis using sc by (auto simp: request_mask_def)
qed

end
