(* ===== verification/GR_Generation.thy ===== *)
theory GR_Generation
  imports GR_Beam_Search GR_Beam_KV
begin

text \<open>
  What stands between prefill and decode: the request-level logits processors of
  \<open>gr_runtime/logits_processor.py\<close>, the prompt KV of \<open>gr_kv/context_kv.py\<close> with its layer writer
  (\<open>gr_runtime/prefill.py\<close>), the per-request state of \<open>gr_runtime/request.py\<close> and the generation state of
  \<open>gr_runtime/generation.py\<close>. A custom logits processor is a function of the logits and the context.
\<close>

section \<open>Logits processors\<close>

datatype phase = Prefill | Decode

fun phase_of :: "string \<Rightarrow> phase option" where
  "phase_of t = (if t = ''prefill'' then Some Prefill else if t = ''decode'' then Some Decode else None)"

record LogitsProcessorContext =
  lpc_request_id :: string
  lpc_phase :: phase
  lpc_step :: int
  lpc_beam_width :: int
  lpc_beam_path :: "BeamPath option"

text \<open>A custom processor may raise, and may return \<open>None\<close>.\<close>

datatype logits_processor =
    TokenSuppress "int list" pyfloat "phase list"
  | TokenBias "(int \<times> pyfloat) list" "phase list"
  | CustomProcessor "pyfloat tensor \<Rightarrow> LogitsProcessorContext \<Rightarrow> pyfloat tensor option py_result"

text \<open>\<open>tuple(dict.fromkeys(xs))\<close>: every value once, in the order of its first occurrence.\<close>

definition first_occurrences :: "'a list \<Rightarrow> 'a list" where
  "first_occurrences xs = rev (remdups (rev xs))"

definition normalize_token_ids :: "int list \<Rightarrow> int list py_result" where
  "normalize_token_ids ids =
     (if \<exists>t \<in> set ids. t < 0 then Inl (ValueError ''token_ids must be non-negative'') else Inr (first_occurrences ids))"

definition normalize_token_bias :: "(int \<times> pyfloat) list \<Rightarrow> (int \<times> pyfloat) list py_result" where
  "normalize_token_bias items =
     (if \<exists>(t, b) \<in> set items. t < 0 then Inl (ValueError ''token_bias token ids must be non-negative'')
      else Inr (dict_update [] items))"

definition normalize_phases :: "string list \<Rightarrow> phase list py_result" where
  "normalize_phases phases =
     (if \<exists>t \<in> set phases. phase_of t = None then Inl (ValueError ''invalid logits processor phases'')
      else if phases = [] then Inl (ValueError ''logits processor phases must be non-empty'')
      else Inr (map (\<lambda>t. the (phase_of t)) phases))"

definition mk_token_suppress :: "int list \<Rightarrow> pyfloat \<Rightarrow> string list \<Rightarrow> logits_processor py_result" where
  "mk_token_suppress ids fill phases =
     bind_res (normalize_token_ids ids) (\<lambda>ids'. bind_res (normalize_phases phases) (\<lambda>ph. Inr (TokenSuppress ids' fill ph)))"

definition mk_token_bias :: "(int \<times> pyfloat) list \<Rightarrow> string list \<Rightarrow> logits_processor py_result" where
  "mk_token_bias items phases =
     bind_res (normalize_token_bias items) (\<lambda>items'. bind_res (normalize_phases phases) (\<lambda>ph. Inr (TokenBias items' ph)))"

text \<open>\<open>processed[..., token] = f(processed[..., token])\<close> along the last dimension.\<close>

definition vocab_dim :: "'a tensor \<Rightarrow> nat" where
  "vocab_dim t = (if tensor_shape t = [] then 0 else last (tensor_shape t))"

definition update_token :: "int \<Rightarrow> (pyfloat \<Rightarrow> pyfloat) \<Rightarrow> pyfloat tensor \<Rightarrow> pyfloat tensor py_result" where
  "update_token token f t =
     (if token \<ge> int (vocab_dim t) then Inl (IndexError ''index is out of bounds for the last dimension'')
      else Inr (t\<lparr>tensor_data := map (\<lambda>(i, x). if int (i mod vocab_dim t) = token then f x else x)
                                 (enumerate 0 (tensor_data t))\<rparr>))"

fun update_tokens :: "(int \<times> (pyfloat \<Rightarrow> pyfloat)) list \<Rightarrow> pyfloat tensor \<Rightarrow> pyfloat tensor py_result" where
  "update_tokens [] t = Inr t"
| "update_tokens ((token, f) # us) t = bind_res (update_token token f t) (update_tokens us)"

fun process_logits :: "logits_processor \<Rightarrow> pyfloat tensor \<Rightarrow> LogitsProcessorContext \<Rightarrow> pyfloat tensor option py_result" where
  "process_logits (TokenSuppress ids fill phases) logits ctx =
     (if lpc_phase ctx \<notin> set phases \<or> ids = [] then Inr (Some logits)
      else bind_res (update_tokens (map (\<lambda>t. (t, \<lambda>_. fill)) ids) logits) (\<lambda>t. Inr (Some t)))"
| "process_logits (TokenBias bias phases) logits ctx =
     (if lpc_phase ctx \<notin> set phases \<or> bias = [] then Inr (Some logits)
      else bind_res (update_tokens (map (\<lambda>(t, b). (t, \<lambda>x. fadd x b)) bias) logits) (\<lambda>t. Inr (Some t)))"
| "process_logits (CustomProcessor f) logits ctx = f logits ctx"

fun apply_logits_processors ::
  "logits_processor list \<Rightarrow> pyfloat tensor \<Rightarrow> LogitsProcessorContext \<Rightarrow> pyfloat tensor py_result" where
  "apply_logits_processors [] logits ctx = Inr logits"
| "apply_logits_processors (p # ps) logits ctx =
     bind_res (process_logits p logits ctx) (\<lambda>out.
       case out of
         None \<Rightarrow> Inl (ValueError ''logits processor must return logits'')
       | Some t \<Rightarrow> apply_logits_processors ps t ctx)"

fun phase_name :: "phase \<Rightarrow> string" where
  "phase_name Prefill = ''prefill''"
| "phase_name Decode = ''decode''"

text \<open>The debug metadata; a custom processor shows the name of its type.\<close>

fun processor_metadata :: "string \<Rightarrow> logits_processor \<Rightarrow> (string, pyval) dict" where
  "processor_metadata type_name (TokenSuppress ids fill phases) =
     [(''type'', PStr ''token_suppress''), (''token_ids'', PList (map PInt ids)), (''fill_value'', PFloat fill),
      (''phases'', PList (map (\<lambda>p. PStr (phase_name p)) phases))]"
| "processor_metadata type_name (TokenBias bias phases) =
     [(''type'', PStr ''token_bias''), (''token_bias'', PList (map (\<lambda>(t, b). PList [PInt t, PFloat b]) bias)),
      (''phases'', PList (map (\<lambda>p. PStr (phase_name p)) phases))]"
| "processor_metadata type_name (CustomProcessor f) = [(''type'', PStr type_name)]"

section \<open>Prompt KV\<close>

text \<open>Layout \<open>[layers, batch, context_len, kv_heads, head_dim]\<close>; the block of a layer and a batch entry is
  opaque.\<close>

record 'v ContextKV =
  ctx_shape :: shape
  ctx_key :: "int \<Rightarrow> int \<Rightarrow> 'v"
  ctx_value :: "int \<Rightarrow> int \<Rightarrow> 'v"

definition mk_context_kv ::
  "int list \<Rightarrow> int list \<Rightarrow> (int \<Rightarrow> int \<Rightarrow> 'v) \<Rightarrow> (int \<Rightarrow> int \<Rightarrow> 'v) \<Rightarrow> 'v ContextKV py_result" where
  "mk_context_kv key_shape value_shape key val =
     bind_res (normalize_shape key_shape) (\<lambda>ks.
     bind_res (normalize_shape value_shape) (\<lambda>vs.
       if ks \<noteq> vs then Inl (ValueError ''ContextKV key/value shapes differ'')
       else if length ks \<noteq> 5 then Inl (ValueError ''ContextKV expects [layers, batch, context_len, kv_heads, head_dim]'')
       else Inr \<lparr>ctx_shape = ks, ctx_key = key, ctx_value = val\<rparr>))"

definition ctx_num_layers :: "'v ContextKV \<Rightarrow> int" where "ctx_num_layers kv = ctx_shape kv ! 0"
definition ctx_batch_size :: "'v ContextKV \<Rightarrow> int" where "ctx_batch_size kv = ctx_shape kv ! 1"
definition ctx_context_len :: "'v ContextKV \<Rightarrow> int" where "ctx_context_len kv = ctx_shape kv ! 2"
definition ctx_num_kv_heads :: "'v ContextKV \<Rightarrow> int" where "ctx_num_kv_heads kv = ctx_shape kv ! 3"
definition ctx_head_dim :: "'v ContextKV \<Rightarrow> int" where "ctx_head_dim kv = ctx_shape kv ! 4"

definition expected_layer_shape :: "'v ContextKV \<Rightarrow> shape" where
  "expected_layer_shape kv = [ctx_batch_size kv, ctx_context_len kv, ctx_num_kv_heads kv, ctx_head_dim kv]"

definition slice_batch :: "int \<Rightarrow> 'v ContextKV \<Rightarrow> 'v ContextKV py_result" where
  "slice_batch index kv =
     (if index < 0 \<or> index \<ge> ctx_batch_size kv then Inl (IndexError ''batch index out of range'')
      else let shape = (ctx_shape kv)[1 := 1]
           in mk_context_kv shape shape (\<lambda>l b. ctx_key kv l (index + b)) (\<lambda>l b. ctx_value kv l (index + b)))"

record ContextKVWrite =
  cw_layer_idx :: int
  cw_expected_layer_shape :: shape

definition validate_layer :: "'v ContextKV \<Rightarrow> int \<Rightarrow> shape \<Rightarrow> shape \<Rightarrow> ContextKVWrite py_result" where
  "validate_layer kv layer k_shape v_shape =
     (if layer < 0 \<or> layer \<ge> ctx_num_layers kv then Inl (ValueError ''layer_idx outside range'')
      else if k_shape \<noteq> expected_layer_shape kv then Inl (ValueError ''k layer shape mismatch'')
      else if v_shape \<noteq> expected_layer_shape kv then Inl (ValueError ''v layer shape mismatch'')
      else Inr \<lparr>cw_layer_idx = layer, cw_expected_layer_shape = expected_layer_shape kv\<rparr>)"

definition write_layer ::
  "'v ContextKV \<Rightarrow> int \<Rightarrow> shape \<Rightarrow> (int \<Rightarrow> 'v) \<Rightarrow> shape \<Rightarrow> (int \<Rightarrow> 'v) \<Rightarrow> (ContextKVWrite \<times> 'v ContextKV) py_result" where
  "write_layer kv layer k_shape k v_shape v =
     bind_res (validate_layer kv layer k_shape v_shape) (\<lambda>w.
       Inr (w, kv\<lparr>ctx_key := (ctx_key kv)(layer := k), ctx_value := (ctx_value kv)(layer := v)\<rparr>))"

section \<open>Generation state\<close>

record 'v PrefillResult =
  prefill_logits :: "pyfloat tensor"
  prefill_context_kv :: "'v ContextKV"

record 'v GRGenerationState =
  gen_request_id :: string
  gen_prefill :: "'v PrefillResult"
  gen_beam_kv :: "'v BeamKV"
  gen_beam_path :: BeamPath
  gen_fixed_beam_width :: int
  gen_score_mode :: string

text \<open>\<open>blank\<close> is the content torch leaves in a tensor of \<open>new_empty\<close>.\<close>

definition allocate_beam_kv_like_context ::
  "(int \<Rightarrow> int \<Rightarrow> int \<Rightarrow> int \<Rightarrow> 'v) \<Rightarrow> 'v ContextKV \<Rightarrow> int \<Rightarrow> int \<Rightarrow> 'v BeamKV py_result" where
  "allocate_beam_kv_like_context blank kv steps width =
     (if steps \<le> 0 then Inl (ValueError ''max_decode_steps must be positive'')
      else if width \<le> 0 then Inl (ValueError ''max_beam_width must be positive'')
      else let shape = [ctx_num_layers kv, ctx_batch_size kv, steps, width, ctx_num_kv_heads kv, ctx_head_dim kv]
           in mk_beam_kv shape shape blank blank)"

definition from_prefill ::
  "(int \<Rightarrow> int \<Rightarrow> int \<Rightarrow> int \<Rightarrow> 'v) \<Rightarrow> string \<Rightarrow> 'v PrefillResult \<Rightarrow> int \<Rightarrow> int \<Rightarrow> int option \<Rightarrow> string \<Rightarrow> 'v BeamKV option
   \<Rightarrow> 'v GRGenerationState py_result" where
  "from_prefill blank rid prefill steps width fixed mode kv_opt =
     (let fixed_width = (case fixed of None \<Rightarrow> width | Some w \<Rightarrow> w)
      in if fixed_width \<le> 0 \<or> fixed_width > width then Inl (ValueError ''fixed_beam_width must be in (0, max_beam_width]'')
         else if mode \<notin> {''raw_logits'', ''logprob''} then Inl (ValueError ''beam_score_mode must be raw_logits or logprob'')
         else
           bind_res (case kv_opt of
               None \<Rightarrow> allocate_beam_kv_like_context blank (prefill_context_kv prefill) steps width
             | Some kv \<Rightarrow>
                 if kv_max_decode_steps kv < steps \<or> kv_max_beam_width kv < width
                 then Inl (ValueError ''provided beam_kv is smaller than requested decode capacity'') else Inr kv) (\<lambda>kv.
             Inr \<lparr>gen_request_id = rid, gen_prefill = prefill, gen_beam_kv = kv,
                  gen_beam_path = \<lparr>max_decode_steps = steps + 1, path_beam_width = width, entries = []\<rparr>,
                  gen_fixed_beam_width = fixed_width, gen_score_mode = mode\<rparr>))"

text \<open>\<open>GRRequestState.validate\<close>.\<close>

definition validate_request_state :: "'v ContextKV \<Rightarrow> 'v BeamKV \<Rightarrow> BeamPath \<Rightarrow> unit py_result" where
  "validate_request_state ctx kv path =
     (if ctx_num_layers ctx \<noteq> kv_num_layers kv then Inl (ValueError ''ContextKV and BeamKV must have matching layer count'')
      else if ctx_batch_size ctx \<noteq> kv_batch_size kv then Inl (ValueError ''ContextKV and BeamKV must have matching batch size'')
      else if ctx_num_kv_heads ctx \<noteq> kv_num_kv_heads kv then Inl (ValueError ''ContextKV and BeamKV must have matching KV heads'')
      else if ctx_head_dim ctx \<noteq> kv_head_dim kv then Inl (ValueError ''ContextKV and BeamKV must have matching head_dim'')
      else if max_decode_steps path \<notin> {kv_max_decode_steps kv, kv_max_decode_steps kv + 1}
      then Inl (ValueError ''BeamPath max_decode_steps must match BeamKV capacity or include one extra initial-beam entry'')
      else if path_beam_width path \<noteq> kv_max_beam_width kv then Inl (ValueError ''BeamPath and BeamKV must have matching max_beam_width'')
      else Inr ())"

definition generation_request_state :: "'v GRGenerationState \<Rightarrow> unit py_result" where
  "generation_request_state g =
     validate_request_state (prefill_context_kv (gen_prefill g)) (gen_beam_kv g) (gen_beam_path g)"

text \<open>The methods that select append to the beam path last, so an exception leaves the state as it was.\<close>

definition append_selection :: "BeamSelection \<Rightarrow> 'v GRGenerationState \<Rightarrow> (BeamSelection \<times> 'v GRGenerationState) py_result" where
  "append_selection sel g =
     bind_res (path_append (gen_beam_path g) (bs_parent_beams sel) (bs_token_ids sel) (bs_scores sel)) (\<lambda>path.
       Inr (sel, g\<lparr>gen_beam_path := path\<rparr>))"

definition initialize_beams_with_width ::
  "torch_ops \<Rightarrow> int \<Rightarrow> bool tensor option \<Rightarrow> pyfloat tensor option \<Rightarrow> 'v GRGenerationState
   \<Rightarrow> (BeamSelection \<times> 'v GRGenerationState) py_result" where
  "initialize_beams_with_width T width item_mask logits g =
     (if steps_done (gen_beam_path g) \<noteq> 0 then Inl (ValueError ''initial beams have already been selected'')
      else if width \<le> 0 \<or> width > kv_max_beam_width (gen_beam_kv g)
      then Inl (ValueError ''beam_width must be in (0, max_beam_width]'')
      else
        bind_res (select_initial_topk T (case logits of None \<Rightarrow> prefill_logits (gen_prefill g) | Some t \<Rightarrow> t)
            width item_mask (gen_score_mode g)) (\<lambda>sel. append_selection sel g))"

definition initialize_beams ::
  "torch_ops \<Rightarrow> bool tensor option \<Rightarrow> pyfloat tensor option \<Rightarrow> 'v GRGenerationState \<Rightarrow> (BeamSelection \<times> 'v GRGenerationState) py_result" where
  "initialize_beams T item_mask logits g =
     (if steps_done (gen_beam_path g) \<noteq> 0 then Inl (ValueError ''initial beams have already been selected'')
      else initialize_beams_with_width T (gen_fixed_beam_width g) item_mask logits g)"

definition initialize_beams_from_selection ::
  "BeamSelection \<Rightarrow> 'v GRGenerationState \<Rightarrow> (BeamSelection \<times> 'v GRGenerationState) py_result" where
  "initialize_beams_from_selection sel g =
     (if steps_done (gen_beam_path g) \<noteq> 0 then Inl (ValueError ''initial beams have already been selected'')
      else if selection_width sel = 0 \<or> int (selection_width sel) > kv_max_beam_width (gen_beam_kv g)
      then Inl (ValueError ''selection width must be in (0, max_beam_width]'')
      else append_selection sel g)"

definition update_beams_from_logits_with_width ::
  "torch_ops \<Rightarrow> pyfloat tensor \<Rightarrow> int \<Rightarrow> bool tensor option \<Rightarrow> 'v GRGenerationState \<Rightarrow> (BeamSelection \<times> 'v GRGenerationState) py_result" where
  "update_beams_from_logits_with_width T logits width item_mask g =
     (if steps_done (gen_beam_path g) = 0 then Inl (ValueError ''initialize_beams must be called before update'')
      else if width \<le> 0 \<or> width > kv_max_beam_width (gen_beam_kv g)
      then Inl (ValueError ''beam_width must be in (0, max_beam_width]'')
      else
        bind_res (select_next_topk T logits (scores (last (entries (gen_beam_path g)))) width item_mask (gen_score_mode g))
          (\<lambda>sel. append_selection sel g))"

definition update_beams_from_logits ::
  "torch_ops \<Rightarrow> pyfloat tensor \<Rightarrow> bool tensor option \<Rightarrow> 'v GRGenerationState \<Rightarrow> (BeamSelection \<times> 'v GRGenerationState) py_result" where
  "update_beams_from_logits T logits item_mask g =
     (if steps_done (gen_beam_path g) = 0 then Inl (ValueError ''initialize_beams must be called before update'')
      else update_beams_from_logits_with_width T logits (gen_fixed_beam_width g) item_mask g)"

end
