(* ===== verification/GR_Decode_Loop.thy ===== *)
theory GR_Decode_Loop
  imports GR_Generation GR_Beam_Policy GR_Item_Constraints
begin

text \<open>
  The decode loop of one request, \<open>gr_runtime/decode_loop.py\<close>: item masks, beam-width policy, selection,
  beam path and stopping rule put together. The model's forward step is a parameter: it gets the
  tokens of the live beams, the generation state, the step and the width, and returns logits or
  raises; the only thing it changes is the BeamKV. The theorems: a run under a catalog only ever
  produces catalog items, and it never dead-ends.
\<close>

section \<open>The loop\<close>

record DecodeLoopStep =
  dl_step :: int
  dl_logits :: "pyfloat tensor"
  dl_token_ids :: "int list"
  dl_parent_beams :: "int list"
  dl_scores :: "pyfloat list"

type_synonym 'v forward_step =
  "int list \<Rightarrow> 'v GRGenerationState \<Rightarrow> int \<Rightarrow> int \<Rightarrow> pyfloat tensor py_result \<times> 'v BeamKV"

record 'v FixedBeamDecodeLoop =
  loop_forward :: "'v forward_step"
  loop_item_masks :: "(int, bool tensor) dict"
  loop_item_mask_provider :: "TrieItemMaskProvider option"
  loop_beam_width_policy :: "beam_width_policy option"
  loop_stop_token_ids :: "int list"
  loop_logits_processors :: "logits_processor list"

text \<open>What a run changes: the generation state and the policy, which observes scores.\<close>

record 'v loop_state =
  ls_generation :: "'v GRGenerationState"
  ls_policy :: beam_width_policy

type_synonym ('v, 'a) loop_result = "'a py_result \<times> 'v loop_state"

definition selection_all_stop :: "int list \<Rightarrow> int list \<Rightarrow> bool" where
  "selection_all_stop tokens stops \<longleftrightarrow> stops \<noteq> [] \<and> tokens \<noteq> [] \<and> list_all (\<lambda>t. t \<in> set stops) tokens"

text \<open>\<open>all(is_complete(token_trace(beam)) for beam in ...)\<close> stops at the first beam that is not complete.\<close>

fun all_complete :: "TrieItemMaskProvider \<Rightarrow> BeamPath \<Rightarrow> int list \<Rightarrow> bool py_result" where
  "all_complete p path [] = Inr True"
| "all_complete p path (b # bs) =
     bind_res (token_trace path b None) (\<lambda>ts. if is_complete p ts then all_complete p path bs else Inr False)"

definition selection_all_item_complete :: "BeamPath \<Rightarrow> TrieItemMaskProvider option \<Rightarrow> bool py_result" where
  "selection_all_item_complete path provider =
     (case provider of
        None \<Rightarrow> Inr False
      | Some p \<Rightarrow>
          if steps_done path = 0 then Inr False
          else let width = length (token_ids (last (entries path)))
               in if width > 0 then all_complete p path (py_range (int width)) else Inr False)"

definition selection_stop_reason ::
  "BeamPath \<Rightarrow> int list \<Rightarrow> int list \<Rightarrow> TrieItemMaskProvider option \<Rightarrow> string option py_result" where
  "selection_stop_reason path tokens stops provider =
     (if selection_all_stop tokens stops then Inr (Some ''stop_token'')
      else bind_res (selection_all_item_complete path provider) (\<lambda>complete.
             Inr (if complete then Some ''item_complete'' else None)))"

text \<open>The provider's masks as tensors.\<close>

definition initial_mask_tensor :: "TrieItemMaskProvider \<Rightarrow> bool tensor" where
  "initial_mask_tensor p = \<lparr>tensor_shape = [nat (vocab_size p)], tensor_data = initial_mask p\<rparr>"

definition step_mask_tensor :: "TrieItemMaskProvider \<Rightarrow> BeamPath \<Rightarrow> pyfloat tensor \<Rightarrow> bool tensor py_result" where
  "step_mask_tensor p path logits =
     bind_res (step_mask p path (map int (tensor_shape logits))) (\<lambda>rows.
       Inr \<lparr>tensor_shape = [length rows, nat (vocab_size p)], tensor_data = concat rows\<rparr>)"

text \<open>One turn of the loop: forward step, processors, mask, width, selection.\<close>

definition processor_context :: "'v GRGenerationState \<Rightarrow> phase \<Rightarrow> int \<Rightarrow> int \<Rightarrow> LogitsProcessorContext" where
  "processor_context g ph step width =
     \<lparr>lpc_request_id = gen_request_id g, lpc_phase = ph, lpc_step = step, lpc_beam_width = width,
      lpc_beam_path = Some (gen_beam_path g)\<rparr>"

definition decode_item_mask ::
  "'v FixedBeamDecodeLoop \<Rightarrow> int \<Rightarrow> BeamPath \<Rightarrow> pyfloat tensor \<Rightarrow> bool tensor option py_result" where
  "decode_item_mask loop step path logits =
     (case (map_of (loop_item_masks loop) step, loop_item_mask_provider loop) of
        (None, Some p) \<Rightarrow> bind_res (step_mask_tensor p path logits) (\<lambda>m. Inr (Some m))
      | (m, _) \<Rightarrow> Inr m)"

text \<open>\<open>res\<close> without the state: the rest of a turn after the forward step.\<close>

definition select_step ::
  "torch_ops \<Rightarrow> 'v FixedBeamDecodeLoop \<Rightarrow> int \<Rightarrow> int \<Rightarrow> pyfloat tensor \<Rightarrow> 'v loop_state
   \<Rightarrow> (DecodeLoopStep \<times> 'v GRGenerationState) py_result" where
  "select_step T loop step width raw st =
     (let g = ls_generation st
      in bind_res (apply_logits_processors (loop_logits_processors loop) raw (processor_context g Decode step width)) (\<lambda>logits.
         bind_res (decode_item_mask loop step (gen_beam_path g) logits) (\<lambda>item_mask.
         bind_res (width_for_step (ls_policy st) (step + 1)) (\<lambda>policy_width.
         bind_res (item_mask_limited_beam_width policy_width item_mask) (\<lambda>next_width.
         bind_res (update_beams_from_logits_with_width T logits next_width item_mask g) (\<lambda>(sel, g').
           Inr (\<lparr>dl_step = step, dl_logits = logits, dl_token_ids = bs_token_ids sel,
                 dl_parent_beams = bs_parent_beams sel, dl_scores = bs_scores sel\<rparr>, g')))))))"

definition lift_st :: "'s \<Rightarrow> 'a py_result \<Rightarrow> 'a py_result \<times> 's" where
  "lift_st st r = (r, st)"

definition observe_st :: "int \<Rightarrow> pyfloat list \<Rightarrow> 'v loop_state \<Rightarrow> ('v, unit) loop_result" where
  "observe_st step scs st =
     (case observe_policy_scores (ls_policy st) step scs of
        Inl e \<Rightarrow> (Inl e, st)
      | Inr pol \<Rightarrow> (Inr (), st\<lparr>ls_policy := pol\<rparr>))"

definition stop_st :: "'v FixedBeamDecodeLoop \<Rightarrow> int list \<Rightarrow> 'v loop_state \<Rightarrow> ('v, string option) loop_result" where
  "stop_st loop tokens st =
     (selection_stop_reason (gen_beam_path (ls_generation st)) tokens (loop_stop_token_ids loop) (loop_item_mask_provider loop), st)"

definition decode_turn ::
  "torch_ops \<Rightarrow> 'v FixedBeamDecodeLoop \<Rightarrow> int \<Rightarrow> int list \<Rightarrow> 'v loop_state \<Rightarrow> ('v, DecodeLoopStep \<times> string option) loop_result" where
  "decode_turn T loop step tokens st =
     (let width = int (length tokens); (out, kv) = loop_forward loop tokens (ls_generation st) step width;
          st1 = st\<lparr>ls_generation := (ls_generation st)\<lparr>gen_beam_kv := kv\<rparr>\<rparr>
      in bind_st (lift_st st1 out) (\<lambda>raw st1.
         bind_st (lift_st st1 (select_step T loop step width raw st1)) (\<lambda>(rec, g) st1.
         bind_st (observe_st (step + 1) (dl_scores rec) (st1\<lparr>ls_generation := g\<rparr>)) (\<lambda>_ st2.
         bind_st (stop_st loop (dl_token_ids rec) st2) (\<lambda>stop st2. (Inr (rec, stop), st2))))))"

text \<open>\<open>for step in range(max_steps)\<close>: the turns left, the step, the tokens of the live beams and the
  stop reason so far.\<close>

fun decode_steps ::
  "torch_ops \<Rightarrow> 'v FixedBeamDecodeLoop \<Rightarrow> nat \<Rightarrow> int \<Rightarrow> int list \<Rightarrow> string option \<Rightarrow> 'v loop_state
   \<Rightarrow> ('v, DecodeLoopStep list \<times> string option) loop_result" where
  "decode_steps T loop 0 step tokens stop st = (Inr ([], stop), st)"
| "decode_steps T loop (Suc n) step tokens stop st =
     (if stop \<noteq> None then (Inr ([], stop), st)
      else bind_st (decode_turn T loop step tokens st) (\<lambda>(rec, stop') st'.
           bind_st (decode_steps T loop n (step + 1) (dl_token_ids rec) stop' st') (\<lambda>(recs, stop'') st''.
             (Inr (rec # recs, stop''), st''))))"

record 'v DecodeLoopResult =
  res_generation :: "'v GRGenerationState"
  res_steps :: "DecodeLoopStep list"
  res_stop_reason :: string

definition final_token_ids :: "'v DecodeLoopResult \<Rightarrow> int list" where
  "final_token_ids r =
     (if res_steps r \<noteq> [] then dl_token_ids (last (res_steps r))
      else let es = entries (gen_beam_path (res_generation r)) in if es = [] then [] else token_ids (last es))"

text \<open>The first selection, or the last entry of a path that has one already.\<close>

definition first_selection ::
  "torch_ops \<Rightarrow> 'v FixedBeamDecodeLoop \<Rightarrow> bool tensor option \<Rightarrow> 'v loop_state
   \<Rightarrow> ((int list \<times> pyfloat list) \<times> 'v GRGenerationState) py_result" where
  "first_selection T loop given_mask st =
     (let g = ls_generation st;
          mask0 = (case (given_mask, loop_item_mask_provider loop) of
                     (None, Some p) \<Rightarrow> Some (initial_mask_tensor p)
                   | (m, _) \<Rightarrow> m)
      in bind_res (width_for_step (ls_policy st) 0) (\<lambda>width.
         bind_res (apply_logits_processors (loop_logits_processors loop) (prefill_logits (gen_prefill g))
             (processor_context g Prefill 0 width)) (\<lambda>logits.
           if steps_done (gen_beam_path g) = 0
           then bind_res (item_mask_limited_beam_width width mask0) (\<lambda>width'.
                bind_res (initialize_beams_with_width T width' mask0 (Some logits) g) (\<lambda>(sel, g').
                  Inr ((bs_token_ids sel, bs_scores sel), g')))
           else let e = last (entries (gen_beam_path g)) in Inr ((token_ids e, scores e), g))))"

definition run_state :: "'v FixedBeamDecodeLoop \<Rightarrow> 'v GRGenerationState \<Rightarrow> 'v loop_state" where
  "run_state loop g =
     \<lparr>ls_generation = g,
      ls_policy = (case loop_beam_width_policy loop of None \<Rightarrow> FixedBeamPolicy (gen_fixed_beam_width g) | Some p \<Rightarrow> p)\<rparr>"

definition run_decode_loop ::
  "torch_ops \<Rightarrow> 'v FixedBeamDecodeLoop \<Rightarrow> 'v GRGenerationState \<Rightarrow> int \<Rightarrow> bool tensor option \<Rightarrow> ('v, 'v DecodeLoopResult) loop_result" where
  "run_decode_loop T loop g max_steps given_mask =
     (let st = run_state loop g
      in if max_steps \<le> 0 then (Inl (ValueError ''max_steps must be positive''), st)
         else if max_steps > kv_max_decode_steps (gen_beam_kv g) then (Inl (ValueError ''max_steps exceeds BeamKV capacity''), st)
         else
           bind_st (lift_st st (case loop_beam_width_policy loop of None \<Rightarrow> mk_fixed_policy (gen_fixed_beam_width g) | Some p \<Rightarrow> Inr p)) (\<lambda>_ st.
           bind_st (lift_st st (first_selection T loop given_mask st)) (\<lambda>((tokens, scs), g1) st.
           bind_st (observe_st 0 scs (st\<lparr>ls_generation := g1\<rparr>)) (\<lambda>_ st.
           bind_st (stop_st loop tokens st) (\<lambda>stop st.
           bind_st (decode_steps T loop (nat max_steps) 0 tokens stop st) (\<lambda>(recs, stop') st.
             (Inr \<lparr>res_generation = ls_generation st, res_steps = recs,
                   res_stop_reason = (case stop' of None \<Rightarrow> ''max_decode_steps'' | Some r \<Rightarrow> r)\<rparr>, st)))))))"

section \<open>A confined beam can go on\<close>

text \<open>What the catalog and the vocabulary have to satisfy: some item, no path through the end-of-sequence
  token, every token of a path in the vocabulary.\<close>

definition catalog_ok :: "TrieItemMaskProvider \<Rightarrow> bool" where
  "catalog_ok p \<longleftrightarrow> live_trie (trie p) \<and> trie_paths (trie p) \<noteq> {} \<and> [] \<notin> trie_paths (trie p) \<and> eos_free p (trie_paths (trie p))
     \<and> 0 < vocab_size p \<and> (\<forall>path \<in> trie_paths (trie p). \<forall>t \<in> set path. 0 \<le> t \<and> t < vocab_size p)
     \<and> (\<forall>e. eos_token_id p = Some e \<longrightarrow> 0 \<le> e \<and> e < vocab_size p)"

lemma catalog_provider_ok:
  assumes "catalog_provider items vocab eos allow = Inr p" and "items \<noteq> []" and "eos_free p (item_token_ids ` set items)"
    and "\<forall>it \<in> set items. \<forall>t \<in> set (item_token_ids it). 0 \<le> t \<and> t < vocab"
  shows "catalog_ok p"
proof -
  note cat = catalog_provider_fields [OF assms(1)]
  have "\<forall>e. eos_token_id p = Some e \<longrightarrow> 0 \<le> e \<and> e < vocab_size p"
    using assms(1) by (auto simp: catalog_provider_def mk_mask_provider_def split: if_splits)
  then show ?thesis using cat assms(2-4) by (simp add: catalog_ok_def)
qed

text \<open>The tokens a beam may take next, inside the vocabulary.\<close>

definition can_extend :: "TrieItemMaskProvider \<Rightarrow> int list \<Rightarrow> bool" where
  "can_extend p ts \<longleftrightarrow> (\<exists>t. 0 \<le> t \<and> t < vocab_size p \<and> t \<in> allowed_next p ts)"

lemma incomplete_can_extend:
  assumes ok: "catalog_ok p" and conf: "confined (allowed_next p) ts" and "\<not> is_complete p ts"
  shows "can_extend p ts"
proof -
  have live: "live_trie (trie p)" and free: "eos_free p (trie_paths (trie p))" using ok by (simp_all add: catalog_ok_def)
  note sem = confined_semantic_prefix [OF live free conf]
  have e: "\<not> has_eos p ts" using sem assms(3) by blast
  have "\<exists>q. ts @ q \<in> trie_paths (trie p)"
  proof (cases "ts = []")
    case True
    then show ?thesis using ok by (auto simp: catalog_ok_def)
  next
    case False
    then show ?thesis using item_trie.confined_extends [OF live] sem e by simp
  qed
  then obtain q where q: "ts @ q \<in> trie_paths (trie p)" by blast
  have "ts \<notin> trie_paths (trie p)" using assms(3) e by (simp add: is_complete_def trie_paths_def)
  then obtain t q' where t: "q = t # q'" using q by (cases q) auto
  then have "t \<in> trie_allowed_next (trie p) ts" using q unfolding allowed_next_live [OF live] by blast
  then have "t \<in> allowed_next p ts" using e by (simp add: allowed_next_def Let_def split: option.splits)
  moreover have "0 \<le> t \<and> t < vocab_size p" using ok q t by (fastforce simp: catalog_ok_def)
  ultimately show ?thesis by (auto simp: can_extend_def)
qed

lemma eos_can_extend:
  assumes ok: "catalog_ok p" and conf: "confined (allowed_next p) ts" and "eos_token_id p = Some e" and "allow_eos_for_terminal p"
  shows "can_extend p ts"
proof (cases "is_complete p ts")
  case True
  have "e \<in> allowed_next p ts"
    using True assms(3,4) by (cases "has_eos p ts") (simp_all add: allowed_next_def provider_stop_token_ids_def is_complete_def Let_def)
  then show ?thesis using ok assms(3) by (auto simp: can_extend_def catalog_ok_def)
qed (rule incomplete_can_extend [OF ok conf])

lemma length_mask_row [simp]: "length (mask_row p ts) = nat (vocab_size p)"
  by (simp add: mask_row_def)

lemma can_extend_mask: "can_extend p ts \<longleftrightarrow> (\<exists>t < nat (vocab_size p). mask_row p ts ! t)"
proof
  assume "can_extend p ts"
  then obtain t where "0 \<le> t" "t < vocab_size p" "t \<in> allowed_next p ts" by (auto simp: can_extend_def)
  then show "\<exists>t < nat (vocab_size p). mask_row p ts ! t" using mask_row_nth [of t p ts] by (intro exI [of _ "nat t"]) simp
next
  assume "\<exists>t < nat (vocab_size p). mask_row p ts ! t"
  then obtain t where "t < nat (vocab_size p)" "mask_row p ts ! t" by blast
  then show "can_extend p ts" using mask_row_nth [of "int t" p ts] unfolding can_extend_def by (intro exI [of _ "int t"]) simp
qed

section \<open>The stopping rule\<close>

lemma all_complete_hyps:
  assumes "wf_path path" and "entries path \<noteq> []" and "\<forall>b \<in> set bs. 0 \<le> b \<and> b < active_beam_width path"
  shows "all_complete p path bs = Inr (\<forall>b \<in> set bs. is_complete p (hyps (entries path) ! nat b))"
  using assms(3) by (induction bs) (simp_all add: token_trace_hyps [OF assms(1,2)])

lemma all_py_range: "(\<forall>b \<in> set (py_range (int n)). P (nat b)) \<longleftrightarrow> (\<forall>i < n. P i)"
proof
  assume all: "\<forall>b \<in> set (py_range (int n)). P (nat b)"
  show "\<forall>i < n. P i"
  proof (intro allI impI)
    fix i assume "i < n"
    then have "int i \<in> set (py_range (int n))" by simp
    then show "P i" using all by fastforce
  qed
qed auto

lemma hyps_width:
  assumes "wf_path path" and "entries path \<noteq> []"
  shows "length (hyps (entries path)) = length (token_ids (last (entries path)))"
    and "active_beam_width path = int (length (token_ids (last (entries path))))"
    and "length (scores (last (entries path))) = length (token_ids (last (entries path)))"
    and "token_ids (last (entries path)) \<noteq> []"
proof -
  obtain es e where e: "entries path = es @ [e]" using assms(2) by (meson rev_exhaust)
  then have "wf_entries (path_beam_width path) 1 (es @ [e])" using assms(1) by (simp add: wf_path_def)
  then have w: "entry_width e = int (length (token_ids e))" "length (scores e) = length (token_ids e)" "token_ids e \<noteq> []"
    by (auto simp: wf_entries_snoc entry_width_def)
  then show "length (hyps (entries path)) = length (token_ids (last (entries path)))"
    and "active_beam_width path = int (length (token_ids (last (entries path))))"
    and "length (scores (last (entries path))) = length (token_ids (last (entries path)))" "token_ids (last (entries path)) \<noteq> []"
    using e length_hyps [of "path_beam_width path" "entries path"] assms(1)
    by (simp_all add: wf_path_def active_beam_width_def)
qed

lemma stop_reason_cases:
  assumes "wf_path path" and "entries path \<noteq> []"
  obtains stop where "selection_stop_reason path tokens stops (Some p) = Inr stop"
    and "stop = None \<Longrightarrow> \<exists>h \<in> set (hyps (entries path)). \<not> is_complete p h"
    and "stop = Some ''item_complete'' \<Longrightarrow> \<forall>h \<in> set (hyps (entries path)). is_complete p h"
    and "stop = Some ''stop_token'' \<Longrightarrow> \<forall>t \<in> set tokens. t \<in> set stops"
    and "stop \<in> {None, Some ''stop_token'', Some ''item_complete''}"
proof -
  note w = hyps_width [OF assms]
  let ?width = "length (token_ids (last (entries path)))"
  have "all_complete p path (py_range (int ?width)) = Inr (\<forall>b \<in> set (py_range (int ?width)). is_complete p (hyps (entries path) ! nat b))"
    using all_complete_hyps [OF assms] w(2) by simp
  also have "(\<forall>b \<in> set (py_range (int ?width)). is_complete p (hyps (entries path) ! nat b))
      \<longleftrightarrow> (\<forall>h \<in> set (hyps (entries path)). is_complete p h)"
    unfolding all_py_range [of ?width "\<lambda>i. is_complete p (hyps (entries path) ! i)"] by (simp add: all_set_conv_all_nth w(1))
  finally have c: "selection_all_item_complete path (Some p) = Inr (\<forall>h \<in> set (hyps (entries path)). is_complete p h)"
    using assms(2) w(4) by (simp add: selection_all_item_complete_def steps_done_def Let_def)
  show thesis
    using c by (intro that [of "if selection_all_stop tokens stops then Some ''stop_token''
        else if \<forall>h \<in> set (hyps (entries path)). is_complete p h then Some ''item_complete'' else None"])
      (auto simp: selection_stop_reason_def selection_all_stop_def list_all_iff split: if_splits)
qed

lemma stop_complete:
  assumes "wf_path path" and "entries path \<noteq> []" and "selection_stop_reason path tokens stops (Some p) = Inr (Some ''item_complete'')"
  shows "\<forall>h \<in> set (hyps (entries path)). is_complete p h"
proof -
  obtain stop where "selection_stop_reason path tokens stops (Some p) = Inr stop"
    and "stop = Some ''item_complete'' \<Longrightarrow> \<forall>h \<in> set (hyps (entries path)). is_complete p h"
    by (rule stop_reason_cases [OF assms(1,2), of tokens stops p]) (rule that)
  then show ?thesis using assms(3) by simp
qed

section \<open>A turn under a catalog\<close>

text \<open>A model that answers: logits of the right shape, finite, for every step the BeamKV has room for,
  writing the BeamKV in place.\<close>

definition answers :: "nat \<Rightarrow> 'v forward_step \<Rightarrow> bool" where
  "answers v fwd \<longleftrightarrow> (\<forall>tokens g step. tokens \<noteq> [] \<longrightarrow> 0 \<le> step \<longrightarrow> step < kv_max_decode_steps (gen_beam_kv g) \<longrightarrow>
     (\<exists>logits kv. fwd tokens g step (int (length tokens)) = (Inr logits, kv) \<and> kv_shape kv = kv_shape (gen_beam_kv g)
        \<and> tensor_shape logits = [1, length tokens, v] \<and> wf_tensor logits \<and> set (tensor_data logits) \<subseteq> range Fin))"

text \<open>A loop constrained by the provider alone.\<close>

definition constrained :: "TrieItemMaskProvider \<Rightarrow> 'v FixedBeamDecodeLoop \<Rightarrow> bool" where
  "constrained p loop \<longleftrightarrow> loop_item_masks loop = [] \<and> loop_item_mask_provider loop = Some p \<and> loop_logits_processors loop = []
     \<and> answers (nat (vocab_size p)) (loop_forward loop)"

text \<open>The score modes in which no beam's candidates can turn into NaN.\<close>

definition mode_ok :: "TrieItemMaskProvider \<Rightarrow> string \<Rightarrow> bool" where
  "mode_ok p mode \<longleftrightarrow> mode = ''raw_logits''
     \<or> mode = ''logprob'' \<and> allow_eos_for_terminal p \<and> eos_token_id p \<noteq> None"

definition loop_inv :: "TrieItemMaskProvider \<Rightarrow> int \<Rightarrow> int \<Rightarrow> 'v loop_state \<Rightarrow> bool" where
  "loop_inv p b n st \<longleftrightarrow>
     (let g = ls_generation st; path = gen_beam_path g
      in masked_run p path \<and> path_beam_width path = b \<and> b \<le> kv_max_beam_width (gen_beam_kv g)
         \<and> max_decode_steps path = n + 1 \<and> n \<le> kv_max_decode_steps (gen_beam_kv g)
         \<and> bounded_policy b (ls_policy st) \<and> set (scores (last (entries path))) \<subseteq> range Fin \<and> mode_ok p (gen_score_mode g))"

lemma observe_bounded:
  assumes "bounded_policy b pol" and "0 \<le> step" and "scs \<noteq> []"
  obtains pol' where "observe_policy_scores pol step scs = Inr pol'" and "bounded_policy b pol'"
proof (cases pol)
  case (ScoreMarginBeamPolicy q)
  obtain c where "margin_width q step = Inr c" using bounded_width_for_step [OF assms(1,2)] ScoreMarginBeamPolicy by auto
  then obtain q' w where "margin_observe_scores q step scs = Inr (q', w)"
    using assms(2,3) by (cases "monotonic_shrink q") (auto simp: margin_observe_scores_def Let_def)
  then show thesis using that margin_observe_bounded [of b q step scs q' w] assms(1) ScoreMarginBeamPolicy by simp
qed (use assms that in auto)

lemma decode_mask:
  assumes "constrained p loop" and "wf_path path" and "entries path \<noteq> []" and "length ts = length (token_ids (last (entries path)))"
    and "tensor_shape logits = [1, length ts, v]"
  shows "step_mask p path [1, active_beam_width path, vocab_size p] = Inr (map (mask_row p) (hyps (entries path)))"
    and "decode_item_mask loop step path logits =
       Inr (Some \<lparr>tensor_shape = [length ts, nat (vocab_size p)], tensor_data = concat (map (mask_row p) (hyps (entries path)))\<rparr>)"
  using step_mask_rows [OF assms(2,3), of p] hyps_width [OF assms(2,3)] assms(1,4,5)
  by (simp_all add: decode_item_mask_def step_mask_tensor_def constrained_def)

text \<open>When some beam can still be extended, a turn selects, appends and observes.\<close>

lemma select_step_runs:
  assumes T: "torch_contract T" and c: "constrained p loop" and ok: "catalog_ok p" and inv: "loop_inv p b n st"
    and room: "steps_done (gen_beam_path (ls_generation st)) < n + 1" and step: "0 \<le> step"
    and go: "\<exists>h \<in> set (hyps (entries (gen_beam_path (ls_generation st)))). \<not> is_complete p h"
    and toks: "tokens = token_ids (last (entries (gen_beam_path (ls_generation st))))"
    and logits: "tensor_shape logits = [1, length tokens, nat (vocab_size p)]" "wf_tensor logits" "set (tensor_data logits) \<subseteq> range Fin"
  obtains rec g where "select_step T loop step (int (length tokens)) logits st = Inr (rec, g)"
    and "masked_run p (gen_beam_path g)" and "set (dl_scores rec) \<subseteq> range Fin" and "dl_scores rec \<noteq> []"
    and "\<exists>path. g = (ls_generation st)\<lparr>gen_beam_path := path\<rparr> \<and> path_append (gen_beam_path (ls_generation st))
           (dl_parent_beams rec) (dl_token_ids rec) (dl_scores rec) = Inr path"
proof -
  let ?g = "ls_generation st"
  let ?path = "gen_beam_path ?g"
  let ?w = "length tokens" and ?v = "nat (vocab_size p)" and ?H = "hyps (entries ?path)" and ?mode = "gen_score_mode ?g"
  let ?prev = "scores (last (entries ?path))"
  let ?m = "\<lparr>tensor_shape = [?w, ?v], tensor_data = concat (map (mask_row p) ?H)\<rparr>"
  have run: "masked_run p ?path" and pol: "bounded_policy b (ls_policy st)" and prev: "set ?prev \<subseteq> range Fin"
    and mode: "mode_ok p ?mode" and width: "path_beam_width ?path = b" "b \<le> kv_max_beam_width (gen_beam_kv ?g)"
    and cap: "max_decode_steps ?path = n + 1"
    using inv by (simp_all add: loop_inv_def Let_def)
  note conf = masked_run_confined [OF run]
  have wf: "wf_path ?path" "entries ?path \<noteq> []" and confd: "\<forall>h \<in> set ?H. confined (allowed_next p) h" using conf by blast+
  note hw = hyps_width [OF wf, folded toks]
  note mask = decode_mask [OF c wf, of tokens logits ?v, OF arg_cong [OF toks, of length] logits(1)]
  have rows: "\<forall>row \<in> set (map (mask_row p) ?H). length row = ?v" by simp
  have at: "tensor_data ?m ! (i * ?v + t) = mask_row p (?H ! i) ! t" if "i < ?w" "t < ?v" for i t
    using concat_nth_flat [OF rows] that hw(1) by simp
  have dlen: "length (tensor_data ?m) = ?w * ?v" using length_concat_rows [OF rows] hw(1) by simp
  have ext: "can_extend p h" if "h \<in> set ?H" "\<not> is_complete p h \<or> ?mode = ''logprob''" for h
    using that confd mode incomplete_can_extend [OF ok] eos_can_extend [OF ok] by (auto simp: mode_ok_def)
  have alive: "\<exists>t < ?v. tensor_data ?m ! (i * ?v + t)" if "i < ?w" "can_extend p (?H ! i)" for i
    using at [OF that(1)] that(2) unfolding can_extend_mask by blast
  obtain i where i: "i < ?w" "\<not> is_complete p (?H ! i)" using go hw(1) by (auto simp: in_set_conv_nth)
  have some: "True \<in> set (tensor_data ?m)"
  proof -
    obtain t where t: "t < ?v" "tensor_data ?m ! (i * ?v + t)" using alive [OF i(1)] ext [of "?H ! i"] i hw(1) by auto
    have "i * ?v + t < length (tensor_data ?m)" using flat_index [OF i(1) t(1)] dlen by simp
    then have "tensor_data ?m ! (i * ?v + t) \<in> set (tensor_data ?m)" by (rule nth_mem)
    then show ?thesis using t(2) by simp
  qed
  have dead: "?mode = ''logprob'' \<Longrightarrow> \<forall>i < ?w. \<exists>t < ?v. tensor_data ?m ! (i * ?v + t)" using alive ext hw(1) by simp
  have wfm: "wf_tensor ?m" using dlen by (simp add: wf_tensor_def)
  obtain pw where pw: "width_for_step (ls_policy st) (step + 1) = Inr pw" "0 < pw" "pw \<le> b"
    using bounded_width_for_step [OF pol, of "step + 1"] step by auto
  have "0 < ?w" "0 < ?v" using i(1) ok by (auto simp: catalog_ok_def)
  then have args: "next_args_ok logits ?w ?v ?prev 1 ?mode"
    using logits(1,2) hw(3) mode by (auto simp: next_args_ok_def mode_ok_def Suc_le_eq simp flip: of_nat_mult)
  obtain k sel where k: "item_mask_limited_beam_width pw (Some ?m) = Inr k" "1 \<le> k" "k \<le> pw"
    and sel: "select_next_topk T logits ?prev k (Some ?m) ?mode = Inr sel"
    using clamped_selects [OF T args pw(2) logits(3) prev wfm _ some dead] by auto
  have shm: "tensor_shape ?m = [?w, ?v]" by simp
  note sound = next_selected [OF T logits(2) wfm shm sel logits(1)]
  have parents: "\<forall>q \<in> set (bs_parent_beams sel). 0 \<le> q \<and> q < active_beam_width ?path" using sound(5) hw(2) by auto
  have "bs_parent_beams sel \<noteq> []" using sound(1,3) by auto
  moreover have "int (length (bs_parent_beams sel)) \<le> path_beam_width ?path" using sound(3) k pw(3) width(1) by simp
  moreover define path where "path = ?path\<lparr>entries := entries ?path
      @ [\<lparr>parent_beams = bs_parent_beams sel, token_ids = bs_token_ids sel, scores = bs_scores sel\<rparr>]\<rparr>"
  ultimately have path: "path_append ?path (bs_parent_beams sel) (bs_token_ids sel) (bs_scores sel) = Inr path"
    unfolding path_append_Inr using parents sound(2-4) room cap by simp
  have "0 \<le> t \<and> t < vocab_size p \<and> map (mask_row p) ?H ! nat q ! nat t"
    if qt: "(q, t) \<in> set (zip (bs_parent_beams sel) (bs_token_ids sel))" for q t
  proof -
    have r: "0 \<le> q" "q < int ?w" "0 \<le> t" "t < int ?v" "tensor_data ?m ! (nat q * ?v + nat t)"
      using bspec [OF sound(7) qt] by (simp_all del: tensor.select_convs)
    have "0 < vocab_size p" using ok by (simp add: catalog_ok_def)
    moreover from this have "nat q < ?w" "nat t < ?v" using r(1-4) by simp_all
    ultimately show ?thesis using r at [of "nat q" "nat t"] hw(1) by (simp del: tensor.select_convs)
  qed
  then have "\<forall>(q, t) \<in> set (zip (bs_parent_beams sel) (bs_token_ids sel)). 0 \<le> t \<and> t < vocab_size p \<and> map (mask_row p) ?H ! nat q ! nat t"
    by blast
  then have run': "masked_run p path" by (rule masked_step [OF run mask(1) path])
  let ?rec = "\<lparr>dl_step = step, dl_logits = logits, dl_token_ids = bs_token_ids sel, dl_parent_beams = bs_parent_beams sel, dl_scores = bs_scores sel\<rparr>"
  have "steps_done ?path \<noteq> 0" using wf(2) by (simp add: steps_done_def)
  then have upd: "update_beams_from_logits_with_width T logits k (Some ?m) ?g = Inr (sel, ?g\<lparr>gen_beam_path := path\<rparr>)"
    using k pw(3) width(2) sel path by (simp add: update_beams_from_logits_with_width_def append_selection_def)
  have "select_step T loop step (int ?w) logits st = Inr (?rec, ?g\<lparr>gen_beam_path := path\<rparr>)"
    using c mask(2) pw(1) k(1) upd by (simp add: select_step_def constrained_def Let_def)
  then show thesis using that run' sound(1,4,6) path by fastforce
qed

text \<open>The state after a selection: the path grew by one entry and its last entry holds the selection.\<close>

lemma path_append_fields:
  assumes "path_append p ps ts ss = Inr p'"
  shows "steps_done p' = steps_done p + 1" and "path_beam_width p' = path_beam_width p"
    and "max_decode_steps p' = max_decode_steps p"
    and "token_ids (last (entries p')) = ts" and "scores (last (entries p')) = ss" and "entries p' \<noteq> []"
  using assms by (auto simp: path_append_Inr steps_done_def)

lemma decode_turn_runs:
  assumes T: "torch_contract T" and c: "constrained p loop" and ok: "catalog_ok p" and inv: "loop_inv p b n st"
    and room: "steps_done (gen_beam_path (ls_generation st)) < n + 1" and step: "0 \<le> step" "step < n"
    and go: "\<exists>h \<in> set (hyps (entries (gen_beam_path (ls_generation st)))). \<not> is_complete p h"
    and toks: "tokens = token_ids (last (entries (gen_beam_path (ls_generation st))))"
  obtains rec stop st' where "decode_turn T loop step tokens st = (Inr (rec, stop), st')" and "loop_inv p b n st'"
    and "steps_done (gen_beam_path (ls_generation st')) = steps_done (gen_beam_path (ls_generation st)) + 1"
    and "dl_token_ids rec = token_ids (last (entries (gen_beam_path (ls_generation st'))))"
    and "selection_stop_reason (gen_beam_path (ls_generation st')) (dl_token_ids rec) (loop_stop_token_ids loop) (Some p) = Inr stop"
proof -
  let ?g = "ls_generation st"
  let ?path = "gen_beam_path ?g"
  note I = inv [unfolded loop_inv_def Let_def]
  have "wf_path ?path" "entries ?path \<noteq> []" using I masked_run_confined by blast+
  then have ne: "tokens \<noteq> []" unfolding toks by (rule hyps_width(4))
  have "step < kv_max_decode_steps (gen_beam_kv ?g)" using I step by simp
  then obtain logits kv where fwd: "loop_forward loop tokens ?g step (int (length tokens)) = (Inr logits, kv)"
    and kv: "kv_shape kv = kv_shape (gen_beam_kv ?g)"
    and lg: "tensor_shape logits = [1, length tokens, nat (vocab_size p)]" "wf_tensor logits" "set (tensor_data logits) \<subseteq> range Fin"
    using c ne step(1) unfolding constrained_def answers_def by blast
  let ?st = "st\<lparr>ls_generation := ?g\<lparr>gen_beam_kv := kv\<rparr>\<rparr>"
  have caps: "kv_max_beam_width kv = kv_max_beam_width (gen_beam_kv ?g)" "kv_max_decode_steps kv = kv_max_decode_steps (gen_beam_kv ?g)"
    using kv by (simp_all add: kv_max_beam_width_def kv_max_decode_steps_def)
  have inv1: "loop_inv p b n ?st" using I caps by (simp add: loop_inv_def Let_def)
  obtain rec g path where sel: "select_step T loop step (int (length tokens)) logits ?st = Inr (rec, g)"
    and run: "masked_run p (gen_beam_path g)" and sc: "set (dl_scores rec) \<subseteq> range Fin" "dl_scores rec \<noteq> []"
    and g: "g = ls_generation ?st\<lparr>gen_beam_path := path\<rparr>"
    and app: "path_append (gen_beam_path (ls_generation ?st)) (dl_parent_beams rec) (dl_token_ids rec) (dl_scores rec) = Inr path"
    by (rule select_step_runs [OF T c ok inv1 _ step(1) _ _ lg]) (use room go toks in auto)
  note f = path_append_fields [OF app]
  have "bounded_policy b (ls_policy st)" using I by simp
  then obtain pol where pol: "observe_policy_scores (ls_policy st) (step + 1) (dl_scores rec) = Inr pol" "bounded_policy b pol"
    using observe_bounded [of b "ls_policy st" "step + 1" "dl_scores rec"] step(1) sc(2) by auto
  let ?st' = "?st\<lparr>ls_generation := g, ls_policy := pol\<rparr>"
  have wf': "wf_path path" "entries path \<noteq> []" using masked_run_confined [OF run] g by simp_all
  obtain stop where stop: "selection_stop_reason path (dl_token_ids rec) (loop_stop_token_ids loop) (Some p) = Inr stop"
    using stop_reason_cases [OF wf'] by metis
  have "decode_turn T loop step tokens st = (Inr (rec, stop), ?st')"
    using fwd sel pol(1) stop c g
    by (simp add: decode_turn_def lift_st_def observe_st_def stop_st_def constrained_def Let_def)
  moreover have "loop_inv p b n ?st'" using I caps run sc(1) g f pol(2) by (simp add: loop_inv_def Let_def)
  ultimately show thesis using that f g stop by simp
qed

text \<open>All turns: the loop returns, one entry per recorded step, with the stop reason of the path it ends in.\<close>

definition stop_state :: "TrieItemMaskProvider \<Rightarrow> int list \<Rightarrow> string option \<Rightarrow> 'v loop_state \<Rightarrow> bool" where
  "stop_state p stops stop st \<longleftrightarrow>
     (let path = gen_beam_path (ls_generation st)
      in selection_stop_reason path (token_ids (last (entries path))) stops (Some p) = Inr stop)"

lemma decode_steps_run:
  assumes T: "torch_contract T" and c: "constrained p loop" and ok: "catalog_ok p"
  shows "loop_inv p b n st \<Longrightarrow> steps_done (gen_beam_path (ls_generation st)) = step + 1 \<Longrightarrow> 0 \<le> step \<Longrightarrow> step + int k \<le> n \<Longrightarrow>
    tokens = token_ids (last (entries (gen_beam_path (ls_generation st)))) \<Longrightarrow> stop_state p (loop_stop_token_ids loop) stop st \<Longrightarrow>
    \<exists>recs stop' st'. decode_steps T loop k step tokens stop st = (Inr (recs, stop'), st') \<and> loop_inv p b n st'
      \<and> stop_state p (loop_stop_token_ids loop) stop' st'
      \<and> steps_done (gen_beam_path (ls_generation st')) = step + 1 + int (length recs) \<and> length recs \<le> k
      \<and> (stop' = None \<longrightarrow> length recs = k)"
proof (induction k arbitrary: st step tokens stop)
  case 0
  then show ?case by simp
next
  case (Suc k)
  show ?case
  proof (cases stop)
    case (Some r)
    then show ?thesis using Suc.prems by simp
  next
    case None
    let ?path = "gen_beam_path (ls_generation st)"
    have run: "masked_run p ?path" using Suc.prems(1) by (simp add: loop_inv_def Let_def)
    have wf: "wf_path ?path" "entries ?path \<noteq> []" using masked_run_confined [OF run] by blast+
    have sr: "selection_stop_reason ?path tokens (loop_stop_token_ids loop) (Some p) = Inr None"
      using Suc.prems(5,6) None by (simp add: stop_state_def Let_def)
    have go: "\<exists>h \<in> set (hyps (entries ?path)). \<not> is_complete p h"
      by (rule stop_reason_cases [OF wf, of tokens "loop_stop_token_ids loop" p]) (use sr in simp)
    obtain rec stop1 st1 where turn: "decode_turn T loop step tokens st = (Inr (rec, stop1), st1)" and inv1: "loop_inv p b n st1"
      and s1: "steps_done (gen_beam_path (ls_generation st1)) = steps_done ?path + 1"
      and t1: "dl_token_ids rec = token_ids (last (entries (gen_beam_path (ls_generation st1))))"
      and sr1: "selection_stop_reason (gen_beam_path (ls_generation st1)) (dl_token_ids rec) (loop_stop_token_ids loop) (Some p) = Inr stop1"
      by (rule decode_turn_runs [OF T c ok Suc.prems(1) _ Suc.prems(3) _ go Suc.prems(5)]) (use Suc.prems in auto)
    have ss: "stop_state p (loop_stop_token_ids loop) stop1 st1" using sr1 t1 by (simp add: stop_state_def Let_def)
    obtain recs stop' st' where rest: "decode_steps T loop k (step + 1) (dl_token_ids rec) stop1 st1 = (Inr (recs, stop'), st')"
      "loop_inv p b n st'" "stop_state p (loop_stop_token_ids loop) stop' st'"
      "steps_done (gen_beam_path (ls_generation st')) = step + 1 + 1 + int (length recs)" "length recs \<le> k" "stop' = None \<longrightarrow> length recs = k"
      using Suc.IH [OF inv1 _ _ _ t1 ss, of "step + 1"] s1 Suc.prems(2-4) by auto
    then show ?thesis using None turn by simp
  qed
qed

section \<open>Whatever the model does\<close>

text \<open>A loop whose only masks are the provider's: the model and the processors may answer anything or raise,
  as long as what they return is a tensor.\<close>

definition tensor_model :: "'v FixedBeamDecodeLoop \<Rightarrow> bool" where
  "tensor_model loop \<longleftrightarrow>
     (\<forall>tokens g step width logits kv. loop_forward loop tokens g step width = (Inr logits, kv) \<longrightarrow> wf_tensor logits)
     \<and> (\<forall>pr \<in> set (loop_logits_processors loop). \<forall>logits ctx t. wf_tensor logits \<longrightarrow> process_logits pr logits ctx = Inr (Some t) \<longrightarrow> wf_tensor t)"

lemma apply_processors_wf:
  assumes "\<forall>pr \<in> set ps. \<forall>logits ctx t. wf_tensor logits \<longrightarrow> process_logits pr logits ctx = Inr (Some t) \<longrightarrow> wf_tensor t"
  shows "wf_tensor logits \<Longrightarrow> apply_logits_processors ps logits ctx = Inr t \<Longrightarrow> wf_tensor t"
  using assms
proof (induction ps arbitrary: logits)
  case (Cons pr ps)
  obtain u where u: "process_logits pr logits ctx = Inr (Some u)" and rest: "apply_logits_processors ps u ctx = Inr t"
    using Cons.prems(2) by (auto split: option.splits)
  have "wf_tensor u" using Cons.prems(3) Cons.prems(1) u by (meson list.set_intros(1))
  moreover have "\<forall>pr \<in> set ps. \<forall>logits ctx t. wf_tensor logits \<longrightarrow> process_logits pr logits ctx = Inr (Some t) \<longrightarrow> wf_tensor t"
    using Cons.prems(3) by (meson list.set_intros(2))
  ultimately show ?case using Cons.IH rest by blast
qed simp

lemma select_step_masked:
  assumes T: "torch_contract T" and p: "loop_item_masks loop = []" "loop_item_mask_provider loop = Some p" and m: "tensor_model loop"
    and raw: "wf_tensor raw" and run: "masked_run p (gen_beam_path (ls_generation st))" and vocab: "0 < vocab_size p"
    and sel: "select_step T loop step width raw st = Inr (rec, g)"
  shows "masked_run p (gen_beam_path g)" and "dl_token_ids rec = token_ids (last (entries (gen_beam_path g)))"
proof -
  let ?path = "gen_beam_path (ls_generation st)"
  obtain logits item_mask k s where lg: "apply_logits_processors (loop_logits_processors loop) raw
        (processor_context (ls_generation st) Decode step width) = Inr logits"
    and im: "decode_item_mask loop step ?path logits = Inr item_mask"
    and up: "update_beams_from_logits_with_width T logits k item_mask (ls_generation st) = Inr (s, g)"
    and rec: "dl_token_ids rec = bs_token_ids s"
    using sel by (auto simp: select_step_def Let_def)
  have wfl: "wf_tensor logits" using apply_processors_wf [OF _ raw lg] m by (simp add: tensor_model_def)
  have wf: "wf_path ?path" "entries ?path \<noteq> []" using masked_run_confined [OF run] by blast+
  obtain rows where rows: "step_mask p ?path (map int (tensor_shape logits)) = Inr rows"
    and m: "item_mask = Some \<lparr>tensor_shape = [length rows, nat (vocab_size p)], tensor_data = concat rows\<rparr>"
    using im p by (auto simp: decode_item_mask_def step_mask_tensor_def)
  obtain path where s: "select_next_topk T logits (scores (last (entries ?path))) k item_mask (gen_score_mode (ls_generation st)) = Inr s"
    and app: "path_append ?path (bs_parent_beams s) (bs_token_ids s) (bs_scores s) = Inr path" and g: "gen_beam_path g = path"
    using up by (auto simp: update_beams_from_logits_with_width_def append_selection_def split: if_splits)
  obtain w v allowed where args: "next_args_ok logits w v (scores (last (entries ?path))) k (gen_score_mode (ls_generation st))"
    and nm: "next_item_mask w v item_mask = Inr allowed" using select_next_Inr [OF s wfl] by metis
  have shape: "tensor_shape logits = [1, w, v]" and w: "int w = active_beam_width ?path"
    using args hyps_width [OF wf] by (simp_all add: next_args_ok_def)
  have "rows = map (mask_row p) (hyps (entries ?path))"
    using rows step_mask_rows [OF wf, of p "int v"] shape w by simp
  then have rl: "length rows = w" and row: "\<forall>row \<in> set rows. length row = nat (vocab_size p)"
    and sm: "step_mask p ?path [1, active_beam_width ?path, vocab_size p] = Inr rows"
    using hyps_width [OF wf] w step_mask_rows [OF wf, of p] by auto
  have v: "v = nat (vocab_size p)" using nm m rl by (auto simp: next_item_mask_def split: if_splits)
  let ?m = "\<lparr>tensor_shape = [w, v], tensor_data = concat rows\<rparr>"
  have wfm: "wf_tensor ?m" using length_concat_rows [OF row] rl v by (simp add: wf_tensor_def)
  have s': "select_next_topk T logits (scores (last (entries ?path))) k (Some ?m) (gen_score_mode (ls_generation st)) = Inr s"
    using s m rl v by simp
  have shm: "tensor_shape ?m = [w, v]" by simp
  note sound = next_selected [OF T wfl wfm shm s' shape]
  have "0 \<le> t \<and> t < vocab_size p \<and> rows ! nat b ! nat t" if bt: "(b, t) \<in> set (zip (bs_parent_beams s) (bs_token_ids s))" for b t
  proof -
    have r: "0 \<le> b" "b < int w" "0 \<le> t" "t < int v" "concat rows ! (nat b * v + nat t)" using bspec [OF sound(7) bt] by simp_all
    then show ?thesis using concat_nth_flat [OF row, of "nat b" "nat t"] rl v vocab by simp
  qed
  then have "\<forall>(b, t) \<in> set (zip (bs_parent_beams s) (bs_token_ids s)). 0 \<le> t \<and> t < vocab_size p \<and> rows ! nat b ! nat t" by blast
  then show "masked_run p (gen_beam_path g)" unfolding g by (rule masked_step [OF run sm app])
  show "dl_token_ids rec = token_ids (last (entries (gen_beam_path g)))" using rec path_append_fields(4) [OF app] g by simp
qed

lemma bind_st_Inr:
  assumes "bind_st m f = (Inr y, s'')"
  obtains x s' where "m = (Inr x, s')" and "f x s' = (Inr y, s'')"
  using assms by (cases m; cases "fst m") (auto simp: bind_st_def)

lemma decode_turn_masked:
  assumes T: "torch_contract T" and p: "loop_item_masks loop = []" "loop_item_mask_provider loop = Some p" and m: "tensor_model loop"
    and run: "masked_run p (gen_beam_path (ls_generation st))" and vocab: "0 < vocab_size p"
    and turn: "decode_turn T loop step tokens st = (Inr (rec, stop), st')"
  shows "masked_run p (gen_beam_path (ls_generation st'))" and "stop_state p (loop_stop_token_ids loop) stop st'"
    and "dl_token_ids rec = token_ids (last (entries (gen_beam_path (ls_generation st'))))"
proof -
  let ?w = "int (length tokens)"
  obtain out kv where fwd: "loop_forward loop tokens (ls_generation st) step ?w = (out, kv)" by fastforce
  let ?st1 = "st\<lparr>ls_generation := (ls_generation st)\<lparr>gen_beam_kv := kv\<rparr>\<rparr>"
  obtain raw g pol where out: "out = Inr raw" and sel: "select_step T loop step ?w raw ?st1 = Inr (rec, g)"
    and st': "st' = ?st1\<lparr>ls_generation := g, ls_policy := pol\<rparr>"
    and stop: "selection_stop_reason (gen_beam_path g) (dl_token_ids rec) (loop_stop_token_ids loop) (Some p) = Inr stop"
    using turn fwd p(2)
    by (auto simp: decode_turn_def lift_st_def observe_st_def stop_st_def Let_def elim!: bind_st_Inr split: sum.splits)
  have raw: "wf_tensor raw" using m fwd [unfolded out] unfolding tensor_model_def by blast
  have run1: "masked_run p (gen_beam_path (ls_generation ?st1))" using run by simp
  note sm = select_step_masked [OF T p m raw run1 vocab sel]
  show "masked_run p (gen_beam_path (ls_generation st'))" using sm st' by simp
  show "dl_token_ids rec = token_ids (last (entries (gen_beam_path (ls_generation st'))))" using sm st' by simp
  then show "stop_state p (loop_stop_token_ids loop) stop st'" using stop st' by (simp add: stop_state_def Let_def)
qed

lemma decode_steps_masked:
  assumes T: "torch_contract T" and p: "loop_item_masks loop = []" "loop_item_mask_provider loop = Some p" and m: "tensor_model loop"
    and vocab: "0 < vocab_size p"
  shows "masked_run p (gen_beam_path (ls_generation st)) \<Longrightarrow> stop_state p (loop_stop_token_ids loop) stop st \<Longrightarrow>
    decode_steps T loop k step tokens stop st = (Inr (recs, stop'), st') \<Longrightarrow>
    masked_run p (gen_beam_path (ls_generation st')) \<and> stop_state p (loop_stop_token_ids loop) stop' st' \<and> length recs \<le> k"
proof (induction k arbitrary: st step tokens stop recs)
  case (Suc k)
  show ?case
  proof (cases stop)
    case None
    obtain rec stop1 st1 recs' where turn: "decode_turn T loop step tokens st = (Inr (rec, stop1), st1)"
      and rest: "decode_steps T loop k (step + 1) (dl_token_ids rec) stop1 st1 = (Inr (recs', stop'), st')" and r: "recs = rec # recs'"
      using Suc.prems(3) None by (auto elim!: bind_st_Inr)
    note t = decode_turn_masked [OF T p m Suc.prems(1) vocab turn]
    show ?thesis using Suc.IH [OF t(1,2) rest] r by simp
  qed (use Suc.prems in auto)
qed simp

section \<open>Runs\<close>

lemma last_scores_length:
  assumes "wf_tensor logits" and "last_scores logits = Inr (b, v, xs)"
  shows "length xs = b * v"
proof (cases "\<exists>s. tensor_shape logits = [b, s, v] \<and> s \<noteq> 0")
  case True
  then obtain s where s: "tensor_shape logits = [b, s, v]" "s \<noteq> 0" by blast
  have l: "length (tensor_data logits) = b * s * v" using assms(1) s(1) by (simp add: wf_tensor_def mult.assoc)
  have x: "xs = concat (map (\<lambda>i. take v (drop ((i * s + (s - 1)) * v) (tensor_data logits))) [0..<b])"
    using assms(2) s by (simp add: last_scores_def)
  have "length (take v (drop ((i * s + (s - 1)) * v) (tensor_data logits))) = v" if "i < b" for i
  proof -
    have "i * s + (s - 1) < b * s" using flat_index [OF that, of "s - 1" s] s(2) by simp
    then have "Suc (i * s + (s - 1)) * v \<le> b * s * v" by (intro mult_le_mono1) simp
    then show ?thesis using l by simp
  qed
  then show ?thesis unfolding x by (subst length_concat_rows [of _ v]) auto
next
  case False
  then have "tensor_shape logits = [b, v] \<and> xs = tensor_data logits"
    using assms(2) by (auto simp: last_scores_def split: list.splits if_splits)
  then show ?thesis using assms(1) by (simp add: wf_tensor_def)
qed

lemma length_initial_mask [simp]: "length (initial_mask p) = nat (vocab_size p)"
  by (simp add: initial_mask_def)

lemma wf_initial_mask: "wf_tensor (initial_mask_tensor p)"
  by (simp add: wf_tensor_def initial_mask_tensor_def)

lemma init_masked:
  assumes T: "torch_contract T" and logits: "wf_tensor logits" and fresh: "entries (gen_beam_path g) = []" and vocab: "0 < vocab_size p"
    and init: "initialize_beams_with_width T k (Some (initial_mask_tensor p)) (Some logits) g = Inr (sel, g')"
  shows "masked_run p (gen_beam_path g')" and "bs_token_ids sel = token_ids (last (entries (gen_beam_path g')))"
proof -
  obtain path where sel: "select_initial_topk T logits k (Some (initial_mask_tensor p)) (gen_score_mode g) = Inr sel"
    and app: "path_append (gen_beam_path g) (bs_parent_beams sel) (bs_token_ids sel) (bs_scores sel) = Inr path"
    and g': "gen_beam_path g' = path"
    using init by (auto simp: initialize_beams_with_width_def append_selection_def split: if_splits)
  obtain v xs where ls: "last_scores logits = Inr (1, v, xs)" and v: "v = nat (vocab_size p)"
    using sel by (auto simp: select_initial_topk_def initial_item_mask_def initial_mask_tensor_def Let_def split: if_splits)
  have "length xs = v" using last_scores_length [OF logits ls] by simp
  note sound = initial_selected [OF T sel ls this wf_initial_mask]
  have "\<forall>t \<in> set (bs_token_ids sel). 0 \<le> t \<and> t < vocab_size p \<and> initial_mask p ! nat t"
    using sound(6) v vocab by (auto simp: initial_mask_tensor_def)
  then show "masked_run p (gen_beam_path g')" unfolding g' by (rule masked_start [OF fresh app])
  show "bs_token_ids sel = token_ids (last (entries (gen_beam_path g')))" using path_append_fields(4) [OF app] g' by simp
qed

lemma run_masked:
  assumes T: "torch_contract T" and p: "loop_item_masks loop = []" "loop_item_mask_provider loop = Some p" and m: "tensor_model loop"
    and logits: "wf_tensor (prefill_logits (gen_prefill g))" and fresh: "entries (gen_beam_path g) = []" and vocab: "0 < vocab_size p"
    and run: "run_decode_loop T loop g max_steps None = (Inr r, st')"
  shows "masked_run p (gen_beam_path (res_generation r))"
    and "\<exists>stop. stop_state p (loop_stop_token_ids loop) stop st' \<and> res_generation r = ls_generation st'
       \<and> res_stop_reason r = (case stop of None \<Rightarrow> ''max_decode_steps'' | Some x \<Rightarrow> x)"
proof -
  let ?st = "run_state loop g"
  have e: "steps_done (gen_beam_path g) = 0" using fresh by (simp add: steps_done_def)
  obtain tokens scs g1 pol stop recs stop' where
    first: "first_selection T loop None ?st = Inr ((tokens, scs), g1)"
    and stop: "selection_stop_reason (gen_beam_path g1) tokens (loop_stop_token_ids loop) (Some p) = Inr stop"
    and rest: "decode_steps T loop (nat max_steps) 0 tokens stop (?st\<lparr>ls_generation := g1, ls_policy := pol\<rparr>) = (Inr (recs, stop'), st')"
    and r: "r = \<lparr>res_generation = ls_generation st', res_steps = recs,
       res_stop_reason = (case stop' of None \<Rightarrow> ''max_decode_steps'' | Some x \<Rightarrow> x)\<rparr>"
    using run p(2)
    by (auto simp: run_decode_loop_def lift_st_def observe_st_def stop_st_def Let_def
        elim!: bind_st_Inr split: sum.splits if_splits)
  obtain l k sel ctx where al: "apply_logits_processors (loop_logits_processors loop) (prefill_logits (gen_prefill g)) ctx = Inr l"
    and init: "initialize_beams_with_width T k (Some (initial_mask_tensor p)) (Some l) g = Inr (sel, g1)" and t: "tokens = bs_token_ids sel"
    using first p(2) e by (auto simp: first_selection_def run_state_def Let_def)
  have l: "wf_tensor l" by (rule apply_processors_wf [OF _ logits al]) (use m in \<open>unfold tensor_model_def, blast\<close>)
  note im = init_masked [OF T l fresh vocab init]
  let ?st1 = "?st\<lparr>ls_generation := g1, ls_policy := pol\<rparr>"
  have "masked_run p (gen_beam_path (ls_generation ?st1))" "stop_state p (loop_stop_token_ids loop) stop ?st1"
    using im stop t by (simp_all add: stop_state_def Let_def)
  then have fin: "masked_run p (gen_beam_path (ls_generation st')) \<and> stop_state p (loop_stop_token_ids loop) stop' st'"
    using decode_steps_masked [OF T p m vocab _ _ rest] by blast
  then show "masked_run p (gen_beam_path (res_generation r))" using r by simp
  show "\<exists>stop. stop_state p (loop_stop_token_ids loop) stop st' \<and> res_generation r = ls_generation st'
       \<and> res_stop_reason r = (case stop of None \<Rightarrow> ''max_decode_steps'' | Some x \<Rightarrow> x)"
    using fin r by auto
qed

text \<open>C5: constrained decoding never leaves the catalog, whatever the model, the logits processors and the
  beam-width policy do: when a run whose masks come from the catalog's provider returns, every live
  beam's tokens before the end-of-sequence token are a prefix of an item's path, a whole path if that
  token was produced, and when the run stopped with \<open>item_complete\<close> every beam spells a whole item.\<close>

theorem constrained_decode_yields_items:
  assumes "torch_contract T" and "loop_item_masks loop = []" and "loop_item_mask_provider loop = Some p" and "tensor_model loop"
    and "wf_tensor (prefill_logits (gen_prefill g))" and "entries (gen_beam_path g) = []"
    and "catalog_provider items vocab eos allow = Inr p" and "eos_free p (item_token_ids ` set items)" and "items \<noteq> []"
    and "run_decode_loop T loop g max_steps None = (Inr r, st')"
    and "path = gen_beam_path (res_generation r)" and "0 \<le> b" and "b < active_beam_width path"
  shows "\<exists>ts. token_trace path b None = Inr ts
    \<and> (\<exists>it \<in> set items. prefix (semantic_prefix p ts) (item_token_ids it))
    \<and> (has_eos p ts \<or> res_stop_reason r = ''item_complete'' \<longrightarrow> (\<exists>it \<in> set items. semantic_prefix p ts = item_token_ids it))"
proof -
  note cat = catalog_provider_fields [OF assms(7)]
  have vocab: "0 < vocab_size p" using cat(5,6) by simp
  note run = run_masked [OF assms(1-6) vocab assms(10)]
  have mr: "masked_run p path" using run(1) assms(11) by simp
  have wf: "wf_path path" "entries path \<noteq> []" using masked_run_confined [OF mr] by blast+
  obtain ts where ts: "token_trace path b None = Inr ts" "\<exists>it \<in> set items. prefix (semantic_prefix p ts) (item_token_ids it)"
    "has_eos p ts \<longrightarrow> (\<exists>it \<in> set items. semantic_prefix p ts = item_token_ids it)"
    using masked_run_spells [OF assms(7,8) mr assms(12,13,9)] by blast
  have "\<exists>it \<in> set items. semantic_prefix p ts = item_token_ids it" if "res_stop_reason r = ''item_complete''"
  proof -
    have "selection_stop_reason path (token_ids (last (entries path))) (loop_stop_token_ids loop) (Some p) = Inr (Some ''item_complete'')"
      using run(2) that unfolding assms(11) stop_state_def Let_def by (fastforce split: option.splits)
    then have "\<forall>h \<in> set (hyps (entries path)). is_complete p h"
      by (rule stop_complete [OF wf])
    moreover have "ts = hyps (entries path) ! nat b" using token_trace_hyps [OF wf assms(12,13)] ts(1) by simp
    moreover have "nat b < length (hyps (entries path))" unfolding hyps_width(1) [OF wf] using hyps_width(2) [OF wf] assms(12,13) by linarith
    ultimately have "is_complete p ts" by simp
    then have "semantic_prefix p ts \<in> trie_paths (trie p)" by (simp add: is_complete_def trie_paths_def)
    then show ?thesis using cat(2) by auto
  qed
  then show ?thesis using ts by blast
qed

section \<open>No dead end\<close>

lemma from_prefill_fields:
  assumes "from_prefill blank rid prefill steps width fixed mode kv_opt = Inr g"
  shows "gen_beam_path g = \<lparr>max_decode_steps = steps + 1, path_beam_width = width, entries = []\<rparr>"
    and "gen_prefill g = prefill" and "gen_score_mode g = mode"
    and "0 < gen_fixed_beam_width g" and "gen_fixed_beam_width g \<le> width"
    and "steps \<le> kv_max_decode_steps (gen_beam_kv g)" and "width \<le> kv_max_beam_width (gen_beam_kv g)"
  using assms
  by (auto simp: from_prefill_def allocate_beam_kv_like_context_def mk_beam_kv_def normalize_shape_def Let_def
      kv_max_decode_steps_def kv_max_beam_width_def split: if_splits option.splits)

lemma initial_mask_alive: "catalog_ok p \<Longrightarrow> True \<in> set (initial_mask p)"
proof -
  assume ok: "catalog_ok p"
  have "semantic_prefix p [] = []" by (simp add: semantic_prefix_def split: option.splits)
  then have "\<not> is_complete p []" using ok by (simp add: catalog_ok_def is_complete_def trie_paths_def)
  then have "can_extend p []" using incomplete_can_extend [OF ok] by simp
  then obtain t where t: "t < nat (vocab_size p)" "initial_mask p ! t" unfolding can_extend_mask initial_mask_def by blast
  then have "initial_mask p ! t \<in> set (initial_mask p)" by (intro nth_mem) simp
  then show ?thesis using t(2) by simp
qed

lemma first_selection_runs:
  assumes T: "torch_contract T" and c: "constrained p loop" and ok: "catalog_ok p" and mode: "mode_ok p (gen_score_mode g)"
    and path: "gen_beam_path g = \<lparr>max_decode_steps = n + 1, path_beam_width = b, entries = []\<rparr>" and n: "0 \<le> n"
    and cap: "n \<le> kv_max_decode_steps (gen_beam_kv g)" "b \<le> kv_max_beam_width (gen_beam_kv g)"
    and pol: "bounded_policy b pol"
    and logits: "last_scores (prefill_logits (gen_prefill g)) = Inr (1, nat (vocab_size p), xs)" "wf_tensor (prefill_logits (gen_prefill g))"
      "set xs \<subseteq> range Fin"
  obtains tokens scs g1 where "first_selection T loop None \<lparr>ls_generation = g, ls_policy = pol\<rparr> = Inr ((tokens, scs), g1)"
    and "loop_inv p b n \<lparr>ls_generation = g1, ls_policy = pol\<rparr>" and "steps_done (gen_beam_path g1) = 1"
    and "tokens = token_ids (last (entries (gen_beam_path g1)))" and "scs \<noteq> []"
proof -
  let ?m = "initial_mask_tensor p"
  have vocab: "0 < vocab_size p" using ok by (simp add: catalog_ok_def)
  obtain pw where pw: "width_for_step pol 0 = Inr pw" "0 < pw" "pw \<le> b" using bounded_width_for_step [OF pol, of 0] by auto
  have len: "length xs = nat (vocab_size p)" using last_scores_length [OF logits(2,1)] by simp
  have shape: "tensor_shape ?m = [nat (vocab_size p)]" and alive: "True \<in> set (tensor_data ?m)"
    using initial_mask_alive [OF ok] by (simp_all add: initial_mask_tensor_def)
  have md: "gen_score_mode g \<in> {''raw_logits'', ''logprob''}" using mode by (auto simp: mode_ok_def)
  obtain k sel where k: "item_mask_limited_beam_width pw (Some ?m) = Inr k" "1 \<le> k" "k \<le> pw"
    and sel: "select_initial_topk T (prefill_logits (gen_prefill g)) k (Some ?m) (gen_score_mode g) = Inr sel"
    using initial_clamped [OF T logits(1) len logits(3) wf_initial_mask shape alive pw(2) md] by blast
  note sound = initial_selected [OF T sel logits(1) len wf_initial_mask]
  define path where "path = \<lparr>max_decode_steps = n + 1, path_beam_width = b,
     entries = [\<lparr>parent_beams = bs_parent_beams sel, token_ids = bs_token_ids sel, scores = bs_scores sel\<rparr>]\<rparr>"
  have app: "path_append (gen_beam_path g) (bs_parent_beams sel) (bs_token_ids sel) (bs_scores sel) = Inr path"
    unfolding path_append_Inr using sound(1-4) k pw(3) n
    by (auto simp: path_def path steps_done_def active_beam_width_def)
  let ?g1 = "g\<lparr>gen_beam_path := path\<rparr>"
  have init: "initialize_beams_with_width T k (Some ?m) (Some (prefill_logits (gen_prefill g))) g = Inr (sel, ?g1)"
    using sel app k pw(3) cap(2) by (simp add: initialize_beams_with_width_def append_selection_def steps_done_def path)
  have "entries (gen_beam_path g) = []" using path by simp
  note im = init_masked [OF T logits(2) this vocab init]
  have first: "first_selection T loop None \<lparr>ls_generation = g, ls_policy = pol\<rparr> = Inr ((bs_token_ids sel, bs_scores sel), ?g1)"
    using c pw(1) k(1) init by (simp add: first_selection_def constrained_def steps_done_def path Let_def)
  have "set (bs_scores sel) \<subseteq> range Fin" by (rule sound(5))
  then have inv: "loop_inv p b n \<lparr>ls_generation = ?g1, ls_policy = pol\<rparr>"
    using im(1) cap pol mode by (simp add: loop_inv_def path_def Let_def)
  have "bs_scores sel \<noteq> []" using sound(3,4) by auto
  moreover have "steps_done (gen_beam_path ?g1) = 1" and "bs_token_ids sel = token_ids (last (entries (gen_beam_path ?g1)))"
    by (simp_all add: path_def steps_done_def)
  ultimately show thesis using that [OF first inv] by blast
qed

lemma constrained_run_returns:
  assumes "torch_contract T" and "constrained p loop" and "catalog_ok p" and "mode_ok p mode"
    and "from_prefill blank rid prefill steps width fixed mode kv_opt = Inr g"
    and "case loop_beam_width_policy loop of None \<Rightarrow> True | Some pol \<Rightarrow> bounded_policy width pol"
    and "last_scores (prefill_logits prefill) = Inr (1, nat (vocab_size p), xs)" and "wf_tensor (prefill_logits prefill)"
    and "set xs \<subseteq> range Fin" and "0 < max_steps" and "max_steps \<le> steps"
  shows "\<exists>r st'. run_decode_loop T loop g max_steps None = (Inr r, st')
    \<and> int (length (res_steps r)) \<le> max_steps
    \<and> steps_done (gen_beam_path (res_generation r)) = 1 + int (length (res_steps r))
    \<and> res_stop_reason r \<in> {''stop_token'', ''item_complete'', ''max_decode_steps''}
    \<and> (res_stop_reason r = ''max_decode_steps'' \<longrightarrow> int (length (res_steps r)) = max_steps)"
proof -
  note f = from_prefill_fields [OF assms(5)]
  let ?pol = "case loop_beam_width_policy loop of None \<Rightarrow> FixedBeamPolicy (gen_fixed_beam_width g) | Some p \<Rightarrow> p"
  have pol: "bounded_policy width ?pol" using assms(6) f(4,5) by (simp split: option.splits)
  have mk: "\<exists>q. (case loop_beam_width_policy loop of None \<Rightarrow> mk_fixed_policy (gen_fixed_beam_width g) | Some p \<Rightarrow> Inr p) = Inr q"
    using f(4) by (simp add: mk_fixed_policy_def split: option.splits)
  have n: "0 \<le> steps" using assms(10,11) by simp
  have md: "mode_ok p (gen_score_mode g)" using assms(4) f(3) by simp
  have lg: "last_scores (prefill_logits (gen_prefill g)) = Inr (1, nat (vocab_size p), xs)" "wf_tensor (prefill_logits (gen_prefill g))"
    using assms(7,8) f(2) by simp_all
  obtain tokens scs g1 where first: "first_selection T loop None \<lparr>ls_generation = g, ls_policy = ?pol\<rparr> = Inr ((tokens, scs), g1)"
    and inv: "loop_inv p width steps \<lparr>ls_generation = g1, ls_policy = ?pol\<rparr>" and s1: "steps_done (gen_beam_path g1) = 1"
    and toks: "tokens = token_ids (last (entries (gen_beam_path g1)))" and sc: "scs \<noteq> []"
    by (rule first_selection_runs [OF assms(1-3) md f(1) n f(6,7) pol lg assms(9)])
  obtain pol' where obs: "observe_policy_scores ?pol 0 scs = Inr pol'" "bounded_policy width pol'"
    using observe_bounded [OF pol _ sc, of 0] by auto
  let ?st = "\<lparr>ls_generation = g1, ls_policy = pol'\<rparr>"
  have inv1: "loop_inv p width steps ?st" using inv obs(2) by (simp add: loop_inv_def Let_def)
  have "masked_run p (gen_beam_path g1)" using inv by (simp add: loop_inv_def Let_def)
  then have wf: "wf_path (gen_beam_path g1)" "entries (gen_beam_path g1) \<noteq> []" using masked_run_confined by blast+
  obtain stop where stop: "selection_stop_reason (gen_beam_path g1) tokens (loop_stop_token_ids loop) (Some p) = Inr stop"
    by (rule stop_reason_cases [OF wf, of tokens "loop_stop_token_ids loop" p]) (rule that)
  have ss: "stop_state p (loop_stop_token_ids loop) stop ?st" using stop toks by (simp add: stop_state_def Let_def)
  obtain recs stop' st' where rest: "decode_steps T loop (nat max_steps) 0 tokens stop ?st = (Inr (recs, stop'), st')"
    and fin: "stop_state p (loop_stop_token_ids loop) stop' st'" "loop_inv p width steps st'"
      "steps_done (gen_beam_path (ls_generation st')) = 0 + 1 + int (length recs)" "length recs \<le> nat max_steps"
      "stop' = None \<longrightarrow> length recs = nat max_steps"
    using decode_steps_run [OF assms(1-3) inv1 _ _ _ _ ss, of 0 "nat max_steps" tokens] s1 toks assms(10,11) by auto
  have "masked_run p (gen_beam_path (ls_generation st'))" using fin(2) by (simp add: loop_inv_def Let_def)
  then have wf': "wf_path (gen_beam_path (ls_generation st'))" "entries (gen_beam_path (ls_generation st')) \<noteq> []"
    using masked_run_confined by blast+
  have reasons: "stop' \<in> {None, Some ''stop_token'', Some ''item_complete''}"
    using fin(1) unfolding stop_state_def Let_def
    by (rule_tac stop_reason_cases [OF wf', of "token_ids (last (entries (gen_beam_path (ls_generation st'))))" "loop_stop_token_ids loop" p]) simp
  let ?r = "\<lparr>res_generation = ls_generation st', res_steps = recs,
     res_stop_reason = (case stop' of None \<Rightarrow> ''max_decode_steps'' | Some x \<Rightarrow> x)\<rparr>"
  have "loop_item_mask_provider loop = Some p" using assms(2) by (simp add: constrained_def)
  then have "run_decode_loop T loop g max_steps None = (Inr ?r, st')"
    using assms(10,11) f(6) mk first obs(1) stop rest
    by (auto simp: run_decode_loop_def run_state_def lift_st_def observe_st_def stop_st_def Let_def)
  then show ?thesis using fin(3-5) reasons assms(10) by (intro exI [of _ ?r] exI [of _ st']) auto
qed


section \<open>Examples\<close>

text \<open>A model that finds every token equally good.\<close>

definition ex_forward :: "nat forward_step" where
  "ex_forward tokens g step width =
     (Inr \<lparr>tensor_shape = [1, length tokens, nat (vocab_size ex_provider)],
            tensor_data = replicate (length tokens * nat (vocab_size ex_provider)) (Fin 0)\<rparr>, gen_beam_kv g)"

definition ex_loop :: "nat FixedBeamDecodeLoop" where
  "ex_loop = \<lparr>loop_forward = ex_forward, loop_item_masks = [], loop_item_mask_provider = Some ex_provider,
     loop_beam_width_policy = None, loop_stop_token_ids = [], loop_logits_processors = []\<rparr>"

definition ex_prefill :: "nat PrefillResult" where
  "ex_prefill = \<lparr>prefill_logits = \<lparr>tensor_shape = [1, nat (vocab_size ex_provider)],
       tensor_data = replicate (nat (vocab_size ex_provider)) (Fin 0)\<rparr>,
     prefill_context_kv = \<lparr>ctx_shape = [1, 1, 3, 1, 2], ctx_key = (\<lambda>_ _. 0), ctx_value = (\<lambda>_ _. 0)\<rparr>\<rparr>"

definition ex_generation :: "nat GRGenerationState" where
  "ex_generation = (case from_prefill (\<lambda>_ _ _ _. 0) ''r'' ex_prefill 3 2 None ''raw_logits'' None of Inr g \<Rightarrow> g)"

lemma ex_from_prefill: "from_prefill (\<lambda>_ _ _ _. 0) ''r'' ex_prefill 3 2 None ''raw_logits'' None = Inr ex_generation"
  by (simp add: ex_generation_def from_prefill_def allocate_beam_kv_like_context_def mk_beam_kv_def normalize_shape_def
      ex_prefill_def ctx_num_layers_def ctx_batch_size_def ctx_num_kv_heads_def ctx_head_dim_def Let_def)

lemma ex_constrained: "constrained ex_provider ex_loop"
  by (auto simp: constrained_def ex_loop_def answers_def ex_forward_def wf_tensor_def)

lemma ex_catalog_ok: "catalog_ok ex_provider"
  by (rule catalog_provider_ok [OF ex_catalog(2)]) code_simp+

lemma ex_prefill_logits:
  "last_scores (prefill_logits ex_prefill) = Inr (1, nat (vocab_size ex_provider), replicate (nat (vocab_size ex_provider)) (Fin 0))"
  "wf_tensor (prefill_logits ex_prefill)" "set (replicate (nat (vocab_size ex_provider)) (Fin 0)) \<subseteq> range Fin"
  by (auto simp: ex_prefill_def last_scores_def wf_tensor_def)

lemmas ex_run_args = ref_torch_contract ex_constrained ex_catalog_ok


theorem constrained_decode_yields_items_witness:
  "\<exists>r st' ts. run_decode_loop ref_torch ex_loop ex_generation 3 None = (Inr r, st')
    \<and> token_trace (gen_beam_path (res_generation r)) 0 None = Inr ts
    \<and> (\<exists>it \<in> set ex_items. prefix (semantic_prefix ex_provider ts) (item_token_ids it))"
proof -
  have "mode_ok ex_provider ''raw_logits''" "case loop_beam_width_policy ex_loop of None \<Rightarrow> True | Some pol \<Rightarrow> bounded_policy 2 pol"
    by (simp_all add: mode_ok_def ex_loop_def)
  from constrained_run_returns [OF ex_run_args this(1) ex_from_prefill this(2) ex_prefill_logits, of 3]
  obtain r st' where run: "run_decode_loop ref_torch ex_loop ex_generation 3 None = (Inr r, st')" by auto
  have p: "loop_item_masks ex_loop = []" "loop_item_mask_provider ex_loop = Some ex_provider" "tensor_model ex_loop"
    by (auto simp: ex_loop_def tensor_model_def ex_forward_def wf_tensor_def)
  note f = from_prefill_fields [OF ex_from_prefill]
  have g: "wf_tensor (prefill_logits (gen_prefill ex_generation))" "entries (gen_beam_path ex_generation) = []"
    using f(1,2) ex_prefill_logits(2) by simp_all
  have e: "eos_free ex_provider (item_token_ids ` set ex_items)" "ex_items \<noteq> []" by code_simp+
  have "0 < vocab_size ex_provider" using ex_catalog_ok by (simp add: catalog_ok_def)
  then have mr: "masked_run ex_provider (gen_beam_path (res_generation r))" using run_masked(1) [OF ref_torch_contract p g _ run] by simp
  have wf: "wf_path (gen_beam_path (res_generation r))" "entries (gen_beam_path (res_generation r)) \<noteq> []"
    using masked_run_confined [OF mr] by blast+
  have b: "0 < active_beam_width (gen_beam_path (res_generation r))" using hyps_width(2,4) [OF wf] by simp
  show ?thesis
    using constrained_decode_yields_items [OF ref_torch_contract p g ex_catalog(2) e run refl _ b] run by auto
qed

end
