(* ===== verification/GR_Exec_Cache.thy ===== *)
theory GR_Exec_Cache
  imports GR_Beam_KV
begin

text \<open>
  The template caches of the continuous executor in \<open>gr_serving/continuous.py\<close>: index tensors and decode
  inputs are built on the host, so the executor keeps them under a key and reuses them. A key is
  cheaper than what it stands for (the identity key forgets the beam paths altogether), and the
  caches are shared between executors of one engine. The locale \<open>memo_table\<close> says what makes such a
  cache invisible; both caches are interpretations of it, and \<open>gr_runtime/batched_decode_inputs.py\<close>
  is what the second one stores.
\<close>

section \<open>A table of results\<close>

record ('k, 'v) memo =
  memo_entries :: "('k, 'v) dict"
  memo_hits :: int
  memo_misses :: int

text \<open>Look up, count, and compute and store on a miss; an exception of the computation stores nothing.\<close>

definition memo_get :: "'k \<Rightarrow> 'v py_result \<Rightarrow> ('k, 'v) memo \<Rightarrow> 'v py_result \<times> ('k, 'v) memo" where
  "memo_get k r m =
     (case map_of (memo_entries m) k of
        Some v \<Rightarrow> (Inr v, m\<lparr>memo_hits := memo_hits m + 1\<rparr>)
      | None \<Rightarrow>
          (let m' = m\<lparr>memo_misses := memo_misses m + 1\<rparr>
           in case r of
                Inl e \<Rightarrow> (Inl e, m')
              | Inr v \<Rightarrow> (Inr v, m'\<lparr>memo_entries := dict_set k v (memo_entries m')\<rparr>)))"

definition memo_status :: "('k, 'v) memo \<Rightarrow> (string, pyval) dict" where
  "memo_status m =
     [(''entries'', PInt (int (length (memo_entries m)))), (''hits'', PInt (memo_hits m)), (''misses'', PInt (memo_misses m))]"

text \<open>Every stored value is what the computation gives for any input with that key.\<close>

definition memo_sound :: "('i \<Rightarrow> bool) \<Rightarrow> ('i \<Rightarrow> 'k py_result) \<Rightarrow> ('i \<Rightarrow> 'v py_result) \<Rightarrow> ('k, 'v) memo \<Rightarrow> bool" where
  "memo_sound used key result m \<longleftrightarrow> (\<forall>(k, v) \<in> set (memo_entries m). \<forall>i. used i \<longrightarrow> key i = Inr k \<longrightarrow> result i = Inr v)"

text \<open>What a client needs: inputs of the domain with the same key have the same result.\<close>

locale memo_table =
  fixes used :: "'i \<Rightarrow> bool" and key :: "'i \<Rightarrow> 'k py_result" and result :: "'i \<Rightarrow> 'v py_result"
  assumes key_determines: "used i \<Longrightarrow> used j \<Longrightarrow> key i = Inr k \<Longrightarrow> key j = Inr k \<Longrightarrow> result i = result j"
begin

lemma memo_hit:
  assumes "memo_sound used key result m" and "used i" and "key i = Inr k" and "map_of (memo_entries m) k = Some v"
  shows "result i = Inr v"
  using map_of_SomeD [OF assms(4)] assms(1-3) unfolding memo_sound_def by blast

lemma memo_store:
  assumes "memo_sound used key result m" and "used i" and "key i = Inr k" and "result i = Inr v"
  shows "memo_sound used key result (m\<lparr>memo_entries := dict_set k v (memo_entries m)\<rparr>)"
proof -
  have "result j = Inr w" if "(k', w) \<in> set (dict_set k v (memo_entries m))" "used j" "key j = Inr k'" for k' w j
  proof -
    have "(k', w) = (k, v) \<or> (k', w) \<in> set (memo_entries m)" using dict_set_subset [of k v "memo_entries m"] that(1) by blast
    then show ?thesis
      using key_determines [OF that(2) assms(2), of k] that(2,3) assms(1,3,4) by (auto simp: memo_sound_def)
  qed
  then show ?thesis by (auto simp: memo_sound_def)
qed

lemma memo_transparent:
  assumes "memo_sound used key result m" and "used i" and "key i = Inr k"
  shows "fst (memo_get k (result i) m) = result i" and "memo_sound used key result (snd (memo_get k (result i) m))"
proof -
  have same: "memo_sound used key result (m\<lparr>memo_hits := h\<rparr>)" "memo_sound used key result (m\<lparr>memo_misses := h\<rparr>)" for h
    using assms(1) by (simp_all add: memo_sound_def)
  show "fst (memo_get k (result i) m) = result i"
    using memo_hit [OF assms] by (cases "map_of (memo_entries m) k"; cases "result i") (auto simp: memo_get_def)
  show "memo_sound used key result (snd (memo_get k (result i) m))"
    using same memo_store [OF same(2) assms(2,3)]
    by (cases "map_of (memo_entries m) k"; cases "result i") (auto simp: memo_get_def Let_def)
qed

lemma memo_drop: "memo_sound used key result m \<Longrightarrow> memo_sound used key result (m\<lparr>memo_entries := filter P (memo_entries m)\<rparr>)"
  by (auto simp: memo_sound_def)

end

section \<open>Keys\<close>

text \<open>A device: none, a device object with its type and index, or its name.\<close>

datatype device = NoDevice | DeviceObject string "int option" | DeviceName string

definition device_cache_key :: "device \<Rightarrow> (string \<times> int option) py_result" where
  "device_cache_key d =
     (case d of
        NoDevice \<Rightarrow> Inr (''cpu'', None)
      | DeviceObject t i \<Rightarrow> Inr (t, i)
      | DeviceName s \<Rightarrow>
          (let t = takeWhile (\<lambda>c. c \<noteq> CHR '':'') s
           in if CHR '':'' \<in> set s
              then bind_res (py_int (PStr (drop (Suc (length t)) s))) (\<lambda>n. Inr (t, Some n))
              else Inr (t, None)))"

definition batched_beam_path_signature :: "BeamPath list \<Rightarrow> int \<Rightarrow> int list list list" where
  "batched_beam_path_signature paths decode_nums = map (\<lambda>p. map parent_beams (py_take decode_nums (entries p))) paths"

fun identity_steps :: "BeamPath \<Rightarrow> int \<Rightarrow> int list \<Rightarrow> bool py_result" where
  "identity_steps p w [] = Inr True"
| "identity_steps p w (step # steps) =
     bind_res (py_get (entries p) step) (\<lambda>e.
       if entry_width e < w then Inr False
       else if py_take w (parent_beams e) \<noteq> py_range w \<and> step > 0 then Inr False
       else identity_steps p w steps)"

fun identity_paths :: "BeamPath list \<Rightarrow> int \<Rightarrow> int \<Rightarrow> bool py_result" where
  "identity_paths [] decode_nums w = Inr True"
| "identity_paths (p # ps) decode_nums w =
     bind_res (identity_steps p w (py_range decode_nums)) (\<lambda>ok. if ok then identity_paths ps decode_nums w else Inr False)"

definition is_identity_batched_beam_path :: "BeamPath list \<Rightarrow> int \<Rightarrow> int \<Rightarrow> bool py_result" where
  "is_identity_batched_beam_path paths decode_nums beam_width =
     (if decode_nums \<le> 1 then Inr True
      else if batched_steps_done paths < decode_nums then Inr False
      else identity_paths paths decode_nums beam_width)"

type_synonym key_shape = "int \<times> int \<times> int \<times> string \<times> int option"

datatype topk_key =
    CompactedKey nat key_shape
  | IdentityKey "string list" nat key_shape
  | PathKey "string list" "int list list list" key_shape

definition topk_indices_cache_key ::
  "BeamPath list \<Rightarrow> string list \<Rightarrow> int \<Rightarrow> int \<Rightarrow> int \<Rightarrow> device \<Rightarrow> bool \<Rightarrow> topk_key py_result" where
  "topk_indices_cache_key paths ids num_q_heads decode_nums beam_width dev needs =
     bind_res (device_cache_key dev) (\<lambda>(t, i).
       let common = (num_q_heads, decode_nums, beam_width, t, i)
       in if needs then Inr (CompactedKey (length paths) common)
          else bind_res (is_identity_batched_beam_path paths decode_nums beam_width) (\<lambda>ident.
            Inr (if ident then IdentityKey ids (length paths) common
                 else PathKey ids (batched_beam_path_signature paths decode_nums) common)))"

text \<open>What is stored under the key.\<close>

definition decode_topk_indices :: "BeamPath list \<Rightarrow> int \<Rightarrow> int \<Rightarrow> int \<Rightarrow> bool \<Rightarrow> int list list list list list py_result" where
  "decode_topk_indices paths num_q_heads decode_nums beam_width needs =
     (if needs then make_compacted_batched_topk_indices (int (length paths)) num_q_heads decode_nums beam_width
      else make_batched_topk_indices paths num_q_heads decode_nums beam_width)"

definition topk_indices_for_decode_batch ::
  "BeamPath list \<Rightarrow> string list \<Rightarrow> int \<Rightarrow> int \<Rightarrow> int \<Rightarrow> device \<Rightarrow> bool
   \<Rightarrow> (topk_key, int list list list list list) memo
   \<Rightarrow> int list list list list list py_result \<times> (topk_key, int list list list list list) memo" where
  "topk_indices_for_decode_batch paths ids num_q_heads decode_nums beam_width dev needs m =
     (case topk_indices_cache_key paths ids num_q_heads decode_nums beam_width dev needs of
        Inl e \<Rightarrow> (Inl e, m)
      | Inr k \<Rightarrow> memo_get k (decode_topk_indices paths num_q_heads decode_nums beam_width needs) m)"

text \<open>\<open>make_batched_beam_token_ids\<close>: the \<open>[B, W]\<close> matrix, and the inputs it is wrapped in.\<close>

record BatchedDecodeInputs =
  beam_token_ids :: "int tensor"
  inputs_batch_size :: nat
  inputs_beam_width :: nat

definition make_batched_beam_token_ids :: "BatchedBeamSelection \<Rightarrow> BatchedDecodeInputs py_result" where
  "make_batched_beam_token_ids sel =
     (let b = sel_batch_size sel; w = sel_beam_width sel in
      if b = 0 then Inl (ValueError ''selection must contain at least one batch item'')
      else if w = 0 then Inl (ValueError ''selection beam_width must be positive'')
      else case sel_token_ids_tensor sel of
        Some t \<Rightarrow>
          if tensor_shape t \<noteq> [b, w] then Inl (ValueError ''selection token_ids_tensor must match the batch size and beam width'')
          else Inr \<lparr>beam_token_ids = t, inputs_batch_size = b, inputs_beam_width = w\<rparr>
      | None \<Rightarrow>
          if \<exists>row \<in> set (sel_token_ids sel). length row \<noteq> w then Inl (ValueError ''all batch rows must have equal beam width'')
          else Inr \<lparr>beam_token_ids = \<lparr>tensor_shape = [b, w], tensor_data = concat (sel_token_ids sel)\<rparr>,
                    inputs_batch_size = b, inputs_beam_width = w\<rparr>)"

type_synonym inputs_key = "string list \<times> int list list \<times> string \<times> int option"

definition decode_inputs_for_selection ::
  "BatchedBeamSelection \<Rightarrow> string list \<Rightarrow> device \<Rightarrow> (inputs_key, BatchedDecodeInputs) memo
   \<Rightarrow> BatchedDecodeInputs py_result \<times> (inputs_key, BatchedDecodeInputs) memo" where
  "decode_inputs_for_selection sel ids dev m =
     (case device_cache_key dev of
        Inl e \<Rightarrow> (Inl e, m)
      | Inr (t, i) \<Rightarrow> memo_get (ids, sel_token_ids sel, t, i) (make_batched_beam_token_ids sel) m)"

text \<open>Keys that carry a finished request are dropped: the scoped ones that name it.\<close>

fun topk_key_scope :: "topk_key \<Rightarrow> string list option" where
  "topk_key_scope (CompactedKey n c) = None"
| "topk_key_scope (IdentityKey ids n c) = Some ids"
| "topk_key_scope (PathKey ids s c) = Some ids"

definition key_matches_finished :: "string list option \<Rightarrow> string list \<Rightarrow> bool" where
  "key_matches_finished scope fin \<longleftrightarrow> (case scope of None \<Rightarrow> False | Some ids \<Rightarrow> set fin \<inter> set ids \<noteq> {})"

definition drop_topk_for :: "string list \<Rightarrow> (topk_key, 'v) memo \<Rightarrow> (topk_key, 'v) memo" where
  "drop_topk_for fin m =
     (if fin = [] then m
      else m\<lparr>memo_entries := filter (\<lambda>(k, v). \<not> key_matches_finished (topk_key_scope k) fin) (memo_entries m)\<rparr>)"

definition drop_inputs_for :: "string list \<Rightarrow> (inputs_key, 'v) memo \<Rightarrow> (inputs_key, 'v) memo" where
  "drop_inputs_for fin m =
     (if fin = [] then m
      else m\<lparr>memo_entries := filter (\<lambda>(k, v). \<not> key_matches_finished (Some (fst k)) fin) (memo_entries m)\<rparr>)"

section \<open>Keys determine what they stand for\<close>

lemma ancestry_loop_cong: "map parent_beams es = map parent_beams es' \<Longrightarrow> ancestry_loop es q = ancestry_loop es' q"
proof (induction es arbitrary: es' q)
  case (Cons e es)
  then obtain e' es'' where es': "es' = e' # es''" "parent_beams e = parent_beams e'" "map parent_beams es = map parent_beams es''"
    by (cases es') auto
  then show ?case using Cons.IH [OF es'(3)] by (simp add: entry_width_def)
qed simp

lemma beam_ancestry_cong:
  assumes "map parent_beams (take (nat D) (entries p)) = map parent_beams (take (nat D) (entries p'))" and "0 < D"
  shows "beam_ancestry p q D = beam_ancestry p' q D"
proof -
  let ?es = "take (nat D) (entries p)" and ?es' = "take (nat D) (entries p')"
  have len: "length ?es = length ?es'" using arg_cong [OF assms(1), of length] by simp
  have loop: "ancestry_loop (rev ?es) q = ancestry_loop (rev ?es') q"
    by (rule ancestry_loop_cong) (use assms(1) in \<open>simp add: rev_map [symmetric]\<close>)
  show ?thesis
  proof (cases "nat D \<le> length (entries p)")
    case True
    then have l: "nat D \<le> length (entries p')" using len by simp
    have i: "nat (D - 1) < length ?es" "nat (D - 1) < nat D" "nat (D - 1) < length (entries p)" "nat (D - 1) < length (entries p')"
      using True l assms(2) by simp_all
    have "parent_beams (?es ! nat (D - 1)) = parent_beams (?es' ! nat (D - 1))"
      using arg_cong [OF assms(1), of "\<lambda>xs. xs ! nat (D - 1)"] i len by simp
    then have "entry_width (entries p ! nat (D - 1)) = entry_width (entries p' ! nat (D - 1))"
      using i by (simp add: entry_width_def)
    then show ?thesis using i loop assms(2) by (simp add: beam_ancestry_def)
  next
    case False
    then have "\<not> nat (D - 1) < length (entries p)" and "\<not> nat (D - 1) < length (entries p')" using len assms(2) by auto
    then show ?thesis using assms(2) by (simp add: beam_ancestry_def py_get_def)
  qed
qed

lemma map_res_cong: "(\<And>x. x \<in> set xs \<Longrightarrow> f x = g x) \<Longrightarrow> map_res f xs = map_res g xs"
  by (induction xs) auto

lemma map_res_rel: "list_all2 (\<lambda>x y. f x = g y) xs ys \<Longrightarrow> map_res f xs = map_res g ys"
  by (induction xs ys rule: list_all2_induct) auto

lemma path_pattern_cong:
  assumes "map parent_beams (py_take D (entries p)) = map parent_beams (py_take D (entries p'))" and "0 < D"
  shows "path_pattern p D W = path_pattern p' D W"
proof -
  have "beam_ancestry p q D = beam_ancestry p' q D" for q
    by (rule beam_ancestry_cong) (use assms in simp_all)
  then show ?thesis by (simp add: path_pattern_def)
qed

text \<open>The call the executor makes has checked the history first.\<close>

definition history_ok :: "BeamPath list \<Rightarrow> int \<Rightarrow> int \<Rightarrow> bool" where
  "history_ok paths D W \<longleftrightarrow> validate_compaction_args paths D W = Inr ()"

lemma history_okD: "history_ok paths D W \<longleftrightarrow> 0 < D \<and> 0 < W \<and> D \<le> batched_steps_done paths"
  by (auto simp: history_ok_def validate_compaction_args_def)

lemma signature_determines:
  assumes "batched_beam_path_signature ps D = batched_beam_path_signature qs D" and "history_ok ps D W" and "history_ok qs D W"
  shows "make_batched_topk_indices ps H D W = make_batched_topk_indices qs H D W"
proof -
  have len: "length ps = length qs" using arg_cong [OF assms(1), of length] by (simp add: batched_beam_path_signature_def)
  have "list_all2 (\<lambda>p q. path_pattern p D W = path_pattern q D W) ps qs"
  proof (rule list_all2_all_nthI [OF len])
    fix i assume i: "i < length ps"
    have "map parent_beams (py_take D (entries (ps ! i))) = map parent_beams (py_take D (entries (qs ! i)))"
      using arg_cong [OF assms(1), of "\<lambda>xs. xs ! i"] i len by (simp add: batched_beam_path_signature_def)
    then show "path_pattern (ps ! i) D W = path_pattern (qs ! i) D W"
      by (rule path_pattern_cong) (use assms(2) in \<open>simp add: history_okD\<close>)
  qed
  then have "map_res (\<lambda>p. path_pattern p D W) ps = map_res (\<lambda>p. path_pattern p D W) qs" by (rule map_res_rel)
  then show ?thesis using assms(2,3) len by (simp add: make_batched_topk_indices_def history_okD)
qed

lemma identity_steps_True:
  assumes "identity_steps p W steps = Inr True" and "s \<in> set steps" and "0 \<le> s" and "0 < W"
  shows "s < steps_done p \<and> W \<le> entry_width (entries p ! nat s)
    \<and> (0 < s \<longrightarrow> take (nat W) (parent_beams (entries p ! nat s)) = py_range W)"
  using assms
proof (induction steps)
  case (Cons step steps)
  then obtain e where e: "py_get (entries p) step = Inr e" "W \<le> entry_width e"
    "step > 0 \<longrightarrow> py_take W (parent_beams e) = py_range W" "identity_steps p W steps = Inr True"
    by (auto split: if_splits)
  show ?case
  proof (cases "s = step")
    case True
    then have "e = entries p ! nat s \<and> s < steps_done p"
      using e(1) Cons.prems(3) by (auto simp: py_get_def steps_done_def split: if_splits)
    then show ?thesis using e True Cons.prems(4) by auto
  next
    case False
    then show ?thesis using Cons e(4) by simp
  qed
qed simp

lemma identity_paths_True:
  "identity_paths ps D W = Inr True \<Longrightarrow> p \<in> set ps \<Longrightarrow> identity_steps p W (py_range D) = Inr True"
  by (induction ps) (auto split: if_splits)

lemma py_range_nth_take:
  assumes "take (nat W) xs = py_range W" and "0 \<le> q" and "q < W"
  shows "nat q < length xs \<and> xs ! nat q = q"
proof -
  have "length (take (nat W) xs) = nat W" using assms(1) by simp
  then have l: "nat W \<le> length xs" by simp
  have "take (nat W) xs ! nat q = q" using assms by simp
  then show ?thesis using l assms(2,3) by simp
qed

lemma ancestry_identity:
  assumes "\<forall>e \<in> set es. W \<le> entry_width e" and "\<forall>e \<in> set (butlast es). take (nat W) (parent_beams e) = py_range W"
    and "0 \<le> q" and "q < W"
  shows "ancestry_loop es q = Inr (replicate (length es) q)"
  using assms
proof (induction es)
  case (Cons e es)
  have q: "q < entry_width e" using Cons.prems(1,4) by simp
  show ?case
  proof (cases "es = []")
    case True
    then show ?thesis using q Cons.prems(3) by (simp add: entry_width_def)
  next
    case False
    then have "parent_beams e ! nat q = q" using py_range_nth_take [of W "parent_beams e" q] Cons.prems(2-4) by simp
    then show ?thesis using Cons False q by (simp add: entry_width_def)
  qed
qed simp

lemma identity_ancestry:
  assumes "identity_steps p W (py_range D) = Inr True" and "0 < D" and "0 < W" and "0 \<le> q" and "q < W"
  shows "beam_ancestry p q D = Inr (replicate (nat D) q)"
proof -
  note step = identity_steps_True [OF assms(1) _ _ assms(3)]
  have D: "D \<le> steps_done p" using step [of "D - 1"] assms(2) by simp
  let ?es = "take (nat D) (entries p)"
  have len: "length ?es = nat D" using D by (simp add: steps_done_def)
  have nth: "W \<le> entry_width (?es ! i) \<and> (0 < i \<longrightarrow> take (nat W) (parent_beams (?es ! i)) = py_range W)" if "i < nat D" for i
    using step [of "int i"] that by auto
  have "\<forall>e \<in> set (rev ?es). W \<le> entry_width e" using nth len by (auto simp: in_set_conv_nth)
  moreover have "\<forall>e \<in> set (butlast (rev ?es)). take (nat W) (parent_beams e) = py_range W"
  proof
    fix e assume "e \<in> set (butlast (rev ?es))"
    then have "e \<in> set (tl ?es)" by (simp add: butlast_rev)
    then obtain i where "i < length (tl ?es)" "e = tl ?es ! i" by (auto simp: in_set_conv_nth)
    then have "e = ?es ! Suc i" "Suc i < nat D" using len by (auto simp: nth_tl)
    then show "take (nat W) (parent_beams e) = py_range W" using nth [of "Suc i"] by simp
  qed
  ultimately have "ancestry_loop (rev ?es) q = Inr (replicate (nat D) q)" using ancestry_identity assms(4,5) len by (metis length_rev)
  moreover have "py_get (entries p) (D - 1) = Inr (entries p ! nat (D - 1))" using D assms(2) by (simp add: steps_done_def)
  moreover have "q < entry_width (entries p ! nat (D - 1))" using step [of "D - 1"] assms(2,5) by simp
  ultimately show ?thesis using assms(4) by (simp add: beam_ancestry_def)
qed

text \<open>The index tensor of identity paths does not depend on them.\<close>

lemma identity_determines:
  assumes "is_identity_batched_beam_path ps D W = Inr True" and "is_identity_batched_beam_path qs D W = Inr True"
    and "length ps = length qs" and "history_ok ps D W" and "history_ok qs D W"
  shows "make_batched_topk_indices ps H D W = make_batched_topk_indices qs H D W"
proof (cases "D = 1")
  case True
  then show ?thesis using assms(3-5) by (simp add: make_batched_topk_indices_def history_okD)
next
  case False
  let ?pat = "pattern_of D W (map (\<lambda>q. replicate (nat D) q) (py_range W))"
  have pats: "map_res (\<lambda>p. path_pattern p D W) rs = Inr (replicate (length rs) ?pat)"
    if r: "is_identity_batched_beam_path rs D W = Inr True" "history_ok rs D W" for rs
  proof -
    have D: "1 < D" "0 < W" using r(2) False by (simp_all add: history_okD)
    then have "identity_paths rs D W = Inr True" using r(1) by (auto simp: is_identity_batched_beam_path_def split: if_splits)
    then have anc: "beam_ancestry p q D = Inr (replicate (nat D) q)" if "p \<in> set rs" "q \<in> set (py_range W)" for p q
      by (rule identity_ancestry [OF identity_paths_True [OF _ that(1)]]) (use that(2) D in simp_all)
    have "path_pattern p D W = Inr ?pat" if "p \<in> set rs" for p
    proof -
      have "map_res (\<lambda>q. beam_ancestry p q D) (py_range W) = Inr (map (\<lambda>q. replicate (nat D) q) (py_range W))"
        by (rule map_res_total) (rule anc [OF that])
      then show ?thesis by (simp add: path_pattern_def)
    qed
    then show ?thesis using map_res_total [of rs "\<lambda>p. path_pattern p D W" "\<lambda>_. ?pat"] by (simp add: map_replicate_const)
  qed
  then show ?thesis using assms by (simp add: make_batched_topk_indices_def history_okD)
qed

section \<open>The caches are invisible\<close>

record topk_call =
  call_paths :: "BeamPath list"
  call_ids :: "string list"
  call_heads :: int
  call_decode_nums :: int
  call_width :: int
  call_device :: device
  call_needs :: bool

definition call_ok :: "topk_call \<Rightarrow> bool" where
  "call_ok c \<longleftrightarrow> history_ok (call_paths c) (call_decode_nums c) (call_width c)"

definition call_key :: "topk_call \<Rightarrow> topk_key py_result" where
  "call_key c = topk_indices_cache_key (call_paths c) (call_ids c) (call_heads c) (call_decode_nums c) (call_width c)
     (call_device c) (call_needs c)"

definition call_result :: "topk_call \<Rightarrow> int list list list list list py_result" where
  "call_result c = decode_topk_indices (call_paths c) (call_heads c) (call_decode_nums c) (call_width c) (call_needs c)"

lemma call_key_cases:
  assumes "call_key c = Inr k"
  obtains t i where "k = CompactedKey (length (call_paths c)) (call_heads c, call_decode_nums c, call_width c, t, i)" and "call_needs c"
  | t i where "k = IdentityKey (call_ids c) (length (call_paths c)) (call_heads c, call_decode_nums c, call_width c, t, i)"
      and "\<not> call_needs c" and "is_identity_batched_beam_path (call_paths c) (call_decode_nums c) (call_width c) = Inr True"
  | t i where "k = PathKey (call_ids c) (batched_beam_path_signature (call_paths c) (call_decode_nums c))
        (call_heads c, call_decode_nums c, call_width c, t, i)" and "\<not> call_needs c"
  using assms by (auto simp: call_key_def topk_indices_cache_key_def Let_def split: if_splits)

interpretation topk_memo: memo_table call_ok call_key call_result
proof
  fix a b k
  assume ok: "call_ok a" "call_ok b" and k: "call_key a = Inr k" "call_key b = Inr k"
  note ok' = ok [unfolded call_ok_def]
  show "call_result a = call_result b"
    by (rule call_key_cases [OF k(1)]; rule call_key_cases [OF k(2)])
      (use ok' identity_determines [of "call_paths a" "call_decode_nums a" "call_width a" "call_paths b" "call_heads a"]
         signature_determines [of "call_paths b" "call_decode_nums a" "call_paths a" "call_width a" "call_heads a", symmetric]
       in \<open>auto simp: call_result_def decode_topk_indices_def\<close>)
qed

abbreviation topk_cache_sound :: "(topk_key, int list list list list list) memo \<Rightarrow> bool" where
  "topk_cache_sound \<equiv> memo_sound call_ok call_key call_result"

text \<open>The selections the executor asks for hold tuples only.\<close>

definition tuples_only :: "BatchedBeamSelection \<Rightarrow> bool" where
  "tuples_only sel \<longleftrightarrow> sel_token_ids_tensor sel = None"

type_synonym inputs_call = "BatchedBeamSelection \<times> string list \<times> device"

definition inputs_call_key :: "inputs_call \<Rightarrow> inputs_key py_result" where
  "inputs_call_key c = (case c of (sel, ids, dev) \<Rightarrow> bind_res (device_cache_key dev) (\<lambda>(t, i). Inr (ids, sel_token_ids sel, t, i)))"

interpretation inputs_memo: memo_table "\<lambda>c. tuples_only (fst c)" inputs_call_key "\<lambda>c. make_batched_beam_token_ids (fst c)"
  by unfold_locales
    (auto simp: inputs_call_key_def tuples_only_def make_batched_beam_token_ids_def sel_batch_size_def sel_beam_width_def Let_def
      split: list.splits)

abbreviation inputs_cache_sound :: "(inputs_key, BatchedDecodeInputs) memo \<Rightarrow> bool" where
  "inputs_cache_sound \<equiv> memo_sound (\<lambda>c. tuples_only (fst c)) inputs_call_key (\<lambda>c. make_batched_beam_token_ids (fst c))"

lemma empty_memo_sound: "memo_sound used key result \<lparr>memo_entries = [], memo_hits = h, memo_misses = n\<rparr>"
  by (simp add: memo_sound_def)

lemma drop_topk_sound: "topk_cache_sound m \<Longrightarrow> topk_cache_sound (drop_topk_for fin m)"
  by (simp add: drop_topk_for_def topk_memo.memo_drop)

lemma drop_inputs_sound: "inputs_cache_sound m \<Longrightarrow> inputs_cache_sound (drop_inputs_for fin m)"
  by (simp add: drop_inputs_for_def inputs_memo.memo_drop)

text \<open>C20: the index tensors a decode batch gets are those its own beam paths give, whichever requests filled the
  cache before: the cached value under the key, which for identity paths names no path at all, equals
  the recomputed one, and the cache stays sound, also after the entries of finished requests are dropped.\<close>

theorem topk_cache_transparent:
  assumes "topk_cache_sound m" and "validate_compaction_args paths decode_nums width = Inr ()"
    and "topk_indices_cache_key paths ids heads decode_nums width dev needs = Inr k"
    and "topk_indices_for_decode_batch paths ids heads decode_nums width dev needs m = (r, m')"
  shows "r = decode_topk_indices paths heads decode_nums width needs \<and> topk_cache_sound m' \<and> topk_cache_sound (drop_topk_for fin m')"
proof -
  let ?c = "\<lparr>call_paths = paths, call_ids = ids, call_heads = heads, call_decode_nums = decode_nums, call_width = width,
     call_device = dev, call_needs = needs\<rparr>"
  have "call_ok ?c" and "call_key ?c = Inr k" using assms(2,3) by (simp_all add: call_ok_def history_ok_def call_key_def)
  note t = topk_memo.memo_transparent [OF assms(1) this]
  have get: "memo_get k (call_result ?c) m = (r, m')"
    using assms(3,4) by (simp add: topk_indices_for_decode_batch_def call_result_def)
  show ?thesis using t drop_topk_sound unfolding get by (simp add: call_result_def)
qed

theorem topk_cache_transparent_witness:
  "\<exists>m1 m2. topk_indices_for_decode_batch [ex_path] [''a''] 1 2 2 NoDevice False \<lparr>memo_entries = [], memo_hits = 0, memo_misses = 0\<rparr>
       = (Inr [[[[[1, 1], [2, 3]]]]], m1)
     \<and> topk_indices_for_decode_batch [ex_path] [''a''] 1 2 2 NoDevice False m1 = (Inr [[[[[1, 1], [2, 3]]]]], m2)
     \<and> memo_hits m2 = 1 \<and> topk_cache_sound m2"
proof -
  let ?m0 = "\<lparr>memo_entries = [], memo_hits = 0, memo_misses = 0\<rparr> :: (topk_key, int list list list list list) memo"
  have val: "validate_compaction_args [ex_path] 2 2 = Inr ()" by code_simp
  have key: "topk_indices_cache_key [ex_path] [''a''] 1 2 2 NoDevice False
      = Inr (PathKey [''a''] [[[0, 0], [1, 1]]] (1, 2, 2, ''cpu'', None))" by code_simp
  have res: "decode_topk_indices [ex_path] 1 2 2 False = Inr [[[[[1, 1], [2, 3]]]]]" by code_simp
  obtain r1 m1 where r1: "topk_indices_for_decode_batch [ex_path] [''a''] 1 2 2 NoDevice False ?m0 = (r1, m1)" by force
  obtain r2 m2 where r2: "topk_indices_for_decode_batch [ex_path] [''a''] 1 2 2 NoDevice False m1 = (r2, m2)" by force
  note t1 = topk_cache_transparent [OF empty_memo_sound val key r1]
  note t2 = topk_cache_transparent [OF conjunct1 [OF conjunct2 [OF t1]] val key r2]
  have "memo_hits m2 = 1"
    using r1 r2 res by (auto simp: topk_indices_for_decode_batch_def key memo_get_def)
  then show ?thesis using t1 t2 r1 r2 res by auto
qed

end
