(* ===== verification/GR_Exec_Window.thy ===== *)
theory GR_Exec_Window
  imports GR_Pools
begin

text \<open>
  How the continuous executor of \<open>gr_serving/continuous.py\<close> picks the memory a decode batch runs over: the
  integer knobs it reads from the environment, the CUDA-graph batch bucket, and the window of
  adjacent pool slots that backs a batch. A captured graph runs with a fixed batch size, so a smaller
  batch is padded to its bucket and the kernel also writes the rows behind the batch: the theorems
  say that those rows are never the KV of another request.
\<close>

section \<open>Environment\<close>

type_synonym environ = "(string, string) dict"

text \<open>\<open>str.lower\<close> on the ASCII letters.\<close>

definition lower_char :: "char \<Rightarrow> char" where
  "lower_char c = (let n = (of_char c :: nat) in if 65 \<le> n \<and> n \<le> 90 then char_of (n + 32) else c)"

definition env_flag :: "environ \<Rightarrow> string \<Rightarrow> bool" where
  "env_flag env name \<longleftrightarrow>
     map lower_char (case map_of env name of None \<Rightarrow> [] | Some raw \<Rightarrow> raw) \<in> {''1'', ''true'', ''yes'', ''on''}"

definition env_int :: "environ \<Rightarrow> string \<Rightarrow> int \<Rightarrow> int py_result" where
  "env_int env name dflt =
     (case map_of env name of
        None \<Rightarrow> Inr dflt
      | Some raw \<Rightarrow>
          if raw = [] then Inr dflt
          else case parse_int raw of
            None \<Rightarrow> Inl (ValueError ''environment value must be an integer'')
          | Some n \<Rightarrow> if n < 0 then Inl (ValueError ''environment value must be non-negative'') else Inr n)"

text \<open>\<open>raw.split(",")\<close>.\<close>

fun split_on :: "char \<Rightarrow> string \<Rightarrow> string list" where
  "split_on sep [] = [[]]"
| "split_on sep (c # cs) =
     (if c = sep then [] # split_on sep cs
      else case split_on sep cs of [] \<Rightarrow> [[c]] | w # ws \<Rightarrow> (c # w) # ws)"

fun parse_parts :: "string list \<Rightarrow> int list py_result" where
  "parse_parts [] = Inr []"
| "parse_parts (part # parts) =
     (let text = py_strip part
      in if text = [] then parse_parts parts
         else case parse_int text of
           None \<Rightarrow> Inl (ValueError ''environment value must contain integers'')
         | Some n \<Rightarrow>
             if n \<le> 0 then Inl (ValueError ''environment entries must be positive'')
             else bind_res (parse_parts parts) (\<lambda>ns. Inr (n # ns)))"

definition env_int_tuple :: "environ \<Rightarrow> string \<Rightarrow> int list \<Rightarrow> int list py_result" where
  "env_int_tuple env name dflt =
     (case map_of env name of
        None \<Rightarrow> Inr dflt
      | Some raw \<Rightarrow>
          if py_strip raw = [] then Inr dflt
          else bind_res (parse_parts (split_on (CHR '','') (map (\<lambda>c. if c = CHR '';'' then CHR '','' else c) raw)))
                 (\<lambda>ns. Inr (sorted_list_of_set (set ns))))"

section \<open>Buckets and windows\<close>

definition decode_cuda_graph_bucket_for :: "int \<Rightarrow> int list \<Rightarrow> int" where
  "decode_cuda_graph_bucket_for actual buckets =
     (if actual \<le> 0 then actual
      else case find (\<lambda>bucket. bucket \<ge> actual) (sort buckets) of None \<Rightarrow> actual | Some bucket \<Rightarrow> bucket)"

definition slots_are_contiguous_prefix :: "int list \<Rightarrow> bool" where
  "slots_are_contiguous_prefix slots \<longleftrightarrow>
     slots \<noteq> [] \<and> slots = map (\<lambda>i. hd slots + i) (py_range (int (length slots)))"

text \<open>The leases of the states of a batch, unless one has none.\<close>

definition state_pool_leases :: "'l option list \<Rightarrow> 'l list option" where
  "state_pool_leases ls = (if ls = [] \<or> None \<in> set ls then None else Some (map the ls))"

definition pool_slots_available_for_padding :: "int \<Rightarrow> int set \<Rightarrow> int \<Rightarrow> int \<Rightarrow> int set \<Rightarrow> bool" where
  "pool_slots_available_for_padding first actual_slots bucket_size capacity leased_slots \<longleftrightarrow>
     (if first < 0 \<or> first + bucket_size > capacity then False
      else ({first..<first + bucket_size} - actual_slots) \<inter> leased_slots = {})"

definition pool_slot_window ::
  "('a GRBeamKVPoolLease_scheme) list \<Rightarrow> int option \<Rightarrow> int \<Rightarrow> int set \<Rightarrow> (int \<times> int) option" where
  "pool_slot_window ls batch_size capacity leased_slots =
     (let slots = map pool_slot ls
      in if \<not> slots_are_contiguous_prefix slots then None
         else let first = hd slots; width = (case batch_size of None \<Rightarrow> int (length slots) | Some n \<Rightarrow> n)
              in if batch_size \<noteq> None
                    \<and> \<not> pool_slots_available_for_padding first (set slots) width capacity leased_slots
                 then None else Some (first, width))"

definition leased_slots :: "('a GRBeamKVPoolLease_scheme) dense_pool \<Rightarrow> int set" where
  "leased_slots p = pool_slot ` set (dict_values (pool_leases p))"

text \<open>The window behind \<open>_beam_pool_view_for_states\<close>, and with the context length behind
  \<open>_context_pool_view_for_states\<close>; \<open>None\<close> for the pool is no pool.\<close>

definition beam_pool_window ::
  "GRBeamKVPoolLease dense_pool option \<Rightarrow> GRBeamKVPoolLease option list \<Rightarrow> int option \<Rightarrow> (int \<times> int) option" where
  "beam_pool_window pool ls batch_size =
     (case pool of
        None \<Rightarrow> None
      | Some p \<Rightarrow>
          (case state_pool_leases ls of
             None \<Rightarrow> None
           | Some granted \<Rightarrow> pool_slot_window granted batch_size (pool_capacity p) (leased_slots p)))"

definition context_pool_window ::
  "GRContextKVPoolLease dense_pool option \<Rightarrow> GRContextKVPoolLease option list \<Rightarrow> int option \<Rightarrow> (int \<times> int \<times> int) option" where
  "context_pool_window pool ls batch_size =
     (case pool of
        None \<Rightarrow> None
      | Some p \<Rightarrow>
          (case state_pool_leases ls of
             None \<Rightarrow> None
           | Some granted \<Rightarrow>
               (case remdups (map pool_context_len granted) of
                  [len] \<Rightarrow> map_option (\<lambda>(first, width). (first, width, len))
                             (pool_slot_window granted batch_size (pool_capacity p) (leased_slots p))
                | _ \<Rightarrow> None)))"

text \<open>The decision of \<open>_decode_cuda_graph_inputs\<close>: run the model, replay the graph over the batch's own
  rows, or replay it over a padded window; with the reason when it skips the graph.\<close>

datatype graph_plan =
    RunModel string
  | ReplayExact
  | ReplayPadded int "int \<times> int \<times> int" "int \<times> int"

definition decode_cuda_graph_plan ::
  "GRContextKVPoolLease dense_pool option \<Rightarrow> GRBeamKVPoolLease dense_pool option
   \<Rightarrow> GRContextKVPoolLease option list \<Rightarrow> GRBeamKVPoolLease option list \<Rightarrow> int list \<Rightarrow> int \<Rightarrow> graph_plan" where
  "decode_cuda_graph_plan ctx_pool beam_pool ctx_leases beam_leases buckets actual =
     (let bucket = decode_cuda_graph_bucket_for actual buckets
      in if bucket \<le> actual then
           (if context_pool_window ctx_pool ctx_leases None = None \<or> beam_pool_window beam_pool beam_leases None = None
            then RunModel ''pool_window'' else ReplayExact)
         else case context_pool_window ctx_pool ctx_leases (Some bucket) of
                None \<Rightarrow> RunModel ''padding_context_pool''
              | Some cw \<Rightarrow>
                  (case beam_pool_window beam_pool beam_leases (Some bucket) of
                     None \<Rightarrow> RunModel ''padding_beam_pool''
                   | Some bw \<Rightarrow> ReplayPadded bucket cw bw))"

section \<open>Buckets\<close>

lemma find_sorted_least:
  "sorted xs \<Longrightarrow> find P xs = Some x \<Longrightarrow> x \<in> set xs \<and> P x \<and> (\<forall>y \<in> set xs. P y \<longrightarrow> x \<le> y)"
  by (induction xs) (auto split: if_splits)

lemma bucket_spec:
  assumes "0 < actual"
  shows "actual \<le> decode_cuda_graph_bucket_for actual buckets"
    and "(\<forall>b \<in> set buckets. b < actual) \<Longrightarrow> decode_cuda_graph_bucket_for actual buckets = actual"
    and "b \<in> set buckets \<Longrightarrow> actual \<le> b \<Longrightarrow>
      decode_cuda_graph_bucket_for actual buckets \<in> set buckets \<and> decode_cuda_graph_bucket_for actual buckets \<le> b"
proof -
  let ?f = "find (\<lambda>bucket. bucket \<ge> actual) (sort buckets)"
  have d: "decode_cuda_graph_bucket_for actual buckets = (case ?f of None \<Rightarrow> actual | Some bucket \<Rightarrow> bucket)"
    using assms by (simp add: decode_cuda_graph_bucket_for_def)
  have least: "x \<in> set buckets \<and> actual \<le> x \<and> (\<forall>y \<in> set buckets. actual \<le> y \<longrightarrow> x \<le> y)" if "?f = Some x" for x
    using find_sorted_least [OF sorted_sort that] by simp
  have none: "?f = None \<longleftrightarrow> (\<forall>b \<in> set buckets. b < actual)" by (auto simp: find_None_iff)
  show "actual \<le> decode_cuda_graph_bucket_for actual buckets"
  proof (cases ?f)
    case None
    then show ?thesis using d by simp
  next
    case (Some x)
    then show ?thesis using d least [OF Some] by simp
  qed
  show "decode_cuda_graph_bucket_for actual buckets = actual" if "\<forall>b \<in> set buckets. b < actual"
    using d none that by simp
  show "decode_cuda_graph_bucket_for actual buckets \<in> set buckets \<and> decode_cuda_graph_bucket_for actual buckets \<le> b"
    if b: "b \<in> set buckets" "actual \<le> b"
  proof -
    have "?f \<noteq> None" unfolding none using b by force
    then obtain x where x: "?f = Some x" by blast
    then have "decode_cuda_graph_bucket_for actual buckets = x" unfolding d by simp
    then show ?thesis using least [OF x] b by blast
  qed
qed

section \<open>Windows\<close>

lemma contiguous_nth:
  assumes "slots_are_contiguous_prefix slots" and "i < length slots"
  shows "slots ! i = hd slots + int i"
proof -
  have "slots = map (\<lambda>i. hd slots + i) (py_range (int (length slots)))"
    using assms(1) by (simp add: slots_are_contiguous_prefix_def)
  then have "slots ! i = map (\<lambda>i. hd slots + i) (py_range (int (length slots))) ! i" by (rule arg_cong)
  then show ?thesis using assms(2) by simp
qed

lemma contiguous_set:
  assumes "slots_are_contiguous_prefix slots"
  shows "set slots = {hd slots..<hd slots + int (length slots)}"
proof -
  have "slots = map (\<lambda>i. hd slots + i) (py_range (int (length slots)))"
    using assms by (simp add: slots_are_contiguous_prefix_def)
  then have "set slots = (\<lambda>i. hd slots + i) ` {0..<int (length slots)}" by (metis set_map set_py_range)
  then show ?thesis by (simp add: image_add_atLeastLessThan add.commute)
qed

text \<open>Leases that are in force: each is the pool's own lease of its request.\<close>

definition in_force :: "('a GRBeamKVPoolLease_scheme) dense_pool \<Rightarrow> ('a GRBeamKVPoolLease_scheme) list \<Rightarrow> bool" where
  "in_force p ls \<longleftrightarrow> (\<forall>l \<in> set ls. map_of (pool_leases p) (pool_request_id l) = Some l)"

text \<open>A slot window: the batch's leases in order, inside the pool, and no other lease in it.\<close>

definition exclusive_window ::
  "('a GRBeamKVPoolLease_scheme) dense_pool \<Rightarrow> ('a GRBeamKVPoolLease_scheme) list \<Rightarrow> int \<Rightarrow> int \<Rightarrow> bool" where
  "exclusive_window p ls first width \<longleftrightarrow>
     0 \<le> first \<and> first + width \<le> pool_capacity p \<and> int (length ls) \<le> width
     \<and> (\<forall>i < length ls. pool_slot (ls ! i) = first + int i)
     \<and> (\<forall>(rid, l) \<in> set (pool_leases p). first \<le> pool_slot l \<and> pool_slot l < first + width \<longrightarrow> l \<in> set ls)"

lemma slots_partition:
  assumes "pool_inv p"
  shows "inj_on pool_slot (set (dict_values (pool_leases p)))"
    and "\<forall>(rid, l) \<in> set (pool_leases p). 0 \<le> pool_slot l \<and> pool_slot l < pool_capacity p"
proof -
  have part: "pages_partition (Some (pool_capacity p)) (free_slots p) (\<lambda>l. [pool_slot l]) (pool_leases p)"
    using assms by (simp add: pool_inv_def)
  have pages: "pages_of (\<lambda>l. [pool_slot l]) d = map (pool_slot \<circ> snd) d" for d :: "(string \<times> 'a GRBeamKVPoolLease_scheme) list"
    by (induction d) (auto simp: pages_of_def)
  have "distinct (map (pool_slot \<circ> snd) (pool_leases p))"
    using pages_partition_distinct(1) [OF part] unfolding pages distinct_append by blast
  then show "inj_on pool_slot (set (dict_values (pool_leases p)))" by (simp add: distinct_map inj_on_imageI)
  have "pool_slot l \<in> set (initial_free (Some (pool_capacity p)))" if "(rid, l) \<in> set (pool_leases p)" for rid l
    using pages_partition_distinct(2) [OF part] that by (force simp: pages)
  then show "\<forall>(rid, l) \<in> set (pool_leases p). 0 \<le> pool_slot l \<and> pool_slot l < pool_capacity p"
    by (fastforce simp: initial_free_def)
qed

lemma in_force_values:
  assumes "in_force p ls"
  shows "set ls \<subseteq> set (dict_values (pool_leases p))"
proof
  fix l assume "l \<in> set ls"
  then have "map_of (pool_leases p) (pool_request_id l) = Some l" using assms by (simp add: in_force_def)
  then have "(pool_request_id l, l) \<in> set (pool_leases p)" by (rule map_of_SomeD)
  then show "l \<in> set (dict_values (pool_leases p))" by force
qed

lemma unpadded_window:
  assumes inv: "pool_inv p" and "in_force p ls"
    and w: "pool_slot_window ls None (pool_capacity p) (leased_slots p) = Some (first, width)"
  shows "width = int (length ls) \<and> exclusive_window p ls first width"
proof -
  have c: "slots_are_contiguous_prefix (map pool_slot ls)" and f: "first = hd (map pool_slot ls)" and wd: "width = int (length ls)"
    using w by (auto simp: pool_slot_window_def Let_def split: if_splits)
  note vals = in_force_values [OF assms(2)] and part = slots_partition [OF inv]
  have nth: "pool_slot (ls ! i) = first + int i" if "i < length ls" for i
    using contiguous_nth [OF c, of i] that f by simp
  have ne: "ls \<noteq> []" using c by (simp add: slots_are_contiguous_prefix_def)
  have in_range: "0 \<le> pool_slot l \<and> pool_slot l < pool_capacity p" if "l \<in> set ls" for l
    using subsetD [OF vals that] part(2) by auto
  have "ls ! 0 \<in> set ls" and "ls ! (length ls - 1) \<in> set ls" using ne by simp_all
  then have "0 \<le> pool_slot (ls ! 0)" and "pool_slot (ls ! (length ls - 1)) < pool_capacity p" using in_range by blast+
  then have "0 \<le> first" and "first + int (length ls - 1) < pool_capacity p"
    using nth [of 0] nth [of "length ls - 1"] ne by simp_all
  moreover have "l \<in> set ls" if l: "(rid, l) \<in> set (pool_leases p)" "first \<le> pool_slot l" "pool_slot l < first + width" for rid l
  proof -
    have "pool_slot l \<in> set (map pool_slot ls)" using contiguous_set [OF c] l f wd by simp
    then obtain l' where l': "l' \<in> set ls" "pool_slot l' = pool_slot l" by auto
    have "l \<in> set (dict_values (pool_leases p))" using l(1) by force
    then have "l' = l" using inj_onD [OF part(1) l'(2)] vals l'(1) by blast
    then show ?thesis using l'(1) by simp
  qed
  ultimately show ?thesis using nth wd ne by (auto simp: exclusive_window_def)
qed

lemma padded_window:
  assumes inv: "pool_inv p" and "in_force p ls" and "int (length ls) \<le> bucket"
    and w: "pool_slot_window ls (Some bucket) (pool_capacity p) (leased_slots p) = Some (first, width)"
  shows "width = bucket \<and> exclusive_window p ls first width"
proof -
  have c: "slots_are_contiguous_prefix (map pool_slot ls)" and f: "first = hd (map pool_slot ls)" and wd: "width = bucket"
    and pad: "pool_slots_available_for_padding first (set (map pool_slot ls)) bucket (pool_capacity p) (leased_slots p)"
    using w by (auto simp: pool_slot_window_def Let_def split: if_splits)
  note vals = in_force_values [OF assms(2)] and part = slots_partition [OF inv]
  have nth: "pool_slot (ls ! i) = first + int i" if "i < length ls" for i
    using contiguous_nth [OF c, of i] that f by simp
  have bounds: "0 \<le> first" "first + bucket \<le> pool_capacity p"
    and free: "({first..<first + bucket} - set (map pool_slot ls)) \<inter> leased_slots p = {}"
    using pad by (auto simp: pool_slots_available_for_padding_def split: if_splits)
  have "l \<in> set ls" if l: "(rid, l) \<in> set (pool_leases p)" "first \<le> pool_slot l" "pool_slot l < first + width" for rid l
  proof -
    have v: "l \<in> set (dict_values (pool_leases p))" using l(1) by force
    then have "pool_slot l \<in> leased_slots p" by (simp add: leased_slots_def)
    then have "pool_slot l \<in> set (map pool_slot ls)" using free l wd by auto
    then obtain l' where l': "l' \<in> set ls" "pool_slot l' = pool_slot l" by auto
    then have "l' = l" using inj_onD [OF part(1) l'(2)] vals v by blast
    then show ?thesis using l'(1) by simp
  qed
  then show ?thesis using nth wd bounds assms(3) by (auto simp: exclusive_window_def)
qed

section \<open>The graph replays over the batch's own slots\<close>

lemma state_leases_some: "state_pool_leases ls = Some granted \<longleftrightarrow> ls = map Some granted \<and> granted \<noteq> []"
proof
  assume a: "state_pool_leases ls = Some granted"
  then have n: "None \<notin> set ls" "ls \<noteq> []" and g: "granted = map the ls" by (auto simp: state_pool_leases_def split: if_splits)
  have "map (Some \<circ> the) ls = ls" by (rule map_idI) (use n in \<open>metis comp_apply option.exhaust_sel\<close>)
  then show "ls = map Some granted \<and> granted \<noteq> []" using n g by simp
qed (auto simp: state_pool_leases_def)

lemma remdups_single:
  assumes "remdups xs = [x]"
  shows "set xs = {x}"
proof -
  have "set xs = set (remdups xs)" by simp
  then show ?thesis using assms by simp
qed

lemma context_window_cases:
  assumes "context_pool_window pool ls n = Some (first, width, len)"
  obtains p granted where "pool = Some p" and "ls = map Some granted"
    and "\<forall>l \<in> set granted. pool_context_len l = len"
    and "pool_slot_window granted n (pool_capacity p) (leased_slots p) = Some (first, width)"
proof -
  obtain p granted where p: "pool = Some p" "state_pool_leases ls = Some granted"
    using assms by (auto simp: context_pool_window_def split: option.splits)
  obtain x where x: "remdups (map pool_context_len granted) = [x]"
    and w: "map_option (\<lambda>(first, width). (first, width, x)) (pool_slot_window granted n (pool_capacity p) (leased_slots p)) = Some (first, width, len)"
    using assms p by (auto simp: context_pool_window_def split: list.splits)
  have lens: "set (map pool_context_len granted) = {len}" using remdups_single [OF x] w by auto
  have "\<forall>l \<in> set granted. pool_context_len l = len" using lens by (auto simp: set_eq_iff)
  moreover have "pool_slot_window granted n (pool_capacity p) (leased_slots p) = Some (first, width)" using w by auto
  ultimately show thesis using that p by (simp add: state_leases_some)
qed

lemma beam_window_cases:
  assumes "beam_pool_window pool ls n = Some (first, width)"
  obtains p granted where "pool = Some p" and "ls = map Some granted"
    and "pool_slot_window granted n (pool_capacity p) (leased_slots p) = Some (first, width)"
  using assms by (auto simp: beam_pool_window_def state_leases_some split: option.splits)

text \<open>A pool the executor holds: it keeps its invariant and the states' leases are its own.\<close>

definition pool_serves :: "('a GRBeamKVPoolLease_scheme) dense_pool option \<Rightarrow> ('a GRBeamKVPoolLease_scheme) option list \<Rightarrow> bool" where
  "pool_serves pool ls \<longleftrightarrow> (\<forall>p. pool = Some p \<longrightarrow> pool_inv p \<and> in_force p [l. Some l \<leftarrow> ls])"

lemma somes_map: "[l. Some l \<leftarrow> map Some xs] = xs"
  by (induction xs) auto

lemma context_window_exclusive:
  assumes "pool_serves pool ls" and "context_pool_window pool ls n = Some (first, width, len)"
    and "case n of None \<Rightarrow> True | Some b \<Rightarrow> int (length ls) \<le> b"
  shows "\<exists>p granted. pool = Some p \<and> ls = map Some granted \<and> (\<forall>l \<in> set granted. pool_context_len l = len)
    \<and> width = (case n of None \<Rightarrow> int (length ls) | Some b \<Rightarrow> b) \<and> exclusive_window p granted first width"
proof (rule context_window_cases [OF assms(2)])
  fix p granted
  assume w: "pool = Some p" "ls = map Some granted" "\<forall>l \<in> set granted. pool_context_len l = len"
    "pool_slot_window granted n (pool_capacity p) (leased_slots p) = Some (first, width)"
  have p: "pool_inv p" "in_force p granted" using assms(1) w(1,2) somes_map [of granted] by (simp_all add: pool_serves_def)
  show ?thesis
    using w assms(3) unpadded_window [OF p] padded_window [OF p] by (cases n) auto
qed

lemma beam_window_exclusive:
  assumes "pool_serves pool ls" and "beam_pool_window pool ls n = Some (first, width)"
    and "case n of None \<Rightarrow> True | Some b \<Rightarrow> int (length ls) \<le> b"
  shows "\<exists>p granted. pool = Some p \<and> ls = map Some granted
    \<and> width = (case n of None \<Rightarrow> int (length ls) | Some b \<Rightarrow> b) \<and> exclusive_window p granted first width"
proof (rule beam_window_cases [OF assms(2)])
  fix p granted
  assume w: "pool = Some p" "ls = map Some granted"
    "pool_slot_window granted n (pool_capacity p) (leased_slots p) = Some (first, width)"
  have p: "pool_inv p" "in_force p granted" using assms(1) w(1,2) somes_map [of granted] by (simp_all add: pool_serves_def)
  show ?thesis
    using w assms(3) unpadded_window [OF p] padded_window [OF p] by (cases n) auto
qed

text \<open>C16: a CUDA graph is replayed only over slots that are the batch's own or free. Whatever the plan for a
  batch of \<open>actual\<close> requests, the windows into both pools start with the batch's slots in order, lie
  inside the pools and meet no lease of a request outside the batch; an exact replay has as many rows
  as the batch, a padded one as many as the smallest configured bucket that holds it.\<close>

theorem graph_replay_never_touches_others:
  assumes "pool_serves ctx_pool ctx_leases" and "pool_serves beam_pool beam_leases"
    and "length ctx_leases = nat actual" and "length beam_leases = nat actual" and "0 < actual"
  shows "case decode_cuda_graph_plan ctx_pool beam_pool ctx_leases beam_leases buckets actual of
      RunModel _ \<Rightarrow> True
    | ReplayExact \<Rightarrow> \<exists>cp cs bp bs cf bf. ctx_pool = Some cp \<and> ctx_leases = map Some cs \<and> beam_pool = Some bp \<and> beam_leases = map Some bs
        \<and> exclusive_window cp cs cf actual \<and> exclusive_window bp bs bf actual
    | ReplayPadded bucket (cf, cw, len) (bf, bw) \<Rightarrow> bucket \<in> set buckets \<and> actual < bucket
        \<and> (\<forall>b \<in> set buckets. actual \<le> b \<longrightarrow> bucket \<le> b) \<and> cw = bucket \<and> bw = bucket
        \<and> (\<exists>cp cs bp bs. ctx_pool = Some cp \<and> ctx_leases = map Some cs \<and> beam_pool = Some bp \<and> beam_leases = map Some bs
            \<and> (\<forall>l \<in> set cs. pool_context_len l = len) \<and> exclusive_window cp cs cf bucket \<and> exclusive_window bp bs bf bucket)"
proof -
  have n: "int (length ctx_leases) = actual" "int (length beam_leases) = actual" using assms(3-5) by simp_all
  note bucket = bucket_spec [OF assms(5)]
  show ?thesis
  proof (cases "decode_cuda_graph_plan ctx_pool beam_pool ctx_leases beam_leases buckets actual")
    case (RunModel why)
    then show ?thesis by simp
  next
    case ReplayExact
    then obtain c b where w: "context_pool_window ctx_pool ctx_leases None = Some c" "beam_pool_window beam_pool beam_leases None = Some b"
      by (auto simp: decode_cuda_graph_plan_def Let_def split: if_splits option.splits)
    obtain cf cw len where c: "c = (cf, cw, len)" by (cases c)
    obtain bf bw where b: "b = (bf, bw)" by (cases b)
    show ?thesis
      using context_window_exclusive [OF assms(1) w(1) [unfolded c]] beam_window_exclusive [OF assms(2) w(2) [unfolded b]] n ReplayExact
      by auto
  next
    case (ReplayPadded bk c b)
    obtain cf cw len where c: "c = (cf, cw, len)" by (cases c)
    obtain bf bw where b: "b = (bf, bw)" by (cases b)
    have w: "context_pool_window ctx_pool ctx_leases (Some bk) = Some (cf, cw, len)" "beam_pool_window beam_pool beam_leases (Some bk) = Some (bf, bw)"
      and bk: "bk = decode_cuda_graph_bucket_for actual buckets" "actual < bk"
      using ReplayPadded c b by (auto simp: decode_cuda_graph_plan_def Let_def split: if_splits option.splits)
    obtain m where m: "m \<in> set buckets" "actual \<le> m" using bucket(2) bk by (force simp: not_less)
    have least: "bk \<in> set buckets \<and> (\<forall>b \<in> set buckets. actual \<le> b \<longrightarrow> bk \<le> b)" using bucket(3) m bk(1) by blast
    show ?thesis
      using context_window_exclusive [OF assms(1) w(1)] beam_window_exclusive [OF assms(2) w(2)] n ReplayPadded c b least bk(2)
      by auto
  qed
qed

text \<open>Two requests in the first two of four slots, and graphs captured for one and four rows.\<close>

definition ex_ctx_served :: "GRContextKVPoolLease dense_pool" where
  "ex_ctx_served = snd (context_pool_allocate_batch [''a'', ''b''] 3 ex_pool)"

definition ex_beam_served :: "GRBeamKVPoolLease dense_pool" where
  "ex_beam_served = snd (beam_pool_allocate ''b'' (snd (beam_pool_allocate ''a''
     \<lparr>pool_shape = [2, 4, 3, 2, 1, 8], free_slots = [0, 1, 2, 3], pool_leases = [],
      max_used_slots = 0, allocation_count = 0, release_count = 0\<rparr>)))"

lemma ex_served:
  "pool_serves (Some ex_ctx_served) [map_of (pool_leases ex_ctx_served) ''a'', map_of (pool_leases ex_ctx_served) ''b'']"
  "pool_serves (Some ex_beam_served) [map_of (pool_leases ex_beam_served) ''a'', map_of (pool_leases ex_beam_served) ''b'']"
proof -
  let ?p0 = "\<lparr>pool_shape = [2, 4, 3, 2, 1, 8], free_slots = [0, 1, 2, 3],
      pool_leases = [] :: (string \<times> GRBeamKVPoolLease) list, max_used_slots = 0, allocation_count = 0, release_count = 0\<rparr>"
  have made: "mk_dense_pool 6 [2, 4, 3, 2, 1, 8] [2, 4, 3, 2, 1, 8] = Inr ?p0" by code_simp
  have b0: "pool_inv ?p0" using mk_dense_pool_inv [OF made] by simp
  have b: "pool_inv ex_beam_served"
    unfolding ex_beam_served_def using beam_pool_allocate_cases [OF b0, of "''a''"] beam_pool_allocate_cases by blast
  have "pool_inv ex_pool" using mk_dense_pool_inv [OF ex_pool_made [unfolded mk_context_pool_def]] by simp
  then have c: "pool_inv ex_ctx_served"
    using pool_run_keeps [of ex_pool "[PoolAllocateBatch [''a'', ''b''] 3]"] by (simp add: ex_ctx_served_def)
  have "in_force ex_ctx_served [l. Some l \<leftarrow> [map_of (pool_leases ex_ctx_served) ''a'', map_of (pool_leases ex_ctx_served) ''b'']]"
    unfolding in_force_def by code_simp
  then show "pool_serves (Some ex_ctx_served) [map_of (pool_leases ex_ctx_served) ''a'', map_of (pool_leases ex_ctx_served) ''b'']"
    using c by (simp add: pool_serves_def)
  have "in_force ex_beam_served [l. Some l \<leftarrow> [map_of (pool_leases ex_beam_served) ''a'', map_of (pool_leases ex_beam_served) ''b'']]"
    unfolding in_force_def by code_simp
  then show "pool_serves (Some ex_beam_served) [map_of (pool_leases ex_beam_served) ''a'', map_of (pool_leases ex_beam_served) ''b'']"
    using b by (simp add: pool_serves_def)
qed

theorem graph_replay_never_touches_others_witness:
  "decode_cuda_graph_plan (Some ex_ctx_served) (Some ex_beam_served)
     [map_of (pool_leases ex_ctx_served) ''a'', map_of (pool_leases ex_ctx_served) ''b'']
     [map_of (pool_leases ex_beam_served) ''a'', map_of (pool_leases ex_beam_served) ''b''] [8, 4, 1] 2
     = ReplayPadded 4 (0, 4, 3) (0, 4)
   \<and> (\<exists>cs. exclusive_window ex_ctx_served cs 0 4)"
proof -
  have plan: "decode_cuda_graph_plan (Some ex_ctx_served) (Some ex_beam_served)
     [map_of (pool_leases ex_ctx_served) ''a'', map_of (pool_leases ex_ctx_served) ''b'']
     [map_of (pool_leases ex_beam_served) ''a'', map_of (pool_leases ex_beam_served) ''b''] [8, 4, 1] 2
     = ReplayPadded 4 (0, 4, 3) (0, 4)" by code_simp
  show ?thesis
    using graph_replay_never_touches_others [OF ex_served, of 2 "[8, 4, 1]"] unfolding plan by auto
qed

end
