(* ===== verification/GR_Beam_Metadata.thy ===== *)
theory GR_Beam_Metadata
  imports GR_Decode_Loop GR_Request
begin

text \<open>
  What a response says about its beams, \<open>gr_serving/beam_metadata.py\<close>: stop reasons over a request or a
  batch, item results, and the trace of every beam with its scores. The metadata dictionary holds
  the beam path object itself under \<open>_beam_path\<close>; here it is an argument beside the dictionary. A
  mapping with integer keys is a list of pairs.
\<close>

section \<open>Stop reasons\<close>

definition request_stop_token_ids :: "GRServingRequest \<Rightarrow> int list" where
  "request_stop_token_ids r =
     first_occurrences (stop_token_ids r
       @ (case item_mask_provider r of None \<Rightarrow> [] | Some p \<Rightarrow> provider_stop_token_ids p))"

definition request_selection_all_stop :: "GRServingRequest \<Rightarrow> int list \<Rightarrow> bool" where
  "request_selection_all_stop r tokens = selection_all_stop tokens (request_stop_token_ids r)"

definition request_selection_all_item_complete :: "GRServingRequest \<Rightarrow> BeamPath \<Rightarrow> int \<Rightarrow> bool py_result" where
  "request_selection_all_item_complete r path beam_width =
     (case item_mask_provider r of
        None \<Rightarrow> Inr False
      | Some p \<Rightarrow>
          if steps_done path = 0 then Inr False
          else if beam_width > 0 then all_complete p path (py_range beam_width) else Inr False)"

definition request_selection_stop_reason :: "GRServingRequest \<Rightarrow> BeamPath \<Rightarrow> int list \<Rightarrow> string option py_result" where
  "request_selection_stop_reason r path tokens =
     (if request_selection_all_stop r tokens then Inr (Some ''stop_token'')
      else bind_res (request_selection_all_item_complete r path (int (length tokens))) (\<lambda>complete.
             Inr (if complete then Some ''item_complete'' else None)))"

text \<open>\<open>zip(requests, token_ids)\<close>, with the path of the same index.\<close>

fun stop_reasons :: "GRServingRequest list \<Rightarrow> BeamPath list \<Rightarrow> int list list \<Rightarrow> string option list py_result" where
  "stop_reasons (r # rs) (p # ps) (row # rows) =
     bind_res (request_selection_stop_reason r p row) (\<lambda>reason.
     bind_res (stop_reasons rs ps rows) (\<lambda>reasons. Inr (reason # reasons)))"
| "stop_reasons (r # rs) [] (row # rows) = Inl (IndexError ''tuple index out of range'')"
| "stop_reasons _ _ _ = Inr []"

definition batched_selection_stop_reason ::
  "GRServingRequest list \<Rightarrow> BeamPath list \<Rightarrow> int list list \<Rightarrow> string option py_result" where
  "batched_selection_stop_reason rs ps rows =
     bind_res (stop_reasons rs ps rows) (\<lambda>reasons.
       Inr (if reasons \<noteq> [] \<and> list_all (\<lambda>x. x = Some ''stop_token'') reasons then Some ''stop_token''
            else if reasons \<noteq> [] \<and> list_all (\<lambda>x. x \<in> {Some ''stop_token'', Some ''item_complete''}) reasons
            then Some ''item_complete'' else None))"

section \<open>Results and details of beams\<close>

fun metadata_policy_type :: "beam_width_policy \<Rightarrow> string" where
  "metadata_policy_type (FixedBeamPolicy _) = ''FixedBeamPolicy''"
| "metadata_policy_type (ScheduledBeamPolicy _) = ''ScheduledBeamPolicy''"
| "metadata_policy_type (ScoreMarginBeamPolicy _) = ''ScoreMarginBeamPolicy''"

definition beam_width_policy_metadata :: "beam_width_policy \<Rightarrow> (string, pyval) dict" where
  "beam_width_policy_metadata p =
     [(''type'', PStr (metadata_policy_type p)),
      (''widths'', PList (map (\<lambda>(k, w). PList [PInt k, PInt w]) (policy_widths p)))]"

definition item_result_value :: "item_result \<Rightarrow> pyval" where
  "item_result_value r = PDict
     [(''rank'', PInt (result_rank r)), (''token_ids'', PList (map PInt (result_token_ids r))),
      (''semantic_token_ids'', PList (map PInt (result_semantic_ids r))), (''is_complete'', PBool (result_complete r)),
      (''item_ids'', PList (result_item_ids r)), (''item_id'', result_item_id r)]"

definition attach_item_results ::
  "GRServingRequest \<Rightarrow> BeamPath option \<Rightarrow> int \<Rightarrow> (string, pyval) dict \<Rightarrow> (string, pyval) dict py_result" where
  "attach_item_results r path_opt beam_width metadata =
     (case (path_opt, item_mask_provider r) of
        (Some path, Some p) \<Rightarrow>
          bind_res (beam_item_results p path beam_width) (\<lambda>rows.
            Inr (dict_set ''item_results'' (PList (map item_result_value rows)) metadata))
      | _ \<Rightarrow> Inr metadata)"

definition beam_result_value :: "beam_result \<Rightarrow> pyval" where
  "beam_result_value r = PDict
     [(''output_ids'', PList (map PInt (output_ids r))), (''text'', PStr []),
      (''meta_info'', PDict [(''finish_reason'', PStr (finish_reason r)), (''sequence_score'', PFloat (sequence_score r))])]"

text \<open>One beam in detail: tokens, parents, scores and, when they were recorded, log-probabilities.\<close>

fun detail_loop ::
  "pyfloat list list option \<Rightarrow> BeamPath \<Rightarrow> int list \<Rightarrow> int \<Rightarrow> (int list \<times> int list \<times> pyfloat list \<times> pyfloat list) py_result" where
  "detail_loop logprobs path [] beam = Inr ([], [], [], [])"
| "detail_loop logprobs path (step # steps) beam =
     bind_res (py_get (entries path) step) (\<lambda>e.
     bind_res (py_get (token_ids e) beam) (\<lambda>t.
     bind_res (py_get (parent_beams e) beam) (\<lambda>p.
     bind_res (py_get (scores e) beam) (\<lambda>s.
     bind_res (case logprobs of
                 None \<Rightarrow> Inr []
               | Some rows \<Rightarrow> bind_res (py_get rows step) (\<lambda>row. bind_res (py_get row beam) (\<lambda>x. Inr [x]))) (\<lambda>lp.
     bind_res (detail_loop logprobs path steps p) (\<lambda>(ts, ps, ss, lps). Inr (t # ts, p # ps, s # ss, lp @ lps)))))))"

record beam_detail =
  detail_rank :: int
  detail_token_ids :: "int list"
  detail_parent_beams :: "int list"
  detail_score_trace :: "pyfloat list"
  detail_cumulative_score :: pyfloat
  detail_score_type :: string
  detail_token_logprobs :: "pyfloat list option"
  detail_logprob_sum :: "pyfloat option"

definition single_beam_detail ::
  "BeamPath \<Rightarrow> int \<Rightarrow> int \<Rightarrow> pyfloat list list option \<Rightarrow> string \<Rightarrow> beam_detail py_result" where
  "single_beam_detail path beam rank logprobs score_type =
     bind_res (detail_loop logprobs path (rev (py_range (steps_done path))) beam) (\<lambda>(ts, ps, ss, lps).
       Inr \<lparr>detail_rank = rank, detail_token_ids = rev ts, detail_parent_beams = rev ps, detail_score_trace = rev ss,
            detail_cumulative_score = (if ss = [] then Fin 0 else last (rev ss)), detail_score_type = score_type,
            detail_token_logprobs = (if logprobs = None then None else Some (rev lps)),
            detail_logprob_sum = (if logprobs = None then None else Some (foldl fadd (Fin 0) (rev lps)))\<rparr>)"

definition beam_details ::
  "BeamPath \<Rightarrow> int \<Rightarrow> pyfloat list list option \<Rightarrow> string \<Rightarrow> beam_detail list py_result" where
  "beam_details path beam_width logprobs score_type =
     map_res (\<lambda>beam. single_beam_detail path beam beam logprobs score_type) (py_range beam_width)"

definition batch_token_logprob_steps ::
  "pyfloat list list list option \<Rightarrow> int \<Rightarrow> pyfloat list list option py_result" where
  "batch_token_logprob_steps logprobs batch_idx =
     (case logprobs of
        None \<Rightarrow> Inr None
      | Some steps \<Rightarrow> bind_res (map_res (\<lambda>step. py_get step batch_idx) steps) (\<lambda>rows. Inr (Some rows)))"

definition batched_beam_details ::
  "BeamPath list \<Rightarrow> int \<Rightarrow> int \<Rightarrow> pyfloat list list list option \<Rightarrow> string \<Rightarrow> beam_detail list py_result" where
  "batched_beam_details paths batch_idx beam_width logprobs score_type =
     bind_res (py_get paths batch_idx) (\<lambda>path.
     bind_res (batch_token_logprob_steps logprobs batch_idx) (\<lambda>rows. beam_details path beam_width rows score_type))"

definition beam_score_type :: "string \<Rightarrow> string" where
  "beam_score_type mode =
     (if mode = ''logprob'' then ''beam_score_logprob_cumulative'' else ''beam_score_raw_logits_cumulative'')"

text \<open>The values of a detail, and of the \<open>details\<close> tuple, in the metadata.\<close>

definition beam_detail_value :: "beam_detail \<Rightarrow> pyval" where
  "beam_detail_value d = PDict
     ([(''rank'', PInt (detail_rank d)), (''token_ids'', PList (map PInt (detail_token_ids d))),
       (''parent_beams'', PList (map PInt (detail_parent_beams d))), (''score_trace'', PList (map PFloat (detail_score_trace d))),
       (''cumulative_score'', PFloat (detail_cumulative_score d)), (''score_type'', PStr (detail_score_type d))]
      @ (case (detail_token_logprobs d, detail_logprob_sum d) of
           (Some lps, Some lsum) \<Rightarrow>
             [(''token_logprobs'', PList (map PFloat lps)), (''logprob_sum'', PFloat lsum), (''logprob_type'', PStr ''token_logsoftmax'')]
         | _ \<Rightarrow> []))"

section \<open>Log-probabilities of the selected tokens\<close>

definition selected_initial_token_logprobs :: "torch_ops \<Rightarrow> pyfloat tensor \<Rightarrow> int list \<Rightarrow> pyfloat list py_result" where
  "selected_initial_token_logprobs T logits tokens =
     bind_res (last_scores logits) (\<lambda>(b, v, xs).
     bind_res (py_get (split_rows b v xs) 0) (\<lambda>row.
       map_res (\<lambda>t. py_get (torch_log_softmax T row) t) tokens))"

definition selected_initial_token_logprobs_batched ::
  "torch_ops \<Rightarrow> pyfloat tensor \<Rightarrow> BatchedBeamSelection \<Rightarrow> pyfloat list list py_result" where
  "selected_initial_token_logprobs_batched T logits sel =
     bind_res (last_scores logits) (\<lambda>(b, v, xs).
       map_res (\<lambda>(i, tokens). bind_res (py_get (split_rows b v xs) i) (\<lambda>row.
           map_res (\<lambda>t. py_get (torch_log_softmax T row) t) tokens))
         (zip (py_range (int (length (sel_token_ids sel)))) (sel_token_ids sel)))"

definition selected_decode_token_logprobs ::
  "torch_ops \<Rightarrow> pyfloat tensor \<Rightarrow> BatchedBeamSelection \<Rightarrow> pyfloat list list py_result" where
  "selected_decode_token_logprobs T logits sel =
     (case tensor_shape logits of
        [b, w, v] \<Rightarrow>
          (let rows = split_rows (b * w) v (tensor_data logits); beams = split_rows b w rows;
               picks = zip (sel_parent_beams sel) (sel_token_ids sel)
           in map_res (\<lambda>(i, parents, tokens). bind_res (py_get beams i) (\<lambda>block.
                map_res (\<lambda>(p, t). bind_res (py_get block p) (\<lambda>row. py_get (torch_log_softmax T row) t)) (zip parents tokens)))
              (zip (py_range (int (length picks))) picks))
      | _ \<Rightarrow> Inl (IndexError ''too many indices for tensor''))"

section \<open>Normalised results\<close>

fun py_truthy :: "pyval \<Rightarrow> bool" where
  "py_truthy PNone = False"
| "py_truthy (PBool b) = b"
| "py_truthy (PInt n) = (n \<noteq> 0)"
| "py_truthy (PFloat x) = (x \<noteq> Fin 0)"
| "py_truthy (PStr s) = (s \<noteq> [])"
| "py_truthy (PList xs) = (xs \<noteq> [])"
| "py_truthy (PDict d) = (d \<noteq> [])"

text \<open>\<open>dict(value or {})\<close> of a mapping; of anything else that is not empty it raises.\<close>

definition dict_or_empty :: "pyval option \<Rightarrow> (string, pyval) dict py_result" where
  "dict_or_empty v =
     (case v of
        Some (PDict d) \<Rightarrow> Inr d
      | Some x \<Rightarrow> if py_truthy x then Inl (TypeError ''cannot convert to a dictionary'') else Inr []
      | None \<Rightarrow> Inr [])"

text \<open>One existing row; a row that is no mapping, or has no list of output ids, is skipped. \<open>str_of\<close> is Python's \<open>str\<close>.\<close>

definition normalize_row :: "(pyval \<Rightarrow> string) \<Rightarrow> int \<Rightarrow> pyval \<Rightarrow> pyval list py_result" where
  "normalize_row str_of max_new_tokens row =
     (case row of
        PDict d \<Rightarrow>
          (case map_of d ''output_ids'' of
             Some (PList ids) \<Rightarrow>
               bind_res (map_res py_int (py_take max_new_tokens ids)) (\<lambda>ns.
               bind_res (dict_or_empty (map_of d ''meta_info'')) (\<lambda>meta.
                 Inr [PDict [(''output_ids'', PList (map PInt ns)),
                             (''text'', PStr (case map_of d ''text'' of None \<Rightarrow> [] | Some t \<Rightarrow> str_of t)),
                             (''meta_info'', PDict meta)]]))
           | _ \<Rightarrow> Inr [])
      | _ \<Rightarrow> Inr [])"

definition normalized_beam_results_from_metadata ::
  "(pyval \<Rightarrow> string) \<Rightarrow> (string, pyval) dict \<Rightarrow> BeamPath option \<Rightarrow> int \<Rightarrow> pyval list py_result" where
  "normalized_beam_results_from_metadata str_of metadata path_opt max_new_tokens =
     (case map_of metadata ''beam_results'' of
        Some (PList rows) \<Rightarrow> bind_res (map_res (normalize_row str_of max_new_tokens) rows) (\<lambda>rs. Inr (concat rs))
      | _ \<Rightarrow>
          bind_res (case map_of metadata ''active_beam_width'' of
                      Some v \<Rightarrow> if py_truthy v then py_int v else Inr 0
                    | None \<Rightarrow> Inr 0) (\<lambda>beam_width.
            let stop_reason = (case map_of metadata ''stop_reason'' of None \<Rightarrow> ''max_decode_steps'' | Some v \<Rightarrow> str_of v)
            in case path_opt of
                 None \<Rightarrow> Inr []
               | Some path \<Rightarrow>
                   if beam_width \<le> 0 then Inr []
                   else bind_res (beam_results path beam_width stop_reason (Some max_new_tokens)) (\<lambda>rs.
                          Inr (map beam_result_value rs))))"

section \<open>The reported traces\<close>

lemma detail_loop_result:
  "detail_loop None p steps b = Inr (ts, ps, ss, lps) \<Longrightarrow> (\<forall>s \<in> set steps. 0 \<le> s \<and> s < steps_done p) \<Longrightarrow>
   result_loop (map (\<lambda>s. entries p ! nat s) steps) b = Inr (ts, ss) \<and> lps = []"
  by (induction steps arbitrary: b ts ps ss lps) (fastforce simp: steps_done_def)+

lemma py_range_Suc: "py_range (int (Suc n)) = py_range (int n) @ [int n]"
  by (simp add: py_range_def upto_rec2)

lemma map_py_range_nth: "map (\<lambda>s. xs ! nat s) (py_range (int (length xs))) = xs"
  by (rule nth_equalityI) simp_all

lemma detail_loop_runs:
  assumes "wf_path p"
  shows "0 \<le> b \<Longrightarrow> b < last_width 1 (take n (entries p)) \<Longrightarrow> n \<le> length (entries p) \<Longrightarrow>
    \<exists>r. detail_loop None p (rev (py_range (int n))) b = Inr r"
proof (induction n arbitrary: b)
  case 0
  then show ?case by (simp add: py_range_def)
next
  case (Suc n)
  let ?e = "entries p ! n"
  have n: "n < length (entries p)" using Suc.prems(3) by simp
  have wf: "wf_entries (path_beam_width p) 1 (entries p)" using assms by (simp add: wf_path_def)
  note facts = wf_entries_nth [OF wf n]
  have w: "b < entry_width ?e" using Suc.prems(2) last_width_take [OF n] by simp
  have par: "0 \<le> parent_beams ?e ! nat b" "parent_beams ?e ! nat b < last_width 1 (take n (entries p))"
    using facts Suc.prems(1) w by (auto simp: entry_width_def)
  obtain ts ps ss lps where ih: "detail_loop None p (rev (py_range (int n))) (parent_beams ?e ! nat b) = Inr (ts, ps, ss, lps)"
    using Suc.IH [OF par] n by auto
  have "rev (py_range (int (Suc n))) = int n # rev (py_range (int n))" unfolding py_range_Suc by simp
  then show ?case using ih facts Suc.prems(1) w n by (simp add: entry_width_def)
qed

text \<open>the detail a response gives of a beam tells the same story as its trace: the tokens are its
  \<open>token_trace\<close>, the score trace has one score per step and ends in the cumulative score, which is the
  score the result row reports.\<close>

theorem beam_detail_matches_trace:
  assumes "wf_path p" and "entries p \<noteq> []" and "0 \<le> b" and "b < active_beam_width p"
  shows "\<exists>d r. single_beam_detail p b rank None score_type = Inr d \<and> single_beam_result p b reason None = Inr r
    \<and> token_trace p b None = Inr (detail_token_ids d) \<and> output_ids r = detail_token_ids d
    \<and> length (detail_score_trace d) = length (entries p) \<and> last (detail_score_trace d) = detail_cumulative_score d
    \<and> detail_cumulative_score d = sequence_score r \<and> sequence_score r = scores (last (entries p)) ! nat b"
proof -
  let ?es = "entries p"
  have w: "b < last_width 1 (take (length ?es) ?es)" using assms(4) by (simp add: active_beam_width_last)
  obtain ts ps ss lps where d: "detail_loop None p (rev (py_range (int (length ?es)))) b = Inr (ts, ps, ss, lps)"
    using detail_loop_runs [OF assms(1,3) w] by auto
  have "map (\<lambda>s. ?es ! nat s) (rev (py_range (int (length ?es)))) = rev ?es"
    by (simp only: rev_map [symmetric] map_py_range_nth)
  then have "result_loop (rev ?es) b = Inr (ts, ss)"
    using detail_loop_result [OF d] by (auto simp: steps_done_def)
  moreover obtain ss' where "result_loop (rev ?es) b = Inr (rev (hyps ?es ! nat b), ss')" "length ss' = length ?es"
    "hd ss' = scores (last ?es) ! nat b"
    using result_loop_hyps [of "path_beam_width p" ?es b] assms by (auto simp: wf_path_def active_beam_width_last)
  ultimately have r: "result_loop (rev ?es) b = Inr (ts, ss)" "rev ts = hyps ?es ! nat b" "length ss = length ?es"
    "hd ss = scores (last ?es) ! nat b" by auto
  have ne: "ss \<noteq> []" using r(3) assms(2) by auto
  have "last (rev ss) = scores (last ?es) ! nat b" using r(4) ne by (simp add: last_rev)
  then show ?thesis
    using token_trace_hyps [OF assms] d r ne
    by (simp add: single_beam_detail_def single_beam_result_def steps_done_def)
qed

theorem beam_detail_matches_trace_witness:
  "\<exists>d. single_beam_detail ex_path 1 1 None ''s'' = Inr d \<and> token_trace ex_path 1 None = Inr (detail_token_ids d)"
  using beam_detail_matches_trace [of ex_path 1 1 "''s''" "''stop_token''"]
  by (auto simp: wf_path_def ex_path_def entry_width_def steps_done_def active_beam_width_def)

end
