(* ===== verification/GR_Exec_Decode.thy ===== *)
theory GR_Exec_Decode
  imports GR_Exec_Cache GR_Exec_Window GR_Beam_Metadata GR_Continuous GR_Prefix_Cache
begin

text \<open>
  The decode half of \<open>GRContinuousServingExecutor\<close> in \<open>gr_serving/continuous.py\<close>: one planned decode batch is
  stacked, sent through the model in one step, and its selections are appended to the beam paths of
  its requests. There are two routes. The general one works on Python tuples and handles masks,
  policies, processors and stop tokens. The tensor route keeps the selections of plain requests on
  the device, as pending tensors, and appends them to the beam path only when the request finishes.
  The model's forward step is a parameter: it gets the tokens, the stacked prompt and beam KV, the
  step, the width, the index tensor and the number of decode steps. Kept apart from the scheduler's
  state, a request's fields that only the executor uses form the record \<open>GRRequestRuntime\<close>; one-dimensional
  device tensors are lists. Elapsed times are the entries of \<open>ex_timing\<close>, which nothing here changes.
\<close>

section \<open>State\<close>

record 'v GRRequestRuntime =
  rt_generation :: "'v GRGenerationState option"
  rt_token_logprob_steps :: "pyfloat list list option"
  rt_beam_lease :: "GRBeamKVPoolLease option"
  rt_context_lease :: "GRContextKVPoolLease option"
  decode_selection_token_ids :: "int list option"
  decode_selection_scores :: "pyfloat list option"
  decode_parent_history :: "int list list"
  pending_decode_token_ids :: "int list list"
  pending_decode_scores :: "pyfloat list list"
  pending_decode_parent_beams :: "int list list"

definition new_runtime :: "'v GRRequestRuntime" where
  "new_runtime = \<lparr>rt_generation = None, rt_token_logprob_steps = None, rt_beam_lease = None, rt_context_lease = None,
     decode_selection_token_ids = None, decode_selection_scores = None, decode_parent_history = [],
     pending_decode_token_ids = [], pending_decode_scores = [], pending_decode_parent_beams = []\<rparr>"

text \<open>What does not change: the engine's configuration, the device, the logits processors of each request,
  which \<open>GR_Request\<close> keeps only as flags, and where torch put the requests' tensors (\<open>cfg_adjacent\<close>: adjacent
  views of one storage, in order).\<close>

record executor_config =
  cfg_max_beam_width :: int
  cfg_score_mode :: string
  cfg_return_beam_details :: bool
  cfg_num_q_heads :: int
  cfg_device :: device
  cfg_on_cuda :: bool
  cfg_env :: environ
  cfg_processors :: "string \<Rightarrow> logits_processor list"
  cfg_processor_type :: string
  cfg_adjacent :: "string list \<Rightarrow> bool"

text \<open>What the prefill counts about the prompt cache.\<close>

record prefill_counts =
  cache_hits :: int
  exact_hits :: int
  prefix_hits :: int
  cache_misses :: int
  prefix_tokens :: int
  extend_tokens :: int
  cache_skips :: int

record 'v executor =
  ex_scheduler :: sched
  ex_runtime :: "(string, 'v GRRequestRuntime) dict"
  ex_beam_pool :: "GRBeamKVPoolLease dense_pool option"
  ex_context_pool :: "GRContextKVPoolLease dense_pool option"
  ex_topk_cache :: "(topk_key, int list list list list list) memo"
  ex_inputs_cache :: "(inputs_key, BatchedDecodeInputs) memo"
  ex_prefill_batches :: "(string list, 'v PrefillResult) dict"
  ex_prefill_cache :: "'v PrefillResult prefix_cache"
  ex_prefill_counts :: prefill_counts
  ex_timing :: "(string, pyval) dict"

type_synonym ('v, 'a) exec_result = "'a py_result \<times> 'v executor"

definition runtime_of :: "string \<Rightarrow> 'v executor \<Rightarrow> 'v GRRequestRuntime" where
  "runtime_of rid x = (case map_of (ex_runtime x) rid of None \<Rightarrow> new_runtime | Some rt \<Rightarrow> rt)"

definition set_runtime :: "string \<Rightarrow> 'v GRRequestRuntime \<Rightarrow> 'v executor \<Rightarrow> 'v executor" where
  "set_runtime rid rt x = x\<lparr>ex_runtime := dict_set rid rt (ex_runtime x)\<rparr>"

text \<open>\<open>_require_generation\<close> and \<open>_current_batched_selection\<close>.\<close>

definition require_generation :: "'v GRRequestRuntime \<Rightarrow> 'v GRGenerationState py_result" where
  "require_generation rt =
     (case rt_generation rt of None \<Rightarrow> Inl (ValueError ''request has not run prefill'') | Some g \<Rightarrow> Inr g)"

definition current_batched_selection :: "'v GRGenerationState list \<Rightarrow> BatchedBeamSelection py_result" where
  "current_batched_selection gens =
     bind_res (map_res (\<lambda>g. let es = entries (gen_beam_path g)
                 in if es = [] then Inl (ValueError ''request has no initialized beams'') else Inr (last es)) gens) (\<lambda>es.
       Inr (tuple_selection (map token_ids es) (map scores es) (map parent_beams es)))"

section \<open>Pending selections\<close>

text \<open>\<open>_initialize_decode_tensor_state\<close>.\<close>

definition initialize_decode_tensor_state :: "'v GRRequestRuntime \<Rightarrow> 'v GRRequestRuntime py_result" where
  "initialize_decode_tensor_state rt =
     bind_res (require_generation rt) (\<lambda>g.
       if entries (gen_beam_path g) = [] then Inr rt
       else let e = last (entries (gen_beam_path g))
            in Inr (rt\<lparr>decode_selection_token_ids := Some (token_ids e), decode_selection_scores := Some (scores e),
                       decode_parent_history := [parent_beams e], pending_decode_token_ids := [],
                       pending_decode_scores := [], pending_decode_parent_beams := []\<rparr>))"

text \<open>\<open>_flush_pending_decode_tensor_selections\<close>: append every pending selection; an exception leaves the ones
  before it appended.\<close>

fun flush_loop ::
  "BeamPath \<Rightarrow> (int list \<times> int list \<times> pyfloat list) list \<Rightarrow> int list \<times> pyfloat list
   \<Rightarrow> (int list \<times> pyfloat list) py_result \<times> BeamPath" where
  "flush_loop path [] final = (Inr final, path)"
| "flush_loop path ((parents, tokens, scs) # pend) final =
     (case path_append path parents tokens scs of
        Inl e \<Rightarrow> (Inl e, path)
      | Inr path' \<Rightarrow> flush_loop path' pend (tokens, scs))"

definition pending_selections :: "'v GRRequestRuntime \<Rightarrow> (int list \<times> int list \<times> pyfloat list) list" where
  "pending_selections rt =
     zip (pending_decode_parent_beams rt) (zip (pending_decode_token_ids rt) (pending_decode_scores rt))"

definition clear_pending :: "'v GRRequestRuntime \<Rightarrow> 'v GRRequestRuntime" where
  "clear_pending rt = rt\<lparr>pending_decode_parent_beams := [], pending_decode_token_ids := [], pending_decode_scores := []\<rparr>"

definition flush_selections ::
  "(int list \<times> int list \<times> pyfloat list) list \<Rightarrow> 'v GRRequestRuntime
   \<Rightarrow> (int list \<times> pyfloat list) py_result \<times> 'v GRRequestRuntime" where
  "flush_selections pend rt =
     (case rt_generation rt of
        None \<Rightarrow> (Inr ([], []), rt)
      | Some g \<Rightarrow>
          (let es = entries (gen_beam_path g)
           in if es = [] then (Inl (IndexError ''list index out of range''), rt)
              else case flush_loop (gen_beam_path g) pend (token_ids (last es), scores (last es)) of
                     (Inl e, path) \<Rightarrow> (Inl e, rt\<lparr>rt_generation := Some (g\<lparr>gen_beam_path := path\<rparr>)\<rparr>)
                   | (Inr final, path) \<Rightarrow>
                       (Inr final, clear_pending (rt\<lparr>rt_generation := Some (g\<lparr>gen_beam_path := path\<rparr>)\<rparr>))))"

definition flush_pending :: "'v GRRequestRuntime \<Rightarrow> (int list \<times> pyfloat list) py_result \<times> 'v GRRequestRuntime" where
  "flush_pending rt = flush_selections (pending_selections rt) rt"

fun flush_each :: "'v GRRequestRuntime list \<Rightarrow> (int list \<times> pyfloat list) list py_result \<times> 'v GRRequestRuntime list" where
  "flush_each [] = (Inr [], [])"
| "flush_each (rt # rts) =
     (case flush_pending rt of
        (Inl e, rt') \<Rightarrow> (Inl e, rt' # rts)
      | (Inr row, rt') \<Rightarrow> (case flush_each rts of
            (Inl e, rts') \<Rightarrow> (Inl e, rt' # rts')
          | (Inr rows, rts') \<Rightarrow> (Inr (row # rows), rt' # rts')))"

text \<open>The batched flush copies all pending rows to the host at once; rows that do not stack send it back to the
  one-by-one flush.\<close>

definition same_lengths :: "'a list list \<Rightarrow> bool" where
  "same_lengths rows \<longleftrightarrow> (\<forall>row \<in> set rows. length row = length (hd rows))"

definition stack_rows :: "'a list list \<Rightarrow> 'a list list py_result" where
  "stack_rows rows =
     (if same_lengths rows then Inr rows else Inl (RuntimeError ''stack expects each tensor to be equal size''))"

definition stack_pending_decode_field :: "('r \<Rightarrow> 'a list list) \<Rightarrow> 'r list \<Rightarrow> nat \<Rightarrow> 'a list list list py_result" where
  "stack_pending_decode_field field rts steps = map_res (\<lambda>step. stack_rows (map (\<lambda>rt. field rt ! step) rts)) [0..<steps]"

fun flush_stacked ::
  "(int list \<times> int list \<times> pyfloat list) list list \<Rightarrow> 'v GRRequestRuntime list
   \<Rightarrow> (int list \<times> pyfloat list) list py_result \<times> 'v GRRequestRuntime list" where
  "flush_stacked (pend # pends) (rt # rts) =
     (case flush_selections pend rt of
        (Inl e, rt') \<Rightarrow> (Inl e, rt' # rts)
      | (Inr row, rt') \<Rightarrow> (case flush_stacked pends rts of
            (Inl e, rts') \<Rightarrow> (Inl e, rt' # rts')
          | (Inr rows, rts') \<Rightarrow> (Inr (row # rows), rt' # rts')))"
| "flush_stacked _ rts = (Inr [], rts)"

definition flush_batch ::
  "'v GRRequestRuntime list \<Rightarrow> (int list \<times> pyfloat list) list py_result \<times> 'v GRRequestRuntime list" where
  "flush_batch rts =
     (case rts of
        [] \<Rightarrow> (Inr [], [])
      | rt # _ \<Rightarrow>
          (let n = length (pending_decode_token_ids rt) in
           if n = 0 \<or> (\<exists>s \<in> set rts. length (pending_decode_token_ids s) \<noteq> n)
              \<or> (\<exists>s \<in> set rts. length (pending_decode_scores s) \<noteq> n)
              \<or> (\<exists>s \<in> set rts. length (pending_decode_parent_beams s) \<noteq> n)
           then flush_each rts
           else case (stack_pending_decode_field pending_decode_parent_beams rts n,
                      stack_pending_decode_field pending_decode_token_ids rts n,
                      stack_pending_decode_field pending_decode_scores rts n) of
             (Inr parents, Inr tokens, Inr scs) \<Rightarrow>
               flush_stacked (map (\<lambda>b. map (\<lambda>step. (parents ! step ! b, tokens ! step ! b, scs ! step ! b)) [0..<n]) [0..<length rts]) rts
           | _ \<Rightarrow> flush_each rts))"

section \<open>The batch\<close>

text \<open>\<open>_cat_tensors\<close> along the batch dimension: the rows of the tensors in order. One tensor is returned
  as it is.\<close>

definition cat_rows :: "('t \<Rightarrow> int) \<Rightarrow> 't list \<Rightarrow> ('t \<times> int) list" where
  "cat_rows size_of ts = concat (map (\<lambda>t. map (\<lambda>i. (t, i)) (py_range (size_of t))) ts)"

definition same_but_batch :: "shape list \<Rightarrow> bool" where
  "same_but_batch shapes \<longleftrightarrow> (\<forall>s \<in> set shapes. s[1 := 0] = (hd shapes)[1 := 0])"

definition cat_error :: py_exc where
  "cat_error = RuntimeError ''Sizes of tensors must match except in the batch dimension''"

definition cat_logits :: "'a tensor list \<Rightarrow> 'a tensor py_result" where
  "cat_logits ts =
     (case ts of
        [] \<Rightarrow> Inl (ValueError ''tensors must be non-empty'')
      | [t] \<Rightarrow> Inr t
      | t # _ \<Rightarrow>
          if (\<exists>u \<in> set ts. tensor_shape u = [] \<or> tl (tensor_shape u) \<noteq> tl (tensor_shape t)) then Inl cat_error
          else Inr \<lparr>tensor_shape = sum_list (map (hd \<circ> tensor_shape) ts) # tl (tensor_shape t),
                    tensor_data = concat (map tensor_data ts)\<rparr>)"

definition cat_context_kv :: "'v ContextKV list \<Rightarrow> 'v ContextKV" where
  "cat_context_kv kvs =
     (case kvs of
        [kv] \<Rightarrow> kv
      | _ \<Rightarrow>
          (let rows = cat_rows ctx_batch_size kvs
           in \<lparr>ctx_shape = (ctx_shape (hd kvs))[1 := int (length rows)],
               ctx_key = (\<lambda>l b. case rows ! nat b of (kv, i) \<Rightarrow> ctx_key kv l i),
               ctx_value = (\<lambda>l b. case rows ! nat b of (kv, i) \<Rightarrow> ctx_value kv l i)\<rparr>))"

definition cat_beam_kv :: "'v BeamKV list \<Rightarrow> 'v BeamKV" where
  "cat_beam_kv kvs =
     (case kvs of
        [kv] \<Rightarrow> kv
      | _ \<Rightarrow>
          (let rows = cat_rows kv_batch_size kvs
           in \<lparr>kv_shape = (kv_shape (hd kvs))[1 := int (length rows)],
               kv_key = (\<lambda>l b s q. case rows ! nat b of (kv, i) \<Rightarrow> kv_key kv l i s q),
               kv_value = (\<lambda>l b s q. case rows ! nat b of (kv, i) \<Rightarrow> kv_value kv l i s q)\<rparr>))"

text \<open>\<open>_make_batched_context_kv\<close> and \<open>_make_batched_beam_kv\<close>. Adjacent views are joined without a copy and
  without \<open>torch.cat\<close>'s check, as is a window of the pool.\<close>

definition make_batched_context_kv :: "bool \<Rightarrow> 'v GRGenerationState list \<Rightarrow> 'v ContextKV py_result" where
  "make_batched_context_kv adjacent gens =
     (if gens = [] then Inl (ValueError ''generations must be non-empty'')
      else let kvs = map (prefill_context_kv \<circ> gen_prefill) gens
           in if adjacent \<or> length gens = 1 \<or> same_but_batch (map ctx_shape kvs) then Inr (cat_context_kv kvs) else Inl cat_error)"

definition make_batched_prefill :: "bool \<Rightarrow> 'v GRGenerationState list \<Rightarrow> 'v PrefillResult py_result" where
  "make_batched_prefill adjacent gens =
     bind_res (make_batched_context_kv adjacent gens) (\<lambda>kv.
     bind_res (cat_logits (map (prefill_logits \<circ> gen_prefill) gens)) (\<lambda>logits.
       Inr \<lparr>prefill_logits = logits, prefill_context_kv = kv\<rparr>))"

definition make_batched_beam_kv :: "bool \<Rightarrow> 'v GRGenerationState list \<Rightarrow> 'v BeamKV py_result" where
  "make_batched_beam_kv adjacent gens =
     (if gens = [] then Inl (ValueError ''generations must be non-empty'')
      else let kvs = map gen_beam_kv gens
           in if adjacent \<or> length gens = 1 \<or> same_but_batch (map kv_shape kvs) then Inr (cat_beam_kv kvs) else Inl cat_error)"

text \<open>\<open>_batched_prefill_for_states\<close>, cached by the request ids.\<close>

definition context_window_of :: "string list \<Rightarrow> 'v executor \<Rightarrow> (int \<times> int \<times> int) option" where
  "context_window_of ids x = context_pool_window (ex_context_pool x) (map (\<lambda>rid. rt_context_lease (runtime_of rid x)) ids) None"

definition beam_window_of :: "string list \<Rightarrow> 'v executor \<Rightarrow> (int \<times> int) option" where
  "beam_window_of ids x = beam_pool_window (ex_beam_pool x) (map (\<lambda>rid. rt_beam_lease (runtime_of rid x)) ids) None"

definition batched_prefill_for_states ::
  "executor_config \<Rightarrow> string list \<Rightarrow> 'v GRGenerationState list \<Rightarrow> 'v executor \<Rightarrow> ('v, 'v PrefillResult) exec_result" where
  "batched_prefill_for_states cfg ids gens x =
     (case map_of (ex_prefill_batches x) ids of
        Some prefill \<Rightarrow> (Inr prefill, x)
      | None \<Rightarrow>
          bind_st (if context_window_of ids x \<noteq> None then make_batched_prefill True gens
                   else make_batched_prefill (cfg_adjacent cfg ids) gens, x) (\<lambda>prefill x1.
            (Inr prefill, x1\<lparr>ex_prefill_batches := dict_set ids prefill (ex_prefill_batches x1)\<rparr>)))"

text \<open>Does the batched BeamKV share its memory with the requests' own: one request, a window of the pool
  or adjacent views; a compacted one never does.\<close>

definition shares_beam_kv :: "executor_config \<Rightarrow> string list \<Rightarrow> 'v executor \<Rightarrow> bool" where
  "shares_beam_kv cfg ids x \<longleftrightarrow> length ids = 1 \<or> beam_window_of ids x \<noteq> None \<or> cfg_adjacent cfg ids"

fun join_ids :: "string list \<Rightarrow> string" where
  "join_ids [] = []"
| "join_ids [rid] = rid"
| "join_ids (rid # rids) = rid @ '','' @ join_ids rids"

text \<open>\<open>_make_batched_generation\<close>; \<open>compaction\<close> holds the arguments of the history compaction when it is needed, and
  \<open>fk\<close>, \<open>fv\<close> what torch leaves in its fresh tensors.\<close>

type_synonym 'v kv_fill = "int \<Rightarrow> int \<Rightarrow> int \<Rightarrow> int \<Rightarrow> 'v"

definition make_batched_generation ::
  "'v kv_fill \<Rightarrow> 'v kv_fill \<Rightarrow> executor_config \<Rightarrow> GRContinuousDecodeBatch \<Rightarrow> bool \<Rightarrow> 'v GRGenerationState list \<Rightarrow> 'v PrefillResult
   \<Rightarrow> (BeamPath list \<times> int \<times> int) option \<Rightarrow> 'v GRGenerationState py_result" where
  "make_batched_generation fk fv cfg b shared gens prefill compaction =
     (case gens of
        [] \<Rightarrow> Inl (ValueError ''generations must be non-empty'')
      | first # _ \<Rightarrow>
          bind_res (make_batched_beam_kv shared gens) (\<lambda>kv.
          bind_res (case compaction of
                      None \<Rightarrow> Inr kv
                    | Some (paths, decode_nums, active) \<Rightarrow> compact_batched_beam_kv_history fk fv kv paths decode_nums active) (\<lambda>kv'.
            Inr \<lparr>gen_request_id = ''continuous-decode:'' @ join_ids (batch_request_ids b), gen_prefill = prefill, gen_beam_kv = kv',
                 gen_beam_path = gen_beam_path first, gen_fixed_beam_width = gen_fixed_beam_width first,
                 gen_score_mode = cfg_score_mode cfg\<rparr>)))"

section \<open>Writing the step back\<close>

text \<open>The forward step writes the batched BeamKV in place. Where it shares memory with the requests' own, all
  of row \<open>b\<close> is theirs at once; otherwise \<open>_scatter_batched_beam_kv\<close> copies the slice of the step.\<close>

definition row_kv :: "int \<Rightarrow> 'v BeamKV \<Rightarrow> 'v BeamKV \<Rightarrow> 'v BeamKV" where
  "row_kv b kv own = own\<lparr>kv_key := (\<lambda>l i s q. if i = 0 then kv_key kv l b s q else kv_key own l i s q),
                         kv_value := (\<lambda>l i s q. if i = 0 then kv_value kv l b s q else kv_value own l i s q)\<rparr>"

definition scatter_row :: "int \<Rightarrow> int \<Rightarrow> int \<Rightarrow> 'v BeamKV \<Rightarrow> 'v BeamKV \<Rightarrow> 'v BeamKV" where
  "scatter_row step width b kv own =
     own\<lparr>kv_key := (\<lambda>l i s q. if i = 0 \<and> s = step \<and> 0 \<le> q \<and> q < width then kv_key kv l b s q else kv_key own l i s q),
         kv_value := (\<lambda>l i s q. if i = 0 \<and> s = step \<and> 0 \<le> q \<and> q < width then kv_value kv l b s q else kv_value own l i s q)\<rparr>"

definition map_generation :: "('v GRGenerationState \<Rightarrow> 'v GRGenerationState) \<Rightarrow> 'v GRRequestRuntime \<Rightarrow> 'v GRRequestRuntime" where
  "map_generation f rt = rt\<lparr>rt_generation := map_option f (rt_generation rt)\<rparr>"

fun write_rows :: "(int \<Rightarrow> 'v BeamKV \<Rightarrow> 'v BeamKV) \<Rightarrow> int \<Rightarrow> string list \<Rightarrow> 'v executor \<Rightarrow> 'v executor" where
  "write_rows f i [] x = x"
| "write_rows f i (rid # rids) x =
     write_rows f (i + 1) rids
       (set_runtime rid (map_generation (\<lambda>g. g\<lparr>gen_beam_kv := f i (gen_beam_kv g)\<rparr>) (runtime_of rid x)) x)"

definition scatter_batched_beam_kv ::
  "bool \<Rightarrow> 'v BeamKV \<Rightarrow> string list \<Rightarrow> int \<Rightarrow> int \<Rightarrow> 'v executor \<Rightarrow> ('v, unit) exec_result" where
  "scatter_batched_beam_kv shared kv ids step width x =
     (if step \<ge> kv_max_decode_steps kv then (Inl (IndexError ''index out of range for the decode step''), x)
      else (Inr (), if shared then x else write_rows (\<lambda>b. scatter_row step width b kv) 0 ids x))"

text \<open>The model's forward step: tokens, batched generation, step, width, indices, number of decode steps. It
  returns the logits or raises, and the BeamKV it leaves.\<close>

type_synonym 'v decode_forward =
  "int tensor \<Rightarrow> 'v GRGenerationState \<Rightarrow> int \<Rightarrow> int \<Rightarrow> int list list list list list \<Rightarrow> int \<Rightarrow> pyfloat tensor py_result \<times> 'v BeamKV"

definition forward_decode_step ::
  "'v decode_forward \<Rightarrow> bool \<Rightarrow> string list \<Rightarrow> int tensor \<Rightarrow> 'v GRGenerationState \<Rightarrow> int \<Rightarrow> int \<Rightarrow> int list list list list list \<Rightarrow> int
   \<Rightarrow> 'v executor \<Rightarrow> ('v, pyfloat tensor \<times> 'v BeamKV) exec_result" where
  "forward_decode_step fwd shared ids tokens gen step width idx decode_nums x =
     (case fwd tokens gen step width idx decode_nums of
        (r, kv) \<Rightarrow>
          bind_st (r, if shared then write_rows (\<lambda>b. row_kv b kv) 0 ids x else x) (\<lambda>logits x1. (Inr (logits, kv), x1)))"

section \<open>Selection, the general route\<close>

definition request_of :: "string \<Rightarrow> 'v executor \<Rightarrow> GRServingRequest" where
  "request_of rid x = st_request (the (map_of (states (ex_scheduler x)) rid))"

text \<open>\<open>_continuous_step_item_mask\<close>: one block \<open>[W, V]\<close> per request, all true where it has no provider.\<close>

definition logits_row :: "nat \<Rightarrow> 'a tensor \<Rightarrow> 'a tensor" where
  "logits_row i logits =
     (let n = prod_list (tl (tensor_shape logits))
      in \<lparr>tensor_shape = 1 # tl (tensor_shape logits), tensor_data = take n (drop (i * n) (tensor_data logits))\<rparr>)"

definition request_mask_block ::
  "nat \<Rightarrow> nat \<Rightarrow> pyfloat tensor \<Rightarrow> nat \<Rightarrow> TrieItemMaskProvider option \<Rightarrow> 'v GRRequestRuntime \<Rightarrow> bool tensor py_result" where
  "request_mask_block w v logits i provider rt =
     (case provider of
        None \<Rightarrow> Inr \<lparr>tensor_shape = [w, v], tensor_data = replicate (w * v) True\<rparr>
      | Some p \<Rightarrow> bind_res (require_generation rt) (\<lambda>g. step_mask_tensor p (gen_beam_path g) (logits_row i logits)))"

definition stack_blocks :: "'a tensor list \<Rightarrow> 'a tensor py_result" where
  "stack_blocks ts =
     (if \<exists>t \<in> set ts. tensor_shape t \<noteq> tensor_shape (hd ts)
      then Inl (RuntimeError ''stack expects each tensor to be equal size'')
      else Inr \<lparr>tensor_shape = length ts # tensor_shape (hd ts), tensor_data = concat (map tensor_data ts)\<rparr>)"

definition continuous_step_item_mask ::
  "string list \<Rightarrow> 'v executor \<Rightarrow> pyfloat tensor \<Rightarrow> bool tensor option py_result" where
  "continuous_step_item_mask ids x logits =
     (if \<forall>rid \<in> set ids. item_mask_provider (request_of rid x) = None then Inr None
      else case tensor_shape logits of
        [b, w, v] \<Rightarrow>
          bind_res (map_res (\<lambda>(i, rid). request_mask_block w v logits i (item_mask_provider (request_of rid x)) (runtime_of rid x))
                     (zip [0..<length ids] ids)) (\<lambda>blocks.
          bind_res (stack_blocks blocks) (\<lambda>t. Inr (Some t)))
      | _ \<Rightarrow> Inl (ValueError ''not enough values to unpack''))"

text \<open>\<open>_continuous_apply_logits_processors\<close>; the context shows each processor the request's current path.\<close>

definition continuous_apply_logits_processors ::
  "executor_config \<Rightarrow> string list \<Rightarrow> BeamPath list \<Rightarrow> pyfloat tensor \<Rightarrow> int \<Rightarrow> int \<Rightarrow> pyfloat tensor py_result" where
  "continuous_apply_logits_processors cfg ids paths logits step width =
     (if \<forall>rid \<in> set ids. cfg_processors cfg rid = [] then Inr logits
      else bind_res (map_res (\<lambda>(i, rid, path). apply_logits_processors (cfg_processors cfg rid) (logits_row i logits)
                       \<lparr>lpc_request_id = rid, lpc_phase = Decode, lpc_step = step, lpc_beam_width = width, lpc_beam_path = Some path\<rparr>)
                     (zip [0..<length ids] (zip ids paths))) cat_logits)"

text \<open>The executor's state passed through the two memo tables.\<close>

definition on_inputs_cache ::
  "((inputs_key, BatchedDecodeInputs) memo \<Rightarrow> 'a py_result \<times> (inputs_key, BatchedDecodeInputs) memo) \<Rightarrow> 'v executor \<Rightarrow> ('v, 'a) exec_result" where
  "on_inputs_cache f x = (case f (ex_inputs_cache x) of (r, m) \<Rightarrow> (r, x\<lparr>ex_inputs_cache := m\<rparr>))"

definition on_topk_cache ::
  "((topk_key, int list list list list list) memo \<Rightarrow> 'a py_result \<times> (topk_key, int list list list list list) memo) \<Rightarrow> 'v executor \<Rightarrow> ('v, 'a) exec_result" where
  "on_topk_cache f x = (case f (ex_topk_cache x) of (r, m) \<Rightarrow> (r, x\<lparr>ex_topk_cache := m\<rparr>))"

definition on_scheduler :: "(sched \<Rightarrow> 'a \<times> sched) \<Rightarrow> 'v executor \<Rightarrow> 'a \<times> 'v executor" where
  "on_scheduler f x = (case f (ex_scheduler x) of (r, s) \<Rightarrow> (r, x\<lparr>ex_scheduler := s\<rparr>))"

fun set_runtimes :: "string list \<Rightarrow> 'v GRRequestRuntime list \<Rightarrow> 'v executor \<Rightarrow> 'v executor" where
  "set_runtimes (rid # ids) (rt # rts) x = set_runtimes ids rts (set_runtime rid rt x)"
| "set_runtimes _ _ x = x"

definition runtimes :: "string list \<Rightarrow> 'v executor \<Rightarrow> 'v GRRequestRuntime list" where
  "runtimes ids x = map (\<lambda>rid. runtime_of rid x) ids"

definition on_runtimes ::
  "('v GRRequestRuntime list \<Rightarrow> 'a py_result \<times> 'v GRRequestRuntime list) \<Rightarrow> string list \<Rightarrow> 'v executor \<Rightarrow> ('v, 'a) exec_result" where
  "on_runtimes f ids x = (case f (runtimes ids x) of (r, rts) \<Rightarrow> (r, set_runtimes ids rts x))"

fun set_paths :: "BeamPath list \<Rightarrow> 'v GRRequestRuntime list \<Rightarrow> 'v GRRequestRuntime list" where
  "set_paths (p # ps) (rt # rts) = map_generation (\<lambda>g. g\<lparr>gen_beam_path := p\<rparr>) rt # set_paths ps rts"
| "set_paths _ rts = rts"

definition append_to_paths :: "BatchedBeamSelection \<Rightarrow> BeamPath list \<Rightarrow> 'v GRRequestRuntime list \<Rightarrow> unit py_result \<times> 'v GRRequestRuntime list" where
  "append_to_paths sel paths rts =
     (case batched_append paths sel of
        (None, paths') \<Rightarrow> (Inr (), set_paths paths' rts)
      | (Some e, paths') \<Rightarrow> (Inl e, set_paths paths' rts))"

text \<open>From the last entries of the beam paths to the next selection, appended.\<close>

definition general_logits ::
  "'v decode_forward \<Rightarrow> 'v kv_fill \<Rightarrow> 'v kv_fill \<Rightarrow> executor_config \<Rightarrow> GRContinuousDecodeBatch \<Rightarrow> string list
   \<Rightarrow> 'v GRGenerationState list \<Rightarrow> BatchedBeamSelection \<Rightarrow> 'v executor \<Rightarrow> ('v, bool \<times> 'v BeamKV \<times> pyfloat tensor) exec_result" where
  "general_logits fwd fk fv cfg b ids gens sel x =
     (let paths = map gen_beam_path gens; decode_nums = batch_step b + 1; width = dbatch_beam_width b in
      bind_st (on_inputs_cache (decode_inputs_for_selection sel (batch_request_ids b) (cfg_device cfg)) x) (\<lambda>inputs x1.
      bind_st (needs_batched_beam_kv_history_compaction paths decode_nums width, x1) (\<lambda>needs x2.
      bind_st (batched_prefill_for_states cfg ids gens x2) (\<lambda>prefill x3.
      let joined = shares_beam_kv cfg ids x3 in
      bind_st (make_batched_generation fk fv cfg b joined gens prefill (if needs then Some (paths, decode_nums, width) else None), x3) (\<lambda>gen x4.
      bind_st (on_topk_cache (topk_indices_for_decode_batch paths (batch_request_ids b) (cfg_num_q_heads cfg) decode_nums width (cfg_device cfg) needs) x4) (\<lambda>idx x5.
      let shared = (joined \<and> \<not> needs) in
      bind_st (forward_decode_step fwd shared ids (beam_token_ids inputs) gen (batch_step b) width idx decode_nums x5) (\<lambda>(raw, kv) x6.
      bind_st (continuous_apply_logits_processors cfg ids paths raw (batch_step b) width, x6) (\<lambda>logits x7.
        (Inr (shared, kv, logits), x7)))))))))"

definition general_selection ::
  "'v decode_forward \<Rightarrow> torch_ops \<Rightarrow> 'v kv_fill \<Rightarrow> 'v kv_fill \<Rightarrow> executor_config \<Rightarrow> GRContinuousDecodeBatch \<Rightarrow> string list
   \<Rightarrow> 'v executor \<Rightarrow> ('v, BatchedBeamSelection \<times> pyfloat list list option) exec_result" where
  "general_selection fwd T fk fv cfg b ids x =
     bind_st (map_res require_generation (runtimes ids x), x) (\<lambda>gens x1.
     bind_st (current_batched_selection gens, x1) (\<lambda>sel x2.
     bind_st (general_logits fwd fk fv cfg b ids gens sel x2) (\<lambda>(shared, kv, logits) x3.
     bind_st (continuous_step_item_mask ids x3 logits, x3) (\<lambda>mask x4.
     bind_st (batched_item_mask_limited_beam_width (next_beam_width b) mask, x4) (\<lambda>width x5.
     bind_st (select_next_topk_batched T logits (Some (sel_scores sel)) None width mask (cfg_score_mode cfg) True True, x5) (\<lambda>next_sel x6.
     bind_st (if cfg_return_beam_details cfg
              then bind_res (selected_decode_token_logprobs T logits next_sel) (\<lambda>rows. Inr (Some rows))
              else Inr None, x6) (\<lambda>rows x7.
     bind_st (scatter_batched_beam_kv shared kv ids (batch_step b) (dbatch_beam_width b) x7) (\<lambda>_ x8.
     bind_st (on_runtimes (append_to_paths next_sel (map gen_beam_path gens)) ids x8) (\<lambda>_ x9.
       (Inr (next_sel, rows), x9))))))))))"


section \<open>Selection, the tensor route\<close>

definition can_run_decode_tensor_selection ::
  "executor_config \<Rightarrow> GRContinuousDecodeBatch \<Rightarrow> string list \<Rightarrow> 'v executor \<Rightarrow> bool" where
  "can_run_decode_tensor_selection cfg b ids x \<longleftrightarrow>
     \<not> env_flag (cfg_env cfg) ''GR_INFERENCE_DISABLE_DECODE_TENSOR_SELECTION'' \<and> \<not> cfg_return_beam_details cfg
     \<and> dbatch_beam_width b = next_beam_width b
     \<and> list_all (\<lambda>rid. let r = request_of rid x; rt = runtime_of rid x in
           item_mask_provider r = None \<and> beam_width_policy r = None \<and> cfg_processors cfg rid = []
           \<and> request_stop_token_ids r = [] \<and> decode_selection_token_ids rt \<noteq> None \<and> decode_selection_scores rt \<noteq> None
           \<and> int (length (decode_parent_history rt)) \<ge> batch_step b + 1 \<and> cfg_on_cuda cfg) ids"

definition stack_state_tensor_rows :: "('r \<Rightarrow> 'a list option) \<Rightarrow> 'r list \<Rightarrow> 'a tensor py_result" where
  "stack_state_tensor_rows field rts =
     (if \<exists>rt \<in> set rts. field rt = None then Inl (ValueError ''state tensor attribute is missing'')
      else bind_res (stack_rows (map (\<lambda>rt. the (field rt)) rts)) (\<lambda>rows.
             Inr \<lparr>tensor_shape = [length rows, length (hd rows)], tensor_data = concat rows\<rparr>))"

text \<open>\<open>_make_tensor_parent_history_topk_indices\<close>: the ancestry of all beams at once by gathering through the
  parents, from the newest row back.\<close>

definition gather :: "int list \<Rightarrow> int list \<Rightarrow> int list py_result" where
  "gather row idx =
     (if \<forall>i \<in> set idx. 0 \<le> i \<and> i < int (length row) then Inr (map (\<lambda>i. row ! nat i) idx)
      else Inl (RuntimeError ''index out of bounds''))"

fun gather_ancestry :: "int list list \<Rightarrow> int list \<Rightarrow> int list list py_result" where
  "gather_ancestry [] current = Inr []"
| "gather_ancestry (row # rows) current =
     bind_res (gather row current) (\<lambda>older.
     bind_res (gather_ancestry rows older) (\<lambda>anc. Inr (anc @ [current])))"

definition history_pattern :: "int list list \<Rightarrow> int \<Rightarrow> int \<Rightarrow> int list list py_result" where
  "history_pattern history decode_nums beam_width =
     bind_res (gather_ancestry (rev (take (nat decode_nums) history)) (py_range beam_width)) (\<lambda>anc.
       Inr (map (\<lambda>d. map (\<lambda>a. d * beam_width + a) (anc ! nat d)) (py_range decode_nums)))"

definition parent_history_topk_indices ::
  "int list list list \<Rightarrow> int \<Rightarrow> int \<Rightarrow> int \<Rightarrow> int list list list list list py_result" where
  "parent_history_topk_indices histories num_q_heads decode_nums beam_width =
     (if num_q_heads \<le> 0 then Inl (ValueError ''num_q_heads must be positive'')
      else if decode_nums \<le> 0 then Inl (ValueError ''decode_nums must be positive'')
      else if beam_width \<le> 0 then Inl (ValueError ''beam_width must be positive'')
      else if histories = [] then Inl (ValueError ''states must be non-empty'')
      else if decode_nums = 1 then Inr (make_initial_topk_indices (int (length histories)) num_q_heads beam_width)
      else if \<exists>h \<in> set histories. int (length h) < decode_nums
      then Inl (ValueError ''decode parent history is shorter than decode_nums'')
      else bind_res (map_res (\<lambda>step. stack_rows (map (\<lambda>h. h ! step) histories)) [0..<nat decode_nums]) (\<lambda>_.
           bind_res (map_res (\<lambda>h. history_pattern h decode_nums beam_width) histories) (\<lambda>pats.
             Inr (map (expand_heads num_q_heads) pats))))"

text \<open>\<open>_update_decode_tensor_state\<close>: request \<open>i\<close> takes row \<open>i\<close> of the selection.\<close>

definition push_selection :: "int list \<times> pyfloat list \<times> int list \<Rightarrow> 'v GRRequestRuntime \<Rightarrow> 'v GRRequestRuntime" where
  "push_selection = (\<lambda>(toks, scs, parents) rt.
     rt\<lparr>decode_selection_token_ids := Some toks, decode_selection_scores := Some scs,
        decode_parent_history := decode_parent_history rt @ [parents],
        pending_decode_token_ids := pending_decode_token_ids rt @ [toks],
        pending_decode_scores := pending_decode_scores rt @ [scs],
        pending_decode_parent_beams := pending_decode_parent_beams rt @ [parents]\<rparr>)"

definition matrix_rows :: "'a tensor \<Rightarrow> 'a list list" where
  "matrix_rows t = (case tensor_shape t of [b, w] \<Rightarrow> split_rows b w (tensor_data t) | _ \<Rightarrow> [])"

fun push_rows ::
  "(int list \<times> pyfloat list \<times> int list) list \<Rightarrow> 'v GRRequestRuntime list \<Rightarrow> unit py_result \<times> 'v GRRequestRuntime list" where
  "push_rows rows [] = (Inr (), [])"
| "push_rows [] (rt # rts) = (Inl (IndexError ''index out of bounds''), rt # rts)"
| "push_rows (row # rows) (rt # rts) =
     (case push_rows rows rts of (r, rts') \<Rightarrow> (r, push_selection row rt # rts'))"

definition update_decode_tensor_state ::
  "BatchedBeamSelection \<Rightarrow> 'v GRRequestRuntime list \<Rightarrow> unit py_result \<times> 'v GRRequestRuntime list" where
  "update_decode_tensor_state sel rts =
     (case (sel_token_ids_tensor sel, sel_scores_tensor sel, sel_parent_beams_tensor sel) of
        (Some toks, Some scs, Some parents) \<Rightarrow>
          push_rows (zip (matrix_rows toks) (zip (matrix_rows scs) (matrix_rows parents))) rts
      | _ \<Rightarrow> (Inl (ValueError ''decode tensor state update requires tensor-backed selection''), rts))"

definition tensor_selection ::
  "'v decode_forward \<Rightarrow> torch_ops \<Rightarrow> 'v kv_fill \<Rightarrow> 'v kv_fill \<Rightarrow> executor_config \<Rightarrow> GRContinuousDecodeBatch \<Rightarrow> string list
   \<Rightarrow> 'v executor \<Rightarrow> ('v, BatchedBeamSelection) exec_result" where
  "tensor_selection fwd T fk fv cfg b ids x =
     (let decode_nums = batch_step b + 1; width = dbatch_beam_width b in
      bind_st (map_res require_generation (runtimes ids x), x) (\<lambda>gens x1.
      bind_st (stack_state_tensor_rows decode_selection_token_ids (runtimes ids x1), x1) (\<lambda>tokens x2.
      bind_st (stack_state_tensor_rows decode_selection_scores (runtimes ids x2), x2) (\<lambda>prev x3.
      bind_st (batched_prefill_for_states cfg ids gens x3) (\<lambda>prefill x4.
      let shared = shares_beam_kv cfg ids x4 in
      bind_st (make_batched_generation fk fv cfg b shared gens prefill None, x4) (\<lambda>gen x5.
      bind_st (parent_history_topk_indices (map decode_parent_history (runtimes ids x5)) (cfg_num_q_heads cfg) decode_nums width, x5) (\<lambda>idx x6.
      bind_st (forward_decode_step fwd shared ids tokens gen (batch_step b) width idx decode_nums x6) (\<lambda>(logits, kv) x7.
      bind_st (select_next_topk_batched T logits None (Some prev) (next_beam_width b) None (cfg_score_mode cfg) False False, x7) (\<lambda>next_sel x8.
      bind_st (on_runtimes (update_decode_tensor_state next_sel) ids x8) (\<lambda>_ x9.
      bind_st (scatter_batched_beam_kv shared kv ids (batch_step b) width x9) (\<lambda>_ x10.
        (Inr next_sel, x10))))))))))))"


section \<open>Finishing a request\<close>

text \<open>\<open>_finish_state\<close>. The beam path the response keeps under \<open>_beam_path\<close> is shown by its fields.\<close>

definition beam_path_value :: "BeamPath \<Rightarrow> pyval" where
  "beam_path_value p = PDict
     [(''max_decode_steps'', PInt (max_decode_steps p)), (''beam_width'', PInt (path_beam_width p)),
      (''entries'', PList (map (\<lambda>e. PDict [(''parent_beams'', PList (map PInt (parent_beams e))),
          (''token_ids'', PList (map PInt (token_ids e))), (''scores'', PList (map PFloat (scores e)))]) (entries p)))]"

definition finish_metadata ::
  "executor_config \<Rightarrow> GRContinuousDecodeBatch \<Rightarrow> (string, pyval) dict \<Rightarrow> GRContinuousRequestState \<Rightarrow> string \<Rightarrow> (string, pyval) dict" where
  "finish_metadata cfg b timing st reason =
     (let r = st_request st;
          base = dict_update (req_metadata r)
            ([(''continuous_batching'', PBool True), (''continuous_execution'', PStr ''model_step''),
              (''requested_beam_width'', PInt (req_beam_width r)), (''active_beam_width'', PInt (state_beam_width st)),
              (''decode_steps'', PInt (current_decode_step st))] @ timing
             @ [(''stop_reason'', PStr reason), (''submitted_tick'', PInt (submitted_tick st)),
                (''admitted_tick'', opt_tick (admitted_tick st)), (''finished_tick'', opt_tick (finished_tick st)),
                (''decode_batch'', PDict (decode_batch_metadata b))]);
          ps = cfg_processors cfg (request_id r)
      in if ps = [] then base
         else dict_set ''logits_processors'' (PList (map (\<lambda>p. PDict (processor_metadata (cfg_processor_type cfg) p)) ps)) base)"

definition path_metadata ::
  "executor_config \<Rightarrow> GRContinuousRequestState \<Rightarrow> 'v GRRequestRuntime \<Rightarrow> string \<Rightarrow> (string, pyval) dict \<Rightarrow> (string, pyval) dict py_result" where
  "path_metadata cfg st rt reason metadata =
     (let r = st_request st; width = state_beam_width st; path_opt = map_option gen_beam_path (rt_generation rt) in
      bind_res (attach_item_results r path_opt width metadata) (\<lambda>m1.
      bind_res (case path_opt of
                  None \<Rightarrow> Inr m1
                | Some path \<Rightarrow>
                    bind_res (beam_results path width reason None) (\<lambda>rows.
                      Inr (dict_set ''beam_results'' (PList (map beam_result_value rows))
                            (dict_set ''_beam_path'' (beam_path_value path) m1)))) (\<lambda>m2.
      bind_res (case path_opt of
                  Some path \<Rightarrow>
                    if cfg_return_beam_details cfg
                    then bind_res (beam_details path width (rt_token_logprob_steps rt) (beam_score_type (cfg_score_mode cfg))) (\<lambda>ds.
                           Inr (dict_set ''beam_details'' (PList (map beam_detail_value ds)) m2))
                    else Inr m2
                | None \<Rightarrow> Inr m2) (\<lambda>m3.
        Inr (case beam_width_policy r of
               None \<Rightarrow> m3
             | Some pol \<Rightarrow> dict_set ''beam_width_policy'' (PDict (beam_width_policy_metadata pol)) m3)))))"

definition finish_state ::
  "executor_config \<Rightarrow> GRContinuousDecodeBatch \<Rightarrow> (string, pyval) dict \<Rightarrow> GRContinuousRequestState \<Rightarrow> 'v GRRequestRuntime
   \<Rightarrow> int list \<Rightarrow> pyfloat list \<Rightarrow> string \<Rightarrow> sched \<Rightarrow> unit py_result \<times> sched" where
  "finish_state cfg b timing st rt toks scs reason s =
     (let rid = request_id (st_request st);
          st1 = st\<lparr>st_stage := Finished, finished_tick := Some (tick_count s), stop_reason := Some reason\<rparr>;
          (st2, s1) = release_kv_lease st1 (s\<lparr>decoding := removeAll rid (decoding s)\<rparr>);
          s2 = set_state rid st2 s1
      in case path_metadata cfg st2 rt reason (finish_metadata cfg b timing st2 reason) of
           Inl e \<Rightarrow> (Inl e, s2)
         | Inr metadata \<Rightarrow>
             (let s3 = store_finished_response
                    \<lparr>resp_request_id = rid, resp_token_ids = toks, resp_scores = scs, resp_metadata = metadata\<rparr> s2
              in (Inr (), s3\<lparr>succeeded_requests := succeeded_requests s3 + 1\<rparr>)))"

text \<open>\<open>_continuous_stop_reason\<close>.\<close>

definition continuous_stop_reason :: "GRContinuousRequestState \<Rightarrow> int list \<Rightarrow> string option" where
  "continuous_stop_reason st toks =
     (if request_selection_all_stop (st_request st) toks then Some ''stop_token''
      else if current_decode_step st \<ge> req_max_decode_steps (st_request st) then Some ''max_decode_steps'' else None)"

definition observe_request_policy_scores :: "GRServingRequest \<Rightarrow> int \<Rightarrow> pyfloat list \<Rightarrow> GRServingRequest py_result" where
  "observe_request_policy_scores r step scs =
     (case beam_width_policy r of
        None \<Rightarrow> Inr r
      | Some pol \<Rightarrow> bind_res (observe_policy_scores pol step scs) (\<lambda>pol'. Inr (r\<lparr>beam_width_policy := Some pol'\<rparr>)))"

text \<open>One request after a general step: count it, observe, stop or go on; the answer is whether it finished.\<close>

definition settle_general ::
  "executor_config \<Rightarrow> GRContinuousDecodeBatch \<Rightarrow> (string, pyval) dict \<Rightarrow> int \<Rightarrow> string \<Rightarrow> int list \<Rightarrow> pyfloat list \<Rightarrow> 'v GRRequestRuntime
   \<Rightarrow> sched \<Rightarrow> bool py_result \<times> sched" where
  "settle_general cfg b timing width rid toks scs rt s =
     (case map_of (states s) rid of
        None \<Rightarrow> (Inl (KeyError ''request_id''), s)
      | Some st \<Rightarrow>
          (let st1 = st\<lparr>current_decode_step := current_decode_step st + 1, st_active_beam_width := Some width\<rparr>
           in case observe_request_policy_scores (st_request st1) (current_decode_step st1) scs of
                Inl e \<Rightarrow> (Inl e, set_state rid st1 s)
              | Inr r \<Rightarrow>
                  (let st2 = st1\<lparr>st_request := r\<rparr>; s1 = set_state rid st2 s
                   in case continuous_stop_reason st2 toks of
                        None \<Rightarrow> (Inr False, s1)
                      | Some reason \<Rightarrow> bind_st (finish_state cfg b timing st2 rt toks scs reason s1) (\<lambda>_ s2. (Inr True, s2)))))"

text \<open>The log-probabilities of the step are noted for the requests that keep them.\<close>

definition note_logprobs :: "pyfloat list \<Rightarrow> 'v GRRequestRuntime \<Rightarrow> 'v GRRequestRuntime" where
  "note_logprobs row rt = rt\<lparr>rt_token_logprob_steps := map_option (\<lambda>steps. steps @ [row]) (rt_token_logprob_steps rt)\<rparr>"


fun settle_general_each ::
  "executor_config \<Rightarrow> GRContinuousDecodeBatch \<Rightarrow> int \<Rightarrow> (string \<times> int list \<times> pyfloat list \<times> pyfloat list option) list
   \<Rightarrow> 'v executor \<Rightarrow> ('v, string list) exec_result" where
  "settle_general_each cfg b width [] x = (Inr [], x)"
| "settle_general_each cfg b width ((rid, toks, scs, lps) # rows) x =
     (let x0 = (case lps of None \<Rightarrow> x | Some row \<Rightarrow> set_runtime rid (note_logprobs row (runtime_of rid x)) x) in
      bind_st (on_scheduler (settle_general cfg b (ex_timing x0) width rid toks scs (runtime_of rid x0)) x0) (\<lambda>fin x1.
      bind_st (settle_general_each cfg b width rows x1) (\<lambda>fins x2.
        (Inr (if fin then rid # fins else fins), x2))))"

definition selection_rows :: "string list \<Rightarrow> BatchedBeamSelection \<Rightarrow> pyfloat list list option
   \<Rightarrow> (string \<times> int list \<times> pyfloat list \<times> pyfloat list option) list" where
  "selection_rows ids sel rows =
     zip ids (zip (sel_token_ids sel) (zip (sel_scores sel)
       (case rows of None \<Rightarrow> replicate (length ids) None | Some lps \<Rightarrow> map Some lps)))"

text \<open>One request after a tensor step: a request at its last step is flushed, unless the batch already was,
  and finished.\<close>

definition settle_tensor ::
  "executor_config \<Rightarrow> GRContinuousDecodeBatch \<Rightarrow> int \<Rightarrow> (string, int list \<times> pyfloat list) dict \<Rightarrow> string \<Rightarrow> 'v executor
   \<Rightarrow> ('v, bool) exec_result" where
  "settle_tensor cfg b width finalized rid x =
     (case map_of (states (ex_scheduler x)) rid of
        None \<Rightarrow> (Inl (KeyError ''request_id''), x)
      | Some st \<Rightarrow>
          (let st1 = st\<lparr>current_decode_step := current_decode_step st + 1, st_active_beam_width := Some width\<rparr>;
               x1 = x\<lparr>ex_scheduler := set_state rid st1 (ex_scheduler x)\<rparr>
           in if current_decode_step st1 < req_max_decode_steps (st_request st1) then (Inr False, x1)
              else bind_st (case map_of finalized rid of
                              Some row \<Rightarrow> (Inr row, x1)
                            | None \<Rightarrow> (case flush_pending (runtime_of rid x1) of (r, rt) \<Rightarrow> (r, set_runtime rid rt x1))) (\<lambda>(toks, scs) x2.
                   bind_st (on_scheduler (finish_state cfg b (ex_timing x2) st1 (runtime_of rid x2) toks scs ''max_decode_steps'') x2) (\<lambda>_ x3.
                     (Inr True, x3)))))"

fun settle_tensor_each ::
  "executor_config \<Rightarrow> GRContinuousDecodeBatch \<Rightarrow> int \<Rightarrow> (string, int list \<times> pyfloat list) dict \<Rightarrow> string list \<Rightarrow> 'v executor
   \<Rightarrow> ('v, string list) exec_result" where
  "settle_tensor_each cfg b width finalized [] x = (Inr [], x)"
| "settle_tensor_each cfg b width finalized (rid # ids) x =
     bind_st (settle_tensor cfg b width finalized rid x) (\<lambda>fin x1.
     bind_st (settle_tensor_each cfg b width finalized ids x1) (\<lambda>fins x2.
       (Inr (if fin then rid # fins else fins), x2)))"

text \<open>The requests this step finishes, flushed together.\<close>

definition finishing_ids :: "string list \<Rightarrow> 'v executor \<Rightarrow> string list" where
  "finishing_ids ids x = filter (\<lambda>rid. case map_of (states (ex_scheduler x)) rid of
       None \<Rightarrow> False | Some st \<Rightarrow> current_decode_step st + 1 \<ge> req_max_decode_steps (st_request st)) ids"

definition flush_finishing :: "string list \<Rightarrow> 'v executor \<Rightarrow> ('v, (string, int list \<times> pyfloat list) dict) exec_result" where
  "flush_finishing ids x =
     (let fin = finishing_ids ids x
      in bind_st (on_runtimes flush_batch fin x) (\<lambda>rows x1. (Inr (zip fin rows), x1)))"

section \<open>Running decode batches\<close>

definition run_decode_batch_tensor_selection ::
  "'v decode_forward \<Rightarrow> torch_ops \<Rightarrow> 'v kv_fill \<Rightarrow> 'v kv_fill \<Rightarrow> executor_config \<Rightarrow> GRContinuousDecodeBatch \<Rightarrow> string list
   \<Rightarrow> 'v executor \<Rightarrow> ('v, string list) exec_result" where
  "run_decode_batch_tensor_selection fwd T fk fv cfg b ids x =
     bind_st (tensor_selection fwd T fk fv cfg b ids x) (\<lambda>sel x1.
     bind_st (flush_finishing ids x1) (\<lambda>finalized x2.
       settle_tensor_each cfg b (int (sel_beam_width sel)) finalized ids x2))"

definition run_decode_batch_general ::
  "'v decode_forward \<Rightarrow> torch_ops \<Rightarrow> 'v kv_fill \<Rightarrow> 'v kv_fill \<Rightarrow> executor_config \<Rightarrow> GRContinuousDecodeBatch \<Rightarrow> string list
   \<Rightarrow> 'v executor \<Rightarrow> ('v, string list) exec_result" where
  "run_decode_batch_general fwd T fk fv cfg b ids x =
     bind_st (on_runtimes flush_each ids x) (\<lambda>_ x1.
     bind_st (general_selection fwd T fk fv cfg b ids x1) (\<lambda>(sel, rows) x2.
       settle_general_each cfg b (int (sel_beam_width sel)) (selection_rows ids sel rows) x2))"

definition run_decode_batch ::
  "'v decode_forward \<Rightarrow> torch_ops \<Rightarrow> 'v kv_fill \<Rightarrow> 'v kv_fill \<Rightarrow> executor_config \<Rightarrow> GRContinuousDecodeBatch \<Rightarrow> string list
   \<Rightarrow> 'v executor \<Rightarrow> ('v, string list) exec_result" where
  "run_decode_batch fwd T fk fv cfg b ids x =
     (if can_run_decode_tensor_selection cfg b ids x then run_decode_batch_tensor_selection fwd T fk fv cfg b ids x
      else run_decode_batch_general fwd T fk fv cfg b ids x)"

fun run_decode_batches ::
  "'v decode_forward \<Rightarrow> torch_ops \<Rightarrow> 'v kv_fill \<Rightarrow> 'v kv_fill \<Rightarrow> executor_config \<Rightarrow> GRContinuousDecodeBatch list
   \<Rightarrow> 'v executor \<Rightarrow> ('v, string list) exec_result" where
  "run_decode_batches fwd T fk fv cfg [] x = (Inr [], x)"
| "run_decode_batches fwd T fk fv cfg (b # bs) x =
     (let ids = filter (\<lambda>rid. rid \<in> set (decoding (ex_scheduler x))) (batch_request_ids b) in
      if ids = [] then run_decode_batches fwd T fk fv cfg bs x
      else bind_st (run_decode_batch fwd T fk fv cfg b ids x) (\<lambda>fin x1.
           bind_st (run_decode_batches fwd T fk fv cfg bs x1) (\<lambda>fins x2. (Inr (fin @ fins), x2))))"

end
