(* ===== verification/GR_Exec_Prefill.thy ===== *)
theory GR_Exec_Prefill
  imports GR_Exec_Decode
begin

text \<open>
  The prefill half of \<open>GRContinuousServingExecutor\<close> in \<open>gr_serving/continuous.py\<close>: the admitted requests are
  grouped by the shape of their prompts, prompts found in the prefix cache are taken from there or
  extended, the others go through the model in one batch, and every request gets its generation
  state, its pool slots and its first beams. What the model computes is a parameter: the prefill of
  a batch of prompts, which may write into a window of the context pool, and the extension of a
  cached prefix, when the model has one. A ContextKV keeps one opaque block per layer and request; a
  shorter view of it is the same block under a shorter shape, and \<open>eng_join\<close> appends single positions
  to a block. Pool tensors are passed by value, since a slot has one owner.
\<close>

section \<open>The engine\<close>

text \<open>The fields \<open>__post_init__\<close> leaves for the prompt cache, and the contents of the prompts, of which
  \<open>GR_Request\<close> keeps the shape. \<open>pc_json_text\<close> is \<open>json.dumps\<close> on values that are no scalars.\<close>

record prefill_config =
  pc_enabled :: bool
  pc_max_entries :: int
  pc_max_tokens :: "int option"
  pc_page_size :: int
  pc_min_prefix_tokens :: int
  pc_max_extend_tokens :: "int option"
  pc_input_ids :: "string \<Rightarrow> ids_value"
  pc_json_text :: "pyval \<Rightarrow> string"

type_synonym 'v prefill_forward = "ids_value \<Rightarrow> (int \<times> int \<times> int) option \<Rightarrow> 'v PrefillResult py_result"
type_synonym 'v prefill_extend = "int list list \<Rightarrow> 'v ContextKV \<Rightarrow> int list \<Rightarrow> 'v PrefillResult py_result"

record 'v serving_engine =
  eng_decode :: "'v decode_forward"
  eng_prefill :: "'v prefill_forward"
  eng_extend :: "'v prefill_extend option"
  eng_join :: "'v \<Rightarrow> nat \<Rightarrow> 'v list \<Rightarrow> 'v"
  eng_torch :: torch_ops
  eng_fill_key :: "'v kv_fill"
  eng_fill_value :: "'v kv_fill"
  eng_config :: executor_config
  eng_prefix :: prefill_config

section \<open>Cache keys\<close>

fun extra_key_of :: "(pyval \<Rightarrow> string) \<Rightarrow> pyval \<Rightarrow> extra_key" where
  "extra_key_of text PNone = EKNone"
| "extra_key_of text (PBool b) = EKBool b"
| "extra_key_of text (PInt n) = EKInt n"
| "extra_key_of text (PFloat (Fin q)) = EKFloat q"
| "extra_key_of text (PStr s) = EKStr s"
| "extra_key_of text v = EKOther (text v)"

definition prefill_cache_extra_key :: "(pyval \<Rightarrow> string) \<Rightarrow> GRServingRequest \<Rightarrow> extra_key" where
  "prefill_cache_extra_key text r =
     (let m = req_metadata r in
      case map_of m ''prefill_cache_namespace'' of
        Some v \<Rightarrow> extra_key_of text v
      | None \<Rightarrow> (case map_of m ''cache_salt'' of
          Some v \<Rightarrow> extra_key_of text v
        | None \<Rightarrow> (case map_of m ''lora_id'' of
            Some v \<Rightarrow> extra_key_of text v
          | None \<Rightarrow> EKNone)))"

section \<open>Context KV\<close>

definition slice_context_kv :: "'v ContextKV \<Rightarrow> int \<Rightarrow> 'v ContextKV py_result" where
  "slice_context_kv kv len =
     (if len \<le> 0 \<or> len > ctx_context_len kv then Inl (ValueError ''context_len must be in (0, cached context_len]'')
      else let shape = (ctx_shape kv)[2 := len] in mk_context_kv shape shape (ctx_key kv) (ctx_value kv))"

definition set_context_lease :: "GRContextKVPoolLease \<Rightarrow> 'v executor \<Rightarrow> 'v executor" where
  "set_context_lease l x =
     (let rid = pool_request_id l in set_runtime rid ((runtime_of rid x)\<lparr>rt_context_lease := Some l\<rparr>) x)"

text \<open>\<open>_context_kv_for_prefill\<close>: adjacent slots of the pool for the whole batch, as first slot, number of
  slots and context length.\<close>

definition context_kv_for_prefill :: "string list \<Rightarrow> 'v executor \<Rightarrow> ('v, (int \<times> int \<times> int) option) exec_result" where
  "context_kv_for_prefill ids x =
     (case ex_context_pool x of
        None \<Rightarrow> (Inr None, x)
      | Some pool \<Rightarrow>
          (let lens = map (\<lambda>rid. request_context_tokens (request_of rid x)) ids in
           if lens = [] \<or> \<not> (\<forall>n \<in> set lens. n = hd lens) then (Inr None, x)
           else case context_pool_allocate_batch ids (hd lens) pool of
             (r, pool') \<Rightarrow>
               bind_st (r, x\<lparr>ex_context_pool := Some pool'\<rparr>) (\<lambda>leases x1.
                 case leases of
                   None \<Rightarrow> (Inr None, x1)
                 | Some ls \<Rightarrow>
                     (let first = pool_slot (hd ls); n = int (length ls)
                      in (Inr (if pool_slot (last ls) - first + 1 \<noteq> n then None else Some (first, n, hd lens)),
                          fold set_context_lease ls x1)))))"

text \<open>One slot for one request, when the pool has one.\<close>

definition context_lease_for :: "string \<Rightarrow> int \<Rightarrow> 'v executor \<Rightarrow> ('v, GRContextKVPoolLease option) exec_result" where
  "context_lease_for rid len x =
     (case ex_context_pool x of
        None \<Rightarrow> (Inr None, x)
      | Some pool \<Rightarrow>
          if \<not> context_pool_can_allocate rid len pool then (Inr None, x)
          else case context_pool_allocate rid len pool of
            (r, pool') \<Rightarrow> bind_st (r, x\<lparr>ex_context_pool := Some pool'\<rparr>) (\<lambda>l x1. (Inr (Some l), set_context_lease l x1)))"

text \<open>\<open>_materialize_cached_prefill\<close>: the cached prefill, copied into a slot of the pool when there is one. A
  slot of another geometry cannot take the copy.\<close>

definition materialize_cached_prefill :: "string \<Rightarrow> 'v PrefillResult \<Rightarrow> 'v executor \<Rightarrow> ('v, 'v PrefillResult) exec_result" where
  "materialize_cached_prefill rid cached x =
     (let kv = prefill_context_kv cached in
      bind_st (context_lease_for rid (ctx_context_len kv) x) (\<lambda>lease x1.
        case lease of
          None \<Rightarrow> (Inr cached, x1)
        | Some l \<Rightarrow>
            if pool_view_shape l \<noteq> ctx_shape kv
            then (Inl (RuntimeError ''The size of tensor a must match the size of tensor b''), x1)
            else (Inr (cached\<lparr>prefill_context_kv := kv\<lparr>ctx_shape := pool_view_shape l\<rparr>\<rparr>), x1)))"

section \<open>The prefix cache\<close>

definition on_counts :: "(prefill_counts \<Rightarrow> prefill_counts) \<Rightarrow> 'v executor \<Rightarrow> 'v executor" where
  "on_counts f x = x\<lparr>ex_prefill_counts := f (ex_prefill_counts x)\<rparr>"

definition store_prefill_cache_entry ::
  "prefill_config \<Rightarrow> ids_value \<Rightarrow> 'v PrefillResult \<Rightarrow> extra_key \<Rightarrow> 'v executor \<Rightarrow> ('v, unit) exec_result" where
  "store_prefill_cache_entry pc ids prefill extra x =
     (if pc_max_entries pc = 0 then (Inr (), x)
      else
        bind_st (cache_configure (Some (pc_max_entries pc)) (pc_max_tokens pc)
                   (if pc_page_size pc = 0 then 1 else pc_page_size pc) (ex_prefill_cache x), x) (\<lambda>c x1.
        let x2 = x1\<lparr>ex_prefill_cache := c\<rparr> in
        bind_st (cache_insert ids prefill extra c, x2) (\<lambda>(_, c') x3. (Inr (), x3\<lparr>ex_prefill_cache := c'\<rparr>))))"

definition can_extend_cached_prefix :: "'v serving_engine \<Rightarrow> 'v PrefillResult prefix_match \<Rightarrow> int \<Rightarrow> bool" where
  "can_extend_cached_prefix E m suffix_len \<longleftrightarrow>
     (let pc = eng_prefix E in
      \<not> int (match_len m) < pc_min_prefix_tokens pc
      \<and> \<not> (case pc_max_extend_tokens pc of None \<Rightarrow> False | Some n \<Rightarrow> suffix_len > n)
      \<and> \<not> ctx_context_len (prefill_context_kv (match_prefill m)) < int (match_len m)
      \<and> (eng_extend E \<noteq> None \<or> env_flag (cfg_env (eng_config E)) ''GR_INFERENCE_PREFILL_CACHE_ENABLE_DECODE_EXTEND''))"

definition prefill_cache_extend_mode :: "'v serving_engine \<Rightarrow> string" where
  "prefill_cache_extend_mode E =
     (if eng_extend E \<noteq> None then ''prefill_extend''
      else if env_flag (cfg_env (eng_config E)) ''GR_INFERENCE_PREFILL_CACHE_ENABLE_DECODE_EXTEND'' then ''decode_extend''
      else ''disabled'')"

text \<open>\<open>_allocate_context_kv_for_prefill_cache_extend\<close>, as the shape of what it allocates.\<close>

definition allocate_context_kv_for_extend :: "string \<Rightarrow> int \<Rightarrow> 'v ContextKV \<Rightarrow> 'v executor \<Rightarrow> ('v, int list) exec_result" where
  "allocate_context_kv_for_extend rid len ref x =
     bind_st (context_lease_for rid len x) (\<lambda>lease x1.
       case lease of
         Some l \<Rightarrow> (Inr (pool_view_shape l), x1)
       | None \<Rightarrow>
           (let shape = (ctx_shape ref)[1 := 1, 2 := len]
            in bind_st (mk_context_kv shape shape (ctx_key ref) (ctx_value ref), x1) (\<lambda>_ x2. (Inr shape, x2))))"

text \<open>What the two extensions share: the tokens after the cached prefix, the prefix, and room for both.\<close>

definition extend_inputs ::
  "'v serving_engine \<Rightarrow> GRServingRequest \<Rightarrow> 'v PrefillResult prefix_match \<Rightarrow> int \<Rightarrow> 'v executor
   \<Rightarrow> ('v, int list list \<times> 'v ContextKV \<times> int list) exec_result" where
  "extend_inputs E r m suffix_len x =
     (case pc_input_ids (eng_prefix E) (request_id r) of
        IdsRows rows \<Rightarrow>
          (let prefix_len = int (match_len m); len = request_context_tokens r in
           if max 0 (len - prefix_len) \<noteq> suffix_len
           then (Inl (ValueError ''prefix cache suffix length changed during materialization''), x)
           else
             bind_st (slice_context_kv (prefill_context_kv (match_prefill m)) prefix_len, x) (\<lambda>base x1.
             bind_st (allocate_context_kv_for_extend (request_id r) len base x1) (\<lambda>shape x2.
               (Inr (map (drop (match_len m)) rows, base, shape), x2))))
      | _ \<Rightarrow> (Inl (IndexError ''too many indices for tensor''), x))"

text \<open>\<open>_decode_extend_cached_prefix_prefill\<close> decodes the suffix with one beam and copies its BeamKV behind
  the prefix.\<close>

fun extend_steps ::
  "'v decode_forward \<Rightarrow> int \<Rightarrow> int list list \<Rightarrow> nat list \<Rightarrow> 'v GRGenerationState \<Rightarrow> pyfloat tensor option
   \<Rightarrow> (pyfloat tensor \<times> 'v GRGenerationState) py_result" where
  "extend_steps fwd heads tail_rows [] g logits =
     (case logits of
        None \<Rightarrow> Inl (RuntimeError ''prefix cache extend did not run any suffix tokens'')
      | Some t \<Rightarrow> Inr (t, g))"
| "extend_steps fwd heads tail_rows (step # steps) g logits =
     bind_res (make_compacted_batched_topk_indices 1 heads (int step + 1) 1) (\<lambda>idx.
       case fwd \<lparr>tensor_shape = [length tail_rows, 1], tensor_data = map (\<lambda>row. row ! step) tail_rows\<rparr> g (int step) 1 idx (int step + 1) of
         (Inl e, _) \<Rightarrow> Inl e
       | (Inr t, kv) \<Rightarrow> extend_steps fwd heads tail_rows steps (g\<lparr>gen_beam_kv := kv\<rparr>) (Some t))"

definition join_suffix :: "('v \<Rightarrow> nat \<Rightarrow> 'v list \<Rightarrow> 'v) \<Rightarrow> int list \<Rightarrow> 'v ContextKV \<Rightarrow> nat \<Rightarrow> 'v BeamKV \<Rightarrow> nat \<Rightarrow> 'v ContextKV" where
  "join_suffix join shape base prefix_len kv suffix_len =
     \<lparr>ctx_shape = shape,
      ctx_key = (\<lambda>l b. join (ctx_key base l b) prefix_len (map (\<lambda>s. kv_key kv l b (int s) 0) [0..<suffix_len])),
      ctx_value = (\<lambda>l b. join (ctx_value base l b) prefix_len (map (\<lambda>s. kv_value kv l b (int s) 0) [0..<suffix_len]))\<rparr>"

definition decode_extend_prefill ::
  "'v serving_engine \<Rightarrow> GRServingRequest \<Rightarrow> 'v PrefillResult prefix_match \<Rightarrow> int \<Rightarrow> int list list \<Rightarrow> 'v ContextKV \<Rightarrow> int list
   \<Rightarrow> 'v PrefillResult py_result" where
  "decode_extend_prefill E r m suffix_len tail_rows base shape =
     bind_res (allocate_beam_kv_like_context (eng_fill_key E) base suffix_len 1) (\<lambda>kv.
     bind_res (from_prefill (eng_fill_key E) (request_id r @ '':prefix-cache-extend'')
                 \<lparr>prefill_logits = prefill_logits (match_prefill m), prefill_context_kv = base\<rparr>
                 suffix_len 1 (Some 1) (cfg_score_mode (eng_config E)) (Some kv)) (\<lambda>g.
     bind_res (extend_steps (eng_decode E) (cfg_num_q_heads (eng_config E)) tail_rows [0..<nat suffix_len] g None) (\<lambda>(logits, g').
       Inr \<lparr>prefill_logits = logits,
            prefill_context_kv = join_suffix (eng_join E) shape base (match_len m) (gen_beam_kv g') (nat suffix_len)\<rparr>)))"

definition extend_cached_prefix_prefill ::
  "'v serving_engine \<Rightarrow> GRServingRequest \<Rightarrow> 'v PrefillResult prefix_match \<Rightarrow> int \<Rightarrow> 'v executor \<Rightarrow> ('v, 'v PrefillResult) exec_result" where
  "extend_cached_prefix_prefill E r m suffix_len x =
     bind_st (extend_inputs E r m suffix_len x) (\<lambda>(tail_rows, base, shape) x1.
     bind_st (case eng_extend E of
                Some ext \<Rightarrow> ext tail_rows base shape
              | None \<Rightarrow> decode_extend_prefill E r m suffix_len tail_rows base shape, x1) (\<lambda>prefill x2.
     bind_st (store_prefill_cache_entry (eng_prefix E) (pc_input_ids (eng_prefix E) (request_id r)) prefill
                (prefill_cache_extra_key (pc_json_text (eng_prefix E)) r) x2) (\<lambda>_ x3.
       (Inr prefill, x3))))"

definition prefill_from_cache :: "'v serving_engine \<Rightarrow> string \<Rightarrow> 'v executor \<Rightarrow> ('v, 'v PrefillResult option) exec_result" where
  "prefill_from_cache E rid x =
     (let pc = eng_prefix E; r = request_of rid x in
      bind_st (cache_match (pc_input_ids pc rid) (prefill_cache_extra_key (pc_json_text pc) r) (ex_prefill_cache x), x) (\<lambda>(found, c) x0.
      let x1 = x0\<lparr>ex_prefill_cache := c\<rparr> in
      case found of
        None \<Rightarrow> (Inr None, x1)
      | Some m \<Rightarrow>
          (let len = request_context_tokens r; suffix_len = len - int (match_len m) in
           if match_exact m \<and> suffix_len = 0 then
             bind_st (materialize_cached_prefill rid (match_prefill m)
                        (on_counts (\<lambda>n. n\<lparr>cache_hits := cache_hits n + 1, exact_hits := exact_hits n + 1,
                                          prefix_tokens := prefix_tokens n + len\<rparr>) x1)) (\<lambda>p x2. (Inr (Some p), x2))
           else if suffix_len \<le> 0 \<or> \<not> can_extend_cached_prefix E m suffix_len
           then (Inr None, on_counts (\<lambda>n. n\<lparr>cache_skips := cache_skips n + 1\<rparr>) x1)
           else
             bind_st (extend_cached_prefix_prefill E r m suffix_len
                        (on_counts (\<lambda>n. n\<lparr>cache_hits := cache_hits n + 1, prefix_hits := prefix_hits n + 1,
                                          prefix_tokens := prefix_tokens n + int (match_len m),
                                          extend_tokens := extend_tokens n + suffix_len\<rparr>) x1)) (\<lambda>p x2. (Inr (Some p), x2)))))"

section \<open>A request after its prefill\<close>

text \<open>\<open>_select_initial_prefill_beams_batched\<close>: one selection for plain requests of one width.\<close>

definition select_initial_prefill_beams_batched ::
  "'v serving_engine \<Rightarrow> string list \<Rightarrow> 'v PrefillResult \<Rightarrow> 'v executor \<Rightarrow> BatchedBeamSelection option py_result" where
  "select_initial_prefill_beams_batched E ids prefill x =
     (let cfg = eng_config E; logits = prefill_logits prefill; width = req_beam_width (request_of (hd ids) x) in
      if cfg_return_beam_details cfg \<or> length ids \<le> 1 then Inr None
      else case tensor_shape logits of
        [] \<Rightarrow> Inl (IndexError ''tuple index out of range'')
      | b # _ \<Rightarrow>
          if b \<noteq> length ids then Inr None
          else if \<exists>rid \<in> set ids. let r = request_of rid x in req_beam_width r \<noteq> width \<or> item_mask_provider r \<noteq> None
                    \<or> beam_width_policy r \<noteq> None \<or> cfg_processors cfg rid \<noteq> []
          then Inr None
          else bind_res (select_initial_topk_batched (eng_torch E) logits width None (cfg_score_mode cfg)) (\<lambda>sel. Inr (Some sel)))"

text \<open>\<open>_allocate_beam_kv_from_pool\<close>; the slot holds what its last owner left.\<close>

definition allocate_beam_kv_from_pool :: "'v serving_engine \<Rightarrow> string \<Rightarrow> 'v executor \<Rightarrow> ('v, 'v BeamKV option) exec_result" where
  "allocate_beam_kv_from_pool E rid x =
     (case ex_beam_pool x of
        None \<Rightarrow> (Inr None, x)
      | Some pool \<Rightarrow>
          (case beam_pool_allocate rid pool of
             (r, pool') \<Rightarrow>
               bind_st (r, x\<lparr>ex_beam_pool := Some pool'\<rparr>) (\<lambda>l x1.
                 (Inr (Some \<lparr>kv_shape = pool_view_shape l, kv_key = eng_fill_key E, kv_value = eng_fill_value E\<rparr>),
                  set_runtime rid ((runtime_of rid x1)\<lparr>rt_beam_lease := Some l\<rparr>) x1))))"

text \<open>The first beams: from the batched selection, or selected here under mask, policy and processors. The
  processed logits are kept for the log-probabilities; with a batched selection there are none, but
  then no log-probabilities are asked for either.\<close>

definition initial_beams ::
  "'v serving_engine \<Rightarrow> GRServingRequest \<Rightarrow> 'v PrefillResult \<Rightarrow> 'v GRGenerationState \<Rightarrow> BeamSelection option
   \<Rightarrow> (int \<times> 'v GRGenerationState \<times> pyfloat tensor option) py_result" where
  "initial_beams E r prefill g sel =
     (case sel of
        Some s \<Rightarrow> bind_res (initialize_beams_from_selection s g) (\<lambda>(_, g'). Inr (int (selection_width s), g', None))
      | None \<Rightarrow>
          (let mask = map_option initial_mask_tensor (item_mask_provider r) in
           bind_res (policy_width_for_step r 0 (req_beam_width r)) (\<lambda>w0.
           bind_res (batched_item_mask_limited_beam_width w0 mask) (\<lambda>w.
           bind_res (apply_logits_processors (cfg_processors (eng_config E) (request_id r)) (prefill_logits prefill)
                       \<lparr>lpc_request_id = request_id r, lpc_phase = Prefill, lpc_step = 0, lpc_beam_width = w,
                        lpc_beam_path = Some (gen_beam_path g)\<rparr>) (\<lambda>logits.
           bind_res (initialize_beams_with_width (eng_torch E) w mask (Some logits) g) (\<lambda>(_, g').
             Inr (w, g', Some logits)))))))"

definition set_request_state :: "string \<Rightarrow> (GRContinuousRequestState \<Rightarrow> GRContinuousRequestState) \<Rightarrow> 'v executor \<Rightarrow> 'v executor" where
  "set_request_state rid f x =
     (let s = ex_scheduler x in
      case map_of (states s) rid of None \<Rightarrow> x | Some st \<Rightarrow> x\<lparr>ex_scheduler := set_state rid (f st) s\<rparr>)"

text \<open>The end of \<open>_store_single_prefill_result\<close>, with the beams selected.\<close>

definition note_initial_beams ::
  "'v serving_engine \<Rightarrow> string \<Rightarrow> int \<Rightarrow> 'v GRGenerationState \<Rightarrow> pyfloat tensor option \<Rightarrow> 'v executor \<Rightarrow> ('v, unit) exec_result" where
  "note_initial_beams E rid width g logits x =
     (let x1 = set_request_state rid (\<lambda>st. st\<lparr>st_active_beam_width := Some width\<rparr>) x;
          rt = (runtime_of rid x1)\<lparr>rt_generation := Some g\<rparr>;
          e = last (entries (gen_beam_path g))
      in bind_st (initialize_decode_tensor_state rt, set_runtime rid rt x1) (\<lambda>rt1 x2.
         let x3 = set_runtime rid rt1 x2 in
         bind_st (observe_request_policy_scores (request_of rid x3) 0 (scores e), x3) (\<lambda>r x4.
         let x5 = set_request_state rid (\<lambda>st. st\<lparr>st_request := r\<rparr>) x4 in
         if \<not> cfg_return_beam_details (eng_config E) then (Inr (), x5)
         else bind_st (case logits of
                         None \<Rightarrow> Inl (RuntimeError ''initial_logits'')
                       | Some t \<Rightarrow> selected_initial_token_logprobs (eng_torch E) t (token_ids e), x5) (\<lambda>row x6.
                (Inr (), set_runtime rid ((runtime_of rid x6)\<lparr>rt_token_logprob_steps := Some [row]\<rparr>) x6)))))"

definition store_single_prefill_result ::
  "'v serving_engine \<Rightarrow> string \<Rightarrow> 'v PrefillResult \<Rightarrow> BeamSelection option \<Rightarrow> 'v executor \<Rightarrow> ('v, unit) exec_result" where
  "store_single_prefill_result E rid prefill sel x =
     (case map_of (states (ex_scheduler x)) rid of
        None \<Rightarrow> (Inl (KeyError ''request_id''), x)
      | Some st \<Rightarrow>
          (let r = st_request st; cfg = eng_config E in
           bind_st (allocate_beam_kv_from_pool E rid x) (\<lambda>kv x1.
           bind_st (from_prefill (eng_fill_key E) rid prefill (req_max_decode_steps r) (cfg_max_beam_width cfg)
                      (Some (req_beam_width r)) (cfg_score_mode cfg) kv, x1) (\<lambda>g x2.
           bind_st (initial_beams E r prefill g sel, x2) (\<lambda>(width, g', logits) x3.
             note_initial_beams E rid width g' logits x3)))))"

section \<open>Running the prefill\<close>

text \<open>\<open>torch.cat\<close> of the prompts along the first dimension.\<close>

definition cat_input_ids :: "ids_value list \<Rightarrow> ids_value py_result" where
  "cat_input_ids vs =
     (if \<exists>v \<in> set vs. case v of IdsScalar _ \<Rightarrow> True | _ \<Rightarrow> False
      then Inl (RuntimeError ''zero-dimensional tensor cannot be concatenated'')
      else if \<forall>v \<in> set vs. case v of IdsRows _ \<Rightarrow> True | _ \<Rightarrow> False
      then Inr (IdsRows (concat (map (\<lambda>v. case v of IdsRows rows \<Rightarrow> rows | _ \<Rightarrow> []) vs)))
      else if \<forall>v \<in> set vs. case v of IdsFlat _ \<Rightarrow> True | _ \<Rightarrow> False
      then Inr (IdsFlat (concat (map (\<lambda>v. case v of IdsFlat ns \<Rightarrow> ns | _ \<Rightarrow> []) vs)))
      else Inl (RuntimeError ''Tensors must have same number of dimensions''))"

definition prompt_batch :: "'v serving_engine \<Rightarrow> string list \<Rightarrow> 'v executor \<Rightarrow> ids_value py_result" where
  "prompt_batch E ids x =
     (if \<exists>rid \<in> set ids. input_shape (request_of rid x) = None
      then Inl (TypeError ''expected Tensor as element in argument 0'')
      else cat_input_ids (map (pc_input_ids (eng_prefix E)) ids))"

text \<open>Row \<open>i\<close> of the batch, \<open>logits[i : i + 1]\<close> and \<open>context_kv.slice_batch(i)\<close>.\<close>

definition prefill_row :: "nat \<Rightarrow> 'v PrefillResult \<Rightarrow> 'v PrefillResult py_result" where
  "prefill_row i prefill =
     bind_res (slice_batch (int i) (prefill_context_kv prefill)) (\<lambda>kv.
       Inr \<lparr>prefill_logits = logits_row i (prefill_logits prefill), prefill_context_kv = kv\<rparr>)"

definition selection_row :: "nat \<Rightarrow> BatchedBeamSelection \<Rightarrow> BeamSelection" where
  "selection_row i sel = \<lparr>bs_token_ids = sel_token_ids sel ! i, bs_scores = sel_scores sel ! i, bs_parent_beams = sel_parent_beams sel ! i\<rparr>"

fun store_rows ::
  "'v serving_engine \<Rightarrow> bool \<Rightarrow> 'v PrefillResult \<Rightarrow> BatchedBeamSelection option \<Rightarrow> nat \<Rightarrow> string list \<Rightarrow> 'v executor
   \<Rightarrow> ('v, unit) exec_result" where
  "store_rows E update prefill sel i [] x = (Inr (), x)"
| "store_rows E update prefill sel i (rid # ids) x =
     bind_st (prefill_row i prefill, x) (\<lambda>row x1.
     bind_st (if update \<and> pc_enabled (eng_prefix E)
              then store_prefill_cache_entry (eng_prefix E) (pc_input_ids (eng_prefix E) rid) row
                     (prefill_cache_extra_key (pc_json_text (eng_prefix E)) (request_of rid x1)) x1
              else (Inr (), x1)) (\<lambda>_ x2.
     bind_st (store_single_prefill_result E rid row (map_option (selection_row i) sel) x2) (\<lambda>_ x3.
       store_rows E update prefill sel (i + 1) ids x3)))"

definition store_prefill_results ::
  "'v serving_engine \<Rightarrow> bool \<Rightarrow> string list \<Rightarrow> 'v PrefillResult \<Rightarrow> 'v executor \<Rightarrow> ('v, unit) exec_result" where
  "store_prefill_results E update ids prefill x =
     bind_st (select_initial_prefill_beams_batched E ids prefill x, x) (\<lambda>sel x1. store_rows E update prefill sel 0 ids x1)"

definition run_uncached_prefill_requests :: "'v serving_engine \<Rightarrow> bool \<Rightarrow> string list \<Rightarrow> 'v executor \<Rightarrow> ('v, unit) exec_result" where
  "run_uncached_prefill_requests E update ids x =
     bind_st (prompt_batch E ids x, x) (\<lambda>prompts x1.
     bind_st (context_kv_for_prefill ids x1) (\<lambda>window x2.
     bind_st (eng_prefill E prompts window, x2) (\<lambda>prefill x3.
       store_prefill_results E update ids prefill x3)))"

text \<open>The requests served from the cache; the answer is the others.\<close>

fun serve_from_cache :: "'v serving_engine \<Rightarrow> string list \<Rightarrow> 'v executor \<Rightarrow> ('v, string list) exec_result" where
  "serve_from_cache E [] x = (Inr [], x)"
| "serve_from_cache E (rid # ids) x =
     bind_st (prefill_from_cache E rid x) (\<lambda>cached x1.
       case cached of
         None \<Rightarrow>
           bind_st (serve_from_cache E ids (on_counts (\<lambda>n. n\<lparr>cache_misses := cache_misses n + 1\<rparr>) x1)) (\<lambda>misses x2.
             (Inr (rid # misses), x2))
       | Some prefill \<Rightarrow>
           bind_st (store_single_prefill_result E rid prefill None x1) (\<lambda>_ x2. serve_from_cache E ids x2))"

definition run_prefill_requests :: "'v serving_engine \<Rightarrow> string list \<Rightarrow> 'v executor \<Rightarrow> ('v, unit) exec_result" where
  "run_prefill_requests E ids x =
     (if \<not> pc_enabled (eng_prefix E) then run_uncached_prefill_requests E False ids x
      else bind_st (serve_from_cache E ids x) (\<lambda>misses x1.
             if misses = [] then (Inr (), x1) else run_uncached_prefill_requests E True misses x1))"

text \<open>\<open>_run_prefill\<close>: one group per prompt shape, in the order of their first requests.\<close>

definition shape_group_add :: "nat list option \<Rightarrow> string \<Rightarrow> (nat list option, string list) dict \<Rightarrow> (nat list option, string list) dict" where
  "shape_group_add k rid groups = dict_set k ((case map_of groups k of None \<Rightarrow> [] | Some ids \<Rightarrow> ids) @ [rid]) groups"

fun shape_groups ::
  "string list \<Rightarrow> 'v executor \<Rightarrow> (nat list option, string list) dict \<Rightarrow> (nat list option, string list) dict py_result" where
  "shape_groups [] x groups = Inr groups"
| "shape_groups (rid # ids) x groups =
     (case map_of (states (ex_scheduler x)) rid of
        None \<Rightarrow> Inl (KeyError ''request_id'')
      | Some st \<Rightarrow> shape_groups ids x (shape_group_add (input_shape (st_request st)) rid groups))"

fun run_prefill_groups :: "'v serving_engine \<Rightarrow> string list list \<Rightarrow> 'v executor \<Rightarrow> ('v, unit) exec_result" where
  "run_prefill_groups E [] x = (Inr (), x)"
| "run_prefill_groups E (ids # groups) x =
     bind_st (run_prefill_requests E ids x) (\<lambda>_ x1. run_prefill_groups E groups x1)"

definition run_prefill :: "'v serving_engine \<Rightarrow> string list \<Rightarrow> 'v executor \<Rightarrow> ('v, unit) exec_result" where
  "run_prefill E ids x =
     bind_st (shape_groups ids x [], x) (\<lambda>groups x1. run_prefill_groups E (dict_values groups) x1)"

end
