(* ===== verification/GR_Executor.thy ===== *)
theory GR_Executor
  imports GR_Exec_Prefill GR_Continuous_Tick
begin

text \<open>
  \<open>GRContinuousServingExecutor\<close> as a whole: a tick of the scheduler with the executor's own prefill and decode,
  what is released when a request has finished, and the operations around it.
\<close>

section \<open>Releasing what a finished request held\<close>

text \<open>A release by an unknown id, or of a request without a lease, does nothing.\<close>

definition release_beam_kv_pool_lease :: "string \<Rightarrow> 'v executor \<Rightarrow> 'v executor" where
  "release_beam_kv_pool_lease rid x =
     (if map_of (states (ex_scheduler x)) rid = None \<or> rt_beam_lease (runtime_of rid x) = None then x
      else set_runtime rid ((runtime_of rid x)\<lparr>rt_beam_lease := None\<rparr>)
             (x\<lparr>ex_beam_pool := map_option (\<lambda>p. snd (pool_release rid p)) (ex_beam_pool x)\<rparr>))"

definition drop_prompt :: "string \<Rightarrow> 'v executor \<Rightarrow> 'v executor" where
  "drop_prompt rid = set_request_state rid (\<lambda>st. st\<lparr>st_request := (st_request st)\<lparr>req_input_ids := IdsNone\<rparr>\<rparr>)"

definition release_context_kv_pool_lease :: "string \<Rightarrow> 'v executor \<Rightarrow> 'v executor" where
  "release_context_kv_pool_lease rid x =
     (if map_of (states (ex_scheduler x)) rid = None \<or> rt_context_lease (runtime_of rid x) = None then x
      else drop_prompt rid (set_runtime rid ((runtime_of rid x)\<lparr>rt_context_lease := None\<rparr>)
             (x\<lparr>ex_context_pool := map_option (\<lambda>p. snd (pool_release rid p)) (ex_context_pool x)\<rparr>)))"

definition clear_finished_runtime_state :: "string \<Rightarrow> 'v executor \<Rightarrow> 'v executor" where
  "clear_finished_runtime_state rid x =
     (case map_of (states (ex_scheduler x)) rid of
        None \<Rightarrow> x
      | Some st \<Rightarrow>
          if st_stage st \<noteq> Finished then x
          else drop_prompt rid (set_runtime rid (new_runtime\<lparr>rt_context_lease := rt_context_lease (runtime_of rid x)\<rparr>) x))"

definition drop_batched_prefill_cache_for :: "string list \<Rightarrow> 'v executor \<Rightarrow> 'v executor" where
  "drop_batched_prefill_cache_for ids x =
     (if ids = [] then x
      else x\<lparr>ex_prefill_batches := filter (\<lambda>(k, _). set k \<inter> set ids = {}) (ex_prefill_batches x),
             ex_inputs_cache := drop_inputs_for ids (ex_inputs_cache x),
             ex_topk_cache := drop_topk_for ids (ex_topk_cache x)\<rparr>)"

text \<open>\<open>_attach_execution_metadata\<close>: \<open>setdefault\<close> on a retained response, then everything the request held.\<close>

definition dict_setdefault :: "'k \<Rightarrow> 'v \<Rightarrow> ('k, 'v) dict \<Rightarrow> ('k, 'v) dict" where
  "dict_setdefault k v d = (if map_of d k = None then d @ [(k, v)] else d)"

definition attach_timing :: "(string, pyval) dict \<Rightarrow> GRServingResponse \<Rightarrow> GRServingResponse" where
  "attach_timing timing resp =
     resp\<lparr>resp_metadata := fold (\<lambda>(k, v). dict_setdefault k v) ((''continuous_execution'', PStr ''model_step'') # timing)
        (resp_metadata resp)\<rparr>"

definition attach_response :: "string \<Rightarrow> 'v executor \<Rightarrow> 'v executor" where
  "attach_response rid x =
     (let s = ex_scheduler x in
      case map_of (finished s) rid of
        None \<Rightarrow> x
      | Some resp \<Rightarrow> x\<lparr>ex_scheduler := s\<lparr>finished := dict_set rid (attach_timing (ex_timing x) resp) (finished s)\<rparr>\<rparr>)"

definition release_request :: "string \<Rightarrow> 'v executor \<Rightarrow> 'v executor" where
  "release_request rid x =
     clear_finished_runtime_state rid (release_context_kv_pool_lease rid (release_beam_kv_pool_lease rid (attach_response rid x)))"

definition attach_execution_metadata :: "string list \<Rightarrow> 'v executor \<Rightarrow> 'v executor" where
  "attach_execution_metadata ids x = drop_batched_prefill_cache_for ids (fold release_request ids x)"

section \<open>Operations\<close>

definition executor_submit_request :: "GRServingRequest \<Rightarrow> 'v executor \<Rightarrow> ('v, unit) exec_result" where
  "executor_submit_request r x = on_scheduler (submit r) x"

definition executor_cancel :: "string \<Rightarrow> string \<Rightarrow> 'v executor \<Rightarrow> ('v, GRServingResponse) exec_result" where
  "executor_cancel rid reason x =
     bind_st (on_scheduler (cancel rid reason) x) (\<lambda>resp x1. (Inr resp, attach_execution_metadata [rid] x1))"

definition executor_fail :: "string \<Rightarrow> string \<Rightarrow> error_info option \<Rightarrow> 'v executor \<Rightarrow> ('v, GRServingResponse) exec_result" where
  "executor_fail rid reason err x =
     bind_st (on_scheduler (fail rid reason err) x) (\<lambda>resp x1. (Inr resp, attach_execution_metadata [rid] x1))"

text \<open>\<open>GRContinuousScheduler.tick\<close> with the executor's prefill and decode.\<close>

definition run_decode :: "'v serving_engine \<Rightarrow> GRContinuousDecodeBatch list \<Rightarrow> 'v executor \<Rightarrow> ('v, string list) exec_result" where
  "run_decode E = run_decode_batches (eng_decode E) (eng_torch E) (eng_fill_key E) (eng_fill_value E) (eng_config E)"

definition decode_phase ::
  "'v serving_engine \<Rightarrow> string list \<Rightarrow> string list \<Rightarrow> 'v executor \<Rightarrow> ('v, GRContinuousTickResult) exec_result" where
  "decode_phase E timed_out prefill x =
     bind_st (on_scheduler plan_decode_batches x) (\<lambda>batches x1.
       case run_decode E batches x1 of
         (Inr fin, x2) \<Rightarrow> on_scheduler (finish_tick prefill batches (timed_out @ fin)) x2
       | (Inl e, x2) \<Rightarrow>
           bind_st (on_scheduler (fail_request_ids (concat (map batch_request_ids batches)) ''decode_failed'' (Some (ErrorExc e))) x2)
             (\<lambda>fin x3. on_scheduler (finish_tick prefill batches (timed_out @ fin)) x3))"

definition scheduler_tick :: "'v serving_engine \<Rightarrow> 'v executor \<Rightarrow> ('v, GRContinuousTickResult) exec_result" where
  "scheduler_tick E x =
     bind_st (on_scheduler (\<lambda>s. fail_timed_out_requests (s\<lparr>tick_count := tick_count s + 1\<rparr>)) x) (\<lambda>timed_out x1.
     bind_st (on_scheduler admit_prefill_batch x1) (\<lambda>prefill x2.
       case run_prefill E prefill x2 of
         (Inr _, x3) \<Rightarrow> decode_phase E timed_out prefill x3
       | (Inl e, x3) \<Rightarrow>
           bind_st (on_scheduler (fail_request_ids prefill ''prefill_failed'' (Some (ErrorExc e))) x3)
             (\<lambda>failed x4. on_scheduler (finish_tick prefill [] (timed_out @ failed)) x4)))"

definition executor_tick :: "'v serving_engine \<Rightarrow> 'v executor \<Rightarrow> ('v, GRContinuousTickResult) exec_result" where
  "executor_tick E x =
     bind_st (scheduler_tick E x) (\<lambda>result x1. (Inr result, attach_execution_metadata (finished_request_ids result) x1))"

fun executor_run_loop :: "'v serving_engine \<Rightarrow> nat \<Rightarrow> int \<Rightarrow> int option \<Rightarrow> bool \<Rightarrow> 'v executor \<Rightarrow> ('v, unit) exec_result option" where
  "executor_run_loop E 0 ticks max_ticks timeout_unfinished x = None"
| "executor_run_loop E (Suc fuel) ticks max_ticks timeout_unfinished x =
     (if waiting_prefill (ex_scheduler x) = [] \<and> decoding (ex_scheduler x) = [] then Some (Inr (), x)
      else if (case max_ticks of None \<Rightarrow> False | Some m \<Rightarrow> ticks \<ge> m)
      then Some (if timeout_unfinished
                 then bind_st (on_scheduler (fail_unfinished ''timeout'' None) x) (\<lambda>ids x1. (Inr (), attach_execution_metadata ids x1))
                 else (Inr (), x))
      else case executor_tick E x of
             (Inl e, x1) \<Rightarrow> Some (Inl e, x1)
           | (Inr _, x1) \<Rightarrow> executor_run_loop E fuel (ticks + 1) max_ticks timeout_unfinished x1)"

definition executor_run_until_empty ::
  "'v serving_engine \<Rightarrow> nat \<Rightarrow> int option \<Rightarrow> bool \<Rightarrow> 'v executor \<Rightarrow> ('v, GRServingResponse list) exec_result option" where
  "executor_run_until_empty E fuel max_ticks timeout_unfinished x =
     map_option (\<lambda>r. bind_st r (\<lambda>_ x1. (Inr (dict_values (finished (ex_scheduler x1))), x1)))
       (executor_run_loop E fuel 0 max_ticks timeout_unfinished x)"

section \<open>Health of the beam pool\<close>

definition active_pool_request_ids :: "'v executor \<Rightarrow> string list" where
  "active_pool_request_ids x = filter (\<lambda>rid. rt_beam_lease (runtime_of rid x) \<noteq> None) (decoding (ex_scheduler x))"

definition orphaned_leases :: "'v executor \<Rightarrow> string list" where
  "orphaned_leases x =
     (case ex_beam_pool x of None \<Rightarrow> []
      | Some p \<Rightarrow> sort (filter (\<lambda>rid. rid \<notin> set (active_pool_request_ids x)) (dict_keys (pool_leases p))))"

definition missing_leases :: "'v executor \<Rightarrow> string list" where
  "missing_leases x =
     (case ex_beam_pool x of None \<Rightarrow> []
      | Some p \<Rightarrow> sort (filter (\<lambda>rid. rid \<notin> set (dict_keys (pool_leases p))) (active_pool_request_ids x)))"

definition beam_kv_pool_health_status :: "'v executor \<Rightarrow> (string, pyval) dict" where
  "beam_kv_pool_health_status x =
     (let orphaned = orphaned_leases x; missing = missing_leases x in
     [(''beam_kv_pool_leak_detected'', PBool (orphaned \<noteq> [] \<or> missing \<noteq> [])),
      (''beam_kv_pool_orphaned_leases'', PList (map PStr orphaned)),
      (''beam_kv_pool_missing_leases'', PList (map PStr missing)),
      (''beam_kv_pool_orphaned_lease_count'', PInt (int (length orphaned))),
      (''beam_kv_pool_missing_lease_count'', PInt (int (length missing)))])"

end
