(* ===== verification/GR_Exec_Refine.thy ===== *)
theory GR_Exec_Refine
  imports GR_Exec_Decode GR_Continuous_Tick
begin

text \<open>
  The two decode routes of \<open>GR_Exec_Decode\<close> agree. What a pending tensor selection stands for is the beam
  path it will be flushed into; seen through the flush (\<open>observed\<close>), a step of the tensor route is a step of
  the general route. The lemmas go from the pieces to the whole: the batched flush is the flush one by
  one, indices gathered through the parent tensors are the indices of the beam paths, the two selections
  are the same rows, and so are the finished requests and the scheduler they leave.
\<close>

section \<open>Flushing\<close>

lemma flush_loop_snoc:
  "flush_loop p (pend @ [(ps, ts, ss)]) final =
     (case flush_loop p pend final of
        (Inl e, p') \<Rightarrow> (Inl e, p')
      | (Inr _, p') \<Rightarrow> (case path_append p' ps ts ss of Inl e \<Rightarrow> (Inl e, p') | Inr p'' \<Rightarrow> (Inr (ts, ss), p'')))"
  by (induction p pend final rule: flush_loop.induct) (auto split: sum.splits)

lemma flush_loop_wf: "wf_path p \<Longrightarrow> flush_loop p pend final = (r, p') \<Longrightarrow> wf_path p'"
  by (induction p pend final rule: flush_loop.induct) (auto split: sum.splits intro: path_append_wf)

text \<open>The rows a flush returns are those of the last entry.\<close>

lemma flush_loop_last:
  "flush_loop p pend final = (Inr row, p') \<Longrightarrow> entries p \<noteq> [] \<Longrightarrow> final = (token_ids (last (entries p)), scores (last (entries p))) \<Longrightarrow>
   entries p' \<noteq> [] \<and> row = (token_ids (last (entries p')), scores (last (entries p')))"
proof (induction p pend final rule: flush_loop.induct)
  case (2 path parents tokens scs pend final)
  obtain q where q: "path_append path parents tokens scs = Inr q" and rest: "flush_loop q pend (tokens, scs) = (Inr row, p')"
    using "2.prems"(1) by (auto split: sum.splits)
  have "entries q \<noteq> [] \<and> (tokens, scs) = (token_ids (last (entries q)), scores (last (entries q)))"
    using q by (auto simp: path_append_Inr)
  then show ?case using "2.IH" [OF q rest] by blast
qed simp

lemma flush_selections_pending: "flush_selections (pending_selections rt) rt = flush_pending rt"
  by (simp add: flush_pending_def)

lemma stacked_pending:
  assumes "stack_pending_decode_field pending_decode_parent_beams rts n = Inr parents"
    and "stack_pending_decode_field pending_decode_token_ids rts n = Inr toks"
    and "stack_pending_decode_field pending_decode_scores rts n = Inr scs"
    and "\<forall>rt \<in> set rts. length (pending_decode_token_ids rt) = n \<and> length (pending_decode_scores rt) = n \<and> length (pending_decode_parent_beams rt) = n"
    and "b < length rts"
  shows "map (\<lambda>step. (parents ! step ! b, toks ! step ! b, scs ! step ! b)) [0..<n] = pending_selections (rts ! b)"
proof (rule nth_equalityI)
  have nth: "xs ! i = map (\<lambda>rt. field rt ! i) rts"
    if "stack_pending_decode_field field rts n = Inr xs" "i < n" for xs i and field :: "'a GRRequestRuntime \<Rightarrow> 'c list list"
  proof -
    have "stack_rows (map (\<lambda>rt. field rt ! ([0..<n] ! i)) rts) = Inr (xs ! i)"
      using map_res_nth [OF that(1) [unfolded stack_pending_decode_field_def]] that(2) by simp
    then show ?thesis using that(2) by (simp add: stack_rows_def split: if_splits)
  qed
  have len: "length (pending_selections (rts ! b)) = n" using assms(4,5) by (simp add: pending_selections_def)
  then show "length (map (\<lambda>step. (parents ! step ! b, toks ! step ! b, scs ! step ! b)) [0..<n]) = length (pending_selections (rts ! b))"
    by simp
  fix i assume "i < length (map (\<lambda>step. (parents ! step ! b, toks ! step ! b, scs ! step ! b)) [0..<n])"
  then have i: "i < n" by simp
  show "map (\<lambda>step. (parents ! step ! b, toks ! step ! b, scs ! step ! b)) [0..<n] ! i = pending_selections (rts ! b) ! i"
    using i assms(4,5) by (simp add: nth [OF assms(1) i] nth [OF assms(2) i] nth [OF assms(3) i] pending_selections_def)
qed

lemma flush_stacked_each:
  "pends = map pending_selections rts \<Longrightarrow> flush_stacked pends rts = flush_each rts"
proof (induction rts arbitrary: pends)
  case (Cons rt rts)
  then show ?case by (auto simp: flush_selections_pending split: prod.splits sum.splits)
qed simp

lemma flush_batch_stacked:
  assumes "rts \<noteq> []" and "n = length (pending_decode_token_ids (hd rts))" and "n \<noteq> 0"
    and "\<forall>rt \<in> set rts. length (pending_decode_token_ids rt) = n \<and> length (pending_decode_scores rt) = n \<and> length (pending_decode_parent_beams rt) = n"
  shows "flush_batch rts = flush_each rts"
proof -
  let ?P = "stack_pending_decode_field pending_decode_parent_beams rts n"
  let ?T = "stack_pending_decode_field pending_decode_token_ids rts n"
  let ?S = "stack_pending_decode_field pending_decode_scores rts n"
  have unf: "flush_batch rts = (case (?P, ?T, ?S) of
             (Inr parents, Inr toks, Inr scs) \<Rightarrow>
               flush_stacked (map (\<lambda>b. map (\<lambda>step. (parents ! step ! b, toks ! step ! b, scs ! step ! b)) [0..<n]) [0..<length rts]) rts
           | _ \<Rightarrow> flush_each rts)"
  proof -
    obtain rt rest where r: "rts = rt # rest" using assms(1) by (cases rts) auto
    show ?thesis using assms(2-4) unfolding r by (simp add: flush_batch_def)
  qed
  show ?thesis
  proof (cases ?P; cases ?T; cases ?S)
    fix parents toks scs assume s: "?P = Inr parents" "?T = Inr toks" "?S = Inr scs"
    note pend = stacked_pending [OF s assms(4)]
    have "map (\<lambda>b. map (\<lambda>step. (parents ! step ! b, toks ! step ! b, scs ! step ! b)) [0..<n]) [0..<length rts] = map pending_selections rts"
      by (rule nth_equalityI) (simp_all add: pend)
    then show ?thesis unfolding unf s by (simp add: flush_stacked_each)
  qed (simp_all add: unf)
qed

text \<open>The batched flush does what flushing the requests one by one does, errors and partial effects
  included: whether the pending tensors stack or not, the rows, the exception and the runtime states
  are the same.\<close>

theorem batched_flush_agrees: "flush_batch rts = flush_each rts"
proof (cases rts)
  case Nil
  then show ?thesis by (simp add: flush_batch_def)
next
  case (Cons rt rest)
  let ?n = "length (pending_decode_token_ids rt)"
  show ?thesis
  proof (cases "?n \<noteq> 0 \<and> (\<forall>s \<in> set rts. length (pending_decode_token_ids s) = ?n \<and> length (pending_decode_scores s) = ?n \<and> length (pending_decode_parent_beams s) = ?n)")
    case True
    then show ?thesis by (intro flush_batch_stacked [of rts ?n]) (auto simp: Cons)
  next
    case False
    then have "?n = 0 \<or> (\<exists>s \<in> set rts. length (pending_decode_token_ids s) \<noteq> ?n) \<or> (\<exists>s \<in> set rts. length (pending_decode_scores s) \<noteq> ?n)
      \<or> (\<exists>s \<in> set rts. length (pending_decode_parent_beams s) \<noteq> ?n)" by blast
    then show ?thesis unfolding flush_batch_def Cons list.case Let_def by (simp only: if_True)
  qed
qed

section \<open>Indices gathered through the parents\<close>

text \<open>A path all of whose steps have \<open>W\<close> beams.\<close>

definition path_uniform :: "int \<Rightarrow> BeamPath \<Rightarrow> bool" where
  "path_uniform W p \<longleftrightarrow> wf_path p \<and> entries p \<noteq> [] \<and> (\<forall>e \<in> set (entries p). entry_width e = W)"

lemma path_uniformD:
  assumes "path_uniform W p" and "i < length (entries p)"
  shows "0 < W" and "length (parent_beams (entries p ! i)) = nat W" and "length (token_ids (entries p ! i)) = nat W"
    and "length (scores (entries p ! i)) = nat W" and "\<forall>q \<in> set (parent_beams (entries p ! i)). 0 \<le> q \<and> q < W"
proof -
  have wf: "wf_entries (path_beam_width p) 1 (entries p)" using assms(1) by (simp add: path_uniform_def wf_path_def)
  note nth = wf_entries_nth [OF wf assms(2)]
  have w: "entry_width (entries p ! i) = W" using assms by (simp add: path_uniform_def)
  show W: "0 < W" using nth w by (auto simp: entry_width_def)
  show "length (parent_beams (entries p ! i)) = nat W" "length (token_ids (entries p ! i)) = nat W" "length (scores (entries p ! i)) = nat W"
    using nth w by (auto simp: entry_width_def)
  have "last_width 1 (take i (entries p)) \<le> W"
  proof (cases "take i (entries p) = []")
    case True
    show ?thesis unfolding True using W by simp
  next
    case False
    then have "last (take i (entries p)) \<in> set (entries p)" by (meson in_set_takeD last_in_set)
    then show ?thesis using False assms(1) by (simp add: last_width_def path_uniform_def)
  qed
  then show "\<forall>q \<in> set (parent_beams (entries p ! i)). 0 \<le> q \<and> q < W" using nth by fastforce
qed

lemma gather_columns:
  assumes "\<forall>e \<in> set es. length (parent_beams e) = nat W \<and> (\<forall>q \<in> set (parent_beams e). 0 \<le> q \<and> q < W)"
    and "\<forall>c \<in> set cur. 0 \<le> c \<and> c < W"
  shows "\<exists>anc. gather_ancestry (map parent_beams es) cur = Inr anc \<and> length anc = length es \<and> (\<forall>row \<in> set anc. length row = length cur)
    \<and> (\<forall>i < length cur. ancestry_loop es (cur ! i) = Inr (rev (map (\<lambda>row. row ! i) anc)))"
  using assms
proof (induction es arbitrary: cur)
  case (Cons e es)
  let ?older = "map (\<lambda>c. parent_beams e ! nat c) cur"
  have len: "length (parent_beams e) = nat W" and par: "\<forall>q \<in> set (parent_beams e). 0 \<le> q \<and> q < W" using Cons.prems(1) by auto
  have in_row: "nat c < length (parent_beams e)" if "c \<in> set cur" for c using Cons.prems(2) that len by fastforce
  have g: "gather (parent_beams e) cur = Inr ?older" using Cons.prems(2) len by (auto simp: gather_def)
  have "\<forall>c \<in> set ?older. 0 \<le> c \<and> c < W" using in_row par by fastforce
  then obtain anc where anc: "gather_ancestry (map parent_beams es) ?older = Inr anc" "length anc = length es"
    "\<forall>row \<in> set anc. length row = length cur"
    "\<forall>i < length cur. ancestry_loop es (?older ! i) = Inr (rev (map (\<lambda>row. row ! i) anc))"
    using Cons.IH [of ?older] Cons.prems(1) by auto
  have "ancestry_loop (e # es) (cur ! i) = Inr (rev (map (\<lambda>row. row ! i) (anc @ [cur])))" if i: "i < length cur" for i
  proof -
    have c: "cur ! i \<in> set cur" using i by simp
    then have r: "0 \<le> cur ! i" "cur ! i < entry_width e" using Cons.prems(2) len by (auto simp: entry_width_def)
    then show ?thesis using anc(4) i in_row [OF c] by (simp add: entry_width_def)
  qed
  then show ?case using g anc by auto
qed simp

lemma history_pattern_path:
  assumes "path_uniform W p" and "0 < D" and "D \<le> steps_done p"
  shows "history_pattern (map parent_beams (entries p)) D W = path_pattern p D W"
proof -
  let ?es = "take (nat D) (entries p)"
  have len: "length ?es = nat D" using assms(2,3) by (simp add: steps_done_def)
  have mem: "\<exists>i < length (entries p). e = entries p ! i" if "e \<in> set ?es" for e
    using that by (metis in_set_conv_nth in_set_takeD)
  have rows: "\<forall>e \<in> set (rev ?es). length (parent_beams e) = nat W \<and> (\<forall>q \<in> set (parent_beams e). 0 \<le> q \<and> q < W)"
    using mem path_uniformD(2,5) [OF assms(1)] by fastforce
  obtain anc where anc: "gather_ancestry (map parent_beams (rev ?es)) (py_range W) = Inr anc" "length anc = nat D"
    "\<forall>row \<in> set anc. length row = nat W"
    "\<forall>i < nat W. ancestry_loop (rev ?es) (int i) = Inr (rev (map (\<lambda>row. row ! i) anc))"
    using gather_columns [OF rows, of "py_range W"] len by auto
  have hist: "history_pattern (map parent_beams (entries p)) D W = Inr (map (\<lambda>d. map (\<lambda>a. d * W + a) (anc ! nat d)) (py_range D))"
    using anc(1) by (simp add: history_pattern_def take_map rev_map)
  have e: "py_get (entries p) (D - 1) = Inr (entries p ! nat (D - 1))" using assms(2,3) by (simp add: steps_done_def)
  have w: "entry_width (entries p ! nat (D - 1)) = W"
    using assms by (auto simp: path_uniform_def steps_done_def)
  have "beam_ancestry p q D = Inr (map (\<lambda>row. row ! nat q) anc)" if "q \<in> set (py_range W)" for q
  proof -
    have q: "0 \<le> q" "q < W" "nat q < nat W" using that by auto
    have "ancestry_loop (rev ?es) q = Inr (rev (map (\<lambda>row. row ! nat q) anc))" using anc(4) q by fastforce
    then show ?thesis using e w q by (simp add: beam_ancestry_def)
  qed
  then have "map_res (\<lambda>q. beam_ancestry p q D) (py_range W) = Inr (map (\<lambda>q. map (\<lambda>row. row ! nat q) anc) (py_range W))"
    by (rule map_res_total)
  moreover have "pattern_of D W (map (\<lambda>q. map (\<lambda>row. row ! nat q) anc) (py_range W)) = map (\<lambda>d. map (\<lambda>a. d * W + a) (anc ! nat d)) (py_range D)"
    unfolding pattern_of_def
  proof (rule map_cong [OF refl])
    fix d assume "d \<in> set (py_range D)"
    then have d: "nat d < length anc" using anc(2) by auto
    then have "length (anc ! nat d) = nat W" using anc(3) by simp
    then show "map (\<lambda>anc. d * W + anc ! nat d) (map (\<lambda>q. map (\<lambda>row. row ! nat q) anc) (py_range W)) = map (\<lambda>a. d * W + a) (anc ! nat d)"
      using d by (intro nth_equalityI) simp_all
  qed
  ultimately show ?thesis using hist by (simp add: path_pattern_def)
qed

text \<open>The tensor route's index tensor, gathered in one pass through the parent tensors kept on the device,
  is the index tensor the general route computes beam by beam from the beam paths.\<close>

theorem gathered_indices_agree:
  assumes "\<forall>p \<in> set paths. path_uniform W p \<and> D \<le> steps_done p" and "0 < D" and "0 < W" and "paths \<noteq> []"
  shows "parent_history_topk_indices (map (\<lambda>p. map parent_beams (entries p)) paths) H D W = make_batched_topk_indices paths H D W"
proof -
  let ?hs = "map (\<lambda>p. map parent_beams (entries p)) paths"
  have steps: "\<not> batched_steps_done paths < D" using assms(1,4) by (cases paths) (auto simp: batched_steps_done_def)
  have long: "\<not> (\<exists>h \<in> set ?hs. int (length h) < D)" using assms(1) by (force simp: steps_done_def)
  have pats: "map_res (\<lambda>h. history_pattern h D W) ?hs = map_res (\<lambda>p. path_pattern p D W) paths"
    by (rule map_res_rel) (use assms(1) history_pattern_path [OF _ assms(2)] in \<open>auto simp: list_all2_conv_all_nth\<close>)
  have row: "length (parent_beams (entries p ! step)) = nat W" if "p \<in> set paths" "step < nat D" for p step
    using path_uniformD(2) [of W p step] assms(1) that by (auto simp: steps_done_def)
  have "stack_rows (map (\<lambda>h. h ! step) ?hs) = Inr (map (\<lambda>h. h ! step) ?hs)" if "step < nat D" for step
  proof -
    have "map parent_beams (entries p) ! step = parent_beams (entries p ! step)" if p: "p \<in> set paths" for p
      using assms(1) p \<open>step < nat D\<close> by (force simp: steps_done_def)
    then have "\<forall>r \<in> set (map (\<lambda>h. h ! step) ?hs). length r = nat W" using row that by simp
    then have "same_lengths (map (\<lambda>h. h ! step) ?hs)" using assms(4) by (auto simp: same_lengths_def hd_map)
    then show ?thesis by (simp add: stack_rows_def)
  qed
  then have "map_res (\<lambda>step. stack_rows (map (\<lambda>h. h ! step) ?hs)) [0..<nat D]
      = Inr (map (\<lambda>step. map (\<lambda>h. h ! step) ?hs) [0..<nat D])"
    by (intro map_res_total) simp
  then show ?thesis
    using assms(2-4) steps long pats by (simp add: parent_history_topk_indices_def make_batched_topk_indices_def)
qed

section \<open>Runtimes of a batch\<close>

lemma runtime_of_set_runtime [simp]:
  "runtime_of rid (set_runtime rid' rt x) = (if rid = rid' then rt else runtime_of rid x)"
  by (simp add: runtime_of_def set_runtime_def update_conv')

text \<open>What the two routes leave the same: everything but the runtimes and the two caches.\<close>

definition frame :: "'v executor \<Rightarrow> sched \<times> GRBeamKVPoolLease dense_pool option \<times> GRContextKVPoolLease dense_pool option
   \<times> (string list, 'v PrefillResult) dict \<times> 'v PrefillResult prefix_cache \<times> prefill_counts \<times> (string, pyval) dict" where
  "frame x = (ex_scheduler x, ex_beam_pool x, ex_context_pool x, ex_prefill_batches x, ex_prefill_cache x, ex_prefill_counts x, ex_timing x)"

lemma frame_eq: "frame x = frame y \<longleftrightarrow> ex_scheduler x = ex_scheduler y \<and> ex_beam_pool x = ex_beam_pool y
    \<and> ex_context_pool x = ex_context_pool y \<and> ex_prefill_batches x = ex_prefill_batches y
    \<and> ex_prefill_cache x = ex_prefill_cache y \<and> ex_prefill_counts x = ex_prefill_counts y \<and> ex_timing x = ex_timing y"
  by (simp add: frame_def)

lemma frameD: "frame x = frame y \<Longrightarrow> ex_scheduler x = ex_scheduler y" "frame x = frame y \<Longrightarrow> ex_timing x = ex_timing y"
  by (simp_all add: frame_eq)

lemma executor_eta: "x\<lparr>ex_scheduler := ex_scheduler x\<rparr> = x"
  by simp

lemma frame_set_runtime [simp]: "frame (set_runtime rid rt x) = frame x"
  by (simp add: frame_def set_runtime_def)

lemma caches_set_runtime [simp]: "ex_topk_cache (set_runtime rid rt x) = ex_topk_cache x" "ex_inputs_cache (set_runtime rid rt x) = ex_inputs_cache x"
  by (simp_all add: set_runtime_def)

lemma set_runtimes_keep [simp]:
  "frame (set_runtimes ids rts x) = frame x" "ex_topk_cache (set_runtimes ids rts x) = ex_topk_cache x"
  "ex_inputs_cache (set_runtimes ids rts x) = ex_inputs_cache x"
  by (induction ids rts x rule: set_runtimes.induct) simp_all

lemma runtime_of_other: "rid \<notin> set ids \<Longrightarrow> runtime_of rid (set_runtimes ids rts x) = runtime_of rid x"
  by (induction ids rts x rule: set_runtimes.induct) auto

lemma runtime_of_nth:
  "distinct ids \<Longrightarrow> length rts = length ids \<Longrightarrow> k < length ids \<Longrightarrow> runtime_of (ids ! k) (set_runtimes ids rts x) = rts ! k"
proof (induction ids rts x arbitrary: k rule: set_runtimes.induct)
  case (1 rid ids rt rts x)
  then show ?case by (cases k) (auto simp: runtime_of_other)
qed auto

lemma runtimes_set_runtimes:
  assumes "distinct ids" and "length rts = length ids"
  shows "runtimes ids (set_runtimes ids rts x) = rts"
  by (rule nth_equalityI) (simp_all add: runtimes_def runtime_of_nth [OF assms] assms(2))

lemma length_runtimes [simp]: "length (runtimes ids x) = length ids"
  by (simp add: runtimes_def)

lemma runtimes_nth [simp]: "k < length ids \<Longrightarrow> runtimes ids x ! k = runtime_of (ids ! k) x"
  by (simp add: runtimes_def)

lemma write_rows_keep [simp]:
  "frame (write_rows f i ids x) = frame x" "ex_topk_cache (write_rows f i ids x) = ex_topk_cache x"
  "ex_inputs_cache (write_rows f i ids x) = ex_inputs_cache x"
  by (induction f i ids x rule: write_rows.induct) simp_all

abbreviation map_kv :: "('v BeamKV \<Rightarrow> 'v BeamKV) \<Rightarrow> 'v GRRequestRuntime \<Rightarrow> 'v GRRequestRuntime" where
  "map_kv f \<equiv> map_generation (\<lambda>g. g\<lparr>gen_beam_kv := f (gen_beam_kv g)\<rparr>)"

lemma write_rows_other: "rid \<notin> set ids \<Longrightarrow> runtime_of rid (write_rows f i ids x) = runtime_of rid x"
  by (induction f i ids x rule: write_rows.induct) auto

lemma write_rows_nth:
  "distinct ids \<Longrightarrow> k < length ids \<Longrightarrow> runtime_of (ids ! k) (write_rows f i ids x) = map_kv (f (i + int k)) (runtime_of (ids ! k) x)"
proof (induction f i ids x arbitrary: k rule: write_rows.induct)
  case (2 f i rid ids x)
  show ?case
  proof (cases k)
    case 0
    then show ?thesis using "2.prems" by (simp add: write_rows_other)
  next
    case (Suc j)
    then have "ids ! j \<noteq> rid" using "2.prems" by auto
    then show ?thesis using "2.IH" [of j] "2.prems" Suc by (simp add: algebra_simps)
  qed
qed simp

text \<open>Where the KV of the step ends up in request \<open>k\<close>, on either route.\<close>

definition kv_effect :: "bool \<Rightarrow> 'v BeamKV \<Rightarrow> int \<Rightarrow> int \<Rightarrow> int \<Rightarrow> 'v BeamKV \<Rightarrow> 'v BeamKV" where
  "kv_effect shared kv step width b = (if shared then row_kv b kv else scatter_row step width b kv)"

lemma bind_st_Inr_iff: "bind_st m f = (Inr z, s') \<longleftrightarrow> (\<exists>y s1. m = (Inr y, s1) \<and> f y s1 = (Inr z, s'))"
  by (cases m; cases "fst m") (auto simp: bind_st_def)

lemma forward_Inr:
  assumes "forward_decode_step fwd shared ids tokens gen step width idx D x = (Inr (logits, kv), x')"
  shows "fwd tokens gen step width idx D = (Inr logits, kv)" and "x' = (if shared then write_rows (\<lambda>b. row_kv b kv) 0 ids x else x)"
  using assms by (auto simp: forward_decode_step_def bind_st_Inr_iff split: prod.splits)

lemma scatter_Inr:
  assumes "scatter_batched_beam_kv shared kv ids step width x = (Inr u, x')"
  shows "step < kv_max_decode_steps kv" and "x' = (if shared then x else write_rows (\<lambda>b. scatter_row step width b kv) 0 ids x)"
  using assms by (auto simp: scatter_batched_beam_kv_def split: if_splits)


section \<open>One selection\<close>

lemma select_row_length:
  assumes T: "torch_contract T" and "\<forall>row \<in> set rows. length row = v" and "length prev = length rows" and "k \<le> length rows * v" and "0 < k"
  shows "length (row_tokens (select_row T mode k (min k v) rows prev)) = k"
    and "length (row_values (select_row T mode k (min k v) rows prev)) = k"
    and "length (row_parents (select_row T mode k (min k v) rows prev)) = k"
proof -
  let ?flat = "concat (add_prev (map fst (map (local_topk T mode (min k v)) rows)) prev)"
  have row: "length (fst (local_topk T mode (min k v) r)) = min k v" if "r \<in> set rows" for r
    using topkD(1) [OF T, of "min k v" r] assms(2) that by (simp add: local_topk_def Let_def)
  have "\<forall>r \<in> set (add_prev (map fst (map (local_topk T mode (min k v)) rows)) prev). length r = min k v"
    using row by (auto simp: add_prev_def zip_map1 dest!: set_zip_leftD)
  then have len: "length ?flat = length rows * min k v"
    using length_concat_rows [of "add_prev (map fst (map (local_topk T mode (min k v)) rows)) prev" "min k v"] assms(3)
    by (simp add: add_prev_def del: map_map)
  have "k \<le> length rows * min k v"
  proof (cases "k \<le> v")
    case True
    then show ?thesis using assms(4,5) by (cases rows) auto
  qed (use assms(4) in simp)
  then have top: "length (torch_topk T ?flat k) = k" using topkD(1) [OF T, of k ?flat] len by simp
  show "length (row_tokens (select_row T mode k (min k v) rows prev)) = k"
    "length (row_values (select_row T mode k (min k v) rows prev)) = k"
    "length (row_parents (select_row T mode k (min k v) rows prev)) = k"
    using top by (simp_all add: select_row_def Let_def)
qed

text \<open>The rows of a selection that is kept on the device.\<close>

definition selects_rows :: "BatchedBeamSelection \<Rightarrow> int list list \<Rightarrow> pyfloat list list \<Rightarrow> int list list \<Rightarrow> bool" where
  "selects_rows sel toks scs parents \<longleftrightarrow>
     (\<exists>tt ts tp. sel_token_ids_tensor sel = Some tt \<and> sel_scores_tensor sel = Some ts \<and> sel_parent_beams_tensor sel = Some tp
        \<and> matrix_rows tt = toks \<and> matrix_rows ts = scs \<and> matrix_rows tp = parents)"

definition rows_of_width :: "nat \<Rightarrow> 'a list list \<Rightarrow> bool" where
  "rows_of_width k rows \<longleftrightarrow> (\<forall>row \<in> set rows. length row = k)"

lemma matrix_rows_concat: "rows_of_width k rows \<Longrightarrow> matrix_rows \<lparr>tensor_shape = [length rows, k], tensor_data = concat rows\<rparr> = rows"
  by (simp add: matrix_rows_def rows_of_width_def split_rows_concat)

lemma select_on_device:
  assumes T: "torch_contract T" and wf: "wf_tensor logits" and prev: "prev \<noteq> []"
    and sel: "select_next_topk_batched T logits (Some prev) None k None mode True True = Inr sel"
  obtains ts where "select_next_topk_batched T logits None (Some \<lparr>tensor_shape = [length prev, length (hd prev)], tensor_data = concat prev\<rparr>) k None mode False False = Inr ts"
    and "selects_rows ts (sel_token_ids sel) (sel_scores sel) (sel_parent_beams sel)"
    and "sel_beam_width ts = sel_beam_width sel" and "sel_beam_width sel = nat k" and "length (sel_token_ids sel) = length prev"
    and "length (sel_scores sel) = length prev" and "length (sel_parent_beams sel) = length prev"
    and "rows_of_width (nat k) (sel_token_ids sel)" and "rows_of_width (nat k) (sel_scores sel)" and "rows_of_width (nat k) (sel_parent_beams sel)"
proof -
  obtain w v where shape: "tensor_shape logits = [length prev, w, v]" and k: "0 < k" "k \<le> int (w * v)"
    and w: "\<forall>row \<in> set prev. length row = w" and mode: "validate_score_mode mode = Inr ()"
    using sel prev by (auto simp: select_next_topk_batched_def batched_next_mask_def previous_matrix_def Let_def split: if_splits list.splits)
  let ?b = "length prev"
  have hd: "length (hd prev) = w" using w prev by simp
  have len: "length (tensor_data logits) = ?b * (w * v)" using wf shape by (simp add: wf_tensor_def)
  let ?sels = "map2 (\<lambda>block p. select_row T mode (nat k) (min (nat k) v) (split_rows w v block) p) (split_rows ?b (w * v) (tensor_data logits)) prev"
  let ?toks = "map (\<lambda>s. map int (row_tokens s)) ?sels" and ?scs = "map row_values ?sels" and ?pars = "map (\<lambda>s. map int (row_parents s)) ?sels"
  have row: "length (row_tokens s) = nat k \<and> length (row_values s) = nat k \<and> length (row_parents s) = nat k" if s: "s \<in> set ?sels" for s
  proof -
    obtain block p where bp: "(block, p) \<in> set (zip (split_rows ?b (w * v) (tensor_data logits)) prev)"
      and eq: "s = select_row T mode (nat k) (min (nat k) v) (split_rows w v block) p" using s by auto
    have "length block = w * v" using row_length [OF len] set_zip_leftD [OF bp] by blast
    then have rows: "\<forall>r \<in> set (split_rows w v block). length r = v" using row_length by blast
    have p: "length p = length (split_rows w v block)" using w set_zip_rightD [OF bp] by simp
    have kk: "nat k \<le> length (split_rows w v block) * v" using k by (simp add: nat_le_iff)
    show ?thesis using select_row_length [OF T rows p kk] k(1) eq by simp
  qed
  have fields: "sel_token_ids sel = ?toks" "sel_scores sel = ?scs" "sel_parent_beams sel = ?pars"
    using sel shape k w mode prev by (auto simp: select_next_topk_batched_def batched_next_mask_def previous_matrix_def mask_fill_def Let_def split: if_splits)
  have ls: "length ?toks = ?b" "length ?scs = ?b" "length ?pars = ?b" by simp_all
  have rw: "rows_of_width (nat k) ?toks" "rows_of_width (nat k) ?scs" "rows_of_width (nat k) ?pars"
    using row unfolding rows_of_width_def by auto
  let ?ts = "\<lparr>sel_token_ids = [], sel_scores = [], sel_parent_beams = [],
     sel_token_ids_tensor = Some \<lparr>tensor_shape = [?b, nat k], tensor_data = concat ?toks\<rparr>,
     sel_scores_tensor = Some \<lparr>tensor_shape = [?b, nat k], tensor_data = concat ?scs\<rparr>,
     sel_parent_beams_tensor = Some \<lparr>tensor_shape = [?b, nat k], tensor_data = concat ?pars\<rparr>\<rparr>"
  have sr: "split_rows ?b w (concat prev) = prev" using w by (intro split_rows_concat) simp_all
  have run: "select_next_topk_batched T logits None (Some \<lparr>tensor_shape = [length prev, length (hd prev)], tensor_data = concat prev\<rparr>) k None mode False False = Inr ?ts"
    using shape k mode hd sr by (simp add: select_next_topk_batched_def batched_next_mask_def previous_matrix_def mask_fill_def Let_def)
  have rows: "selects_rows ?ts (sel_token_ids sel) (sel_scores sel) (sel_parent_beams sel)"
    using matrix_rows_concat [OF rw(1)] matrix_rows_concat [OF rw(2)] matrix_rows_concat [OF rw(3)] ls
    unfolding fields by (simp add: selects_rows_def)
  note ls' = ls [folded fields] and rw' = rw [folded fields]
  have "sel_token_ids sel \<noteq> []" using ls'(1) prev by (metis list.size(3) length_0_conv)
  then obtain r rs where r: "sel_token_ids sel = r # rs" by (cases "sel_token_ids sel") auto
  then have "length r = nat k" using rw'(1) by (simp add: rows_of_width_def)
  then have width: "sel_beam_width sel = nat k" unfolding sel_beam_width_def r by simp
  have "sel_beam_width ?ts = nat k" by (simp add: sel_beam_width_def tensor_dim_def)
  then have same: "sel_beam_width ?ts = sel_beam_width sel" using width by (rule trans [OF _ sym])
  show thesis by (rule that [OF run rows same width ls' rw'])
qed

section \<open>A request on the tensor route\<close>

text \<open>What the runtime's pending selections will be flushed into, and that its device tensors are the newest
  entry and the parents of that path.\<close>

abbreviation last_row :: "BeamPath \<Rightarrow> int list \<times> pyfloat list" where
  "last_row p \<equiv> (token_ids (last (entries p)), scores (last (entries p)))"

definition flushes_to :: "'v GRRequestRuntime \<Rightarrow> 'v GRGenerationState \<Rightarrow> BeamPath \<Rightarrow> bool" where
  "flushes_to rt g path \<longleftrightarrow> rt_generation rt = Some g \<and> entries (gen_beam_path g) \<noteq> []
     \<and> flush_loop (gen_beam_path g) (pending_selections rt) (last_row (gen_beam_path g)) = (Inr (last_row path), path)
     \<and> length (pending_decode_scores rt) = length (pending_decode_token_ids rt)
     \<and> length (pending_decode_parent_beams rt) = length (pending_decode_token_ids rt)"

definition in_step :: "int \<Rightarrow> int \<Rightarrow> 'v GRRequestRuntime \<Rightarrow> 'v GRGenerationState \<Rightarrow> BeamPath \<Rightarrow> bool" where
  "in_step W D rt g path \<longleftrightarrow> flushes_to rt g path \<and> path_uniform W path \<and> steps_done path = D
     \<and> decode_selection_token_ids rt = Some (token_ids (last (entries path)))
     \<and> decode_selection_scores rt = Some (scores (last (entries path)))
     \<and> decode_parent_history rt = map parent_beams (entries path)"

definition flushed :: "'v GRRequestRuntime \<Rightarrow> BeamPath \<Rightarrow> 'v GRRequestRuntime" where
  "flushed rt path = clear_pending (map_generation (\<lambda>g. g\<lparr>gen_beam_path := path\<rparr>) rt)"

lemma flush_pending_to: "flushes_to rt g path \<Longrightarrow> flush_pending rt = (Inr (last_row path), flushed rt path)"
  by (simp add: flushes_to_def flush_pending_def flush_selections_def flushed_def map_generation_def clear_pending_def)

lemma flushes_to_push:
  assumes "flushes_to rt g path" and "path_append path parents toks scs = Inr path'"
  shows "flushes_to (push_selection (toks, scs, parents) (map_kv f rt)) (g\<lparr>gen_beam_kv := f (gen_beam_kv g)\<rparr>) path'"
proof -
  have "pending_selections (push_selection (toks, scs, parents) (map_kv f rt)) = pending_selections rt @ [(parents, toks, scs)]"
    using assms(1) by (simp add: pending_selections_def push_selection_def map_generation_def flushes_to_def)
  moreover have "last_row path' = (toks, scs)" using assms(2) by (auto simp: path_append_Inr)
  ultimately show ?thesis
    using assms by (simp add: flushes_to_def flush_loop_snoc push_selection_def map_generation_def)
qed

text \<open>What of a runtime is left when its pending selections are flushed and the device copies forgotten: the
  part the outside sees.\<close>

definition observed :: "'v GRRequestRuntime \<Rightarrow> 'v GRRequestRuntime" where
  "observed rt = (snd (flush_pending rt))\<lparr>decode_selection_token_ids := None, decode_selection_scores := None,
     decode_parent_history := [], pending_decode_token_ids := [], pending_decode_scores := [], pending_decode_parent_beams := []\<rparr>"

definition forget :: "'v GRRequestRuntime \<Rightarrow> 'v GRRequestRuntime" where
  "forget rt = rt\<lparr>decode_selection_token_ids := None, decode_selection_scores := None,
     decode_parent_history := [], pending_decode_token_ids := [], pending_decode_scores := [], pending_decode_parent_beams := []\<rparr>"

lemma observed_flushes: "flushes_to rt g path \<Longrightarrow> observed rt = forget (map_generation (\<lambda>g. g\<lparr>gen_beam_path := path\<rparr>) rt)"
  by (simp add: observed_def flush_pending_to flushed_def clear_pending_def forget_def)

lemma forget_simps [simp]:
  "forget (clear_pending rt) = forget rt" "forget (push_selection row rt) = forget rt"
  "forget (map_generation f rt) = map_generation f (forget rt)"
  by (simp_all add: forget_def clear_pending_def push_selection_def map_generation_def split: prod.splits)

lemma map_generation_twice [simp]: "map_generation f (map_generation h rt) = map_generation (f \<circ> h) rt"
  by (simp add: map_generation_def option.map_comp)

lemma flushes_to_flushed:
  assumes "flushes_to rt g path" and "entries path \<noteq> []"
  shows "flushes_to (flushed rt path) (g\<lparr>gen_beam_path := path\<rparr>) path"
  using assms by (simp add: flushes_to_def flushed_def clear_pending_def map_generation_def pending_selections_def)

text \<open>The step seen through the flush: pushing the row on the device is appending it to the path.\<close>

lemma observed_push:
  assumes "flushes_to rt g path" and "path_append path parents toks scs = Inr path'" and "entries path \<noteq> []"
  shows "observed (push_selection (toks, scs, parents) (map_kv f rt))
       = observed (map_generation (\<lambda>g. g\<lparr>gen_beam_path := path'\<rparr>) (map_kv f (flushed rt path)))"
proof -
  note push = flushes_to_push [OF assms(1,2), of f]
  have ne: "entries path' \<noteq> []" using assms(2) by (auto simp: path_append_Inr)
  have gen: "flushes_to (map_generation (\<lambda>g. g\<lparr>gen_beam_path := path'\<rparr>) (map_kv f (flushed rt path)))
      (g\<lparr>gen_beam_path := path', gen_beam_kv := f (gen_beam_kv g)\<rparr>) path'"
    using assms(1) ne by (simp add: flushes_to_def flushed_def clear_pending_def map_generation_def pending_selections_def)
  show ?thesis
    unfolding observed_flushes [OF push] observed_flushes [OF gen] by (simp add: flushed_def comp_def)
qed


section \<open>A batch on the tensor route\<close>

definition batch_in_step ::
  "string list \<Rightarrow> int \<Rightarrow> int \<Rightarrow> 'v executor \<Rightarrow> 'v GRGenerationState list \<Rightarrow> BeamPath list \<Rightarrow> bool" where
  "batch_in_step ids W D x gens paths \<longleftrightarrow> distinct ids \<and> ids \<noteq> [] \<and> length gens = length ids \<and> length paths = length ids
     \<and> (\<forall>k < length ids. in_step W D (runtime_of (ids ! k) x) (gens ! k) (paths ! k))"

definition with_paths :: "'v GRGenerationState list \<Rightarrow> BeamPath list \<Rightarrow> 'v GRGenerationState list" where
  "with_paths gens paths = map2 (\<lambda>g p. g\<lparr>gen_beam_path := p\<rparr>) gens paths"

lemma with_paths_fields:
  assumes "length gens = length paths"
  shows "map gen_beam_path (with_paths gens paths) = paths" "map gen_prefill (with_paths gens paths) = map gen_prefill gens"
    "map gen_beam_kv (with_paths gens paths) = map gen_beam_kv gens" "length (with_paths gens paths) = length gens"
  using assms by (auto simp: with_paths_def list_eq_iff_nth_eq)

lemma map_res_nth_total:
  assumes "length ys = length xs" and "\<And>k. k < length xs \<Longrightarrow> f (xs ! k) = Inr (ys ! k)"
  shows "map_res f xs = Inr ys"
  using assms
proof (induction xs arbitrary: ys)
  case (Cons x xs)
  obtain y ys' where ys: "ys = y # ys'" using Cons.prems(1) by (cases ys) auto
  have "f x = Inr y" using Cons.prems(2) [of 0] ys by simp
  moreover have "map_res f xs = Inr ys'" using Cons.IH [of ys'] Cons.prems ys by fastforce
  ultimately show ?case using ys by simp
qed simp

lemma uniform_last:
  assumes "path_uniform W p"
  shows "0 < W" "length (token_ids (last (entries p))) = nat W" "length (scores (last (entries p))) = nat W"
    "length (parent_beams (last (entries p))) = nat W"
proof -
  have "entries p \<noteq> []" using assms by (simp add: path_uniform_def)
  then have "last (entries p) = entries p ! (length (entries p) - 1)" "length (entries p) - 1 < length (entries p)" by (simp_all add: last_conv_nth)
  then show "0 < W" "length (token_ids (last (entries p))) = nat W" "length (scores (last (entries p))) = nat W"
    "length (parent_beams (last (entries p))) = nat W"
    using path_uniformD [OF assms, of "length (entries p) - 1"] by simp_all
qed

abbreviation last_tokens :: "BeamPath list \<Rightarrow> int list list" where "last_tokens \<equiv> map (\<lambda>p. token_ids (last (entries p)))"
abbreviation last_scores_of :: "BeamPath list \<Rightarrow> pyfloat list list" where "last_scores_of \<equiv> map (\<lambda>p. scores (last (entries p)))"

lemma batch_in_stepD:
  assumes "batch_in_step ids W D x gens paths"
  shows "distinct ids" "ids \<noteq> []" "length gens = length ids" "length paths = length ids" "paths \<noteq> []" "0 < W"
    "\<And>k. k < length ids \<Longrightarrow> in_step W D (runtime_of (ids ! k) x) (gens ! k) (paths ! k)"
    "\<forall>p \<in> set paths. path_uniform W p \<and> steps_done p = D"
proof -
  show d: "distinct ids" "ids \<noteq> []" "length gens = length ids" "length paths = length ids"
    and s: "\<And>k. k < length ids \<Longrightarrow> in_step W D (runtime_of (ids ! k) x) (gens ! k) (paths ! k)"
    using assms by (simp_all add: batch_in_step_def)
  show "paths \<noteq> []" using d(2,4) by auto
  show u: "\<forall>p \<in> set paths. path_uniform W p \<and> steps_done p = D"
    using s d(4) by (auto simp: in_set_conv_nth in_step_def)
  show "0 < W" using u \<open>paths \<noteq> []\<close> uniform_last(1) by (cases paths) auto
qed

lemma stack_rows_uniform: "rows_of_width n rows \<Longrightarrow> stack_rows rows = Inr rows"
  by (cases rows) (auto simp: stack_rows_def same_lengths_def rows_of_width_def)

lemma stack_state_rows:
  assumes "length rows = length rts" and "rts \<noteq> []" and "rows_of_width n rows" and "\<And>k. k < length rts \<Longrightarrow> field (rts ! k) = Some (rows ! k)"
  shows "stack_state_tensor_rows field rts = Inr \<lparr>tensor_shape = [length rows, length (hd rows)], tensor_data = concat rows\<rparr>"
proof -
  have "map (\<lambda>rt. the (field rt)) rts = rows" using assms(1,4) by (intro nth_equalityI) simp_all
  moreover have "\<not> (\<exists>rt \<in> set rts. field rt = None)" using assms(4) by (auto simp: in_set_conv_nth)
  ultimately show ?thesis using stack_rows_uniform [OF assms(3)] by (simp add: stack_state_tensor_rows_def)
qed

lemma last_rows_width:
  assumes "\<forall>p \<in> set paths. path_uniform W p"
  shows "rows_of_width (nat W) (last_tokens paths)" "rows_of_width (nat W) (last_scores_of paths)"
  using assms uniform_last(2,3) by (auto simp: rows_of_width_def)

text \<open>The inputs of the tensor route.\<close>

lemma tensor_inputs:
  assumes "batch_in_step ids W D x gens paths"
  shows "map_res require_generation (runtimes ids x) = Inr gens"
    and "stack_state_tensor_rows decode_selection_token_ids (runtimes ids x)
       = Inr \<lparr>tensor_shape = [length ids, nat W], tensor_data = concat (last_tokens paths)\<rparr>"
    and "stack_state_tensor_rows decode_selection_scores (runtimes ids x)
       = Inr \<lparr>tensor_shape = [length (last_scores_of paths), length (hd (last_scores_of paths))], tensor_data = concat (last_scores_of paths)\<rparr>"
    and "map decode_parent_history (runtimes ids x) = map (\<lambda>p. map parent_beams (entries p)) paths"
proof -
  note d = batch_in_stepD [OF assms]
  have u: "\<forall>p \<in> set paths. path_uniform W p" using d(8) by blast
  note k = d(7) [unfolded in_step_def flushes_to_def]
  show "map_res require_generation (runtimes ids x) = Inr gens"
    using k d(3) by (intro map_res_nth_total) (auto simp: require_generation_def)
  have "stack_state_tensor_rows decode_selection_token_ids (runtimes ids x)
      = Inr \<lparr>tensor_shape = [length (last_tokens paths), length (hd (last_tokens paths))], tensor_data = concat (last_tokens paths)\<rparr>"
    using k d(2,4) by (intro stack_state_rows [OF _ _ last_rows_width(1) [OF u]]) (auto simp: runtimes_def)
  moreover have "length (hd (last_tokens paths)) = nat W" using u d(5) uniform_last(2) by (cases paths) auto
  ultimately show "stack_state_tensor_rows decode_selection_token_ids (runtimes ids x)
       = Inr \<lparr>tensor_shape = [length ids, nat W], tensor_data = concat (last_tokens paths)\<rparr>" using d(4) by simp
  show "stack_state_tensor_rows decode_selection_scores (runtimes ids x)
       = Inr \<lparr>tensor_shape = [length (last_scores_of paths), length (hd (last_scores_of paths))], tensor_data = concat (last_scores_of paths)\<rparr>"
    using k d(2,4) by (intro stack_state_rows [OF _ _ last_rows_width(2) [OF u]]) (auto simp: runtimes_def)
  show "map decode_parent_history (runtimes ids x) = map (\<lambda>p. map parent_beams (entries p)) paths"
    using k d(4) by (intro nth_equalityI) auto
qed


text \<open>Flushing the batch, as the general route does first.\<close>

lemma flush_each_to:
  "list_all2 (\<lambda>rt p. \<exists>g. flushes_to rt g p) rts paths \<Longrightarrow> flush_each rts = (Inr (map last_row paths), map2 flushed rts paths)"
  by (induction rts paths rule: list_all2_induct) (auto simp: flush_pending_to)

definition flushed_batch :: "string list \<Rightarrow> BeamPath list \<Rightarrow> 'v executor \<Rightarrow> 'v executor" where
  "flushed_batch ids paths x = set_runtimes ids (map2 flushed (runtimes ids x) paths) x"

lemma flushes_batch: "batch_in_step ids W D x gens paths \<Longrightarrow> list_all2 (\<lambda>rt p. \<exists>g. flushes_to rt g p) (runtimes ids x) paths"
  by (auto simp: batch_in_step_def in_step_def list_all2_conv_all_nth)

lemma flush_batch_in_step:
  "batch_in_step ids W D x gens paths \<Longrightarrow> on_runtimes flush_each ids x = (Inr (map last_row paths), flushed_batch ids paths x)"
  by (simp add: on_runtimes_def flush_each_to [OF flushes_batch] flushed_batch_def)

lemma flushed_batch_runtime:
  assumes "batch_in_step ids W D x gens paths" and "k < length ids"
  shows "runtime_of (ids ! k) (flushed_batch ids paths x) = flushed (runtime_of (ids ! k) x) (paths ! k)"
  using batch_in_stepD(1,4) [OF assms(1)] assms(2) by (simp add: flushed_batch_def runtime_of_nth)

lemma flushed_batch_keep [simp]:
  "frame (flushed_batch ids paths x) = frame x" "ex_topk_cache (flushed_batch ids paths x) = ex_topk_cache x"
  "ex_inputs_cache (flushed_batch ids paths x) = ex_inputs_cache x"
  by (simp_all add: flushed_batch_def)

lemma flushed_batch_fields [simp]:
  "ex_scheduler (flushed_batch ids paths x) = ex_scheduler x" "ex_beam_pool (flushed_batch ids paths x) = ex_beam_pool x"
  "ex_context_pool (flushed_batch ids paths x) = ex_context_pool x" "ex_prefill_batches (flushed_batch ids paths x) = ex_prefill_batches x"
  "ex_prefill_cache (flushed_batch ids paths x) = ex_prefill_cache x" "ex_prefill_counts (flushed_batch ids paths x) = ex_prefill_counts x"
  "ex_timing (flushed_batch ids paths x) = ex_timing x"
  using flushed_batch_keep(1) [of ids paths x] unfolding frame_eq by blast+

lemma flushed_leases [simp]: "rt_beam_lease (flushed rt p) = rt_beam_lease rt" "rt_context_lease (flushed rt p) = rt_context_lease rt"
  by (simp_all add: flushed_def clear_pending_def map_generation_def)

lemma general_inputs:
  assumes "batch_in_step ids W D x gens paths"
  shows "map_res require_generation (runtimes ids (flushed_batch ids paths x)) = Inr (with_paths gens paths)"
    and "current_batched_selection (with_paths gens paths) = Inr (tuple_selection (last_tokens paths) (last_scores_of paths) (map (\<lambda>p. parent_beams (last (entries p))) paths))"
    and "make_batched_beam_token_ids (tuple_selection (last_tokens paths) (last_scores_of paths) (map (\<lambda>p. parent_beams (last (entries p))) paths))
       = Inr \<lparr>beam_token_ids = \<lparr>tensor_shape = [length ids, nat W], tensor_data = concat (last_tokens paths)\<rparr>,
              inputs_batch_size = length ids, inputs_beam_width = nat W\<rparr>"
proof -
  note d = batch_in_stepD [OF assms]
  have u: "\<forall>p \<in> set paths. path_uniform W p" using d(8) by blast
  have len: "length gens = length paths" using d(3,4) by simp
  note fields = with_paths_fields [OF len]
  show "map_res require_generation (runtimes ids (flushed_batch ids paths x)) = Inr (with_paths gens paths)"
  proof (rule map_res_nth_total)
    show "length (with_paths gens paths) = length (runtimes ids (flushed_batch ids paths x))" using fields(4) d(3) by simp
    fix k assume "k < length (runtimes ids (flushed_batch ids paths x))"
    then have k: "k < length ids" by simp
    then show "require_generation (runtimes ids (flushed_batch ids paths x) ! k) = Inr (with_paths gens paths ! k)"
      using d(7) [OF k] d(3,4)
      by (simp add: flushed_batch_runtime [OF assms k] flushed_def clear_pending_def map_generation_def require_generation_def in_step_def flushes_to_def with_paths_def)
  qed
  have ne: "entries p \<noteq> []" if "p \<in> set paths" for p using u that by (simp add: path_uniform_def)
  have "map_res (\<lambda>g. let es = entries (gen_beam_path g)
                 in if es = [] then Inl (ValueError ''request has no initialized beams'') else Inr (last es)) (with_paths gens paths)
      = Inr (map (\<lambda>p. last (entries p)) paths)"
  proof (rule map_res_nth_total)
    fix k assume k: "k < length (with_paths gens paths)"
    then have p: "gen_beam_path (with_paths gens paths ! k) = paths ! k" and m: "paths ! k \<in> set paths"
      using len fields by (simp_all add: with_paths_def)
    show "(let es = entries (gen_beam_path (with_paths gens paths ! k)) in if es = [] then Inl (ValueError ''request has no initialized beams'') else Inr (last es))
        = Inr (map (\<lambda>p. last (entries p)) paths ! k)"
      using ne [OF m] k len fields(4) by (simp add: p)
  qed (simp add: fields(4) len)
  then show "current_batched_selection (with_paths gens paths) = Inr (tuple_selection (last_tokens paths) (last_scores_of paths) (map (\<lambda>p. parent_beams (last (entries p))) paths))"
    by (simp add: current_batched_selection_def comp_def)
  obtain p ps where ps: "paths = p # ps" using d(5) by (cases paths) auto
  have w: "length (token_ids (last (entries q))) = nat W" if "q \<in> set paths" for q using u that uniform_last(2) by blast
  show "make_batched_beam_token_ids (tuple_selection (last_tokens paths) (last_scores_of paths) (map (\<lambda>p. parent_beams (last (entries p))) paths))
       = Inr \<lparr>beam_token_ids = \<lparr>tensor_shape = [length ids, nat W], tensor_data = concat (last_tokens paths)\<rparr>,
              inputs_batch_size = length ids, inputs_beam_width = nat W\<rparr>"
    using d(4,6) w by (auto simp: make_batched_beam_token_ids_def tuple_selection_def sel_batch_size_def sel_beam_width_def Let_def ps)
qed

text \<open>A sound cache gives what is computed.\<close>

lemma inputs_cache_gives:
  assumes "inputs_cache_sound m" and "tuples_only sel" and "decode_inputs_for_selection sel ids dev m = (Inr inputs, m')"
  shows "make_batched_beam_token_ids sel = Inr inputs" and "inputs_cache_sound m'"
proof -
  obtain t i where dev: "device_cache_key dev = Inr (t, i)" and get: "memo_get (ids, sel_token_ids sel, t, i) (make_batched_beam_token_ids sel) m = (Inr inputs, m')"
    using assms(3) by (auto simp: decode_inputs_for_selection_def split: sum.splits)
  have "inputs_call_key (sel, ids, dev) = Inr (ids, sel_token_ids sel, t, i)" using dev by (simp add: inputs_call_key_def)
  note t = inputs_memo.memo_transparent [OF assms(1) _ this, simplified, OF assms(2)]
  show "make_batched_beam_token_ids sel = Inr inputs" "inputs_cache_sound m'" using t unfolding get by simp_all
qed

lemma topk_cache_gives:
  assumes "topk_cache_sound m" and "validate_compaction_args paths D W = Inr ()"
    and "topk_indices_for_decode_batch paths ids H D W dev needs m = (Inr idx, m')"
  shows "decode_topk_indices paths H D W needs = Inr idx" and "topk_cache_sound m'"
proof -
  obtain k where k: "topk_indices_cache_key paths ids H D W dev needs = Inr k"
    and get: "memo_get k (decode_topk_indices paths H D W needs) m = (Inr idx, m')"
    using assms(3) by (auto simp: topk_indices_for_decode_batch_def split: sum.splits)
  let ?c = "\<lparr>call_paths = paths, call_ids = ids, call_heads = H, call_decode_nums = D, call_width = W, call_device = dev, call_needs = needs\<rparr>"
  have "call_ok ?c" and "call_key ?c = Inr k" using assms(2) k by (simp_all add: call_ok_def history_ok_def call_key_def)
  note t = topk_memo.memo_transparent [OF assms(1) this]
  have "call_result ?c = decode_topk_indices paths H D W needs" by (simp add: call_result_def)
  then show "decode_topk_indices paths H D W needs = Inr idx" "topk_cache_sound m'" using t get by simp_all
qed

text \<open>Beams of one width never need compaction.\<close>

lemma uniform_needs_none:
  assumes "\<forall>p \<in> set paths. path_uniform W p" and "needs_batched_beam_kv_history_compaction paths D W = Inr needs"
  shows "\<not> needs \<and> validate_compaction_args paths D W = Inr ()"
proof -
  have v: "validate_compaction_args paths D W = Inr ()" and loop: "needs_paths_loop paths D W = Inr needs"
    using assms(2) by (auto simp: needs_batched_beam_kv_history_compaction_def)
  have D: "0 < D" using v by (auto simp: validate_compaction_args_def split: if_splits)
  have one: "\<not> b" if "needs_loop p D W qs = Inr b" "path_uniform W p" for p qs b
    using that
  proof (induction qs)
    case (Cons q qs)
    then obtain anc where anc: "beam_ancestry p q D = Inr anc" by auto
    have wf: "wf_path p" using Cons.prems(2) by (simp add: path_uniform_def)
    note facts = beam_ancestry_Inr [OF wf D anc]
    have "anc ! i < W" if "i < nat D" for i
    proof -
      have "entries p ! i \<in> set (entries p)" using facts(1) that by (simp add: steps_done_def)
      then show ?thesis using facts(6) [OF that] Cons.prems(2) by (simp add: path_uniform_def)
    qed
    then have "\<forall>a \<in> set anc. a < W" using facts(4) by (auto simp: in_set_conv_nth)
    then have "\<not> (\<exists>a \<in> set (butlast anc). a \<ge> W)" by (meson in_set_butlastD not_less)
    then show ?case using Cons anc by simp
  qed simp
  have "\<not> b" if "needs_paths_loop ps D W = Inr b" "\<forall>p \<in> set ps. path_uniform W p" for ps b
    using that
  proof (induction ps)
    case (Cons p ps)
    then obtain r where r: "needs_loop p D W (py_range W) = Inr r" by auto
    have "\<not> r" by (rule one [OF r]) (use Cons.prems(2) in simp)
    then show ?case using Cons r by simp
  qed simp
  then show ?thesis using loop assms(1) v by blast
qed

section \<open>The two selections\<close>

text \<open>What the model's forward step is relied on for: its tensors are well-formed, and with the index tensor
  given it does not look at the beam path of the batched generation.\<close>

definition forward_contract :: "'v decode_forward \<Rightarrow> bool" where
  "forward_contract fwd \<longleftrightarrow>
     (\<forall>toks g step w idx D logits kv. fwd toks g step w idx D = (Inr logits, kv) \<longrightarrow> wf_tensor logits)
     \<and> (\<forall>toks g p step w idx D. fwd toks (g\<lparr>gen_beam_path := p\<rparr>) step w idx D = fwd toks g step w idx D)"

lemma windows_frame:
  assumes "frame x = frame y" and "\<And>k. k < length ids \<Longrightarrow> rt_beam_lease (runtime_of (ids ! k) x) = rt_beam_lease (runtime_of (ids ! k) y)
      \<and> rt_context_lease (runtime_of (ids ! k) x) = rt_context_lease (runtime_of (ids ! k) y)"
  shows "context_window_of ids x = context_window_of ids y" and "shares_beam_kv cfg ids x = shares_beam_kv cfg ids y"
proof -
  have m: "map (\<lambda>rid. rt_context_lease (runtime_of rid x)) ids = map (\<lambda>rid. rt_context_lease (runtime_of rid y)) ids"
    "map (\<lambda>rid. rt_beam_lease (runtime_of rid x)) ids = map (\<lambda>rid. rt_beam_lease (runtime_of rid y)) ids"
    using assms(2) by (auto simp: in_set_conv_nth)
  have f: "ex_context_pool x = ex_context_pool y" "ex_beam_pool x = ex_beam_pool y" using assms(1) by (simp_all add: frame_eq)
  show "context_window_of ids x = context_window_of ids y" "shares_beam_kv cfg ids x = shares_beam_kv cfg ids y"
    unfolding context_window_of_def shares_beam_kv_def beam_window_of_def m f by (rule refl)+
qed

lemma make_batched_prefill_cong: "map gen_prefill gens = map gen_prefill gens' \<Longrightarrow> make_batched_prefill adj gens = make_batched_prefill adj gens'"
proof -
  assume e: "map gen_prefill gens = map gen_prefill gens'"
  have "length gens = length gens'" using arg_cong [OF e, of length] by simp
  moreover have "map (prefill_context_kv \<circ> gen_prefill) gens = map (prefill_context_kv \<circ> gen_prefill) gens'"
    "map (prefill_logits \<circ> gen_prefill) gens = map (prefill_logits \<circ> gen_prefill) gens'"
    using arg_cong [OF e, of "map prefill_context_kv"] arg_cong [OF e, of "map prefill_logits"] by simp_all
  moreover have "gens = [] \<longleftrightarrow> gens' = []" using \<open>length gens = length gens'\<close> by auto
  ultimately show ?thesis by (simp add: make_batched_prefill_def make_batched_context_kv_def Let_def)
qed

lemma prefill_agrees:
  assumes "map gen_prefill gens = map gen_prefill gens'" and "context_window_of ids x = context_window_of ids y" and "ex_prefill_batches x = ex_prefill_batches y"
    and "batched_prefill_for_states cfg ids gens' y = (Inr prefill, y')"
  shows "\<exists>d. batched_prefill_for_states cfg ids gens x = (Inr prefill, x\<lparr>ex_prefill_batches := d\<rparr>) \<and> y' = y\<lparr>ex_prefill_batches := d\<rparr>"
proof (cases "map_of (ex_prefill_batches x) ids")
  case None
  then show ?thesis
    using assms(2-4) make_batched_prefill_cong [OF assms(1)] by (auto simp: batched_prefill_for_states_def bind_st_Inr_iff split: if_splits)
next
  case (Some p)
  then show ?thesis using assms(3,4) by (auto simp: batched_prefill_for_states_def intro!: exI [of _ "ex_prefill_batches y"])
qed

lemma generation_agrees:
  assumes "map gen_beam_kv gens = map gen_beam_kv gens'" and "map gen_fixed_beam_width gens = map gen_fixed_beam_width gens'"
    and "make_batched_generation fk fv cfg b shared gens' prefill None = Inr gen'"
  shows "\<exists>p. make_batched_generation fk fv cfg b shared gens prefill None = Inr (gen'\<lparr>gen_beam_path := p\<rparr>)"
proof -
  have len: "length gens = length gens'" using arg_cong [OF assms(1), of length] by simp
  have kv: "make_batched_beam_kv shared gens = make_batched_beam_kv shared gens'"
    using assms(1) len by (auto simp: make_batched_beam_kv_def Let_def)
  show ?thesis
    using assms(2,3) kv len by (cases gens; cases gens') (auto simp: make_batched_generation_def)
qed

lemma push_rows_all:
  assumes "length rows = length rts"
  shows "push_rows rows rts = (Inr (), map2 push_selection rows rts)"
  using assms by (induction rows rts rule: list_induct2) simp_all

lemma update_on_device:
  assumes "selects_rows sel toks scs parents" and "length toks = length rts" and "length scs = length rts" and "length parents = length rts"
  shows "update_decode_tensor_state sel rts = (Inr (), map2 push_selection (zip toks (zip scs parents)) rts)"
  using assms by (auto simp: selects_rows_def update_decode_tensor_state_def push_rows_all)


text \<open>A general step of plain requests, taken apart.\<close>

definition plain_requests :: "executor_config \<Rightarrow> string list \<Rightarrow> 'v executor \<Rightarrow> bool" where
  "plain_requests cfg ids x \<longleftrightarrow> (\<forall>rid \<in> set ids. item_mask_provider (request_of rid x) = None \<and> cfg_processors cfg rid = [])"

lemma plain_steps:
  assumes "plain_requests cfg ids x" and "ex_scheduler x' = ex_scheduler x"
  shows "continuous_apply_logits_processors cfg ids paths logits step width = Inr logits" and "continuous_step_item_mask ids x' logits = Inr None"
  using assms by (simp_all add: plain_requests_def continuous_apply_logits_processors_def continuous_step_item_mask_def request_of_def)

lemma batched_prefill_frame:
  "batched_prefill_for_states cfg ids gens x = (r, x') \<Longrightarrow> \<exists>d. x' = x\<lparr>ex_prefill_batches := d\<rparr>"
proof -
  assume run: "batched_prefill_for_states cfg ids gens x = (r, x')"
  have same: "\<exists>d. x = x\<lparr>ex_prefill_batches := d\<rparr>" by (rule exI [of _ "ex_prefill_batches x"]) simp
  show ?thesis
    using run same by (simp add: batched_prefill_for_states_def bind_st_def split: option.splits sum.splits if_splits) blast+
qed

lemma general_logitsE:
  assumes run: "general_logits fwd fk fv cfg b ids gens sel x = (Inr (shared, kv, logits), x')" and plain: "plain_requests cfg ids x"
  obtains inputs m needs prefill d gen idx m' where
    "decode_inputs_for_selection sel (batch_request_ids b) (cfg_device cfg) (ex_inputs_cache x) = (Inr inputs, m)"
    and "needs_batched_beam_kv_history_compaction (map gen_beam_path gens) (batch_step b + 1) (dbatch_beam_width b) = Inr needs"
    and "batched_prefill_for_states cfg ids gens (x\<lparr>ex_inputs_cache := m\<rparr>) = (Inr prefill, x\<lparr>ex_inputs_cache := m, ex_prefill_batches := d\<rparr>)"
    and "make_batched_generation fk fv cfg b (shares_beam_kv cfg ids x) gens prefill
           (if needs then Some (map gen_beam_path gens, batch_step b + 1, dbatch_beam_width b) else None) = Inr gen"
    and "topk_indices_for_decode_batch (map gen_beam_path gens) (batch_request_ids b) (cfg_num_q_heads cfg) (batch_step b + 1)
           (dbatch_beam_width b) (cfg_device cfg) needs (ex_topk_cache x) = (Inr idx, m')"
    and "shared = (shares_beam_kv cfg ids x \<and> \<not> needs)"
    and "forward_decode_step fwd shared ids (beam_token_ids inputs) gen (batch_step b) (dbatch_beam_width b) idx (batch_step b + 1)
           (x\<lparr>ex_inputs_cache := m, ex_prefill_batches := d, ex_topk_cache := m'\<rparr>) = (Inr (logits, kv), x')"
proof -
  obtain inputs x1 where 1: "on_inputs_cache (decode_inputs_for_selection sel (batch_request_ids b) (cfg_device cfg)) x = (Inr inputs, x1)"
    and rest1: "bind_st (needs_batched_beam_kv_history_compaction (map gen_beam_path gens) (batch_step b + 1) (dbatch_beam_width b), x1) (\<lambda>needs x2.
      bind_st (batched_prefill_for_states cfg ids gens x2) (\<lambda>prefill x3.
      bind_st (make_batched_generation fk fv cfg b (shares_beam_kv cfg ids x3) gens prefill (if needs then Some (map gen_beam_path gens, batch_step b + 1, dbatch_beam_width b) else None), x3) (\<lambda>gen x4.
      bind_st (on_topk_cache (topk_indices_for_decode_batch (map gen_beam_path gens) (batch_request_ids b) (cfg_num_q_heads cfg) (batch_step b + 1) (dbatch_beam_width b) (cfg_device cfg) needs) x4) (\<lambda>idx x5.
      bind_st (forward_decode_step fwd (shares_beam_kv cfg ids x3 \<and> \<not> needs) ids (beam_token_ids inputs) gen (batch_step b) (dbatch_beam_width b) idx (batch_step b + 1) x5) (\<lambda>(raw, kv) x6.
      bind_st (continuous_apply_logits_processors cfg ids (map gen_beam_path gens) raw (batch_step b) (dbatch_beam_width b), x6) (\<lambda>logits x7.
        (Inr (shares_beam_kv cfg ids x3 \<and> \<not> needs, kv, logits), x7))))))) = (Inr (shared, kv, logits), x')"
    using run unfolding general_logits_def Let_def by (subst (asm) bind_st_Inr_iff) blast
  obtain m where m: "decode_inputs_for_selection sel (batch_request_ids b) (cfg_device cfg) (ex_inputs_cache x) = (Inr inputs, m)" "x1 = x\<lparr>ex_inputs_cache := m\<rparr>"
    using 1 by (auto simp: on_inputs_cache_def split: prod.splits)
  obtain needs where needs: "needs_batched_beam_kv_history_compaction (map gen_beam_path gens) (batch_step b + 1) (dbatch_beam_width b) = Inr needs"
    using rest1 by (auto simp: bind_st_Inr_iff)
  note rest2 = rest1 [unfolded needs bind_st_simps]
  obtain prefill x3 where p: "batched_prefill_for_states cfg ids gens x1 = (Inr prefill, x3)"
    using rest2 by (auto simp: bind_st_Inr_iff)
  note rest3 = rest2 [unfolded p bind_st_simps]
  obtain d where d: "x3 = x\<lparr>ex_inputs_cache := m, ex_prefill_batches := d\<rparr>" using batched_prefill_frame [OF p] m(2) by auto
  have sh: "shares_beam_kv cfg ids x3 = shares_beam_kv cfg ids x"
    by (simp add: d shares_beam_kv_def beam_window_of_def runtime_of_def)
  obtain gen where gen: "make_batched_generation fk fv cfg b (shares_beam_kv cfg ids x3) gens prefill
        (if needs then Some (map gen_beam_path gens, batch_step b + 1, dbatch_beam_width b) else None) = Inr gen"
    using rest3 by (auto simp: bind_st_Inr_iff)
  note rest4 = rest3 [unfolded gen bind_st_simps]
  obtain idx x5 where i: "on_topk_cache (topk_indices_for_decode_batch (map gen_beam_path gens) (batch_request_ids b) (cfg_num_q_heads cfg) (batch_step b + 1) (dbatch_beam_width b) (cfg_device cfg) needs) x3 = (Inr idx, x5)"
    using rest4 by (auto simp: bind_st_Inr_iff)
  note rest5 = rest4 [unfolded i bind_st_simps]
  obtain m' where m': "topk_indices_for_decode_batch (map gen_beam_path gens) (batch_request_ids b) (cfg_num_q_heads cfg) (batch_step b + 1)
           (dbatch_beam_width b) (cfg_device cfg) needs (ex_topk_cache x) = (Inr idx, m')" "x5 = x3\<lparr>ex_topk_cache := m'\<rparr>"
    using i d by (auto simp: on_topk_cache_def split: prod.splits)
  have pr: "continuous_apply_logits_processors cfg ids paths raw step width = Inr raw" for paths raw step width
    by (rule plain_steps(1) [OF plain refl])
  have f: "forward_decode_step fwd (shares_beam_kv cfg ids x3 \<and> \<not> needs) ids (beam_token_ids inputs) gen (batch_step b) (dbatch_beam_width b) idx (batch_step b + 1) x5 = (Inr (logits, kv), x')"
    and s: "shared = (shares_beam_kv cfg ids x3 \<and> \<not> needs)"
    using rest5 by (auto simp: bind_st_Inr_iff pr)
  show thesis
    by (rule that [OF m(1) needs p [unfolded m(2) d] gen [unfolded sh] m'(1) s [unfolded sh]])
      (use f [folded s] in \<open>simp add: m'(2) d\<close>)
qed


lemma forward_frame: "forward_decode_step fwd shared ids tokens gen step width idx D x = (r, x') \<Longrightarrow> frame x' = frame x"
proof (cases "fwd tokens gen step width idx D")
  case (Pair q kv)
  assume "forward_decode_step fwd shared ids tokens gen step width idx D x = (r, x')"
  then show ?thesis using Pair by (cases q) (auto simp: forward_decode_step_def split: if_splits)
qed

lemma general_selectionE:
  assumes run: "general_selection fwd T fk fv cfg b ids x = (Inr (sel, rows), y)"
    and plain: "plain_requests cfg ids x" and details: "\<not> cfg_return_beam_details cfg"
  obtains gens sel0 shared kv logits x3 x4 u where
    "map_res require_generation (runtimes ids x) = Inr gens" and "current_batched_selection gens = Inr sel0"
    and "general_logits fwd fk fv cfg b ids gens sel0 x = (Inr (shared, kv, logits), x3)"
    and "select_next_topk_batched T logits (Some (sel_scores sel0)) None (next_beam_width b) None (cfg_score_mode cfg) True True = Inr sel"
    and "rows = None" and "scatter_batched_beam_kv shared kv ids (batch_step b) (dbatch_beam_width b) x3 = (Inr u, x4)"
    and "on_runtimes (append_to_paths sel (map gen_beam_path gens)) ids x4 = (Inr (), y)"
proof -
  obtain gens where gens: "map_res require_generation (runtimes ids x) = Inr gens"
    using run by (auto simp: general_selection_def bind_st_Inr_iff)
  note run1 = run [unfolded general_selection_def gens bind_st_simps]
  obtain sel0 where sel0: "current_batched_selection gens = Inr sel0" using run1 by (auto simp: bind_st_Inr_iff)
  note run2 = run1 [unfolded sel0 bind_st_simps]
  obtain shared kv logits x3 where lg: "general_logits fwd fk fv cfg b ids gens sel0 x = (Inr (shared, kv, logits), x3)"
    using run2 by (auto simp: bind_st_Inr_iff)
  note run3 = run2 [unfolded lg bind_st_simps prod.case]
  obtain m gen idx m' d and inputs :: BatchedDecodeInputs where fwd: "forward_decode_step fwd shared ids (beam_token_ids inputs) gen (batch_step b) (dbatch_beam_width b) idx (batch_step b + 1)
           (x\<lparr>ex_inputs_cache := m, ex_prefill_batches := d, ex_topk_cache := m'\<rparr>) = (Inr (logits, kv), x3)"
    by (rule general_logitsE [OF lg plain]) blast
  have "ex_scheduler x3 = ex_scheduler x" using forward_frame [OF fwd] by (simp add: frame_eq)
  note mask = plain_steps(2) [OF plain this]
  have lim: "next_beam_width b > 0" and sel: "select_next_topk_batched T logits (Some (sel_scores sel0)) None (next_beam_width b) None (cfg_score_mode cfg) True True = Inr sel"
    and rows: "rows = None"
    and rest: "bind_st (scatter_batched_beam_kv shared kv ids (batch_step b) (dbatch_beam_width b) x3) (\<lambda>_ x8.
     bind_st (on_runtimes (append_to_paths sel (map gen_beam_path gens)) ids x8) (\<lambda>_ x9. (Inr (sel, rows), x9))) = (Inr (sel, rows), y)"
    using run3 details by (auto simp: mask batched_item_mask_limited_beam_width_def bind_st_Inr_iff split: if_splits)
  obtain u x4 where sc: "scatter_batched_beam_kv shared kv ids (batch_step b) (dbatch_beam_width b) x3 = (Inr u, x4)"
    and ap: "on_runtimes (append_to_paths sel (map gen_beam_path gens)) ids x4 = (Inr (), y)"
    using rest by (auto simp: bind_st_Inr_iff)
  show thesis by (rule that [OF gens sel0 lg sel rows sc ap])
qed

lemma set_paths_all:
  assumes "length paths = length rts"
  shows "set_paths paths rts = map2 (\<lambda>p rt. map_generation (\<lambda>g. g\<lparr>gen_beam_path := p\<rparr>) rt) paths rts"
  using assms by (induction paths rts rule: list_induct2) simp_all

text \<open>The appended paths, and the runtimes that hold them.\<close>

lemma append_runtimes:
  assumes "on_runtimes (append_to_paths sel paths) ids x = (Inr (), y)" and "distinct ids" and "length paths = length ids"
    and "length (sel_token_ids sel) = length ids" and "length (sel_scores sel) = length ids" and "length (sel_parent_beams sel) = length ids"
  shows "\<exists>paths'. length paths' = length ids \<and> y = set_runtimes ids (map2 (\<lambda>p rt. map_generation (\<lambda>g. g\<lparr>gen_beam_path := p\<rparr>) rt) paths' (runtimes ids x)) x
    \<and> (\<forall>k < length ids. path_append (paths ! k) (sel_parent_beams sel ! k) (sel_token_ids sel ! k) (sel_scores sel ! k) = Inr (paths' ! k))"
proof -
  obtain paths' where ap: "batched_append paths sel = (None, paths')" and y: "y = set_runtimes ids (set_paths paths' (runtimes ids x)) x"
    using assms(1) by (auto simp: on_runtimes_def append_to_paths_def split: prod.splits option.splits)
  have "batched_append_loop paths (sel_parent_beams sel) (sel_token_ids sel) (sel_scores sel) = (None, paths')"
    using ap by (auto simp: batched_append_def split: if_splits)
  note loop = batched_append_loop_ok [OF this, unfolded assms(3-6), OF refl refl refl]
  have "set_paths paths' (runtimes ids x) = map2 (\<lambda>p rt. map_generation (\<lambda>g. g\<lparr>gen_beam_path := p\<rparr>) rt) paths' (runtimes ids x)"
    by (rule set_paths_all) (use loop in simp)
  then show ?thesis using loop y by (intro exI [of _ paths']) simp
qed


lemma runtime_of_fields [simp]:
  "runtime_of rid (x\<lparr>ex_inputs_cache := m\<rparr>) = runtime_of rid x" "runtime_of rid (x\<lparr>ex_prefill_batches := d\<rparr>) = runtime_of rid x"
  "runtime_of rid (x\<lparr>ex_topk_cache := m'\<rparr>) = runtime_of rid x" "runtimes ids (x\<lparr>ex_prefill_batches := d\<rparr>) = runtimes ids x"
  by (simp_all add: runtime_of_def runtimes_def)

lemma push_map_kv: "map_kv f (push_selection row rt) = push_selection row (map_kv f rt)"
  by (simp add: push_selection_def map_generation_def split: prod.splits)

text \<open>A tensor step, put together.\<close>

definition after_tensor_step ::
  "bool \<Rightarrow> 'v BeamKV \<Rightarrow> int \<Rightarrow> int \<Rightarrow> string list \<Rightarrow> (int list \<times> pyfloat list \<times> int list) list \<Rightarrow> 'v executor \<Rightarrow> 'v executor" where
  "after_tensor_step shared kv step width ids rows x =
     (let x1 = (if shared then write_rows (\<lambda>b. row_kv b kv) 0 ids x else x);
          x2 = set_runtimes ids (map2 push_selection rows (runtimes ids x1)) x1
      in if shared then x2 else write_rows (\<lambda>b. scatter_row step width b kv) 0 ids x2)"

lemma after_tensor_step_runtime:
  assumes "distinct ids" and "length rows = length ids" and "k < length ids"
  shows "runtime_of (ids ! k) (after_tensor_step shared kv step width ids rows x)
       = push_selection (rows ! k) (map_kv (kv_effect shared kv step width (int k)) (runtime_of (ids ! k) x))"
  using assms by (simp add: after_tensor_step_def Let_def write_rows_nth runtime_of_nth kv_effect_def push_map_kv)

lemma after_tensor_step_keep [simp]:
  "frame (after_tensor_step shared kv step width ids rows x) = frame x"
  "rid \<notin> set ids \<Longrightarrow> runtime_of rid (after_tensor_step shared kv step width ids rows x) = runtime_of rid x"
  by (simp_all add: after_tensor_step_def Let_def write_rows_other runtime_of_other)

lemma tensor_selection_run:
  assumes "map_res require_generation (runtimes ids x) = Inr gens"
    and "stack_state_tensor_rows decode_selection_token_ids (runtimes ids x) = Inr tokens"
    and "stack_state_tensor_rows decode_selection_scores (runtimes ids x) = Inr prev"
    and "batched_prefill_for_states cfg ids gens x = (Inr prefill, x\<lparr>ex_prefill_batches := d\<rparr>)"
    and "make_batched_generation fk fv cfg b shared gens prefill None = Inr gen" and "shared = shares_beam_kv cfg ids x"
    and "parent_history_topk_indices (map decode_parent_history (runtimes ids x)) (cfg_num_q_heads cfg) (batch_step b + 1) (dbatch_beam_width b) = Inr idx"
    and "fwd tokens gen (batch_step b) (dbatch_beam_width b) idx (batch_step b + 1) = (Inr logits, kv)"
    and "select_next_topk_batched T logits None (Some prev) (next_beam_width b) None (cfg_score_mode cfg) False False = Inr ts"
    and "selects_rows ts toks scs parents" and "length toks = length ids" and "length scs = length ids" and "length parents = length ids"
    and "batch_step b < kv_max_decode_steps kv"
  shows "tensor_selection fwd T fk fv cfg b ids x
    = (Inr ts, after_tensor_step shared kv (batch_step b) (dbatch_beam_width b) ids (zip toks (zip scs parents)) (x\<lparr>ex_prefill_batches := d\<rparr>))"
proof -
  have sh: "shares_beam_kv cfg ids (x\<lparr>ex_prefill_batches := d\<rparr>) = shared"
    using assms(6) by (simp add: shares_beam_kv_def beam_window_of_def)
  have upd: "on_runtimes (update_decode_tensor_state ts) ids y = (Inr (), set_runtimes ids (map2 push_selection (zip toks (zip scs parents)) (runtimes ids y)) y)" for y
    using update_on_device [OF assms(10), of "runtimes ids y"] assms(11-13) by (simp add: on_runtimes_def)
  show ?thesis
    unfolding tensor_selection_def Let_def
    by (simp add: assms(1-5,7-9) sh forward_decode_step_def upd scatter_batched_beam_kv_def after_tensor_step_def Let_def assms(14) not_le)
qed


text \<open>What a general step of the flushed batch does is what the tensor step does.\<close>

lemma general_step_facts:
  assumes T: "torch_contract T" and fc: "forward_contract fwd" and bs: "batch_in_step ids W D x gens paths"
    and D: "D = batch_step b + 1" and W: "dbatch_beam_width b = W"
    and plain: "plain_requests cfg ids x" and caches: "inputs_cache_sound (ex_inputs_cache x)" "topk_cache_sound (ex_topk_cache x)"
    and run: "general_logits fwd fk fv cfg b ids (with_paths gens paths)
        (tuple_selection (last_tokens paths) (last_scores_of paths) (map (\<lambda>p. parent_beams (last (entries p))) paths)) (flushed_batch ids paths x)
      = (Inr (shared, kv, logits), y)"
  obtains prefill d gen idx where
    "shared = shares_beam_kv cfg ids x"
    and "batched_prefill_for_states cfg ids gens x = (Inr prefill, x\<lparr>ex_prefill_batches := d\<rparr>)"
    and "make_batched_generation fk fv cfg b shared gens prefill None = Inr gen"
    and "parent_history_topk_indices (map decode_parent_history (runtimes ids x)) (cfg_num_q_heads cfg) D W = Inr idx"
    and "fwd \<lparr>tensor_shape = [length ids, nat W], tensor_data = concat (last_tokens paths)\<rparr> gen (batch_step b) W idx D = (Inr logits, kv)"
    and "frame y = frame (x\<lparr>ex_prefill_batches := d\<rparr>)" and "wf_tensor logits"
    and "\<And>rid. rid \<notin> set ids \<Longrightarrow> runtime_of rid y = runtime_of rid x"
    and "\<And>k. k < length ids \<Longrightarrow> runtime_of (ids ! k) y
         = (if shared then map_kv (row_kv (int k) kv) (flushed (runtime_of (ids ! k) x) (paths ! k)) else flushed (runtime_of (ids ! k) x) (paths ! k))"
proof -
  let ?x = "flushed_batch ids paths x" and ?gens = "with_paths gens paths"
  let ?sel = "tuple_selection (last_tokens paths) (last_scores_of paths) (map (\<lambda>p. parent_beams (last (entries p))) paths)"
  note d = batch_in_stepD [OF bs]
  have len: "length gens = length paths" using d(3,4) by simp
  note fields = with_paths_fields [OF len]
  have u: "\<forall>p \<in> set paths. path_uniform W p" using d(8) by blast
  have plain': "plain_requests cfg ids ?x" using plain by (simp add: plain_requests_def request_of_def)
  have leases: "rt_beam_lease (runtime_of (ids ! k) x) = rt_beam_lease (runtime_of (ids ! k) ?x)
      \<and> rt_context_lease (runtime_of (ids ! k) x) = rt_context_lease (runtime_of (ids ! k) ?x)" if "k < length ids" for k
    using flushed_batch_runtime [OF bs that] by simp
  note win = windows_frame [OF flushed_batch_keep(1) [of ids paths x, symmetric] leases]
  show thesis
  proof (rule general_logitsE [OF run plain'])
    fix inputs m needs prefill d' gen idx m'
    assume inp: "decode_inputs_for_selection ?sel (batch_request_ids b) (cfg_device cfg) (ex_inputs_cache ?x) = (Inr inputs, m)"
      and nd: "needs_batched_beam_kv_history_compaction (map gen_beam_path ?gens) (batch_step b + 1) (dbatch_beam_width b) = Inr needs"
      and pf: "batched_prefill_for_states cfg ids ?gens (?x\<lparr>ex_inputs_cache := m\<rparr>) = (Inr prefill, ?x\<lparr>ex_inputs_cache := m, ex_prefill_batches := d'\<rparr>)"
      and gn: "make_batched_generation fk fv cfg b (shares_beam_kv cfg ids ?x) ?gens prefill
           (if needs then Some (map gen_beam_path ?gens, batch_step b + 1, dbatch_beam_width b) else None) = Inr gen"
      and tk: "topk_indices_for_decode_batch (map gen_beam_path ?gens) (batch_request_ids b) (cfg_num_q_heads cfg) (batch_step b + 1)
           (dbatch_beam_width b) (cfg_device cfg) needs (ex_topk_cache ?x) = (Inr idx, m')"
      and sh: "shared = (shares_beam_kv cfg ids ?x \<and> \<not> needs)"
      and fw: "forward_decode_step fwd shared ids (beam_token_ids inputs) gen (batch_step b) (dbatch_beam_width b) idx (batch_step b + 1)
           (?x\<lparr>ex_inputs_cache := m, ex_prefill_batches := d', ex_topk_cache := m'\<rparr>) = (Inr (logits, kv), y)"
    have nn: "\<not> needs" and val: "validate_compaction_args paths D W = Inr ()"
      using uniform_needs_none [OF u] nd unfolding fields(1) W D [symmetric] by blast+
    have toks: "beam_token_ids inputs = \<lparr>tensor_shape = [length ids, nat W], tensor_data = concat (last_tokens paths)\<rparr>"
      using inputs_cache_gives(1) [OF _ _ inp] caches(1) general_inputs(3) [OF bs] by (simp add: tuples_only_def tuple_selection_def)
    have idx: "decode_topk_indices paths (cfg_num_q_heads cfg) D W False = Inr idx"
      using topk_cache_gives(1) [OF _ val] caches(2) tk nn unfolding fields(1) W D [symmetric] by simp
    have "0 < D" using val by (auto simp: validate_compaction_args_def split: if_splits)
    then have hist: "parent_history_topk_indices (map decode_parent_history (runtimes ids x)) (cfg_num_q_heads cfg) D W = Inr idx"
      using gathered_indices_agree [of paths W D] d(5,6,8) idx tensor_inputs(4) [OF bs] by (simp add: decode_topk_indices_def)
    have shx: "shared = shares_beam_kv cfg ids x" using sh nn win(2) by simp
    have ctx: "context_window_of ids x = context_window_of ids (?x\<lparr>ex_inputs_cache := m\<rparr>)"
      using win(1) by (simp add: context_window_of_def)
    have pb: "ex_prefill_batches x = ex_prefill_batches (?x\<lparr>ex_inputs_cache := m\<rparr>)"
      by simp
    obtain d'' where pf': "batched_prefill_for_states cfg ids gens x = (Inr prefill, x\<lparr>ex_prefill_batches := d''\<rparr>)"
      and dd: "?x\<lparr>ex_inputs_cache := m, ex_prefill_batches := d'\<rparr> = ?x\<lparr>ex_inputs_cache := m\<rparr>\<lparr>ex_prefill_batches := d''\<rparr>"
      using prefill_agrees [OF fields(2) [symmetric] ctx pb pf] by blast
    have same: "d' = d''" using arg_cong [OF dd, of ex_prefill_batches] by simp
    have fixed: "map gen_fixed_beam_width gens = map gen_fixed_beam_width ?gens"
      using len by (auto simp: with_paths_def list_eq_iff_nth_eq)
    have gn0: "make_batched_generation fk fv cfg b shared ?gens prefill None = Inr gen" using gn nn sh by simp
    obtain p where gn': "make_batched_generation fk fv cfg b shared gens prefill None = Inr (gen\<lparr>gen_beam_path := p\<rparr>)"
      using generation_agrees [OF fields(3) [symmetric] fixed gn0] by blast
    note fwd = forward_Inr [OF fw]
    have "fwd (beam_token_ids inputs) gen (batch_step b) W idx D = (Inr logits, kv)" using fwd(1) W D by simp
    note call = this
    have wf: "wf_tensor logits" using fc call unfolding forward_contract_def by blast
    from call have fw': "fwd \<lparr>tensor_shape = [length ids, nat W], tensor_data = concat (last_tokens paths)\<rparr> (gen\<lparr>gen_beam_path := p\<rparr>) (batch_step b) W idx D = (Inr logits, kv)"
      using fc toks by (simp add: forward_contract_def)
    have "frame y = frame (?x\<lparr>ex_inputs_cache := m, ex_prefill_batches := d', ex_topk_cache := m'\<rparr>)" using fwd(2) by simp
    also have "\<dots> = frame (x\<lparr>ex_prefill_batches := d''\<rparr>)" by (simp add: frame_def same)
    finally have fr: "frame y = frame (x\<lparr>ex_prefill_batches := d''\<rparr>)" .
    have other: "runtime_of rid y = runtime_of rid x" if "rid \<notin> set ids" for rid
      using fwd(2) that by (simp add: write_rows_other flushed_batch_def runtime_of_other)
    have row: "runtime_of (ids ! k) y
         = (if shared then map_kv (row_kv (int k) kv) (flushed (runtime_of (ids ! k) x) (paths ! k)) else flushed (runtime_of (ids ! k) x) (paths ! k))"
      if "k < length ids" for k
      using fwd(2) that flushed_batch_runtime [OF bs that] by (simp add: write_rows_nth [OF d(1)])
    show thesis by (rule that [OF shx pf' gn' hist fw' fr wf other row])
  qed
qed


lemma selections_agree:
  assumes T: "torch_contract T" and fc: "forward_contract fwd" and bs: "batch_in_step ids W D x gens paths"
    and D: "D = batch_step b + 1" and W: "dbatch_beam_width b = W" "next_beam_width b = W"
    and plain: "plain_requests cfg ids x" and details: "\<not> cfg_return_beam_details cfg"
    and caches: "inputs_cache_sound (ex_inputs_cache x)" "topk_cache_sound (ex_topk_cache x)"
    and run: "general_selection fwd T fk fv cfg b ids (flushed_batch ids paths x) = (Inr (sel, rows), y)"
  obtains ts xt F paths' where
    "tensor_selection fwd T fk fv cfg b ids x = (Inr ts, xt)" and "rows = None" and "frame xt = frame y" and "ex_scheduler xt = ex_scheduler x"
    and "sel_beam_width ts = sel_beam_width sel" and "sel_beam_width sel = nat W"
    and "length (sel_token_ids sel) = length ids" and "length (sel_scores sel) = length ids" and "length (sel_parent_beams sel) = length ids"
    and "rows_of_width (nat W) (sel_parent_beams sel)"
    and "\<And>rid. rid \<notin> set ids \<Longrightarrow> runtime_of rid xt = runtime_of rid y"
    and "\<And>k. k < length ids \<Longrightarrow> path_append (paths ! k) (sel_parent_beams sel ! k) (sel_token_ids sel ! k) (sel_scores sel ! k) = Inr (paths' ! k)
        \<and> runtime_of (ids ! k) xt = push_selection (sel_token_ids sel ! k, sel_scores sel ! k, sel_parent_beams sel ! k) (map_kv (F k) (runtime_of (ids ! k) x))
        \<and> runtime_of (ids ! k) y = map_generation (\<lambda>g. g\<lparr>gen_beam_path := paths' ! k\<rparr>) (map_kv (F k) (flushed (runtime_of (ids ! k) x) (paths ! k)))"
proof -
  let ?x = "flushed_batch ids paths x" and ?gens = "with_paths gens paths"
  let ?sel = "tuple_selection (last_tokens paths) (last_scores_of paths) (map (\<lambda>p. parent_beams (last (entries p))) paths)"
  note d = batch_in_stepD [OF bs]
  have len: "length gens = length paths" using d(3,4) by simp
  have plain': "plain_requests cfg ids ?x" using plain by (simp add: plain_requests_def request_of_def)
  obtain shared kv logits x3 x4 u where lg: "general_logits fwd fk fv cfg b ids ?gens ?sel ?x = (Inr (shared, kv, logits), x3)"
    and sel: "select_next_topk_batched T logits (Some (last_scores_of paths)) None W None (cfg_score_mode cfg) True True = Inr sel"
    and rows: "rows = None" and sc: "scatter_batched_beam_kv shared kv ids (batch_step b) W x3 = (Inr u, x4)"
    and ap: "on_runtimes (append_to_paths sel paths) ids x4 = (Inr (), y)"
  proof (rule general_selectionE [OF run plain' details])
    fix gens' sel0 shared kv logits x3 x4 u
    assume p: "map_res require_generation (runtimes ids ?x) = Inr gens'" "current_batched_selection gens' = Inr sel0"
      "general_logits fwd fk fv cfg b ids gens' sel0 ?x = (Inr (shared, kv, logits), x3)"
      "select_next_topk_batched T logits (Some (sel_scores sel0)) None (next_beam_width b) None (cfg_score_mode cfg) True True = Inr sel"
      "rows = None" "scatter_batched_beam_kv shared kv ids (batch_step b) (dbatch_beam_width b) x3 = (Inr u, x4)"
      "on_runtimes (append_to_paths sel (map gen_beam_path gens')) ids x4 = (Inr (), y)"
    have g: "gens' = ?gens" using p(1) general_inputs(1) [OF bs] by simp
    have s: "sel0 = ?sel" using p(2) general_inputs(2) [OF bs] g by simp
    show thesis
      by (rule that [OF p(3) [unfolded g s] _ p(5) p(6) [unfolded W(1)] p(7) [unfolded g with_paths_fields(1) [OF len]]])
        (use p(4) s W(2) in \<open>simp add: tuple_selection_def\<close>)
  qed
  obtain prefill e gen idx where sh: "shared = shares_beam_kv cfg ids x"
    and pf: "batched_prefill_for_states cfg ids gens x = (Inr prefill, x\<lparr>ex_prefill_batches := e\<rparr>)"
    and gn: "make_batched_generation fk fv cfg b shared gens prefill None = Inr gen"
    and ix: "parent_history_topk_indices (map decode_parent_history (runtimes ids x)) (cfg_num_q_heads cfg) D W = Inr idx"
    and fw: "fwd \<lparr>tensor_shape = [length ids, nat W], tensor_data = concat (last_tokens paths)\<rparr> gen (batch_step b) W idx D = (Inr logits, kv)"
    and fr: "frame x3 = frame (x\<lparr>ex_prefill_batches := e\<rparr>)" and wf: "wf_tensor logits"
    and other: "\<And>rid. rid \<notin> set ids \<Longrightarrow> runtime_of rid x3 = runtime_of rid x"
    and row: "\<And>k. k < length ids \<Longrightarrow> runtime_of (ids ! k) x3
         = (if shared then map_kv (row_kv (int k) kv) (flushed (runtime_of (ids ! k) x) (paths ! k)) else flushed (runtime_of (ids ! k) x) (paths ! k))"
    by (rule general_step_facts [OF T fc bs D W(1) plain caches lg]) blast
  have ne: "last_scores_of paths \<noteq> []" using d(5) by simp
  obtain ts where ts: "select_next_topk_batched T logits None (Some \<lparr>tensor_shape = [length (last_scores_of paths), length (hd (last_scores_of paths))],
        tensor_data = concat (last_scores_of paths)\<rparr>) W None (cfg_score_mode cfg) False False = Inr ts"
    and rw: "selects_rows ts (sel_token_ids sel) (sel_scores sel) (sel_parent_beams sel)" and wd: "sel_beam_width ts = sel_beam_width sel"
    and wn: "sel_beam_width sel = nat W"
    and ls: "length (sel_token_ids sel) = length (last_scores_of paths)" "length (sel_scores sel) = length (last_scores_of paths)" "length (sel_parent_beams sel) = length (last_scores_of paths)"
    and rp: "rows_of_width (nat W) (sel_parent_beams sel)"
    by (rule select_on_device [OF T wf ne sel]) blast
  have ls': "length (sel_token_ids sel) = length ids" "length (sel_scores sel) = length ids" "length (sel_parent_beams sel) = length ids"
    using ls d(4) by simp_all
  note scat = scatter_Inr [OF sc]
  define xt where "xt = after_tensor_step shared kv (batch_step b) W ids (zip (sel_token_ids sel) (zip (sel_scores sel) (sel_parent_beams sel))) (x\<lparr>ex_prefill_batches := e\<rparr>)"
  have run': "tensor_selection fwd T fk fv cfg b ids x = (Inr ts, xt)"
    unfolding xt_def W(1) [symmetric]
    by (rule tensor_selection_run [OF tensor_inputs(1) [OF bs] tensor_inputs(2) [OF bs] tensor_inputs(3) [OF bs] pf gn sh _ _ _ rw ls' scat(1)])
      (use ix fw ts W D in simp_all)
  obtain paths' where ps: "length paths' = length ids"
    "y = set_runtimes ids (map2 (\<lambda>p rt. map_generation (\<lambda>g. g\<lparr>gen_beam_path := p\<rparr>) rt) paths' (runtimes ids x4)) x4"
    "\<forall>k < length ids. path_append (paths ! k) (sel_parent_beams sel ! k) (sel_token_ids sel ! k) (sel_scores sel ! k) = Inr (paths' ! k)"
    using append_runtimes [OF ap d(1,4) ls'] by blast
  have frames: "frame xt = frame y" using fr scat(2) ps(2) by (simp add: xt_def)
  have "frame xt = frame (x\<lparr>ex_prefill_batches := e\<rparr>)" by (simp add: xt_def)
  then have sched: "ex_scheduler xt = ex_scheduler x" by (simp add: frame_eq)
  have others: "runtime_of rid xt = runtime_of rid y" if "rid \<notin> set ids" for rid
    using that other [OF that] scat(2) ps(2) by (simp add: xt_def runtime_of_other write_rows_other)
  let ?F = "\<lambda>k. kv_effect shared kv (batch_step b) W (int k)"
  have rowk: "path_append (paths ! k) (sel_parent_beams sel ! k) (sel_token_ids sel ! k) (sel_scores sel ! k) = Inr (paths' ! k)
        \<and> runtime_of (ids ! k) xt = push_selection (sel_token_ids sel ! k, sel_scores sel ! k, sel_parent_beams sel ! k) (map_kv (?F k) (runtime_of (ids ! k) x))
        \<and> runtime_of (ids ! k) y = map_generation (\<lambda>g. g\<lparr>gen_beam_path := paths' ! k\<rparr>) (map_kv (?F k) (flushed (runtime_of (ids ! k) x) (paths ! k)))"
    if k: "k < length ids" for k
  proof -
    have "runtime_of (ids ! k) x4 = map_kv (?F k) (flushed (runtime_of (ids ! k) x) (paths ! k))"
      using row [OF k] scat(2) k by (simp add: kv_effect_def write_rows_nth [OF d(1)])
    then have "runtime_of (ids ! k) y = map_generation (\<lambda>g. g\<lparr>gen_beam_path := paths' ! k\<rparr>) (map_kv (?F k) (flushed (runtime_of (ids ! k) x) (paths ! k)))"
      using k ps(1) unfolding ps(2) by (simp add: runtime_of_nth [OF d(1)] del: map_generation_twice)
    moreover have "runtime_of (ids ! k) xt = push_selection (sel_token_ids sel ! k, sel_scores sel ! k, sel_parent_beams sel ! k) (map_kv (?F k) (runtime_of (ids ! k) x))"
      using k ls' by (simp add: xt_def after_tensor_step_runtime [OF d(1)])
    ultimately show ?thesis using ps(3) k by blast
  qed
  show thesis by (rule that [OF run' rows frames sched wd wn ls' rp others rowk])
qed


section \<open>Settling the requests\<close>

lemma release_kv_lease_states: "release_kv_lease st s = (st', s') \<Longrightarrow> states s' = states s \<and> st_request st' = st_request st"
  by (auto simp: release_kv_lease_def record_kv_event_def Let_def split: option.splits prod.splits)

lemma finish_state_others:
  assumes "finish_state cfg b timing st rt toks scs reason s = (r, s')" and "rid \<noteq> request_id (st_request st)"
  shows "map_of (states s') rid = map_of (states s) rid"
proof -
  let ?st = "st\<lparr>st_stage := Finished, finished_tick := Some (tick_count s), stop_reason := Some reason\<rparr>"
  let ?s = "s\<lparr>decoding := removeAll (request_id (st_request st)) (decoding s)\<rparr>"
  obtain st2 s1 where rel: "release_kv_lease ?st ?s = (st2, s1)" by (cases "release_kv_lease ?st ?s")
  have s1: "states s1 = states s" using release_kv_lease_states [OF rel] by simp
  show ?thesis
  proof (cases "path_metadata cfg st2 rt reason (finish_metadata cfg b timing st2 reason)")
    case (Inl e)
    then show ?thesis using assms rel s1 by (auto simp: finish_state_def Let_def set_state_def update_conv')
  next
    case (Inr m)
    then show ?thesis using assms rel s1 by (auto simp: finish_state_def Let_def set_state_def update_conv')
  qed
qed

text \<open>The response depends on the runtime only through the flushed path, unless details are kept.\<close>

lemma finish_state_cong:
  assumes "\<not> cfg_return_beam_details cfg"
    and "map_option gen_beam_path (rt_generation rt) = map_option gen_beam_path (rt_generation rt')"
  shows "finish_state cfg b timing st rt toks scs reason s = finish_state cfg b timing st rt' toks scs reason s"
proof -
  have "path_metadata cfg st' rt reason m = path_metadata cfg st' rt' reason m" for st' m
    unfolding path_metadata_def Let_def assms(2) using assms(1) by (simp cong: option.case_cong)
  then show ?thesis by (simp only: finish_state_def)
qed

definition plain_state :: "GRContinuousRequestState \<Rightarrow> string \<Rightarrow> bool" where
  "plain_state st rid \<longleftrightarrow> request_id (st_request st) = rid \<and> beam_width_policy (st_request st) = None \<and> request_stop_token_ids (st_request st) = []"

lemma settle_one:
  assumes sch: "ex_scheduler x = ex_scheduler y" and tm: "ex_timing x = ex_timing y" and det: "\<not> cfg_return_beam_details cfg"
    and st: "map_of (states (ex_scheduler x)) rid = Some st" and plain: "plain_state st rid"
    and fin: "current_decode_step st + 1 \<ge> req_max_decode_steps (st_request st) \<Longrightarrow> map_of finalized rid = Some (toks, scs)
        \<and> map_option gen_beam_path (rt_generation (runtime_of rid x)) = map_option gen_beam_path (rt_generation (runtime_of rid y))"
    and run: "on_scheduler (settle_general cfg b (ex_timing y) w rid toks scs (runtime_of rid y)) y = (r, y')"
  shows "\<exists>s'. settle_tensor cfg b w finalized rid x = (r, x\<lparr>ex_scheduler := s'\<rparr>) \<and> y' = y\<lparr>ex_scheduler := s'\<rparr>
    \<and> (\<forall>rid'. rid' \<noteq> rid \<longrightarrow> map_of (states s') rid' = map_of (states (ex_scheduler x)) rid')"
proof -
  let ?s = "ex_scheduler x"
  let ?st = "st\<lparr>current_decode_step := current_decode_step st + 1, st_active_beam_width := Some w\<rparr>"
  have obs: "observe_request_policy_scores (st_request ?st) (current_decode_step ?st) scs = Inr (st_request st)"
    using plain by (simp add: plain_state_def observe_request_policy_scores_def)
  have stop: "continuous_stop_reason ?st toks = (if current_decode_step st + 1 \<ge> req_max_decode_steps (st_request st) then Some ''max_decode_steps'' else None)"
    using plain by (simp add: plain_state_def continuous_stop_reason_def request_selection_all_stop_def selection_all_stop_def)
  show ?thesis
  proof (cases "current_decode_step st + 1 \<ge> req_max_decode_steps (st_request st)")
    case False
    then show ?thesis
      using run obs stop st sch by (auto simp: on_scheduler_def settle_general_def settle_tensor_def Let_def set_state_def update_conv')
  next
    case True
    note f = fin [OF True]
    obtain q s' where fs: "finish_state cfg b (ex_timing x) ?st (runtime_of rid x) toks scs ''max_decode_steps'' (set_state rid ?st ?s) = (q, s')"
      by (cases "finish_state cfg b (ex_timing x) ?st (runtime_of rid x) toks scs ''max_decode_steps'' (set_state rid ?st ?s)")
    have fs': "finish_state cfg b (ex_timing y) ?st (runtime_of rid y) toks scs ''max_decode_steps'' (set_state rid ?st ?s) = (q, s')"
      using fs finish_state_cong [OF det conjunct2 [OF f]] tm by simp
    have others: "\<forall>rid'. rid' \<noteq> rid \<longrightarrow> map_of (states s') rid' = map_of (states ?s) rid'"
    proof (intro allI impI)
      fix rid' assume "rid' \<noteq> rid"
      then have "rid' \<noteq> request_id (st_request ?st)" using plain by (simp add: plain_state_def)
      from finish_state_others [OF fs this] show "map_of (states s') rid' = map_of (states ?s) rid'"
        using \<open>rid' \<noteq> rid\<close> by (simp add: set_state_def update_conv')
    qed
    have rt: "runtime_of rid (x\<lparr>ex_scheduler := z\<rparr>) = runtime_of rid x" for z by (simp add: runtime_of_def)
    have tens: "settle_tensor cfg b w finalized rid x = bind_st (q, x\<lparr>ex_scheduler := s'\<rparr>) (\<lambda>_ x3. (Inr True, x3))"
      using st f True fs by (simp add: settle_tensor_def Let_def on_scheduler_def rt)
    have gen: "settle_general cfg b (ex_timing y) w rid toks scs (runtime_of rid y) ?s = bind_st (q, s') (\<lambda>_ s2. (Inr True, s2))"
      using st obs stop True fs' by (simp add: settle_general_def Let_def)
    show ?thesis
    proof (cases q)
      case (Inl e)
      then show ?thesis using run tens gen sch others by (auto simp: on_scheduler_def)
    next
      case (Inr u)
      then show ?thesis using run tens gen sch others by (auto simp: on_scheduler_def)
    qed
  qed
qed


lemma settle_general_None:
  "settle_general_each cfg b w ((rid, toks, scs, None) # rows) y =
     bind_st (on_scheduler (settle_general cfg b (ex_timing y) w rid toks scs (runtime_of rid y)) y) (\<lambda>fin y1.
     bind_st (settle_general_each cfg b w rows y1) (\<lambda>fins y2. (Inr (if fin then rid # fins else fins), y2)))"
  by (simp add: Let_def)

definition settles ::
  "'v executor \<Rightarrow> 'v executor \<Rightarrow> sched \<Rightarrow> (string, int list \<times> pyfloat list) dict \<Rightarrow> string \<times> int list \<times> pyfloat list \<Rightarrow> bool" where
  "settles x y s finalized row \<longleftrightarrow> (case row of (rid, toks, scs) \<Rightarrow>
     \<exists>st. map_of (states s) rid = Some st \<and> plain_state st rid
       \<and> (current_decode_step st + 1 \<ge> req_max_decode_steps (st_request st) \<longrightarrow> map_of finalized rid = Some (toks, scs)
          \<and> map_option gen_beam_path (rt_generation (runtime_of rid x)) = map_option gen_beam_path (rt_generation (runtime_of rid y))))"

lemma runtime_of_scheduler [simp]: "runtime_of rid (x\<lparr>ex_scheduler := s\<rparr>) = runtime_of rid x"
  by (simp add: runtime_of_def)

lemma settle_all:
  assumes "\<not> cfg_return_beam_details cfg" and "ex_timing x = ex_timing y" and "distinct (map fst rows)"
    and "\<forall>row \<in> set rows. settles x y s finalized row"
    and "settle_general_each cfg b w (map (\<lambda>(rid, toks, scs). (rid, toks, scs, None)) rows) (y\<lparr>ex_scheduler := s\<rparr>) = (r, y')"
  shows "\<exists>s'. settle_tensor_each cfg b w finalized (map fst rows) (x\<lparr>ex_scheduler := s\<rparr>) = (r, x\<lparr>ex_scheduler := s'\<rparr>) \<and> y' = y\<lparr>ex_scheduler := s'\<rparr>"
  using assms(3-5)
proof (induction rows arbitrary: s r y')
  case (Cons row rows)
  obtain rid toks scs where row: "row = (rid, toks, scs)" by (cases row)
  let ?x = "x\<lparr>ex_scheduler := s\<rparr>" and ?y = "y\<lparr>ex_scheduler := s\<rparr>"
  obtain st where st: "map_of (states s) rid = Some st" "plain_state st rid"
    and fin: "current_decode_step st + 1 \<ge> req_max_decode_steps (st_request st) \<Longrightarrow> map_of finalized rid = Some (toks, scs)
        \<and> map_option gen_beam_path (rt_generation (runtime_of rid x)) = map_option gen_beam_path (rt_generation (runtime_of rid y))"
    using Cons.prems(2) row by (auto simp: settles_def)
  obtain q y1 where g: "on_scheduler (settle_general cfg b (ex_timing ?y) w rid toks scs (runtime_of rid ?y)) ?y = (q, y1)"
    by (cases "on_scheduler (settle_general cfg b (ex_timing ?y) w rid toks scs (runtime_of rid ?y)) ?y")
  have "\<exists>s1. settle_tensor cfg b w finalized rid ?x = (q, ?x\<lparr>ex_scheduler := s1\<rparr>) \<and> y1 = ?y\<lparr>ex_scheduler := s1\<rparr>
    \<and> (\<forall>rid'. rid' \<noteq> rid \<longrightarrow> map_of (states s1) rid' = map_of (states (ex_scheduler ?x)) rid')"
    by (rule settle_one [OF _ _ assms(1) _ st(2) _ g]) (use assms(2) st(1) fin in simp_all)
  then obtain s1 where s1: "settle_tensor cfg b w finalized rid ?x = (q, x\<lparr>ex_scheduler := s1\<rparr>)" "y1 = y\<lparr>ex_scheduler := s1\<rparr>"
    "\<And>rid'. rid' \<noteq> rid \<Longrightarrow> map_of (states s1) rid' = map_of (states s) rid'" by auto
  have run: "bind_st (q, y\<lparr>ex_scheduler := s1\<rparr>) (\<lambda>fin y1. bind_st (settle_general_each cfg b w (map (\<lambda>(rid, toks, scs). (rid, toks, scs, None)) rows) y1)
      (\<lambda>fins y2. (Inr (if fin then rid # fins else fins), y2))) = (r, y')"
    using Cons.prems(3) unfolding row list.map prod.case settle_general_None g s1(2) .
  show ?case
  proof (cases q)
    case (Inl e)
    then show ?thesis using run s1(1) row by auto
  next
    case (Inr f)
    obtain r1 y2 where rest: "settle_general_each cfg b w (map (\<lambda>(rid, toks, scs). (rid, toks, scs, None)) rows) (y\<lparr>ex_scheduler := s1\<rparr>) = (r1, y2)"
      by (cases "settle_general_each cfg b w (map (\<lambda>(rid, toks, scs). (rid, toks, scs, None)) rows) (y\<lparr>ex_scheduler := s1\<rparr>)")
    have keep: "\<forall>row \<in> set rows. settles x y s1 finalized row"
    proof
      fix r assume r: "r \<in> set rows"
      then have "fst r \<noteq> rid" using Cons.prems(1) row by auto
      moreover have "settles x y s finalized r" using Cons.prems(2) r by simp
      ultimately show "settles x y s1 finalized r" using s1(3) by (cases r) (simp add: settles_def)
    qed
    obtain s2 where s2: "settle_tensor_each cfg b w finalized (map fst rows) (x\<lparr>ex_scheduler := s1\<rparr>) = (r1, x\<lparr>ex_scheduler := s2\<rparr>)" "y2 = y\<lparr>ex_scheduler := s2\<rparr>"
      using Cons.IH [OF _ keep rest] Cons.prems(1) by auto
    have "(r, y') = bind_st (r1, y2) (\<lambda>fins y2. (Inr (if f then rid # fins else fins), y2))"
      using run rest Inr by simp
    moreover have "settle_tensor_each cfg b w finalized (map fst (row # rows)) ?x = bind_st (r1, x\<lparr>ex_scheduler := s2\<rparr>) (\<lambda>fins x2. (Inr (if f then rid # fins else fins), x2))"
      using s1(1) s2(1) Inr row by simp
    ultimately show ?thesis using s2(2) by (cases r1) auto
  qed
next
  case Nil
  then show ?case by (intro exI [of _ s]) simp
qed


section \<open>Flushing the finished\<close>

lemma flush_finishing_to:
  assumes "\<forall>rid \<in> set ids. \<exists>g. flushes_to (runtime_of rid x) g (P rid)"
  shows "flush_finishing ids x = (Inr (map (\<lambda>rid. (rid, last_row (P rid))) (finishing_ids ids x)),
     set_runtimes (finishing_ids ids x) (map (\<lambda>rid. flushed (runtime_of rid x) (P rid)) (finishing_ids ids x)) x)"
proof -
  let ?fin = "finishing_ids ids x"
  have sub: "set ?fin \<subseteq> set ids" by (auto simp: finishing_ids_def)
  have "list_all2 (\<lambda>rt p. \<exists>g. flushes_to rt g p) (runtimes ?fin x) (map P ?fin)"
    using assms subsetD [OF sub nth_mem] by (simp add: list_all2_conv_all_nth)
  then have "flush_each (runtimes ?fin x) = (Inr (map last_row (map P ?fin)), map2 flushed (runtimes ?fin x) (map P ?fin))"
    by (rule flush_each_to)
  moreover have "map2 flushed (runtimes ?fin x) (map P ?fin) = map (\<lambda>rid. flushed (runtime_of rid x) (P rid)) ?fin"
    by (auto simp: runtimes_def list_eq_iff_nth_eq)
  moreover have "zip ?fin (map last_row (map P ?fin)) = map (\<lambda>rid. (rid, last_row (P rid))) ?fin"
    by (auto simp: list_eq_iff_nth_eq)
  ultimately show ?thesis by (simp add: flush_finishing_def on_runtimes_def batched_flush_agrees Let_def)
qed

lemma observed_flushed:
  assumes "flushes_to rt g path" and "entries path \<noteq> []"
  shows "observed (flushed rt path) = observed rt"
  unfolding observed_flushes [OF assms(1)] observed_flushes [OF flushes_to_flushed [OF assms]] by (simp add: flushed_def comp_def)

lemma runtime_of_flushed_finishing:
  assumes "distinct fin"
  shows "runtime_of rid (set_runtimes fin (map (\<lambda>rid. flushed (runtime_of rid x) (P rid)) fin) x)
    = (if rid \<in> set fin then flushed (runtime_of rid x) (P rid) else runtime_of rid x)"
proof (cases "rid \<in> set fin")
  case True
  then obtain k where "k < length fin" "rid = fin ! k" by (auto simp: in_set_conv_nth)
  then show ?thesis using runtime_of_nth [OF assms, of "map (\<lambda>rid. flushed (runtime_of rid x) (P rid)) fin" k x] by simp
qed (simp add: runtime_of_other)

text \<open>The new path of a request of the batch.\<close>

lemma in_step_push:
  assumes "in_step W D rt g path" and "path_append path parents toks scs = Inr path'" and "length parents = nat W"
  shows "in_step W (D + 1) (push_selection (toks, scs, parents) (map_kv f rt)) (g\<lparr>gen_beam_kv := f (gen_beam_kv g)\<rparr>) path'"
proof -
  have old: "flushes_to rt g path" "path_uniform W path" "steps_done path = D" "decode_parent_history rt = map parent_beams (entries path)"
    using assms(1) by (simp_all add: in_step_def)
  have es: "entries path' = entries path @ [\<lparr>parent_beams = parents, token_ids = toks, scores = scs\<rparr>]"
    using assms(2) by (auto simp: path_append_Inr)
  have "0 < W" by (rule uniform_last(1) [OF old(2)])
  then have "path_uniform W path'"
    using old(2) path_append_wf [OF _ assms(2)] es assms(3) by (auto simp: path_uniform_def entry_width_def)
  then show ?thesis
    using flushes_to_push [OF old(1) assms(2), of f] old(3,4) es by (simp add: in_step_def steps_done_def push_selection_def map_generation_def)
qed


section \<open>The two routes agree\<close>

text \<open>The states the batch is run on.\<close>

definition batch_states :: "string list \<Rightarrow> 'v executor \<Rightarrow> bool" where
  "batch_states ids x \<longleftrightarrow> (\<forall>rid \<in> set ids. \<exists>st. map_of (states (ex_scheduler x)) rid = Some st \<and> request_id (st_request st) = rid)"

lemma can_run_plain:
  assumes "can_run_decode_tensor_selection cfg b ids x" and "batch_states ids x"
  shows "plain_requests cfg ids x" and "\<not> cfg_return_beam_details cfg" and "next_beam_width b = dbatch_beam_width b"
    and "\<And>rid. rid \<in> set ids \<Longrightarrow> \<exists>st. map_of (states (ex_scheduler x)) rid = Some st \<and> plain_state st rid"
proof -
  note c = assms(1) [unfolded can_run_decode_tensor_selection_def Let_def list_all_iff]
  show "plain_requests cfg ids x" "\<not> cfg_return_beam_details cfg" "next_beam_width b = dbatch_beam_width b"
    using c by (auto simp: plain_requests_def)
  fix rid assume r: "rid \<in> set ids"
  then obtain st where st: "map_of (states (ex_scheduler x)) rid = Some st" "request_id (st_request st) = rid"
    using assms(2) by (auto simp: batch_states_def)
  have "request_of rid x = st_request st" using st(1) by (simp add: request_of_def)
  then show "\<exists>st. map_of (states (ex_scheduler x)) rid = Some st \<and> plain_state st rid"
    using c r st by (auto simp: plain_state_def)
qed

text \<open>C21: which of its two decode routes the executor takes cannot be told from outside. For a batch the tensor
  route accepts, whose runtimes hold on the device what flushing them would put in their beam paths, if
  the general route answers then the tensor route gives the same finished requests, the same
  scheduler with the same responses, the same pools and prompts, and runtimes that differ only by
  selections still pending on the device; and its unfinished requests are ready for the next tensor step.\<close>

theorem tensor_route_refines_general:
  assumes T: "torch_contract T" and fc: "forward_contract fwd"
    and can: "can_run_decode_tensor_selection cfg b ids x" and sts: "batch_states ids x"
    and bs: "batch_in_step ids (dbatch_beam_width b) (batch_step b + 1) x gens paths"
    and caches: "inputs_cache_sound (ex_inputs_cache x)" "topk_cache_sound (ex_topk_cache x)"
    and general: "run_decode_batch_general fwd T fk fv cfg b ids x = (Inr fin, y)"
  shows "\<exists>z. run_decode_batch fwd T fk fv cfg b ids x = (Inr fin, z) \<and> frame z = frame y
    \<and> (\<forall>rid. observed (runtime_of rid z) = observed (runtime_of rid y))
    \<and> (\<forall>rid \<in> set ids - set (finishing_ids ids x). \<exists>g path. in_step (dbatch_beam_width b) (batch_step b + 2) (runtime_of rid z) g path)"
proof -
  let ?W = "dbatch_beam_width b" and ?D = "batch_step b + 1"
  note plain = can_run_plain [OF can sts] and d = batch_in_stepD [OF bs]
  obtain sel rows y1 where gs: "general_selection fwd T fk fv cfg b ids (flushed_batch ids paths x) = (Inr (sel, rows), y1)"
    and settle: "settle_general_each cfg b (int (sel_beam_width sel)) (selection_rows ids sel rows) y1 = (Inr fin, y)"
    using general flush_batch_in_step [OF bs] by (auto simp: run_decode_batch_general_def bind_st_Inr_iff)
  obtain ts xt F paths' where run: "tensor_selection fwd T fk fv cfg b ids x = (Inr ts, xt)" and rows: "rows = None" and fr: "frame xt = frame y1" and sch: "ex_scheduler xt = ex_scheduler x"
    and wd: "sel_beam_width ts = sel_beam_width sel" "sel_beam_width sel = nat ?W"
    and ls: "length (sel_token_ids sel) = length ids" "length (sel_scores sel) = length ids" "length (sel_parent_beams sel) = length ids"
    and rp: "rows_of_width (nat ?W) (sel_parent_beams sel)"
    and other: "\<And>rid. rid \<notin> set ids \<Longrightarrow> runtime_of rid xt = runtime_of rid y1"
    and row: "\<And>k. k < length ids \<Longrightarrow> path_append (paths ! k) (sel_parent_beams sel ! k) (sel_token_ids sel ! k) (sel_scores sel ! k) = Inr (paths' ! k)
        \<and> runtime_of (ids ! k) xt = push_selection (sel_token_ids sel ! k, sel_scores sel ! k, sel_parent_beams sel ! k) (map_kv (F k) (runtime_of (ids ! k) x))
        \<and> runtime_of (ids ! k) y1 = map_generation (\<lambda>g. g\<lparr>gen_beam_path := paths' ! k\<rparr>) (map_kv (F k) (flushed (runtime_of (ids ! k) x) (paths ! k)))"
    by (rule selections_agree [OF T fc bs refl refl plain(3) plain(1,2) caches gs]) blast
  define P where "P = (\<lambda>rid. the (map_of (zip ids (map ((!) paths') [0..<length ids])) rid))"
  have P: "P (ids ! k) = paths' ! k" if "k < length ids" for k
    using map_of_zip_nth [of ids "map ((!) paths') [0..<length ids]" k] d(1) that by (simp add: P_def)
  have step: "\<exists>g. in_step ?W (?D + 1) (runtime_of (ids ! k) xt) g (paths' ! k)" if k: "k < length ids" for k
    using in_step_push [OF d(7) [OF k] conjunct1 [OF row [OF k]], of "F k"] rp ls(3) k row [OF k] by (auto simp: rows_of_width_def)
  have to: "\<forall>rid \<in> set ids. \<exists>g. flushes_to (runtime_of rid xt) g (P rid)"
    using step P by (fastforce simp: in_set_conv_nth in_step_def)
  let ?fin = "finishing_ids ids xt"
  let ?xf = "set_runtimes ?fin (map (\<lambda>rid. flushed (runtime_of rid xt) (P rid)) ?fin) xt"
  let ?finalized = "map (\<lambda>rid. (rid, last_row (P rid))) ?fin"
  have dfin: "distinct ?fin" and sub: "set ?fin \<subseteq> set ids" using d(1) by (auto simp: finishing_ids_def)
  note flush = flush_finishing_to [OF to] and rt = runtime_of_flushed_finishing [OF dfin, of _ xt P]
  let ?rows = "zip ids (zip (sel_token_ids sel) (sel_scores sel))"
  have last: "last_row (paths' ! k) = (sel_token_ids sel ! k, sel_scores sel ! k)" and ne: "entries (paths' ! k) \<noteq> []" if "k < length ids" for k
    using row [OF that] by (auto simp: path_append_Inr)
  have sel_rows: "selection_rows ids sel None = map (\<lambda>(rid, toks, scs). (rid, toks, scs, None)) ?rows"
    using ls by (intro nth_equalityI) (simp_all add: selection_rows_def)
  have ready: "\<forall>r \<in> set ?rows. settles ?xf y1 (ex_scheduler x) ?finalized r"
  proof
    fix r assume "r \<in> set ?rows"
    then obtain k where k: "k < length ids" and r: "r = (ids ! k, sel_token_ids sel ! k, sel_scores sel ! k)"
      using ls by (auto simp: in_set_conv_nth)
    obtain st where st: "map_of (states (ex_scheduler x)) (ids ! k) = Some st" "plain_state st (ids ! k)" using plain(4) [of "ids ! k"] k by auto
    have "map_of ?finalized (ids ! k) = Some (sel_token_ids sel ! k, sel_scores sel ! k)
        \<and> map_option gen_beam_path (rt_generation (runtime_of (ids ! k) ?xf)) = map_option gen_beam_path (rt_generation (runtime_of (ids ! k) y1))"
      if "current_decode_step st + 1 \<ge> req_max_decode_steps (st_request st)"
    proof -
      have f: "ids ! k \<in> set ?fin" using that st(1) k sch by (simp add: finishing_ids_def)
      have "map_of ?finalized (ids ! k) = Some (last_row (P (ids ! k)))" using f by (simp add: map_of_map_keys map_of_eq_Some_iff [OF _] dfin comp_def)
      moreover have "runtime_of (ids ! k) ?xf = flushed (runtime_of (ids ! k) xt) (paths' ! k)" using rt f P [OF k] by simp
      moreover obtain g where "rt_generation (runtime_of (ids ! k) xt) = Some g" using step [OF k] by (auto simp: in_step_def flushes_to_def)
      then have "map_option gen_beam_path (rt_generation (flushed (runtime_of (ids ! k) xt) (paths' ! k))) = Some (paths' ! k)"
        by (simp add: flushed_def clear_pending_def map_generation_def)
      moreover obtain h where "rt_generation (runtime_of (ids ! k) x) = Some h" using d(7) [OF k] by (auto simp: in_step_def flushes_to_def)
      then have "map_option gen_beam_path (rt_generation (runtime_of (ids ! k) y1)) = Some (paths' ! k)"
        using row [OF k] by (simp add: flushed_def clear_pending_def map_generation_def)
      ultimately show ?thesis unfolding P [OF k] last [OF k] by presburger
    qed
    then show "settles ?xf y1 (ex_scheduler x) ?finalized r" using st unfolding r settles_def by auto
  qed
  have fx: "frame ?xf = frame xt" by (rule set_runtimes_keep(1))
  have sf: "ex_scheduler ?xf = ex_scheduler x" "ex_timing ?xf = ex_timing y1" "ex_scheduler y1 = ex_scheduler x"
    by (rule trans [OF frameD(1) [OF fx] sch], rule frameD(2) [OF trans [OF fx fr]], rule trans [OF frameD(1) [OF fr [symmetric]] sch])
  have fstr: "map fst ?rows = ids" using ls by simp
  have eta: "y1\<lparr>ex_scheduler := ex_scheduler x\<rparr> = y1" "?xf\<lparr>ex_scheduler := ex_scheduler x\<rparr> = ?xf"
    using executor_eta [of y1, unfolded sf(3)] executor_eta [of ?xf, unfolded sf(1)] .
  obtain s' where s': "settle_tensor_each cfg b (int (sel_beam_width sel)) ?finalized ids ?xf = (Inr fin, ?xf\<lparr>ex_scheduler := s'\<rparr>)" "y = y1\<lparr>ex_scheduler := s'\<rparr>"
    using settle_all [OF plain(2) sf(2) _ ready, of b "int (sel_beam_width sel)" "Inr fin" y] settle d(1)
    unfolding rows sel_rows fstr eta by blast
  have "run_decode_batch fwd T fk fv cfg b ids x = (Inr fin, ?xf\<lparr>ex_scheduler := s'\<rparr>)"
    using can run flush s'(1) wd(1) by (simp add: run_decode_batch_def run_decode_batch_tensor_selection_def)
  moreover have "frame (?xf\<lparr>ex_scheduler := s'\<rparr>) = frame y"
    using set_runtimes_keep(1) [of ?fin "map (\<lambda>rid. flushed (runtime_of rid xt) (P rid)) ?fin" xt] fr s'(2) by (simp add: frame_def)
  moreover have "observed (runtime_of rid (?xf\<lparr>ex_scheduler := s'\<rparr>)) = observed (runtime_of rid y)" for rid
  proof (cases "rid \<in> set ids")
    case False
    then have "rid \<notin> set ?fin" using sub by blast
    then show ?thesis using other [OF False] s'(2) by (simp add: runtime_of_other)
  next
    case True
    then obtain k where k: "k < length ids" "rid = ids ! k" by (auto simp: in_set_conv_nth)
    obtain g where g: "flushes_to (runtime_of rid xt) g (paths' ! k)" using step [OF k(1)] k(2) by (auto simp: in_step_def)
    have "observed (runtime_of rid ?xf) = observed (runtime_of rid xt)"
      using observed_flushed [OF g ne [OF k(1)]] P [OF k(1)] k(2) by (simp add: rt)
    also have "\<dots> = observed (runtime_of rid y1)"
      using observed_push [of "runtime_of (ids ! k) x" "gens ! k" "paths ! k" _ _ _ "paths' ! k" "F k"] row [OF k(1)] d(7) [OF k(1)] k(2)
      by (auto simp: in_step_def path_uniform_def simp del: map_generation_twice)
    finally show ?thesis using s'(2) by simp
  qed
  moreover have "\<exists>g path. in_step ?W (batch_step b + 2) (runtime_of rid (?xf\<lparr>ex_scheduler := s'\<rparr>)) g path" if r: "rid \<in> set ids - set (finishing_ids ids x)" for rid
  proof -
    obtain k where k: "k < length ids" "rid = ids ! k" using r by (auto simp: in_set_conv_nth)
    have "rid \<notin> set ?fin" using r sch by (simp add: finishing_ids_def)
    then show ?thesis using step [OF k(1)] k(2) by (auto simp: runtime_of_other add.commute)
  qed
  ultimately show ?thesis by blast
qed


text \<open>Two plain requests in their first decode step; the first has only that one.\<close>

definition ex_plain_request :: "string \<Rightarrow> int \<Rightarrow> GRServingRequest" where
  "ex_plain_request rid steps = \<lparr>request_id = rid, req_input_ids = IdsTensor [1, 3], req_max_decode_steps = steps,
     req_beam_width = 2, req_metadata = [], item_mask_provider = None, beam_width_policy = None, stop_token_ids = [],
     logits_processor_callable = []\<rparr>"

definition ex_decoding_state :: "string \<Rightarrow> int \<Rightarrow> GRContinuousRequestState" where
  "ex_decoding_state rid steps = (new_request_state (ex_plain_request rid steps) 0)
     \<lparr>st_stage := Decoding, admitted_tick := Some 1, st_active_beam_width := Some 2\<rparr>"

definition ex_first_path :: BeamPath where
  "ex_first_path = \<lparr>max_decode_steps = 4, path_beam_width = 2,
     entries = [\<lparr>parent_beams = [0, 0], token_ids = [1, 2], scores = [Fin 3, Fin 2]\<rparr>]\<rparr>"

definition ex_first_generation :: "string \<Rightarrow> nat GRGenerationState" where
  "ex_first_generation rid = \<lparr>gen_request_id = rid,
     gen_prefill = \<lparr>prefill_logits = \<lparr>tensor_shape = [1, 3], tensor_data = [Fin 0, Fin 3, Fin 2]\<rparr>,
       prefill_context_kv = \<lparr>ctx_shape = [1, 1, 3, 1, 2], ctx_key = (\<lambda>_ _. 0), ctx_value = (\<lambda>_ _. 0)\<rparr>\<rparr>,
     gen_beam_kv = \<lparr>kv_shape = [1, 1, 3, 2, 1, 2], kv_key = (\<lambda>_ _ _ _. 0), kv_value = (\<lambda>_ _ _ _. 0)\<rparr>,
     gen_beam_path = ex_first_path, gen_fixed_beam_width = 2, gen_score_mode = ''raw_logits''\<rparr>"

definition ex_first_runtime :: "string \<Rightarrow> nat GRRequestRuntime" where
  "ex_first_runtime rid = new_runtime\<lparr>rt_generation := Some (ex_first_generation rid), decode_selection_token_ids := Some [1, 2],
     decode_selection_scores := Some [Fin 3, Fin 2], decode_parent_history := [[0, 0]]\<rparr>"

definition ex_executor :: "nat executor" where
  "ex_executor = \<lparr>ex_scheduler = \<lparr>policy = \<lparr>max_prefill_batch_size = 2, max_decode_batch_size = 4, pol_max_running_requests = None,
       pol_max_context_tokens = None, pol_max_beam_slots = None, max_finished_requests = None\<rparr>, waiting_prefill = [],
       decoding = [''a'', ''b''], finished = [], states = [(''a'', ex_decoding_state ''a'' 1), (''b'', ex_decoding_state ''b'' 2)],
       kv_alloc = LeaseAllocator \<lparr>max_running_requests = None, max_context_tokens = None, max_beam_slots = None, leases = []\<rparr>,
       tick_count = 1, submitted_requests = 2, succeeded_requests = 0, cancelled_requests = 0, failed_requests = 0,
       timed_out_requests = 0, evicted_finished_requests = 0, admitted_prefill_batches = 1, planned_decode_batches = 1,
       tick_history = [], kv_events = [], max_kv_events = 8\<rparr>,
     ex_runtime = [(''a'', ex_first_runtime ''a''), (''b'', ex_first_runtime ''b'')], ex_beam_pool = None, ex_context_pool = None,
     ex_topk_cache = \<lparr>memo_entries = [], memo_hits = 0, memo_misses = 0\<rparr>,
     ex_inputs_cache = \<lparr>memo_entries = [], memo_hits = 0, memo_misses = 0\<rparr>, ex_prefill_batches = [],
     ex_prefill_cache = \<lparr>cache_max_entries = Some 16, cache_max_tokens = None, page_size = 1, cache_entries = [],
       cache_root = empty_prefix_node, insertions = 0, evictions = 0, evicted_tokens = 0, skipped_insertions = 0, rebuilds = 0,
       total_tokens = 0, total_tree_tokens = 0\<rparr>,
     ex_prefill_counts = \<lparr>cache_hits = 0, exact_hits = 0, prefix_hits = 0, cache_misses = 0, prefix_tokens = 0, extend_tokens = 0,
       cache_skips = 0\<rparr>, ex_timing = []\<rparr>"

definition ex_decode_batch :: GRContinuousDecodeBatch where
  "ex_decode_batch = \<lparr>batch_step = 0, dbatch_beam_width = 2, next_beam_width = 2, batch_context_len = 3, batch_request_ids = [''a'', ''b'']\<rparr>"

definition ex_config :: executor_config where
  "ex_config = \<lparr>cfg_max_beam_width = 2, cfg_score_mode = ''raw_logits'', cfg_return_beam_details = False, cfg_num_q_heads = 1,
     cfg_device = NoDevice, cfg_on_cuda = True, cfg_env = [], cfg_processors = (\<lambda>_. []), cfg_processor_type = [], cfg_adjacent = (\<lambda>_. False)\<rparr>"

definition ex_step_forward :: "nat decode_forward" where
  "ex_step_forward toks g step width idx D = (Inr \<lparr>tensor_shape = [2, 2, 3],
     tensor_data = map Fin [5, 1, 0, 2, 4, 3, 1, 6, 2, 0, 3, 7]\<rparr>, gen_beam_kv g)"

lemma ex_general_runs:
  "fst (run_decode_batch_general ex_step_forward ref_torch (\<lambda>_ _ _ _. 0) (\<lambda>_ _ _ _. 0) ex_config ex_decode_batch [''a'', ''b''] ex_executor) = Inr [''a'']"
  by code_simp


lemma ex_forward_contract: "forward_contract ex_step_forward"
  by (simp add: forward_contract_def ex_step_forward_def wf_tensor_def)

lemma ex_in_step: "rid \<in> {''a'', ''b''} \<Longrightarrow> in_step 2 1 (runtime_of rid ex_executor) (ex_first_generation rid) ex_first_path"
  by (auto simp: in_step_def flushes_to_def path_uniform_def wf_path_def entry_width_def steps_done_def ex_executor_def runtime_of_def
      ex_first_runtime_def new_runtime_def ex_first_generation_def ex_first_path_def pending_selections_def)

lemma ex_batch_in_step:
  "batch_in_step [''a'', ''b''] 2 1 ex_executor (map ex_first_generation [''a'', ''b'']) [ex_first_path, ex_first_path]"
  using ex_in_step by (auto simp: batch_in_step_def less_Suc_eq nth_Cons split: nat.splits)

theorem tensor_route_refines_general_witness:
  "\<exists>z. run_decode_batch ex_step_forward ref_torch (\<lambda>_ _ _ _. 0) (\<lambda>_ _ _ _. 0) ex_config ex_decode_batch [''a'', ''b''] ex_executor = (Inr [''a''], z)
    \<and> (\<exists>g path. in_step 2 2 (runtime_of ''b'' z) g path)"
proof -
  obtain y where y: "run_decode_batch_general ex_step_forward ref_torch (\<lambda>_ _ _ _. 0) (\<lambda>_ _ _ _. 0) ex_config ex_decode_batch [''a'', ''b''] ex_executor = (Inr [''a''], y)"
    using ex_general_runs by (cases "run_decode_batch_general ex_step_forward ref_torch (\<lambda>_ _ _ _. 0) (\<lambda>_ _ _ _. 0) ex_config ex_decode_batch [''a'', ''b''] ex_executor") auto
  have can: "can_run_decode_tensor_selection ex_config ex_decode_batch [''a'', ''b''] ex_executor" by code_simp
  have sts: "batch_states [''a'', ''b''] ex_executor"
    by (simp add: batch_states_def ex_executor_def ex_decoding_state_def new_request_state_def ex_plain_request_def)
  have fields: "dbatch_beam_width ex_decode_batch = 2" "batch_step ex_decode_batch = 0" by (simp_all add: ex_decode_batch_def)
  have bs: "batch_in_step [''a'', ''b''] (dbatch_beam_width ex_decode_batch) (batch_step ex_decode_batch + 1) ex_executor
      (map ex_first_generation [''a'', ''b'']) [ex_first_path, ex_first_path]"
    using ex_batch_in_step by (simp add: fields)
  have caches: "inputs_cache_sound (ex_inputs_cache ex_executor)" "topk_cache_sound (ex_topk_cache ex_executor)"
    by (simp_all add: ex_executor_def empty_memo_sound)
  have fin: "finishing_ids [''a'', ''b''] ex_executor = [''a'']" by code_simp
  show ?thesis
    using tensor_route_refines_general [OF ref_torch_contract ex_forward_contract can sts bs caches y]
    unfolding fin fields by auto
qed


end
