(* ===== verification/GR_Exec_Inv.thy ===== *)
theory GR_Exec_Inv
  imports GR_Executor GR_Exec_Refine
begin

text \<open>
  What the executor keeps of the scheduler: its prefill and its decode are executors in the sense of
  \<open>tick_executors\<close>, so everything proved of a reachable scheduler holds of the scheduler inside a
  running executor. The theory goes from the scheduler's operations (\<open>evolves\<close>: the invariant is kept and
  finished requests stay finished) over the two halves of the executor to its tick.
\<close>

section \<open>Finished requests stay finished\<close>

lemma set_state_finished [simp]: "finished (set_state i st s) = finished s"
  by (simp add: set_state_def)

definition finished_in :: "sched \<Rightarrow> string \<Rightarrow> bool" where
  "finished_in s i \<longleftrightarrow> (\<exists>st. map_of (states s) i = Some st \<and> st_stage st = Finished)"

text \<open>The invariant, and that responses are only kept for finished requests.\<close>

definition sched_ok :: "sched \<Rightarrow> bool" where
  "sched_ok s \<longleftrightarrow> sched_inv s \<and> (\<forall>i. map_of (finished s) i \<noteq> None \<longrightarrow> finished_in s i)"

definition evolves :: "sched \<Rightarrow> sched \<Rightarrow> bool" where
  "evolves s s' \<longleftrightarrow> sched_ok s' \<and> (\<forall>i. finished_in s i \<longrightarrow> finished_in s' i)"

lemma evolves_refl: "sched_ok s \<Longrightarrow> evolves s s"
  by (simp add: evolves_def)

lemma evolves_trans: "evolves s s1 \<Longrightarrow> evolves s1 s2 \<Longrightarrow> evolves s s2"
  by (simp add: evolves_def)

lemma evolvesD: "evolves s s' \<Longrightarrow> sched_ok s'" "evolves s s' \<Longrightarrow> sched_inv s'" "evolves s s' \<Longrightarrow> finished_in s i \<Longrightarrow> finished_in s' i"
  by (simp_all add: evolves_def sched_ok_def)

lemma sched_okD: "sched_ok s \<Longrightarrow> sched_inv s" "sched_ok s \<Longrightarrow> map_of (finished s) i = Some resp \<Longrightarrow> finished_in s i"
  by (auto simp: sched_ok_def)

text \<open>Changes of the bookkeeping only, and of one state that keeps its stage.\<close>

lemma evolves_bookkeeping:
  assumes "sched_ok s" and "sched_inv s'" and "states s' = states s" and "\<And>i. map_of (finished s') i \<noteq> None \<Longrightarrow> map_of (finished s) i \<noteq> None"
  shows "evolves s s'"
  using assms by (simp add: evolves_def sched_ok_def finished_in_def)

lemma evolves_set_state:
  assumes "sched_ok s" and "sched_inv s'" and "map_of (states s) i = Some st" and "states s' = dict_set i st' (states s)"
    and "st_stage st = Finished \<Longrightarrow> st_stage st' = Finished"
    and "\<And>j. map_of (finished s') j \<noteq> None \<Longrightarrow> map_of (finished s) j \<noteq> None \<or> j = i \<and> st_stage st' = Finished"
  shows "evolves s s'"
proof -
  have mono: "finished_in s' j" if "finished_in s j" for j
    using that assms(3-5) by (cases "j = i") (auto simp: finished_in_def dict_lookup)
  have "finished_in s' i" if "st_stage st' = Finished" using that assms(4) by (simp add: finished_in_def dict_lookup)
  then show ?thesis
    using assms(1,2,6) mono unfolding evolves_def sched_ok_def by blast
qed

text \<open>What a state is when it has left.\<close>

lemma evict_loop_lookup: "evict_loop m d n = (d', n') \<Longrightarrow> map_of d' i \<noteq> None \<Longrightarrow> map_of d i \<noteq> None"
  by (induction m d n rule: evict_loop.induct) (auto split: if_splits)

lemma stored_response_lookup:
  assumes "map_of (finished (store_finished_response resp s)) i \<noteq> None"
  shows "i = resp_request_id resp \<or> map_of (finished s) i \<noteq> None"
proof -
  let ?s = "s\<lparr>finished := dict_set (resp_request_id resp) resp (finished s)\<rparr>"
  have "map_of (finished ?s) i \<noteq> None"
  proof (cases "max_finished_requests (policy s)")
    case None
    then show ?thesis using assms by (simp add: store_finished_response_def enforce_finished_retention_def)
  next
    case (Some m)
    obtain d n where e: "evict_loop m (finished ?s) (evicted_finished_requests ?s) = (d, n)" by fastforce
    then have "finished (store_finished_response resp s) = d"
      using Some by (simp add: store_finished_response_def enforce_finished_retention_def)
    then show ?thesis using assms evict_loop_lookup [OF e] by simp
  qed
  then show ?thesis by (auto simp: dict_lookup split: if_splits)
qed

lemma release_kv_lease_finished: "finished (snd (release_kv_lease st s)) = finished s"
  by (simp add: release_kv_lease_def record_kv_event_def Let_def split: prod.splits option.splits)

lemma mark_finished_finished: "finished (snd (mark_finished reason st s)) = finished s"
  using release_kv_lease_finished [of st "s\<lparr>decoding := removeAll (request_id (st_request st)) (decoding s)\<rparr>"]
  by (auto simp: mark_finished_def detach_state_def set_state_def Let_def split: prod.splits request_stage.splits)

lemma fail_state_evolves:
  assumes ok: "sched_ok s" and st: "map_of (states s) i = Some st"
  shows "\<exists>resp s'. fail_state reason err st s = (Inr resp, s') \<and> resp_request_id resp = i \<and> evolves s s' \<and> finished_in s' i"
proof -
  note inv = sched_okD(1) [OF ok]
  let ?st = "st\<lparr>kv_lease := None, st_stage := Finished, finished_tick := Some (tick_count s), stop_reason := Some reason\<rparr>"
  obtain resp s' where f: "fail_state reason err st s = (Inr resp, s')" "resp_request_id resp = i" "sched_inv s'"
    "states s' = dict_set i ?st (states s)"
    using fail_state_core [OF inv st, of reason err] by blast
  have "map_of (finished s') j \<noteq> None \<Longrightarrow> map_of (finished s) j \<noteq> None \<or> j = i" for j
  proof -
    assume j: "map_of (finished s') j \<noteq> None"
    obtain st1 s1 where m: "mark_finished reason st s = (st1, s1)" by (cases "mark_finished reason st s")
    have "\<exists>n. finished s' = finished (store_finished_response resp s1\<lparr>failed_requests := n\<rparr>)"
      using f(1) m by (auto simp: fail_state_def Let_def split: sum.splits if_splits)
    then have "map_of (finished (store_finished_response resp s1)) j \<noteq> None" using j by auto
    then show "map_of (finished s) j \<noteq> None \<or> j = i"
      using stored_response_lookup [of resp s1 j] f(2) mark_finished_finished [of reason st s] m by auto
  qed
  then have "evolves s s'"
    by (intro evolves_set_state [OF ok f(3) st f(4)]) auto
  then show ?thesis using f by (simp add: finished_in_def dict_lookup)
qed

lemma fail_request_ids_evolves:
  "sched_ok s \<Longrightarrow> \<exists>ids s'. fail_request_ids rids reason err s = (Inr ids, s') \<and> evolves s s' \<and> (\<forall>i \<in> set ids. finished_in s' i)"
proof (induction rids arbitrary: s)
  case Nil
  then show ?case by (simp add: evolves_refl)
next
  case (Cons i rids)
  show ?case
  proof (cases "\<exists>st. map_of (states s) i = Some st \<and> st_stage st \<noteq> Finished")
    case False
    then have "fail_request_ids (i # rids) reason err s = fail_request_ids rids reason err s" by (auto split: option.splits)
    then show ?thesis using Cons by simp
  next
    case True
    then obtain st where st: "map_of (states s) i = Some st" "st_stage st \<noteq> Finished" by blast
    obtain resp s1 where f: "fail_state reason err st s = (Inr resp, s1)" "resp_request_id resp = i" "evolves s s1" "finished_in s1 i"
      using fail_state_evolves [OF Cons.prems st(1)] by blast
    obtain ids s' where r: "fail_request_ids rids reason err s1 = (Inr ids, s')" "evolves s1 s'" "\<forall>i \<in> set ids. finished_in s' i"
      using Cons.IH [OF evolvesD(1) [OF f(3)]] by blast
    then show ?thesis using st f evolves_trans [OF f(3) r(2)] evolvesD(3) [OF r(2)] by auto
  qed
qed

lemma timeout_loop_cons:
  "timeout_loop (i # rids) s = timeout_loop rids s \<or> (\<exists>e. timeout_loop (i # rids) s = (Inl e, s))
   \<or> (\<exists>st err. map_of (states s) i = Some st \<and> timeout_loop (i # rids) s =
        bind_st (fail_state ''request_timeout'' err st s) (\<lambda>resp s1. bind_st (timeout_loop rids s1) (\<lambda>ids s2. (Inr (resp_request_id resp # ids), s2))))"
proof (cases "map_of (states s) i")
  case (Some st)
  show ?thesis
  proof (cases "st_stage st = Finished \<or> request_timeout_ticks (st_request st) = Inr None")
    case True
    then show ?thesis using Some by auto
  next
    case False
    show ?thesis
    proof (cases "request_timeout_ticks (st_request st)")
      case (Inl e)
      then show ?thesis using Some False by simp
    next
      case (Inr o')
      then obtain t where t: "request_timeout_ticks (st_request st) = Inr (Some t)" using False by (cases o') auto
      let ?late = "bind_st (fail_state ''request_timeout'' (Some (ErrorText (''request exceeded timeout_ticks='' @ str_int t))) st s)
        (\<lambda>resp s1. bind_st (timeout_loop rids s1) (\<lambda>ids s2. (Inr (resp_request_id resp # ids), s2)))"
      have "timeout_loop (i # rids) s = (if tick_count s - submitted_tick st > t then ?late else timeout_loop rids s)"
        using Some False t by simp
      then have "timeout_loop (i # rids) s = ?late \<or> timeout_loop (i # rids) s = timeout_loop rids s" by simp
      then show ?thesis using Some by blast
    qed
  qed
qed simp

lemma timeout_loop_evolves:
  "sched_ok s \<Longrightarrow> timeout_loop rids s = (r, s') \<Longrightarrow> evolves s s' \<and> (\<forall>ids. r = Inr ids \<longrightarrow> (\<forall>i \<in> set ids. finished_in s' i))"
proof (induction rids arbitrary: s r s')
  case Nil
  then show ?case by (auto simp: evolves_refl)
next
  case (Cons i rids)
  consider (skip) "timeout_loop (i # rids) s = timeout_loop rids s" | (err) e where "timeout_loop (i # rids) s = (Inl e, s)"
    | (late) st err where "map_of (states s) i = Some st" "timeout_loop (i # rids) s =
        bind_st (fail_state ''request_timeout'' err st s) (\<lambda>resp s1. bind_st (timeout_loop rids s1) (\<lambda>ids s2. (Inr (resp_request_id resp # ids), s2)))"
    using timeout_loop_cons [of i rids s] by blast
  then show ?case
  proof cases
    case skip
    then show ?thesis using Cons by simp
  next
    case err
    then show ?thesis using Cons.prems by (auto simp: evolves_refl)
  next
    case (late st err)
    obtain resp s1 where f: "fail_state ''request_timeout'' err st s = (Inr resp, s1)" "resp_request_id resp = i" "evolves s s1" "finished_in s1 i"
      using fail_state_evolves [OF Cons.prems(1) late(1)] by blast
    obtain r1 s2 where l: "timeout_loop rids s1 = (r1, s2)" by fastforce
    note ih = Cons.IH [OF evolvesD(1) [OF f(3)] l]
    show ?thesis
      using Cons.prems(2) late(2) f l ih evolves_trans [OF f(3)] evolvesD(3) [of s1 s2 i] by (cases r1) auto
  qed
qed

lemma cancel_evolves:
  assumes ok: "sched_ok s" and c: "cancel rid reason s = (r, s')"
  shows "evolves s s' \<and> (\<forall>resp. r = Inr resp \<longrightarrow> finished_in s' rid)"
proof (cases "reason = [] \<or> map_of (finished s) rid \<noteq> None \<or> map_of (states s) rid = None")
  case True
  then show ?thesis using c ok sched_okD(2) [OF ok, of rid] by (auto simp: cancel_def evolves_refl split: if_splits option.splits)
next
  case False
  then obtain st where st: "map_of (states s) rid = Some st" "map_of (finished s) rid = None" "reason \<noteq> []" by auto
  obtain st1 s1 where m: "mark_finished reason st s = (st1, s1)" by (cases "mark_finished reason st s")
  note mc = mark_finished_core [OF sched_okD(1) [OF ok] st(1) m]
  obtain resp s2 where s': "r = Inr resp" "resp_request_id resp = rid" "s2 = store_finished_response resp s1" "s' = s2\<lparr>cancelled_requests := cancelled_requests s2 + 1\<rparr>"
    using c st m by (auto simp: cancel_def Let_def)
  have keys: "map_of (finished s) j \<noteq> None \<or> j = rid" if "map_of (finished s') j \<noteq> None" for j
    using that stored_response_lookup [of resp s1 j] mark_finished_finished [of reason st s] m s' by auto
  have st1: "st_stage st1 = Finished" and sts: "states s' = dict_set rid st1 (states s)" and inv: "sched_inv s'"
    using mc s' by (auto simp: sched_inv_def)
  have "evolves s s'" by (rule evolves_set_state [OF ok inv st(1) sts]) (use st1 keys in auto)
  then show ?thesis using sts st1 by (simp add: finished_in_def dict_lookup)
qed

lemma fail_evolves:
  assumes ok: "sched_ok s" and c: "fail rid reason err s = (r, s')"
  shows "evolves s s' \<and> (\<forall>resp. r = Inr resp \<longrightarrow> finished_in s' rid)"
proof (cases "reason = [] \<or> map_of (finished s) rid \<noteq> None \<or> map_of (states s) rid = None")
  case True
  then show ?thesis using c ok sched_okD(2) [OF ok, of rid] by (auto simp: fail_def evolves_refl split: if_splits option.splits)
next
  case False
  then obtain st where st: "map_of (states s) rid = Some st" "map_of (finished s) rid = None" "reason \<noteq> []" by auto
  obtain resp s1 where "fail_state reason err st s = (Inr resp, s1)" "evolves s s1" "finished_in s1 rid"
    using fail_state_evolves [OF ok st(1), of reason err] by blast
  then show ?thesis using c st by (auto simp: fail_def)
qed

lemma submit_evolves:
  assumes ok: "sched_ok s" and c: "constructed_policy r"
  shows "evolves s (snd (submit r s))"
proof -
  have "finished (snd (submit r s)) = finished s" "finished_in s i \<Longrightarrow> finished_in (snd (submit r s)) i" for i
    by (auto simp: submit_def queue_submit_def finished_in_def dict_lookup Let_def split: sum.splits dest: map_of_Some_keys)
  then show ?thesis using submit_inv [OF sched_okD(1) [OF ok] c] ok by (auto simp: evolves_def sched_ok_def)
qed

text \<open>Admission only touches requests of the queue.\<close>

lemma admit_request_frame:
  "admit_request r s = (res, s') \<Longrightarrow> finished s' = finished s \<and> (\<forall>i. i \<noteq> request_id r \<longrightarrow> map_of (states s') i = map_of (states s) i)"
  by (auto simp: admit_request_def allocate_kv_lease_def record_kv_event_def bind_st_def Let_def dict_lookup
      split: option.splits sum.splits prod.splits)

lemma admit_loop_frame:
  "admit_loop q adm s = (res, s') \<Longrightarrow> finished s' = finished s \<and> (\<forall>i. i \<notin> request_id ` set q \<longrightarrow> map_of (states s') i = map_of (states s) i)"
proof (induction q arbitrary: adm s res)
  case (Cons r q)
  consider (stop) sx where "s' = sx" "finished sx = finished s" "states sx = states s"
    | (admit) s1 where "admit_request r (s\<lparr>waiting_prefill := q\<rparr>) = (Inr (), s1)" "admit_loop q (adm @ [request_id r]) s1 = (res, s')"
    | (fail) e where "admit_request r (s\<lparr>waiting_prefill := q\<rparr>) = (Inl e, s')"
    using Cons.prems by (auto simp: Let_def bind_st_def split: if_splits sum.splits prod.splits)
  then show ?case
  proof cases
    case admit
    then show ?thesis using Cons.IH [OF admit(2)] admit_request_frame [OF admit(1)] by auto
  next
    case fail
    then show ?thesis using admit_request_frame [OF fail] by auto
  qed auto
qed simp

lemma push_front_all_frame: "push_front_all rs s = (res, s') \<Longrightarrow> finished s' = finished s \<and> states s' = states s"
proof (induction rs arbitrary: s)
  case (Cons r rs)
  show ?case
  proof (cases "queue_push_front r (waiting_prefill s)")
    case (Inl e)
    then show ?thesis using Cons.prems by auto
  next
    case (Inr q)
    then have "push_front_all rs (s\<lparr>waiting_prefill := q\<rparr>) = (res, s')" using Cons.prems by simp
    from Cons.IH [OF this] show ?thesis by simp
  qed
qed simp

lemma admit_evolves:
  assumes ok: "sched_ok s" and a: "admit_prefill_batch s = (res, s')"
  shows "evolves s s'"
proof -
  note inv = sched_okD(1) [OF ok]
  obtain r1 s1 where l: "admit_loop (waiting_prefill s) [] s = (r1, s1)" by fastforce
  note lf = admit_loop_frame [OF l]
  have "finished s' = finished s1 \<and> states s' = states s1"
  proof (cases r1)
    case (Inl e)
    then show ?thesis using a l by (simp add: admit_prefill_batch_def)
  next
    case (Inr p)
    obtain r2 s2 where f: "push_front_all (rev (snd p)) s1 = (r2, s2)" by fastforce
    have "finished s' = finished s2 \<and> states s' = states s2"
      using a l f Inr by (cases p; cases r2) (auto simp: admit_prefill_batch_def split: if_splits)
    then show ?thesis using push_front_all_frame [OF f] by simp
  qed
  then have f: "finished s' = finished s" and out: "\<And>i. i \<notin> request_id ` set (waiting_prefill s) \<Longrightarrow> map_of (states s') i = map_of (states s) i"
    using lf by auto
  have "finished_in s' i" if i: "finished_in s i" for i
  proof -
    have "i \<noteq> request_id r" if "r \<in> set (waiting_prefill s)" for r
      using i core_invD(10) [OF inv [unfolded sched_inv_def] that] by (auto simp: finished_in_def queued_def)
    then have "map_of (states s') i = map_of (states s) i" by (intro out) auto
    then show ?thesis using i by (simp add: finished_in_def)
  qed
  moreover have "sched_inv s'" using admit_prefill_batch_spec [OF inv] a by (auto split: sum.splits)
  ultimately show ?thesis using ok f by (auto simp: evolves_def sched_ok_def)
qed

lemma plan_evolves:
  assumes "sched_ok s" and "plan_decode_batches s = (res, s')"
  shows "evolves s s'"
proof -
  obtain bs where "res = Inr bs" using plan_spec [OF sched_okD(1) [OF assms(1)]] assms(2) by auto
  then show ?thesis
    using plan_planned [OF sched_okD(1) [OF assms(1)]] assms by (intro evolves_bookkeeping) auto
qed

section \<open>The state of a request being decoded\<close>

text \<open>A request as submitted but for what its policy has observed.\<close>

definition observed_request :: "GRServingRequest \<Rightarrow> GRServingRequest \<Rightarrow> bool" where
  "observed_request r r' \<longleftrightarrow> (\<exists>p. r' = r\<lparr>beam_width_policy := p\<rparr>) \<and> valid_request r'"

lemma observed_request_refl: "valid_request r \<Longrightarrow> observed_request r r"
  unfolding observed_request_def by (intro conjI exI [of _ "beam_width_policy r"]) simp_all

lemma observed_requestD:
  assumes "observed_request r r'"
  shows "valid_request r'" and "request_id r' = request_id r" and "req_max_decode_steps r' = req_max_decode_steps r"
    and "req_beam_width r' = req_beam_width r" and "request_context_tokens r' = request_context_tokens r"
    and "request_beam_slots r' = request_beam_slots r"
  using assms by (auto simp: observed_request_def request_context_tokens_def request_beam_slots_def input_shape_def)

lemma valid_with_policy:
  assumes v: "valid_request r" and pol: "beam_width_policy r = Some p" and ob: "observe_policy_scores p step scs = Inr p'"
  shows "valid_request (r\<lparr>beam_width_policy := Some p'\<rparr>)"
proof -
  have same: "r\<lparr>beam_width_policy := Some p\<rparr> = r" using pol by (cases r) simp
  show ?thesis
  proof (cases p)
    case (ScoreMarginBeamPolicy q)
    have b: "bounded_policy (req_beam_width r) (ScoreMarginBeamPolicy q)"
      using valid_request_fields(6) [OF v] pol ScoreMarginBeamPolicy by simp
    obtain q' w where q': "p' = ScoreMarginBeamPolicy q'" "margin_observe_scores q step scs = Inr (q', w)"
      using ob ScoreMarginBeamPolicy by auto
    have b': "bounded_policy (req_beam_width r) (ScoreMarginBeamPolicy q')"
      using margin_observe_bounded [OF b q'(2)] by blast
    have "validate_beam_width_policy (Some p') (req_beam_width r) = Inr ()"
    proof -
      obtain w0 where w0: "margin_width q' 0 = Inr w0" "0 < w0" "w0 \<le> req_beam_width r"
        using bounded_width_for_step [OF b', of 0] by auto
      have "\<forall>w \<in> set (dict_values (widths q')). 0 < w \<and> w \<le> req_beam_width r" using b' by auto
      then have "\<forall>w \<in> set (dict_values (widths q')). \<exists>y. validate_policy_width w (req_beam_width r) = Inr y"
        by (simp add: validate_policy_width_ok)
      then obtain ys where "map_res (\<lambda>w. validate_policy_width w (req_beam_width r)) (dict_values (widths q')) = Inr ys"
        using map_res_unit by blast
      then show ?thesis
        using w0 b' by (simp add: q'(1) validate_beam_width_policy_def validate_policy_width_def not_less not_le)
    qed
    then show ?thesis
      using v b' q'(1) by (auto simp: valid_request_def constructed_policy_def validate_request_def split: if_splits)
  qed (use v same ob in auto)
qed

lemma observe_request_ok:
  assumes "valid_request r" and "0 \<le> step" and "scs \<noteq> []"
  shows "\<exists>r'. observe_request_policy_scores r step scs = Inr r' \<and> observed_request r r'"
proof (cases "beam_width_policy r")
  case None
  then show ?thesis using observed_request_refl [OF assms(1)] by (simp add: observe_request_policy_scores_def)
next
  case (Some p)
  have "\<exists>p'. observe_policy_scores p step scs = Inr p'"
  proof (cases p)
    case (ScoreMarginBeamPolicy q)
    have "0 \<in> set (dict_keys (widths q))" using valid_request_fields(6) [OF assms(1)] Some ScoreMarginBeamPolicy by simp
    from margin_width_eq [OF this assms(2)] show ?thesis
      using ScoreMarginBeamPolicy assms(2,3) by (auto simp: margin_observe_scores_def Let_def)
  qed auto
  then obtain p' where "observe_policy_scores p step scs = Inr p'" by blast
  then show ?thesis
    using Some valid_with_policy [OF assms(1) Some]
    by (auto simp: observe_request_policy_scores_def observed_request_def)
qed


text \<open>What may replace the state of a request being decoded.\<close>

definition decodes_on :: "GRContinuousRequestState \<Rightarrow> GRContinuousRequestState \<Rightarrow> bool" where
  "decodes_on st st' \<longleftrightarrow> observed_request (st_request st) (st_request st') \<and> st_stage st' = Decoding
     \<and> submitted_tick st' = submitted_tick st \<and> kv_lease st' = kv_lease st
     \<and> (\<exists>w. st_active_beam_width st' = Some w \<and> 0 < w \<and> w \<le> req_beam_width (st_request st))"

lemma core_update:
  assumes inv: "core_inv pol q dec sts al t" and st: "map_of sts i = Some st" and dec: "i \<in> set dec"
    and up: "decodes_on st st'" and step: "0 \<le> current_decode_step st'" "current_decode_step st' < req_max_decode_steps (st_request st)"
  shows "core_inv pol q dec (dict_set i st' sts) al t"
proof -
  note D = core_invD [OF inv]
  have ok: "state_ok dec al t i st" by (rule D(9) [OF st])
  have req: "observed_request (st_request st) (st_request st')" using up by (simp add: decodes_on_def)
  note R = observed_requestD [OF req]
  have "request_ok st'" by (rule valid_request_ok [OF R(1)])
  then have "state_ok dec al t i st'"
    using ok up step dec R by (auto simp: state_ok_def decodes_on_def)
  then have "state_ok dec al t j stj" if "map_of (dict_set i st' sts) j = Some stj" for j stj
    using that D(9) [of j stj] by (cases "j = i") (auto simp: dict_lookup)
  moreover have "queued (dict_set i st' sts) x" if xq: "x \<in> set q" for x
  proof -
    obtain sx where sx: "map_of sts (request_id x) = Some sx" "st_request sx = x" "st_stage sx = WaitingPrefill"
      using D(10) [OF xq] by (auto simp: queued_def)
    have "st_stage st = Decoding" using ok dec by (simp add: state_ok_def)
    then have "request_id x \<noteq> i" using sx st by auto
    then show ?thesis using sx by (simp add: queued_def dict_lookup)
  qed
  moreover have "set dec \<subseteq> set (dict_keys (dict_set i st' sts))" using D(5) unfolding dict_set_keys_set by auto
  ultimately show ?thesis
    using D(1,2,3,6,7,8) unfolding core_inv_def by (simp add: wf_dict_set)
qed

text \<open>A step that leaves the queue alone, adds no request to the decoding ones and no decode step to any of them
  (\<open>eases\<close>); and one that takes the requests of \<open>A\<close> a decode step closer to their end, or out (\<open>closer\<close>).\<close>

definition eases :: "sched \<Rightarrow> sched \<Rightarrow> bool" where
  "eases s s' \<longleftrightarrow> waiting_prefill s' = waiting_prefill s \<and> kv_fits (kv_alloc s') = kv_fits (kv_alloc s)
     \<and> (\<forall>i \<in> set (decoding s'). i \<in> set (decoding s) \<and> remaining_of s' i \<le> remaining_of s i)"

definition closer :: "string set \<Rightarrow> sched \<Rightarrow> sched \<Rightarrow> bool" where
  "closer A s s' \<longleftrightarrow> (\<forall>i \<in> A. i \<in> set (decoding s') \<longrightarrow> remaining_of s' i < remaining_of s i)"

lemma eases_refl: "eases s s"
  by (simp add: eases_def)

lemma eases_trans:
  assumes "eases s s1" and "eases s1 s2"
  shows "eases s s2"
  unfolding eases_def
proof (intro conjI ballI)
  fix i
  assume "i \<in> set (decoding s2)"
  then have "i \<in> set (decoding s1) \<and> remaining_of s2 i \<le> remaining_of s1 i" using assms(2) by (simp add: eases_def)
  then show "i \<in> set (decoding s)" "remaining_of s2 i \<le> remaining_of s i" using assms(1) le_trans by (auto simp: eases_def)
qed (use assms in \<open>simp_all add: eases_def\<close>)

lemma closer_empty [simp]: "closer {} s s'"
  by (simp add: closer_def)

lemma closer_trans:
  assumes "closer A s s1" and "closer B s1 s2" and "eases s s1" and "eases s1 s2"
  shows "closer (A \<union> B) s s2"
  unfolding closer_def
proof (intro ballI impI)
  fix i
  assume i: "i \<in> A \<union> B" "i \<in> set (decoding s2)"
  then have s1: "i \<in> set (decoding s1)" "remaining_of s2 i \<le> remaining_of s1 i" using assms(4) by (simp_all add: eases_def)
  then have s0: "remaining_of s1 i \<le> remaining_of s i" using assms(3) by (simp add: eases_def)
  from i(1) show "remaining_of s2 i < remaining_of s i"
  proof
    assume "i \<in> A"
    then have "remaining_of s1 i < remaining_of s i" using assms(1) s1(1) by (simp add: closer_def)
    then show ?thesis using s1(2) by simp
  next
    assume "i \<in> B"
    then have "remaining_of s2 i < remaining_of s1 i" using assms(2) i(2) by (simp add: closer_def)
    then show ?thesis using s0 by simp
  qed
qed

text \<open>Settling the requests of a batch only touches them.\<close>

definition advances :: "string set \<Rightarrow> sched \<Rightarrow> sched \<Rightarrow> bool" where
  "advances A s s' \<longleftrightarrow> evolves s s' \<and> eases s s' \<and> (\<forall>i. i \<notin> A \<longrightarrow> map_of (states s') i = map_of (states s) i)
     \<and> (\<forall>i \<in> set (decoding s). i \<in> set (decoding s') \<or> finished_in s' i \<and> i \<in> A)"

lemma advances_refl: "sched_ok s \<Longrightarrow> advances A s s"
  by (simp add: advances_def evolves_refl eases_refl)

lemma advances_trans:
  assumes "advances A s s1" and "advances B s1 s2"
  shows "advances (A \<union> B) s s2"
  using assms evolves_trans [of s s1 s2] eases_trans [of s s1 s2] unfolding advances_def evolves_def by (metis UnCI)

lemma advances_mono: "advances A s s' \<Longrightarrow> A \<subseteq> B \<Longrightarrow> advances B s s'"
  unfolding advances_def by blast

lemma advancesD:
  assumes "advances A s s'"
  shows "evolves s s'" and "sched_ok s'" and "i \<notin> A \<Longrightarrow> map_of (states s') i = map_of (states s) i"
    and "i \<in> set (decoding s) \<Longrightarrow> i \<notin> A \<Longrightarrow> i \<in> set (decoding s')" and "eases s s'"
  using assms by (auto simp: advances_def evolves_def)

lemma update_advances:
  assumes ok: "sched_ok s" and st: "map_of (states s) i = Some st" and dec: "i \<in> set (decoding s)" and up: "decodes_on st st'"
    and step: "0 \<le> current_decode_step st'" "current_decode_step st' < req_max_decode_steps (st_request st)"
    and on: "current_decode_step st \<le> current_decode_step st'"
  shows "advances {i} s (set_state i st' s)"
    and "current_decode_step st < current_decode_step st' \<Longrightarrow> closer {i} s (set_state i st' s)"
proof -
  have m: "req_max_decode_steps (st_request st') = req_max_decode_steps (st_request st)"
    using up observed_requestD(3) by (auto simp: decodes_on_def)
  have left: "remaining_of (set_state i st' s) j = (if j = i then nat (remaining_decode_steps st') else remaining_of s j)" for j
    by (simp add: remaining_of_def dict_lookup)
  have r: "remaining_of s i = nat (remaining_decode_steps st)" using st by (simp add: remaining_of_def)
  have easy: "eases s (set_state i st' s)"
    using on m r unfolding eases_def left by (simp add: remaining_decode_steps_def nat_mono)
  show "current_decode_step st < current_decode_step st' \<Longrightarrow> closer {i} s (set_state i st' s)"
    using step m r unfolding closer_def left by (simp add: remaining_decode_steps_def)
  have "sched_inv (set_state i st' s)"
    using core_update [OF _ st dec up step] sched_okD(1) [OF ok] by (simp add: sched_inv_def)
  moreover have "st_stage st = Decoding"
    using core_inv_decoding [OF sched_okD(1) [OF ok, unfolded sched_inv_def] dec] st by simp
  ultimately have "evolves s (set_state i st' s)"
    by (intro evolves_set_state [OF ok _ st]) simp_all
  then show "advances {i} s (set_state i st' s)" using easy by (simp add: advances_def dict_lookup)
qed

text \<open>Finishing a request leaves a finished state, also when its metadata cannot be built.\<close>

lemma release_kv_lease_keeps_finished: "release_kv_lease st s = (st', s') \<Longrightarrow> finished s' = finished s"
  using release_kv_lease_finished [of st s] by simp

lemma finish_state_advances:
  assumes ok: "sched_ok s" and st: "map_of (states s) i = Some st" and dec: "i \<in> set (decoding s)" and up: "decodes_on st st'"
    and step: "0 \<le> current_decode_step st'" "current_decode_step st' \<le> req_max_decode_steps (st_request st)"
    and run: "finish_state cfg b timing st' rt toks scs reason (set_state i st' s) = (r, s')"
  shows "advances {i} s s' \<and> finished_in s' i \<and> closer {i} s s'"
proof -
  note inv = sched_okD(1) [OF ok, unfolded sched_inv_def]
  have sk: "state_ok (decoding s) (kv_alloc s) (tick_count s) i st" by (rule core_invD(9) [OF inv st])
  have req: "observed_request (st_request st) (st_request st')" using up by (simp add: decodes_on_def)
  have rid: "request_id (st_request st') = i" using observed_requestD(2) [OF req] sk by (simp add: state_ok_def)
  let ?u = "st\<lparr>st_request := st_request st'\<rparr>"
  have "st_stage st = Decoding" "0 \<le> current_decode_step st" "current_decode_step st < req_max_decode_steps (st_request st)"
    "\<exists>w. st_active_beam_width st = Some w \<and> 0 < w \<and> w \<le> req_beam_width (st_request st)"
    using sk dec by (auto simp: state_ok_def)
  then have core1: "core_inv (policy s) (waiting_prefill s) (decoding s) (dict_set i ?u (states s)) (kv_alloc s) (tick_count s)"
    using core_update [OF inv st dec, of ?u] req by (simp add: decodes_on_def)
  let ?f = "st'\<lparr>st_stage := Finished, finished_tick := Some (tick_count s), stop_reason := Some reason\<rparr>"
  let ?s = "(set_state i st' s)\<lparr>decoding := removeAll i (decoding s)\<rparr>"
  obtain st2 s1 where rel: "release_kv_lease ?f ?s = (st2, s1)" by (cases "release_kv_lease ?f ?s")
  note rc = release_kv_lease_core [OF rel]
  have "i \<in> set (dict_keys (kv_leases (kv_alloc s)))" using dec core_invD(3) [OF inv] by simp
  then obtain l where "map_of (kv_leases (kv_alloc s)) i = Some l" by (blast dest: key_in_dict_Some)
  then have "kv_lease st = Some l" using sk by (simp add: state_ok_def)
  then have al: "kv_alloc s1 = snd (kv_release i (kv_alloc s))" using rc rid up by (simp add: decodes_on_def)
  have st2: "st2 = ?f\<lparr>kv_lease := None\<rparr>" using rc by blast
  have stage: "st_stage st = Decoding" using sk dec by (simp add: state_ok_def)
  have notq: "filter (\<lambda>r. request_id r \<noteq> i) (waiting_prefill s) = waiting_prefill s"
    unfolding filter_id_conv
  proof
    fix r
    assume "r \<in> set (waiting_prefill s)"
    then show "request_id r \<noteq> i" using core_invD(10) [OF inv, of r] st stage by (auto simp: queued_def)
  qed
  have "core_inv (policy s) (filter (\<lambda>r. request_id r \<noteq> i) (waiting_prefill s)) (removeAll i (decoding s))
      (dict_set i st2 (dict_set i ?u (states s))) (snd (kv_release i (kv_alloc s))) (tick_count s)"
    by (rule core_finish [OF core1, where st = ?u]) (use up step st2 observed_requestD(3) [OF req] in \<open>simp_all add: decodes_on_def dict_lookup\<close>)
  then have core2: "core_inv (policy s) (waiting_prefill s) (removeAll i (decoding s)) (dict_set i st2 (states s)) (kv_alloc s1) (tick_count s)"
    using al notq by (simp add: dict_set_twice)
  let ?s2 = "set_state i st2 s1"
  have s2: "policy ?s2 = policy s" "waiting_prefill ?s2 = waiting_prefill s" "decoding ?s2 = removeAll i (decoding s)"
    "states ?s2 = dict_set i st2 (states s)" "tick_count ?s2 = tick_count s" "kv_alloc ?s2 = kv_alloc s1" "finished ?s2 = finished s"
    using rc release_kv_lease_keeps_finished [OF rel] by (simp_all add: dict_set_twice)
  obtain d n where s': "decoding s' = decoding ?s2" "states s' = states ?s2" "sched_inv s' = sched_inv ?s2"
    "waiting_prefill s' = waiting_prefill ?s2" "kv_alloc s' = kv_alloc ?s2" "\<And>j. map_of (finished s') j \<noteq> None \<Longrightarrow> j = i \<or> map_of (finished ?s2) j \<noteq> None"
  proof (cases "path_metadata cfg st2 rt reason (finish_metadata cfg b timing st2 reason)")
    case (Inl e)
    then have "s' = ?s2" using run rel rid by (simp add: finish_state_def Let_def)
    then show ?thesis using that by simp
  next
    case (Inr m)
    let ?resp = "\<lparr>resp_request_id = i, resp_token_ids = toks, resp_scores = scs, resp_metadata = m\<rparr>"
    have "s' = store_finished_response ?resp ?s2\<lparr>succeeded_requests := succeeded_requests (store_finished_response ?resp ?s2) + 1\<rparr>"
      using run rel rid Inr by (simp add: finish_state_def Let_def)
    then show ?thesis using that stored_response_lookup [of ?resp ?s2] by simp
  qed
  have inv': "sched_inv s'" using core2 s2 s'(3) by (simp add: sched_inv_def)
  have fin: "st_stage st2 = Finished" using st2 by simp
  have "evolves s s'"
    by (rule evolves_set_state [OF ok inv' st, of st2]) (use s2 s' fin in auto)
  moreover have "eases s s'"
    using s2 s' al kv.release_law [OF core_invD(1) [OF inv], of i] by (auto simp: eases_def remaining_of_def dict_lookup)
  moreover have "closer {i} s s'" using s2 s' by (simp add: closer_def)
  ultimately show ?thesis
    using s2 s' fin by (auto simp: advances_def finished_in_def dict_lookup)
qed


text \<open>One request after a step, on both routes.\<close>

definition advances_one :: "string \<Rightarrow> sched \<Rightarrow> bool py_result \<times> sched \<Rightarrow> bool" where
  "advances_one i s m \<longleftrightarrow> advances {i} s (snd m) \<and> (\<forall>fin. fst m = Inr fin \<longrightarrow> closer {i} s (snd m) \<and> (fin \<longrightarrow> finished_in (snd m) i))"

lemma settle_general_advances:
  assumes ok: "sched_ok s" and dec: "i \<in> set (decoding s)" and st: "map_of (states s) i = Some st"
    and w: "0 < width" "width \<le> req_beam_width (st_request st)" and scs: "scs \<noteq> []"
  shows "advances_one i s (settle_general cfg b timing width i toks scs rt s)"
proof -
  note inv = sched_okD(1) [OF ok, unfolded sched_inv_def]
  have sk: "state_ok (decoding s) (kv_alloc s) (tick_count s) i st" by (rule core_invD(9) [OF inv st])
  have stage: "st_stage st = Decoding" and cur: "0 \<le> current_decode_step st" "current_decode_step st < req_max_decode_steps (st_request st)"
    using sk dec by (auto simp: state_ok_def)
  have valid: "valid_request (st_request st)" using state_ok_valid [OF sk] stage by simp
  let ?st1 = "st\<lparr>current_decode_step := current_decode_step st + 1, st_active_beam_width := Some width\<rparr>"
  obtain r where r: "observe_request_policy_scores (st_request ?st1) (current_decode_step ?st1) scs = Inr r" "observed_request (st_request st) r"
    using observe_request_ok [OF valid _ scs, of "current_decode_step st + 1"] cur by auto
  let ?st2 = "?st1\<lparr>st_request := r\<rparr>"
  have up: "decodes_on st ?st2" using r(2) w stage by (simp add: decodes_on_def)
  have run: "settle_general cfg b timing width i toks scs rt s =
     (case continuous_stop_reason ?st2 toks of None \<Rightarrow> (Inr False, set_state i ?st2 s)
      | Some reason \<Rightarrow> bind_st (finish_state cfg b timing ?st2 rt toks scs reason (set_state i ?st2 s)) (\<lambda>_ s2. (Inr True, s2)))"
    using st r(1) by (simp add: settle_general_def Let_def)
  show ?thesis
  proof (cases "continuous_stop_reason ?st2 toks")
    case None
    then have "current_decode_step ?st2 < req_max_decode_steps (st_request st)"
      using observed_requestD(3) [OF r(2)] by (auto simp: continuous_stop_reason_def split: if_splits)
    then have "advances {i} s (set_state i ?st2 s) \<and> closer {i} s (set_state i ?st2 s)" using update_advances [OF ok st dec up] cur by simp
    then show ?thesis using run None by (simp add: advances_one_def)
  next
    case (Some reason)
    obtain q s' where f: "finish_state cfg b timing ?st2 rt toks scs reason (set_state i ?st2 s) = (q, s')" by fastforce
    have "advances {i} s s' \<and> finished_in s' i \<and> closer {i} s s'"
      using finish_state_advances [OF ok st dec up _ _ f] cur by simp
    then show ?thesis using run Some f by (cases q) (simp_all add: advances_one_def)
  qed
qed

lemma settle_tensor_advances:
  assumes ok: "sched_ok (ex_scheduler x)" and dec: "i \<in> set (decoding (ex_scheduler x))" and st: "map_of (states (ex_scheduler x)) i = Some st"
    and w: "0 < width" "width \<le> req_beam_width (st_request st)"
    and flushed: "last_step st \<Longrightarrow> map_of finalized i \<noteq> None"
  shows "advances_one i (ex_scheduler x) (apsnd ex_scheduler (settle_tensor cfg b width finalized i x))"
proof -
  let ?s = "ex_scheduler x"
  note inv = sched_okD(1) [OF ok, unfolded sched_inv_def]
  have sk: "state_ok (decoding ?s) (kv_alloc ?s) (tick_count ?s) i st" by (rule core_invD(9) [OF inv st])
  have stage: "st_stage st = Decoding" and cur: "0 \<le> current_decode_step st" "current_decode_step st < req_max_decode_steps (st_request st)"
    using sk dec by (auto simp: state_ok_def)
  have valid: "valid_request (st_request st)" using state_ok_valid [OF sk] stage by simp
  let ?st1 = "st\<lparr>current_decode_step := current_decode_step st + 1, st_active_beam_width := Some width\<rparr>"
  have up: "decodes_on st ?st1" using observed_request_refl [OF valid] w stage by (simp add: decodes_on_def)
  show ?thesis
  proof (cases "last_step st")
    case False
    then have step: "current_decode_step ?st1 < req_max_decode_steps (st_request st)" by (simp add: last_step_def)
    have "advances {i} ?s (set_state i ?st1 ?s) \<and> closer {i} ?s (set_state i ?st1 ?s)" using update_advances [OF ok st dec up _ step] cur by simp
    then show ?thesis using st step by (simp add: settle_tensor_def Let_def advances_one_def)
  next
    case True
    then obtain toks scs where row: "map_of finalized i = Some (toks, scs)" using flushed by auto
    let ?x1 = "x\<lparr>ex_scheduler := set_state i ?st1 ?s\<rparr>"
    obtain q s' where f: "finish_state cfg b (ex_timing x) ?st1 (runtime_of i ?x1) toks scs ''max_decode_steps'' (set_state i ?st1 ?s) = (q, s')"
      by fastforce
    have "advances {i} ?s s' \<and> finished_in s' i \<and> closer {i} ?s s'" using finish_state_advances [OF ok st dec up _ _ f] cur by simp
    then show ?thesis
      using st True row f by (cases q) (simp_all add: settle_tensor_def Let_def last_step_def on_scheduler_def advances_one_def)
  qed
qed


section \<open>The requests of a decode batch\<close>

lemma scheduler_set_runtime [simp]: "ex_scheduler (set_runtime i rt x) = ex_scheduler x"
  by (simp add: set_runtime_def)

lemma on_scheduler_pair: "(fst (on_scheduler f x), ex_scheduler (snd (on_scheduler f x))) = f (ex_scheduler x)"
  by (simp add: on_scheduler_def split: prod.split)

lemma ex_scheduler_on_scheduler [simp]: "ex_scheduler (snd (on_scheduler f x)) = snd (f (ex_scheduler x))" "fst (on_scheduler f x) = fst (f (ex_scheduler x))"
  by (simp_all add: on_scheduler_def split: prod.split)

definition settled :: "string set \<Rightarrow> sched \<Rightarrow> ('v, string list) exec_result \<Rightarrow> bool" where
  "settled A s m \<longleftrightarrow> advances A s (ex_scheduler (snd m)) \<and> (\<forall>fins. fst m = Inr fins \<longrightarrow> closer A s (ex_scheduler (snd m)) \<and> (\<forall>i \<in> set fins. finished_in (ex_scheduler (snd m)) i))"

lemma settled_cons:
  assumes one: "advances_one i s (fst m, ex_scheduler (snd m))"
    and rest: "\<And>fin. fst m = Inr fin \<Longrightarrow> advances {i} s (ex_scheduler (snd m)) \<Longrightarrow> settled A (ex_scheduler (snd m)) (f (snd m))"
  shows "settled (insert i A) s (bind_st m (\<lambda>fin x1. bind_st (f x1) (\<lambda>fins x2. (Inr (if fin then i # fins else fins), x2))))"
proof (cases "fst m")
  case (Inl e)
  then have "m = (Inl e, snd m)" by (cases m) simp
  then have "settled (insert i A) s (bind_st m g) \<longleftrightarrow> settled (insert i A) s (Inl e, snd m)" for g :: "bool \<Rightarrow> 'a executor \<Rightarrow> ('a, string list) exec_result"
    by (metis bind_st_simps(1))
  then show ?thesis using one advances_mono [of "{i}" s _ "insert i A"] by (simp add: advances_one_def settled_def)
next
  case (Inr fin)
  let ?s1 = "ex_scheduler (snd m)"
  have m: "m = (Inr fin, snd m)" using Inr by (cases m) simp
  have s1: "advances {i} s ?s1" "fin \<Longrightarrow> finished_in ?s1 i" "closer {i} s ?s1" using one Inr unfolding advances_one_def by auto
  obtain r x2 where f: "f (snd m) = (r, x2)" by fastforce
  have rest': "advances A ?s1 (ex_scheduler x2)" "\<And>fins. r = Inr fins \<Longrightarrow> \<forall>j \<in> set fins. finished_in (ex_scheduler x2) j"
    "\<And>fins. r = Inr fins \<Longrightarrow> closer A ?s1 (ex_scheduler x2)"
    using rest [OF Inr s1(1)] f by (auto simp: settled_def)
  have on: "closer (insert i A) s (ex_scheduler x2)" if "r = Inr fins" for fins
    using closer_trans [OF s1(3) rest'(3) [OF that] advancesD(5) [OF s1(1)] advancesD(5) [OF rest'(1)]] by simp
  have tr: "advances (insert i A) s (ex_scheduler x2)" using advances_trans [OF s1(1) rest'(1)] by simp
  have fin': "fin \<Longrightarrow> finished_in (ex_scheduler x2) i" using s1(2) evolvesD(3) [OF advancesD(1) [OF rest'(1)]] by blast
  have "bind_st m (\<lambda>fin x1. bind_st (f x1) (\<lambda>fins x2. (Inr (if fin then i # fins else fins), x2)))
      = bind_st (r, x2) (\<lambda>fins x2. (Inr (if fin then i # fins else fins), x2))"
    by (subst m) (simp add: f)
  then show ?thesis using tr fin' rest'(2) on by (cases r) (auto simp: settled_def)
qed

text \<open>What a batch needs: its requests are distinct, being decoded, and allow the width.\<close>

definition widths_ok :: "int \<Rightarrow> string list \<Rightarrow> sched \<Rightarrow> bool" where
  "widths_ok w ids s \<longleftrightarrow> distinct ids \<and> set ids \<subseteq> set (decoding s) \<and> (\<forall>i \<in> set ids. width_ok (states s) (i, w))"

lemma widths_ok_after:
  assumes "widths_ok w (i # ids) s" and "advances {i} s s'"
  shows "widths_ok w ids s'"
proof -
  have "map_of (states s') j = map_of (states s) j" "j \<in> set (decoding s')" if "j \<in> set ids" for j
    using that assms advancesD(3,4) [OF assms(2), of j] by (auto simp: widths_ok_def)
  then show ?thesis using assms(1) by (auto simp: widths_ok_def width_ok_def)
qed

lemma settle_general_each_settled:
  assumes "sched_ok (ex_scheduler x)" and "widths_ok w (map fst rows) (ex_scheduler x)" and "\<forall>(i, toks, scs, lps) \<in> set rows. scs \<noteq> []"
  shows "settled (set (map fst rows)) (ex_scheduler x) (settle_general_each cfg b w rows x)"
  using assms
proof (induction rows arbitrary: x)
  case Nil
  then show ?case by (simp add: settled_def advances_refl)
next
  case (Cons row rows)
  obtain i toks scs lps where row: "row = (i, toks, scs, lps)" by (metis prod_cases4)
  let ?x0 = "case lps of None \<Rightarrow> x | Some ps \<Rightarrow> set_runtime i (note_logprobs ps (runtime_of i x)) x"
  have s0: "ex_scheduler ?x0 = ex_scheduler x" by (cases lps) simp_all
  let ?m = "on_scheduler (settle_general cfg b (ex_timing ?x0) w i toks scs (runtime_of i ?x0)) ?x0"
  have w: "widths_ok w (i # map fst rows) (ex_scheduler x)" using Cons.prems(2) row by simp
  then obtain st where st: "i \<in> set (decoding (ex_scheduler x))" "map_of (states (ex_scheduler x)) i = Some st" "0 < w" "w \<le> req_beam_width (st_request st)"
    by (auto simp: widths_ok_def width_ok_def)
  have one: "advances_one i (ex_scheduler x) (fst ?m, ex_scheduler (snd ?m))"
    using settle_general_advances [OF Cons.prems(1) st, of scs] Cons.prems(3) row s0
    by (simp add: on_scheduler_pair)
  have rest: "settled (set (map fst rows)) (ex_scheduler (snd ?m)) (settle_general_each cfg b w rows (snd ?m))"
    if "advances {i} (ex_scheduler x) (ex_scheduler (snd ?m))"
    using Cons.IH [OF advancesD(2) [OF that] widths_ok_after [OF w that]] Cons.prems(3) by simp
  have run: "settle_general_each cfg b w (row # rows) x
      = bind_st ?m (\<lambda>fin x1. bind_st (settle_general_each cfg b w rows x1) (\<lambda>fins x2. (Inr (if fin then i # fins else fins), x2)))"
    by (simp only: row settle_general_each.simps Let_def)
  have "settled (insert i (set (map fst rows))) (ex_scheduler x) (settle_general_each cfg b w (row # rows) x)"
    unfolding run by (rule settled_cons [OF one]) (rule rest)
  then show ?case by (simp add: row)
qed


lemma settle_tensor_each_settled:
  assumes "sched_ok (ex_scheduler x)" and "widths_ok w ids (ex_scheduler x)"
    and "\<forall>i \<in> set ids. ends_at (states (ex_scheduler x)) i \<longrightarrow> map_of finalized i \<noteq> None"
  shows "settled (set ids) (ex_scheduler x) (settle_tensor_each cfg b w finalized ids x)"
  using assms
proof (induction ids arbitrary: x)
  case Nil
  then show ?case by (simp add: settled_def advances_refl)
next
  case (Cons i ids)
  let ?s = "ex_scheduler x"
  let ?m = "settle_tensor cfg b w finalized i x"
  obtain st where st: "i \<in> set (decoding ?s)" "map_of (states ?s) i = Some st" "0 < w" "w \<le> req_beam_width (st_request st)"
    using Cons.prems(2) by (auto simp: widths_ok_def width_ok_def)
  have "last_step st \<Longrightarrow> map_of finalized i \<noteq> None" using Cons.prems(3) st(2) by (auto simp: ends_at_def)
  then have one: "advances_one i ?s (fst ?m, ex_scheduler (snd ?m))"
    using settle_tensor_advances [OF Cons.prems(1) st, of finalized cfg b] by (simp add: apsnd_def map_prod_def split: prod.splits)
  have rest: "settled (set ids) (ex_scheduler (snd ?m)) (settle_tensor_each cfg b w finalized ids (snd ?m))"
    if s: "advances {i} ?s (ex_scheduler (snd ?m))"
  proof (rule Cons.IH [OF advancesD(2) [OF s] widths_ok_after [OF Cons.prems(2) s]])
    have "map_of (states (ex_scheduler (snd ?m))) j = map_of (states ?s) j" if "j \<in> set ids" for j
      using advancesD(3) [OF s, of j] that Cons.prems(2) by (auto simp: widths_ok_def)
    then show "\<forall>j \<in> set ids. ends_at (states (ex_scheduler (snd ?m))) j \<longrightarrow> map_of finalized j \<noteq> None"
      using Cons.prems(3) by (auto simp: ends_at_def)
  qed
  have "settled (insert i (set ids)) ?s (settle_tensor_each cfg b w finalized (i # ids) x)"
    unfolding settle_tensor_each.simps by (rule settled_cons [OF one]) (rule rest)
  then show ?case by simp
qed

section \<open>What a selection leaves alone\<close>

text \<open>Everything but the generations, the caches and the counters: the scheduler, the pools and who holds what
  of them.\<close>

definition outer where
  "outer x = (ex_scheduler x, ex_beam_pool x, ex_context_pool x,
     \<lambda>i. (rt_beam_lease (runtime_of i x), rt_context_lease (runtime_of i x)))"

lemma outerD:
  assumes "outer x = outer y"
  shows "ex_scheduler x = ex_scheduler y" and "ex_beam_pool x = ex_beam_pool y" and "ex_context_pool x = ex_context_pool y"
    and "rt_beam_lease (runtime_of i x) = rt_beam_lease (runtime_of i y)"
    and "rt_context_lease (runtime_of i x) = rt_context_lease (runtime_of i y)"
  using assms by (auto simp: outer_def fun_eq_iff)

lemma outer_updates [simp]:
  "outer (x\<lparr>ex_topk_cache := a\<rparr>) = outer x" "outer (x\<lparr>ex_inputs_cache := c\<rparr>) = outer x"
  "outer (x\<lparr>ex_prefill_batches := d\<rparr>) = outer x" "outer (x\<lparr>ex_prefill_cache := e\<rparr>) = outer x"
  "outer (x\<lparr>ex_prefill_counts := n\<rparr>) = outer x"
  by (simp_all add: outer_def runtime_of_def)

lemma outer_set_runtime:
  "rt_beam_lease rt = rt_beam_lease (runtime_of i x) \<Longrightarrow> rt_context_lease rt = rt_context_lease (runtime_of i x) \<Longrightarrow>
     outer (set_runtime i rt x) = outer x"
  by (auto simp: outer_def fun_eq_iff set_runtime_def runtime_of_def dict_lookup)

lemma keeps_bind:
  assumes "P (snd m)" and "\<And>y s. m = (Inr y, s) \<Longrightarrow> P s \<Longrightarrow> P (snd (f y s))"
  shows "P (snd (bind_st m f))"
  using assms by (cases m; cases "fst m") auto

lemma outer_bind:
  assumes "outer (snd m) = outer x" and "\<And>y s. outer s = outer x \<Longrightarrow> outer (snd (f y s)) = outer x"
  shows "outer (snd (bind_st m f)) = outer x"
  using keeps_bind [of "\<lambda>s. outer s = outer x"] assms by blast

lemma outer_write_rows: "outer (write_rows f i ids x) = outer x"
proof (induction f i ids x rule: write_rows.induct)
  case (2 f i rid rids x)
  then show ?case by (simp add: outer_set_runtime map_generation_def)
qed simp

lemma outer_caches [simp]: "outer (snd (on_inputs_cache f x)) = outer x" "outer (snd (on_topk_cache f' x)) = outer x"
  by (auto simp: on_inputs_cache_def on_topk_cache_def split: prod.splits)

lemma outer_forward: "outer (snd (forward_decode_step fwd shared ids tokens gen step width idx d x)) = outer x"
  by (auto simp: forward_decode_step_def outer_write_rows split: prod.splits intro!: outer_bind)

lemma outer_scatter: "outer (snd (scatter_batched_beam_kv shared kv ids step width x)) = outer x"
  by (simp add: scatter_batched_beam_kv_def outer_write_rows)

lemma outer_batched_prefill: "outer (snd (batched_prefill_for_states cfg ids gens x)) = outer x"
  by (auto simp: batched_prefill_for_states_def split: option.splits intro!: outer_bind)


definition same_leases :: "'v GRRequestRuntime \<Rightarrow> 'v GRRequestRuntime \<Rightarrow> bool" where
  "same_leases rt rt' \<longleftrightarrow> rt_beam_lease rt = rt_beam_lease rt' \<and> rt_context_lease rt = rt_context_lease rt'"

lemma same_leases_refl [simp]: "same_leases rt rt" "list_all2 same_leases rts rts"
  by (simp_all add: same_leases_def list.rel_refl)

lemma outer_set_runtimes:
  "list_all2 same_leases rts (runtimes ids x) \<Longrightarrow> outer (set_runtimes ids rts x) = outer x"
proof (induction ids rts x rule: set_runtimes.induct)
  case (1 rid ids rt rts x)
  have first: "outer (set_runtime rid rt x) = outer x"
    using 1(2) by (intro outer_set_runtime) (simp_all add: runtimes_def same_leases_def)
  have "list_all2 same_leases rts (runtimes ids (set_runtime rid rt x))"
    using 1(2) outerD(4,5) [OF first] by (simp add: runtimes_def same_leases_def list.rel_map del: runtime_of_set_runtime)
  then show ?case using 1(1) first by simp
qed simp_all

lemma outer_on_runtimes:
  "list_all2 same_leases (snd (f (runtimes ids x))) (runtimes ids x) \<Longrightarrow> outer (snd (on_runtimes f ids x)) = outer x"
  by (auto simp: on_runtimes_def outer_set_runtimes split: prod.splits)

lemma flush_pending_leases: "same_leases (snd (flush_pending rt)) rt"
  by (auto simp: flush_pending_def flush_selections_def clear_pending_def same_leases_def Let_def split: option.splits prod.splits sum.splits)

lemma flush_each_leases: "list_all2 same_leases (snd (flush_each rts)) rts"
proof (induction rts)
  case (Cons rt rts)
  then show ?case using flush_pending_leases [of rt] by (auto split: prod.splits sum.splits)
qed simp

lemma flush_each_length: "flush_each rts = (Inr rows, rts') \<Longrightarrow> length rows = length rts"
  by (induction rts arbitrary: rows rts') (auto split: prod.splits sum.splits)

lemma set_paths_leases: "list_all2 same_leases (set_paths ps rts) rts"
proof (induction ps rts rule: set_paths.induct)
  case (1 p ps rt rts)
  then show ?case by (simp add: map_generation_def) (simp add: same_leases_def)
qed simp_all

lemma append_leases: "list_all2 same_leases (snd (append_to_paths sel paths rts)) rts"
  by (auto simp: append_to_paths_def set_paths_leases split: prod.splits option.splits)

lemma push_rows_leases: "list_all2 same_leases (snd (push_rows rows rts)) rts"
proof (induction rows rts rule: push_rows.induct)
  case (3 row rows rt rts)
  have "same_leases (push_selection row rt) rt" by (simp add: push_selection_def same_leases_def split: prod.splits)
  then show ?case using 3 by (auto split: prod.splits)
qed simp_all

lemma update_leases: "list_all2 same_leases (snd (update_decode_tensor_state sel rts)) rts"
  by (auto simp: update_decode_tensor_state_def push_rows_leases split: option.splits)

lemma outer_general_logits: "outer (snd (general_logits fwd fk fv cfg b ids gens sel x)) = outer x"
  unfolding general_logits_def Let_def
  by (intro outer_bind) (auto simp: outer_batched_prefill outer_forward split: prod.splits intro!: outer_bind)

lemma outer_general_selection: "outer (snd (general_selection fwd T fk fv cfg b ids x)) = outer x"
  unfolding general_selection_def
  by (intro outer_bind)
    (auto simp: outer_general_logits outer_scatter outer_on_runtimes append_leases split: prod.splits intro!: outer_bind)

lemma outer_tensor_selection: "outer (snd (tensor_selection fwd T fk fv cfg b ids x)) = outer x"
  unfolding tensor_selection_def Let_def
  by (intro outer_bind)
    (auto simp: outer_batched_prefill outer_forward outer_scatter outer_on_runtimes update_leases split: prod.splits intro!: outer_bind)

lemma outer_flush_each: "outer (snd (on_runtimes flush_each ids x)) = outer x"
  by (intro outer_on_runtimes flush_each_leases)

lemma outer_flush_finishing: "outer (snd (flush_finishing ids x)) = outer x"
  unfolding flush_finishing_def Let_def batched_flush_agrees
  by (intro outer_bind) (auto simp: outer_on_runtimes flush_each_leases)


section \<open>The width of a selection\<close>

text \<open>\<open>torch.topk\<close> returns \<open>k\<close> elements or raises, so never more than \<open>k\<close>.\<close>

definition topk_bounded :: "torch_ops \<Rightarrow> bool" where
  "topk_bounded T \<longleftrightarrow> (\<forall>xs k. length (torch_topk T xs k) \<le> k)"

lemma limited_width_le: "batched_item_mask_limited_beam_width w m = Inr w' \<Longrightarrow> 0 < w' \<and> w' \<le> w"
  by (auto simp: batched_item_mask_limited_beam_width_def Let_def split: if_splits option.splits)

lemma selected_rows:
  assumes T: "topk_bounded T" and sel: "select_next_topk_batched T logits prev prev_t w item_mask mode mat fin = Inr sel"
  shows "0 < w" and "\<not> mat \<Longrightarrow> int (sel_beam_width sel) = w"
    and "mat \<Longrightarrow> sel_beam_width sel \<le> nat w \<and> length (sel_scores sel) = length (sel_token_ids sel)
       \<and> length (sel_parent_beams sel) = length (sel_token_ids sel)"
proof -
  show w: "0 < w" using sel by (auto simp: select_next_topk_batched_def split: if_splits)
  obtain b n v m p where shape: "tensor_shape logits = [b, n, v]" and m: "batched_next_mask b n v item_mask = Inr m"
    and p: "previous_matrix b n prev prev_t = Inr p"
    using sel by (auto simp: select_next_topk_batched_def split: if_splits list.splits)
  let ?k = "nat w"
  define sels where "sels = map2 (\<lambda>block p. select_row T mode ?k (min ?k v) (split_rows n v block) p)
      (split_rows b (n * v) (mask_fill m (tensor_data logits))) p"
  let ?toks = "map (\<lambda>s. map int (row_tokens s)) sels"
  have sel': "sel = \<lparr>sel_token_ids = (if mat then ?toks else []), sel_scores = (if mat then map row_values sels else []),
      sel_parent_beams = (if mat then map (\<lambda>s. map int (row_parents s)) sels else []),
      sel_token_ids_tensor = Some \<lparr>tensor_shape = [b, ?k], tensor_data = concat ?toks\<rparr>,
      sel_scores_tensor = Some \<lparr>tensor_shape = [b, ?k], tensor_data = concat (map row_values sels)\<rparr>,
      sel_parent_beams_tensor = Some \<lparr>tensor_shape = [b, ?k], tensor_data = concat (map (\<lambda>s. map int (row_parents s)) sels)\<rparr>\<rparr>"
    using sel w m p shape unfolding select_next_topk_batched_def sels_def
    by (auto simp: Let_def split: if_splits)
  show "int (sel_beam_width sel) = w" if "\<not> mat" using that w by (simp add: sel' sel_beam_width_def tensor_dim_def)
  have "length (row_tokens s) \<le> ?k" if "s \<in> set sels" for s
    using that T by (auto simp: sels_def select_row_def topk_bounded_def Let_def)
  then have "mat \<Longrightarrow> sel_beam_width sel \<le> ?k"
    by (cases sels) (simp_all add: sel' sel_beam_width_def tensor_dim_def)
  then show "sel_beam_width sel \<le> nat w \<and> length (sel_scores sel) = length (sel_token_ids sel)
       \<and> length (sel_parent_beams sel) = length (sel_token_ids sel)" if mat
    using that by (simp add: sel')
qed

lemma appended_rows:
  assumes app: "append_to_paths sel paths rts = (Inr (), rts')"
    and len: "length (sel_scores sel) = length (sel_token_ids sel)" "length (sel_parent_beams sel) = length (sel_token_ids sel)"
    and ne: "sel_token_ids sel \<noteq> []"
  shows "0 < sel_beam_width sel" and "\<forall>row \<in> set (sel_scores sel). row \<noteq> []"
proof -
  obtain paths' where b: "batched_append paths sel = (None, paths')" using app by (auto simp: append_to_paths_def split: prod.splits option.splits)
  have bs: "sel_batch_size sel = length (sel_token_ids sel)" using ne by (cases "sel_token_ids sel") (auto simp: sel_batch_size_def)
  have n: "length (sel_token_ids sel) = length paths"
    and l: "batched_append_loop paths (sel_parent_beams sel) (sel_token_ids sel) (sel_scores sel) = (None, paths')"
    using b bs by (auto simp: batched_append_def split: if_splits)
  have step: "i < length paths \<Longrightarrow> path_append (paths ! i) (sel_parent_beams sel ! i) (sel_token_ids sel ! i) (sel_scores sel ! i) = Inr (paths' ! i)" for i
    using batched_append_loop_ok [OF l] n len by simp
  then have row: "sel_token_ids sel ! i \<noteq> [] \<and> sel_scores sel ! i \<noteq> []" if "i < length paths" for i
    using step [OF that] by (auto simp: path_append_def split: if_splits)
  show "0 < sel_beam_width sel"
  proof -
    have "0 < length paths" using n ne by auto
    from row [OF this] show ?thesis using ne by (cases "sel_token_ids sel") (auto simp: sel_beam_width_def)
  qed
  show "\<forall>row \<in> set (sel_scores sel). row \<noteq> []"
    using row n len by (simp add: all_set_conv_all_nth)
qed


text \<open>A selection has a row for every row of the previous one, and so for every request of the batch.\<close>

lemma selected_batch:
  assumes "select_next_topk_batched T logits (Some prev) None w item_mask mode True fin = Inr sel"
  shows "length (sel_token_ids sel) = length prev"
proof -
  obtain b n v m p where s: "tensor_shape logits = [b, n, v]" "b = length prev" "batched_next_mask b n v item_mask = Inr m"
    "previous_matrix b n (Some prev) None = Inr p"
    using assms by (auto simp: select_next_topk_batched_def split: if_splits list.splits)
  then have "p = prev" by (auto simp: previous_matrix_def split: if_splits)
  then show ?thesis using assms s by (auto simp: select_next_topk_batched_def Let_def split: if_splits)
qed

lemma selected_logprob_rows:
  "selected_decode_token_logprobs T logits sel = Inr rows \<Longrightarrow> length (sel_parent_beams sel) = length (sel_token_ids sel) \<Longrightarrow>
     length rows = length (sel_token_ids sel)"
  by (auto simp: selected_decode_token_logprobs_def Let_def split: list.splits dest!: map_res_nth)

lemma current_rows: "current_batched_selection gens = Inr sel \<Longrightarrow> length (sel_scores sel) = length gens"
  by (auto simp: current_batched_selection_def tuple_selection_def dest!: map_res_nth)

lemma general_selection_rows:
  assumes T: "topk_bounded T" and run: "general_selection fwd T fk fv cfg b ids x = (Inr (sel, rows), y)"
  shows "int (sel_beam_width sel) \<le> next_beam_width b" and "sel_token_ids sel \<noteq> [] \<Longrightarrow> 0 < sel_beam_width sel"
    and "\<forall>row \<in> set (sel_scores sel). row \<noteq> []" and "map fst (selection_rows ids sel rows) = ids"
proof -
  obtain gens cur paths w imask logits x8 where gens: "map_res require_generation (runtimes ids x) = Inr gens"
    and cur: "current_batched_selection gens = Inr cur"
    and lim: "batched_item_mask_limited_beam_width (next_beam_width b) imask = Inr w"
    and sel: "select_next_topk_batched T logits (Some (sel_scores cur)) None w imask (cfg_score_mode cfg) True True = Inr sel"
    and det: "(if cfg_return_beam_details cfg
              then bind_res (selected_decode_token_logprobs T logits sel) (\<lambda>rows. Inr (Some rows)) else Inr None) = Inr rows"
    and app: "on_runtimes (append_to_paths sel paths) ids x8 = (Inr (), y)"
    using run by (auto simp: general_selection_def bind_st_Inr_iff)
  obtain rts' where app': "append_to_paths sel paths (runtimes ids x8) = (Inr (), rts')"
    using app by (auto simp: on_runtimes_def split: prod.splits)
  note w = limited_width_le [OF lim]
  note rows = selected_rows(3) [OF T sel, simplified]
  show "int (sel_beam_width sel) \<le> next_beam_width b" using w rows by linarith
  have len: "length (sel_scores sel) = length (sel_token_ids sel)" "length (sel_parent_beams sel) = length (sel_token_ids sel)"
    using rows by simp_all
  show "sel_token_ids sel \<noteq> [] \<Longrightarrow> 0 < sel_beam_width sel" by (rule appended_rows(1) [OF app' len])
  show "\<forall>row \<in> set (sel_scores sel). row \<noteq> []" using appended_rows(2) [OF app' len] len by (cases "sel_token_ids sel") auto
  have n: "length (sel_token_ids sel) = length ids"
    using selected_batch [OF sel] current_rows [OF cur] map_res_nth [OF gens] by (simp add: runtimes_def)
  moreover have "length lps = length ids" if "rows = Some lps" for lps
    using that det selected_logprob_rows [of T logits sel] len(2) n by (auto split: if_splits)
  ultimately show "map fst (selection_rows ids sel rows) = ids"
    using len(1) by (cases rows) (simp_all add: selection_rows_def map_fst_zip_take)
qed

lemma selection_rows_scores: "(i, toks, scs, lps) \<in> set (selection_rows ids sel rows) \<Longrightarrow> scs \<in> set (sel_scores sel)"
  unfolding selection_rows_def by (drule set_zip_rightD, drule set_zip_rightD, drule set_zip_leftD, assumption)

section \<open>Running decode batches\<close>

lemma settled_bind:
  assumes "ex_scheduler (snd m) = s" and "sched_ok s" and "\<And>y x1. m = (Inr y, x1) \<Longrightarrow> settled A s (f y x1)"
  shows "settled A s (bind_st m f)"
proof (cases m)
  case (Pair r x1)
  then show ?thesis using assms by (cases r) (auto simp: settled_def advances_refl)
qed

lemma widths_ok_weaken:
  assumes "widths_ok w ids s" and "0 < w'" and "w' \<le> w" and "distinct ids'" and "set ids' \<subseteq> set ids"
  shows "widths_ok w' ids' s"
  using assms by (fastforce simp: widths_ok_def width_ok_def)

lemma run_general_settled:
  assumes T: "topk_bounded T" and ok: "sched_ok (ex_scheduler x)" and w: "widths_ok (next_beam_width b) ids (ex_scheduler x)"
  shows "settled (set ids) (ex_scheduler x) (run_decode_batch_general fwd T fk fv cfg b ids x)"
  unfolding run_decode_batch_general_def
proof (intro settled_bind [OF _ ok])
  have flushed: "ex_scheduler (snd (on_runtimes flush_each ids x)) = ex_scheduler x"
    by (rule outerD(1) [OF outer_flush_each])
  then show "ex_scheduler (snd (on_runtimes flush_each ids x)) = ex_scheduler x" .
  fix u x1
  assume "on_runtimes flush_each ids x = (Inr u, x1)"
  then have s1: "ex_scheduler x1 = ex_scheduler x" using flushed by simp
  then show "ex_scheduler (snd (general_selection fwd T fk fv cfg b ids x1)) = ex_scheduler x"
    using outerD(1) [OF outer_general_selection, of fwd T fk fv cfg b ids x1] by simp
  fix p x2
  assume run: "general_selection fwd T fk fv cfg b ids x1 = (Inr p, x2)"
  obtain sel rows where p: "p = (sel, rows)" by fastforce
  have s2: "ex_scheduler x2 = ex_scheduler x" using outerD(1) [OF outer_general_selection, of fwd T fk fv cfg b ids x1] run s1 by simp
  note R = general_selection_rows [OF T run [unfolded p]]
  let ?rows = "selection_rows ids sel rows"
  have scs: "\<forall>(i, toks, scs, lps) \<in> set ?rows. scs \<noteq> []" using selection_rows_scores R(3) by fastforce
  have "settled (set ids) (ex_scheduler x) (settle_general_each cfg b (int (sel_beam_width sel)) ?rows x2)"
  proof (cases "sel_token_ids sel = []")
    case True
    then have "?rows = []" by (simp add: selection_rows_def)
    then show ?thesis using ok s2 R(4) by (auto simp: settled_def advances_refl)
  next
    case False
    have "widths_ok (int (sel_beam_width sel)) (map fst ?rows) (ex_scheduler x)"
      unfolding R(4) by (rule widths_ok_weaken [OF w _ R(1)]) (use R(2) [OF False] w in \<open>simp_all add: widths_ok_def\<close>)
    then show ?thesis using settle_general_each_settled [of x2 _ ?rows] ok scs s2 R(4) by simp
  qed
  then show "settled (set ids) (ex_scheduler x) ((case p of (sel, rows) \<Rightarrow> settle_general_each cfg b (int (sel_beam_width sel)) (selection_rows ids sel rows)) x2)"
    using p by simp
qed


lemma run_tensor_settled:
  assumes T: "topk_bounded T" and ok: "sched_ok (ex_scheduler x)" and w: "widths_ok (next_beam_width b) ids (ex_scheduler x)"
  shows "settled (set ids) (ex_scheduler x) (run_decode_batch_tensor_selection fwd T fk fv cfg b ids x)"
  unfolding run_decode_batch_tensor_selection_def
proof (intro settled_bind [OF _ ok])
  have sel0: "ex_scheduler (snd (tensor_selection fwd T fk fv cfg b ids x)) = ex_scheduler x"
    by (rule outerD(1) [OF outer_tensor_selection])
  then show "ex_scheduler (snd (tensor_selection fwd T fk fv cfg b ids x)) = ex_scheduler x" .
  fix sel x1
  assume run: "tensor_selection fwd T fk fv cfg b ids x = (Inr sel, x1)"
  then have s1: "ex_scheduler x1 = ex_scheduler x" using sel0 by simp
  have fl: "ex_scheduler (snd (flush_finishing ids x1)) = ex_scheduler x1"
    by (rule outerD(1) [OF outer_flush_finishing])
  then show "ex_scheduler (snd (flush_finishing ids x1)) = ex_scheduler x" using s1 by simp
  obtain logits prev where "select_next_topk_batched T logits None prev (next_beam_width b) None (cfg_score_mode cfg) False False = Inr sel"
    using run by (auto simp: tensor_selection_def Let_def bind_st_Inr_iff)
  from selected_rows(1,2) [OF T this] have width: "int (sel_beam_width sel) = next_beam_width b" by simp
  fix finalized x2
  assume fin: "flush_finishing ids x1 = (Inr finalized, x2)"
  then have s2: "ex_scheduler x2 = ex_scheduler x" using fl s1 by simp
  obtain rows where z: "finalized = zip (finishing_ids ids x1) rows" "length rows = length (finishing_ids ids x1)"
    using fin flush_each_length by (fastforce simp: flush_finishing_def Let_def batched_flush_agrees bind_st_Inr_iff on_runtimes_def split: prod.splits)
  have "map_of finalized i \<noteq> None" if "i \<in> set ids" "ends_at (states (ex_scheduler x)) i" for i
  proof -
    have "i \<in> set (finishing_ids ids x1)" using that s1 by (auto simp: finishing_ids_def ends_at_def last_step_def)
    moreover have "map fst finalized = finishing_ids ids x1" using z by simp
    ultimately show ?thesis unfolding map_of_eq_None_iff by (metis set_map)
  qed
  then show "settled (set ids) (ex_scheduler x) (settle_tensor_each cfg b (int (sel_beam_width sel)) finalized ids x2)"
    using settle_tensor_each_settled [of x2 "next_beam_width b" ids finalized cfg b] ok w s2 width by simp
qed

lemma run_decode_batch_settled:
  assumes "topk_bounded T" and "sched_ok (ex_scheduler x)" and "widths_ok (next_beam_width b) ids (ex_scheduler x)"
  shows "settled (set ids) (ex_scheduler x) (run_decode_batch fwd T fk fv cfg b ids x)"
  using run_general_settled [OF assms] run_tensor_settled [OF assms] by (simp add: run_decode_batch_def)

lemma settled_append:
  assumes one: "settled A s m" and rest: "\<And>fin x1. m = (Inr fin, x1) \<Longrightarrow> advances A s (ex_scheduler x1) \<Longrightarrow> settled B (ex_scheduler x1) (f x1)"
  shows "settled (A \<union> B) s (bind_st m (\<lambda>fin x1. bind_st (f x1) (\<lambda>fins x2. (Inr (fin @ fins), x2))))"
proof (cases m)
  case (Pair r x1)
  show ?thesis
  proof (cases r)
    case (Inl e)
    then show ?thesis using one Pair advances_mono [of A s _ "A \<union> B"] by (simp add: settled_def)
  next
    case (Inr fin)
    have s1: "advances A s (ex_scheduler x1)" "\<forall>i \<in> set fin. finished_in (ex_scheduler x1) i" "closer A s (ex_scheduler x1)"
      using one Pair Inr by (simp_all add: settled_def)
    obtain r2 x2 where f: "f x1 = (r2, x2)" by fastforce
    have s2: "advances B (ex_scheduler x1) (ex_scheduler x2)" "\<And>fins. r2 = Inr fins \<Longrightarrow> \<forall>i \<in> set fins. finished_in (ex_scheduler x2) i"
      "\<And>fins. r2 = Inr fins \<Longrightarrow> closer B (ex_scheduler x1) (ex_scheduler x2)"
      using rest Pair Inr s1(1) f by (auto simp: settled_def)
    have on: "closer (A \<union> B) s (ex_scheduler x2)" if "r2 = Inr fins" for fins
      by (rule closer_trans [OF s1(3) s2(3) [OF that] advancesD(5) [OF s1(1)] advancesD(5) [OF s2(1)]])
    show ?thesis
      using Pair Inr f s1(2) s2(2) on advances_trans [OF s1(1) s2(1)] evolvesD(3) [OF advancesD(1) [OF s2(1)]]
      by (cases r2) (auto simp: settled_def)
  qed
qed

lemma planned_cons:
  "planned s (b # bs) \<longleftrightarrow> widths_ok (next_beam_width b) (batch_request_ids b) s \<and> planned s bs
     \<and> set (batch_request_ids b) \<inter> set (concat (map batch_request_ids bs)) = {}"
proof -
  have pairs: "set (batch_pairs (b # bs)) = (\<lambda>i. (i, next_beam_width b)) ` set (batch_request_ids b) \<union> set (batch_pairs bs)"
    by (simp add: batch_pairs_def)
  show ?thesis unfolding planned_def widths_ok_def pairs by (auto simp: ball_Un)
qed

lemma planned_after:
  assumes "planned s bs" and "advances A s s'" and "A \<inter> set (concat (map batch_request_ids bs)) = {}"
  shows "planned s' bs"
proof -
  have out: "i \<notin> A" if "i \<in> set (concat (map batch_request_ids bs))" for i using that assms(3) by blast
  have "width_ok (states s') p" if p: "p \<in> set (batch_pairs bs)" for p
  proof -
    have "fst p \<in> set (concat (map batch_request_ids bs))" using p by (auto simp: batch_pairs_def)
    then have "map_of (states s') (fst p) = map_of (states s) (fst p)" using advancesD(3) [OF assms(2) out] by simp
    then show ?thesis using assms(1) p by (simp add: planned_def width_ok_def)
  qed
  moreover have "set (concat (map batch_request_ids bs)) \<subseteq> set (decoding s')"
    using assms(1) advancesD(4) [OF assms(2)] out by (auto simp: planned_def)
  ultimately show ?thesis using assms(1) by (simp add: planned_def)
qed

lemma run_decode_batches_settled:
  assumes "topk_bounded T" and "sched_ok (ex_scheduler x)" and "planned (ex_scheduler x) bs"
  shows "settled (set (concat (map batch_request_ids bs))) (ex_scheduler x) (run_decode_batches fwd T fk fv cfg bs x)"
  using assms(2,3)
proof (induction bs arbitrary: x)
  case Nil
  then show ?case by (simp add: settled_def advances_refl)
next
  case (Cons b bs)
  let ?ids = "filter (\<lambda>rid. rid \<in> set (decoding (ex_scheduler x))) (batch_request_ids b)"
  have p: "widths_ok (next_beam_width b) (batch_request_ids b) (ex_scheduler x)" "planned (ex_scheduler x) bs"
    "set (batch_request_ids b) \<inter> set (concat (map batch_request_ids bs)) = {}"
    using Cons.prems(2) by (simp_all add: planned_cons)
  have ids: "?ids = batch_request_ids b" using p(1) by (auto simp: widths_ok_def filter_id_conv)
  show ?case
  proof (cases "batch_request_ids b = []")
    case True
    then show ?thesis using Cons.IH [OF Cons.prems(1) p(2)] by simp
  next
    case False
    have one: "settled (set (batch_request_ids b)) (ex_scheduler x) (run_decode_batch fwd T fk fv cfg b (batch_request_ids b) x)"
      by (rule run_decode_batch_settled [OF assms(1) Cons.prems(1) p(1)])
    have rest: "settled (set (concat (map batch_request_ids bs))) (ex_scheduler x1) (run_decode_batches fwd T fk fv cfg bs x1)"
      if "advances (set (batch_request_ids b)) (ex_scheduler x) (ex_scheduler x1)" for x1
      by (rule Cons.IH [OF advancesD(2) [OF that] planned_after [OF p(2) that p(3)]])
    have "run_decode_batches fwd T fk fv cfg (b # bs) x = bind_st (run_decode_batch fwd T fk fv cfg b (batch_request_ids b) x)
        (\<lambda>fin x1. bind_st (run_decode_batches fwd T fk fv cfg bs x1) (\<lambda>fins x2. (Inr (fin @ fins), x2)))"
      using False by (simp add: ids del: filter_False)
    then show ?thesis using settled_append [OF one rest] by simp
  qed
qed

end
