(* ===== verification/GR_Executor_Inv.thy ===== *)
theory GR_Executor_Inv
  imports GR_Exec_Inv
begin

text \<open>
  The invariant of the whole executor (\<open>exec_ok\<close>): the scheduler's, and that each pool leases to a request
  exactly the slot its runtime notes. Prefill, decode, the release of finished requests and the tick keep
  it, so it holds of every executor that can be reached from construction.
\<close>

section \<open>Pools and the leases the requests note\<close>

text \<open>A pool leases to a request exactly the lease its runtime notes.\<close>

definition slots_agree :: "('l GRBeamKVPoolLease_scheme) dense_pool option \<Rightarrow> (string \<Rightarrow> ('l GRBeamKVPoolLease_scheme) option) \<Rightarrow> bool" where
  "slots_agree pool held \<longleftrightarrow>
     (case pool of None \<Rightarrow> (\<forall>i. held i = None) | Some p \<Rightarrow> pool_inv p \<and> map_of (pool_leases p) = held)"

definition pools_ok :: "'v executor \<Rightarrow> bool" where
  "pools_ok x \<longleftrightarrow> slots_agree (ex_beam_pool x) (\<lambda>i. rt_beam_lease (runtime_of i x))
     \<and> slots_agree (ex_context_pool x) (\<lambda>i. rt_context_lease (runtime_of i x))"

definition exec_ok :: "'v executor \<Rightarrow> bool" where
  "exec_ok x \<longleftrightarrow> sched_ok (ex_scheduler x) \<and> pools_ok x"

lemma exec_okD: "exec_ok x \<Longrightarrow> sched_ok (ex_scheduler x)" "exec_ok x \<Longrightarrow> sched_inv (ex_scheduler x)" "exec_ok x \<Longrightarrow> pools_ok x"
  by (simp_all add: exec_ok_def sched_ok_def)

lemma pools_ok_outer: "ex_beam_pool x = ex_beam_pool y \<Longrightarrow> ex_context_pool x = ex_context_pool y \<Longrightarrow>
    (\<And>i. rt_beam_lease (runtime_of i x) = rt_beam_lease (runtime_of i y)) \<Longrightarrow>
    (\<And>i. rt_context_lease (runtime_of i x) = rt_context_lease (runtime_of i y)) \<Longrightarrow> pools_ok x = pools_ok y"
  by (simp add: pools_ok_def)

lemma pools_ok_scheduler [simp]: "pools_ok (x\<lparr>ex_scheduler := s\<rparr>) = pools_ok x"
  by (rule pools_ok_outer) simp_all

lemma exec_ok_outer: "outer x = outer y \<Longrightarrow> exec_ok x = exec_ok y"
  using pools_ok_outer [of x y] outerD [of x y] by (simp add: exec_ok_def)

lemma slots_agree_set:
  assumes "slots_agree (Some p) held" and "pool_inv p'" and "pool_leases p' = pool_leases p @ [(i, l)]" and "held i = None"
  shows "slots_agree (Some p') (\<lambda>j. if j = i then Some l else held j)"
proof -
  have "map_of (pool_leases p) i = None" using assms(1,4) by (auto simp: slots_agree_def)
  then have "map_of (pool_leases p @ [(i, l)]) = (map_of (pool_leases p))(i \<mapsto> l)" by (auto simp: fun_eq_iff map_add_def split: option.splits)
  then show ?thesis using assms by (auto simp: slots_agree_def fun_eq_iff)
qed

section \<open>What the prefill does to the scheduler and the pools\<close>

definition asked_width :: "'v executor \<Rightarrow> string \<Rightarrow> int option" where
  "asked_width x i = map_option (\<lambda>st. req_beam_width (st_request st)) (map_of (states (ex_scheduler x)) i)"

definition warms :: "'v executor \<Rightarrow> 'v executor \<Rightarrow> bool" where
  "warms x x' \<longleftrightarrow> exec_ok x' \<and> evolves (ex_scheduler x) (ex_scheduler x') \<and> decoding (ex_scheduler x') = decoding (ex_scheduler x)
     \<and> asked_width x' = asked_width x"

lemma warms_refl: "exec_ok x \<Longrightarrow> warms x x"
  by (simp add: warms_def evolves_refl exec_okD(1))

lemma warms_trans: "warms x y \<Longrightarrow> warms y z \<Longrightarrow> warms x z"
  unfolding warms_def by (metis evolves_trans)

lemma warmsD: "warms x y \<Longrightarrow> exec_ok y" "warms x y \<Longrightarrow> decoding (ex_scheduler y) = decoding (ex_scheduler x)"
  "warms x y \<Longrightarrow> asked_width y = asked_width x"
  by (simp_all add: warms_def)

lemma warms_outer: "exec_ok x \<Longrightarrow> outer y = outer x \<Longrightarrow> warms x y"
  using exec_ok_outer [of y x] outerD(1) [of y x] by (simp add: warms_def asked_width_def fun_eq_iff evolves_refl exec_okD(1))

lemma warms_bind:
  assumes "warms x (snd m)" and "\<And>y x1. m = (Inr y, x1) \<Longrightarrow> warms x x1 \<Longrightarrow> exec_ok x1 \<Longrightarrow> warms x1 (snd (f y x1))"
  shows "warms x (snd (bind_st m f))"
  using keeps_bind [of "warms x" m f] assms warms_trans warmsD(1) by metis

lemma warms_same_scheduler:
  assumes "exec_ok x" and "ex_scheduler y = ex_scheduler x" and "pools_ok y"
  shows "warms x y"
  using assms evolves_refl by (auto simp: warms_def exec_ok_def asked_width_def fun_eq_iff)

lemma runtime_of_pools [simp]: "runtime_of i (x\<lparr>ex_beam_pool := p\<rparr>) = runtime_of i x" "runtime_of i (x\<lparr>ex_context_pool := c\<rparr>) = runtime_of i x"
  by (simp_all add: runtime_of_def)

lemma pools_set_runtime [simp]: "ex_beam_pool (set_runtime i rt x) = ex_beam_pool x" "ex_context_pool (set_runtime i rt x) = ex_context_pool x"
  by (simp_all add: set_runtime_def)

lemma same_pools: "ex_beam_pool x = b \<Longrightarrow> x\<lparr>ex_beam_pool := b\<rparr> = x" "ex_context_pool x = c \<Longrightarrow> x\<lparr>ex_context_pool := c\<rparr> = x"
  by auto

lemma context_lease_warms:
  assumes ok: "exec_ok x"
  shows "warms x (snd (context_lease_for rid len x))"
proof (cases "\<exists>p. ex_context_pool x = Some p \<and> context_pool_can_allocate rid len p")
  case False
  then show ?thesis using warms_refl [OF ok] by (auto simp: context_lease_for_def split: option.splits)
next
  case True
  then obtain p where p: "ex_context_pool x = Some p" "context_pool_can_allocate rid len p" by blast
  have ag: "slots_agree (Some p) (\<lambda>i. rt_context_lease (runtime_of i x))"
    using exec_okD(3) [OF ok] p(1) by (simp add: pools_ok_def)
  have inv: "pool_inv p" using ag by (simp add: slots_agree_def)
  obtain r p' where al: "context_pool_allocate rid len p = (r, p')" by fastforce
  note ac = context_pool_allocate_cases [OF inv, of rid len, unfolded al, simplified]
  show ?thesis
  proof (cases r)
    case (Inl e)
    then have "p' = p" using ac by simp
    then show ?thesis using p al Inl warms_refl [OF ok] by (simp add: context_lease_for_def same_pools)
  next
    case (Inr l)
    have new: "rid \<notin> set (dict_keys (pool_leases p))" using al Inr by (auto simp: context_pool_allocate_def split: if_splits)
    have rid: "pool_request_id l = rid" using ac Inr by simp
    have none: "rt_context_lease (runtime_of rid x) = None" using new ag unfolding map_of_None_iff_keys [symmetric] by (simp add: slots_agree_def)
    let ?x' = "set_context_lease l (x\<lparr>ex_context_pool := Some p'\<rparr>)"
    have "snd (context_lease_for rid len x) = ?x'" using p al Inr by (simp add: context_lease_for_def)
    moreover have "ex_scheduler ?x' = ex_scheduler x" by (simp add: set_context_lease_def Let_def)
    moreover have "pools_ok ?x'"
    proof -
      have "(\<lambda>i. rt_beam_lease (runtime_of i ?x')) = (\<lambda>i. rt_beam_lease (runtime_of i x))"
        and "(\<lambda>i. rt_context_lease (runtime_of i ?x')) = (\<lambda>j. if j = rid then Some l else rt_context_lease (runtime_of j x))"
        by (auto simp: set_context_lease_def Let_def rid fun_eq_iff)
      then show ?thesis
        using slots_agree_set [OF ag _ _ none, of p' l] ac Inr exec_okD(3) [OF ok]
        by (simp add: pools_ok_def) (simp add: set_context_lease_def Let_def)
    qed
    ultimately show ?thesis using warms_same_scheduler [OF ok] by metis
  qed
qed


lemma beam_lease_warms:
  assumes ok: "exec_ok x"
  shows "warms x (snd (allocate_beam_kv_from_pool E rid x))"
proof (cases "ex_beam_pool x")
  case None
  then show ?thesis using warms_refl [OF ok] by (simp add: allocate_beam_kv_from_pool_def)
next
  case (Some p)
  have ag: "slots_agree (Some p) (\<lambda>i. rt_beam_lease (runtime_of i x))"
    using exec_okD(3) [OF ok] Some by (simp add: pools_ok_def)
  have inv: "pool_inv p" using ag by (simp add: slots_agree_def)
  obtain r p' where al: "beam_pool_allocate rid p = (r, p')" by fastforce
  note ac = beam_pool_allocate_cases [OF inv, of rid, unfolded al, simplified]
  show ?thesis
  proof (cases r)
    case (Inl e)
    then have "p' = p" using ac by simp
    then show ?thesis using Some al Inl warms_refl [OF ok] by (simp add: allocate_beam_kv_from_pool_def same_pools)
  next
    case (Inr l)
    have new: "rid \<notin> set (dict_keys (pool_leases p))" using al Inr by (auto simp: beam_pool_allocate_def split: if_splits)
    have none: "rt_beam_lease (runtime_of rid x) = None" using new ag unfolding map_of_None_iff_keys [symmetric] by (simp add: slots_agree_def)
    let ?x1 = "x\<lparr>ex_beam_pool := Some p'\<rparr>"
    let ?x' = "set_runtime rid ((runtime_of rid ?x1)\<lparr>rt_beam_lease := Some l\<rparr>) ?x1"
    have "snd (allocate_beam_kv_from_pool E rid x) = ?x'" using Some al Inr by (simp add: allocate_beam_kv_from_pool_def)
    moreover have "pools_ok ?x'"
    proof -
      have "(\<lambda>i. rt_context_lease (runtime_of i ?x')) = (\<lambda>i. rt_context_lease (runtime_of i x))"
        and "(\<lambda>i. rt_beam_lease (runtime_of i ?x')) = (\<lambda>j. if j = rid then Some l else rt_beam_lease (runtime_of j x))"
        by (auto simp: fun_eq_iff)
      then show ?thesis
        using slots_agree_set [OF ag _ _ none, of p' l] ac Inr exec_okD(3) [OF ok] by (simp add: pools_ok_def)
    qed
    moreover have "ex_scheduler ?x' = ex_scheduler x" by simp
    ultimately show ?thesis using warms_same_scheduler [OF ok] by metis
  qed
qed

text \<open>A run of slots for a whole batch.\<close>

lemma fold_context_leases:
  assumes "distinct (map pool_request_id ls)"
  shows "ex_scheduler (fold set_context_lease ls x) = ex_scheduler x" and "ex_beam_pool (fold set_context_lease ls x) = ex_beam_pool x"
    and "ex_context_pool (fold set_context_lease ls x) = ex_context_pool x"
    and "rt_beam_lease (runtime_of i (fold set_context_lease ls x)) = rt_beam_lease (runtime_of i x)"
    and "rt_context_lease (runtime_of i (fold set_context_lease ls x)) =
      (case map_of (map (\<lambda>l. (pool_request_id l, l)) ls) i of None \<Rightarrow> rt_context_lease (runtime_of i x) | Some l \<Rightarrow> Some l)"
proof -
  have one: "ex_scheduler (set_context_lease l x) = ex_scheduler x" "ex_beam_pool (set_context_lease l x) = ex_beam_pool x"
    "ex_context_pool (set_context_lease l x) = ex_context_pool x"
    "rt_beam_lease (runtime_of i (set_context_lease l x)) = rt_beam_lease (runtime_of i x)"
    "rt_context_lease (runtime_of i (set_context_lease l x)) = (if i = pool_request_id l then Some l else rt_context_lease (runtime_of i x))"
    for l i and x :: "'a executor"
    by (simp_all add: set_context_lease_def Let_def)
  show "ex_scheduler (fold set_context_lease ls x) = ex_scheduler x" "ex_beam_pool (fold set_context_lease ls x) = ex_beam_pool x"
    "ex_context_pool (fold set_context_lease ls x) = ex_context_pool x"
    "rt_beam_lease (runtime_of i (fold set_context_lease ls x)) = rt_beam_lease (runtime_of i x)"
    by (induction ls arbitrary: x) (simp_all add: one)
  show "rt_context_lease (runtime_of i (fold set_context_lease ls x)) =
      (case map_of (map (\<lambda>l. (pool_request_id l, l)) ls) i of None \<Rightarrow> rt_context_lease (runtime_of i x) | Some l \<Rightarrow> Some l)"
    using assms
  proof (induction ls arbitrary: x)
    case (Cons l ls)
    have "map_of (map (\<lambda>l. (pool_request_id l, l)) ls) (pool_request_id l) = None"
      using Cons.prems by (auto simp: map_of_eq_None_iff)
    then show ?case using Cons by (auto simp: one split: option.splits)
  qed simp
qed

lemma allocate_batch_cases:
  assumes inv: "pool_inv p" and d: "distinct ids" and ne: "ids \<noteq> []" and al: "context_pool_allocate_batch ids len p = (r, p')"
  shows "(p' = p \<and> (\<forall>ls. r \<noteq> Inr (Some ls)))
    \<or> (\<exists>ls. r = Inr (Some ls) \<and> pool_inv p' \<and> pool_leases p' = pool_leases p @ zip ids ls \<and> map pool_request_id ls = ids
        \<and> set ids \<inter> set (dict_keys (pool_leases p)) = {})"
proof (cases "set ids \<inter> set (dict_keys (pool_leases p)) = {} \<and> 0 < len \<and> len \<le> pool_max_context_len p")
  case False
  then have "(\<exists>rid \<in> set ids. rid \<in> set (dict_keys (pool_leases p))) \<or> len \<le> 0 \<or> len > pool_max_context_len p" by (auto simp del: set_map)
  then show ?thesis using al ne by (auto simp: context_pool_allocate_batch_def simp del: set_map split: if_splits)
next
  case True
  then have no: "\<not> (\<exists>rid \<in> set ids. rid \<in> set (dict_keys (pool_leases p)))" by blast
  show ?thesis
  proof (cases "first_free_run (free_slots p) (int (length ids))")
    case None
    then show ?thesis using al ne no True by (auto simp: context_pool_allocate_batch_def simp del: set_map)
  next
    case (Some start)
    from allocate_batch_granted [OF inv ne d conjunct1 [OF True] _ _ Some, of len] True
    show ?thesis using al by auto
  qed
qed

lemma context_batch_warms:
  assumes ok: "exec_ok x" and d: "distinct ids"
  shows "warms x (snd (context_kv_for_prefill ids x))"
proof (cases "ex_context_pool x")
  case None
  then show ?thesis using warms_refl [OF ok] by (simp add: context_kv_for_prefill_def)
next
  case (Some p)
  let ?lens = "map (\<lambda>rid. request_context_tokens (request_of rid x)) ids"
  have ag: "slots_agree (Some p) (\<lambda>i. rt_context_lease (runtime_of i x))"
    using exec_okD(3) [OF ok] Some by (simp add: pools_ok_def)
  have inv: "pool_inv p" using ag by (simp add: slots_agree_def)
  obtain r p' where al: "context_pool_allocate_batch ids (hd ?lens) p = (r, p')" by fastforce
  show ?thesis
  proof (cases "?lens = [] \<or> \<not> (\<forall>n \<in> set ?lens. n = hd ?lens)")
    case True
    then show ?thesis using Some warms_refl [OF ok] by (auto simp: context_kv_for_prefill_def Let_def)
  next
    case False
    then have ne: "ids \<noteq> []" by simp
    have run: "context_kv_for_prefill ids x = bind_st (r, x\<lparr>ex_context_pool := Some p'\<rparr>) (\<lambda>leases x1.
                 case leases of
                   None \<Rightarrow> (Inr None, x1)
                 | Some ls \<Rightarrow>
                     (let first = pool_slot (hd ls); n = int (length ls)
                      in (Inr (if pool_slot (last ls) - first + 1 \<noteq> n then None else Some (first, n, hd ?lens)),
                          fold set_context_lease ls x1)))"
      using Some False al by (simp only: context_kv_for_prefill_def Let_def option.case if_False prod.case)
    from allocate_batch_cases [OF inv d ne al] show ?thesis
    proof (elim disjE exE conjE)
      assume "p' = p" and "\<forall>ls. r \<noteq> Inr (Some ls)"
      then have "snd (context_kv_for_prefill ids x) = x"
        unfolding run using Some by (auto simp: bind_st_def same_pools split: sum.splits option.splits)
      then show ?thesis using warms_refl [OF ok] by simp
    next
      fix ls
      assume ls: "r = Inr (Some ls)" "pool_inv p'" "pool_leases p' = pool_leases p @ zip ids ls" "map pool_request_id ls = ids"
        "set ids \<inter> set (dict_keys (pool_leases p)) = {}"
      let ?x1 = "x\<lparr>ex_context_pool := Some p'\<rparr>"
      have x': "snd (context_kv_for_prefill ids x) = fold set_context_lease ls ?x1" unfolding run using ls(1) by (simp add: Let_def)
      note f = fold_context_leases [where ls = ls and x = ?x1, unfolded ls(4), OF d]
      have pairs: "zip ids ls = map (\<lambda>l. (pool_request_id l, l)) ls"
        unfolding ls(4) [symmetric] by (simp add: zip_map1 zip_same_conv_map)
      have none: "map_of (pool_leases p) i = None" if "i \<in> set ids" for i
        unfolding map_of_None_iff_keys using that ls(5) by blast
      have "map_of (pool_leases p') i = rt_context_lease (runtime_of i (fold set_context_lease ls ?x1))" for i
      proof (cases "map_of (zip ids ls) i")
        case None
        then show ?thesis using ag f(5) [of i] ls(3) pairs by (simp add: slots_agree_def map_add_def fun_eq_iff split: option.split)
      next
        case (Some l)
        then have "i \<in> set ids" by (metis map_of_SomeD set_zip_leftD)
        then show ?thesis using Some none f(5) [of i] ls(3) pairs by (simp add: map_add_def)
      qed
      then have "pools_ok (fold set_context_lease ls ?x1)"
        using exec_okD(3) [OF ok] f ls(2) by (simp add: pools_ok_def slots_agree_def fun_eq_iff)
      then show ?thesis using warms_same_scheduler [OF ok, of "fold set_context_lease ls ?x1"] f(1) x' by simp
    qed
  qed
qed

section \<open>The prefill of a request\<close>

lemma outer_store_entry: "outer (snd (store_prefill_cache_entry pc ids prefill extra x)) = outer x"
  by (auto simp: store_prefill_cache_entry_def Let_def split: prod.splits intro!: outer_bind)

lemma outer_on_counts [simp]: "outer (on_counts f x) = outer x"
  by (simp add: on_counts_def)

lemma materialize_warms: "exec_ok x \<Longrightarrow> warms x (snd (materialize_cached_prefill rid cached x))"
  unfolding materialize_cached_prefill_def Let_def
  by (intro warms_bind context_lease_warms) (auto intro: warms_refl split: option.splits)

lemma allocate_extend_warms: "exec_ok x \<Longrightarrow> warms x (snd (allocate_context_kv_for_extend rid len kv x))"
  unfolding allocate_context_kv_for_extend_def Let_def
  by (intro warms_bind context_lease_warms) (auto intro!: warms_refl warms_bind split: option.splits)

lemma extend_inputs_warms: "exec_ok x \<Longrightarrow> warms x (snd (extend_inputs E r m n x))"
  by (auto simp: extend_inputs_def Let_def intro!: warms_refl warms_bind allocate_extend_warms split: ids_value.splits)

lemma extend_warms: "exec_ok x \<Longrightarrow> warms x (snd (extend_cached_prefix_prefill E r m n x))"
  unfolding extend_cached_prefix_prefill_def
  by (intro warms_bind extend_inputs_warms)
    (auto intro!: warms_bind warms_refl warms_outer [OF _ outer_store_entry] split: prod.splits)

lemma warms_from:
  assumes "exec_ok x" and "outer y = outer x" and "exec_ok y \<Longrightarrow> warms y z"
  shows "warms x z"
proof -
  have "exec_ok y" using assms(1) exec_ok_outer [OF assms(2)] by simp
  then show ?thesis using warms_trans [OF warms_outer [OF assms(1,2)]] assms(3) by blast
qed

lemma warms_bind_pure: "exec_ok x \<Longrightarrow> (\<And>y. m = Inr y \<Longrightarrow> warms x (snd (f y x))) \<Longrightarrow> warms x (snd (bind_st (m, x) f))"
  by (cases m) (simp_all add: warms_refl)

lemma warms_bind_ret: "warms x (snd m) \<Longrightarrow> warms x (snd (bind_st m (\<lambda>y x1. (g y, x1))))"
  by (cases m; cases "fst m") auto

lemma from_cache_warms:
  assumes ok: "exec_ok x"
  shows "warms x (snd (prefill_from_cache E rid x))"
proof (cases "cache_match (pc_input_ids (eng_prefix E) rid)
    (prefill_cache_extra_key (pc_json_text (eng_prefix E)) (request_of rid x)) (ex_prefill_cache x)")
  case (Inl e)
  then show ?thesis using warms_refl [OF ok] by (simp add: prefill_from_cache_def Let_def)
next
  case (Inr p)
  obtain found c where p: "p = (found, c)" by fastforce
  have counted: "warms x z" if "warms (on_counts f (x\<lparr>ex_prefill_cache := c\<rparr>)) z" for f z
    using warms_from [OF ok _ that] by simp
  have start: "exec_ok (on_counts f (x\<lparr>ex_prefill_cache := c\<rparr>))" for f
    using exec_ok_outer [of "on_counts f (x\<lparr>ex_prefill_cache := c\<rparr>)" x] ok by simp
  have skip: "warms x (on_counts f (x\<lparr>ex_prefill_cache := c\<rparr>))" for f by (rule warms_outer [OF ok]) simp
  have mat: "warms x (snd (materialize_cached_prefill rid q (on_counts f (x\<lparr>ex_prefill_cache := c\<rparr>))))" for q f
    by (rule counted [OF materialize_warms [OF start]])
  have ext: "warms x (snd (extend_cached_prefix_prefill E r m n (on_counts f (x\<lparr>ex_prefill_cache := c\<rparr>))))" for r m n f
    by (rule counted [OF extend_warms [OF start]])
  show ?thesis
  proof (cases found)
    case None
    then show ?thesis using Inr p warms_outer [OF ok] by (simp add: prefill_from_cache_def Let_def)
  next
    case (Some m)
    show ?thesis
      using Inr p Some by (auto simp: prefill_from_cache_def Let_def intro!: warms_bind_ret mat ext skip)
  qed
qed

text \<open>The first beams.\<close>

definition starts_with :: "torch_ops \<Rightarrow> GRServingRequest \<Rightarrow> BeamSelection option \<Rightarrow> bool" where
  "starts_with T r sel \<longleftrightarrow> topk_bounded T \<and> valid_request r
     \<and> (\<forall>s. sel = Some s \<longrightarrow> int (selection_width s) \<le> req_beam_width r)"

lemma policy_width_bounds: "policy_width_for_step r step w = Inr w' \<Longrightarrow> 0 < w' \<and> w' \<le> req_beam_width r"
  by (auto simp: policy_width_for_step_def split: if_splits)

lemma initial_beams_width:
  assumes "\<forall>s. sel = Some s \<longrightarrow> int (selection_width s) \<le> req_beam_width r" and "initial_beams E r prefill g sel = Inr (w, g', logits)"
  shows "0 < w \<and> w \<le> req_beam_width r"
proof (cases sel)
  case None
  then obtain w0 m where "policy_width_for_step r 0 (req_beam_width r) = Inr w0" "batched_item_mask_limited_beam_width w0 m = Inr w"
    using assms(2) by (auto simp: initial_beams_def Let_def)
  then show ?thesis using policy_width_bounds [of r 0 "req_beam_width r" w0] limited_width_le [of w0 m w] by auto
next
  case (Some s)
  then show ?thesis
    using assms by (auto simp: initial_beams_def initialize_beams_from_selection_def split: if_splits)
qed

lemma observe_request_result:
  assumes "valid_request r" and "observe_request_policy_scores r step scs = Inr r'"
  shows "observed_request r r'"
proof (cases "beam_width_policy r")
  case None
  then show ?thesis using assms observed_request_refl by (simp add: observe_request_policy_scores_def)
next
  case (Some p)
  then show ?thesis
    using assms(2) valid_with_policy [OF assms(1) Some] by (auto simp: observe_request_policy_scores_def observed_request_def)
qed

lemma set_request_state_warms:
  assumes ok: "exec_ok x" and dec: "rid \<in> set (decoding (ex_scheduler x))"
    and up: "\<And>st. map_of (states (ex_scheduler x)) rid = Some st \<Longrightarrow> st_stage st = Decoding \<Longrightarrow> valid_request (st_request st) \<Longrightarrow>
      (\<exists>w. st_active_beam_width st = Some w \<and> 0 < w \<and> w \<le> req_beam_width (st_request st)) \<Longrightarrow>
      decodes_on st (f st) \<and> current_decode_step (f st) = current_decode_step st"
  shows "warms x (set_request_state rid f x)"
proof -
  let ?s = "ex_scheduler x"
  obtain st where st: "map_of (states ?s) rid = Some st" "st_stage st = Decoding" "state_ok (decoding ?s) (kv_alloc ?s) (tick_count ?s) rid st"
    using core_inv_decoding [OF exec_okD(2) [OF ok, unfolded sched_inv_def] dec] by blast
  have f: "decodes_on st (f st)" "current_decode_step (f st) = current_decode_step st"
    using up [OF st(1,2)] state_ok_valid [OF st(3)] st(2,3) by (auto simp: state_ok_def)
  have "advances {rid} ?s (set_state rid (f st) ?s)"
    by (rule update_advances [OF exec_okD(1) [OF ok] st(1) dec f(1)]) (use st f(2) in \<open>simp_all add: state_ok_def\<close>)
  from advancesD(1,2) [OF this] show ?thesis
    using st(1) exec_okD(3) [OF ok] f(1) observed_requestD(4)
    by (auto simp: set_request_state_def warms_def exec_ok_def asked_width_def fun_eq_iff dict_lookup decodes_on_def)
qed

lemma warms_set_runtime:
  assumes "exec_ok x" and "same_leases rt (runtime_of rid x)"
  shows "warms x (set_runtime rid rt x)"
  using assms by (intro warms_outer outer_set_runtime) (simp_all add: same_leases_def)

lemma note_initial_warms:
  assumes ok: "exec_ok x" and dec: "rid \<in> set (decoding (ex_scheduler x))"
    and w: "0 < width" "width \<le> req_beam_width (request_of rid x)"
  shows "warms x (snd (note_initial_beams E rid width g logits x))"
proof -
  let ?x1 = "set_request_state rid (\<lambda>st. st\<lparr>st_active_beam_width := Some width\<rparr>) x"
  let ?rt = "(runtime_of rid ?x1)\<lparr>rt_generation := Some g\<rparr>"
  have w1: "warms x ?x1"
    by (rule set_request_state_warms [OF ok dec])
      (use w observed_request_refl in \<open>auto simp: decodes_on_def request_of_def\<close>)
  obtain rt1 where rt1: "initialize_decode_tensor_state ?rt = Inr rt1" "same_leases rt1 (runtime_of rid ?x1)"
    by (cases "entries (gen_beam_path g)")
      (auto simp: initialize_decode_tensor_state_def require_generation_def Let_def same_leases_def)
  let ?x3 = "set_runtime rid rt1 (set_runtime rid ?rt ?x1)"
  have w3: "warms ?x1 ?x3"
  proof -
    have "warms ?x1 (set_runtime rid ?rt ?x1)" by (rule warms_set_runtime [OF warmsD(1) [OF w1]]) (simp add: same_leases_def)
    moreover have "warms (set_runtime rid ?rt ?x1) ?x3"
      by (rule warms_set_runtime [OF warmsD(1) [OF calculation]]) (use rt1(2) in \<open>simp add: same_leases_def\<close>)
    ultimately show ?thesis by (rule warms_trans)
  qed
  note x3 = warms_trans [OF w1 w3]
  let ?scs = "scores (last (entries (gen_beam_path g)))"
  let ?x5 = "\<lambda>r. set_request_state rid (\<lambda>st. st\<lparr>st_request := r\<rparr>) ?x3"
  have run: "note_initial_beams E rid width g logits x =
     bind_st (observe_request_policy_scores (request_of rid ?x3) 0 ?scs, ?x3) (\<lambda>r x4.
       if \<not> cfg_return_beam_details (eng_config E) then (Inr (), set_request_state rid (\<lambda>st. st\<lparr>st_request := r\<rparr>) x4)
       else bind_st (case logits of
                       None \<Rightarrow> Inl (RuntimeError ''initial_logits'')
                     | Some t \<Rightarrow> selected_initial_token_logprobs (eng_torch E) t (token_ids (last (entries (gen_beam_path g)))),
                     set_request_state rid (\<lambda>st. st\<lparr>st_request := r\<rparr>) x4) (\<lambda>row x6.
              (Inr (), set_runtime rid ((runtime_of rid x6)\<lparr>rt_token_logprob_steps := Some [row]\<rparr>) x6)))"
    using rt1(1) by (simp add: note_initial_beams_def Let_def)
  have x5: "warms ?x3 (?x5 r)" if r: "observe_request_policy_scores (request_of rid ?x3) 0 ?scs = Inr r" for r
  proof (rule set_request_state_warms [OF warmsD(1) [OF x3]])
    show "rid \<in> set (decoding (ex_scheduler ?x3))" using dec warmsD(2) [OF x3] by simp
    fix st
    assume st: "map_of (states (ex_scheduler ?x3)) rid = Some st" "st_stage st = Decoding" "valid_request (st_request st)"
      "\<exists>w. st_active_beam_width st = Some w \<and> 0 < w \<and> w \<le> req_beam_width (st_request st)"
    then have "observed_request (st_request st) r" using observe_request_result [OF st(3), of 0 ?scs r] r by (simp add: request_of_def)
    then show "decodes_on st (st\<lparr>st_request := r\<rparr>) \<and> current_decode_step (st\<lparr>st_request := r\<rparr>) = current_decode_step st"
      using st by (simp add: decodes_on_def)
  qed
  have "warms ?x3 (snd (note_initial_beams E rid width g logits x))"
    unfolding run
  proof (rule warms_bind_pure [OF warmsD(1) [OF x3]])
    fix r
    assume "observe_request_policy_scores (request_of rid ?x3) 0 ?scs = Inr r"
    note x5 = x5 [OF this]
    have "warms (?x5 r) (snd (bind_st (m, ?x5 r) (\<lambda>row x6. (Inr (), set_runtime rid ((runtime_of rid x6)\<lparr>rt_token_logprob_steps := Some [row]\<rparr>) x6))))"
      for m :: "pyfloat list py_result"
      by (rule warms_bind_pure [OF warmsD(1) [OF x5]], simp only: snd_conv)
        (intro warms_set_runtime [OF warmsD(1) [OF x5]], simp add: same_leases_def)
    then show "warms ?x3 (snd (if \<not> cfg_return_beam_details (eng_config E) then (Inr (), ?x5 r)
       else bind_st (case logits of
                       None \<Rightarrow> Inl (RuntimeError ''initial_logits'')
                     | Some t \<Rightarrow> selected_initial_token_logprobs (eng_torch E) t (token_ids (last (entries (gen_beam_path g)))), ?x5 r) (\<lambda>row x6.
              (Inr (), set_runtime rid ((runtime_of rid x6)\<lparr>rt_token_logprob_steps := Some [row]\<rparr>) x6))))"
      using x5 warms_trans [OF x5] by simp
  qed
  then show ?thesis by (rule warms_trans [OF x3])
qed

lemma allocate_beam_scheduler: "ex_scheduler (snd (allocate_beam_kv_from_pool E rid x)) = ex_scheduler x"
  by (auto simp: allocate_beam_kv_from_pool_def bind_st_def split: option.splits prod.splits sum.splits)

lemma store_single_warms:
  assumes ok: "exec_ok x" and dec: "rid \<in> set (decoding (ex_scheduler x))"
    and sel: "\<And>s w. sel = Some s \<Longrightarrow> asked_width x rid = Some w \<Longrightarrow> int (selection_width s) \<le> w"
  shows "warms x (snd (store_single_prefill_result E rid prefill sel x))"
proof (cases "map_of (states (ex_scheduler x)) rid")
  case None
  then show ?thesis using warms_refl [OF ok] by (simp add: store_single_prefill_result_def)
next
  case (Some st)
  let ?r = "st_request st"
  have w: "\<forall>s. sel = Some s \<longrightarrow> int (selection_width s) \<le> req_beam_width ?r" using sel Some by (simp add: asked_width_def)
  show ?thesis
    unfolding store_single_prefill_result_def Some option.case Let_def
  proof (rule warms_bind [OF beam_lease_warms [OF ok]])
    fix kv x1
    assume al: "allocate_beam_kv_from_pool E rid x = (Inr kv, x1)" and x1: "warms x x1" "exec_ok x1"
    have s1: "ex_scheduler x1 = ex_scheduler x" using allocate_beam_scheduler [of E rid x] al by simp
    show "warms x1 (snd (bind_st (from_prefill (eng_fill_key E) rid prefill (req_max_decode_steps ?r) (cfg_max_beam_width (eng_config E))
                      (Some (req_beam_width ?r)) (cfg_score_mode (eng_config E)) kv, x1) (\<lambda>g x2.
           bind_st (initial_beams E ?r prefill g sel, x2) (\<lambda>(width, g', logits) x3. note_initial_beams E rid width g' logits x3))))"
    proof (intro warms_bind_pure [OF x1(2)])
      fix g p
      assume "initial_beams E ?r prefill g sel = Inr p"
      moreover obtain width g' logits where p: "p = (width, g', logits)" by (cases p)
      ultimately have "0 < width \<and> width \<le> req_beam_width ?r" using initial_beams_width [OF w] by blast
      then show "warms x1 (snd ((case p of (width, g', logits) \<Rightarrow> note_initial_beams E rid width g' logits) x1))"
        using note_initial_warms [OF x1(2)] dec Some s1 by (simp add: p request_of_def)
    qed
  qed
qed

lemma serve_from_cache_warms:
  assumes "exec_ok x" and "set ids \<subseteq> set (decoding (ex_scheduler x))"
  shows "warms x (snd (serve_from_cache E ids x))"
  using assms
proof (induction ids arbitrary: x)
  case (Cons rid ids)
  show ?case
    unfolding serve_from_cache.simps
  proof (rule warms_bind [OF from_cache_warms [OF Cons.prems(1)]])
    fix cached x1
    assume x1: "warms x x1" "exec_ok x1"
    let ?x1 = "on_counts (\<lambda>n. n\<lparr>cache_misses := cache_misses n + 1\<rparr>) x1"
    have sub: "set ids \<subseteq> set (decoding (ex_scheduler y))" if "warms x1 y" for y
      using Cons.prems(2) warmsD(2) [OF x1(1)] warmsD(2) [OF that] by simp
    have counted: "warms x1 ?x1" by (rule warms_outer [OF x1(2)]) simp
    have miss: "warms x1 (snd (serve_from_cache E ids ?x1))"
      by (rule warms_trans [OF counted Cons.IH [OF warmsD(1) [OF counted] sub [OF counted]]])
    have hit: "warms x1 (snd (bind_st (store_single_prefill_result E rid prefill None x1) (\<lambda>_ x2. serve_from_cache E ids x2)))" for prefill
    proof (rule warms_bind)
      show "warms x1 (snd (store_single_prefill_result E rid prefill None x1))"
        by (rule store_single_warms [OF x1(2)]) (use Cons.prems(2) warmsD(2) [OF x1(1)] in auto)
    qed (use Cons.IH sub in blast)
    show "warms x1 (snd (case cached of
         None \<Rightarrow> bind_st (serve_from_cache E ids ?x1) (\<lambda>misses x2. (Inr (rid # misses), x2))
       | Some prefill \<Rightarrow> bind_st (store_single_prefill_result E rid prefill None x1) (\<lambda>_ x2. serve_from_cache E ids x2)))"
      using warms_bind_ret [OF miss] hit by (cases cached) simp_all
  qed
qed (simp add: warms_refl)

lemma serve_from_cache_misses:
  "serve_from_cache E ids x = (Inr misses, y) \<Longrightarrow> distinct ids \<Longrightarrow> distinct misses \<and> set misses \<subseteq> set ids"
proof (induction ids arbitrary: x misses)
  case (Cons rid ids)
  then obtain cached x1 where p: "prefill_from_cache E rid x = (Inr cached, x1)" by (auto simp: bind_st_Inr_iff)
  show ?case
  proof (cases cached)
    case None
    then show ?thesis using Cons p by (fastforce simp: bind_st_Inr_iff)
  next
    case (Some prefill)
    then show ?thesis using Cons p by (fastforce simp: bind_st_Inr_iff)
  qed
qed simp

section \<open>The prefill of a batch\<close>

lemma initial_rows_width:
  assumes T: "topk_bounded T" and sel: "select_initial_topk_batched T logits w None mode = Inr sel"
    and shape: "tensor_shape logits = b # rest" and i: "i < b"
  shows "int (selection_width (selection_row i sel)) \<le> w"
proof -
  obtain v xs where l: "last_scores logits = Inr (b, v, xs)" and w: "0 < w"
    using sel shape by (auto simp: select_initial_topk_batched_def last_scores_def split: if_splits list.splits)
  have "length (sel_token_ids sel ! i) \<le> nat w"
    using sel l w i T
    by (auto simp: select_initial_topk_batched_def batched_initial_mask_def Let_def tuple_selection_def topk_bounded_def split: if_splits)
  then show ?thesis using w by (simp add: selection_row_def selection_width_def)
qed

lemma batched_selection_widths:
  assumes T: "topk_bounded (eng_torch E)" and sel: "select_initial_prefill_beams_batched E ids prefill x = Inr (Some sel)"
    and k: "k < length ids" and w: "asked_width x (ids ! k) = Some w"
  shows "int (selection_width (selection_row k sel)) \<le> w"
proof -
  let ?w = "req_beam_width (request_of (hd ids) x)"
  obtain b rest where shape: "tensor_shape (prefill_logits prefill) = b # rest" and b: "b = length ids"
    and same: "\<forall>rid \<in> set ids. req_beam_width (request_of rid x) = ?w"
    and s: "select_initial_topk_batched (eng_torch E) (prefill_logits prefill) ?w None (cfg_score_mode (eng_config E)) = Inr sel"
    using sel by (auto simp: select_initial_prefill_beams_batched_def Let_def split: if_splits list.splits)
  have "w = req_beam_width (request_of (ids ! k) x)" using w by (auto simp: asked_width_def request_of_def)
  then have "w = ?w" using same k by simp
  then show ?thesis using initial_rows_width [OF T s shape, of k] k b by simp
qed

lemma store_rows_warms:
  assumes "exec_ok x" and "set ids \<subseteq> set (decoding (ex_scheduler x))"
    and "\<And>s k w. sel = Some s \<Longrightarrow> k < length ids \<Longrightarrow> asked_width x (ids ! k) = Some w \<Longrightarrow> int (selection_width (selection_row (i + k) s)) \<le> w"
  shows "warms x (snd (store_rows E update prefill sel i ids x))"
  using assms
proof (induction ids arbitrary: x i)
  case (Cons rid ids)
  show ?case
    unfolding store_rows.simps
  proof (rule warms_bind_pure [OF Cons.prems(1)])
    fix row
    let ?store = "if update \<and> pc_enabled (eng_prefix E)
              then store_prefill_cache_entry (eng_prefix E) (pc_input_ids (eng_prefix E) rid) row
                     (prefill_cache_extra_key (pc_json_text (eng_prefix E)) (request_of rid x)) x
              else (Inr (), x)"
    have "warms x (snd ?store)" using warms_refl [OF Cons.prems(1)] warms_outer [OF Cons.prems(1) outer_store_entry] by simp
    then show "warms x (snd (bind_st ?store (\<lambda>_ x2. bind_st (store_single_prefill_result E rid row (map_option (selection_row i) sel) x2)
        (\<lambda>_ x3. store_rows E update prefill sel (i + 1) ids x3))))"
    proof (rule warms_bind)
      fix x2
      assume x2: "warms x x2" "exec_ok x2"
      have keep: "set (rid # ids) \<subseteq> set (decoding (ex_scheduler y))" "asked_width y = asked_width x" if "warms x2 y" for y
        using Cons.prems(2) warmsD(2,3) [OF x2(1)] warmsD(2,3) [OF that] by simp_all
      have first: "warms x2 (snd (store_single_prefill_result E rid row (map_option (selection_row i) sel) x2))"
        by (rule store_single_warms [OF x2(2)]) (use keep [OF warms_refl [OF x2(2)]] Cons.prems(3) [of _ 0] in auto)
      show "warms x2 (snd (bind_st (store_single_prefill_result E rid row (map_option (selection_row i) sel) x2)
        (\<lambda>_ x3. store_rows E update prefill sel (i + 1) ids x3)))"
      proof (rule warms_bind [OF first])
        fix u x3
        assume x3: "warms x2 x3" "exec_ok x3"
        show "warms x3 (snd (store_rows E update prefill sel (i + 1) ids x3))"
        proof (rule Cons.IH [OF x3(2)])
          show "set ids \<subseteq> set (decoding (ex_scheduler x3))" using keep(1) [OF x3(1)] by simp
          show "int (selection_width (selection_row (i + 1 + k) s)) \<le> w"
            if "sel = Some s" "k < length ids" "asked_width x3 (ids ! k) = Some w" for s k w
            using Cons.prems(3) [of s "Suc k" w] that keep(2) [OF x3(1)] by simp
        qed
      qed
    qed
  qed
qed (simp add: warms_refl)

lemma uncached_warms:
  assumes T: "topk_bounded (eng_torch E)" and ok: "exec_ok x" and d: "distinct ids" and dec: "set ids \<subseteq> set (decoding (ex_scheduler x))"
  shows "warms x (snd (run_uncached_prefill_requests E update ids x))"
  unfolding run_uncached_prefill_requests_def
proof (rule warms_bind_pure [OF ok], rule warms_bind [OF context_batch_warms [OF ok d]])
  fix prompts window x1
  assume x1: "warms x x1" "exec_ok x1"
  show "warms x1 (snd (bind_st (eng_prefill E prompts window, x1) (\<lambda>prefill x3. store_prefill_results E update ids prefill x3)))"
  proof (rule warms_bind_pure [OF x1(2)])
    fix prefill
    show "warms x1 (snd (store_prefill_results E update ids prefill x1))"
      unfolding store_prefill_results_def
    proof (rule warms_bind_pure [OF x1(2)])
      fix sel
      assume "select_initial_prefill_beams_batched E ids prefill x1 = Inr sel"
      then show "warms x1 (snd (store_rows E update prefill sel 0 ids x1))"
        using batched_selection_widths [OF T] dec warmsD(2) [OF x1(1)]
        by (intro store_rows_warms [OF x1(2)]) auto
    qed
  qed
qed

lemma requests_warms:
  assumes T: "topk_bounded (eng_torch E)" and ok: "exec_ok x" and d: "distinct ids" and dec: "set ids \<subseteq> set (decoding (ex_scheduler x))"
  shows "warms x (snd (run_prefill_requests E ids x))"
proof -
  have "warms x (snd (bind_st (serve_from_cache E ids x) (\<lambda>misses x1.
             if misses = [] then (Inr (), x1) else run_uncached_prefill_requests E True misses x1)))"
  proof (rule warms_bind [OF serve_from_cache_warms [OF ok dec]])
    fix misses x1
    assume run: "serve_from_cache E ids x = (Inr misses, x1)" and x1: "warms x x1" "exec_ok x1"
    have "distinct misses" "set misses \<subseteq> set (decoding (ex_scheduler x1))"
      using serve_from_cache_misses [OF run d] dec warmsD(2) [OF x1(1)] by auto
    then show "warms x1 (snd (if misses = [] then (Inr (), x1) else run_uncached_prefill_requests E True misses x1))"
      using uncached_warms [OF T x1(2)] warms_refl [OF x1(2)] by simp
  qed
  then show ?thesis using uncached_warms [OF T ok d dec] by (simp add: run_prefill_requests_def)
qed


lemma shape_groups_partition:
  "shape_groups ids x groups = Inr groups' \<Longrightarrow> wf_dict groups \<Longrightarrow>
     wf_dict groups' \<and> mset (concat (dict_values groups')) = mset (concat (dict_values groups)) + mset ids"
proof (induction ids arbitrary: groups)
  case (Cons rid ids)
  obtain st where st: "map_of (states (ex_scheduler x)) rid = Some st" using Cons.prems(1) by (auto split: option.splits)
  let ?g = "shape_group_add (input_shape (st_request st)) rid groups"
  have "wf_dict ?g" "mset (concat (dict_values ?g)) = add_mset rid (mset (concat (dict_values groups)))"
    using Cons.prems(2) concat_dict_set [OF Cons.prems(2)] by (simp_all add: shape_group_add_def wf_dict_set)
  then show ?case using Cons.IH [of ?g] Cons.prems(1) st by simp
qed simp

lemma groups_warms:
  assumes "topk_bounded (eng_torch E)" and "exec_ok x" and "distinct (concat groups)" and "set (concat groups) \<subseteq> set (decoding (ex_scheduler x))"
  shows "warms x (snd (run_prefill_groups E groups x))"
  using assms(2-)
proof (induction groups arbitrary: x)
  case (Cons ids groups)
  have one: "warms x (snd (run_prefill_requests E ids x))"
    by (rule requests_warms [OF assms(1) Cons.prems(1)]) (use Cons.prems(2,3) in simp_all)
  show ?case
    unfolding run_prefill_groups.simps
  proof (rule warms_bind [OF one])
    fix u x1
    assume x1: "warms x x1" "exec_ok x1"
    show "warms x1 (snd (run_prefill_groups E groups x1))"
      by (rule Cons.IH [OF x1(2)]) (use Cons.prems(2,3) warmsD(2) [OF x1(1)] in simp_all)
  qed
qed (simp add: warms_refl)

lemma run_prefill_warms:
  assumes T: "topk_bounded (eng_torch E)" and ok: "exec_ok x" and d: "distinct ids" and dec: "set ids \<subseteq> set (decoding (ex_scheduler x))"
  shows "warms x (snd (run_prefill E ids x))"
  unfolding run_prefill_def
proof (rule warms_bind_pure [OF ok])
  fix groups
  assume "shape_groups ids x [] = Inr groups"
  then have "mset (concat (dict_values groups)) = mset ids" using shape_groups_partition by fastforce
  then have "distinct (concat (dict_values groups))" "set (concat (dict_values groups)) = set ids"
    using d mset_eq_imp_distinct_iff mset_eq_setD by blast+
  then show "warms x (snd (run_prefill_groups E (dict_values groups) x))"
    using groups_warms [OF T ok, of "dict_values groups"] dec by simp
qed

section \<open>Decoding leaves the pools alone\<close>

definition holdings where
  "holdings x = (ex_beam_pool x, ex_context_pool x, \<lambda>i. (rt_beam_lease (runtime_of i x), rt_context_lease (runtime_of i x)))"

lemma holdings_outer: "outer x = outer y \<Longrightarrow> holdings x = holdings y"
  by (simp add: outer_def holdings_def)

lemma holdings_pools: "holdings x = holdings y \<Longrightarrow> pools_ok x = pools_ok y"
  by (rule pools_ok_outer) (auto simp: holdings_def fun_eq_iff)

lemma holdings_scheduler [simp]: "holdings (x\<lparr>ex_scheduler := s\<rparr>) = holdings x" "holdings (snd (on_scheduler f x)) = holdings x"
  by (auto simp: holdings_def on_scheduler_def split: prod.split)

lemma holdings_bind:
  assumes "holdings (snd m) = holdings x" and "\<And>y s. holdings s = holdings x \<Longrightarrow> holdings (snd (f y s)) = holdings x"
  shows "holdings (snd (bind_st m f)) = holdings x"
  using keeps_bind [of "\<lambda>s. holdings s = holdings x"] assms by blast

lemma holdings_set_runtime: "same_leases rt (runtime_of i x) \<Longrightarrow> holdings (set_runtime i rt x) = holdings x"
  by (rule holdings_outer [OF outer_set_runtime]) (simp_all add: same_leases_def)

lemma holdings_settle_general: "holdings (snd (settle_general_each cfg b w rows x)) = holdings x"
proof (induction rows arbitrary: x)
  case (Cons row rows)
  obtain i toks scs lps where row: "row = (i, toks, scs, lps)" by (metis prod_cases4)
  have "holdings (case lps of None \<Rightarrow> x | Some ps \<Rightarrow> set_runtime i (note_logprobs ps (runtime_of i x)) x) = holdings x"
    by (auto intro!: holdings_set_runtime simp: note_logprobs_def same_leases_def split: option.split)
  then show ?case unfolding row settle_general_each.simps Let_def
    by (intro holdings_bind) (simp_all add: Cons.IH)
qed simp

lemma holdings_settle_tensor: "holdings (snd (settle_tensor cfg b w finalized i x)) = holdings x"
proof (cases "map_of (states (ex_scheduler x)) i")
  case (Some st)
  let ?x1 = "x\<lparr>ex_scheduler := set_state i (st\<lparr>current_decode_step := current_decode_step st + 1, st_active_beam_width := Some w\<rparr>) (ex_scheduler x)\<rparr>"
  have fl: "holdings (set_runtime i rt x1) = holdings x" if "flush_pending (runtime_of i x1) = (r, rt)" "holdings x1 = holdings x" for r rt x1
    using holdings_set_runtime [of rt i x1] flush_pending_leases [of "runtime_of i x1"] that by simp
  show ?thesis
    using Some by (auto simp: settle_tensor_def Let_def intro!: holdings_bind fl split: option.split prod.split)
qed (simp add: settle_tensor_def)

lemma holdings_settle_tensor_each: "holdings (snd (settle_tensor_each cfg b w finalized ids x)) = holdings x"
  by (induction ids arbitrary: x) (auto intro!: holdings_bind simp: holdings_settle_tensor)

lemma holdings_run_decode_batch: "holdings (snd (run_decode_batch fwd T fk fv cfg b ids x)) = holdings x"
  unfolding run_decode_batch_def run_decode_batch_general_def run_decode_batch_tensor_selection_def
  by (auto intro!: holdings_bind simp: holdings_settle_general holdings_settle_tensor_each
      holdings_outer [OF outer_general_selection] holdings_outer [OF outer_tensor_selection] holdings_outer [OF outer_flush_finishing]
      holdings_outer [OF outer_flush_each])

lemma holdings_run_decode_batches: "holdings (snd (run_decode_batches fwd T fk fv cfg bs x)) = holdings x"
  by (induction bs arbitrary: x) (auto intro!: holdings_bind simp: Let_def holdings_run_decode_batch)


section \<open>Releasing what a finished request held\<close>

definition releases :: "'v executor \<Rightarrow> 'v executor \<Rightarrow> bool" where
  "releases x x' \<longleftrightarrow> exec_ok x' \<and> evolves (ex_scheduler x) (ex_scheduler x')
     \<and> (\<forall>i. rt_beam_lease (runtime_of i x) = None \<longrightarrow> rt_beam_lease (runtime_of i x') = None)
     \<and> (\<forall>i. rt_context_lease (runtime_of i x) = None \<longrightarrow> rt_context_lease (runtime_of i x') = None)"

lemma releases_refl: "exec_ok x \<Longrightarrow> releases x x"
  by (simp add: releases_def evolves_refl exec_okD(1))

lemma releases_trans: "releases x y \<Longrightarrow> releases y z \<Longrightarrow> releases x z"
  unfolding releases_def by (metis evolves_trans)

lemma releasesD:
  assumes "releases x y"
  shows "exec_ok y" and "finished_in (ex_scheduler x) i \<Longrightarrow> finished_in (ex_scheduler y) i"
    and "rt_beam_lease (runtime_of i x) = None \<Longrightarrow> rt_beam_lease (runtime_of i y) = None"
    and "rt_context_lease (runtime_of i x) = None \<Longrightarrow> rt_context_lease (runtime_of i y) = None"
  using assms evolvesD(3) by (auto simp: releases_def)

lemma attach_releases:
  assumes ok: "exec_ok x"
  shows "releases x (attach_response i x)"
proof (cases "map_of (finished (ex_scheduler x)) i")
  case None
  then show ?thesis using releases_refl [OF ok] by (simp add: attach_response_def)
next
  case (Some resp)
  let ?s = "ex_scheduler x"
  let ?s' = "?s\<lparr>finished := dict_set i (attach_timing (ex_timing x) resp) (finished ?s)\<rparr>"
  have "evolves ?s ?s'"
    by (rule evolves_bookkeeping [OF exec_okD(1) [OF ok]])
      (use exec_okD(2) [OF ok] Some in \<open>auto simp: sched_inv_def dict_lookup split: if_splits\<close>)
  then show ?thesis
    using Some exec_okD(3) [OF ok] evolvesD(1) by (simp add: attach_response_def Let_def releases_def exec_ok_def)
qed

lemma drop_prompt_releases:
  assumes ok: "exec_ok x" and fin: "\<And>st. map_of (states (ex_scheduler x)) i = Some st \<Longrightarrow> st_stage st = Finished"
  shows "releases x (drop_prompt i x)"
proof (cases "map_of (states (ex_scheduler x)) i")
  case None
  then show ?thesis using releases_refl [OF ok] by (simp add: drop_prompt_def set_request_state_def)
next
  case (Some st)
  let ?s = "ex_scheduler x"
  let ?st = "st\<lparr>st_request := (st_request st)\<lparr>req_input_ids := IdsNone\<rparr>\<rparr>"
  have "sched_inv (set_state i ?st ?s)" by (rule drop_prompt_inv [OF exec_okD(2) [OF ok] Some fin [OF Some]])
  then have "evolves ?s (set_state i ?st ?s)"
    by (rule evolves_set_state [OF exec_okD(1) [OF ok] _ Some, of _ ?st]) simp_all
  then show ?thesis
    using Some exec_okD(3) [OF ok] evolvesD(1) by (simp add: drop_prompt_def set_request_state_def Let_def releases_def exec_ok_def)
qed

lemma slots_agree_release:
  assumes "slots_agree (Some p) held"
  shows "slots_agree (Some (snd (pool_release i p))) (\<lambda>j. if j = i then None else held j)"
  using pool_release_cases [of p i] assms by (auto simp: slots_agree_def dict_lookup fun_eq_iff)

lemma release_beam_releases:
  assumes ok: "exec_ok x"
  shows "releases x (release_beam_kv_pool_lease i x)"
    and "map_of (states (ex_scheduler x)) i \<noteq> None \<Longrightarrow> rt_beam_lease (runtime_of i (release_beam_kv_pool_lease i x)) = None"
proof -
  have "releases x (release_beam_kv_pool_lease i x)
    \<and> (map_of (states (ex_scheduler x)) i \<noteq> None \<longrightarrow> rt_beam_lease (runtime_of i (release_beam_kv_pool_lease i x)) = None)"
  proof (cases "map_of (states (ex_scheduler x)) i = None \<or> rt_beam_lease (runtime_of i x) = None")
    case True
    then show ?thesis using releases_refl [OF ok] by (auto simp: release_beam_kv_pool_lease_def)
  next
    case False
    have ag: "slots_agree (ex_beam_pool x) (\<lambda>i. rt_beam_lease (runtime_of i x))" using exec_okD(3) [OF ok] by (simp add: pools_ok_def)
    then obtain p where p: "ex_beam_pool x = Some p" using False by (cases "ex_beam_pool x") (auto simp: slots_agree_def)
    let ?x' = "release_beam_kv_pool_lease i x"
    have x': "?x' = set_runtime i ((runtime_of i x)\<lparr>rt_beam_lease := None\<rparr>) (x\<lparr>ex_beam_pool := Some (snd (pool_release i p))\<rparr>)"
      using False p by (auto simp: release_beam_kv_pool_lease_def)
    have b: "(\<lambda>j. rt_beam_lease (runtime_of j ?x')) = (\<lambda>j. if j = i then None else rt_beam_lease (runtime_of j x))"
      and c: "(\<lambda>j. rt_context_lease (runtime_of j ?x')) = (\<lambda>j. rt_context_lease (runtime_of j x))"
      by (auto simp: x' fun_eq_iff)
    have "pools_ok ?x'"
      using slots_agree_release [of p "\<lambda>j. rt_beam_lease (runtime_of j x)" i] ag p exec_okD(3) [OF ok]
      unfolding pools_ok_def b c by (simp add: x')
    then show ?thesis
      using ok b c by (auto simp: releases_def exec_ok_def x' evolves_refl)
  qed
  then show "releases x (release_beam_kv_pool_lease i x)"
    "map_of (states (ex_scheduler x)) i \<noteq> None \<Longrightarrow> rt_beam_lease (runtime_of i (release_beam_kv_pool_lease i x)) = None" by blast+
qed


lemma release_context_releases:
  assumes ok: "exec_ok x" and fin: "finished_in (ex_scheduler x) i"
  shows "releases x (release_context_kv_pool_lease i x)"
    and "rt_context_lease (runtime_of i (release_context_kv_pool_lease i x)) = None"
proof -
  obtain st where st: "map_of (states (ex_scheduler x)) i = Some st" "st_stage st = Finished" using fin by (auto simp: finished_in_def)
  have "releases x (release_context_kv_pool_lease i x) \<and> rt_context_lease (runtime_of i (release_context_kv_pool_lease i x)) = None"
  proof (cases "rt_context_lease (runtime_of i x) = None")
    case True
    then show ?thesis using releases_refl [OF ok] by (auto simp: release_context_kv_pool_lease_def)
  next
    case False
    have ag: "slots_agree (ex_context_pool x) (\<lambda>i. rt_context_lease (runtime_of i x))" using exec_okD(3) [OF ok] by (simp add: pools_ok_def)
    then obtain p where p: "ex_context_pool x = Some p" using False by (cases "ex_context_pool x") (auto simp: slots_agree_def)
    let ?y = "set_runtime i ((runtime_of i x)\<lparr>rt_context_lease := None\<rparr>) (x\<lparr>ex_context_pool := Some (snd (pool_release i p))\<rparr>)"
    have x': "release_context_kv_pool_lease i x = drop_prompt i ?y"
      using False p st(1) by (auto simp: release_context_kv_pool_lease_def)
    have b: "(\<lambda>j. rt_beam_lease (runtime_of j ?y)) = (\<lambda>j. rt_beam_lease (runtime_of j x))"
      and c: "(\<lambda>j. rt_context_lease (runtime_of j ?y)) = (\<lambda>j. if j = i then None else rt_context_lease (runtime_of j x))"
      by (auto simp: fun_eq_iff)
    have "pools_ok ?y"
      using slots_agree_release [of p "\<lambda>j. rt_context_lease (runtime_of j x)" i] ag p exec_okD(3) [OF ok]
      unfolding pools_ok_def b c by simp
    then have y: "releases x ?y" using ok b c by (auto simp: releases_def exec_ok_def evolves_refl)
    have d: "releases ?y (drop_prompt i ?y)" by (rule drop_prompt_releases [OF releasesD(1) [OF y]]) (use st in simp)
    have "rt_context_lease (runtime_of i ?y) = None" by simp
    from releasesD(4) [OF d this] show ?thesis unfolding x' using releases_trans [OF y d] by blast
  qed
  then show "releases x (release_context_kv_pool_lease i x)" "rt_context_lease (runtime_of i (release_context_kv_pool_lease i x)) = None" by blast+
qed

lemma clear_releases:
  assumes ok: "exec_ok x" and fin: "finished_in (ex_scheduler x) i" and none: "rt_beam_lease (runtime_of i x) = None"
  shows "releases x (clear_finished_runtime_state i x)"
proof -
  obtain st where st: "map_of (states (ex_scheduler x)) i = Some st" "st_stage st = Finished" using fin by (auto simp: finished_in_def)
  let ?y = "set_runtime i (new_runtime\<lparr>rt_context_lease := rt_context_lease (runtime_of i x)\<rparr>) x"
  have "outer ?y = outer x" by (rule outer_set_runtime) (use none in \<open>simp_all add: new_runtime_def\<close>)
  then have "exec_ok ?y" "\<And>j. rt_beam_lease (runtime_of j ?y) = rt_beam_lease (runtime_of j x)"
    "\<And>j. rt_context_lease (runtime_of j ?y) = rt_context_lease (runtime_of j x)"
    using ok exec_ok_outer [of ?y x] outerD(4,5) [of ?y x] by blast+
  then have y: "releases x ?y" using exec_okD(1) [OF ok] by (simp add: releases_def evolves_refl)
  have "releases ?y (drop_prompt i ?y)" by (rule drop_prompt_releases [OF releasesD(1) [OF y]]) (use st in simp)
  then show ?thesis using st releases_trans [OF y] by (simp add: clear_finished_runtime_state_def)
qed

lemma release_request_releases:
  assumes ok: "exec_ok x" and fin: "finished_in (ex_scheduler x) i"
  shows "releases x (release_request i x)" and "rt_beam_lease (runtime_of i (release_request i x)) = None"
    and "rt_context_lease (runtime_of i (release_request i x)) = None"
proof -
  let ?a = "attach_response i x"
  let ?b = "release_beam_kv_pool_lease i ?a"
  let ?c = "release_context_kv_pool_lease i ?b"
  note a = attach_releases [OF ok, of i]
  have fa: "finished_in (ex_scheduler ?a) i" by (rule releasesD(2) [OF a fin])
  then have "map_of (states (ex_scheduler ?a)) i \<noteq> None" by (auto simp: finished_in_def)
  note b = release_beam_releases(1) [OF releasesD(1) [OF a], of i] release_beam_releases(2) [OF releasesD(1) [OF a] this]
  have fb: "finished_in (ex_scheduler ?b) i" by (rule releasesD(2) [OF b(1) fa])
  note c = release_context_releases [OF releasesD(1) [OF b(1)] fb]
  have fc: "finished_in (ex_scheduler ?c) i" by (rule releasesD(2) [OF c(1) fb])
  have bc: "rt_beam_lease (runtime_of i ?c) = None" by (rule releasesD(3) [OF c(1) b(2)])
  note d = clear_releases [OF releasesD(1) [OF c(1)] fc bc]
  show "releases x (release_request i x)"
    unfolding release_request_def by (intro releases_trans [OF releases_trans [OF releases_trans [OF a b(1)] c(1)]] d)
  show "rt_beam_lease (runtime_of i (release_request i x)) = None" "rt_context_lease (runtime_of i (release_request i x)) = None"
    unfolding release_request_def by (rule releasesD(3) [OF d bc], rule releasesD(4) [OF d c(2)])
qed

text \<open>\<open>_attach_execution_metadata\<close> releases all it is told of, and nothing is taken.\<close>

lemma fold_release_releases:
  assumes "exec_ok x" and "\<forall>i \<in> set ids. finished_in (ex_scheduler x) i"
  shows "releases x (fold release_request ids x)
    \<and> (\<forall>i \<in> set ids. rt_beam_lease (runtime_of i (fold release_request ids x)) = None
        \<and> rt_context_lease (runtime_of i (fold release_request ids x)) = None)"
  using assms
proof (induction ids arbitrary: x)
  case Nil
  then show ?case by (simp add: releases_refl)
next
  case (Cons i ids)
  have fin: "finished_in (ex_scheduler x) i" using Cons.prems(2) by simp
  note one = release_request_releases [OF Cons.prems(1) fin]
  have "\<forall>j \<in> set ids. finished_in (ex_scheduler (release_request i x)) j" using Cons.prems(2) releasesD(2) [OF one(1)] by simp
  note rest = Cons.IH [OF releasesD(1) [OF one(1)] this]
  then show ?case using releases_trans [OF one(1)] releasesD(3,4) [of "release_request i x" _ i] one(2,3) by auto
qed

lemma attach_metadata_releases:
  assumes "exec_ok x" and "\<forall>i \<in> set ids. finished_in (ex_scheduler x) i"
  shows "releases x (attach_execution_metadata ids x)"
    and "i \<in> set ids \<Longrightarrow> rt_beam_lease (runtime_of i (attach_execution_metadata ids x)) = None
        \<and> rt_context_lease (runtime_of i (attach_execution_metadata ids x)) = None"
proof -
  let ?y = "fold release_request ids x"
  note f = fold_release_releases [OF assms]
  have o: "outer (attach_execution_metadata ids x) = outer ?y"
    by (simp add: attach_execution_metadata_def drop_batched_prefill_cache_for_def)
  note O = outerD [OF o] exec_ok_outer [OF o]
  show "releases x (attach_execution_metadata ids x)" using f O by (simp add: releases_def)
  show "i \<in> set ids \<Longrightarrow> rt_beam_lease (runtime_of i (attach_execution_metadata ids x)) = None
        \<and> rt_context_lease (runtime_of i (attach_execution_metadata ids x)) = None"
    using f O by simp
qed


section \<open>A tick of the executor\<close>

definition runs :: "'v executor \<Rightarrow> 'v executor \<Rightarrow> bool" where
  "runs x x' \<longleftrightarrow> exec_ok x' \<and> evolves (ex_scheduler x) (ex_scheduler x')"

lemma runs_refl: "exec_ok x \<Longrightarrow> runs x x"
  by (simp add: runs_def evolves_refl exec_okD(1))

lemma runs_trans: "runs x y \<Longrightarrow> runs y z \<Longrightarrow> runs x z"
  unfolding runs_def by (metis evolves_trans)

lemma runsD: "runs x y \<Longrightarrow> exec_ok y" "runs x y \<Longrightarrow> finished_in (ex_scheduler x) i \<Longrightarrow> finished_in (ex_scheduler y) i"
  by (auto simp: runs_def evolves_def)

lemma releases_runs: "releases x y \<Longrightarrow> runs x y"
  by (simp add: releases_def runs_def)

lemma warms_runs: "warms x y \<Longrightarrow> runs x y"
  by (simp add: warms_def runs_def)

lemma on_scheduler_runs:
  assumes "exec_ok x" and "evolves (ex_scheduler x) (snd (f (ex_scheduler x)))"
  shows "runs x (snd (on_scheduler f x))"
  using assms evolvesD(1) holdings_pools [OF holdings_scheduler(2), of f x] by (auto simp: runs_def exec_ok_def)

definition reports :: "'v executor \<Rightarrow> ('v, GRContinuousTickResult) exec_result \<Rightarrow> bool" where
  "reports x m \<longleftrightarrow> runs x (snd m)
     \<and> (\<forall>res. fst m = Inr res \<longrightarrow> (\<forall>i \<in> set (finished_request_ids res). finished_in (ex_scheduler (snd m)) i))"

lemma finish_tick_reports:
  assumes "exec_ok x" and "\<forall>i \<in> set fin. finished_in (ex_scheduler x) i"
  shows "reports x (on_scheduler (finish_tick p bs fin) x)"
proof -
  let ?s = "ex_scheduler x"
  have ev: "evolves ?s (snd (finish_tick p bs fin ?s))"
    by (rule evolves_bookkeeping [OF exec_okD(1) [OF assms(1)]])
      (use exec_okD(2) [OF assms(1)] in \<open>simp_all add: finish_tick_def Let_def sched_inv_def\<close>)
  then show ?thesis
    using on_scheduler_runs [of x "finish_tick p bs fin", OF assms(1) ev] assms(2) evolvesD(3) [OF ev]
    by (auto simp: reports_def finish_tick_def Let_def on_scheduler_def)
qed

lemma reports_after: "runs x y \<Longrightarrow> reports y m \<Longrightarrow> reports x m"
  by (auto simp: reports_def intro: runs_trans)

lemma fail_ids_reports:
  assumes ok: "exec_ok x" and fin: "\<forall>i \<in> set timed_out. finished_in (ex_scheduler x) i"
  shows "reports x (bind_st (on_scheduler (fail_request_ids ids reason err) x)
     (\<lambda>failed x1. on_scheduler (finish_tick p bs (timed_out @ failed)) x1))"
proof -
  obtain failed s' where f: "fail_request_ids ids reason err (ex_scheduler x) = (Inr failed, s')"
    "evolves (ex_scheduler x) s'" "\<forall>i \<in> set failed. finished_in s' i"
    using fail_request_ids_evolves [OF exec_okD(1) [OF ok]] by blast
  let ?y = "x\<lparr>ex_scheduler := s'\<rparr>"
  have o: "on_scheduler (fail_request_ids ids reason err) x = (Inr failed, ?y)" using f(1) by (simp add: on_scheduler_def)
  have y: "runs x ?y" using on_scheduler_runs [OF ok, of "fail_request_ids ids reason err"] f(1,2) o by simp
  have "\<forall>i \<in> set (timed_out @ failed). finished_in (ex_scheduler ?y) i" using fin f(3) evolvesD(3) [OF f(2)] by auto
  from reports_after [OF y finish_tick_reports [OF runsD(1) [OF y] this]] show ?thesis by (simp add: o)
qed

lemma run_decode_runs:
  assumes T: "topk_bounded (eng_torch E)" and ok: "exec_ok x" and p: "planned (ex_scheduler x) bs"
  shows "runs x (snd (run_decode E bs x))"
    and "run_decode E bs x = (Inr fins, y) \<Longrightarrow> \<forall>i \<in> set fins. finished_in (ex_scheduler y) i"
proof -
  have s: "settled (set (concat (map batch_request_ids bs))) (ex_scheduler x) (run_decode E bs x)"
    unfolding run_decode_def by (rule run_decode_batches_settled [OF T exec_okD(1) [OF ok] p])
  have h: "pools_ok (snd (run_decode E bs x)) = pools_ok x"
    unfolding run_decode_def by (rule holdings_pools [OF holdings_run_decode_batches])
  show "runs x (snd (run_decode E bs x))"
    using s h exec_okD(3) [OF ok] advancesD(1,2) by (auto simp: settled_def runs_def exec_ok_def)
  show "run_decode E bs x = (Inr fins, y) \<Longrightarrow> \<forall>i \<in> set fins. finished_in (ex_scheduler y) i"
    using s by (simp add: settled_def)
qed

lemma decode_phase_reports:
  assumes T: "topk_bounded (eng_torch E)" and ok: "exec_ok x" and fin: "\<forall>i \<in> set timed_out. finished_in (ex_scheduler x) i"
  shows "reports x (decode_phase E timed_out prefill x)"
proof -
  obtain bs s1 where p: "plan_decode_batches (ex_scheduler x) = (Inr bs, s1)" using plan_spec [OF exec_okD(2) [OF ok]] by blast
  let ?x1 = "x\<lparr>ex_scheduler := s1\<rparr>"
  have o: "on_scheduler plan_decode_batches x = (Inr bs, ?x1)" using p by (simp add: on_scheduler_def)
  have x1: "runs x ?x1"
    using on_scheduler_runs [OF ok, of plan_decode_batches] plan_evolves [OF exec_okD(1) [OF ok] p] p o by simp
  have "planned s1 bs" using plan_planned [OF exec_okD(2) [OF ok] p] by blast
  then have pl: "planned (ex_scheduler ?x1) bs" by simp
  obtain r x2 where d: "run_decode E bs ?x1 = (r, x2)" by fastforce
  note dr = run_decode_runs [OF T runsD(1) [OF x1] pl, unfolded d snd_conv]
  have x2: "runs x x2" by (rule runs_trans [OF x1 dr(1)])
  have fin2: "\<forall>i \<in> set timed_out. finished_in (ex_scheduler x2) i" using fin runsD(2) [OF x2] by blast
  show ?thesis
  proof (cases r)
    case (Inl e)
    then show ?thesis
      using reports_after [OF x2 fail_ids_reports [OF runsD(1) [OF x2] fin2]] by (simp add: decode_phase_def o d)
  next
    case (Inr fins)
    have "\<forall>i \<in> set (timed_out @ fins). finished_in (ex_scheduler x2) i" using fin2 dr(2) Inr by auto
    from reports_after [OF x2 finish_tick_reports [OF runsD(1) [OF x2] this]] show ?thesis
      using Inr by (simp add: decode_phase_def o d)
  qed
qed

lemma scheduler_tick_reports:
  assumes T: "topk_bounded (eng_torch E)" and ok: "exec_ok x"
  shows "reports x (scheduler_tick E x)"
proof -
  let ?s = "ex_scheduler x"
  let ?late = "\<lambda>s. fail_timed_out_requests (s\<lparr>tick_count := tick_count s + 1\<rparr>)"
  have later: "evolves ?s (?s\<lparr>tick_count := tick_count ?s + 1\<rparr>)"
    by (rule evolves_bookkeeping [OF exec_okD(1) [OF ok] sched_inv_later [OF exec_okD(2) [OF ok]]]) simp_all
  obtain ids s1 keep where t: "?late ?s = (Inr ids, s1)"
    using timeouts_spec [OF sched_inv_later [OF exec_okD(2) [OF ok]]] by blast
  have ev1: "evolves ?s s1" "\<forall>i \<in> set ids. finished_in s1 i"
    using timeout_loop_evolves [OF evolvesD(1) [OF later] t [unfolded fail_timed_out_requests_def]] evolves_trans [OF later] by auto
  let ?x1 = "x\<lparr>ex_scheduler := s1\<rparr>"
  have o1: "on_scheduler ?late x = (Inr ids, ?x1)" using t by (simp add: on_scheduler_def)
  have x1: "runs x ?x1" using on_scheduler_runs [OF ok, of ?late] ev1(1) t o1 by simp
  obtain r s2 where a: "admit_prefill_batch s1 = (r, s2)" by fastforce
  let ?x2 = "x\<lparr>ex_scheduler := s2\<rparr>"
  have o2: "on_scheduler admit_prefill_batch ?x1 = (r, ?x2)" using a by (simp add: on_scheduler_def)
  have ev2: "evolves s1 s2" by (rule admit_evolves [OF evolvesD(1) [OF ev1(1)] a])
  have x2': "runs ?x1 ?x2" using on_scheduler_runs [OF runsD(1) [OF x1], of admit_prefill_batch] ev2 a o2 by simp
  note x2 = runs_trans [OF x1 x2']
  show ?thesis
  proof (cases r)
    case (Inl e)
    then show ?thesis using x2 by (simp add: scheduler_tick_def o1 o2 reports_def)
  next
    case (Inr prefill)
    have dec: "decoding s2 = decoding s1 @ prefill"
      using admit_prefill_batch_spec [OF evolvesD(2) [OF ev1(1)]] a Inr by auto
    moreover have "distinct (decoding s2)" by (rule core_invD(4) [OF evolvesD(2) [OF ev2, unfolded sched_inv_def]])
    ultimately have sub: "set prefill \<subseteq> set (decoding (ex_scheduler ?x2))" and d: "distinct prefill" by simp_all
    obtain q x3 where pr: "run_prefill E prefill ?x2 = (q, x3)" by fastforce
    have w: "runs ?x2 x3" using warms_runs [OF run_prefill_warms [OF T runsD(1) [OF x2] d sub]] pr by simp
    note x3 = runs_trans [OF x2 w]
    have fin3: "\<forall>i \<in> set ids. finished_in (ex_scheduler x3) i" using ev1(2) runsD(2) [OF runs_trans [OF x2' w]] by simp
    show ?thesis
    proof (cases q)
      case (Inl e)
      then show ?thesis
        using reports_after [OF x3 fail_ids_reports [OF runsD(1) [OF x3] fin3]] \<open>r = Inr prefill\<close>
        by (simp add: scheduler_tick_def o1 o2 pr)
    next
      case (Inr u)
      then show ?thesis
        using reports_after [OF x3 decode_phase_reports [OF T runsD(1) [OF x3] fin3]] \<open>r = Inr prefill\<close>
        by (simp add: scheduler_tick_def o1 o2 pr)
    qed
  qed
qed


section \<open>The operations of the executor\<close>

lemma fail_live:
  assumes ok: "sched_ok s" and st: "map_of (states s) i = Some st" "st_stage st \<noteq> Finished" and "reason \<noteq> []"
  shows "\<exists>resp s'. fail i reason err s = (Inr resp, s') \<and> resp_request_id resp = i \<and> evolves s s' \<and> finished_in s' i
    \<and> (\<forall>j. j \<noteq> i \<longrightarrow> map_of (states s') j = map_of (states s) j)"
proof -
  have none: "map_of (finished s) i = None"
    using sched_okD(2) [OF ok, of i] st by (cases "map_of (finished s) i") (auto simp: finished_in_def)
  obtain resp s' where f: "fail_state reason err st s = (Inr resp, s')" "resp_request_id resp = i" "evolves s s'" "finished_in s' i"
    using fail_state_evolves [OF ok st(1)] by blast
  moreover have "fail i reason err s = fail_state reason err st s" using assms(4) none st(1) by (simp add: fail_def)
  moreover have "map_of (states s') j = map_of (states s) j" if "j \<noteq> i" for j
    using fail_state_core [OF sched_okD(1) [OF ok] st(1), of reason err] f(1) that by (auto simp: dict_lookup)
  ultimately show ?thesis by auto
qed

lemma fail_each_evolves:
  assumes "sched_ok s" and "distinct ids" and "\<forall>i \<in> set ids. \<exists>st. map_of (states s) i = Some st \<and> st_stage st \<noteq> Finished" and "reason \<noteq> []"
  shows "\<exists>s'. fail_each ids reason err s = (Inr ids, s') \<and> evolves s s' \<and> (\<forall>i \<in> set ids. finished_in s' i)
     \<and> (\<forall>j. j \<notin> set ids \<longrightarrow> map_of (states s') j = map_of (states s) j)"
  using assms
proof (induction ids arbitrary: s)
  case Nil
  then show ?case by (simp add: evolves_refl)
next
  case (Cons i ids)
  obtain st where st: "map_of (states s) i = Some st" "st_stage st \<noteq> Finished" using Cons.prems(3) by auto
  obtain resp s1 where f: "fail i reason err s = (Inr resp, s1)" "resp_request_id resp = i" "evolves s s1" "finished_in s1 i"
    "\<forall>j. j \<noteq> i \<longrightarrow> map_of (states s1) j = map_of (states s) j"
    using fail_live [OF Cons.prems(1) st Cons.prems(4)] by blast
  have "\<forall>j \<in> set ids. \<exists>st. map_of (states s1) j = Some st \<and> st_stage st \<noteq> Finished" using Cons.prems(2,3) f(5) by auto
  from Cons.IH [OF evolvesD(1) [OF f(3)] _ this Cons.prems(4)] Cons.prems(2)
  obtain s2 where r: "fail_each ids reason err s1 = (Inr ids, s2)" "evolves s1 s2" "\<forall>i \<in> set ids. finished_in s2 i"
    "\<forall>j. j \<notin> set ids \<longrightarrow> map_of (states s2) j = map_of (states s1) j" by auto
  then show ?case using f evolves_trans [OF f(3) r(2)] evolvesD(3) [OF r(2) f(4)] by simp
qed

lemma fail_unfinished_evolves:
  assumes ok: "sched_ok s" and "reason \<noteq> []"
  shows "\<exists>ids s'. fail_unfinished reason err s = (Inr ids, s') \<and> evolves s s' \<and> (\<forall>i \<in> set ids. finished_in s' i)"
proof -
  note inv = sched_okD(1) [OF ok, unfolded sched_inv_def]
  let ?w = "queue_request_ids (waiting_prefill s)"
  have w: "\<forall>i \<in> set ?w. \<exists>st. map_of (states s) i = Some st \<and> st_stage st \<noteq> Finished"
    using core_invD(10) [OF inv] by (fastforce simp: queue_request_ids_def queued_def)
  have "distinct ?w" using core_invD(6) [OF inv] by (simp add: queue_request_ids_def)
  from fail_each_evolves [OF ok this w assms(2)] obtain s1 where a: "fail_each ?w reason err s = (Inr ?w, s1)" "evolves s s1" "\<forall>i \<in> set ?w. finished_in s1 i"
    by blast
  note inv1 = evolvesD(2) [OF a(2), unfolded sched_inv_def]
  have d: "\<forall>i \<in> set (decoding s1). \<exists>st. map_of (states s1) i = Some st \<and> st_stage st \<noteq> Finished"
    using core_inv_decoding [OF inv1] by fastforce
  from fail_each_evolves [OF evolvesD(1) [OF a(2)] core_invD(4) [OF inv1] d assms(2)]
  obtain s2 where b: "fail_each (decoding s1) reason err s1 = (Inr (decoding s1), s2)" "evolves s1 s2" "\<forall>i \<in> set (decoding s1). finished_in s2 i" by blast
  have "fail_unfinished reason err s = (Inr (?w @ decoding s1), s2)" using a(1) b(1) by (simp add: fail_unfinished_def)
  then show ?thesis using evolves_trans [OF a(2) b(2)] a(3) b(3) evolvesD(3) [OF b(2)] by auto
qed

text \<open>An operation that reports which requests have left, and releases what these held.\<close>

definition frees :: "'v executor \<Rightarrow> string list \<Rightarrow> 'v executor \<Rightarrow> bool" where
  "frees x ids x' \<longleftrightarrow> runs x x' \<and> (\<forall>i \<in> set ids. finished_in (ex_scheduler x') i
     \<and> rt_beam_lease (runtime_of i x') = None \<and> rt_context_lease (runtime_of i x') = None)"

lemma attach_frees:
  assumes "runs x y" and "\<forall>i \<in> set ids. finished_in (ex_scheduler y) i"
  shows "frees x ids (attach_execution_metadata ids y)"
proof -
  note a = attach_metadata_releases [OF runsD(1) [OF assms(1)] assms(2)]
  show ?thesis using runs_trans [OF assms(1) releases_runs [OF a(1)]] releasesD(2) [OF a(1)] assms(2) a(2) by (simp add: frees_def)
qed

lemma executor_tick_frees:
  assumes T: "topk_bounded (eng_torch E)" and ok: "exec_ok x" and run: "executor_tick E x = (r, x')"
  shows "frees x (case r of Inl _ \<Rightarrow> [] | Inr res \<Rightarrow> finished_request_ids res) x'"
proof (cases "scheduler_tick E x")
  case (Pair q y)
  note rep = scheduler_tick_reports [OF T ok, unfolded Pair]
  show ?thesis
  proof (cases q)
    case (Inl e)
    then show ?thesis using run Pair rep by (auto simp: executor_tick_def reports_def frees_def)
  next
    case (Inr res)
    then have "r = Inr res" "x' = attach_execution_metadata (finished_request_ids res) y" using run Pair by (simp_all add: executor_tick_def)
    then show ?thesis using attach_frees [of x y "finished_request_ids res"] rep Inr by (simp add: reports_def)
  qed
qed

lemma leaving_frees:
  assumes ok: "exec_ok x"
    and op: "\<And>r s'. f (ex_scheduler x) = (r, s') \<Longrightarrow> evolves (ex_scheduler x) s' \<and> (\<forall>resp. r = Inr resp \<longrightarrow> finished_in s' rid)"
    and run: "bind_st (on_scheduler f x) (\<lambda>resp x1. (Inr resp, attach_execution_metadata [rid] x1)) = (r, x')"
  shows "frees x (case r of Inl _ \<Rightarrow> [] | Inr _ \<Rightarrow> [rid]) x'"
proof -
  obtain q s' where c: "f (ex_scheduler x) = (q, s')" by fastforce
  have o: "on_scheduler f x = (q, x\<lparr>ex_scheduler := s'\<rparr>)" using c by (simp add: on_scheduler_def)
  note ev = op [OF c]
  have y: "runs x (x\<lparr>ex_scheduler := s'\<rparr>)" using on_scheduler_runs [OF ok, of f] ev c o by simp
  show ?thesis
  proof (cases q)
    case (Inl e)
    then show ?thesis using run o y by (auto simp: frees_def)
  next
    case (Inr resp)
    then have "r = Inr resp" "x' = attach_execution_metadata [rid] (x\<lparr>ex_scheduler := s'\<rparr>)" using run o by simp_all
    then show ?thesis using attach_frees [OF y, of "[rid]"] ev Inr by simp
  qed
qed

lemma executor_cancel_frees:
  "exec_ok x \<Longrightarrow> executor_cancel rid reason x = (r, x') \<Longrightarrow> frees x (case r of Inl _ \<Rightarrow> [] | Inr _ \<Rightarrow> [rid]) x'"
  by (rule leaving_frees [OF _ cancel_evolves [OF exec_okD(1)]]) (simp_all add: executor_cancel_def)

lemma executor_fail_frees:
  "exec_ok x \<Longrightarrow> executor_fail rid reason err x = (r, x') \<Longrightarrow> frees x (case r of Inl _ \<Rightarrow> [] | Inr _ \<Rightarrow> [rid]) x'"
  by (rule leaving_frees [OF _ fail_evolves [OF exec_okD(1)]]) (simp_all add: executor_fail_def)

lemma executor_timeout_frees:
  assumes ok: "exec_ok x" and "reason \<noteq> []"
  shows "runs x (snd (bind_st (on_scheduler (fail_unfinished reason err) x) (\<lambda>ids x1. (Inr (), attach_execution_metadata ids x1))))"
proof -
  obtain ids s' where f: "fail_unfinished reason err (ex_scheduler x) = (Inr ids, s')" "evolves (ex_scheduler x) s'" "\<forall>i \<in> set ids. finished_in s' i"
    using fail_unfinished_evolves [OF exec_okD(1) [OF ok] assms(2)] by blast
  have o: "on_scheduler (fail_unfinished reason err) x = (Inr ids, x\<lparr>ex_scheduler := s'\<rparr>)" using f(1) by (simp add: on_scheduler_def)
  have y: "runs x (x\<lparr>ex_scheduler := s'\<rparr>)" using on_scheduler_runs [OF ok, of "fail_unfinished reason err"] f o by simp
  show ?thesis using attach_frees [OF y, of ids] f(3) by (simp add: o frees_def)
qed

section \<open>Reachable executors\<close>

definition fresh_pool :: "('l GRBeamKVPoolLease_scheme) dense_pool option \<Rightarrow> bool" where
  "fresh_pool pool \<longleftrightarrow> (case pool of None \<Rightarrow> True | Some p \<Rightarrow> pool_inv p \<and> pool_leases p = [])"

inductive executor_reachable :: "'v serving_engine \<Rightarrow> 'v executor \<Rightarrow> bool" for E where
  construct: "mk_batching_policy a b c d e f = Inr pol \<Longrightarrow> mk_scheduler pol alloc n = Inr (ex_scheduler x) \<Longrightarrow>
     (\<forall>al. alloc = Some al \<longrightarrow> kv_inv al \<and> kv_leases al = []) \<Longrightarrow>
     ex_runtime x = [] \<Longrightarrow> fresh_pool (ex_beam_pool x) \<Longrightarrow> fresh_pool (ex_context_pool x) \<Longrightarrow> executor_reachable E x"
| submit: "executor_reachable E x \<Longrightarrow> constructed_policy r \<Longrightarrow> executor_reachable E (snd (executor_submit_request r x))"
| cancel: "executor_reachable E x \<Longrightarrow> executor_reachable E (snd (executor_cancel rid reason x))"
| fail: "executor_reachable E x \<Longrightarrow> executor_reachable E (snd (executor_fail rid reason err x))"
| tick: "executor_reachable E x \<Longrightarrow> executor_reachable E (snd (executor_tick E x))"
| run_out: "executor_reachable E x \<Longrightarrow> executor_reachable E (snd (bind_st (on_scheduler (fail_unfinished ''timeout'' None) x)
     (\<lambda>ids x1. (Inr (), attach_execution_metadata ids x1))))"

lemma fresh_scheduler: "mk_scheduler pol alloc n = Inr s \<Longrightarrow> finished s = []"
  by (auto simp: mk_scheduler_def split: if_splits option.splits sum.splits)

lemma executor_ok:
  assumes "executor_reachable E x" and T: "topk_bounded (eng_torch E)"
  shows "exec_ok x"
  using assms(1)
proof (induction rule: executor_reachable.induct)
  case (construct a b c d e f pol alloc n x)
  have "sched_inv (ex_scheduler x)" by (rule construct_inv [OF construct(1-3)])
  moreover have "finished (ex_scheduler x) = []" by (rule fresh_scheduler [OF construct(2)])
  moreover have "runtime_of i x = new_runtime" for i using construct(4) by (simp add: runtime_of_def)
  then have "pools_ok x" using construct(5,6) by (auto simp: pools_ok_def slots_agree_def fresh_pool_def new_runtime_def split: option.splits)
  ultimately show ?case by (simp add: exec_ok_def sched_ok_def)
next
  case (submit x r)
  have "runs x (snd (on_scheduler (submit r) x))"
    by (rule on_scheduler_runs [OF submit.IH]) (rule submit_evolves [OF exec_okD(1) [OF submit.IH] submit.hyps(2)])
  then show ?case by (simp add: executor_submit_request_def runs_def)
next
  case (cancel x rid reason)
  then show ?case using executor_cancel_frees [OF cancel.IH, of rid reason] by (cases "executor_cancel rid reason x") (auto simp: frees_def runs_def)
next
  case (fail x rid reason err)
  then show ?case using executor_fail_frees [OF fail.IH, of rid reason err] by (cases "executor_fail rid reason err x") (auto simp: frees_def runs_def)
next
  case (tick x)
  then show ?case using executor_tick_frees [OF T tick.IH] by (cases "executor_tick E x") (auto simp: frees_def runs_def)
next
  case (run_out x)
  then show ?case using executor_timeout_frees [OF run_out.IH, of "''timeout''" None] by (simp add: runs_def)
qed

end
