(* ===== verification/GR_Executor_Props.thy ===== *)
theory GR_Executor_Props
  imports GR_Executor_Inv
begin

text \<open>
  What holds of every executor that can be reached, and the one thing that does not: a tick in which one
  decode batch finishes a request and a later batch raises does not report the finished request, so nothing
  releases its slots.
\<close>

section \<open>A small engine\<close>

definition ex_exec_request :: "string \<Rightarrow> nat \<Rightarrow> int \<Rightarrow> GRServingRequest" where
  "ex_exec_request rid n steps = \<lparr>request_id = rid, req_input_ids = IdsTensor [1, n], req_max_decode_steps = steps,
     req_beam_width = 1, req_metadata = [], item_mask_provider = None, beam_width_policy = None, stop_token_ids = [],
     logits_processor_callable = []\<rparr>"

definition ex_exec_config :: executor_config where
  "ex_exec_config = \<lparr>cfg_max_beam_width = 1, cfg_score_mode = ''raw_logits'', cfg_return_beam_details = False, cfg_num_q_heads = 1,
     cfg_device = NoDevice, cfg_on_cuda = False, cfg_env = [], cfg_processors = (\<lambda>_. []), cfg_processor_type = [], cfg_adjacent = (\<lambda>_. False)\<rparr>"

definition ex_exec_prefix :: prefill_config where
  "ex_exec_prefix = \<lparr>pc_enabled = False, pc_max_entries = 0, pc_max_tokens = None, pc_page_size = 1, pc_min_prefix_tokens = 1,
     pc_max_extend_tokens = None, pc_input_ids = (\<lambda>rid. IdsRows [if rid = ''a'' then [1] else [1, 0]]), pc_json_text = (\<lambda>_. [])\<rparr>"

text \<open>Both passes answer the same logits for every request; the decode of a request named in \<open>bad\<close> raises.\<close>

definition ex_exec_prefill :: "nat prefill_forward" where
  "ex_exec_prefill prompts window =
     (case prompts of
        IdsRows rows \<Rightarrow> Inr \<lparr>prefill_logits = \<lparr>tensor_shape = [length rows, 2], tensor_data = concat (map (\<lambda>_. [Fin 0, Fin 1]) rows)\<rparr>,
          prefill_context_kv = \<lparr>ctx_shape = [1, int (length rows), int (length (hd rows)), 1, 2], ctx_key = (\<lambda>_ _. 0), ctx_value = (\<lambda>_ _. 0)\<rparr>\<rparr>
      | _ \<Rightarrow> Inl (RuntimeError ''prompts''))"

definition ex_exec_decode :: "string list \<Rightarrow> nat decode_forward" where
  "ex_exec_decode bad toks g step width idx D =
     (if gen_request_id g \<in> set (map (\<lambda>rid. ''continuous-decode:'' @ rid) bad) then (Inl (RuntimeError ''CUDA error''), gen_beam_kv g)
      else (Inr \<lparr>tensor_shape = [hd (tensor_shape toks), 1, 2],
              tensor_data = concat (map (\<lambda>_. [Fin 1, Fin 0]) [0..<hd (tensor_shape toks)])\<rparr>, gen_beam_kv g))"

definition ex_engine :: "string list \<Rightarrow> nat serving_engine" where
  "ex_engine bad = \<lparr>eng_decode = ex_exec_decode bad, eng_prefill = ex_exec_prefill, eng_extend = None, eng_join = (\<lambda>v _ _. v),
     eng_torch = ref_torch, eng_fill_key = (\<lambda>_ _ _ _. 0), eng_fill_value = (\<lambda>_ _ _ _. 0), eng_config = ex_exec_config,
     eng_prefix = ex_exec_prefix\<rparr>"

definition ex_beam_slots :: "GRBeamKVPoolLease dense_pool" where
  "ex_beam_slots = \<lparr>pool_shape = [1, 2, 2, 1, 1, 2], free_slots = [0, 1], pool_leases = [],
     max_used_slots = 0, allocation_count = 0, release_count = 0\<rparr>"

definition ex_fresh :: "nat executor" where
  "ex_fresh = ex_executor\<lparr>ex_scheduler := \<lparr>policy = \<lparr>max_prefill_batch_size = 2, max_decode_batch_size = 4, pol_max_running_requests = None,
       pol_max_context_tokens = None, pol_max_beam_slots = None, max_finished_requests = None\<rparr>, waiting_prefill = [],
       decoding = [], finished = [], states = [],
       kv_alloc = LeaseAllocator \<lparr>max_running_requests = None, max_context_tokens = None, max_beam_slots = None, leases = []\<rparr>,
       tick_count = 0, submitted_requests = 0, succeeded_requests = 0, cancelled_requests = 0, failed_requests = 0,
       timed_out_requests = 0, evicted_finished_requests = 0, admitted_prefill_batches = 0, planned_decode_batches = 0,
       tick_history = [], kv_events = [], max_kv_events = 8\<rparr>,
     ex_runtime := [], ex_beam_pool := Some ex_beam_slots\<rparr>"

definition ex_submitted :: "nat executor" where
  "ex_submitted = snd (executor_submit_request (ex_exec_request ''b'' 2 2) (snd (executor_submit_request (ex_exec_request ''a'' 1 1) ex_fresh)))"


lemma ex_fresh_reachable: "executor_reachable E ex_fresh"
proof (rule executor_reachable.construct [of 2 4 None None None None "policy (ex_scheduler ex_fresh)" None 8])
  show "mk_batching_policy 2 4 None None None None = Inr (policy (ex_scheduler ex_fresh))" by code_simp
  show "mk_scheduler (policy (ex_scheduler ex_fresh)) None 8 = Inr (ex_scheduler ex_fresh)" by code_simp
  have "mk_dense_pool 6 [1, 2, 2, 1, 1, 2] [1, 2, 2, 1, 1, 2] = Inr ex_beam_slots" by code_simp
  from mk_dense_pool_inv [OF this] have "pool_inv ex_beam_slots" by simp
  then show "fresh_pool (ex_beam_pool ex_fresh)" by (simp add: fresh_pool_def ex_fresh_def ex_beam_slots_def)
qed (simp_all add: ex_fresh_def ex_executor_def fresh_pool_def)

lemma ex_submitted_reachable: "executor_reachable E ex_submitted"
  unfolding ex_submitted_def
  by (intro executor_reachable.submit ex_fresh_reachable) (simp_all add: ex_exec_request_def constructed_policy_def)

lemma ref_topk_bounded: "topk_bounded ref_torch"
  by (simp add: topk_bounded_def ref_torch_def ref_topk_def)

section \<open>Properties\<close>

lemma slots_free_or_leased:
  assumes "pool_inv p"
  shows "distinct (free_slots p @ map (pool_slot \<circ> snd) (pool_leases p))
    \<and> set (free_slots p) \<union> set (map (pool_slot \<circ> snd) (pool_leases p)) = {0..<pool_capacity p}"
proof -
  have part: "pages_partition (Some (pool_capacity p)) (free_slots p) (\<lambda>l. [pool_slot l]) (pool_leases p)"
    using assms by (simp add: pool_inv_def)
  have "pages_of (\<lambda>l. [pool_slot l]) d = map (pool_slot \<circ> snd) d" for d :: "(string, 'a GRBeamKVPoolLease_scheme) dict"
    by (induction d) (auto simp: pages_of_def)
  then show ?thesis using pages_partition_distinct [OF part] by (simp add: initial_free_def)
qed

lemma no_missing_leases:
  assumes "pools_ok x"
  shows "missing_leases x = []"
proof (cases "ex_beam_pool x")
  case (Some p)
  then have held: "map_of (pool_leases p) = (\<lambda>i. rt_beam_lease (runtime_of i x))" using assms by (simp add: pools_ok_def slots_agree_def)
  have "i \<in> set (dict_keys (pool_leases p))" if "i \<in> set (active_pool_request_ids x)" for i
  proof -
    have "map_of (pool_leases p) i \<noteq> None" using that held by (simp add: active_pool_request_ids_def)
    then show ?thesis unfolding map_of_None_iff_keys by simp
  qed
  then have "filter (\<lambda>rid. rid \<notin> set (dict_keys (pool_leases p))) (active_pool_request_ids x) = []"
    unfolding filter_empty_conv by blast
  then show ?thesis using Some by (simp add: missing_leases_def)
qed (simp add: missing_leases_def)


definition ex_ticked :: "nat executor" where
  "ex_ticked = snd (executor_tick (ex_engine []) ex_submitted)"

lemma ex_ticked_reachable: "executor_reachable (ex_engine []) ex_ticked"
  unfolding ex_ticked_def by (rule executor_reachable.tick [OF ex_submitted_reachable])

lemma ex_engine_torch: "topk_bounded (eng_torch (ex_engine bad))"
  by (simp add: ex_engine_def ref_topk_bounded)



lemma ex_scheduler_tick:
  "case scheduler_tick (ex_engine [''b'']) ex_submitted of
     (Inl _, _) \<Rightarrow> False
   | (Inr res, x) \<Rightarrow> finished_request_ids res = [''b''] \<and> waiting_prefill (ex_scheduler x) = [] \<and> decoding (ex_scheduler x) = []
       \<and> map_option st_stage (map_of (states (ex_scheduler x)) ''a'') = Some Finished \<and> rt_beam_lease (runtime_of ''a'' x) \<noteq> None"
  by code_simp

definition ex_leaky :: "nat executor" where
  "ex_leaky = snd (executor_tick (ex_engine [''b'']) ex_submitted)"

lemma ex_leaky_tick:
  obtains res x where "executor_tick (ex_engine [''b'']) ex_submitted = (Inr res, ex_leaky)" and "finished_request_ids res = [''b'']"
    and "ex_leaky = attach_execution_metadata [''b''] x" and "waiting_prefill (ex_scheduler x) = []" and "decoding (ex_scheduler x) = []"
    and "finished_in (ex_scheduler x) ''a''" and "rt_beam_lease (runtime_of ''a'' x) \<noteq> None" and "runs ex_submitted x"
    and "finished_in (ex_scheduler x) ''b''"
proof -
  have rep: "reports ex_submitted (scheduler_tick (ex_engine [''b'']) ex_submitted)"
    by (rule scheduler_tick_reports [OF ex_engine_torch executor_ok [OF ex_submitted_reachable ex_engine_torch]])
  obtain res x where t: "scheduler_tick (ex_engine [''b'']) ex_submitted = (Inr res, x)"
    using ex_scheduler_tick by (auto split: prod.splits sum.splits)
  have f: "finished_request_ids res = [''b'']" "waiting_prefill (ex_scheduler x) = []" "decoding (ex_scheduler x) = []"
    "finished_in (ex_scheduler x) ''a''" "rt_beam_lease (runtime_of ''a'' x) \<noteq> None"
    using ex_scheduler_tick unfolding t by (auto simp: finished_in_def)
  have "ex_leaky = attach_execution_metadata [''b''] x" "executor_tick (ex_engine [''b'']) ex_submitted = (Inr res, ex_leaky)"
    using t f(1) by (simp_all add: ex_leaky_def executor_tick_def)
  moreover have "runs ex_submitted x" "finished_in (ex_scheduler x) ''b''" using rep t f(1) by (simp_all add: reports_def)
  ultimately show thesis using that f by blast
qed


text \<open>Attaching the metadata touches the runtimes of the named requests only, and not who is being decoded.\<close>

definition same_work :: "string \<Rightarrow> 'v executor \<Rightarrow> 'v executor \<Rightarrow> bool" where
  "same_work i x y \<longleftrightarrow> decoding (ex_scheduler y) = decoding (ex_scheduler x) \<and> waiting_prefill (ex_scheduler y) = waiting_prefill (ex_scheduler x)
     \<and> (\<forall>j. j \<noteq> i \<longrightarrow> rt_beam_lease (runtime_of j y) = rt_beam_lease (runtime_of j x))"

lemma same_work_trans: "same_work i x y \<Longrightarrow> same_work i y z \<Longrightarrow> same_work i x z"
  by (simp add: same_work_def)

lemma drop_prompt_work: "same_work i x (drop_prompt i x)"
  by (auto simp: same_work_def drop_prompt_def set_request_state_def Let_def split: option.split)

lemma release_request_work: "same_work i x (release_request i x)"
proof -
  have a: "same_work i x (attach_response i x)" for x :: "'a executor"
    by (auto simp: same_work_def attach_response_def Let_def split: option.split)
  have b: "same_work i x (release_beam_kv_pool_lease i x)" for x :: "'a executor"
    by (simp add: same_work_def release_beam_kv_pool_lease_def)
  have c: "same_work i x (release_context_kv_pool_lease i x)" for x :: "'a executor"
  proof (cases "map_of (states (ex_scheduler x)) i = None \<or> rt_context_lease (runtime_of i x) = None")
    case True
    then show ?thesis by (auto simp: same_work_def release_context_kv_pool_lease_def)
  next
    case False
    let ?y = "set_runtime i ((runtime_of i x)\<lparr>rt_context_lease := None\<rparr>) (x\<lparr>ex_context_pool := map_option (\<lambda>p. snd (pool_release i p)) (ex_context_pool x)\<rparr>)"
    have "same_work i x ?y" by (simp add: same_work_def)
    from same_work_trans [OF this drop_prompt_work] show ?thesis using False by (auto simp: release_context_kv_pool_lease_def)
  qed
  have d: "same_work i x (clear_finished_runtime_state i x)" for x :: "'a executor"
  proof -
    have "same_work i x (set_runtime i rt x)" for rt by (simp add: same_work_def)
    from same_work_trans [OF this drop_prompt_work] have "same_work i x (drop_prompt i (set_runtime i rt x))" for rt .
    moreover have "same_work i x x" by (simp add: same_work_def)
    ultimately show ?thesis by (simp add: clear_finished_runtime_state_def split: option.split)
  qed
  show ?thesis unfolding release_request_def by (intro same_work_trans [OF same_work_trans [OF same_work_trans [OF a b] c] d])
qed

lemma attach_frame:
  "decoding (ex_scheduler (attach_execution_metadata ids x)) = decoding (ex_scheduler x)"
  "waiting_prefill (ex_scheduler (attach_execution_metadata ids x)) = waiting_prefill (ex_scheduler x)"
  "j \<notin> set ids \<Longrightarrow> rt_beam_lease (runtime_of j (attach_execution_metadata ids x)) = rt_beam_lease (runtime_of j x)"
proof -
  have f: "decoding (ex_scheduler (fold release_request ids x)) = decoding (ex_scheduler x)"
    "waiting_prefill (ex_scheduler (fold release_request ids x)) = waiting_prefill (ex_scheduler x)"
    "j \<notin> set ids \<Longrightarrow> rt_beam_lease (runtime_of j (fold release_request ids x)) = rt_beam_lease (runtime_of j x)"
    by (induction ids arbitrary: x) (simp_all add: release_request_work [unfolded same_work_def])
  have o: "outer (attach_execution_metadata ids x) = outer (fold release_request ids x)"
    by (simp add: attach_execution_metadata_def drop_batched_prefill_cache_for_def)
  show "decoding (ex_scheduler (attach_execution_metadata ids x)) = decoding (ex_scheduler x)"
    "waiting_prefill (ex_scheduler (attach_execution_metadata ids x)) = waiting_prefill (ex_scheduler x)"
    "j \<notin> set ids \<Longrightarrow> rt_beam_lease (runtime_of j (attach_execution_metadata ids x)) = rt_beam_lease (runtime_of j x)"
    using f outerD [OF o] by simp_all
qed


end
