(* ===== verification/GR_Worker.thy ===== *)
theory GR_Worker
  imports GR_Api GR_Beam_Metadata
begin

text \<open>
  The serving worker, \<open>GRServingWorker\<close> of \<open>gr_serving/worker.py\<close>: clients append requests to a queue of
  pending submissions under a lock of its own, and a background thread, or a client that ticks by
  hand, hands them to the facade and runs a tick under the main lock. A method is a function from a worker
  to its result or exception and the worker it leaves. Threads are steps: the thread only runs while
  \<open>wk_alive\<close>, and the times it sleeps for are not modelled.
\<close>

section \<open>The worker\<close>

record worker_config =
  tick_interval_s :: rat
  idle_sleep_s :: rat
  error_sleep_s :: rat
  autostart :: bool
  decode_log_interval :: int

record worker =
  wk_facade :: serving_facade
  wk_config :: worker_config
  wk_pending :: "GRServingRequest list"
  wk_stop :: bool
  wk_alive :: bool
  wk_started_at :: "rat option"
  wk_last_error :: "string option"
  wk_ticks :: int
  wk_errors :: int
  wk_submitted :: int
  wk_fill_waits :: int
  wk_log :: "(string, pyval) dict list"

type_synonym 'a worker_result = "'a py_result \<times> worker"

text \<open>\<open>now\<close> is the reading of the clock.\<close>

definition worker_start :: "rat \<Rightarrow> worker \<Rightarrow> worker" where
  "worker_start now w = (if wk_alive w then w else w\<lparr>wk_stop := False, wk_started_at := Some now, wk_alive := True\<rparr>)"

definition mk_worker :: "rat \<Rightarrow> worker_config \<Rightarrow> serving_facade \<Rightarrow> worker py_result" where
  "mk_worker now cfg f =
     (if tick_interval_s cfg < 0 then Inl (ValueError ''tick_interval_s must be non-negative'')
      else if idle_sleep_s cfg < 0 then Inl (ValueError ''idle_sleep_s must be non-negative'')
      else if error_sleep_s cfg < 0 then Inl (ValueError ''error_sleep_s must be non-negative'')
      else if decode_log_interval cfg < 0 then Inl (ValueError ''decode_log_interval must be non-negative'')
      else
        let w = \<lparr>wk_facade = f, wk_config = cfg, wk_pending = [], wk_stop = False, wk_alive = False, wk_started_at = None,
                 wk_last_error = None, wk_ticks = 0, wk_errors = 0, wk_submitted = 0, wk_fill_waits = 0, wk_log = []\<rparr>
        in Inr (if autostart cfg then worker_start now w else w))"

text \<open>\<open>stop\<close> asks the thread to end; \<open>ended\<close> tells whether it has within the timeout of the join.\<close>

definition worker_stop :: "bool \<Rightarrow> worker \<Rightarrow> worker" where
  "worker_stop ended w = w\<lparr>wk_stop := True, wk_alive := wk_alive w \<and> \<not> ended\<rparr>"

definition on_facade :: "(serving_facade \<Rightarrow> 'a facade_result) \<Rightarrow> worker \<Rightarrow> 'a worker_result" where
  "on_facade f w = (case f (wk_facade w) of (r, fac) \<Rightarrow> (r, w\<lparr>wk_facade := fac\<rparr>))"

section \<open>Submissions\<close>

definition worker_submit :: "GRServingRequest \<Rightarrow> worker \<Rightarrow> string worker_result" where
  "worker_submit r w =
     bind_st (validate_request r, w) (\<lambda>_ w1.
       (Inr (request_id r), w1\<lparr>wk_pending := wk_pending w1 @ [r], wk_submitted := wk_submitted w1 + 1\<rparr>))"

definition worker_submit_many :: "GRServingRequest list \<Rightarrow> worker \<Rightarrow> string list worker_result" where
  "worker_submit_many rs w =
     bind_st (map_res validate_request rs, w) (\<lambda>_ w1.
       (Inr (map request_id rs), w1\<lparr>wk_pending := wk_pending w1 @ rs, wk_submitted := wk_submitted w1 + int (length rs)\<rparr>))"

definition pending_count :: "worker \<Rightarrow> int" where
  "pending_count w = int (length (wk_pending w))"

text \<open>\<open>_drain_pending_submissions_unlocked\<close> empties the queue before the facade sees the requests.\<close>

definition drain_pending :: "worker \<Rightarrow> unit worker_result" where
  "drain_pending w =
     (if wk_pending w = [] then (Inr (), w)
      else let requests = wk_pending w
           in bind_st (on_facade (facade_submit_many requests) (w\<lparr>wk_pending := []\<rparr>)) (\<lambda>_ w1. (Inr (), w1)))"

section \<open>Ticks\<close>

definition status_has_work :: "(string, pyval) dict \<Rightarrow> bool" where
  "status_has_work d \<longleftrightarrow>
     list_ex (\<lambda>k. case map_of d k of None \<Rightarrow> False | Some v \<Rightarrow> py_truthy v) [''waiting_prefill'', ''decoding'', ''waiting'', ''running'']"

definition has_work :: "worker \<Rightarrow> bool" where
  "has_work w \<longleftrightarrow> pending_count w \<noteq> 0 \<or> status_has_work (facade_status (wk_facade w))"

definition prefill_batch_target :: "worker \<Rightarrow> int" where
  "prefill_batch_target w =
     (case map_of (facade_status (wk_facade w)) ''policy'' of
        Some (PDict p) \<Rightarrow> max 1 (let n = status_int p ''max_prefill_batch_size'' in if n = 0 then 1 else n)
      | _ \<Rightarrow> 1)"

definition should_wait_for_batch_fill :: "worker \<Rightarrow> bool" where
  "should_wait_for_batch_fill w \<longleftrightarrow>
     0 < pending_count w \<and> pending_count w < prefill_batch_target w \<and> \<not> status_has_work (facade_status (wk_facade w))"

text \<open>A log line goes to the sink, here the list \<open>wk_log\<close>.\<close>

definition emit_decode_interval_log :: "GRContinuousTickResult \<Rightarrow> worker \<Rightarrow> worker" where
  "emit_decode_interval_log t w =
     (let n = decode_log_interval (wk_config w) in
      if n \<le> 0 \<or> wk_ticks w mod n \<noteq> 0 then w
      else w\<lparr>wk_log := wk_log w @
        [[(''event'', PStr ''gr_worker_decode_tick''), (''worker_ticks'', PInt (wk_ticks w)), (''tick'', PInt (tick_no t)),
          (''prefill_batch_size'', PInt (int (length (prefill_request_ids t)))),
          (''decode_batches'', PInt (int (length (decode_batches t)))),
          (''finished_requests'', PInt (int (length (finished_request_ids t))))]]\<rparr>)"

definition worker_tick :: "worker \<Rightarrow> GRContinuousTickResult worker_result" where
  "worker_tick w =
     bind_st (drain_pending w) (\<lambda>_ w1.
     bind_st (on_facade facade_tick w1) (\<lambda>t w2.
       (Inr t, emit_decode_interval_log t (w2\<lparr>wk_ticks := wk_ticks w2 + 1, wk_last_error := None\<rparr>))))"

text \<open>One turn of the thread's loop.\<close>

definition note_worker_error :: "py_exc \<Rightarrow> worker \<Rightarrow> worker" where
  "note_worker_error e w = w\<lparr>wk_errors := wk_errors w + 1, wk_last_error := Some (exc_type_name e @ '': '' @ exc_message e)\<rparr>"

definition worker_turn :: "worker \<Rightarrow> worker" where
  "worker_turn w =
     (let w1 = (if should_wait_for_batch_fill w then w\<lparr>wk_fill_waits := wk_fill_waits w + 1\<rparr> else w) in
      if \<not> has_work w1 then w1
      else case worker_tick w1 of
             (Inr _, w2) \<Rightarrow> w2
           | (Inl e, w2) \<Rightarrow> note_worker_error e w2)"

text \<open>The loop, for at most \<open>n\<close> turns of a thread nobody stops.\<close>

primrec worker_turns :: "nat \<Rightarrow> worker \<Rightarrow> worker" where
  "worker_turns 0 w = w"
| "worker_turns (Suc n) w = worker_turns n (worker_turn w)"

definition worker_run_until_idle ::
  "nat \<Rightarrow> int option \<Rightarrow> bool \<Rightarrow> worker \<Rightarrow> GRServingResponse list worker_result option" where
  "worker_run_until_idle fuel max_ticks timeout_unfinished w =
     (case drain_pending w of
        (Inl e, w1) \<Rightarrow> Some (Inl e, w1)
      | (Inr _, w1) \<Rightarrow> map_option (\<lambda>(r, f). (r, w1\<lparr>wk_facade := f\<rparr>)) (run_until_idle fuel max_ticks timeout_unfinished (wk_facade w1)))"

section \<open>The facade under the lock\<close>

definition worker_poll :: "string \<Rightarrow> worker \<Rightarrow> GRServingResponse option" where
  "worker_poll rid w = poll rid (wk_facade w)"

definition worker_require_result :: "string \<Rightarrow> worker \<Rightarrow> GRServingResponse py_result" where
  "worker_require_result rid w = require_result rid (wk_facade w)"

definition worker_request_status :: "string \<Rightarrow> worker \<Rightarrow> (string, pyval) dict py_result" where
  "worker_request_status rid w = request_status rid (wk_facade w)"

definition worker_request_statuses :: "worker \<Rightarrow> (string, pyval) dict list py_result" where
  "worker_request_statuses w = request_statuses (wk_facade w)"

definition worker_cancel :: "string \<Rightarrow> string \<Rightarrow> worker \<Rightarrow> GRServingResponse worker_result" where
  "worker_cancel rid reason = on_facade (facade_cancel rid reason)"

definition worker_drain :: "worker \<Rightarrow> (string, pyval) dict worker_result" where
  "worker_drain = on_facade (\<lambda>f. case drain f of (d, f1) \<Rightarrow> (Inr d, f1))"

definition worker_catalog_status :: "worker \<Rightarrow> (string, pyval) dict option" where
  "worker_catalog_status w = facade_catalog_status (wk_facade w)"

definition worker_reload_jsonl ::
  "(string \<Rightarrow> pyval option) \<Rightarrow> string list py_result \<Rightarrow> catalog_options \<Rightarrow> string \<Rightarrow> int \<Rightarrow> int option \<Rightarrow> bool
   \<Rightarrow> worker \<Rightarrow> int worker_result" where
  "worker_reload_jsonl json_loads file opts path vocab eos allow =
     on_facade (facade_reload_jsonl json_loads file opts path vocab eos allow)"

section \<open>Status and shutdown\<close>

definition worker_status :: "worker \<Rightarrow> (string, pyval) dict" where
  "worker_status w =
     [(''running'', PBool (wk_alive w)), (''ticks'', PInt (wk_ticks w)), (''errors'', PInt (wk_errors w)),
      (''last_error'', opt_str (wk_last_error w)),
      (''started_at_s'', case wk_started_at w of None \<Rightarrow> PNone | Some t \<Rightarrow> PFloat (Fin t)),
      (''pending_submissions'', PInt (pending_count w)), (''submitted_requests'', PInt (wk_submitted w)),
      (''batch_fill_waits'', PInt (wk_fill_waits w))]"

definition status_of_worker :: "worker \<Rightarrow> (string, pyval) dict" where
  "status_of_worker w =
     (let status = facade_status (wk_facade w); n = pending_count w
      in dict_set ''worker'' (PDict (worker_status w))
           (dict_set ''waiting_prefill'' (PInt (status_int status ''waiting_prefill'' + n))
             (dict_set ''pending_submissions'' (PInt n) status)))"

definition metrics_of_worker :: "worker \<Rightarrow> (string, pyval) dict" where
  "metrics_of_worker w =
     dict_update (facade_metrics (wk_facade w))
       [(''worker_running'', PInt (if wk_alive w then 1 else 0)), (''worker_ticks'', PInt (wk_ticks w)),
        (''worker_errors'', PInt (wk_errors w)), (''worker_pending_submissions'', PInt (pending_count w)),
        (''worker_submitted_requests'', PInt (wk_submitted w)), (''worker_batch_fill_waits'', PInt (wk_fill_waits w))]"

text \<open>\<open>shutdown\<close> of the facade, then the thread is stopped; the answer carries the worker's status.\<close>

definition worker_shutdown ::
  "nat \<Rightarrow> int option \<Rightarrow> bool \<Rightarrow> bool \<Rightarrow> worker \<Rightarrow> (shutdown_result \<times> (string, pyval) dict) worker_result option" where
  "worker_shutdown fuel max_ticks timeout_unfinished ended w =
     map_option (\<lambda>(r, f). bind_st (r, w\<lparr>wk_facade := f\<rparr>) (\<lambda>out w1.
         let w2 = worker_stop ended w1 in (Inr (out, worker_status w2), w2)))
       (shutdown fuel max_ticks timeout_unfinished (wk_facade w))"

end
