(* ===== verification/GR_HTTP_Payload.thy ===== *)
theory GR_HTTP_Payload
  imports GR_Worker GR_Generation GR_Exec_Window
begin

text \<open>
  What the HTTP adapter (\<open>gr_serving/http.py\<close>) makes of text: paths, headers, JSON payloads. The payload of a
  submission becomes a request (\<open>default_request_factory\<close>), with the beam policy and the logits
  processors it describes (\<open>logits_processor_from_spec\<close> of \<open>gr_runtime/logits_processor.py\<close>). A JSON
  value is a \<open>pyval\<close>, a JSON object a dictionary with string keys; strings stand for their UTF-8 encoding.
\<close>

section \<open>Numbers in text\<close>

text \<open>\<open>float(x)\<close>: decimal digits, single underscores between them, an optional fraction and exponent, and
  the three names of non-finite values.\<close>

definition cut :: "char \<Rightarrow> string \<Rightarrow> string \<times> string option" where
  "cut c s = (takeWhile (\<lambda>x. x \<noteq> c) s, case dropWhile (\<lambda>x. x \<noteq> c) s of [] \<Rightarrow> None | _ # r \<Rightarrow> Some r)"

definition digit_run :: "string \<Rightarrow> (rat \<times> nat) option" where
  "digit_run s = map_option (\<lambda>n. (of_int n, length (filter (\<lambda>c. digit_val c \<noteq> None) s))) (parse_nat s)"

definition parse_mantissa :: "string \<Rightarrow> rat option" where
  "parse_mantissa s =
     (case cut CHR ''.'' s of
        (a, None) \<Rightarrow> map_option fst (digit_run a)
      | (a, Some b) \<Rightarrow>
          (if b = [] then map_option fst (digit_run a)
           else Option.bind (digit_run b) (\<lambda>(f, k).
             let frac = f / 10 ^ k in
             if a = [] then Some frac else map_option (\<lambda>(n, _). n + frac) (digit_run a))))"

definition parse_sign :: "string \<Rightarrow> bool \<times> string" where
  "parse_sign s =
     (case s of
        [] \<Rightarrow> (False, [])
      | c # cs \<Rightarrow> if c = CHR ''-'' then (True, cs) else if c = CHR ''+'' then (False, cs) else (False, s))"

definition scale10 :: "bool \<Rightarrow> nat \<Rightarrow> rat \<Rightarrow> rat" where
  "scale10 negative n q = (if negative then q / 10 ^ n else q * 10 ^ n)"

definition parse_float :: "string \<Rightarrow> pyfloat option" where
  "parse_float s =
     (case parse_sign (map lower_char (py_strip s)) of
        (negative, t) \<Rightarrow>
          (if t = ''inf'' \<or> t = ''infinity'' then Some (if negative then NegInf else PosInf)
           else if t = ''nan'' then Some NaN
           else case cut CHR ''e'' t of
             (m, e) \<Rightarrow>
               Option.bind (parse_mantissa m) (\<lambda>q.
               let q' = (if negative then - q else q) in
               case e of
                 None \<Rightarrow> Some (Fin q')
               | Some ex \<Rightarrow> (case parse_sign ex of (down, ds) \<Rightarrow> map_option (\<lambda>n. Fin (scale10 down (nat n) q')) (parse_nat ds)))))"

fun py_float :: "pyval \<Rightarrow> pyfloat py_result" where
  "py_float (PFloat x) = Inr x"
| "py_float (PInt n) = Inr (Fin (of_int n))"
| "py_float (PBool b) = Inr (Fin (if b then 1 else 0))"
| "py_float (PStr s) = (case parse_float s of Some x \<Rightarrow> Inr x | None \<Rightarrow> Inl (ValueError ''could not convert string to float''))"
| "py_float _ = Inl (TypeError ''float() argument must be a string or a real number'')"

section \<open>Sequences\<close>

text \<open>Iterating over a JSON value: a list, the characters of a string, the keys of an object.\<close>

fun py_iter :: "pyval \<Rightarrow> pyval list py_result" where
  "py_iter (PList vs) = Inr vs"
| "py_iter (PStr s) = Inr (map (\<lambda>c. PStr [c]) s)"
| "py_iter (PDict d) = Inr (map PStr (dict_keys d))"
| "py_iter _ = Inl (TypeError ''object is not iterable'')"

text \<open>\<open>tuple(int(x) for x in v)\<close>.\<close>

definition int_items :: "pyval \<Rightarrow> int list py_result" where
  "int_items v = bind_res (py_iter v) (map_res py_int)"

text \<open>\<open>x in {...}\<close> hashes \<open>x\<close>.\<close>

fun unhashable :: "pyval \<Rightarrow> bool" where
  "unhashable (PList _) = True"
| "unhashable (PDict _) = True"
| "unhashable _ = False"

definition str_in :: "pyval option \<Rightarrow> string list \<Rightarrow> bool py_result" where
  "str_in v names =
     (case v of
        None \<Rightarrow> Inr False
      | Some x \<Rightarrow> if unhashable x then Inl (TypeError ''unhashable type'') else Inr (x \<in> set (map PStr names)))"

text \<open>\<open>d.get(k, default)\<close>.\<close>

definition get_or :: "(string, pyval) dict \<Rightarrow> string \<Rightarrow> pyval \<Rightarrow> pyval" where
  "get_or d k v = (case map_of d k of None \<Rightarrow> v | Some x \<Rightarrow> x)"

section \<open>Logits processors\<close>

fun phase_text :: "pyval \<Rightarrow> string py_result" where
  "phase_text (PStr s) = Inr s"
| "phase_text v = (if unhashable v then Inl (TypeError ''unhashable type'') else Inr [])"

definition phases_of_value :: "pyval \<Rightarrow> string list py_result" where
  "phases_of_value v = (case v of PStr s \<Rightarrow> Inr [s] | _ \<Rightarrow> bind_res (py_iter v) (map_res phase_text))"

definition token_ids_of_value :: "pyval \<Rightarrow> int list py_result" where
  "token_ids_of_value v = (case v of PStr _ \<Rightarrow> Inl (ValueError ''token_ids must be a sequence of integers'') | _ \<Rightarrow> int_items v)"

text \<open>\<open>for raw_token, raw_bias in items\<close>.\<close>

definition unpack_pair :: "pyval \<Rightarrow> (pyval \<times> pyval) py_result" where
  "unpack_pair v =
     bind_res (py_iter v) (\<lambda>xs.
       case xs of
         [a, b] \<Rightarrow> Inr (a, b)
       | _ \<Rightarrow> Inl (ValueError ''wrong number of values to unpack''))"

fun bias_items :: "pyval list \<Rightarrow> (int \<times> pyfloat) list py_result" where
  "bias_items [] = Inr []"
| "bias_items (v # vs) =
     bind_res (unpack_pair v) (\<lambda>(t, b).
     bind_res (py_int t) (\<lambda>token.
       if token < 0 then Inl (ValueError ''token_bias token ids must be non-negative'')
       else bind_res (py_float b) (\<lambda>bias. bind_res (bias_items vs) (\<lambda>items. Inr ((token, bias) # items)))))"

definition token_bias_of_value :: "pyval \<Rightarrow> (int \<times> pyfloat) list py_result" where
  "token_bias_of_value v =
     (case v of
        PDict d \<Rightarrow> bias_items (map (\<lambda>(k, b). PList [PStr k, b]) d)
      | PList vs \<Rightarrow> bias_items vs
      | _ \<Rightarrow> Inl (ValueError ''token_bias must be an object or list of pairs''))"

definition logits_processor_from_spec :: "(string, pyval) dict \<Rightarrow> logits_processor py_result" where
  "logits_processor_from_spec spec =
     (let phases = get_or spec ''phases'' (PList [PStr ''prefill'', PStr ''decode'']) in
      bind_res (str_in (map_of spec ''type'') [''token_suppress'', ''suppress_tokens'', ''bad_tokens'']) (\<lambda>suppress.
        if suppress then
          (let ids = get_or spec ''token_ids'' (get_or spec ''suppressed_token_ids'' PNone) in
           if ids = PNone then Inl (ValueError ''token_suppress logits processor requires token_ids'')
           else bind_res (py_float (get_or spec ''fill_value'' (PFloat NegInf))) (\<lambda>fill.
                bind_res (token_ids_of_value ids) (\<lambda>ns.
                bind_res (normalize_token_ids ns) (\<lambda>_.
                bind_res (phases_of_value phases) (\<lambda>ps. mk_token_suppress ns fill ps)))))
        else
          bind_res (str_in (map_of spec ''type'') [''token_bias'', ''bias_tokens'']) (\<lambda>bias.
            if bias then
              (let b = get_or spec ''token_bias'' (get_or spec ''biases'' PNone) in
               if b = PNone then Inl (ValueError ''token_bias logits processor requires token_bias'')
               else bind_res (token_bias_of_value b) (\<lambda>items.
                    bind_res (phases_of_value phases) (\<lambda>ps. mk_token_bias items ps)))
            else Inl (ValueError ''unsupported logits processor type''))))"

definition logits_processors_from_specs :: "pyval option \<Rightarrow> logits_processor list py_result" where
  "logits_processors_from_specs specs =
     (case specs of
        None \<Rightarrow> Inr []
      | Some PNone \<Rightarrow> Inr []
      | Some (PList vs) \<Rightarrow>
          map_res (\<lambda>v. case v of PDict d \<Rightarrow> logits_processor_from_spec d
                       | _ \<Rightarrow> Inl (ValueError ''logits processor spec must be a JSON object'')) vs
      | Some _ \<Rightarrow> Inl (ValueError ''logits_processors must be a list''))"

section \<open>Beam policies\<close>

fun beam_width_schedule :: "(string \<times> pyval) list \<Rightarrow> int \<Rightarrow> (int, int) dict \<Rightarrow> (int, int) dict py_result" where
  "beam_width_schedule [] max_w acc = Inr acc"
| "beam_width_schedule ((raw_step, raw_width) # items) max_w acc =
     (if is_bool raw_width then Inl (ValueError ''schedule steps and widths must be integers'')
      else bind_res (py_int (PStr raw_step)) (\<lambda>step.
           bind_res (py_int raw_width) (\<lambda>width.
             if step < 0 then Inl (ValueError ''schedule steps must be non-negative'')
             else if width \<le> 0 \<or> width > max_w then Inl (ValueError ''scheduled beam width must be in (0, max_beam_width]'')
             else beam_width_schedule items max_w (dict_set step width acc))))"

definition beam_width_policy_from_payload :: "(string, pyval) dict \<Rightarrow> int \<Rightarrow> beam_width_policy option py_result" where
  "beam_width_policy_from_payload payload max_w =
     (case get_or payload ''beam_width_policy'' PNone of
        PNone \<Rightarrow> Inr None
      | PDict spec \<Rightarrow>
          bind_res (str_in (map_of spec ''type'') [''score_margin'', ''score_margin_shrink'']) (\<lambda>margin.
            if margin then
              (case map_of spec ''score_margin'' of
                 None \<Rightarrow> Inl (ValueError ''score_margin beam policy requires score_margin'')
               | Some v \<Rightarrow>
                   bind_res (py_float v) (\<lambda>m.
                   bind_res (py_int (get_or spec ''min_beam_width'' (PInt 1))) (\<lambda>min_w.
                   bind_res (mk_score_margin_policy max_w m min_w (py_truthy (get_or spec ''monotonic_shrink'' (PBool True))) None) (\<lambda>p.
                     Inr (Some p)))))
            else
              bind_res (str_in (map_of spec ''type'') [''scheduled'', ''schedule'']) (\<lambda>scheduled.
                if scheduled then
                  (case get_or spec ''schedule'' PNone of
                     PDict d \<Rightarrow> bind_res (beam_width_schedule d max_w []) (\<lambda>s. bind_res (mk_scheduled_policy s) (\<lambda>p. Inr (Some p)))
                   | _ \<Rightarrow> Inl (ValueError ''scheduled beam policy requires schedule object''))
                else Inl (ValueError ''unsupported beam_width_policy type'')))
      | _ \<Rightarrow> Inl (ValueError ''beam_width_policy must be a JSON object''))"

section \<open>Requests\<close>

text \<open>\<open>dict(v)\<close> of a mapping or of a list of pairs; keys are strings in this model.\<close>

definition pair_item :: "pyval \<Rightarrow> (string \<times> pyval) py_result" where
  "pair_item v =
     bind_res (unpack_pair v) (\<lambda>(k, x). case k of PStr s \<Rightarrow> Inr (s, x) | _ \<Rightarrow> Inl (TypeError ''keys must be strings''))"

definition dict_of_value :: "pyval \<Rightarrow> (string, pyval) dict py_result" where
  "dict_of_value v =
     (case v of
        PDict d \<Rightarrow> Inr d
      | _ \<Rightarrow> bind_res (py_iter v) (\<lambda>xs. bind_res (map_res pair_item xs) (\<lambda>items. Inr (dict_update [] items))))"

definition input_ids_of_value :: "pyval \<Rightarrow> input_ids" where
  "input_ids_of_value v = (if v = PNone then IdsNone else IdsValue v)"

definition default_request_factory :: "(string, pyval) dict \<Rightarrow> GRServingRequest py_result" where
  "default_request_factory payload =
     bind_res (required_int payload ''beam_width'') (\<lambda>beam_width.
     bind_res (dict_of_value (get_or payload ''metadata'' (PDict []))) (\<lambda>meta.
     bind_res (if map_of payload ''timeout_ticks'' = None then Inr meta
               else bind_res (optional_int payload ''timeout_ticks'') (\<lambda>t. Inr (dict_set ''timeout_ticks'' (opt_int t) meta))) (\<lambda>meta'.
     bind_res (required_str payload ''request_id'') (\<lambda>rid.
     bind_res (required_field payload ''input_ids'') (\<lambda>ids.
     bind_res (required_int payload ''max_decode_steps'') (\<lambda>steps.
     bind_res (beam_width_policy_from_payload payload beam_width) (\<lambda>pol.
     bind_res (int_items (get_or payload ''stop_token_ids'' (PList []))) (\<lambda>stops.
     bind_res (logits_processors_from_specs (map_of payload ''logits_processors'')) (\<lambda>procs.
       Inr \<lparr>request_id = rid, req_input_ids = input_ids_of_value ids, req_max_decode_steps = steps,
            req_beam_width = beam_width, req_metadata = meta', item_mask_provider = None, beam_width_policy = pol,
            stop_token_ids = stops, logits_processor_callable = map (\<lambda>_. True) procs\<rparr>)))))))))"

text \<open>\<open>_sglang_generate_payload_to_gr_payload\<close>; \<open>str_of\<close> is \<open>str\<close> and \<open>fresh_id\<close> the generated id.\<close>

definition sglang_payload :: "(pyval \<Rightarrow> string) \<Rightarrow> string \<Rightarrow> (string, pyval) dict \<Rightarrow> (string, pyval) dict py_result" where
  "sglang_payload str_of fresh_id payload =
     (case map_of payload ''input_ids'' of
        None \<Rightarrow> Inl (ValueError (if map_of payload ''text'' \<noteq> None then ''GR /generate currently requires input_ids.''
                               else ''missing required field: input_ids''))
      | Some ids \<Rightarrow>
          bind_res (case get_or payload ''sampling_params'' (PDict []) of
                      PNone \<Rightarrow> Inr []
                    | PDict d \<Rightarrow> Inr d
                    | _ \<Rightarrow> Inl (ValueError ''sampling_params must be a JSON object'')) (\<lambda>params.
          bind_res (py_int (get_or params ''max_new_tokens'' (get_or payload ''max_new_tokens'' (PInt 1)))) (\<lambda>max_new.
          bind_res (py_int (get_or params ''n'' (get_or payload ''n'' (get_or payload ''beam_width'' (PInt 1))))) (\<lambda>width.
            let rid = get_or payload ''request_id'' PNone; rid2 = get_or payload ''rid'' PNone;
                request_id = (if py_truthy rid then str_of rid else if py_truthy rid2 then str_of rid2 else fresh_id)
            in bind_res (int_items (get_or params ''stop_token_ids'' (PList []))) (\<lambda>stops.
                 Inr [(''request_id'', PStr request_id), (''input_ids'', ids), (''max_decode_steps'', PInt (max 1 (max_new - 1))),
                      (''beam_width'', PInt width), (''stop_token_ids'', PList (map PInt stops)),
                      (''logits_processors'', get_or payload ''logits_processors'' (PList [])),
                      (''metadata'', PDict
                         [(''source'', PStr ''sglang_generate''), (''requested_max_new_tokens'', PInt max_new),
                          (''ignore_eos'', PBool (py_truthy (get_or params ''ignore_eos'' (PBool False)))),
                          (''stream'', PBool (py_truthy (get_or payload ''stream'' (PBool True))))])])))))"

definition input_context_len :: "input_ids \<Rightarrow> int option" where
  "input_context_len ids =
     (case ids of
        IdsTensor shape \<Rightarrow> if shape = [] then None else Some (int (last shape))
      | IdsValue (PList []) \<Rightarrow> Some 0
      | IdsValue (PList (v # vs)) \<Rightarrow> Some (case v of PList inner \<Rightarrow> int (length inner) | _ \<Rightarrow> int (length (v # vs)))
      | _ \<Rightarrow> None)"

end
