(* ===== verification/GR_HTTP.thy ===== *)
theory GR_HTTP
  imports GR_HTTP_Payload
begin

text \<open>
  The HTTP adapter, \<open>GRHTTPServingAdapter\<close> of \<open>gr_serving/http.py\<close>: routes, the request limits of its validation
  policy, API keys, and the answers errors are turned into. The adapter drives a facade or a worker; what
  it calls of them is the record \<open>backend_ops\<close>. A call of the model returns the response, or the
  exception that leaves \<open>handle\<close>, and the backend it leaves. Sockets, clocks and the JSON text are not
  modelled: a body is absent, bytes with the parser as a parameter, or an object already.
\<close>

section \<open>Responses and errors\<close>

datatype http_body = JsonBody pyval | TextBody string

record http_response =
  http_status :: int
  http_body :: http_body
  http_headers :: "(string, string) dict"

text \<open>\<open>GRHTTPAdapterError\<close>, beside the exceptions of the code it calls.\<close>

record http_error =
  err_status :: int
  err_code :: string
  err_message :: string
  err_retryable :: bool
  err_headers :: "(string, string) dict"

datatype http_exc = AdapterError http_error | Raised py_exc

type_synonym 'a http_result = "http_exc + 'a"

definition lift_exc :: "'a py_result \<Rightarrow> 'a http_result" where
  "lift_exc r = (case r of Inl e \<Rightarrow> Inl (Raised e) | Inr x \<Rightarrow> Inr x)"

definition adapter_error :: "int \<Rightarrow> string \<Rightarrow> string \<Rightarrow> bool \<Rightarrow> (string, string) dict \<Rightarrow> http_exc" where
  "adapter_error status code msg retryable hs =
     AdapterError \<lparr>err_status = status, err_code = code, err_message = msg, err_retryable = retryable, err_headers = hs\<rparr>"

definition http_ok :: "int \<Rightarrow> (string, pyval) dict \<Rightarrow> http_response" where
  "http_ok status body = \<lparr>http_status = status, http_body = JsonBody (PDict body), http_headers = []\<rparr>"

definition http_text :: "string \<Rightarrow> string \<Rightarrow> http_response" where
  "http_text content_type body = \<lparr>http_status = 200, http_body = TextBody body, http_headers = [(''Content-Type'', content_type)]\<rparr>"

definition error_response :: "http_error \<Rightarrow> http_response" where
  "error_response e =
     \<lparr>http_status = err_status e,
      http_body = JsonBody (PDict [(''error'', PDict [(''code'', PStr (err_code e)), (''message'', PStr (err_message e)),
                    (''retryable'', PBool (err_retryable e)), (''status'', PInt (err_status e))])]),
      http_headers = err_headers e\<rparr>"

definition plain_error :: "int \<Rightarrow> string \<Rightarrow> string \<Rightarrow> bool \<Rightarrow> http_response" where
  "plain_error status code msg retryable =
     error_response \<lparr>err_status = status, err_code = code, err_message = msg, err_retryable = retryable, err_headers = []\<rparr>"

definition has_infix :: "string \<Rightarrow> string \<Rightarrow> bool" where
  "has_infix pat s \<longleftrightarrow> list_ex (\<lambda>k. take (length pat) (drop k s) = pat) [0..<Suc (length s)]"

definition runtime_error_response :: "string \<Rightarrow> http_response" where
  "runtime_error_response msg =
     (if has_infix ''draining'' msg then plain_error 409 ''service_draining'' msg True
      else if has_infix ''duplicate request_id'' msg then plain_error 409 ''duplicate_request_id'' msg False
      else plain_error 409 ''conflict'' msg False)"

text \<open>The \<open>except\<close> clauses of \<open>handle\<close>; any other exception leaves it. \<open>str\<close> of a \<open>KeyError\<close> quotes the key.\<close>

fun error_mapping :: "http_exc \<Rightarrow> http_response py_result" where
  "error_mapping (AdapterError e) = Inr (error_response e)"
| "error_mapping (Raised (ValueError m)) = Inr (plain_error 400 ''validation_error'' m False)"
| "error_mapping (Raised (KeyError m)) = Inr (plain_error 404 ''not_found'' ([CHR 39] @ m @ [CHR 39]) False)"
| "error_mapping (Raised (RuntimeError m)) = Inr (runtime_error_response m)"
| "error_mapping (Raised e) = Inl e"

section \<open>Policy and adapter\<close>

record http_policy =
  max_request_bytes :: "int option"
  max_context_len :: "int option"
  pol_max_decode_steps :: "int option"
  pol_max_beam_width :: "int option"
  max_submit_many :: "int option"
  max_waiting_requests :: "int option"
  max_timeout_ticks :: "int option"
  allow_manual_tick :: bool
  allow_catalog_reload :: bool

definition default_http_policy :: http_policy where
  "default_http_policy = \<lparr>max_request_bytes = Some 1048576, max_context_len = None, pol_max_decode_steps = None, pol_max_beam_width = None,
     max_submit_many = Some 32, max_waiting_requests = None, max_timeout_ticks = None, allow_manual_tick = True, allow_catalog_reload = True\<rparr>"

definition policy_limits :: "http_policy \<Rightarrow> int option list" where
  "policy_limits p = [max_request_bytes p, max_context_len p, pol_max_decode_steps p, pol_max_beam_width p, max_submit_many p,
     max_waiting_requests p, max_timeout_ticks p]"

definition over_limit :: "int \<Rightarrow> int option \<Rightarrow> bool" where
  "over_limit n limit \<longleftrightarrow> (case limit of None \<Rightarrow> False | Some m \<Rightarrow> n > m)"

definition validate_policy :: "http_policy \<Rightarrow> unit py_result" where
  "validate_policy p =
     (if \<exists>v \<in> set (policy_limits p). case v of None \<Rightarrow> False | Some n \<Rightarrow> n \<le> 0
      then Inl (ValueError ''limit must be positive when set'') else Inr ())"

record http_adapter =
  ad_policy :: http_policy
  ad_factory :: "((string, pyval) dict \<Rightarrow> GRServingRequest py_result) option"
  ad_api_key :: "string option"
  ad_api_key_header :: string
  ad_build_info :: "(string, pyval) dict"
  ad_request_logging :: bool
  ad_log_level :: string

definition mk_http_adapter :: "http_adapter \<Rightarrow> http_adapter py_result" where
  "mk_http_adapter a = bind_res (validate_policy (ad_policy a)) (\<lambda>_. Inr a)"

section \<open>The backend\<close>

text \<open>What the adapter calls of its facade. \<open>None\<close> is running out of fuel in a run; a backend without
  \<open>rollback_item_catalog\<close> or without \<open>stop\<close> says so.\<close>

record 'b backend_ops =
  be_submit :: "GRServingRequest \<Rightarrow> 'b \<Rightarrow> string py_result \<times> 'b"
  be_submit_many :: "GRServingRequest list \<Rightarrow> 'b \<Rightarrow> string list py_result \<times> 'b"
  be_tick :: "'b \<Rightarrow> GRContinuousTickResult py_result \<times> 'b"
  be_run_until_idle :: "int option \<Rightarrow> bool \<Rightarrow> 'b \<Rightarrow> (GRServingResponse list py_result \<times> 'b) option"
  be_poll :: "string \<Rightarrow> 'b \<Rightarrow> GRServingResponse option"
  be_require_result :: "string \<Rightarrow> 'b \<Rightarrow> GRServingResponse py_result"
  be_request_status :: "string \<Rightarrow> 'b \<Rightarrow> (string, pyval) dict py_result"
  be_request_statuses :: "'b \<Rightarrow> (string, pyval) dict list py_result"
  be_cancel :: "string \<Rightarrow> string \<Rightarrow> 'b \<Rightarrow> GRServingResponse py_result \<times> 'b"
  be_drain :: "'b \<Rightarrow> (string, pyval) dict \<times> 'b"
  be_shutdown :: "int option \<Rightarrow> bool \<Rightarrow> 'b \<Rightarrow> ((shutdown_result \<times> (string, pyval) dict option) py_result \<times> 'b) option"
  be_status :: "'b \<Rightarrow> (string, pyval) dict"
  be_metrics :: "'b \<Rightarrow> (string, pyval) dict"
  be_catalog_status :: "'b \<Rightarrow> (string, pyval) dict option"
  be_reload_jsonl :: "catalog_options \<Rightarrow> string \<Rightarrow> int \<Rightarrow> int option \<Rightarrow> bool \<Rightarrow> 'b \<Rightarrow> int py_result \<times> 'b"
  be_rollback :: "('b \<Rightarrow> int py_result \<times> 'b) option"
  be_has_stop :: bool

text \<open>The two backends of the code; the reader of catalog files is a parameter.\<close>

definition facade_backend ::
  "nat \<Rightarrow> (string \<Rightarrow> pyval option) \<Rightarrow> (string \<Rightarrow> string list py_result) \<Rightarrow> serving_facade backend_ops" where
  "facade_backend fuel json_loads file =
     \<lparr>be_submit = facade_submit, be_submit_many = facade_submit_many, be_tick = facade_tick, be_run_until_idle = run_until_idle fuel,
      be_poll = poll, be_require_result = require_result, be_request_status = request_status, be_request_statuses = request_statuses,
      be_cancel = facade_cancel, be_drain = drain,
      be_shutdown = (\<lambda>m tu f. map_option (\<lambda>r. bind_st r (\<lambda>out f1. (Inr (out, None), f1))) (shutdown fuel m tu f)),
      be_status = facade_status, be_metrics = facade_metrics, be_catalog_status = facade_catalog_status,
      be_reload_jsonl = (\<lambda>opts path vocab eos allow. facade_reload_jsonl json_loads (file path) opts path vocab eos allow),
      be_rollback = Some facade_rollback, be_has_stop = False\<rparr>"

text \<open>\<open>ended\<close> is whether the thread ends within the timeout of the join.\<close>

definition worker_backend ::
  "nat \<Rightarrow> bool \<Rightarrow> (string \<Rightarrow> pyval option) \<Rightarrow> (string \<Rightarrow> string list py_result) \<Rightarrow> worker backend_ops" where
  "worker_backend fuel ended json_loads file =
     \<lparr>be_submit = worker_submit, be_submit_many = worker_submit_many, be_tick = worker_tick, be_run_until_idle = worker_run_until_idle fuel,
      be_poll = worker_poll, be_require_result = worker_require_result, be_request_status = worker_request_status,
      be_request_statuses = worker_request_statuses, be_cancel = worker_cancel,
      be_drain = (\<lambda>w. case worker_drain w of (r, w1) \<Rightarrow> (case r of Inl _ \<Rightarrow> [] | Inr d \<Rightarrow> d, w1)),
      be_shutdown = (\<lambda>m tu w. map_option (\<lambda>r. bind_st r (\<lambda>(out, st) w1. (Inr (out, Some st), w1))) (worker_shutdown fuel m tu ended w)),
      be_status = status_of_worker, be_metrics = metrics_of_worker, be_catalog_status = worker_catalog_status,
      be_reload_jsonl = (\<lambda>opts path vocab eos allow. worker_reload_jsonl json_loads (file path) opts path vocab eos allow),
      be_rollback = None, be_has_stop = True\<rparr>"

section \<open>Paths and headers\<close>

text \<open>\<open>urlparse(path).path\<close>: scheme, host, parameters of the last segment, query and fragment are cut off. A
  host with one bracket is an error.\<close>

definition scheme_char :: "char \<Rightarrow> bool" where
  "scheme_char c =
     (let n = (of_char (lower_char c) :: nat) in (97 \<le> n \<and> n \<le> 122) \<or> digit_val c \<noteq> None \<or> c \<in> {CHR ''+'', CHR ''-'', CHR ''.''})"

definition drop_scheme :: "string \<Rightarrow> string" where
  "drop_scheme s =
     (case cut CHR '':'' s of
        (sch, Some t) \<Rightarrow>
          (if sch \<noteq> [] \<and> digit_val (hd sch) = None \<and> hd sch \<notin> {CHR ''+'', CHR ''-'', CHR ''.''} \<and> list_all scheme_char sch then t else s)
      | _ \<Rightarrow> s)"

definition drop_netloc :: "string \<Rightarrow> string py_result" where
  "drop_netloc s =
     (if take 2 s \<noteq> ''//'' then Inr s
      else let ends = (\<lambda>c. c \<in> {CHR ''/'', CHR ''?'', CHR ''#''});
               host = takeWhile (\<lambda>c. \<not> ends c) (drop 2 s)
           in if (CHR ''['' \<in> set host) \<noteq> (CHR '']'' \<in> set host) then Inl (ValueError ''Invalid IPv6 URL'')
              else Inr (dropWhile (\<lambda>c. \<not> ends c) (drop 2 s)))"

definition drop_params :: "string \<Rightarrow> string" where
  "drop_params s =
     (let tail_part = rev (takeWhile (\<lambda>c. c \<noteq> CHR ''/'') (rev s)); front = take (length s - length tail_part) s
      in front @ takeWhile (\<lambda>c. c \<noteq> CHR '';'') tail_part)"

definition url_path :: "string \<Rightarrow> string py_result" where
  "url_path s =
     bind_res (drop_netloc (drop_scheme s)) (\<lambda>t. Inr (drop_params (fst (cut CHR ''?'' (fst (cut CHR ''#'' t))))))"

definition route_path :: "string \<Rightarrow> string list py_result" where
  "route_path s = bind_res (url_path s) (\<lambda>p. Inr (filter (\<lambda>x. x \<noteq> []) (split_on CHR ''/'' p)))"

definition header_value :: "(string \<times> string) list \<Rightarrow> string \<Rightarrow> string option" where
  "header_value hs name = map_option snd (find (\<lambda>(k, _). map lower_char k = map lower_char name) hs)"

definition auth_token_from_headers :: "(string \<times> string) list \<Rightarrow> string \<Rightarrow> string option" where
  "auth_token_from_headers hs api_key_header =
     (case header_value hs ''Authorization'' of
        Some bearer \<Rightarrow> Some (if take 7 bearer = ''Bearer '' then drop 7 bearer else bearer)
      | None \<Rightarrow> header_value hs api_key_header)"

definition validate_auth :: "http_adapter \<Rightarrow> string \<Rightarrow> string list \<Rightarrow> (string \<times> string) list \<Rightarrow> unit http_result" where
  "validate_auth a meth route hs =
     (case ad_api_key a of
        None \<Rightarrow> Inr ()
      | Some key \<Rightarrow>
          if meth = ''GET'' \<and> route \<in> {[''health''], [''ready'']} then Inr ()
          else case auth_token_from_headers hs (ad_api_key_header a) of
                 None \<Rightarrow> Inl (adapter_error 401 ''unauthorized'' ''missing API key'' False [(''WWW-Authenticate'', ''Bearer'')])
               | Some provided \<Rightarrow> if provided \<noteq> key then Inl (adapter_error 403 ''forbidden'' ''invalid API key'' False []) else Inr ())"

section \<open>Limits\<close>

datatype request_body = NoBody | BytesBody string | ObjectBody "(string, pyval) dict"

definition validate_body_size :: "http_policy \<Rightarrow> request_body \<Rightarrow> unit http_result" where
  "validate_body_size p body =
     (case body of
        BytesBody s \<Rightarrow>
          if over_limit (int (length s)) (max_request_bytes p)
          then Inl (adapter_error 413 ''payload_too_large'' ''request body exceeds limit'' False []) else Inr ()
      | _ \<Rightarrow> Inr ())"

text \<open>\<open>json_text\<close> decodes and parses a body; failing is a \<open>ValueError\<close>.\<close>

definition json_payload :: "(string \<Rightarrow> pyval option) \<Rightarrow> request_body \<Rightarrow> (string, pyval) dict py_result" where
  "json_payload json_text body =
     (case body of
        NoBody \<Rightarrow> Inr []
      | ObjectBody d \<Rightarrow> Inr d
      | BytesBody s \<Rightarrow>
          if s = [] then Inr []
          else case json_text s of
                 Some (PDict d) \<Rightarrow> Inr d
               | Some _ \<Rightarrow> Inl (ValueError ''JSON body must be an object'')
               | None \<Rightarrow> Inl (ValueError ''body is not JSON''))"

definition waiting_count :: "(string, pyval) dict \<Rightarrow> int py_result" where
  "waiting_count status =
     (let v = get_or status ''waiting_prefill'' (get_or status ''waiting'' (PInt 0)) in if py_truthy v then py_int v else Inr 0)"

definition validate_admission :: "http_policy \<Rightarrow> (string, pyval) dict \<Rightarrow> int \<Rightarrow> unit http_result" where
  "validate_admission p status new_requests =
     (if max_waiting_requests p = None then Inr ()
      else bind_res (lift_exc (waiting_count status)) (\<lambda>n_waiting.
             if over_limit (n_waiting + new_requests) (max_waiting_requests p)
             then Inl (adapter_error 429 ''overloaded'' ''waiting queue capacity exceeded'' True []) else Inr ()))"

definition validation_failed :: "string \<Rightarrow> http_exc" where
  "validation_failed msg = adapter_error 400 ''validation_error'' msg False []"

definition validate_http_request :: "http_policy \<Rightarrow> GRServingRequest \<Rightarrow> unit http_result" where
  "validate_http_request p r =
     (if over_limit (req_max_decode_steps r) (pol_max_decode_steps p) then Inl (validation_failed ''max_decode_steps exceeds limit'')
      else if over_limit (req_beam_width r) (pol_max_beam_width p) then Inl (validation_failed ''beam_width exceeds limit'')
      else if (case input_context_len (req_input_ids r) of None \<Rightarrow> False | Some n \<Rightarrow> over_limit n (max_context_len p))
      then Inl (validation_failed ''input context length exceeds limit'')
      else let t = get_or (req_metadata r) ''timeout_ticks'' PNone in
           if t = PNone \<or> max_timeout_ticks p = None then Inr ()
           else bind_res (lift_exc (py_int t)) (\<lambda>n.
                  if over_limit n (max_timeout_ticks p) then Inl (validation_failed ''timeout_ticks exceeds limit'') else Inr ()))"

definition make_request :: "http_adapter \<Rightarrow> (string, pyval) dict \<Rightarrow> GRServingRequest py_result" where
  "make_request a payload = (case ad_factory a of None \<Rightarrow> default_request_factory payload | Some f \<Rightarrow> f payload)"

section \<open>Payloads of answers\<close>

definition response_payload :: "GRServingResponse \<Rightarrow> (string, pyval) dict" where
  "response_payload r =
     [(''request_id'', PStr (resp_request_id r)), (''token_ids'', PList (map PInt (resp_token_ids r))),
      (''scores'', PList (map PFloat (resp_scores r))), (''metadata'', PDict (resp_metadata r))]"

definition kv_events_payload :: "(string, pyval) dict \<Rightarrow> (string, pyval) dict" where
  "kv_events_payload status =
     (let events = (case get_or status ''kv_events'' (PList []) of PList es \<Rightarrow> es | _ \<Rightarrow> [])
      in [(''events'', PList events), (''count'', PInt (int (length events)))])"

definition shutdown_payload :: "shutdown_result \<Rightarrow> (string, pyval) dict option \<Rightarrow> (string, pyval) dict" where
  "shutdown_payload out worker_st =
     [(''lifecycle'', PDict (shutdown_lifecycle out)),
      (''responses'', PList (map (\<lambda>r. PDict (response_payload r)) (shutdown_responses out))),
      (''status'', PDict (shutdown_status out))]
     @ (case worker_st of None \<Rightarrow> [] | Some w \<Rightarrow> [(''worker'', PDict w)])"

definition admission_payload :: "http_policy \<Rightarrow> int \<Rightarrow> (string, pyval) dict" where
  "admission_payload p n_waiting =
     [(''waiting_prefill'', PInt n_waiting), (''max_waiting_requests'', opt_int (max_waiting_requests p)),
      (''available_waiting_slots'', case max_waiting_requests p of None \<Rightarrow> PNone | Some m \<Rightarrow> PInt (max 0 (m - n_waiting))),
      (''queue_full'', PBool (case max_waiting_requests p of None \<Rightarrow> False | Some m \<Rightarrow> n_waiting \<ge> m))]"

text \<open>The reasons against readiness, in the order of the code.\<close>

definition readiness_reasons :: "http_policy \<Rightarrow> (string, pyval) dict \<Rightarrow> int \<Rightarrow> string list" where
  "readiness_reasons p status n_waiting =
     (case get_or status ''lifecycle'' (PDict []) of
        PDict l \<Rightarrow> if py_truthy (get_or l ''draining'' (PBool False)) then [''draining''] else []
      | _ \<Rightarrow> [])
     @ (if (case max_waiting_requests p of None \<Rightarrow> False | Some m \<Rightarrow> n_waiting \<ge> m) then [''waiting_queue_full''] else [])
     @ (case get_or status ''worker'' PNone of
          PDict w \<Rightarrow> (if \<not> py_truthy (get_or w ''running'' (PBool False)) then [''worker_not_running''] else [])
                   @ (if py_truthy (get_or w ''last_error'' PNone) then [''worker_last_error''] else [])
        | _ \<Rightarrow> if \<not> allow_manual_tick p then [''no_worker_and_manual_tick_disabled''] else [])"

definition readiness_payload :: "http_policy \<Rightarrow> (string, pyval) dict \<Rightarrow> (string, pyval) dict py_result" where
  "readiness_payload p status =
     bind_res (waiting_count status) (\<lambda>n_waiting.
       let reasons = readiness_reasons p status n_waiting in
       Inr [(''ready'', PBool (reasons = [])), (''reasons'', PList (map PStr reasons)),
            (''lifecycle'', get_or status ''lifecycle'' (PDict [])), (''worker'', get_or status ''worker'' PNone),
            (''admission'', PDict (admission_payload p n_waiting)),
            (''scheduler'', PDict
               [(''waiting_prefill'', get_or status ''waiting_prefill'' (PInt 0)), (''decoding'', get_or status ''decoding'' (PInt 0)),
                (''finished'', get_or status ''finished'' (PInt 0)), (''failed_requests'', get_or status ''failed_requests'' (PInt 0))])])"

definition validation_policy_payload :: "http_policy \<Rightarrow> (string, pyval) dict" where
  "validation_policy_payload p =
     [(''max_request_bytes'', opt_int (max_request_bytes p)), (''max_context_len'', opt_int (max_context_len p)),
      (''max_decode_steps'', opt_int (pol_max_decode_steps p)), (''max_beam_width'', opt_int (pol_max_beam_width p)),
      (''max_submit_many'', opt_int (max_submit_many p)), (''max_waiting_requests'', opt_int (max_waiting_requests p)),
      (''max_timeout_ticks'', opt_int (max_timeout_ticks p)), (''allow_manual_tick'', PBool (allow_manual_tick p)),
      (''allow_catalog_reload'', PBool (allow_catalog_reload p))]"

definition auth_config_payload :: "http_adapter \<Rightarrow> (string, pyval) dict" where
  "auth_config_payload a =
     (let on = ad_api_key a \<noteq> None in
      [(''enabled'', PBool on), (''api_key_header'', if on then PStr (ad_api_key_header a) else PNone),
       (''accepted_schemes'', PList (if on then [PStr ''Bearer'', PStr (ad_api_key_header a)] else [])),
       (''exempt_routes'', PList (if on then [PStr ''GET /health'', PStr ''GET /ready''] else []))])"

definition readiness_policy_payload :: "http_policy \<Rightarrow> (string, pyval) dict" where
  "readiness_policy_payload p =
     [(''draining_blocks_ready'', PBool True), (''queue_full_blocks_ready'', PBool (max_waiting_requests p \<noteq> None)),
      (''worker_error_blocks_ready'', PBool True),
      (''worker_required_when_manual_tick_disabled'', PBool (\<not> allow_manual_tick p))]"

definition route_manifest :: "http_policy \<Rightarrow> (string, pyval) dict" where
  "route_manifest p =
     map (\<lambda>(k, rs). (k, PList (map PStr rs)))
       ([(''liveness'', [''GET /health'']), (''readiness'', [''GET /ready'']), (''configuration'', [''GET /config'']),
         (''build'', [''GET /build'']), (''openai_compat'', [''GET /v1/models'']),
         (''status'', [''GET /status'', ''GET /metrics'', ''GET /metrics/prometheus'', ''GET /kv/events'', ''GET /requests'',
            ''GET /requests/{request_id}'']),
         (''requests'', [''POST /generate'', ''POST /submit'', ''POST /submit_many'', ''GET /poll/{request_id}'',
            ''GET /result/{request_id}'', ''POST /cancel'']),
         (''lifecycle'', [''POST /drain'', ''POST /shutdown''])]
        @ (if allow_manual_tick p then [(''manual_control'', [''POST /tick'', ''POST /run_until_idle''])] else [])
        @ [(''catalog'', if allow_catalog_reload p then [''GET /catalog/status'', ''POST /catalog/reload'', ''POST /catalog/rollback'']
                         else [''GET /catalog/status''])])"

definition config_payload :: "http_adapter \<Rightarrow> (string, pyval) dict \<Rightarrow> (string, pyval) dict" where
  "config_payload a status =
     [(''validation_policy'', PDict (validation_policy_payload (ad_policy a))), (''auth'', PDict (auth_config_payload a)),
      (''logging'', PDict [(''request_logging_enabled'', PBool (ad_request_logging a)), (''log_requests_level'', PStr (ad_log_level a))]),
      (''build'', PDict (ad_build_info a)), (''readiness_policy'', PDict (readiness_policy_payload (ad_policy a))),
      (''lifecycle'', get_or status ''lifecycle'' PNone), (''scheduler_policy'', get_or status ''policy'' PNone),
      (''worker'', get_or status ''worker'' PNone),
      (''item_constraints_configured'', PBool (get_or status ''item_constraints'' PNone \<noteq> PNone)),
      (''routes'', PDict (route_manifest (ad_policy a)))]"

definition models_payload :: "(string, pyval) dict \<Rightarrow> (string, pyval) dict" where
  "models_payload build =
     (let name = get_or build ''model_name'' PNone; dir = get_or build ''model_dir'' PNone;
          model_id = (if py_truthy name then name else if py_truthy dir then dir else PStr ''sid-gr-inference'')
      in [(''object'', PStr ''list''),
          (''data'', PList [PDict [(''id'', model_id), (''object'', PStr ''model''), (''created'', PInt 0),
             (''owned_by'', PStr ''sid-gr-inference'')]])])"

section \<open>Prometheus text\<close>

definition join_with :: "string \<Rightarrow> string list \<Rightarrow> string" where
  "join_with sep parts = (case parts of [] \<Rightarrow> [] | p # ps \<Rightarrow> p @ concat (map (\<lambda>q. sep @ q) ps))"

definition is_alnum :: "char \<Rightarrow> bool" where
  "is_alnum c = (let n = (of_char (lower_char c) :: nat) in (97 \<le> n \<and> n \<le> 122) \<or> digit_val c \<noteq> None)"

definition prometheus_metric_name :: "string \<Rightarrow> string" where
  "prometheus_metric_name name =
     (let sanitized = join_with ''_'' (filter (\<lambda>p. p \<noteq> []) (split_on CHR ''_'' (map (\<lambda>c. if is_alnum c then c else CHR ''_'') (map lower_char name))))
      in if sanitized = [] then ''metric''
         else if digit_val (hd sanitized) \<noteq> None then ''metric_'' @ sanitized else sanitized)"

text \<open>The lines of one metric; a value that is no number is left out. \<open>str_of\<close> is \<open>str\<close>.\<close>

definition prometheus_lines :: "(pyval \<Rightarrow> string) \<Rightarrow> string \<times> pyval \<Rightarrow> string list" where
  "prometheus_lines str_of m =
     (case m of (raw, v) \<Rightarrow>
        (case numeric_metric v of
           None \<Rightarrow> []
         | Some n \<Rightarrow>
             (let name = ''gr_serving_'' @ prometheus_metric_name raw in
              [''# HELP '' @ name @ '' GR serving metric '' @ raw @ ''.'', ''# TYPE '' @ name @ '' gauge'', name @ '' '' @ str_of n])))"

definition prometheus_metrics_text :: "(pyval \<Rightarrow> string) \<Rightarrow> (string, pyval) dict \<Rightarrow> string" where
  "prometheus_metrics_text str_of metrics =
     join_with [CHR 10]
       ([''# HELP gr_serving_info GR serving Prometheus exporter info.'', ''# TYPE gr_serving_info gauge'', ''gr_serving_info 1'']
        @ concat (map (prometheus_lines str_of) (sort_key fst metrics))) @ [CHR 10]"

section \<open>Answers of the generate route\<close>

text \<open>The token ids of the best beam: from the normalised results, from the beam details, or the first
  token of the response repeated.\<close>

definition list_items :: "pyval \<Rightarrow> pyval list option" where
  "list_items v = (case v of PList xs \<Rightarrow> Some xs | _ \<Rightarrow> None)"

definition first_detail_tokens :: "pyval \<Rightarrow> pyval list option" where
  "first_detail_tokens v =
     (case v of
        PDict d \<Rightarrow> Option.bind (Option.bind (map_of d ''beams'') list_items) (\<lambda>beams.
          case beams of PDict b # _ \<Rightarrow> Option.bind (map_of b ''token_ids'') list_items | _ \<Rightarrow> None)
      | PList (PDict b # _) \<Rightarrow> Option.bind (map_of b ''token_ids'') list_items
      | _ \<Rightarrow> None)"

definition first_row_tokens :: "pyval list \<Rightarrow> pyval list option" where
  "first_row_tokens rows =
     (case rows of PDict row # _ \<Rightarrow> Option.bind (map_of row ''output_ids'') list_items | _ \<Rightarrow> None)"

definition top_beam_token_ids :: "GRServingResponse \<Rightarrow> int \<Rightarrow> pyval list \<Rightarrow> int list py_result" where
  "top_beam_token_ids resp max_new beam_rows =
     (case first_row_tokens beam_rows of
        Some ids \<Rightarrow> map_res py_int (py_take max_new ids)
      | None \<Rightarrow>
          (case first_detail_tokens (get_or (resp_metadata resp) ''beam_details'' PNone) of
             Some ids \<Rightarrow> map_res py_int (py_take max_new ids)
           | None \<Rightarrow> Inr (case resp_token_ids resp of [] \<Rightarrow> [] | t # _ \<Rightarrow> replicate (nat max_new) t)))"

text \<open>\<open>path_opt\<close> is the beam path in the metadata, when the executor has left one there.\<close>

definition sglang_response ::
  "(pyval \<Rightarrow> string) \<Rightarrow> BeamPath option \<Rightarrow> GRServingResponse \<Rightarrow> GRServingRequest \<Rightarrow> (string, pyval) dict py_result" where
  "sglang_response str_of path_opt resp r =
     (let meta = resp_metadata resp in
      bind_res (py_int (get_or meta ''requested_max_new_tokens'' (PInt (req_max_decode_steps r + 1)))) (\<lambda>max_new.
      bind_res (normalized_beam_results_from_metadata str_of meta path_opt max_new) (\<lambda>rows.
      bind_res (top_beam_token_ids resp max_new rows) (\<lambda>tokens.
        let info = [(''completion_tokens'', PInt (req_beam_width r * max_new)),
                    (''prompt_tokens'', opt_int (input_context_len (req_input_ids r))),
                    (''finish_reason'', get_or meta ''stop_reason'' (PStr ''max_decode_steps'')),
                    (''request_id'', PStr (resp_request_id resp)), (''token_ids'', PList (map PInt tokens)),
                    (''beam_width'', PInt (req_beam_width r))]
                   @ (if rows = [] then [] else [(''beam_results'', PList rows)])
        in Inr [(''text'', PStr (join_with '' '' (map str_int tokens))), (''output_ids'', PList (map PInt tokens)),
                (''meta_info'', PDict info)]))))"


section \<open>Routes\<close>

text \<open>What surrounds a call: the JSON reader, \<open>str\<close>, the generated request id, what other threads do to the
  backend while a request sleeps, and the number of polls that fit in the 300 seconds of a generate call.\<close>

record 'b http_env =
  env_json :: "string \<Rightarrow> pyval option"
  env_str :: "pyval \<Rightarrow> string"
  env_fresh_id :: string
  env_others :: "'b \<Rightarrow> 'b"
  env_polls :: nat

type_synonym 'b http_step = "http_response http_result \<times> 'b"

definition call_backend :: "('b \<Rightarrow> 'a py_result \<times> 'b) \<Rightarrow> 'b \<Rightarrow> 'a http_result \<times> 'b" where
  "call_backend f b = (case f b of (r, b1) \<Rightarrow> (lift_exc r, b1))"

definition get_route :: "'b backend_ops \<Rightarrow> http_adapter \<Rightarrow> 'b http_env \<Rightarrow> string list \<Rightarrow> 'b \<Rightarrow> http_response http_result option" where
  "get_route B a env route b =
     (if route = [''health''] then Some (Inr (http_ok 200 [(''ok'', PBool True)]))
      else if route = [''ready''] then Some (bind_res (lift_exc (readiness_payload (ad_policy a) (be_status B b))) (\<lambda>d. Inr (http_ok 200 d)))
      else if route = [''config''] then Some (Inr (http_ok 200 (config_payload a (be_status B b))))
      else if route = [''build''] then Some (Inr (http_ok 200 [(''build'', PDict (ad_build_info a))]))
      else if route = [''v1'', ''models''] then Some (Inr (http_ok 200 (models_payload (ad_build_info a))))
      else if route = [''status''] then Some (Inr (http_ok 200 (be_status B b)))
      else if route = [''metrics''] then Some (Inr (http_ok 200 (be_metrics B b)))
      else if route = [''metrics'', ''prometheus'']
      then Some (Inr (http_text ''text/plain; version=0.0.4; charset=utf-8'' (prometheus_metrics_text (env_str env) (be_metrics B b))))
      else if route = [''requests'']
      then Some (bind_res (lift_exc (be_request_statuses B b)) (\<lambda>ds. Inr (http_ok 200 [(''requests'', PList (map PDict ds))])))
      else if length route = 2 \<and> hd route = ''requests''
      then Some (bind_res (lift_exc (be_request_status B (route ! 1) b)) (\<lambda>d. Inr (http_ok 200 [(''request'', PDict d)])))
      else if route = [''catalog'', ''status'']
      then Some (Inr (http_ok 200 [(''catalog'', case be_catalog_status B b of None \<Rightarrow> PNone | Some d \<Rightarrow> PDict d)]))
      else if route = [''kv'', ''events''] then Some (Inr (http_ok 200 (kv_events_payload (be_status B b))))
      else if length route = 2 \<and> hd route = ''poll''
      then (let r = be_poll B (route ! 1) b in
            Some (Inr (http_ok 200 [(''ready'', PBool (r \<noteq> None)),
                                    (''response'', case r of None \<Rightarrow> PNone | Some x \<Rightarrow> PDict (response_payload x))])))
      else if length route = 2 \<and> hd route = ''result''
      then Some (bind_res (lift_exc (be_require_result B (route ! 1) b)) (\<lambda>r. Inr (http_ok 200 (response_payload r))))
      else None)"

definition submit_route :: "'b backend_ops \<Rightarrow> http_adapter \<Rightarrow> (string, pyval) dict \<Rightarrow> 'b \<Rightarrow> 'b http_step" where
  "submit_route B a payload b =
     bind_st (bind_res (validate_admission (ad_policy a) (be_status B b) 1) (\<lambda>_.
              bind_res (lift_exc (make_request a payload)) (\<lambda>r.
              bind_res (validate_http_request (ad_policy a) r) (\<lambda>_. Inr r))), b) (\<lambda>r b1.
     bind_st (call_backend (be_submit B r) b1) (\<lambda>rid b2. (Inr (http_ok 202 [(''request_id'', PStr rid)]), b2)))"

definition submit_many_route :: "'b backend_ops \<Rightarrow> http_adapter \<Rightarrow> (string, pyval) dict \<Rightarrow> 'b \<Rightarrow> 'b http_step" where
  "submit_many_route B a payload b =
     bind_st (bind_res (lift_exc (payload_list payload ''requests'')) (\<lambda>rows.
              if over_limit (int (length rows)) (max_submit_many (ad_policy a))
              then Inl (adapter_error 413 ''too_many_requests'' ''requests exceeds max_submit_many'' False [])
              else
                bind_res (validate_admission (ad_policy a) (be_status B b) (int (length rows))) (\<lambda>_.
                bind_res (lift_exc (map_res (make_request a) rows)) (\<lambda>rs.
                bind_res (map_res (validate_http_request (ad_policy a)) rs) (\<lambda>_. Inr rs)))), b) (\<lambda>rs b1.
     bind_st (call_backend (be_submit_many B rs) b1) (\<lambda>ids b2. (Inr (http_ok 202 [(''request_ids'', PList (map PStr ids))]), b2)))"

definition worker_is_running :: "(string, pyval) dict \<Rightarrow> bool" where
  "worker_is_running status \<longleftrightarrow>
     (case get_or status ''worker'' PNone of PDict w \<Rightarrow> py_truthy (get_or w ''running'' (PBool False)) | _ \<Rightarrow> False)"

text \<open>\<open>_wait_for_response\<close>: poll, tick by hand when nobody else does, sleep.\<close>

definition wait_tick :: "'b backend_ops \<Rightarrow> http_adapter \<Rightarrow> 'b \<Rightarrow> unit http_result \<times> 'b" where
  "wait_tick B a b =
     (if allow_manual_tick (ad_policy a) \<and> \<not> worker_is_running (be_status B b)
      then bind_st (call_backend (be_tick B) b) (\<lambda>_ b1. (Inr (), b1)) else (Inr (), b))"

fun wait_for_response :: "'b backend_ops \<Rightarrow> http_adapter \<Rightarrow> ('b \<Rightarrow> 'b) \<Rightarrow> nat \<Rightarrow> string \<Rightarrow> 'b \<Rightarrow> GRServingResponse http_result \<times> 'b" where
  "wait_for_response B a others n rid b =
     (case be_poll B rid b of
        Some r \<Rightarrow> (Inr r, b)
      | None \<Rightarrow>
          bind_st (wait_tick B a b) (\<lambda>_ b1.
            case n of
              0 \<Rightarrow> (Inl (adapter_error 504 ''generate_timeout'' ''generate timed out waiting for request_id'' True []), b1)
            | Suc m \<Rightarrow> wait_for_response B a others m rid (others b1)))"

declare wait_for_response.simps [simp del]

definition generate_route :: "'b backend_ops \<Rightarrow> http_adapter \<Rightarrow> 'b http_env \<Rightarrow> (string, pyval) dict \<Rightarrow> 'b \<Rightarrow> 'b http_step" where
  "generate_route B a env payload b =
     bind_st (bind_res (validate_admission (ad_policy a) (be_status B b) 1) (\<lambda>_.
              bind_res (lift_exc (sglang_payload (env_str env) (env_fresh_id env) payload)) (\<lambda>gr.
              bind_res (lift_exc (make_request a gr)) (\<lambda>r.
              bind_res (validate_http_request (ad_policy a) r) (\<lambda>_. Inr r)))), b) (\<lambda>r b1.
     bind_st (call_backend (be_submit B r) b1) (\<lambda>rid b2.
     bind_st (wait_for_response B a (env_others env) (env_polls env) rid b2) (\<lambda>resp b3.
       (bind_res (lift_exc (sglang_response (env_str env) None resp r)) (\<lambda>d. Inr (http_ok 200 d)), b3))))"

definition route_disabled :: "string \<Rightarrow> http_exc" where
  "route_disabled msg = adapter_error 403 ''route_disabled'' msg False []"

definition tick_route :: "'b backend_ops \<Rightarrow> http_adapter \<Rightarrow> 'b \<Rightarrow> 'b http_step" where
  "tick_route B a b =
     (if \<not> allow_manual_tick (ad_policy a) then (Inl (route_disabled ''manual tick is disabled''), b)
      else bind_st (call_backend (be_tick B) b) (\<lambda>t b1. (Inr (http_ok 200 (tick_metadata t)), b1)))"

text \<open>A run, or nothing when its fuel ends.\<close>

definition run_route :: "'b backend_ops \<Rightarrow> http_adapter \<Rightarrow> (string, pyval) dict \<Rightarrow> 'b \<Rightarrow> 'b http_step option" where
  "run_route B a payload b =
     (if \<not> allow_manual_tick (ad_policy a) then Some (Inl (route_disabled ''manual run_until_idle is disabled''), b)
      else case optional_int payload ''max_ticks'' of
             Inl e \<Rightarrow> Some (Inl (Raised e), b)
           | Inr m \<Rightarrow>
               map_option (\<lambda>(r, b1). (bind_res (lift_exc r) (\<lambda>rs.
                   Inr (http_ok 200 [(''responses'', PList (map (\<lambda>x. PDict (response_payload x)) rs))])), b1))
                 (be_run_until_idle B m (py_truthy (get_or payload ''timeout_unfinished'' (PBool False))) b))"

definition cancel_route :: "'b backend_ops \<Rightarrow> (pyval \<Rightarrow> string) \<Rightarrow> (string, pyval) dict \<Rightarrow> 'b \<Rightarrow> 'b http_step" where
  "cancel_route B str_of payload b =
     bind_st (lift_exc (required_str payload ''request_id''), b) (\<lambda>rid b1.
     bind_st (call_backend (be_cancel B rid (str_of (get_or payload ''reason'' (PStr ''cancelled'')))) b1) (\<lambda>r b2.
       (Inr (http_ok 200 (response_payload r)), b2)))"

text \<open>A stop timeout is read as a float when the backend has a thread to stop.\<close>

definition shutdown_route :: "'b backend_ops \<Rightarrow> (string, pyval) dict \<Rightarrow> 'b \<Rightarrow> 'b http_step option" where
  "shutdown_route B payload b =
     (case bind_res (optional_int payload ''max_ticks'') (\<lambda>m.
           bind_res (if be_has_stop B then (case map_of payload ''stop_timeout_s'' of None \<Rightarrow> Inr () | Some v \<Rightarrow> bind_res (py_float v) (\<lambda>_. Inr ()))
                     else Inr ()) (\<lambda>_. Inr m)) of
        Inl e \<Rightarrow> Some (Inl (Raised e), b)
      | Inr m \<Rightarrow>
          map_option (\<lambda>(r, b1). (bind_res (lift_exc r) (\<lambda>(out, w). Inr (http_ok 200 (shutdown_payload out w))), b1))
            (be_shutdown B m (py_truthy (get_or payload ''timeout_unfinished'' (PBool False))) b))"

definition catalog_answer :: "'b backend_ops \<Rightarrow> int \<Rightarrow> 'b \<Rightarrow> http_response" where
  "catalog_answer B version b =
     http_ok 200 [(''version'', PInt version), (''catalog'', case be_catalog_status B b of None \<Rightarrow> PNone | Some d \<Rightarrow> PDict d)]"

definition reload_options :: "(pyval \<Rightarrow> string) \<Rightarrow> (string, pyval) dict \<Rightarrow> catalog_options" where
  "reload_options str_of payload =
     \<lparr>item_id_field = str_of (get_or payload ''item_id_field'' (PStr ''item_id'')),
      token_ids_field = str_of (get_or payload ''token_ids_field'' (PStr ''token_ids'')),
      metadata_field = (case get_or payload ''metadata_field'' (PStr ''metadata'') of PStr f \<Rightarrow> Some f | _ \<Rightarrow> None),
      opt_vocab_size = None,
      allow_duplicate_item_ids = py_truthy (get_or payload ''allow_duplicate_item_ids'' (PBool False)),
      allow_duplicate_token_paths = py_truthy (get_or payload ''allow_duplicate_token_paths'' (PBool False))\<rparr>"

definition reload_route :: "'b backend_ops \<Rightarrow> http_adapter \<Rightarrow> (pyval \<Rightarrow> string) \<Rightarrow> (string, pyval) dict \<Rightarrow> 'b \<Rightarrow> 'b http_step" where
  "reload_route B a str_of payload b =
     (if \<not> allow_catalog_reload (ad_policy a) then (Inl (route_disabled ''catalog reload is disabled''), b)
      else
        bind_st (bind_res (lift_exc (required_str payload ''path'')) (\<lambda>path.
                 bind_res (lift_exc (required_int payload ''vocab_size'')) (\<lambda>vocab.
                 bind_res (lift_exc (optional_int payload ''eos_token_id'')) (\<lambda>eos. Inr (path, vocab, eos)))), b) (\<lambda>(path, vocab, eos) b1.
        bind_st (call_backend (be_reload_jsonl B (reload_options str_of payload) path vocab eos
                   (py_truthy (get_or payload ''allow_eos_for_terminal'' (PBool True)))) b1) (\<lambda>v b2.
          (Inr (catalog_answer B v b2), b2))))"

definition rollback_route :: "'b backend_ops \<Rightarrow> http_adapter \<Rightarrow> 'b \<Rightarrow> 'b http_step" where
  "rollback_route B a b =
     (if \<not> allow_catalog_reload (ad_policy a) then (Inl (route_disabled ''catalog rollback is disabled''), b)
      else case be_rollback B of
             None \<Rightarrow> (Inl (Raised (AttributeError ''no attribute rollback_item_catalog'')), b)
           | Some f \<Rightarrow> bind_st (call_backend f b) (\<lambda>v b1. (Inr (catalog_answer B v b1), b1)))"

definition post_route ::
  "'b backend_ops \<Rightarrow> http_adapter \<Rightarrow> 'b http_env \<Rightarrow> string list \<Rightarrow> (string, pyval) dict \<Rightarrow> 'b \<Rightarrow> 'b http_step option option" where
  "post_route B a env route payload b =
     (if route = [''submit''] then Some (Some (submit_route B a payload b))
      else if route = [''submit_many''] then Some (Some (submit_many_route B a payload b))
      else if route = [''generate''] then Some (Some (generate_route B a env payload b))
      else if route = [''tick''] then Some (Some (tick_route B a b))
      else if route = [''run_until_idle''] then Some (run_route B a payload b)
      else if route = [''cancel''] then Some (Some (cancel_route B (env_str env) payload b))
      else if route = [''drain'']
      then Some (Some (case be_drain B b of (l, b1) \<Rightarrow> (Inr (http_ok 200 [(''lifecycle'', PDict l)]), b1)))
      else if route = [''shutdown''] then Some (shutdown_route B payload b)
      else if route = [''catalog'', ''reload''] then Some (Some (reload_route B a (env_str env) payload b))
      else if route = [''catalog'', ''rollback''] then Some (Some (rollback_route B a b))
      else None)"

definition dispatch ::
  "'b backend_ops \<Rightarrow> http_adapter \<Rightarrow> 'b http_env \<Rightarrow> string \<Rightarrow> string list \<Rightarrow> (string, pyval) dict \<Rightarrow> 'b \<Rightarrow> 'b http_step option" where
  "dispatch B a env meth route payload b =
     (let unknown = Some (Inr (plain_error 404 ''http_error'' ''unknown route'' False), b) in
      if meth = ''GET'' then (case get_route B a env route b of Some r \<Rightarrow> Some (r, b) | None \<Rightarrow> unknown)
      else if meth = ''POST'' then (case post_route B a env route payload b of Some s \<Rightarrow> s | None \<Rightarrow> unknown)
      else unknown)"

section \<open>Handling a request\<close>

definition upper_char :: "char \<Rightarrow> char" where
  "upper_char c = (let n = (of_char c :: nat) in if 97 \<le> n \<and> n \<le> 122 then char_of (n - 32) else c)"

text \<open>\<open>handle\<close>: \<open>Inl\<close> is an exception that leaves it, \<open>None\<close> a run whose fuel ended.\<close>

definition handle ::
  "'b backend_ops \<Rightarrow> http_adapter \<Rightarrow> 'b http_env \<Rightarrow> string \<Rightarrow> string \<Rightarrow> request_body \<Rightarrow> (string \<times> string) list \<Rightarrow> 'b
   \<Rightarrow> (http_response py_result \<times> 'b) option" where
  "handle B a env meth path body hs b =
     (case route_path path of
        Inl e \<Rightarrow> Some (Inl e, b)
      | Inr route \<Rightarrow>
          map_option (\<lambda>(r, b1). (case r of Inl e \<Rightarrow> error_mapping e | Inr resp \<Rightarrow> Inr resp, b1))
            (case bind_res (validate_auth a (map upper_char meth) route hs) (\<lambda>_.
                  bind_res (validate_body_size (ad_policy a) body) (\<lambda>_. lift_exc (json_payload (env_json env) body))) of
               Inl e \<Rightarrow> Some (Inl e, b)
             | Inr payload \<Rightarrow> dispatch B a env (map upper_char meth) route payload b))"

text \<open>The line \<open>_emit_request_log\<close> writes, when logging is on; \<open>elapsed\<close> is the time in milliseconds.\<close>

definition request_log_line ::
  "http_adapter \<Rightarrow> string \<Rightarrow> string \<Rightarrow> string list \<Rightarrow> http_response \<Rightarrow> rat \<Rightarrow> (string, pyval) dict option" where
  "request_log_line a meth path route resp elapsed =
     (if \<not> ad_request_logging a then None
      else Some ([(''event'', PStr ''gr_http_request''), (''method'', PStr meth), (''path'', PStr path),
                  (''route'', PStr (''/'' @ join_with ''/'' route)), (''status'', PInt (http_status resp)),
                  (''elapsed_ms'', PFloat (Fin elapsed))]
                 @ (case http_body resp of
                      JsonBody (PDict d) \<Rightarrow>
                        (case map_of d ''request_id'' of None \<Rightarrow> [] | Some v \<Rightarrow> [(''request_id'', v)])
                        @ (case get_or d ''error'' PNone of PDict e \<Rightarrow> [(''error_code'', get_or e ''code'' PNone)] | _ \<Rightarrow> [])
                    | _ \<Rightarrow> [])))"

text \<open>The headers on the wire, for a body of \<open>n\<close> bytes.\<close>

definition wire_headers :: "http_response \<Rightarrow> nat \<Rightarrow> (string \<times> string) list" where
  "wire_headers resp n =
     [(''Content-Type'', case map_of (http_headers resp) ''Content-Type'' of None \<Rightarrow> ''application/json'' | Some t \<Rightarrow> t),
      (''Content-Length'', str_int (int n))]
     @ filter (\<lambda>(k, _). map lower_char k \<notin> {''content-type'', ''content-length''}) (http_headers resp)"


end
