(* ===== verification/GR_Worker_Props.thy ===== *)
theory GR_Worker_Props
  imports GR_Worker GR_Exec_Inv
begin

text \<open>
  Properties of the serving worker: under every interleaving of clients and worker the accepted requests
  reach the scheduler once each and in order; the thread serves all of them; and the two ways a
  submission can be lost, a facade that is draining and a shutdown.
\<close>

section \<open>The requests a scheduler knows\<close>

text \<open>Submissions apart, no operation forgets or invents a request.\<close>

definition known_ids :: "sched \<Rightarrow> string list" where
  "known_ids s = dict_keys (states s)"

lemma known_set_state: "map_of (states s) i \<noteq> None \<Longrightarrow> known_ids (set_state i st s) = known_ids s"
  using dict_set_keys_old [of i "states s" st] unfolding map_of_None_iff_keys by (simp add: known_ids_def set_state_def)

lemma known_update [simp]:
  "known_ids (s\<lparr>waiting_prefill := q\<rparr>) = known_ids s" "known_ids (s\<lparr>decoding := d\<rparr>) = known_ids s" "known_ids (s\<lparr>kv_alloc := a\<rparr>) = known_ids s"
  "known_ids (s\<lparr>tick_count := t\<rparr>) = known_ids s" "known_ids (s\<lparr>kv_events := ev\<rparr>) = known_ids s"
  by (simp_all add: known_ids_def)

lemma allocate_kv_lease_known: "known_ids (snd (allocate_kv_lease r s)) = known_ids s \<and> states (snd (allocate_kv_lease r s)) = states s"
  by (auto simp: allocate_kv_lease_def record_kv_event_def bind_st_def Let_def known_ids_def split: sum.splits prod.splits)

lemma admit_request_known: "admit_request r s = (res, s') \<Longrightarrow> known_ids s' = known_ids s"
proof (cases "map_of (states s) (request_id r)")
  case (Some st)
  assume a: "admit_request r s = (res, s')"
  obtain l s1 where l: "allocate_kv_lease r s = (l, s1)" by fastforce
  have s1: "known_ids s1 = known_ids s" "states s1 = states s" using allocate_kv_lease_known [of r s] l by simp_all
  have in1: "map_of (states (set_state (request_id r) st1 s1)) (request_id r) \<noteq> None" "map_of (states s1) (request_id r) \<noteq> None" for st1
    using Some s1(2) by (simp_all add: set_state_def dict_lookup)
  show ?thesis
    using a l Some s1 known_set_state [OF in1(1)] known_set_state [OF in1(2)]
    by (cases l) (auto simp: admit_request_def Let_def split: sum.splits)
qed (simp add: admit_request_def)

lemma admit_loop_known: "admit_loop q adm s = (res, s') \<Longrightarrow> known_ids s' = known_ids s"
proof (induction q arbitrary: adm s res)
  case (Cons r q)
  consider (stop) "known_ids s' = known_ids s"
    | (admit) s1 where "admit_request r (s\<lparr>waiting_prefill := q\<rparr>) = (Inr (), s1)" "admit_loop q (adm @ [request_id r]) s1 = (res, s')"
    | (fail) e where "admit_request r (s\<lparr>waiting_prefill := q\<rparr>) = (Inl e, s')"
    using Cons.prems by (auto simp: Let_def bind_st_def known_ids_def split: if_splits sum.splits prod.splits)
  then show ?case
  proof cases
    case admit
    then show ?thesis using Cons.IH [OF admit(2)] admit_request_known [OF admit(1)] by simp
  next
    case fail
    then show ?thesis using admit_request_known [OF fail] by simp
  qed simp
qed simp

lemma admit_known:
  assumes inv: "sched_inv s" and a: "admit_prefill_batch s = (res, s')"
  shows "known_ids s' = known_ids s"
proof (cases res)
  case (Inr ids)
  then show ?thesis using admit_prefill_batch_spec [OF inv] a by (auto simp: known_ids_def)
next
  case (Inl e)
  obtain r1 s1 where l: "admit_loop (waiting_prefill s) [] s = (r1, s1)" by fastforce
  show ?thesis
  proof (cases r1)
    case (Inl e')
    then show ?thesis using a l admit_loop_known [OF l] by (simp add: admit_prefill_batch_def)
  next
    case (Inr p)
    have front: "push_front_all rs t = (res', t') \<Longrightarrow> known_ids t' = known_ids t" for rs t res' t'
    proof (induction rs arbitrary: t)
      case (Cons r rs)
      then show ?case by (auto split: sum.splits)
    qed simp
    obtain r2 s2 where f: "push_front_all (rev (snd p)) s1 = (r2, s2)" by fastforce
    have "known_ids s' = known_ids s2"
      using a l f Inr by (cases p; cases r2) (auto simp: admit_prefill_batch_def known_ids_def split: if_splits)
    then show ?thesis using front [OF f] admit_loop_known [OF l] by simp
  qed
qed

lemma cancel_known: "sched_inv s \<Longrightarrow> known_ids (snd (cancel i reason s)) = known_ids s"
proof (cases "map_of (states s) i")
  case (Some st)
  assume inv: "sched_inv s"
  obtain st' s1 where m: "mark_finished reason st s = (st', s1)" by (cases "mark_finished reason st s")
  then have "states s1 = dict_set i st' (states s)" using mark_finished_core [OF inv Some] by blast
  then have "known_ids s1 = known_ids s" using dict_set_keys_old [OF map_of_Some_keys [OF Some]] by (simp add: known_ids_def)
  then show ?thesis using Some m by (auto simp: cancel_def Let_def known_ids_def split: option.splits)
qed (auto simp: cancel_def split: option.splits)

lemma fail_known: "sched_inv s \<Longrightarrow> known_ids (snd (fail i reason err s)) = known_ids s"
proof (cases "map_of (states s) i")
  case (Some st)
  assume inv: "sched_inv s"
  obtain resp s' where "fail_state reason err st s = (Inr resp, s')" "shrinks s s' (\<lambda>j. j \<noteq> i)"
    using fail_state_shrinks [OF inv Some] by blast
  then show ?thesis using Some shrinksD(6) [of s s'] by (auto simp: fail_def known_ids_def split: option.splits)
qed (auto simp: fail_def split: option.splits)

lemma fail_each_known: "sched_inv s \<Longrightarrow> known_ids (snd (fail_each ids reason err s)) = known_ids s"
proof (induction ids arbitrary: s)
  case (Cons i ids)
  have "known_ids (snd (fail i reason err s)) = known_ids s" "sched_inv (snd (fail i reason err s))"
    using fail_known fail_inv Cons.prems by blast+
  then show ?case using Cons.IH [of "snd (fail i reason err s)"] by (auto simp: bind_st_def split: sum.splits prod.splits)
qed simp

lemma fail_unfinished_known: "sched_inv s \<Longrightarrow> known_ids (snd (fail_unfinished reason err s)) = known_ids s"
  unfolding fail_unfinished_def
  using fail_each_known [of s] fail_each_inv [of s] fail_each_known
  by (auto simp: bind_st_def split: sum.splits prod.splits) (metis snd_conv)+

lemma tick_known:
  assumes inv: "sched_inv s"
  shows "known_ids (snd (tick None default_decode s)) = known_ids s"
proof -
  obtain ids s1 keep where t: "fail_timed_out_requests (s\<lparr>tick_count := tick_count s + 1\<rparr>) = (Inr ids, s1)"
    "shrinks (s\<lparr>tick_count := tick_count s + 1\<rparr>) s1 keep"
    using timeouts_spec [OF sched_inv_later [OF inv]] by blast
  obtain res s2 where a: "admit_prefill_batch s1 = (res, s2)" by fastforce
  have k2: "known_ids s2 = known_ids s"
    using admit_known [OF shrinksD(1) [OF t(2)] a] shrinksD(6) [OF t(2)] by (simp add: known_ids_def)
  show ?thesis
  proof (cases res)
    case (Inl e)
    then show ?thesis using t(1) a k2 by (simp add: tick_def)
  next
    case (Inr adm)
    then have inv2: "sched_inv s2" using admit_prefill_batch_spec [OF shrinksD(1) [OF t(2)]] a by auto
    obtain bs where "fst (plan_decode_batches s2) = Inr bs" using plan_spec [OF inv2] by auto
    then obtain s3 where p: "plan_decode_batches s2 = (Inr bs, s3)" by (cases "plan_decode_batches s2") auto
    note P = plan_planned [OF inv2 p]
    then have inv3: "sched_inv s3" and pl: "planned s3 bs" by blast+
    obtain s4 where d: "default_decode bs s3 = (Inr (filter (ends_at (states s3)) (concat (map batch_request_ids bs))), s4)"
      "dict_keys (states s4) = dict_keys (states s3)"
      using default_decode_spec [OF inv3 pl] by blast
    have "known_ids s3 = known_ids s2" using P by (simp add: known_ids_def)
    then show ?thesis
      using t(1) a Inr p d k2 by (simp add: tick_def tick_decode_def finish_tick_def Let_def known_ids_def)
  qed
qed

lemma tick_inv_default: "sched_inv s \<Longrightarrow> sched_inv (snd (tick None default_decode s))"
  using tick_default [of s] by (cases "tick None default_decode s"; cases "fst (tick None default_decode s)") auto

lemma run_loop_known:
  assumes "sched_inv s" and "run_loop fuel ticks m tu s = Some (r, s')"
  shows "known_ids s' = known_ids s \<and> sched_inv s'"
  using assms
proof (induction fuel arbitrary: s ticks)
  case (Suc fuel)
  obtain res s1 where t: "tick None default_decode s = (res, s1)" by fastforce
  have t': "known_ids s1 = known_ids s" "sched_inv s1" using tick_known [OF Suc.prems(1)] tick_inv_default [OF Suc.prems(1)] t by simp_all
  obtain res' s2 where f: "fail_unfinished ''timeout'' None s = (res', s2)" by fastforce
  have f': "known_ids s2 = known_ids s" "sched_inv s2"
    using fail_unfinished_known [OF Suc.prems(1)] fail_unfinished_inv [OF Suc.prems(1)] f by (metis snd_conv)+
  show ?case
  proof (cases "waiting_prefill s = [] \<and> decoding s = []")
    case True
    then show ?thesis using Suc.prems by simp
  next
    case False
    then show ?thesis
      using Suc.prems Suc.IH [OF t'(2)] t t' f f'
      by (cases res; cases res') (auto split: if_splits option.splits)
  qed
qed simp


section \<open>A batch of submissions\<close>

lemma prepare_keeps [simp]:
  "validate_request (prepare_request f r) = validate_request r" "constructed_policy (prepare_request f r) = constructed_policy r"
  "request_context_tokens (prepare_request f r) = request_context_tokens r" "request_beam_slots (prepare_request f r) = request_beam_slots r"
proof -
  have "prepare_request f r = r\<lparr>item_mask_provider := item_mask_provider (prepare_request f r)\<rparr>"
    by (auto simp: prepare_request_def split: option.split)
  then obtain p where "prepare_request f r = r\<lparr>item_mask_provider := p\<rparr>" by blast
  then show "validate_request (prepare_request f r) = validate_request r" "constructed_policy (prepare_request f r) = constructed_policy r"
    "request_context_tokens (prepare_request f r) = request_context_tokens r" "request_beam_slots (prepare_request f r) = request_beam_slots r"
    by (simp_all add: validate_request_def constructed_policy_def request_context_tokens_def request_beam_slots_def)
qed

lemma queued_after_known [simp]: "known_ids (queued_after rs s) = known_ids s @ map request_id rs"
  by (simp add: queued_after_def known_ids_def comp_def)

lemma queued_after_inv:
  assumes "sched_inv s" and "\<forall>r \<in> set rs. validate_request r = Inr () \<and> constructed_policy r" and "distinct (known_ids s @ map request_id rs)"
  shows "sched_inv (queued_after rs s)"
  using assms
proof (induction rs arbitrary: s)
  case Nil
  then show ?case by (simp add: queued_after_def sched_inv_def)
next
  case (Cons r rs)
  have "submit r s = (Inr (), queued_after [r] s)" using submit_fresh [of r s] Cons.prems by (simp add: known_ids_def)
  then have "sched_inv (queued_after [r] s)" using submit_inv [OF Cons.prems(1), of r] Cons.prems(2) by simp
  then have "sched_inv (queued_after rs (queued_after [r] s))" using Cons.IH Cons.prems by simp
  then show ?case by (simp add: queued_after_def add.assoc)
qed

lemma queued_after_tracked: "tracked s \<Longrightarrow> tracked (queued_after rs s)"
  by (auto simp: tracked_def queued_after_def)

section \<open>Clients and worker interleaved\<close>

text \<open>One step of anybody, over a worker and the batch the holder of the main lock has taken from the
  pending queue. Clients submit at any time, since the pending queue has a lock of its own; all other
  steps are of the holder of the main lock.\<close>

datatype worker_event = Accepted "GRServingRequest list" | Lost "GRServingRequest list" | Draining | Quiet

inductive worker_step :: "worker \<times> GRServingRequest list \<Rightarrow> worker_event \<Rightarrow> worker \<times> GRServingRequest list \<Rightarrow> bool" where
  submit: "worker_submit r w = (Inr i, w') \<Longrightarrow> worker_step (w, batch) (Accepted [r]) (w', batch)"
| submit_many: "worker_submit_many rs w = (Inr ids, w') \<Longrightarrow> worker_step (w, batch) (Accepted rs) (w', batch)"
| take: "wk_pending w \<noteq> [] \<Longrightarrow> worker_step (w, []) Quiet (w\<lparr>wk_pending := []\<rparr>, wk_pending w)"
| deliver: "batch \<noteq> [] \<Longrightarrow> on_facade (facade_submit_many batch) w = (Inr ids, w') \<Longrightarrow> worker_step (w, batch) Quiet (w', [])"
| lose: "batch \<noteq> [] \<Longrightarrow> on_facade (facade_submit_many batch) w = (Inl e, w') \<Longrightarrow> worker_step (w, batch) (Lost batch) (w', [])"
| tick: "on_facade facade_tick w = (res, w') \<Longrightarrow> worker_step (w, []) Quiet (w', [])"
| run: "run_until_idle fuel m tu (wk_facade w) = Some (res', f) \<Longrightarrow> worker_step (w, []) Quiet (w\<lparr>wk_facade := f\<rparr>, [])"
| cancel: "worker_cancel rid reason w = (resp, w') \<Longrightarrow> worker_step (w, []) Quiet (w', [])"
| drain: "worker_drain w = (lifecycle, w') \<Longrightarrow> worker_step (w, []) Draining (w', [])"
| note_it: "wk_facade w' = wk_facade w \<Longrightarrow> wk_pending w' = wk_pending w \<Longrightarrow> worker_step (w, batch) Quiet (w', batch)"

inductive worker_run :: "worker \<times> GRServingRequest list \<Rightarrow> worker_event list \<Rightarrow> worker \<times> GRServingRequest list \<Rightarrow> bool" where
  start: "worker_run c [] c"
| step: "worker_run c evs c1 \<Longrightarrow> worker_step c1 e c2 \<Longrightarrow> worker_run c (evs @ [e]) c2"

fun accepted_by :: "worker_event \<Rightarrow> GRServingRequest list" where
  "accepted_by (Accepted rs) = rs"
| "accepted_by _ = []"

definition accepted :: "worker_event list \<Rightarrow> GRServingRequest list" where
  "accepted evs = concat (map accepted_by evs)"

lemma accepted_simps [simp]: "accepted [] = []" "accepted (evs @ evs') = accepted evs @ accepted evs'" "accepted [e] = accepted_by e"
  by (simp_all add: accepted_def)

abbreviation sched_of :: "worker \<Rightarrow> sched" where
  "sched_of w \<equiv> fac_scheduler (wk_facade w)"

text \<open>What every configuration of a run satisfies while the facade accepts requests.\<close>

definition in_order :: "string list \<Rightarrow> GRServingRequest list \<Rightarrow> worker \<times> GRServingRequest list \<Rightarrow> bool" where
  "in_order known acc c \<longleftrightarrow> (case c of (w, batch) \<Rightarrow>
     sched_inv (sched_of w) \<and> accepting_requests (wk_facade w)
     \<and> known_ids (sched_of w) @ map request_id (batch @ wk_pending w) = known @ map request_id acc
     \<and> (\<forall>r \<in> set (batch @ wk_pending w). validate_request r = Inr () \<and> constructed_policy r))"

lemma submitted_validated: "worker_submit_many rs w = (Inr ids, w') \<Longrightarrow> \<forall>r \<in> set rs. validate_request r = Inr ()"
proof -
  assume "worker_submit_many rs w = (Inr ids, w')"
  then have "\<exists>us. map_res validate_request rs = Inr us" by (cases "map_res validate_request rs") (auto simp: worker_submit_many_def)
  then show ?thesis unfolding map_res_validate .
qed

lemma delivered_batch:
  assumes "in_order known acc (w, batch)" and "distinct (known @ map request_id acc)"
  shows "on_facade (facade_submit_many batch) w = (Inr (map request_id batch),
       w\<lparr>wk_facade := (wk_facade w)\<lparr>fac_scheduler := queued_after (map (prepare_request (wk_facade w)) batch) (sched_of w)\<rparr>\<rparr>)
     \<and> sched_inv (queued_after (map (prepare_request (wk_facade w)) batch) (sched_of w))"
proof -
  note c = assms(1) [unfolded in_order_def prod.case]
  have "distinct ((known_ids (sched_of w) @ map request_id batch) @ map request_id (wk_pending w))" using c assms(2) by simp
  then have d: "distinct (known_ids (sched_of w) @ map request_id batch)" unfolding distinct_append [of "_ @ _" "map request_id (wk_pending w)"] by blast
  then have new: "request_id r \<notin> set (known_ids (sched_of w))" if "r \<in> set batch" for r
    using imageI [OF that, of request_id] by auto
  have "batch_acceptable batch (wk_facade w)"
    unfolding batch_acceptable_def known_ids_def [symmetric]
  proof (intro conjI ballI)
    show "distinct (map request_id batch)" using d by simp
  qed (use c new in auto)
  moreover have "sched_inv (queued_after (map (prepare_request (wk_facade w)) batch) (sched_of w))"
    using c d by (intro queued_after_inv) (auto simp: comp_def)
  ultimately show ?thesis using submit_many_cases [of batch "wk_facade w"] by (simp add: on_facade_def)
qed

lemma locked_step:
  assumes "in_order known acc (w, [])" and "sched_inv s" and "known_ids s = known_ids (sched_of w)"
  shows "in_order known acc (w\<lparr>wk_facade := (wk_facade w)\<lparr>fac_scheduler := s\<rparr>\<rparr>, [])"
  using assms by (simp add: in_order_def)


lemma step_in_order:
  assumes "worker_step c e c'" and "in_order known acc c" and "e \<noteq> Draining"
    and "\<forall>r \<in> set (accepted_by e). constructed_policy r" and "distinct (known @ map request_id acc)"
  shows "in_order known (acc @ accepted_by e) c' \<and> (\<forall>rs. e \<noteq> Lost rs)"
  using assms
proof (induction rule: worker_step.induct)
  case (submit r w i w' batch)
  have "validate_request r = Inr () \<and> w' = w\<lparr>wk_pending := wk_pending w @ [r], wk_submitted := wk_submitted w + 1\<rparr>"
    using submit.hyps by (cases "validate_request r") (auto simp: worker_submit_def)
  then show ?case using submit.prems by (auto simp: in_order_def)
next
  case (submit_many rs w ids w' batch)
  have "w' = w\<lparr>wk_pending := wk_pending w @ rs, wk_submitted := wk_submitted w + int (length rs)\<rparr>"
    using submit_many.hyps by (cases "map_res validate_request rs") (auto simp: worker_submit_many_def)
  then show ?case using submit_many.prems submitted_validated [OF submit_many.hyps] by (auto simp: in_order_def)
next
  case (deliver batch w ids w')
  note d = delivered_batch [OF deliver.prems(1,4)]
  then have "w' = w\<lparr>wk_facade := (wk_facade w)\<lparr>fac_scheduler := queued_after (map (prepare_request (wk_facade w)) batch) (sched_of w)\<rparr>\<rparr>"
    using deliver.hyps(2) by simp
  then show ?case using deliver.prems(1) d by (auto simp: in_order_def comp_def)
next
  case (lose batch w e w')
  then show ?case using delivered_batch [OF lose.prems(1,4)] by simp
next
  case (tick w res w')
  obtain r s where t: "GR_Continuous.tick None default_decode (sched_of w) = (r, s)" by fastforce
  then have "w' = w\<lparr>wk_facade := (wk_facade w)\<lparr>fac_scheduler := s\<rparr>\<rparr>" using tick.hyps by (simp add: on_facade_def facade_tick_def)
  moreover have "sched_inv (sched_of w)" using tick.prems(1) by (simp add: in_order_def)
  ultimately show ?case
    using tick_known [of "sched_of w"] tick_inv_default [of "sched_of w"] t locked_step [OF tick.prems(1), of s] by simp
next
  case (run fuel m tu w res' f)
  then obtain r s where r: "run_loop fuel 0 m tu (sched_of w) = Some (r, s)" and f: "f = (wk_facade w)\<lparr>fac_scheduler := s\<rparr>"
    by (cases "run_loop fuel 0 m tu (sched_of w)") (auto simp: run_until_idle_def run_until_empty_def bind_st_def split: sum.splits)
  have "sched_inv (sched_of w)" using run.prems(1) by (simp add: in_order_def)
  from run_loop_known [OF this r] show ?case using locked_step [OF run.prems(1), of s] f by simp
next
  case (cancel rid reason w resp w')
  obtain r s where t: "GR_Continuous.cancel rid reason (sched_of w) = (r, s)" by fastforce
  then have "w' = w\<lparr>wk_facade := (wk_facade w)\<lparr>fac_scheduler := s\<rparr>\<rparr>"
    using cancel.hyps by (simp add: worker_cancel_def on_facade_def facade_cancel_def)
  moreover have "sched_inv (sched_of w)" using cancel.prems(1) by (simp add: in_order_def)
  ultimately show ?case
    using cancel_known [of "sched_of w" rid reason] cancel_inv [of "sched_of w" rid reason] t locked_step [OF cancel.prems(1), of s] by simp
qed (auto simp: in_order_def)

lemma run_in_order:
  assumes "worker_run c evs c'" and "in_order known acc c" and "Draining \<notin> set evs"
    and "\<forall>r \<in> set (accepted evs). constructed_policy r" and "distinct (known @ map request_id (acc @ accepted evs))"
  shows "in_order known (acc @ accepted evs) c' \<and> (\<forall>rs. Lost rs \<notin> set evs)"
  using assms
proof (induction rule: worker_run.induct)
  case (start c)
  then show ?case by simp
next
  case (step c evs c1 e c2)
  have d: "distinct (known @ map request_id (acc @ accepted evs))" using step.prems(4) by auto
  have one: "in_order known (acc @ accepted evs) c1 \<and> (\<forall>rs. Lost rs \<notin> set evs)"
    using step.IH step.prems d by auto
  have "in_order known ((acc @ accepted evs) @ accepted_by e) c2 \<and> (\<forall>rs. e \<noteq> Lost rs)"
    by (rule step_in_order [OF step.hyps(2)]) (use one step.prems d in auto)
  then show ?case using one by auto
qed

text \<open>What a thread does in a turn, and a client in a tick by hand, is a run of these steps.\<close>

lemma worker_run_single: "worker_step c e c' \<Longrightarrow> worker_run c [e] c'"
  using worker_run.step [OF worker_run.start, of c e c'] by simp

lemma worker_run_trans: "worker_run c1 es2 c2 \<Longrightarrow> worker_run c es1 c1 \<Longrightarrow> worker_run c (es1 @ es2) c2"
proof (induction rule: worker_run.induct)
  case (step c1 evs c2 e c3)
  then show ?case using worker_run.step [of c "es1 @ evs" c2 e c3] by simp
qed simp

definition unattended :: "worker \<Rightarrow> worker \<Rightarrow> bool" where
  "unattended w w' \<longleftrightarrow> (\<exists>evs. worker_run (w, []) evs (w', []) \<and> accepted evs = [] \<and> Draining \<notin> set evs)"

lemma unattended_trans: "unattended w w1 \<Longrightarrow> unattended w1 w2 \<Longrightarrow> unattended w w2"
  unfolding unattended_def using worker_run_trans by (metis accepted_simps(2) append_Nil Un_iff set_append)

lemma unattendedI:
  "worker_step (w, []) e (w', []) \<Longrightarrow> accepted_by e = [] \<Longrightarrow> e \<noteq> Draining \<Longrightarrow> unattended w w'"
  unfolding unattended_def by (intro exI [of _ "[e]"]) (simp add: worker_run_single)

lemma unattendedI2:
  assumes "worker_step (w, []) e c" and "worker_step c e' (w', [])"
    and "accepted_by e = []" and "accepted_by e' = []" and "e \<noteq> Draining" and "e' \<noteq> Draining"
  shows "unattended w w'"
  unfolding unattended_def
  using worker_run.step [OF worker_run_single [OF assms(1)] assms(2)] assms(3-6) by (intro exI [of _ "[e, e']"]) (simp add: accepted_def)

lemma unattended_note: "wk_facade w' = wk_facade w \<Longrightarrow> wk_pending w' = wk_pending w \<Longrightarrow> unattended w w'"
  by (rule unattendedI [OF worker_step.note_it]) simp_all

lemma drain_pending_unattended:
  assumes d: "drain_pending w = (r, w')"
  shows "unattended w w'"
proof (cases "wk_pending w = []")
  case False
  obtain r1 w1 where f: "on_facade (facade_submit_many (wk_pending w)) (w\<lparr>wk_pending := []\<rparr>) = (r1, w1)" by fastforce
  then have w': "w' = w1" using d False by (cases r1) (auto simp: drain_pending_def Let_def)
  note take = worker_step.take [OF False]
  show ?thesis
  proof (cases r1)
    case (Inl e)
    show ?thesis unfolding w' by (rule unattendedI2 [OF take worker_step.lose [OF False f [unfolded Inl]]]) simp_all
  next
    case (Inr ids)
    show ?thesis unfolding w' by (rule unattendedI2 [OF take worker_step.deliver [OF False f [unfolded Inr]]]) simp_all
  qed
qed (use d in \<open>auto simp: drain_pending_def intro: unattended_note\<close>)

lemma worker_tick_unattended: "worker_tick w = (r, w') \<Longrightarrow> unattended w w'"
proof -
  assume t: "worker_tick w = (r, w')"
  obtain r1 w1 where d: "drain_pending w = (r1, w1)" by fastforce
  note one = drain_pending_unattended [OF d]
  obtain r2 w2 where k: "on_facade facade_tick w1 = (r2, w2)" by fastforce
  have two: "unattended w1 w2" by (rule unattendedI [OF worker_step.tick [OF k]]) simp_all
  show ?thesis
  proof (cases r1)
    case (Inl e)
    then show ?thesis using t d one by (simp add: worker_tick_def)
  next
    case (Inr u)
    have "unattended w2 w'"
      using t d k Inr by (cases r2) (auto simp: worker_tick_def emit_decode_interval_log_def Let_def intro!: unattended_note)
    then show ?thesis using unattended_trans one two by blast
  qed
qed

lemma worker_turn_unattended: "unattended w (worker_turn w)"
proof -
  define w1 where "w1 = (if should_wait_for_batch_fill w then w\<lparr>wk_fill_waits := wk_fill_waits w + 1\<rparr> else w)"
  have a: "unattended w w1" by (rule unattended_note) (simp_all add: w1_def)
  obtain r w2 where t: "worker_tick w1 = (r, w2)" by fastforce
  have turn: "worker_turn w = (if \<not> has_work w1 then w1 else case r of Inr _ \<Rightarrow> w2 | Inl e \<Rightarrow> note_worker_error e w2)"
    unfolding worker_turn_def Let_def w1_def [symmetric] t by (simp split: sum.split)
  have "unattended w2 (note_worker_error e w2)" for e by (rule unattended_note) (simp_all add: note_worker_error_def)
  then have "unattended w1 (note_worker_error e w2)" for e using worker_tick_unattended [OF t] unattended_trans by blast
  moreover have "unattended w1 w2" by (rule worker_tick_unattended [OF t])
  ultimately show ?thesis using a unattended_trans unfolding turn by (auto split: sum.split)
qed


section \<open>The thread serves what is submitted\<close>

lemma facade_status_lookup:
  "k \<noteq> ''lifecycle'' \<Longrightarrow> k \<noteq> ''item_constraints'' \<Longrightarrow> map_of (facade_status f) k = map_of (scheduler_status (fac_scheduler f)) k"
  by (simp add: facade_status_def Let_def dict_lookup split: option.split)

lemma scheduler_status_lookup:
  "map_of (scheduler_status s) ''waiting_prefill'' = Some (PInt (int (length (waiting_prefill s))))"
  "map_of (scheduler_status s) ''decoding'' = Some (PInt (int (length (decoding s))))"
  "map_of (scheduler_status s) ''waiting'' = None" "map_of (scheduler_status s) ''running'' = None"
  by (simp_all add: scheduler_status_def scheduler_counters_def int_dict_def)

lemma status_work: "status_has_work (facade_status f) \<longleftrightarrow> waiting_prefill (fac_scheduler f) \<noteq> [] \<or> decoding (fac_scheduler f) \<noteq> []"
  unfolding status_has_work_def by (simp add: facade_status_lookup scheduler_status_lookup)

lemma has_work_iff: "has_work w \<longleftrightarrow> wk_pending w \<noteq> [] \<or> waiting_prefill (sched_of w) \<noteq> [] \<or> decoding (sched_of w) \<noteq> []"
  by (simp add: has_work_def pending_count_def status_work)

text \<open>A turn with nothing pending is a tick of the scheduler, or nothing.\<close>

definition fitting :: "sched \<Rightarrow> bool" where
  "fitting s \<longleftrightarrow> (\<forall>r \<in> set (waiting_prefill s). kv_fits (kv_alloc s) (request_context_tokens r) (request_beam_slots r))"

definition served :: "worker \<Rightarrow> worker \<Rightarrow> bool" where
  "served w w' \<longleftrightarrow> wk_pending w' = [] \<and> sched_inv (sched_of w') \<and> waiting_prefill (sched_of w') = [] \<and> decoding (sched_of w') = []
     \<and> tracked (sched_of w') \<and> wk_errors w' = wk_errors w \<and> known_ids (sched_of w') = known_ids (sched_of w)"

lemma tick_after_drain:
  assumes d: "drain_pending w = (Inr u, w1)" and inv: "sched_inv (sched_of w1)" "tracked (sched_of w1)" "fitting (sched_of w1)"
  shows "\<exists>t w'. worker_tick w = (Inr t, w') \<and> wk_pending w' = wk_pending w1 \<and> wk_errors w' = wk_errors w1 \<and> sched_inv (sched_of w') \<and> tracked (sched_of w')
     \<and> fitting (sched_of w') \<and> known_ids (sched_of w') = known_ids (sched_of w1)
     \<and> (work (sched_of w1) \<noteq> 0 \<longrightarrow> work (sched_of w') < work (sched_of w1))"
proof -
  obtain r s where t: "tick None default_decode (sched_of w1) = (r, s)" by fastforce
  note T = tick_default [OF inv(1), unfolded t] and K = tick_known [OF inv(1), unfolded t]
  obtain res where r: "r = Inr res" using T inv(3) by (cases r) (auto simp: fitting_def)
  have f: "on_facade facade_tick w1 = (Inr res, w1\<lparr>wk_facade := (wk_facade w1)\<lparr>fac_scheduler := s\<rparr>\<rparr>)"
    using t r by (simp add: on_facade_def facade_tick_def)
  have same: "wk_pending (emit_decode_interval_log res w) = wk_pending w" "wk_errors (emit_decode_interval_log res w) = wk_errors w"
    "wk_facade (emit_decode_interval_log res w) = wk_facade w" for w
    by (simp_all add: emit_decode_interval_log_def Let_def)
  show ?thesis using d f T K r inv(2,3) by (auto simp: worker_tick_def same fitting_def)
qed

lemma idle_turn: "wk_pending w = [] \<Longrightarrow> waiting_prefill (sched_of w) = [] \<Longrightarrow> decoding (sched_of w) = [] \<Longrightarrow> worker_turn w = w"
  by (simp add: worker_turn_def has_work_iff should_wait_for_batch_fill_def pending_count_def)

lemma turns_serve:
  assumes "sched_inv (sched_of w)" and "tracked (sched_of w)" and "fitting (sched_of w)" and "wk_pending w = []" and "work (sched_of w) \<le> n"
  shows "served w (worker_turns n w)"
  using assms
proof (induction n arbitrary: w)
  case 0
  then show ?case using work_zero [of "sched_of w"] by (simp add: served_def)
next
  case (Suc n)
  show ?case
  proof (cases "waiting_prefill (sched_of w) = [] \<and> decoding (sched_of w) = []")
    case True
    then have "work (sched_of w) = 0" using work_zero [OF Suc.prems(1)] by simp
    then show ?thesis using Suc.IH [of w] Suc.prems True by (simp add: idle_turn)
  next
    case False
    then have w: "work (sched_of w) \<noteq> 0" using work_zero [OF Suc.prems(1)] by simp
    have d: "drain_pending w = (Inr (), w)" using Suc.prems(4) by (simp add: drain_pending_def)
    obtain t w' where t: "worker_tick w = (Inr t, w')" "wk_pending w' = wk_pending w" "wk_errors w' = wk_errors w" "sched_inv (sched_of w')"
      "tracked (sched_of w')" "fitting (sched_of w')" "known_ids (sched_of w') = known_ids (sched_of w)" "work (sched_of w') < work (sched_of w)"
      using tick_after_drain [OF d Suc.prems(1-3)] w by blast
    have turn: "worker_turn w = w'"
      using t(1) False Suc.prems(4) by (auto simp: worker_turn_def has_work_iff should_wait_for_batch_fill_def pending_count_def)
    have "served w' (worker_turns n w')" using Suc.IH [of w'] t Suc.prems(4,5) by simp
    then show ?thesis using turn t(3,7) by (simp add: served_def)
  qed
qed

text \<open>The first turn delivers the pending submissions.\<close>

lemma first_turn:
  assumes acc: "batch_acceptable (wk_pending w) (wk_facade w)" and pol: "\<forall>r \<in> set (wk_pending w). constructed_policy r"
    and inv: "sched_inv (sched_of w)" "tracked (sched_of w)"
    and s1: "s1 = queued_after (map (prepare_request (wk_facade w)) (wk_pending w)) (sched_of w)" and fit: "fitting s1" and pending: "wk_pending w \<noteq> []"
  shows "wk_pending (worker_turn w) = [] \<and> wk_errors (worker_turn w) = wk_errors w \<and> sched_inv (sched_of (worker_turn w)) \<and> tracked (sched_of (worker_turn w))
     \<and> fitting (sched_of (worker_turn w)) \<and> known_ids (sched_of (worker_turn w)) = known_ids (sched_of w) @ map request_id (wk_pending w)
     \<and> work (sched_of (worker_turn w)) < work s1"
proof -
  define w0 where "w0 = (if should_wait_for_batch_fill w then w\<lparr>wk_fill_waits := wk_fill_waits w + 1\<rparr> else w)"
  have w0: "wk_facade w0 = wk_facade w" "wk_pending w0 = wk_pending w" "wk_errors w0 = wk_errors w" by (simp_all add: w0_def)
  let ?w1 = "w0\<lparr>wk_pending := [], wk_facade := (wk_facade w)\<lparr>fac_scheduler := s1\<rparr>\<rparr>"
  have d: "drain_pending w0 = (Inr (), ?w1)"
    using submit_many_cases [of "wk_pending w" "wk_facade w"] acc pending w0 s1 by (simp add: drain_pending_def on_facade_def Let_def)
  have core: "distinct (known_ids (sched_of w))" using core_invD(2) [OF inv(1) [unfolded sched_inv_def]] by (simp add: known_ids_def)
  have new: "distinct (known_ids (sched_of w) @ map request_id (wk_pending w))"
  proof -
    have "\<forall>x \<in> set (map request_id (wk_pending w)). x \<notin> set (known_ids (sched_of w))"
      using acc by (simp add: batch_acceptable_def known_ids_def)
    then have "set (known_ids (sched_of w)) \<inter> set (map request_id (wk_pending w)) = {}" by blast
    then show ?thesis using acc core by (simp add: batch_acceptable_def)
  qed
  have inv1: "sched_inv s1" unfolding s1
    by (rule queued_after_inv [OF inv(1)]) (use acc pol new in \<open>auto simp: batch_acceptable_def comp_def\<close>)
  have "waiting_prefill s1 \<noteq> []" using pending by (simp add: s1 queued_after_def)
  then have "work s1 \<noteq> 0" using work_zero [OF inv1] by simp
  then obtain t w' where t: "worker_tick w0 = (Inr t, w')" "wk_pending w' = []" "wk_errors w' = wk_errors w" "sched_inv (sched_of w')"
      "tracked (sched_of w')" "fitting (sched_of w')" "known_ids (sched_of w') = known_ids s1" "work (sched_of w') < work s1"
    using tick_after_drain [OF d] inv1 queued_after_tracked [OF inv(2)] fit w0(3) s1 by auto
  have "has_work w0" using pending w0 by (simp add: has_work_iff)
  then have "worker_turn w = w'" using t(1) by (simp add: worker_turn_def Let_def w0_def [symmetric])
  then show ?thesis using t s1 by (simp add: comp_def)
qed


text \<open>C6: clients and worker may be interleaved in any way, also a client submitting between the moment the
  worker empties the pending queue and the moment the facade gets the batch: while the facade accepts
  requests and request ids are not used twice, no accepted request is lost, doubled or overtaken. The
  requests the scheduler knows, then the batch in the worker's hands, then the pending queue are at any
  moment the requests known at the start followed by the accepted ones in the order they were accepted.\<close>

theorem submissions_reach_scheduler_in_order:
  assumes "worker_run (w0, []) evs (w, batch)" and "wk_pending w0 = []" and "reachable (sched_of w0)" and "accepting_requests (wk_facade w0)"
    and "Draining \<notin> set evs" and "\<forall>r \<in> set (accepted evs). constructed_policy r"
    and "distinct (dict_keys (states (sched_of w0)) @ map request_id (accepted evs))"
  shows "dict_keys (states (sched_of w)) @ map request_id (batch @ wk_pending w)
      = dict_keys (states (sched_of w0)) @ map request_id (accepted evs)
    \<and> (\<forall>rs. Lost rs \<notin> set evs)"
proof -
  have "in_order (known_ids (sched_of w0)) [] (w0, [])" using assms(2,4) reachable_inv [OF assms(3)] by (simp add: in_order_def)
  from run_in_order [OF assms(1) this assms(5,6)] assms(7) show ?thesis by (simp add: in_order_def known_ids_def)
qed


text \<open>C18: a submission acknowledged by the worker is lost when the facade has stopped accepting requests in the
  meantime. The thread's next turn empties the pending queue, the facade refuses the batch, the error is
  counted, and the scheduler is as before: a request it did not know has neither a status nor a result.\<close>

theorem draining_loses_pending_submissions:
  assumes "\<not> accepting_requests (wk_facade w)" and "wk_pending w \<noteq> []"
  shows "wk_pending (worker_turn w) = [] \<and> wk_facade (worker_turn w) = wk_facade w
    \<and> wk_errors (worker_turn w) = wk_errors w + 1
    \<and> wk_last_error (worker_turn w) = Some ''RuntimeError: serving facade is draining; rejecting new requests''
    \<and> (\<forall>r \<in> set (wk_pending w). request_id r \<notin> set (dict_keys (states (sched_of w))) \<longrightarrow>
         worker_request_status (request_id r) (worker_turn w) = Inl (KeyError ''unknown request_id''))"
proof -
  define w0 where "w0 = (if should_wait_for_batch_fill w then w\<lparr>wk_fill_waits := wk_fill_waits w + 1\<rparr> else w)"
  have w0: "wk_facade w0 = wk_facade w" "wk_pending w0 = wk_pending w" "wk_errors w0 = wk_errors w" by (simp_all add: w0_def)
  have "worker_tick w0 = (Inl (RuntimeError ''serving facade is draining; rejecting new requests''), w0\<lparr>wk_pending := []\<rparr>)"
    using assms w0 by (simp add: worker_tick_def drain_pending_def on_facade_def facade_submit_many_def)
  moreover have "has_work w0" using assms(2) w0 by (simp add: has_work_iff)
  ultimately have turn: "worker_turn w =
      note_worker_error (RuntimeError ''serving facade is draining; rejecting new requests'') (w0\<lparr>wk_pending := []\<rparr>)"
    by (simp add: worker_turn_def Let_def w0_def [symmetric])
  have "worker_request_status i (worker_turn w) = Inl (KeyError ''unknown request_id'')" if "i \<notin> set (dict_keys (states (sched_of w)))" for i
    using that w0 map_of_None_iff_keys [of "states (sched_of w)" i] unfolding turn
    by (simp add: worker_request_status_def request_status_def note_worker_error_def Let_def del: set_map)
  then show ?thesis unfolding turn using w0 by (auto simp: note_worker_error_def)
qed


section \<open>Witnesses\<close>

definition ex_worker :: worker where
  "ex_worker = (case mk_worker 0 \<lparr>tick_interval_s = 1/1000, idle_sleep_s = 1/200, error_sleep_s = 1/20, autostart = True,
                  decode_log_interval = 2\<rparr> ex_facade of Inr w \<Rightarrow> w)"

definition ex_pending :: worker where
  "ex_pending = snd (worker_submit (ex_request ''d'' 6) ex_worker)"

definition ex_taken :: worker where
  "ex_taken = ex_pending\<lparr>wk_pending := []\<rparr>"

definition ex_late :: worker where
  "ex_late = snd (worker_submit (ex_request ''e'' 6) ex_taken)"

definition ex_delivered :: worker where
  "ex_delivered = snd (on_facade (facade_submit_many [ex_request ''d'' 6]) ex_late)"

lemma ex_worker_results:
  "wk_pending ex_worker = [] \<and> accepting_requests (wk_facade ex_worker) \<and> wk_pending ex_pending = [ex_request ''d'' 6]
   \<and> fst (worker_submit (ex_request ''d'' 6) ex_worker) = Inr ''d'' \<and> fst (worker_submit (ex_request ''e'' 6) ex_taken) = Inr ''e''
   \<and> fst (on_facade (facade_submit_many [ex_request ''d'' 6]) ex_late) = Inr [''d'']
   \<and> dict_keys (states (sched_of ex_worker)) = [''a'', ''b'', ''c'']"
  by code_simp

lemma ex_worker_run:
  "worker_run (ex_worker, []) [Accepted [ex_request ''d'' 6], Quiet, Accepted [ex_request ''e'' 6], Quiet] (ex_delivered, [])"
proof -
  let ?d = "ex_request ''d'' 6" and ?e = "ex_request ''e'' 6"
  note R = ex_worker_results
  have "worker_step (ex_worker, []) (Accepted [?d]) (ex_pending, [])"
    by (rule worker_step.submit) (use R in \<open>simp add: ex_pending_def prod_eq_iff\<close>)
  moreover have "worker_step (ex_pending, []) Quiet (ex_taken, [?d])"
    using worker_step.take [of ex_pending] R by (simp add: ex_taken_def)
  moreover have "worker_step (ex_taken, [?d]) (Accepted [?e]) (ex_late, [?d])"
    by (rule worker_step.submit) (use R in \<open>simp add: ex_late_def prod_eq_iff\<close>)
  moreover have "worker_step (ex_late, [?d]) Quiet (ex_delivered, [])"
    by (rule worker_step.deliver) (use R in \<open>simp_all add: ex_delivered_def prod_eq_iff\<close>)
  ultimately have "worker_run (ex_worker, []) (((([] @ [Accepted [?d]]) @ [Quiet]) @ [Accepted [?e]]) @ [Quiet]) (ex_delivered, [])"
    by (blast intro: worker_run.intros)
  then show ?thesis by simp
qed

lemma ex_worker_reachable: "reachable (sched_of ex_worker)" "sched_of ex_worker = sched_of ex_pending"
proof -
  have "wk_facade ex_worker = ex_facade" by (simp add: ex_worker_def mk_worker_def worker_start_def Let_def)
  then show "reachable (sched_of ex_worker)" using ex_reachable(2) by (simp add: ex_facade_def)
  show "sched_of ex_worker = sched_of ex_pending"
    by (simp add: ex_pending_def worker_submit_def bind_st_def split: sum.split)
qed

theorem submissions_reach_scheduler_in_order_witness:
  "dict_keys (states (sched_of ex_delivered)) @ map request_id ([] @ wk_pending ex_delivered) = [''a'', ''b'', ''c'', ''d'', ''e'']"
  using submissions_reach_scheduler_in_order [OF ex_worker_run _ ex_worker_reachable(1)] ex_worker_results ex_constructed
  by (simp add: accepted_def ex_request_def)


theorem draining_loses_pending_submissions_witness:
  "wk_pending (worker_turn (snd (worker_drain ex_pending))) = []
   \<and> worker_request_status ''d'' (worker_turn (snd (worker_drain ex_pending))) = Inl (KeyError ''unknown request_id'')"
proof -
  have d: "\<not> accepting_requests (wk_facade (snd (worker_drain ex_pending))) \<and> wk_pending (snd (worker_drain ex_pending)) = [ex_request ''d'' 6]
      \<and> dict_keys (states (sched_of (snd (worker_drain ex_pending)))) = [''a'', ''b'', ''c'']"
    by code_simp
  then show ?thesis using draining_loses_pending_submissions [of "snd (worker_drain ex_pending)"] by (simp add: ex_request_def)
qed


end
