(* ===== verification/GR_HTTP_Props.thy ===== *)
theory GR_HTTP_Props
  imports GR_HTTP GR_Worker_Props
begin

text \<open>
  Properties of the HTTP adapter. A submission is either refused without a trace or accepted within the
  limits of the policy; without the API key nothing is reached but the two health routes; and some
  exceptions are no answer at all. What the adapter needs of its backend is the locale
  \<open>submission_backend\<close>, which both backends of the code satisfy.
\<close>

section \<open>What an answer leaves behind\<close>

lemma lift_exc_simps [simp]: "lift_exc (Inr x) = Inr x" "lift_exc (Inl e) = Inl (Raised e)"
  by (simp_all add: lift_exc_def)

lemma lift_exc_Inr: "lift_exc r = Inr x \<longleftrightarrow> r = Inr x"
  by (cases r) (simp_all add: lift_exc_def)

lemma bind_res_Inr: "bind_res r f = Inr y \<longleftrightarrow> (\<exists>x. r = Inr x \<and> f x = Inr y)"
  by (cases r) simp_all

lemma error_status: "error_mapping e = Inr resp \<Longrightarrow> http_status resp = 202 \<Longrightarrow> \<exists>h. e = AdapterError h \<and> err_status h = 202"
proof (cases e)
  case (Raised x)
  assume "error_mapping e = Inr resp" "http_status resp = 202"
  then show ?thesis
    using Raised by (cases x) (auto simp: plain_error_def error_response_def runtime_error_response_def split: if_splits)
qed (auto simp: error_response_def)

text \<open>No error the adapter raises has the status of an accepted submission.\<close>

definition refusal :: "http_exc \<Rightarrow> bool" where
  "refusal e \<longleftrightarrow> (case e of AdapterError h \<Rightarrow> err_status h \<noteq> 202 | Raised _ \<Rightarrow> True)"

lemma refusal_status: "refusal e \<Longrightarrow> error_mapping e = Inr resp \<Longrightarrow> http_status resp \<noteq> 202"
  using error_status [of e resp] by (auto simp: refusal_def)

lemma refusals [simp]: "refusal (Raised e)" "status \<noteq> 202 \<Longrightarrow> refusal (adapter_error status code msg retryable hs)"
  by (simp_all add: refusal_def adapter_error_def)

lemma lift_exc_refusal: "lift_exc r = Inl e \<Longrightarrow> refusal e"
  by (cases r) auto

lemma bind_res_refusal: "bind_res r f = Inl e \<Longrightarrow> (\<And>e. r = Inl e \<Longrightarrow> refusal e) \<Longrightarrow> (\<And>x. r = Inr x \<Longrightarrow> f x = Inl e \<Longrightarrow> refusal e) \<Longrightarrow> refusal e"
  by (cases r) auto

lemma validate_refusal:
  "validate_admission p st n = Inl e \<Longrightarrow> refusal e" "validate_http_request p r = Inl e \<Longrightarrow> refusal e"
  "validate_auth a m route hs = Inl e \<Longrightarrow> refusal e" "validate_body_size p body = Inl e \<Longrightarrow> refusal e"
  by (auto simp: validate_admission_def validate_http_request_def validate_auth_def validate_body_size_def validation_failed_def Let_def
      split: if_splits option.splits request_body.splits elim!: bind_res_refusal dest: lift_exc_refusal)

lemma map_res_validate_refusal: "map_res (validate_http_request p) rs = Inl e \<Longrightarrow> refusal e"
  by (induction rs arbitrary: e) (auto elim!: bind_res_refusal dest: validate_refusal)

section \<open>Submissions\<close>

text \<open>What a request that passed the limits looks like.\<close>

definition within_limits :: "http_policy \<Rightarrow> GRServingRequest \<Rightarrow> bool" where
  "within_limits p r \<longleftrightarrow> \<not> over_limit (req_max_decode_steps r) (pol_max_decode_steps p) \<and> \<not> over_limit (req_beam_width r) (pol_max_beam_width p)
     \<and> (case input_context_len (req_input_ids r) of None \<Rightarrow> True | Some n \<Rightarrow> \<not> over_limit n (max_context_len p))"

lemma validated_within_limits: "validate_http_request p r = Inr u \<Longrightarrow> within_limits p r"
  by (auto simp: validate_http_request_def within_limits_def split: if_splits option.splits)

lemma map_res_validated: "map_res (validate_http_request p) rs = Inr us \<Longrightarrow> \<forall>r \<in> set rs. within_limits p r"
  by (induction rs arbitrary: us) (auto split: sum.splits dest: validated_within_limits)

locale submission_backend =
  fixes B :: "'b backend_ops" and backlog :: "'b \<Rightarrow> int" and takes :: "GRServingRequest list \<Rightarrow> 'b \<Rightarrow> 'b \<Rightarrow> bool"
  assumes submit_refused: "be_submit B r b = (Inl e, b') \<Longrightarrow> b' = b"
    and submit_many_refused: "be_submit_many B rs b = (Inl e, b') \<Longrightarrow> b' = b"
    and submit_accepted: "be_submit B r b = (Inr i, b') \<Longrightarrow> i = request_id r \<and> takes [r] b b'"
    and submit_many_accepted: "be_submit_many B rs b = (Inr ids, b') \<Longrightarrow> ids = map request_id rs \<and> takes rs b b'"
    and takes_backlog: "takes rs b b' \<Longrightarrow> backlog b' = backlog b + int (length rs)"
    and status_backlog: "waiting_count (be_status B b) = Inr (backlog b)"
begin

text \<open>A submission route refuses and leaves the backend alone, or accepts requests within the limits.\<close>

definition accepts :: "http_policy \<Rightarrow> GRServingRequest list \<Rightarrow> (string, pyval) dict \<Rightarrow> 'b \<Rightarrow> 'b http_step \<Rightarrow> bool" where
  "accepts p rs answer b out \<longleftrightarrow>
     fst out = Inr (http_ok 202 answer) \<and> (\<forall>r \<in> set rs. within_limits p r) \<and> \<not> over_limit (int (length rs)) (max_submit_many p)
     \<and> takes rs b (snd out) \<and> \<not> over_limit (backlog (snd out)) (max_waiting_requests p)"

definition refuses :: "'b \<Rightarrow> 'b http_step \<Rightarrow> bool" where
  "refuses b out \<longleftrightarrow> snd out = b \<and> (\<exists>e. fst out = Inl e \<and> refusal e)"

lemma admitted: "validate_admission p (be_status B b) n = Inr u \<Longrightarrow> \<not> over_limit (backlog b + n) (max_waiting_requests p)"
  by (auto simp: validate_admission_def status_backlog over_limit_def split: if_splits option.splits)

lemma submit_route_outcome:
  assumes "\<not> over_limit 1 (max_submit_many (ad_policy a))"
  shows "refuses b (submit_route B a payload b)
    \<or> (\<exists>r. accepts (ad_policy a) [r] [(''request_id'', PStr (request_id r))] b (submit_route B a payload b))"
proof -
  define checks where "checks = bind_res (validate_admission (ad_policy a) (be_status B b) 1) (\<lambda>_.
              bind_res (lift_exc (make_request a payload)) (\<lambda>r.
              bind_res (validate_http_request (ad_policy a) r) (\<lambda>_. Inr r)))"
  have route: "submit_route B a payload b = bind_st (checks, b) (\<lambda>r b1.
     bind_st (call_backend (be_submit B r) b1) (\<lambda>rid b2. (Inr (http_ok 202 [(''request_id'', PStr rid)]), b2)))"
    unfolding submit_route_def checks_def ..
  show ?thesis
  proof (cases checks)
    case (Inl e)
    then have "refusal e"
      unfolding checks_def by (elim bind_res_refusal) (auto dest: validate_refusal lift_exc_refusal)
    then show ?thesis using Inl route by (simp add: refuses_def)
  next
    case (Inr r)
    then have lim: "within_limits (ad_policy a) r" and room: "\<not> over_limit (backlog b + 1) (max_waiting_requests (ad_policy a))"
      unfolding checks_def bind_res_Inr by (auto dest: validated_within_limits admitted)
    obtain res b' where s: "be_submit B r b = (res, b')" by fastforce
    show ?thesis
    proof (cases res)
      case (Inl e)
      then show ?thesis using \<open>checks = Inr r\<close> route s submit_refused [of r b e b'] by (simp add: refuses_def call_backend_def)
    next
      case (Inr i)
      then have "accepts (ad_policy a) [r] [(''request_id'', PStr (request_id r))] b (submit_route B a payload b)"
        using \<open>checks = Inr r\<close> route s submit_accepted [of r b i b'] takes_backlog [of "[r]" b b'] lim room assms by (simp add: accepts_def call_backend_def)
      then show ?thesis by blast
    qed
  qed
qed

lemma submit_many_route_outcome:
  "refuses b (submit_many_route B a payload b)
    \<or> (\<exists>rs. accepts (ad_policy a) rs [(''request_ids'', PList (map (\<lambda>r. PStr (request_id r)) rs))] b (submit_many_route B a payload b))"
proof -
  define checks where "checks = bind_res (lift_exc (payload_list payload ''requests'')) (\<lambda>rows.
              if over_limit (int (length rows)) (max_submit_many (ad_policy a))
              then Inl (adapter_error 413 ''too_many_requests'' ''requests exceeds max_submit_many'' False [])
              else
                bind_res (validate_admission (ad_policy a) (be_status B b) (int (length rows))) (\<lambda>_.
                bind_res (lift_exc (map_res (make_request a) rows)) (\<lambda>rs.
                bind_res (map_res (validate_http_request (ad_policy a)) rs) (\<lambda>_. Inr rs))))"
  have route: "submit_many_route B a payload b = bind_st (checks, b) (\<lambda>rs b1.
     bind_st (call_backend (be_submit_many B rs) b1) (\<lambda>ids b2. (Inr (http_ok 202 [(''request_ids'', PList (map PStr ids))]), b2)))"
    unfolding submit_many_route_def checks_def ..
  show ?thesis
  proof (cases checks)
    case (Inl e)
    then have "refusal e"
      unfolding checks_def
      by (elim bind_res_refusal) (auto split: if_splits elim!: bind_res_refusal dest: validate_refusal lift_exc_refusal map_res_validate_refusal)
    then show ?thesis using Inl route by (simp add: refuses_def)
  next
    case (Inr rs)
    then obtain rows us where r: "\<not> over_limit (int (length rows)) (max_submit_many (ad_policy a))" "map_res (make_request a) rows = Inr rs"
      "validate_admission (ad_policy a) (be_status B b) (int (length rows)) = Inr ()" "map_res (validate_http_request (ad_policy a)) rs = Inr us"
      unfolding checks_def by (auto simp: bind_res_Inr lift_exc_Inr split: if_splits)
    have rows: "\<not> over_limit (int (length rs)) (max_submit_many (ad_policy a))" using r(1) map_res_nth [OF r(2)] by simp
    have lim: "\<forall>r \<in> set rs. within_limits (ad_policy a) r" by (rule map_res_validated [OF r(4)])
    have room: "\<not> over_limit (backlog b + int (length rs)) (max_waiting_requests (ad_policy a))"
      using admitted [OF r(3)] map_res_nth [OF r(2)] by simp
    obtain res b' where s: "be_submit_many B rs b = (res, b')" by fastforce
    show ?thesis
    proof (cases res)
      case (Inl e)
      then show ?thesis using \<open>checks = Inr rs\<close> route s submit_many_refused [of rs b e b'] by (simp add: refuses_def call_backend_def)
    next
      case (Inr ids)
      then have "accepts (ad_policy a) rs [(''request_ids'', PList (map (\<lambda>r. PStr (request_id r)) rs))] b (submit_many_route B a payload b)"
        using \<open>checks = Inr rs\<close> route s submit_many_accepted [of rs b ids b'] takes_backlog [of rs b b'] lim room rows by (simp add: accepts_def call_backend_def comp_def)
      then show ?thesis by blast
    qed
  qed
qed

lemma mapped_step:
  assumes "refuses b out \<or> (\<exists>rs answer. accepts p rs answer b out)"
    and "(case out of (x, b1) \<Rightarrow> (case x of Inl e \<Rightarrow> error_mapping e | Inr resp \<Rightarrow> Inr resp, b1)) = (r, b')"
  shows "b' = b \<and> (\<forall>resp. r = Inr resp \<longrightarrow> http_status resp \<noteq> 202)
    \<or> (\<exists>rs answer. r = Inr (http_ok 202 answer) \<and> accepts p rs answer b (Inr (http_ok 202 answer), b'))"
proof (cases "refuses b out")
  case True
  then show ?thesis using assms(2) by (auto simp: refuses_def dest: refusal_status split: prod.splits)
next
  case False
  then obtain rs answer where "accepts p rs answer b out" using assms(1) by blast
  then have "r = Inr (http_ok 202 answer)" "accepts p rs answer b (Inr (http_ok 202 answer), b')"
    using assms(2) by (auto simp: accepts_def split: prod.splits)
  then show ?thesis by blast
qed

lemma handle_submission:
  assumes pol: "validate_policy (ad_policy a) = Inr ()" and route: "route_path path = Inr route" "route = [''submit''] \<or> route = [''submit_many'']"
    and meth: "map upper_char meth = ''POST''" and h: "handle B a env meth path body hs b = Some (r, b')"
  shows "b' = b \<and> (\<forall>resp. r = Inr resp \<longrightarrow> http_status resp \<noteq> 202)
    \<or> (\<exists>rs answer. r = Inr (http_ok 202 answer) \<and> accepts (ad_policy a) rs answer b (Inr (http_ok 202 answer), b'))"
proof -
  define checks where "checks = bind_res (validate_auth a (map upper_char meth) route hs) (\<lambda>_.
      bind_res (validate_body_size (ad_policy a) body) (\<lambda>_. lift_exc (json_payload (env_json env) body)))"
  have one: "\<not> over_limit 1 (max_submit_many (ad_policy a))"
    using pol by (auto simp: validate_policy_def policy_limits_def over_limit_def split: if_splits option.splits)
  obtain out where "refuses b out \<or> (\<exists>rs answer. accepts (ad_policy a) rs answer b out)"
    and "(case out of (x, b1) \<Rightarrow> (case x of Inl e \<Rightarrow> error_mapping e | Inr resp \<Rightarrow> Inr resp, b1)) = (r, b')"
  proof (cases checks)
    case (Inl e)
    then have "refusal e" unfolding checks_def by (elim bind_res_refusal) (auto dest: validate_refusal lift_exc_refusal)
    then have "refuses b (Inl e, b)" by (simp add: refuses_def)
    then show thesis using h route(1) Inl that [of "(Inl e, b)"] by (simp add: handle_def checks_def [symmetric])
  next
    case (Inr payload)
    let ?out = "if route = [''submit''] then submit_route B a payload b else submit_many_route B a payload b"
    have "refuses b ?out \<or> (\<exists>rs answer. accepts (ad_policy a) rs answer b ?out)"
      using submit_route_outcome [OF one, of b payload] submit_many_route_outcome [of b a payload] by auto
    moreover have "dispatch B a env (map upper_char meth) route payload b = Some ?out"
      using route(2) meth by (auto simp: dispatch_def post_route_def)
    ultimately show thesis using h route(1) Inr that [of ?out] by (simp add: handle_def checks_def [symmetric])
  qed
  then show ?thesis by (rule mapped_step)
qed

end

section \<open>The two backends\<close>

lemma waiting_count_status:
  "map_of status ''waiting_prefill'' = Some (PInt n) \<Longrightarrow> waiting_count status = Inr n"
  by (simp add: waiting_count_def get_or_def)

lemma facade_submit_cases:
  "(\<exists>e. facade_submit r f = (Inl e, f)) \<or>
   facade_submit r f = (Inr (request_id r), f\<lparr>fac_scheduler := queued_after [prepare_request f r] (fac_scheduler f)\<rparr>)"
proof (cases "accepting_requests f \<and> validate_request r = Inr () \<and> ensure_request_ids_available [request_id r] f = Inr ()")
  case True
  then have "request_id (prepare_request f r) \<notin> set (dict_keys (states (fac_scheduler f)))" using ensure_available_ok [of "[request_id r]" f] by simp
  then show ?thesis using True submit_fresh [of "prepare_request f r" "fac_scheduler f"] by (simp add: facade_submit_def executor_submit_def Let_def)
next
  case False
  then show ?thesis by (auto simp: facade_submit_def Let_def split: sum.splits)
qed

definition facade_takes :: "GRServingRequest list \<Rightarrow> serving_facade \<Rightarrow> serving_facade \<Rightarrow> bool" where
  "facade_takes rs f f' \<longleftrightarrow> f' = f\<lparr>fac_scheduler := queued_after (map (prepare_request f) rs) (fac_scheduler f)\<rparr>"

interpretation facade_be: submission_backend "facade_backend fuel json_loads file" "\<lambda>f. int (length (waiting_prefill (fac_scheduler f)))" facade_takes
proof
  fix r rs b b' e i ids
  show "be_submit (facade_backend fuel json_loads file) r b = (Inl e, b') \<Longrightarrow> b' = b"
    using facade_submit_cases [of r b] by (auto simp: facade_backend_def)
  show "be_submit_many (facade_backend fuel json_loads file) rs b = (Inl e, b') \<Longrightarrow> b' = b"
    using submit_many_cases [of rs b] by (auto simp: facade_backend_def split: if_splits)
  show "be_submit (facade_backend fuel json_loads file) r b = (Inr i, b') \<Longrightarrow> i = request_id r \<and> facade_takes [r] b b'"
    using facade_submit_cases [of r b] by (auto simp: facade_backend_def facade_takes_def)
  show "be_submit_many (facade_backend fuel json_loads file) rs b = (Inr ids, b') \<Longrightarrow> ids = map request_id rs \<and> facade_takes rs b b'"
    using submit_many_cases [of rs b] by (auto simp: facade_backend_def facade_takes_def split: if_splits)
  show "facade_takes rs b b' \<Longrightarrow> int (length (waiting_prefill (fac_scheduler b'))) = int (length (waiting_prefill (fac_scheduler b))) + int (length rs)"
    by (simp add: facade_takes_def queued_after_def)
  show "waiting_count (be_status (facade_backend fuel json_loads file) b) = Inr (int (length (waiting_prefill (fac_scheduler b))))"
    by (rule waiting_count_status) (simp add: facade_backend_def facade_status_lookup scheduler_status_lookup)
qed

text \<open>The requests waiting anywhere before their prefill, and what a worker does with accepted requests.\<close>

definition worker_backlog :: "worker \<Rightarrow> int" where
  "worker_backlog w = int (length (waiting_prefill (sched_of w))) + int (length (wk_pending w))"

definition worker_takes :: "GRServingRequest list \<Rightarrow> worker \<Rightarrow> worker \<Rightarrow> bool" where
  "worker_takes rs w w' \<longleftrightarrow> w' = w\<lparr>wk_pending := wk_pending w @ rs, wk_submitted := wk_submitted w + int (length rs)\<rparr>"

interpretation worker_be: submission_backend "worker_backend fuel ended json_loads file" worker_backlog worker_takes
proof
  fix r rs b b' e i ids
  show "be_submit (worker_backend fuel ended json_loads file) r b = (Inl e, b') \<Longrightarrow> b' = b"
    by (auto simp: worker_backend_def worker_submit_def bind_st_def split: sum.splits)
  show "be_submit_many (worker_backend fuel ended json_loads file) rs b = (Inl e, b') \<Longrightarrow> b' = b"
    by (auto simp: worker_backend_def worker_submit_many_def bind_st_def split: sum.splits)
  show "be_submit (worker_backend fuel ended json_loads file) r b = (Inr i, b') \<Longrightarrow> i = request_id r \<and> worker_takes [r] b b'"
    by (auto simp: worker_backend_def worker_submit_def worker_takes_def bind_st_def split: sum.splits)
  show "be_submit_many (worker_backend fuel ended json_loads file) rs b = (Inr ids, b') \<Longrightarrow> ids = map request_id rs \<and> worker_takes rs b b'"
    by (auto simp: worker_backend_def worker_submit_many_def worker_takes_def bind_st_def split: sum.splits)
  show "worker_takes rs b b' \<Longrightarrow> worker_backlog b' = worker_backlog b + int (length rs)"
    by (simp add: worker_takes_def worker_backlog_def)
  show "waiting_count (be_status (worker_backend fuel ended json_loads file) b) = Inr (worker_backlog b)"
    by (rule waiting_count_status)
      (simp add: worker_backend_def status_of_worker_def Let_def dict_lookup status_int_def facade_status_lookup scheduler_status_lookup
        pending_count_def worker_backlog_def)
qed

section \<open>Theorems\<close>


text \<open>with an API key configured nothing but the two health routes can be reached without it: every other
  request whose \<open>Authorization\<close> or key header does not carry the key is answered 401 or 403, and the
  backend is not touched, whatever backend it is.\<close>

theorem no_key_no_access:
  assumes "ad_api_key a = Some key" and "auth_token_from_headers hs (ad_api_key_header a) \<noteq> Some key"
    and "route_path path = Inr route" and "\<not> (map upper_char meth = ''GET'' \<and> (route = [''health''] \<or> route = [''ready'']))"
  shows "\<exists>resp. handle B a env meth path body hs b = Some (Inr resp, b) \<and> http_status resp \<in> {401, 403}"
proof -
  obtain e where "validate_auth a (map upper_char meth) route hs = Inl (AdapterError e)" "err_status e \<in> {401, 403}"
    using assms by (cases "auth_token_from_headers hs (ad_api_key_header a)") (auto simp: validate_auth_def adapter_error_def)
  then show ?thesis using assms(3) by (auto simp: handle_def error_response_def)
qed

text \<open>C19: rolling the catalog back over a worker is never answered. The worker has no \<open>rollback_item_catalog\<close>, so
  \<open>POST /catalog/rollback\<close>, which the configuration advertises, ends in an \<open>AttributeError\<close> that leaves \<open>handle\<close>; the
  same request over the bare facade is answered.\<close>

theorem rollback_over_worker_unanswered:
  assumes "ad_api_key a = None" and "allow_catalog_reload (ad_policy a)" and "map upper_char meth = ''POST''"
    and "route_path path = Inr [''catalog'', ''rollback'']"
  shows "handle (worker_backend fuel ended json_loads file) a env meth path NoBody hs w
      = Some (Inl (AttributeError ''no attribute rollback_item_catalog''), w)
    \<and> (\<exists>resp f'. handle (facade_backend fuel json_loads file) a env' meth path NoBody hs f = Some (Inr resp, f'))"
proof -
  have opened: "handle B a env meth path NoBody hs b = map_option (\<lambda>(r, b1). (case r of Inl e \<Rightarrow> error_mapping e | Inr resp \<Rightarrow> Inr resp, b1))
      (dispatch B a env ''POST'' [''catalog'', ''rollback''] [] b)" for B :: "'b backend_ops" and env b
  proof -
    have "bind_res (validate_auth a ''POST'' route hs) (\<lambda>_. bind_res (validate_body_size (ad_policy a) NoBody)
        (\<lambda>_. lift_exc (json_payload js NoBody))) = Inr []" for route js
      using assms(1) by (simp add: validate_auth_def validate_body_size_def json_payload_def)
    then show ?thesis unfolding handle_def assms(3,4) by simp
  qed
  have "dispatch (worker_backend fuel ended json_loads file) a env ''POST'' [''catalog'', ''rollback''] [] w
      = Some (Inl (Raised (AttributeError ''no attribute rollback_item_catalog'')), w)"
    using assms(2) by (simp add: dispatch_def post_route_def rollback_route_def worker_backend_def)
  moreover obtain x f' where d: "dispatch (facade_backend fuel json_loads file) a env' ''POST'' [''catalog'', ''rollback''] [] f = Some (x, f')"
    and x: "\<And>e. x = Inl e \<Longrightarrow> \<exists>m. e = Raised (RuntimeError m)"
    using assms(2)
    by (fastforce simp: dispatch_def post_route_def rollback_route_def facade_backend_def call_backend_def facade_rollback_def store_rollback_def
        bind_st_def Let_def split: option.splits sum.splits prod.splits)
  moreover have "\<exists>resp. (case x of Inl e \<Rightarrow> error_mapping e | Inr resp \<Rightarrow> Inr resp) = Inr resp"
    using x by (cases x) auto
  ultimately show ?thesis by (simp add: opened)
qed

section \<open>Witnesses\<close>

definition ex_adapter :: http_adapter where
  "ex_adapter = \<lparr>ad_policy = default_http_policy\<lparr>max_waiting_requests := Some 4, pol_max_beam_width := Some 8, max_context_len := Some 16\<rparr>,
     ad_factory = None, ad_api_key = None, ad_api_key_header = ''X-GR-API-Key'', ad_build_info = [], ad_request_logging = False,
     ad_log_level = ''summary''\<rparr>"

definition ex_env :: "worker http_env" where
  "ex_env = \<lparr>env_json = (\<lambda>_. None), env_str = (\<lambda>_. []), env_fresh_id = ''generate-0'', env_others = worker_turn, env_polls = 3\<rparr>"

definition ex_payload :: "(string, pyval) dict" where
  "ex_payload = [(''request_id'', PStr ''d''), (''input_ids'', PList [PList [PInt 5, PInt 6]]), (''max_decode_steps'', PInt 3),
     (''beam_width'', PInt 4), (''beam_width_policy'', PDict [(''type'', PStr ''score_margin''), (''score_margin'', PStr ''2.5'')]),
     (''timeout_ticks'', PInt 9)]"

abbreviation ex_backend :: "worker backend_ops" where
  "ex_backend \<equiv> worker_backend 10 True (\<lambda>_. None) (\<lambda>_. Inr [])"

lemma ex_submission:
  "case handle ex_backend ex_adapter ex_env ''post'' ''/submit?x=1'' (ObjectBody ex_payload) [] ex_worker of
     Some (Inr resp, w') \<Rightarrow> http_status resp = 202 \<and> map request_id (wk_pending w') = [''d'']
   | _ \<Rightarrow> False"
  by code_simp


theorem no_key_no_access_witness:
  "\<exists>resp. handle ex_backend (ex_adapter\<lparr>ad_api_key := Some ''secret''\<rparr>) ex_env ''POST'' ''/shutdown'' NoBody
       [(''authorization'', ''Bearer guess'')] ex_worker = Some (Inr resp, ex_worker) \<and> http_status resp \<in> {401, 403}"
proof -
  have "auth_token_from_headers [(''authorization'', ''Bearer guess'')] (ad_api_key_header ex_adapter) = Some ''guess''
      \<and> route_path ''/shutdown'' = Inr [''shutdown''] \<and> map upper_char ''POST'' = ''POST''"
    by code_simp
  then show ?thesis
    by (intro no_key_no_access [where key = "''secret''" and route = "[''shutdown'']"]) simp_all
qed

theorem rollback_over_worker_unanswered_witness:
  "handle ex_backend ex_adapter ex_env ''POST'' ''/catalog/rollback'' NoBody [] ex_worker
     = Some (Inl (AttributeError ''no attribute rollback_item_catalog''), ex_worker)"
proof -
  have c: "route_path ''/catalog/rollback'' = Inr [''catalog'', ''rollback''] \<and> map upper_char ''POST'' = ''POST''
      \<and> ad_api_key ex_adapter = None \<and> allow_catalog_reload (ad_policy ex_adapter)"
    by code_simp
  show ?thesis by (rule conjunct1 [OF rollback_over_worker_unanswered]) (use c in simp_all)
qed


end
