(* ===== verification/Spec2Isabelle.thy ===== *)
theory Spec2Isabelle
  imports GR_Beam_Policy GR_Beam_KV GR_Item_Constraints GR_Pools GR_Continuous_Props GR_Prefix_Props GR_Api GR_Decode_Loop
    GR_Executor_Props GR_HTTP_Props
begin

text \<open>
  The inference server of the semantic-id generative recommender, the Python package \<open>gr_inference\<close> under
  \<open>examples/sid-gr-inference/src\<close>. A request brings a prompt and asks for the best items of a catalog; an item
  is a short path of tokens. The server runs the prompt once (prefill), keeps its keys and values, and then
  extends a beam of token paths step by step (decode), each step choosing the best extensions of all
  live beams under a mask that only lets catalog paths through. Many requests are served together:
  a scheduler admits them under a KV-memory budget and decodes them in batches of equal shape.

  Parts and their interaction. \<open>GRHTTPServingAdapter\<close> (\<open>gr_serving/http.py\<close>) turns requests into calls of a facade or of the
  \<open>GRServingWorker\<close> (\<open>gr_serving/worker.py\<close>), whose thread hands pending submissions to the facade and ticks it.
  \<open>GRInProcessServingFacade\<close> (\<open>gr_serving/api.py\<close>) checks requests, resolves their catalogs and drives an executor.
  \<open>GRContinuousServingExecutor\<close> and its \<open>GRContinuousScheduler\<close> (\<open>gr_serving/continuous.py\<close>) hold a FIFO queue
  (\<open>gr_serving/queue.py\<close>), a lease allocator and slot pools (\<open>gr_serving/memory.py\<close>), and a prompt cache
  (\<open>gr_serving/prefix_cache.py\<close>). A decode step selects beams (\<open>gr_runtime/beam_search.py\<close>,
  \<open>batched_beam_search.py\<close>) under an item mask (\<open>gr_runtime/item_constraints.py\<close>) and a width policy
  (\<open>gr_scheduler/beam_policy.py\<close>) and appends them to the beam path (\<open>gr_kv/beam_path.py\<close>), which index tensors and
  history compaction read (\<open>gr_runtime/batched_topk_indices.py\<close>, \<open>beam_kv_compaction.py\<close>).

  Theories and what they model.
  \<^item> \<open>GR_Prelude\<close>: exceptions as values (\<open>py_result\<close>), dictionaries as association lists in insertion order,
    dynamic values, and the list lemmas the others share. \<open>GR_Tensor\<close>: floats in the order of \<open>torch.topk\<close>,
    tensors as shape and row-major data, and the torch operations the source calls as a record of
    parameters with their documented contract (\<open>torch_contract\<close>) and an instance that meets it (\<open>ref_torch\<close>).
  \<^item> \<open>GR_Beam_Policy\<close>: the width policies. \<open>GR_Beam_Path\<close>, \<open>GR_Beam_KV\<close>: beam paths, traces, ancestry, KV shapes,
    index tensors, compaction. The abstract content of a path is the list of its hypotheses (\<open>hyps\<close>);
    \<open>append_extends_traces\<close> and the two theorems on indices relate paths, traces and what the kernel reads.
  \<^item> \<open>GR_Item_Constraints\<close>: catalogs, token trie, masks and the versioned provider store with rollback. The
    locale \<open>path_index\<close> is the contract of a set of paths that the trie implements.
  \<^item> \<open>GR_Memory\<close>, \<open>GR_Pools\<close>: the KV byte estimate, the lease allocator, its paged subclass, the dense slot pools. The
    locale \<open>lease_allocator\<close> is what the scheduler relies on, interpreted on both allocators and on
    their sum.
  \<^item> \<open>GR_Request\<close>, \<open>GR_Queue\<close>: request validation, payload readers, the queue (locale \<open>request_queue\<close>), and the
    synchronous scheduler.
  \<^item> \<open>GR_Continuous\<close>: every operation of the continuous scheduler as a function from a state to a result or
    exception and the state it leaves. \<open>GR_Continuous_Inv\<close> proves its invariant kept by each operation,
    \<open>GR_Continuous_Tick\<close> by whole ticks with any executors that keep it (locale \<open>tick_executors\<close>) and
    defines the reachable states, \<open>GR_Continuous_Props\<close> holds the properties: no leak, budget, FIFO admission, one
    step per tick, deadlines, termination.
  \<^item> \<open>GR_Prefix_Cache\<close>, \<open>GR_Prefix_Match\<close>, \<open>GR_Prefix_Props\<close>: the page-aligned radix tree and its LRU entries, refined to a
    longest-common-prefix search over the retained entries.
  \<^item> \<open>GR_Beam_Search\<close>, \<open>GR_Generation\<close>, \<open>GR_Decode_Loop\<close>: beam selection for one request and for a batch and their
    agreement, logits processors, generation state, and the decode loop of a request, whose beams
    only ever spell catalog items and which never dead-ends.
  \<^item> \<open>GR_Beam_Metadata\<close>: beam results, details, policy metadata and log-probabilities of a response.
  \<^item> \<open>GR_Exec_Window\<close>, \<open>GR_Exec_Cache\<close>, \<open>GR_Exec_Decode\<close>, \<open>GR_Exec_Prefill\<close>, \<open>GR_Executor\<close>: the executor. Pool windows a CUDA graph may
    replay over; the memoised index tensors, which are shown to be the fresh ones; the two decode routes,
    general and tensor; prefill with the prompt cache; releases, ticks and runs.
  \<^item> \<open>GR_Exec_Refine\<close>: the tensor route refines the general one. \<open>GR_Exec_Inv\<close>, \<open>GR_Executor_Inv\<close>,
    \<open>GR_Executor_Props\<close>: the executor's invariant, kept by prefill, decode, releases and client calls over any model, and
    what follows from it for leases and pool slots of the reachable executors.
  \<^item> \<open>GR_Api\<close>: the facade over the scheduler, all-or-nothing submission and shutdown.
  \<^item> \<open>GR_Worker\<close>, \<open>GR_Worker_Props\<close>: the worker, as sequential operations and as the steps of interleaved clients
    and lock holder; order of delivery, service of every submission, and losses while draining.
  \<^item> \<open>GR_HTTP_Payload\<close>, \<open>GR_HTTP\<close>, \<open>GR_HTTP_Props\<close>: payloads, routes, limits and answers of the HTTP adapter over any
    backend; the locale \<open>submission_backend\<close> is what it relies on, interpreted on facade and worker.

  Conventions. A raise is \<open>Inl\<close> of an exception whose message is the fixed text of the source's message,
  without the interpolated values. A method that changes an object returns the changed record, also
  when it raises, so that what an exception leaves behind is visible. Python integers are \<open>int\<close>; a
  float is an exact rational or one of the three non-finite values, so rounding is not modelled.
  A tensor of keys and values is its shape and a function from its indices to an opaque block.

  Loops. A \<open>for\<close> loop is structural recursion on its list. The tree walks of the prefix cache recurse on
  the size of the node. \<open>run_until_empty\<close> may run for ever only if a tick makes no progress: \<open>run_loop\<close> takes
  fuel, and \<open>work s + 1\<close> of it, the queued and remaining decode steps, is proved to be enough; the executor's run has
  the same fuel. The decode loop runs \<open>max_steps\<close> turns, the worker's thread the number of turns asked for, and a
  generate call polls as often as fits in its 300 seconds.

  Parameters. The model's prefill, its extension of a cached prefix and its decode step, joining KV blocks,
  the contents of prompts, torch's top-k, log-sum-exp and log-softmax, the JSON parser, \<open>str\<close> of values that
  are no integers, generated ids, the file system and the engine of the synchronous scheduler are
  arguments of the definitions that use them; theorems that need something of them name it as a
  hypothesis (\<open>torch_contract\<close>, \<open>topk_bounded\<close>), and their witnesses instantiate it.

  Not modelled. Tensor arithmetic of the models and kernels and CUDA graph capture, which are numeric
  programs the scheduling and selection code treats as a black box; elapsed time, device placement and
  dtypes, which only metrics and torch see; the executor's status and metrics dictionaries, the environment
  settings of its constructor and the dummy requests that pad a CUDA graph batch; the serving engine and
  command lines, which wire the modelled parts together; sockets and sleeping threads; access times and
  lock counts in the radix tree, which nothing reads. The training programs, DynamicEmb, the KV-cache manager
  for HSTU and the attention kernels elsewhere in the repository are separate programs.
\<close>

end
